(* ===== verification/KPrelude.thy ===== *)
theory KPrelude
  imports Main "HOL-Library.Word" "HOL-Library.Multiset" "HOL-Library.Monad_Syntax"
begin

text \<open>
  Shared ground of the development: the machine types of the i386 kernel the
  repository configures (\<^verbatim>\<open>src/sys/i386/conf/BEASTIE2\<close>), the error numbers of
  \<^verbatim>\<open>src/sys/sys/errno.h\<close>, and the kernel heap.

  A heap is a list of slots. The address of an object is its index; a slot holds
  \<open>None\<close> once the object has been freed. \<^verbatim>\<open>malloc(..., M_WAITOK)\<close>, which never
  fails, appends a slot, so an address is never reused: the kernel only compares
  pointers for equality, so any allocator that returns a fresh address is
  represented. A dereference of \<open>None\<close> (a use after free), of a null pointer, or a
  failed \<^verbatim>\<open>KASSERT\<close> (the configuration compiles \<^verbatim>\<open>INVARIANTS\<close>) is the result
  \<open>None\<close> of the \<open>option\<close> monad in which the stateful operations are written.
\<close>

unbundle bit_operations_syntax

type_synonym addr = nat
type_synonym uid = "32 word"
type_synonym gid = "32 word"
type_synonym errno = int

abbreviation (input) EPERM :: errno where "EPERM \<equiv> 1"
abbreviation (input) ENOENT :: errno where "ENOENT \<equiv> 2"
abbreviation (input) ESRCH :: errno where "ESRCH \<equiv> 3"
abbreviation (input) EINTR :: errno where "EINTR \<equiv> 4"
abbreviation (input) E2BIG :: errno where "E2BIG \<equiv> 7"
abbreviation (input) ENOMEM :: errno where "ENOMEM \<equiv> 12"
abbreviation (input) EACCES :: errno where "EACCES \<equiv> 13"
abbreviation (input) EFAULT :: errno where "EFAULT \<equiv> 14"
abbreviation (input) EBUSY :: errno where "EBUSY \<equiv> 16"
abbreviation (input) EEXIST :: errno where "EEXIST \<equiv> 17"
abbreviation (input) EINVAL :: errno where "EINVAL \<equiv> 22"
abbreviation (input) EFBIG :: errno where "EFBIG \<equiv> 27"
abbreviation (input) ENOSPC :: errno where "ENOSPC \<equiv> 28"
abbreviation (input) ERANGE :: errno where "ERANGE \<equiv> 34"
abbreviation (input) EAGAIN :: errno where "EAGAIN \<equiv> 35"
abbreviation (input) ENAMETOOLONG :: errno where "ENAMETOOLONG \<equiv> 63"
abbreviation (input) ENOSYS :: errno where "ENOSYS \<equiv> 78"
abbreviation (input) EIDRM :: errno where "EIDRM \<equiv> 82"

text \<open>Collections: facts that carry the component proofs.\<close>

named_theorems heap_simps \<open>reading a heap after an update\<close>
named_theorems frame \<open>what an operation leaves alone\<close>

section \<open>The kernel heap\<close>

definition deref :: "'a option list \<Rightarrow> addr \<Rightarrow> 'a option" where
  "deref h a = (if a < length h then h ! a else None)"

definition deref_null :: "'a option list \<Rightarrow> addr option \<Rightarrow> 'a option" where
  "deref_null h p = (case p of None \<Rightarrow> None | Some a \<Rightarrow> deref h a)"

definition hstore :: "addr \<Rightarrow> 'a \<Rightarrow> 'a option list \<Rightarrow> 'a option list" where
  "hstore a v h = h[a := Some v]"

definition hfree :: "addr \<Rightarrow> 'a option list \<Rightarrow> 'a option list" where
  "hfree a h = h[a := None]"

definition halloc :: "'a \<Rightarrow> 'a option list \<Rightarrow> 'a option list" where
  "halloc v h = h @ [Some v]"

definition assert_opt :: "bool \<Rightarrow> unit option" where
  "assert_opt b = (if b then Some () else None)"

lemma assert_opt_simps [simp]:
  "assert_opt True = Some ()" "assert_opt False = None"
  by (simp_all add: assert_opt_def)

lemma deref_SomeD: "deref h a = Some v \<Longrightarrow> a < length h \<and> h ! a = Some v"
  by (simp add: deref_def split: if_splits)

lemma deref_hstore [heap_simps]:
  "deref (hstore a v h) b = (if b = a \<and> a < length h then Some v else deref h b)"
  by (simp add: deref_def hstore_def nth_list_update)

lemma deref_hfree [heap_simps]:
  "deref (hfree a h) b = (if b = a then None else deref h b)"
  by (simp add: deref_def hfree_def nth_list_update)

lemma deref_halloc [heap_simps]:
  "deref (halloc v h) b = (if b = length h then Some v else deref h b)"
  by (simp add: deref_def halloc_def nth_append)

lemma deref_fresh [simp]: "deref h (length h) = None"
  by (simp add: deref_def)

lemma length_heap [simp]:
  "length (hstore a v h) = length h"
  "length (hfree a h) = length h"
  "length (halloc v h) = Suc (length h)"
  by (simp_all add: hstore_def hfree_def halloc_def)

lemma deref_null_simps [simp]:
  "deref_null h None = None" "deref_null h (Some a) = deref h a"
  by (simp_all add: deref_null_def)

section \<open>Total correctness in the option monad\<close>

text \<open>\<open>runs m Q\<close>: the computation does not fault and its result satisfies \<open>Q\<close>.\<close>

definition runs :: "'a option \<Rightarrow> ('a \<Rightarrow> bool) \<Rightarrow> bool" where
  "runs m Q \<longleftrightarrow> (\<exists>x. m = Some x \<and> Q x)"

lemma runs_Some [simp]: "runs (Some x) Q \<longleftrightarrow> Q x"
  by (simp add: runs_def)

lemma runs_None [simp]: "\<not> runs None Q"
  by (simp add: runs_def)

lemma runs_bind: "runs m P \<Longrightarrow> (\<And>x. P x \<Longrightarrow> runs (f x) Q) \<Longrightarrow> runs (m \<bind> f) Q"
  by (auto simp: runs_def)

lemma runs_weaken: "runs m P \<Longrightarrow> (\<And>x. P x \<Longrightarrow> Q x) \<Longrightarrow> runs m Q"
  by (auto simp: runs_def)

lemma runs_if: "(b \<Longrightarrow> runs m Q) \<Longrightarrow> (\<not> b \<Longrightarrow> runs n Q) \<Longrightarrow> runs (if b then m else n) Q"
  by simp

section \<open>Multisets of what a heap points to\<close>

text \<open>
  \<open>heap_mset f h\<close> collects the references \<open>f v\<close> of every live object \<open>v\<close> of the heap.
  Each heap operation exchanges the references of one object; the laws are stated
  as sums, so that no multiset subtraction is needed.
\<close>

definition slot_mset :: "('a \<Rightarrow> 'b multiset) \<Rightarrow> 'a option \<Rightarrow> 'b multiset" where
  "slot_mset f s = (case s of None \<Rightarrow> {#} | Some v \<Rightarrow> f v)"

definition heap_mset :: "('a \<Rightarrow> 'b multiset) \<Rightarrow> 'a option list \<Rightarrow> 'b multiset" where
  "heap_mset f h = sum_list (map (slot_mset f) h)"

lemma slot_mset_simps [simp]:
  "slot_mset f None = {#}" "slot_mset f (Some v) = f v"
  by (simp_all add: slot_mset_def)

lemma sum_list_update_mset:
  fixes g :: "'c \<Rightarrow> 'b multiset"
  assumes "i < length xs"
  shows "sum_list (map g (xs[i := y])) + g (xs ! i) = sum_list (map g xs) + g y"
  using assms
proof (induction xs arbitrary: i)
  case Nil
  then show ?case by simp
next
  case (Cons x xs)
  then show ?case by (cases i) (auto simp: ac_simps)
qed

lemma heap_mset_hstore:
  assumes "deref h a = Some v"
  shows "heap_mset f (hstore a w h) + f v = heap_mset f h + f w"
  using sum_list_update_mset [of a h "slot_mset f" "Some w"] deref_SomeD [OF assms]
  by (simp add: heap_mset_def hstore_def)

lemma hstore_same: "deref h a = Some v \<Longrightarrow> hstore a v h = h"
  by (auto simp: hstore_def deref_def list_update_same_conv split: if_splits)

lemma heap_mset_hstore_same:
  assumes "deref h a = Some v" and "f w = f v"
  shows "heap_mset f (hstore a w h) = heap_mset f h"
  using heap_mset_hstore [OF assms(1), of f w] assms(2) by simp

lemma heap_mset_hfree:
  assumes "deref h a = Some v"
  shows "heap_mset f (hfree a h) + f v = heap_mset f h"
  using sum_list_update_mset [of a h "slot_mset f" None] deref_SomeD [OF assms]
  by (simp add: heap_mset_def hfree_def)

lemma heap_mset_halloc [simp]: "heap_mset f (halloc v h) = heap_mset f h + f v"
  by (simp add: heap_mset_def halloc_def)

lemma heap_mset_mem:
  assumes "deref h a = Some v" and "x \<in># f v"
  shows "x \<in># heap_mset f h"
proof -
  have "heap_mset f h = heap_mset f (hfree a h) + f v"
    using heap_mset_hfree [OF assms(1), of f] by simp
  then show ?thesis using assms(2) by simp
qed

lemma mset_map_update:
  assumes "i < length xs"
  shows "mset (map g (xs[i := y])) + {#g (xs ! i)#} = mset (map g xs) + {#g y#}"
  using assms
proof (induction xs arbitrary: i)
  case Nil
  then show ?case by simp
next
  case (Cons x xs)
  then show ?case by (cases i) (auto simp: ac_simps)
qed

section \<open>Words\<close>

lemma sint_eq_unat:
  fixes w :: "32 word"
  assumes "unat w < 2 ^ 31"
  shows "sint w = int (unat w)"
proof -
  define n where "n = unat w"
  have "n < 2 ^ 31" and u: "uint w = int n"
    using assms by (simp_all add: n_def)
  then have "signed_take_bit 31 (int n) = int n"
    by (intro signed_take_bit_int_eq_self) simp_all
  then show ?thesis by (simp add: sint_uint u n_def [symmetric])
qed

end
