(* ===== verification/Refcount.thy ===== *)
theory Refcount
  imports KPrelude
begin

text \<open>
  Reference counts (\<^verbatim>\<open>src/sys/sys/refcount.h\<close>) and the contract a store of counted
  objects offers to the code that holds references into it.
\<close>

definition refcount_acquire :: "32 word \<Rightarrow> 32 word" where
  "refcount_acquire c = c + 1"

definition refcount_release :: "32 word \<Rightarrow> (bool \<times> 32 word) option" where
  "refcount_release c =
     do { let old = c;
          assert_opt (0 < old);
          Some (old = 1, c - 1) }"

lemma unat_refcount_acquire:
  "unat c + 1 < 2 ^ 32 \<Longrightarrow> unat (refcount_acquire c) = unat c + 1"
  by (simp add: refcount_acquire_def unat_word_ariths)

lemma refcount_release_Suc:
  assumes "unat c = Suc n"
  shows "\<exists>c'. refcount_release c = Some (n = 0, c') \<and> unat c' = n"
proof -
  have "c \<noteq> 0" using assms by auto
  then have "0 < c" by (simp add: word_neq_0_conv)
  moreover have "(c = 1) = (n = 0)"
    using assms by (simp add: word_unat_eq_iff)
  moreover have "unat (c - 1) = n"
    using assms \<open>c \<noteq> 0\<close> by (simp add: unat_minus_one)
  ultimately show ?thesis by (simp add: refcount_release_def)
qed

section \<open>The contract of a counted store\<close>

text \<open>
  \<open>backed refs s H\<close>: the references that exist, the multiset \<open>H\<close>, are exactly the ones
  the store has counted.
\<close>

definition ref_value :: "nat option \<Rightarrow> nat" where
  "ref_value r = (case r of None \<Rightarrow> 0 | Some n \<Rightarrow> n)"

definition backed :: "('s \<Rightarrow> addr \<Rightarrow> nat option) \<Rightarrow> 's \<Rightarrow> addr multiset \<Rightarrow> bool" where
  "backed refs s H \<longleftrightarrow> (\<forall>a. count H a = ref_value (refs s a))"

lemma ref_value_simps [simp]: "ref_value None = 0" "ref_value (Some n) = n"
  by (simp_all add: ref_value_def)

lemma backed_refs:
  assumes "backed refs s H" and "a \<in># H"
  shows "refs s a = Some (count H a)"
proof -
  have "count H a = ref_value (refs s a)"
    using assms(1) by (simp add: backed_def)
  moreover have "0 < count H a"
    using assms(2) by simp
  ultimately show ?thesis by (cases "refs s a") auto
qed

text \<open>
  A store whose objects are counted. \<open>hold\<close> takes one more reference to a live object,
  \<open>rele\<close> gives one up; the object may go away with the last reference and no sooner.
  \<open>attr\<close> is everything about an object but its count, which neither operation touches.
  A count below \<open>limit\<close> has not wrapped.
\<close>

locale refcounted =
  fixes inv :: "'s \<Rightarrow> bool"
    and refs :: "'s \<Rightarrow> addr \<Rightarrow> nat option"
    and attr :: "'s \<Rightarrow> addr \<Rightarrow> 'b option"
    and hold :: "addr \<Rightarrow> 's \<Rightarrow> 's option"
    and rele :: "addr \<Rightarrow> 's \<Rightarrow> 's option"
    and limit :: nat
  assumes hold_ok: "\<lbrakk>inv s; refs s a = Some n; 0 < n; n + 1 < limit\<rbrakk> \<Longrightarrow>
      \<exists>s'. hold a s = Some s' \<and> inv s' \<and> refs s' = (refs s)(a \<mapsto> n + 1) \<and> attr s' = attr s"
    and rele_ok: "\<lbrakk>inv s; refs s a = Some (Suc n)\<rbrakk> \<Longrightarrow>
      \<exists>s'. rele a s = Some s' \<and> inv s' \<and> (\<forall>b. b \<noteq> a \<longrightarrow> refs s' b = refs s b) \<and>
           ref_value (refs s' a) = n \<and>
           (\<forall>b. refs s' b \<noteq> None \<longrightarrow> attr s' b = attr s b)"
begin

lemma hold_backed:
  assumes "inv s" and "backed refs s H" and "a \<in># H" and "count H a + 1 < limit"
  shows "\<exists>s'. hold a s = Some s' \<and> inv s' \<and> backed refs s' (add_mset a H) \<and> attr s' = attr s"
proof -
  have r: "refs s a = Some (count H a)" and pos: "0 < count H a"
    using backed_refs [OF assms(2,3)] assms(3) by auto
  obtain s' where "hold a s = Some s'" "inv s'" "refs s' = (refs s)(a \<mapsto> count H a + 1)"
      "attr s' = attr s"
    using hold_ok [OF assms(1) r pos assms(4)] by auto
  then show ?thesis using assms(2) by (auto simp: backed_def)
qed

lemma rele_backed:
  assumes "inv s" and "backed refs s (add_mset a H)"
  shows "\<exists>s'. rele a s = Some s' \<and> inv s' \<and> backed refs s' H \<and>
           (\<forall>b. refs s' b \<noteq> None \<longrightarrow> attr s' b = attr s b)"
proof -
  have r: "refs s a = Some (Suc (count H a))"
    using backed_refs [OF assms(2), of a] by simp
  obtain s' where s': "rele a s = Some s'" "inv s'"
      "\<forall>b. b \<noteq> a \<longrightarrow> refs s' b = refs s b" "ref_value (refs s' a) = count H a"
      "\<forall>b. refs s' b \<noteq> None \<longrightarrow> attr s' b = attr s b"
    using rele_ok [OF assms(1) r] by blast
  have "backed refs s' H"
    unfolding backed_def
  proof
    fix b
    show "count H b = ref_value (refs s' b)"
      using assms(2) s'(3,4) by (cases "b = a") (auto simp: backed_def split: if_splits)
  qed
  then show ?thesis using s' by blast
qed

end

end
