(* ===== verification/Uidinfo.thy ===== *)
theory Uidinfo
  imports Refcount
begin

text \<open>
  The per-user accounting records of \<^verbatim>\<open>src/sys/kern/kern_resource.c\<close>: the hash
  table of \<^verbatim>\<open>struct uidinfo\<close>, their reference counts, and the process, socket
  buffer and pseudo-terminal counters. \<^verbatim>\<open>long\<close> is 32 bits wide on this platform;
  counters and reference counts are words, so they wrap as the hardware does.
\<close>

section \<open>State\<close>

record uidinfo =
  ui_sbsize :: "32 word"
  ui_proccnt :: "32 word"
  ui_ptscnt :: "32 word"
  ui_uid :: uid
  ui_ref :: "32 word"

record ui_state =
  ui_heap :: "uidinfo option list"
  uihashtbl :: "32 word \<Rightarrow> addr list"
  uihash :: "32 word"

definition ui_at :: "ui_state \<Rightarrow> addr \<Rightarrow> uidinfo option" where
  "ui_at s a = deref (ui_heap s) a"

definition ui_put :: "addr \<Rightarrow> uidinfo \<Rightarrow> ui_state \<Rightarrow> ui_state" where
  "ui_put a u s = s\<lparr>ui_heap := hstore a u (ui_heap s)\<rparr>"

text \<open>\<^verbatim>\<open>malloc(sizeof(*uip), M_UIDINFO, M_WAITOK | M_ZERO)\<close>\<close>

definition uidinfo_zero :: uidinfo where
  "uidinfo_zero = \<lparr>ui_sbsize = 0, ui_proccnt = 0, ui_ptscnt = 0, ui_uid = 0, ui_ref = 0\<rparr>"

definition UIHASH :: "uid \<Rightarrow> ui_state \<Rightarrow> addr list" where
  "UIHASH uid s = uihashtbl s (uid AND uihash s)"

section \<open>Operations\<close>

fun uilookup_chain :: "uidinfo option list \<Rightarrow> uid \<Rightarrow> addr list \<Rightarrow> addr option option" where
  "uilookup_chain h uid [] = Some None"
| "uilookup_chain h uid (a # as) =
     do { u \<leftarrow> deref h a;
          if ui_uid u = uid then Some (Some a) else uilookup_chain h uid as }"

definition uilookup :: "uid \<Rightarrow> ui_state \<Rightarrow> addr option option" where
  "uilookup uid s = uilookup_chain (ui_heap s) uid (UIHASH uid s)"

definition uihold :: "addr \<Rightarrow> ui_state \<Rightarrow> ui_state option" where
  "uihold uip s =
     do { u \<leftarrow> ui_at s uip;
          Some (ui_put uip (u\<lparr>ui_ref := refcount_acquire (ui_ref u)\<rparr>) s) }"

text \<open>
  \<^verbatim>\<open>uifind\<close> drops the hash lock around \<^verbatim>\<open>malloc\<close>. What other threads do to the
  table in that window is the argument \<open>interf\<close>; the second lookup is there because
  of it.
\<close>

definition uifind :: "(ui_state \<Rightarrow> ui_state) \<Rightarrow> uid \<Rightarrow> ui_state \<Rightarrow> (addr \<times> ui_state) option" where
  "uifind interf uid s =
     do { r \<leftarrow> uilookup uid s;
          (uip, s) \<leftarrow>
            (case r of
               Some uip \<Rightarrow> Some (uip, s)
             | None \<Rightarrow>
                 (let s = interf s;
                      uip = length (ui_heap s);
                      s = s\<lparr>ui_heap := halloc uidinfo_zero (ui_heap s)\<rparr>
                  in do { r2 \<leftarrow> uilookup uid s;
                          case r2 of
                            Some old_uip \<Rightarrow>
                              Some (old_uip, s\<lparr>ui_heap := hfree uip (ui_heap s)\<rparr>)
                          | None \<Rightarrow>
                              (let s = ui_put uip (uidinfo_zero\<lparr>ui_ref := 0, ui_uid := uid\<rparr>) s;
                                   b = uid AND uihash s
                               in Some (uip, s\<lparr>uihashtbl :=
                                    (uihashtbl s)(b := uip # uihashtbl s b)\<rparr>)) }));
          s \<leftarrow> uihold uip s;
          Some (uip, s) }"

definition ui_list_remove :: "addr \<Rightarrow> ui_state \<Rightarrow> ui_state" where
  "ui_list_remove uip s = s\<lparr>uihashtbl := (\<lambda>b. remove1 uip (uihashtbl s b))\<rparr>"

definition uifree :: "addr \<Rightarrow> ui_state \<Rightarrow> ui_state option" where
  "uifree uip s =
     do { u \<leftarrow> ui_at s uip;
          let old = ui_ref u;
          if 1 < old then Some (ui_put uip (u\<lparr>ui_ref := old - 1\<rparr>) s)
          else do {
            (last, c) \<leftarrow> refcount_release (ui_ref u);
            let s = ui_put uip (u\<lparr>ui_ref := c\<rparr>) s;
            if last
            then (let s = ui_list_remove uip s
                  in Some (s\<lparr>ui_heap := hfree uip (ui_heap s)\<rparr>))
            else Some s } }"

text \<open>
  \<^verbatim>\<open>atomic_fetchadd_long\<close> returns an unsigned \<^verbatim>\<open>u_long\<close>, so the sum that is compared with the limit is unsigned: a
  negative counter is over every limit below \<open>2 ^ 31\<close>.
\<close>

definition chgproccnt :: "addr \<Rightarrow> int \<Rightarrow> int \<Rightarrow> ui_state \<Rightarrow> (bool \<times> ui_state) option" where
  "chgproccnt uip diff maxval s =
     do { u \<leftarrow> ui_at s uip;
          let s' = ui_put uip (u\<lparr>ui_proccnt := ui_proccnt u + word_of_int diff\<rparr>) s;
          if 0 < diff \<and> maxval \<noteq> 0 then
            (if maxval < uint (ui_proccnt u + word_of_int diff) then Some (False, s)
             else Some (True, s'))
          else Some (True, s') }"

definition chgsbsize ::
  "addr \<Rightarrow> 32 word \<Rightarrow> 32 word \<Rightarrow> int \<Rightarrow> ui_state \<Rightarrow> (bool \<times> 32 word \<times> ui_state) option" where
  "chgsbsize uip hiwat to maxval s =
     do { u \<leftarrow> ui_at s uip;
          let diff = sint (to - hiwat);
          let s' = ui_put uip (u\<lparr>ui_sbsize := ui_sbsize u + word_of_int diff\<rparr>) s;
          if 0 < diff then
            (if maxval < uint (ui_sbsize u + word_of_int diff) then Some (False, hiwat, s)
             else Some (True, to, s'))
          else Some (True, to, s') }"

definition chgptscnt :: "addr \<Rightarrow> int \<Rightarrow> int \<Rightarrow> ui_state \<Rightarrow> (bool \<times> ui_state) option" where
  "chgptscnt uip diff maxval s =
     do { u \<leftarrow> ui_at s uip;
          let s' = ui_put uip (u\<lparr>ui_ptscnt := ui_ptscnt u + word_of_int diff\<rparr>) s;
          if 0 < diff \<and> maxval \<noteq> 0 then
            (if maxval < uint (ui_ptscnt u + word_of_int diff) then Some (False, s)
             else Some (True, s'))
          else Some (True, s') }"

section \<open>Invariant\<close>

text \<open>
  Every live record is on the chain of its own hash bucket, the chains hold live
  records only, once, and there is one record per user.
\<close>

definition ui_uids :: "ui_state \<Rightarrow> addr \<Rightarrow> uid option" where
  "ui_uids s a = map_option ui_uid (ui_at s a)"

definition ui_hashed :: "ui_state \<Rightarrow> bool" where
  "ui_hashed s \<longleftrightarrow>
     (\<forall>b. distinct (uihashtbl s b)) \<and>
     (\<forall>b. \<forall>a \<in> set (uihashtbl s b). \<exists>i. ui_uids s a = Some i \<and> i AND uihash s = b) \<and>
     (\<forall>a i. ui_uids s a = Some i \<longrightarrow> a \<in> set (UIHASH i s))"

definition ui_unique :: "ui_state \<Rightarrow> bool" where
  "ui_unique s \<longleftrightarrow> (\<forall>a b i. ui_uids s a = Some i \<longrightarrow> ui_uids s b = Some i \<longrightarrow> a = b)"

definition ui_inv :: "ui_state \<Rightarrow> bool" where
  "ui_inv s \<longleftrightarrow> ui_hashed s \<and> ui_unique s"

definition ui_refs :: "ui_state \<Rightarrow> addr \<Rightarrow> nat option" where
  "ui_refs s a = map_option (\<lambda>u. unat (ui_ref u)) (ui_at s a)"

definition ui_attr :: "ui_state \<Rightarrow> addr \<Rightarrow> uidinfo option" where
  "ui_attr s a = map_option (\<lambda>u. u\<lparr>ui_ref := 0\<rparr>) (ui_at s a)"

lemma ui_at_put [heap_simps]:
  "ui_at s a = Some u \<Longrightarrow> ui_at (ui_put a v s) b = (if b = a then Some v else ui_at s b)"
  by (auto simp: ui_at_def ui_put_def deref_hstore dest: deref_SomeD)

lemma ui_put_simps [simp]:
  "uihashtbl (ui_put a v s) = uihashtbl s" "uihash (ui_put a v s) = uihash s"
  "UIHASH uid (ui_put a v s) = UIHASH uid s"
  by (simp_all add: ui_put_def UIHASH_def)

lemma ui_inv_cong:
  assumes "ui_uids s' = ui_uids s" and "uihashtbl s' = uihashtbl s" and "uihash s' = uihash s"
  shows "ui_inv s' = ui_inv s"
  using assms by (simp add: ui_inv_def ui_hashed_def ui_unique_def UIHASH_def)

lemma ui_inv_put:
  assumes "ui_inv s" and "ui_at s a = Some u" and "ui_uid v = ui_uid u"
  shows "ui_inv (ui_put a v s)"
proof -
  have "ui_uids (ui_put a v s) = ui_uids s"
    using assms(2,3) by (auto simp: ui_uids_def ui_at_put)
  then show ?thesis using assms(1) ui_inv_cong [of "ui_put a v s" s] by simp
qed

lemma ui_refs_put:
  assumes "ui_at s a = Some u"
  shows "ui_refs (ui_put a v s) = (ui_refs s)(a \<mapsto> unat (ui_ref v))"
  using assms by (auto simp: ui_refs_def ui_at_put)

lemma ui_attr_put_ref:
  assumes "ui_at s a = Some u"
  shows "ui_attr (ui_put a (u\<lparr>ui_ref := c\<rparr>) s) = ui_attr s"
  using assms by (auto simp: ui_attr_def ui_at_put)

lemma ui_refs_SomeD: "ui_refs s a = Some n \<Longrightarrow> \<exists>u. ui_at s a = Some u \<and> unat (ui_ref u) = n"
  by (auto simp: ui_refs_def)

text \<open>Taking a record off its chain and freeing it keeps the table well formed.\<close>

definition ui_drop :: "addr \<Rightarrow> ui_state \<Rightarrow> ui_state" where
  "ui_drop a s = (ui_list_remove a s)\<lparr>ui_heap := hfree a (ui_heap s)\<rparr>"

lemma ui_at_drop [heap_simps]: "ui_at (ui_drop a s) b = (if b = a then None else ui_at s b)"
  by (simp add: ui_drop_def ui_at_def deref_hfree)

lemma ui_inv_drop:
  assumes "ui_inv s"
  shows "ui_inv (ui_drop a s)"
proof -
  have d: "distinct (uihashtbl s b)" for b
    using assms by (simp add: ui_inv_def ui_hashed_def)
  have t: "uihashtbl (ui_drop a s) b = remove1 a (uihashtbl s b)"
      "uihash (ui_drop a s) = uihash s" for b
    by (simp_all add: ui_drop_def ui_list_remove_def)
  have u: "ui_uids (ui_drop a s) b = (if b = a then None else ui_uids s b)" for b
    by (simp add: ui_uids_def ui_at_drop)
  show ?thesis
    using assms unfolding ui_inv_def ui_hashed_def ui_unique_def UIHASH_def
    by (simp add: t u set_remove1_eq [OF d])
qed

lemma uifree_last:
  assumes "ui_at s a = Some u" and "unat (ui_ref u) = 1"
  shows "uifree a s = Some (ui_drop a (ui_put a (u\<lparr>ui_ref := 0\<rparr>) s))"
proof -
  have "ui_ref u = 1" using assms(2) by (simp add: word_unat_eq_iff)
  then show ?thesis
    using assms(1) by (simp add: uifree_def refcount_release_def ui_drop_def ui_list_remove_def Let_def)
qed

lemma uifree_more:
  assumes "ui_at s a = Some u" and "unat (ui_ref u) = Suc (Suc n)"
  shows "uifree a s = Some (ui_put a (u\<lparr>ui_ref := ui_ref u - 1\<rparr>) s) \<and> unat (ui_ref u - 1) = Suc n"
proof -
  have "1 < ui_ref u" "ui_ref u \<noteq> 0"
    using assms(2) by (auto simp: word_less_nat_alt)
  then show ?thesis
    using assms by (simp add: uifree_def unat_minus_one)
qed

section \<open>The table is a counted store\<close>

lemma uihold_counts:
  assumes "ui_inv s" and "ui_refs s a = Some n" and "n + 1 < 2 ^ 32"
  shows "\<exists>s'. uihold a s = Some s' \<and> ui_inv s' \<and> ui_refs s' = (ui_refs s)(a \<mapsto> n + 1) \<and>
    ui_attr s' = ui_attr s"
proof -
  obtain u where u: "ui_at s a = Some u" "unat (ui_ref u) = n"
    using assms(2) by (auto simp: ui_refs_def)
  then show ?thesis
    using assms by (auto simp: uihold_def ui_inv_put ui_refs_put ui_attr_put_ref
        unat_refcount_acquire)
qed

lemma uifree_counts:
  assumes "ui_inv s" and "ui_refs s a = Some (Suc n)"
  shows "\<exists>s'. uifree a s = Some s' \<and> ui_inv s' \<and> (\<forall>b. b \<noteq> a \<longrightarrow> ui_refs s' b = ui_refs s b) \<and>
    ref_value (ui_refs s' a) = n \<and> (\<forall>b. ui_refs s' b \<noteq> None \<longrightarrow> ui_attr s' b = ui_attr s b)"
proof -
  obtain u where u: "ui_at s a = Some u" "unat (ui_ref u) = Suc n"
    using assms(2) by (auto simp: ui_refs_def)
  show ?thesis
  proof (cases n)
    case 0
    let ?s = "ui_drop a (ui_put a (u\<lparr>ui_ref := 0\<rparr>) s)"
    have "ui_inv ?s" by (simp add: ui_inv_drop ui_inv_put [OF assms(1) u(1)])
    moreover have "ui_at ?s b = (if b = a then None else ui_at s b)" for b
      by (simp add: ui_at_drop ui_at_put [OF u(1)])
    moreover have "uifree a s = Some ?s"
      using uifree_last [OF u(1)] u(2) 0 by simp
    ultimately show ?thesis
      using 0 by (auto simp: ui_refs_def ui_attr_def)
  next
    case (Suc m)
    note f = uifree_more [OF u(1) u(2) [unfolded Suc]]
    then show ?thesis
      using assms(1) u(1) Suc
      by (auto simp: ui_inv_put ui_refs_put ui_attr_put_ref)
  qed
qed

interpretation ui: refcounted ui_inv ui_refs ui_attr uihold uifree "2 ^ 32"
  by unfold_locales (rule uihold_counts uifree_counts, assumption+)+

section \<open>Finding a record\<close>

lemma uilookup_chain_find:
  assumes "\<forall>a \<in> set as. deref h a \<noteq> None"
  shows "uilookup_chain h uid as = Some (find (\<lambda>a. map_option ui_uid (deref h a) = Some uid) as)"
  using assms by (induction as) auto

lemma ui_chain_live: "ui_inv s \<Longrightarrow> a \<in> set (UIHASH uid s) \<Longrightarrow> ui_at s a \<noteq> None"
  by (force simp: ui_inv_def ui_hashed_def UIHASH_def ui_uids_def)

lemma uilookup_Some:
  assumes "ui_inv s"
  shows "\<exists>r. uilookup uid s = Some r \<and> (\<forall>a. r = Some a \<longleftrightarrow> ui_uids s a = Some uid)"
proof -
  let ?p = "\<lambda>a. ui_uids s a = Some uid"
  have "\<forall>a \<in> set (UIHASH uid s). deref (ui_heap s) a \<noteq> None"
    using ui_chain_live [OF assms] by (simp add: ui_at_def)
  then have "uilookup uid s = Some (find ?p (UIHASH uid s))"
    by (simp add: uilookup_def uilookup_chain_find ui_uids_def ui_at_def)
  moreover have "find ?p (UIHASH uid s) = Some a \<longleftrightarrow> ?p a" for a
  proof
    assume "find ?p (UIHASH uid s) = Some a"
    then show "?p a" by (auto simp: find_Some_iff)
  next
    assume a: "?p a"
    then have "a \<in> set (UIHASH uid s)"
      using assms by (simp add: ui_inv_def ui_hashed_def)
    then have "find ?p (UIHASH uid s) \<noteq> None"
      using a by (auto simp: find_None_iff)
    then obtain b where b: "find ?p (UIHASH uid s) = Some b" by auto
    then have "?p b" by (auto simp: find_Some_iff)
    then have "b = a"
      using a assms unfolding ui_inv_def ui_unique_def by blast
    then show "find ?p (UIHASH uid s) = Some a" using b by simp
  qed
  ultimately show ?thesis by blast
qed

text \<open>The record \<^verbatim>\<open>uifind\<close> has just allocated is on no chain yet, so the second lookup
  does not see it.\<close>

definition ui_malloc :: "ui_state \<Rightarrow> ui_state" where
  "ui_malloc s = s\<lparr>ui_heap := halloc uidinfo_zero (ui_heap s)\<rparr>"

definition ui_enter :: "uid \<Rightarrow> ui_state \<Rightarrow> ui_state" where
  "ui_enter uid s =
     (let a = length (ui_heap s); b = uid AND uihash s
      in s\<lparr>ui_heap := halloc (uidinfo_zero\<lparr>ui_uid := uid\<rparr>) (ui_heap s),
           uihashtbl := (uihashtbl s)(b := a # uihashtbl s b)\<rparr>)"

lemma uilookup_malloc:
  assumes "ui_inv s"
  shows "uilookup uid (ui_malloc s) = uilookup uid s"
proof -
  have live: "\<forall>a \<in> set (UIHASH uid s). deref (ui_heap s) a \<noteq> None"
    using ui_chain_live [OF assms] by (simp add: ui_at_def)
  then have "\<forall>a \<in> set (UIHASH uid s). a \<noteq> length (ui_heap s)"
    by (metis deref_fresh)
  then have "uilookup_chain (halloc uidinfo_zero (ui_heap s)) uid (UIHASH uid s)
      = uilookup_chain (ui_heap s) uid (UIHASH uid s)"
    using live
    by (subst (1 2) uilookup_chain_find)
       (auto simp: deref_halloc intro!: arg_cong [where f = Some] find_cong)
  then show ?thesis by (simp add: uilookup_def ui_malloc_def UIHASH_def)
qed

lemma ui_at_enter:
  "ui_at (ui_enter uid s) a =
     (if a = length (ui_heap s) then Some (uidinfo_zero\<lparr>ui_uid := uid\<rparr>) else ui_at s a)"
  by (simp add: ui_enter_def ui_at_def deref_halloc Let_def)

lemma ui_inv_enter:
  assumes inv: "ui_inv s" and new: "\<forall>a. ui_uids s a \<noteq> Some uid"
  shows "ui_inv (ui_enter uid s)"
proof -
  let ?n = "length (ui_heap s)"
  have uids: "ui_uids (ui_enter uid s) a = (if a = ?n then Some uid else ui_uids s a)" for a
    by (simp add: ui_uids_def ui_at_enter)
  have tbl: "uihashtbl (ui_enter uid s) b =
      (if b = uid AND uihash s then ?n # uihashtbl s b else uihashtbl s b)"
      "uihash (ui_enter uid s) = uihash s" for b
    by (simp_all add: ui_enter_def Let_def)
  have fresh: "ui_uids s ?n = None"
    by (simp add: ui_uids_def ui_at_def)
  then have "?n \<notin> set (uihashtbl s b)" for b
    using inv unfolding ui_inv_def ui_hashed_def by force
  then have "ui_hashed (ui_enter uid s)"
    using inv fresh unfolding ui_inv_def ui_hashed_def UIHASH_def
    by (auto simp: uids tbl) metis
  moreover have "ui_unique (ui_enter uid s)"
    using inv fresh new unfolding ui_inv_def ui_unique_def
    by (auto simp: uids split: if_splits)
  ultimately show ?thesis by (simp add: ui_inv_def)
qed

text \<open>What \<^verbatim>\<open>uifind\<close> does before it takes its reference.\<close>

definition ui_found :: "(ui_state \<Rightarrow> ui_state) \<Rightarrow> uid \<Rightarrow> ui_state \<Rightarrow> addr \<Rightarrow> ui_state \<Rightarrow> bool" where
  "ui_found interf uid s a t \<longleftrightarrow>
     (ui_uids s a = Some uid \<and> t = s) \<or>
     ((\<forall>b. ui_uids s b \<noteq> Some uid) \<and> ui_uids (interf s) a = Some uid \<and>
        t = (interf s)\<lparr>ui_heap := ui_heap (interf s) @ [None]\<rparr>) \<or>
     ((\<forall>b. ui_uids s b \<noteq> Some uid) \<and> (\<forall>b. ui_uids (interf s) b \<noteq> Some uid) \<and>
        a = length (ui_heap (interf s)) \<and> t = ui_enter uid (interf s))"

lemma uifind_found:
  assumes "ui_inv s" and "ui_inv (interf s)"
  shows "\<exists>a t. ui_found interf uid s a t \<and>
    uifind interf uid s = do { s' \<leftarrow> uihold a t; Some (a, s') }"
proof -
  obtain r where r: "uilookup uid s = Some r" "\<And>a. r = Some a \<longleftrightarrow> ui_uids s a = Some uid"
    using uilookup_Some [OF assms(1)] by blast
  obtain q where q: "uilookup uid (interf s) = Some q"
      "\<And>a. q = Some a \<longleftrightarrow> ui_uids (interf s) a = Some uid"
    using uilookup_Some [OF assms(2)] by blast
  let ?t = "interf s"
  have q2: "uilookup uid (?t\<lparr>ui_heap := halloc uidinfo_zero (ui_heap ?t)\<rparr>) = Some q"
    using uilookup_malloc [OF assms(2)] q(1) by (simp add: ui_malloc_def)
  have upd: "hfree (length h) (halloc v h) = h @ [None]"
      "hstore (length h) w (halloc v h) = halloc w h" for h :: "uidinfo option list" and v w
    by (simp_all add: hfree_def hstore_def halloc_def)
  show ?thesis
  proof (cases r)
    case (Some a)
    then have "ui_uids s a = Some uid" using r(2) by simp
    then show ?thesis
      using r(1) Some by (intro exI [of _ a] exI [of _ s]) (simp add: ui_found_def uifind_def)
  next
    case None
    then have none: "\<forall>b. ui_uids s b \<noteq> Some uid" using r(2) by auto
    show ?thesis
    proof (cases q)
      case (Some a)
      then have "ui_uids ?t a = Some uid" using q(2) by simp
      then show ?thesis
        using r(1) q2 Some None none
        by (intro exI [of _ a] exI [of _ "?t\<lparr>ui_heap := ui_heap ?t @ [None]\<rparr>"])
           (simp add: ui_found_def uifind_def Let_def upd)
    next
      case None2: None
      then have "\<forall>b. ui_uids ?t b \<noteq> Some uid" using q(2) by auto
      then show ?thesis
        using r(1) q2 None None2 none
        by (intro exI [of _ "length (ui_heap ?t)"] exI [of _ "ui_enter uid ?t"])
           (simp add: ui_found_def uifind_def Let_def upd ui_put_def ui_enter_def uidinfo_zero_def)
    qed
  qed
qed

lemma ui_at_pad: "ui_at (s\<lparr>ui_heap := ui_heap s @ [None]\<rparr>) = ui_at s"
  by (auto simp: fun_eq_iff ui_at_def deref_def nth_append)

lemma ui_found_inv:
  assumes "ui_found interf uid s a t" and "ui_inv s" and "ui_inv (interf s)"
  shows "ui_inv t \<and> ui_uids t a = Some uid"
proof -
  let ?u = "(interf s)\<lparr>ui_heap := ui_heap (interf s) @ [None]\<rparr>"
  have "ui_uids ?u = ui_uids (interf s)"
    by (simp add: fun_eq_iff ui_uids_def ui_at_pad)
  then have "ui_inv ?u \<and> (ui_uids ?u a = ui_uids (interf s) a)"
    using assms(3) ui_inv_cong [of ?u "interf s"] by simp
  then show ?thesis
    using assms ui_inv_enter [of "interf s" uid]
    by (auto simp: ui_found_def ui_uids_def ui_at_enter)
qed

lemma ui_found_refs:
  assumes "ui_found interf uid s a t"
    and "backed ui_refs s H" and "backed ui_refs (interf s) H'"
  shows "\<exists>G \<in> {H, H'}. backed ui_refs t G \<and> ui_refs t a = Some (count G a)"
proof -
  have bk: "backed ui_refs t G \<Longrightarrow> ui_at t a \<noteq> None \<Longrightarrow> ui_refs t a = Some (count G a)" for G
    by (auto simp: backed_def ui_refs_def)
  have "ui_refs ((interf s)\<lparr>ui_heap := ui_heap (interf s) @ [None]\<rparr>) = ui_refs (interf s)"
    by (simp add: fun_eq_iff ui_refs_def ui_at_pad)
  moreover have "ref_value (ui_refs (ui_enter uid (interf s)) b) = ref_value (ui_refs (interf s) b)" for b
    by (simp add: ui_refs_def ui_at_enter uidinfo_zero_def) (simp add: ui_at_def)
  moreover have "ui_at t a \<noteq> None"
    using assms(1) by (auto simp: ui_found_def ui_uids_def ui_at_enter ui_at_pad)
  moreover have "backed ui_refs t H \<or> backed ui_refs t H'"
    using assms calculation(1,2) by (auto simp: ui_found_def backed_def)
  ultimately show ?thesis using bk by auto
qed

lemma uifind_interf:
  assumes "ui_inv s" and "ui_inv (interf s)"
    and "backed ui_refs s H" and "backed ui_refs (interf s) H'"
    and "\<forall>a. count H a + 1 < 2 ^ 32" and "\<forall>a. count H' a + 1 < 2 ^ 32"
  shows "\<exists>a s'. \<exists>G \<in> {H, H'}. uifind interf uid s = Some (a, s') \<and> ui_inv s' \<and>
    ui_uids s' a = Some uid \<and> backed ui_refs s' (add_mset a G)"
proof -
  obtain a t where t: "ui_found interf uid s a t"
      "uifind interf uid s = do { s' \<leftarrow> uihold a t; Some (a, s') }"
    using uifind_found [of s interf uid] assms(1,2) by blast
  obtain G where G: "G \<in> {H, H'}" "backed ui_refs t G" "ui_refs t a = Some (count G a)"
    using ui_found_refs [OF t(1) assms(3,4)] by blast
  have inv: "ui_inv t" "ui_uids t a = Some uid"
    using ui_found_inv [OF t(1)] assms(1,2) by auto
  have "count G a + 1 < 2 ^ 32" using G(1) assms(5,6) by auto
  then obtain s' where s': "uihold a t = Some s'" "ui_inv s'"
      "ui_refs s' = (ui_refs t)(a \<mapsto> count G a + 1)" "ui_attr s' = ui_attr t"
    using uihold_counts [OF inv(1) G(3)] by blast
  have "backed ui_refs s' (add_mset a G)"
    using G(2) s'(3) by (auto simp: backed_def)
  moreover have "ui_uids s' a = Some uid"
  proof -
    have "map_option ui_uid (ui_attr s' a) = map_option ui_uid (ui_attr t a)"
      using s'(4) by simp
    then show ?thesis
      using inv(2) by (simp add: ui_attr_def ui_uids_def option.map_comp comp_def)
  qed
  ultimately show ?thesis using t(2) s'(1,2) G(1) by auto
qed

text \<open>
  With no interference: the records that were there keep everything but the count,
  and at most one record, with zero counters, is new.
\<close>

lemma uifind_seq:
  assumes "ui_inv s" and "backed ui_refs s H" and "\<forall>a. count H a + 1 < 2 ^ 32"
  shows "\<exists>a s'. uifind (\<lambda>s. s) uid s = Some (a, s') \<and> ui_inv s' \<and>
    ui_uids s' a = Some uid \<and> backed ui_refs s' (add_mset a H) \<and>
    (\<forall>b. ui_at s b \<noteq> None \<longrightarrow> ui_attr s' b = ui_attr s b) \<and>
    (\<forall>b v. ui_at s b = None \<longrightarrow> ui_attr s' b = Some v \<longrightarrow> ui_proccnt v = 0)"
proof -
  obtain a t where t: "ui_found (\<lambda>s. s) uid s a t"
      "uifind (\<lambda>s. s) uid s = do { s' \<leftarrow> uihold a t; Some (a, s') }"
    using uifind_found [of s "\<lambda>s. s" uid] assms(1) by blast
  obtain s' where s': "uifind (\<lambda>s. s) uid s = Some (a, s')" "ui_inv s'"
      "ui_uids s' a = Some uid" "backed ui_refs s' (add_mset a H)"
    using uifind_interf [where interf = "\<lambda>s. s" and uid = uid, OF assms(1,1,2,2,3,3)] t(2)
    by (auto simp: bind_eq_Some_conv)
  have h: "uihold a t = Some s'" using s'(1) t(2) by (auto simp: bind_eq_Some_conv)
  have attr: "ui_attr s' = ui_attr t"
    using h by (auto simp: uihold_def ui_attr_put_ref bind_eq_Some_conv)
  have "t = s \<or> t = ui_enter uid s"
    using t(1) by (auto simp: ui_found_def)
  then have "(\<forall>b. ui_at s b \<noteq> None \<longrightarrow> ui_attr s' b = ui_attr s b) \<and>
      (\<forall>b v. ui_at s b = None \<longrightarrow> ui_attr s' b = Some v \<longrightarrow> ui_proccnt v = 0)"
    unfolding attr
  proof
    assume "t = ui_enter uid s"
    then show "(\<forall>b. ui_at s b \<noteq> None \<longrightarrow> ui_attr t b = ui_attr s b) \<and>
      (\<forall>b v. ui_at s b = None \<longrightarrow> ui_attr t b = Some v \<longrightarrow> ui_proccnt v = 0)"
      by (auto simp: ui_attr_def ui_at_enter uidinfo_zero_def) (simp add: ui_at_def)
  qed (simp add: ui_attr_def)
  then show ?thesis using s' by blast
qed

section \<open>Accounting\<close>

text \<open>
  A charge that a limit forbids leaves the state alone; one that is granted leaves the
  counter within the limit.
\<close>

lemma chgproccnt_charge:
  assumes "ui_at s a = Some u" and "0 < diff" and "maxval \<noteq> 0"
    and "chgproccnt a diff maxval s = Some (ok, s')"
  shows "if ok then \<exists>v. ui_at s' a = Some v \<and> uint (ui_proccnt v) \<le> maxval \<and>
                        ui_proccnt v = ui_proccnt u + word_of_int diff
         else s' = s \<and> maxval < uint (ui_proccnt u + word_of_int diff)"
  using assms by (auto simp: chgproccnt_def ui_at_put split: if_splits)

lemma chgsbsize_charge:
  assumes "ui_at s a = Some u"
    and "chgsbsize a hiwat to maxval s = Some (ok, hiwat', s')"
  shows "if ok then hiwat' = to \<and> (\<exists>v. ui_at s' a = Some v \<and>
                        ui_sbsize v = ui_sbsize u + (to - hiwat) \<and>
                        (0 < sint (to - hiwat) \<longrightarrow> uint (ui_sbsize v) \<le> maxval))
         else hiwat' = hiwat \<and> s' = s \<and> maxval < uint (ui_sbsize u + (to - hiwat))"
  using assms by (auto simp: chgsbsize_def ui_at_put Let_def split: if_splits)

end
