(* ===== verification/CredTypes.thy ===== *)
theory CredTypes
  imports KPrelude
begin

text \<open>
  The data the security components share: \<^verbatim>\<open>struct ucred\<close>
  (\<^verbatim>\<open>src/sys/sys/ucred.h\<close>), the sysctl variables the checks consult, and the privilege
  numbers of \<^verbatim>\<open>src/sys/sys/priv.h\<close> that the modelled code names.
\<close>

abbreviation (input) NGROUPS :: nat where "NGROUPS \<equiv> 16"

text \<open>
  The group array has \<^verbatim>\<open>NGROUPS\<close> entries, of which the first \<^verbatim>\<open>cr_ngroups\<close> count;
  entry 0 is the effective group. \<open>cr_audit\<close> holds the twelve 32-bit words of
  \<^verbatim>\<open>struct auditinfo_addr\<close>.
\<close>

record ucred =
  cr_ref :: "32 word"
  cr_uid :: uid
  cr_ruid :: uid
  cr_svuid :: uid
  cr_ngroups :: nat
  cr_groups :: "gid list"
  cr_rgid :: gid
  cr_svgid :: gid
  cr_uidinfo :: "addr option"
  cr_ruidinfo :: "addr option"
  cr_prison :: "addr option"
  cr_audit :: "32 word list"

definition ucred_zero :: ucred where
  "ucred_zero = \<lparr>cr_ref = 0, cr_uid = 0, cr_ruid = 0, cr_svuid = 0, cr_ngroups = 0,
     cr_groups = replicate NGROUPS 0, cr_rgid = 0, cr_svgid = 0, cr_uidinfo = None,
     cr_ruidinfo = None, cr_prison = None, cr_audit = replicate 12 0\<rparr>"

text \<open>The sysctl-set policy variables of \<^verbatim>\<open>kern_priv.c\<close>, \<^verbatim>\<open>kern_prot.c\<close> and \<^verbatim>\<open>kern_jail.c\<close>.\<close>

record sysconf =
  suser_enabled :: bool
  securelevel :: int
  see_other_uids :: bool
  see_other_gids :: bool
  conservative_signals :: bool
  unprivileged_proc_debug :: bool
  jail_chflags_allowed :: bool
  jail_mount_allowed :: bool
  jail_allow_raw_sockets :: bool
  jail_socket_unixiproute_only :: bool
  jail_sysvipc_allowed :: bool
  jail_enforce_statfs :: int

abbreviation (input) PRIV_MAXFILES :: int where "PRIV_MAXFILES \<equiv> 3"
abbreviation (input) PRIV_MAXPROC :: int where "PRIV_MAXPROC \<equiv> 4"
abbreviation (input) PRIV_KTRACE :: int where "PRIV_KTRACE \<equiv> 5"
abbreviation (input) PRIV_CRED_SETUID :: int where "PRIV_CRED_SETUID \<equiv> 50"
abbreviation (input) PRIV_CRED_SETEUID :: int where "PRIV_CRED_SETEUID \<equiv> 51"
abbreviation (input) PRIV_CRED_SETGID :: int where "PRIV_CRED_SETGID \<equiv> 52"
abbreviation (input) PRIV_CRED_SETEGID :: int where "PRIV_CRED_SETEGID \<equiv> 53"
abbreviation (input) PRIV_CRED_SETGROUPS :: int where "PRIV_CRED_SETGROUPS \<equiv> 54"
abbreviation (input) PRIV_CRED_SETREUID :: int where "PRIV_CRED_SETREUID \<equiv> 55"
abbreviation (input) PRIV_CRED_SETREGID :: int where "PRIV_CRED_SETREGID \<equiv> 56"
abbreviation (input) PRIV_CRED_SETRESUID :: int where "PRIV_CRED_SETRESUID \<equiv> 57"
abbreviation (input) PRIV_CRED_SETRESGID :: int where "PRIV_CRED_SETRESGID \<equiv> 58"
abbreviation (input) PRIV_SEEOTHERGIDS :: int where "PRIV_SEEOTHERGIDS \<equiv> 59"
abbreviation (input) PRIV_SEEOTHERUIDS :: int where "PRIV_SEEOTHERUIDS \<equiv> 60"
abbreviation (input) PRIV_DEBUG_DIFFCRED :: int where "PRIV_DEBUG_DIFFCRED \<equiv> 80"
abbreviation (input) PRIV_DEBUG_SUGID :: int where "PRIV_DEBUG_SUGID \<equiv> 81"
abbreviation (input) PRIV_DEBUG_UNPRIV :: int where "PRIV_DEBUG_UNPRIV \<equiv> 82"
abbreviation (input) PRIV_JAIL_ATTACH :: int where "PRIV_JAIL_ATTACH \<equiv> 110"
abbreviation (input) PRIV_PROC_LIMIT :: int where "PRIV_PROC_LIMIT \<equiv> 160"
abbreviation (input) PRIV_PROC_SETLOGIN :: int where "PRIV_PROC_SETLOGIN \<equiv> 161"
abbreviation (input) PRIV_PROC_SETRLIMIT :: int where "PRIV_PROC_SETRLIMIT \<equiv> 162"
abbreviation (input) PRIV_IPC_READ :: int where "PRIV_IPC_READ \<equiv> 170"
abbreviation (input) PRIV_IPC_WRITE :: int where "PRIV_IPC_WRITE \<equiv> 171"
abbreviation (input) PRIV_IPC_ADMIN :: int where "PRIV_IPC_ADMIN \<equiv> 172"
abbreviation (input) PRIV_IPC_MSGSIZE :: int where "PRIV_IPC_MSGSIZE \<equiv> 173"
abbreviation (input) PRIV_MQ_ADMIN :: int where "PRIV_MQ_ADMIN \<equiv> 180"
abbreviation (input) PRIV_SCHED_DIFFCRED :: int where "PRIV_SCHED_DIFFCRED \<equiv> 200"
abbreviation (input) PRIV_SCHED_CPUSET :: int where "PRIV_SCHED_CPUSET \<equiv> 206"
abbreviation (input) PRIV_SIGNAL_DIFFCRED :: int where "PRIV_SIGNAL_DIFFCRED \<equiv> 230"
abbreviation (input) PRIV_SIGNAL_SUGID :: int where "PRIV_SIGNAL_SUGID \<equiv> 231"
abbreviation (input) PRIV_SYSCTL_WRITEJAIL :: int where "PRIV_SYSCTL_WRITEJAIL \<equiv> 242"
abbreviation (input) PRIV_VFS_READ :: int where "PRIV_VFS_READ \<equiv> 310"
abbreviation (input) PRIV_VFS_WRITE :: int where "PRIV_VFS_WRITE \<equiv> 311"
abbreviation (input) PRIV_VFS_ADMIN :: int where "PRIV_VFS_ADMIN \<equiv> 312"
abbreviation (input) PRIV_VFS_EXEC :: int where "PRIV_VFS_EXEC \<equiv> 313"
abbreviation (input) PRIV_VFS_LOOKUP :: int where "PRIV_VFS_LOOKUP \<equiv> 314"
abbreviation (input) PRIV_VFS_BLOCKRESERVE :: int where "PRIV_VFS_BLOCKRESERVE \<equiv> 315"
abbreviation (input) PRIV_VFS_CHFLAGS_DEV :: int where "PRIV_VFS_CHFLAGS_DEV \<equiv> 316"
abbreviation (input) PRIV_VFS_CHOWN :: int where "PRIV_VFS_CHOWN \<equiv> 317"
abbreviation (input) PRIV_VFS_CHROOT :: int where "PRIV_VFS_CHROOT \<equiv> 318"
abbreviation (input) PRIV_VFS_RETAINSUGID :: int where "PRIV_VFS_RETAINSUGID \<equiv> 319"
abbreviation (input) PRIV_VFS_FCHROOT :: int where "PRIV_VFS_FCHROOT \<equiv> 322"
abbreviation (input) PRIV_VFS_GETQUOTA :: int where "PRIV_VFS_GETQUOTA \<equiv> 328"
abbreviation (input) PRIV_VFS_LINK :: int where "PRIV_VFS_LINK \<equiv> 329"
abbreviation (input) PRIV_VFS_MOUNT :: int where "PRIV_VFS_MOUNT \<equiv> 333"
abbreviation (input) PRIV_VFS_MOUNT_OWNER :: int where "PRIV_VFS_MOUNT_OWNER \<equiv> 334"
abbreviation (input) PRIV_VFS_MOUNT_NONUSER :: int where "PRIV_VFS_MOUNT_NONUSER \<equiv> 338"
abbreviation (input) PRIV_VFS_SETGID :: int where "PRIV_VFS_SETGID \<equiv> 339"
abbreviation (input) PRIV_VFS_SETQUOTA :: int where "PRIV_VFS_SETQUOTA \<equiv> 340"
abbreviation (input) PRIV_VFS_STICKYFILE :: int where "PRIV_VFS_STICKYFILE \<equiv> 341"
abbreviation (input) PRIV_VFS_SYSFLAGS :: int where "PRIV_VFS_SYSFLAGS \<equiv> 342"
abbreviation (input) PRIV_VFS_UNMOUNT :: int where "PRIV_VFS_UNMOUNT \<equiv> 343"
abbreviation (input) PRIV_VFS_STAT :: int where "PRIV_VFS_STAT \<equiv> 344"
abbreviation (input) PRIV_NETINET_RESERVEDPORT :: int where "PRIV_NETINET_RESERVEDPORT \<equiv> 490"
abbreviation (input) PRIV_NETINET_RAW :: int where "PRIV_NETINET_RAW \<equiv> 497"
abbreviation (input) PRIV_NETINET_GETCRED :: int where "PRIV_NETINET_GETCRED \<equiv> 498"
abbreviation (input) PRIV_NETINET_REUSEPORT :: int where "PRIV_NETINET_REUSEPORT \<equiv> 504"
abbreviation (input) PRIV_NETINET_SETHDROPTS :: int where "PRIV_NETINET_SETHDROPTS \<equiv> 505"

definition jailed :: "ucred \<Rightarrow> bool" where
  "jailed cred = (cr_prison cred \<noteq> None)"

end
