(* ===== verification/Jail.thy ===== *)
theory Jail
  imports Refcount CredTypes
begin

text \<open>
  Jails, \<^verbatim>\<open>src/sys/kern/kern_jail.c\<close>: the list of prisons, their reference and process
  counts, the deferred destruction of a prison, the addresses a prison owns, and the
  checks that confine a jailed credential. \<^verbatim>\<open>pr_cpuset\<close>, \<^verbatim>\<open>pr_osd\<close> and \<^verbatim>\<open>pr_linux\<close>
  are opaque handles of other subsystems and left out; the vnode \<^verbatim>\<open>pr_root\<close> is
  represented by the mount point it lives on, which is all the checks read of it.
\<close>

section \<open>State\<close>

abbreviation (input) PRISON_STATE_ALIVE :: int where "PRISON_STATE_ALIVE \<equiv> 1"
abbreviation (input) PRISON_STATE_DYING :: int where "PRISON_STATE_DYING \<equiv> 2"
abbreviation (input) EADDRNOTAVAIL :: errno where "EADDRNOTAVAIL \<equiv> 49"
abbreviation (input) EAFNOSUPPORT :: errno where "EAFNOSUPPORT \<equiv> 47"
abbreviation (input) JAIL_MAX :: int where "JAIL_MAX \<equiv> 999999"
abbreviation (input) MNAMELEN :: nat where "MNAMELEN \<equiv> 88"
abbreviation (input) MAXPATHLEN :: nat where "MAXPATHLEN \<equiv> 1024"

type_synonym in_addr = "32 word"
type_synonym in6_addr = "8 word list"

record prison =
  pr_id :: int
  pr_ref :: "32 word"
  pr_state :: int
  pr_nprocs :: int
  pr_path :: string
  pr_root_mount :: nat
  pr_host :: string
  pr_name :: string
  pr_securelevel :: int
  pr_ip4s :: int
  pr_ip4 :: "in_addr list option"
  pr_ip6s :: int
  pr_ip6 :: "in6_addr list option"

record jail_state =
  pr_heap :: "prison option list"
  allprison :: "addr list"
  lastprid :: int
  prisoncount :: int
  pr_tasks :: "addr list"

definition pr_at :: "jail_state \<Rightarrow> addr \<Rightarrow> prison option" where
  "pr_at s a = deref (pr_heap s) a"

definition pr_put :: "addr \<Rightarrow> prison \<Rightarrow> jail_state \<Rightarrow> jail_state" where
  "pr_put a p s = s\<lparr>pr_heap := hstore a p (pr_heap s)\<rparr>"

section \<open>Lifetime of a prison\<close>

fun prison_find_list :: "prison option list \<Rightarrow> int \<Rightarrow> addr list \<Rightarrow> addr option option" where
  "prison_find_list h prid [] = Some None"
| "prison_find_list h prid (a # as) =
     do { pr \<leftarrow> deref h a;
          if pr_id pr = prid then Some (if pr_ref pr = 0 then None else Some a)
          else prison_find_list h prid as }"

definition prison_find :: "int \<Rightarrow> jail_state \<Rightarrow> addr option option" where
  "prison_find prid s = prison_find_list (pr_heap s) prid (allprison s)"

definition prison_free_locked :: "addr \<Rightarrow> jail_state \<Rightarrow> jail_state option" where
  "prison_free_locked a s =
     do { pr \<leftarrow> pr_at s a;
          let pr = pr\<lparr>pr_ref := pr_ref pr - 1\<rparr>;
          let s = pr_put a pr s;
          Some (if pr_ref pr = 0 then s\<lparr>pr_tasks := pr_tasks s @ [a]\<rparr> else s) }"

definition prison_free :: "addr \<Rightarrow> jail_state \<Rightarrow> jail_state option" where
  "prison_free a s = prison_free_locked a s"

definition prison_complete :: "addr \<Rightarrow> jail_state \<Rightarrow> jail_state option" where
  "prison_complete a s =
     do { _ \<leftarrow> pr_at s a;
          Some (s\<lparr>allprison := remove1 a (allprison s),
                  prisoncount := prisoncount s - 1,
                  pr_heap := hfree a (pr_heap s)\<rparr>) }"

definition prison_hold_locked :: "addr \<Rightarrow> jail_state \<Rightarrow> jail_state option" where
  "prison_hold_locked a s =
     do { pr \<leftarrow> pr_at s a;
          assert_opt (0 < sint (pr_ref pr));
          Some (pr_put a (pr\<lparr>pr_ref := pr_ref pr + 1\<rparr>) s) }"

definition prison_hold :: "addr \<Rightarrow> jail_state \<Rightarrow> jail_state option" where
  "prison_hold a s = prison_hold_locked a s"

definition prison_proc_hold :: "addr \<Rightarrow> jail_state \<Rightarrow> jail_state option" where
  "prison_proc_hold a s =
     do { pr \<leftarrow> pr_at s a;
          assert_opt (pr_state pr = PRISON_STATE_ALIVE);
          Some (pr_put a (pr\<lparr>pr_nprocs := pr_nprocs pr + 1\<rparr>) s) }"

definition prison_proc_free :: "addr \<Rightarrow> jail_state \<Rightarrow> jail_state option" where
  "prison_proc_free a s =
     do { pr \<leftarrow> pr_at s a;
          assert_opt (pr_state pr = PRISON_STATE_ALIVE \<and> 0 < pr_nprocs pr);
          let pr = pr\<lparr>pr_nprocs := pr_nprocs pr - 1\<rparr>;
          let pr = (if pr_nprocs pr = 0 then pr\<lparr>pr_state := PRISON_STATE_DYING\<rparr> else pr);
          Some (pr_put a pr s) }"

section \<open>Confinement checks\<close>

definition prison_check :: "ucred \<Rightarrow> ucred \<Rightarrow> errno" where
  "prison_check cred1 cred2 =
     (if jailed cred1 then
        if \<not> jailed cred2 then ESRCH
        else if cr_prison cred2 \<noteq> cr_prison cred1 then ESRCH
        else 0
      else 0)"

text \<open>The privileges a jailed process may exercise whatever the configuration, in the
  order of the \<^verbatim>\<open>switch\<close>.\<close>

definition prison_priv_always :: "int list" where
  "prison_priv_always =
     [PRIV_KTRACE,
      PRIV_CRED_SETUID, PRIV_CRED_SETEUID, PRIV_CRED_SETGID, PRIV_CRED_SETEGID,
      PRIV_CRED_SETGROUPS, PRIV_CRED_SETREUID, PRIV_CRED_SETREGID, PRIV_CRED_SETRESUID,
      PRIV_CRED_SETRESGID,
      PRIV_SEEOTHERGIDS, PRIV_SEEOTHERUIDS,
      PRIV_DEBUG_DIFFCRED, PRIV_DEBUG_SUGID, PRIV_DEBUG_UNPRIV,
      PRIV_PROC_LIMIT, PRIV_PROC_SETLOGIN, PRIV_PROC_SETRLIMIT,
      PRIV_IPC_READ, PRIV_IPC_WRITE, PRIV_IPC_ADMIN, PRIV_IPC_MSGSIZE, PRIV_MQ_ADMIN,
      PRIV_SCHED_DIFFCRED, PRIV_SCHED_CPUSET, PRIV_SIGNAL_DIFFCRED, PRIV_SIGNAL_SUGID,
      PRIV_SYSCTL_WRITEJAIL,
      PRIV_VFS_GETQUOTA, PRIV_VFS_SETQUOTA,
      PRIV_VFS_READ, PRIV_VFS_WRITE, PRIV_VFS_ADMIN, PRIV_VFS_EXEC, PRIV_VFS_LOOKUP,
      PRIV_VFS_BLOCKRESERVE, PRIV_VFS_CHFLAGS_DEV, PRIV_VFS_CHOWN, PRIV_VFS_CHROOT,
      PRIV_VFS_RETAINSUGID, PRIV_VFS_FCHROOT, PRIV_VFS_LINK, PRIV_VFS_SETGID,
      PRIV_VFS_STAT, PRIV_VFS_STICKYFILE]"

definition prison_priv_check :: "sysconf \<Rightarrow> ucred \<Rightarrow> int \<Rightarrow> errno" where
  "prison_priv_check cf cred priv =
     (if \<not> jailed cred then 0
      else if priv \<in> set prison_priv_always then 0
      else if priv = PRIV_VFS_SYSFLAGS then (if jail_chflags_allowed cf then 0 else EPERM)
      else if priv \<in> {PRIV_VFS_MOUNT, PRIV_VFS_UNMOUNT, PRIV_VFS_MOUNT_NONUSER,
                      PRIV_VFS_MOUNT_OWNER}
      then (if jail_mount_allowed cf then 0 else EPERM)
      else if priv \<in> {PRIV_NETINET_RESERVEDPORT, PRIV_NETINET_REUSEPORT} then 0
      else if priv = PRIV_NETINET_SETHDROPTS then 0
      else if priv = PRIV_NETINET_RAW then (if jail_allow_raw_sockets cf then 0 else EPERM)
      else if priv = PRIV_NETINET_GETCRED then 0
      else EPERM)"

definition c_strncmp_eq :: "string \<Rightarrow> string \<Rightarrow> nat \<Rightarrow> bool" where
  "c_strncmp_eq s t n = (take n s = take n t)"

definition strlcpy :: "string \<Rightarrow> nat \<Rightarrow> string" where
  "strlcpy src siz = take (siz - 1) src"

definition prison_canseemount ::
  "sysconf \<Rightarrow> ucred \<Rightarrow> nat \<Rightarrow> string \<Rightarrow> jail_state \<Rightarrow> errno option" where
  "prison_canseemount cf cred mp mntonname s =
     (if \<not> jailed cred \<or> jail_enforce_statfs cf = 0 then Some 0
      else do {
        pr \<leftarrow> deref_null (pr_heap s) (cr_prison cred);
        if pr_root_mount pr = mp then Some 0
        else if jail_enforce_statfs cf = 2 then Some ENOENT
        else if pr_path pr = ''/'' then Some 0
        else (let len = length (pr_path pr)
              in if \<not> c_strncmp_eq (pr_path pr) mntonname len then Some ENOENT
                 else if len < length mntonname \<and> mntonname ! len \<noteq> CHR ''/'' then Some ENOENT
                 else Some 0) })"

text \<open>The result is the new \<^verbatim>\<open>sp->f_mntonname\<close>; on entry the two names are the same, a copy
  of the mount point's own record.\<close>

definition prison_enforce_statfs ::
  "sysconf \<Rightarrow> ucred \<Rightarrow> nat \<Rightarrow> string \<Rightarrow> string \<Rightarrow> jail_state \<Rightarrow> string option" where
  "prison_enforce_statfs cf cred mp mnt_mntonname sp_mntonname s =
     (if \<not> jailed cred \<or> jail_enforce_statfs cf = 0 then Some sp_mntonname
      else do {
        pr \<leftarrow> deref_null (pr_heap s) (cr_prison cred);
        e \<leftarrow> prison_canseemount cf cred mp mnt_mntonname s;
        if e \<noteq> 0 then Some (strlcpy ''[restricted]'' MNAMELEN)
        else if pr_root_mount pr = mp then Some ''/''
        else if pr_path pr = ''/'' then Some sp_mntonname
        else (let jpath = strlcpy (drop (length (pr_path pr)) sp_mntonname) MAXPATHLEN
              in if jpath = [] then Some ''/'' else Some (strlcpy jpath MNAMELEN)) })"

section \<open>Addresses\<close>

definition ntohl :: "32 word \<Rightarrow> 32 word" where
  "ntohl x = push_bit 24 (take_bit 8 x) OR push_bit 16 (take_bit 8 (drop_bit 8 x)) OR
     push_bit 8 (take_bit 8 (drop_bit 16 x)) OR take_bit 8 (drop_bit 24 x)"

abbreviation (input) INADDR_ANY :: "32 word" where "INADDR_ANY \<equiv> 0"
abbreviation (input) INADDR_LOOPBACK :: "32 word" where "INADDR_LOOPBACK \<equiv> 0x7f000001"
abbreviation (input) INADDR_BROADCAST :: "32 word" where "INADDR_BROADCAST \<equiv> 0xffffffff"

definition qcmp_v4 :: "in_addr \<Rightarrow> in_addr \<Rightarrow> int" where
  "qcmp_v4 ip1 ip2 =
     (let iaa = ntohl ip1; iab = ntohl ip2
      in if iab < iaa then 1 else if iaa < iab then -1 else 0)"

fun qcmp_v6 :: "in6_addr \<Rightarrow> in6_addr \<Rightarrow> int" where
  "qcmp_v6 (a # as) (b # bs) = (if b < a then 1 else if a < b then -1 else qcmp_v6 as bs)"
| "qcmp_v6 _ _ = 0"

text \<open>The binary search both address families use; a read beyond the array is \<open>None\<close>.\<close>

function prison_ip_search :: "('a \<Rightarrow> 'a \<Rightarrow> int) \<Rightarrow> 'a list \<Rightarrow> 'a \<Rightarrow> int \<Rightarrow> int \<Rightarrow> errno option" where
  "prison_ip_search cmp ips ia a z =
     (if a \<le> z then
        (let i = (a + z) div 2
         in if 0 \<le> i + 1 \<and> nat (i + 1) < length ips then
              (let d = cmp (ips ! nat (i + 1)) ia
               in if 0 < d then prison_ip_search cmp ips ia a (i - 1)
                  else if d < 0 then prison_ip_search cmp ips ia (i + 1) z
                  else Some 0)
            else None)
      else Some EADDRNOTAVAIL)"
  by pat_completeness auto
termination
  by (relation "measure (\<lambda>(cmp, ips, ia, a, z). nat (z - a + 1))") auto

declare prison_ip_search.simps [simp del]

definition prison_check_ip4_list :: "in_addr list \<Rightarrow> int \<Rightarrow> in_addr \<Rightarrow> errno option" where
  "prison_check_ip4_list ip4 ip4s ia =
     (case ip4 of [] \<Rightarrow> None
      | p # _ \<Rightarrow> if p = ia then Some 0 else prison_ip_search qcmp_v4 ip4 ia 0 (ip4s - 2))"

definition prison_check_ip6_list :: "in6_addr list \<Rightarrow> int \<Rightarrow> in6_addr \<Rightarrow> errno option" where
  "prison_check_ip6_list ip6 ip6s ia6 =
     (case ip6 of [] \<Rightarrow> None
      | p # _ \<Rightarrow> if p = ia6 then Some 0 else prison_ip_search qcmp_v6 ip6 ia6 0 (ip6s - 2))"

definition prison_get_ip4 :: "ucred \<Rightarrow> in_addr \<Rightarrow> jail_state \<Rightarrow> (errno \<times> in_addr) option" where
  "prison_get_ip4 cred ia s =
     (if \<not> jailed cred then Some (0, ia)
      else do {
        pr \<leftarrow> deref_null (pr_heap s) (cr_prison cred);
        case pr_ip4 pr of
          None \<Rightarrow> Some (EAFNOSUPPORT, ia)
        | Some [] \<Rightarrow> None
        | Some (p # _) \<Rightarrow> Some (0, p) })"

definition prison_local_ip4 :: "ucred \<Rightarrow> in_addr \<Rightarrow> jail_state \<Rightarrow> (errno \<times> in_addr) option" where
  "prison_local_ip4 cred ia s =
     (if \<not> jailed cred then Some (0, ia)
      else do {
        pr \<leftarrow> deref_null (pr_heap s) (cr_prison cred);
        case pr_ip4 pr of
          None \<Rightarrow> Some (EAFNOSUPPORT, ia)
        | Some [] \<Rightarrow> None
        | Some (p # ps) \<Rightarrow>
            if ntohl ia = INADDR_LOOPBACK then Some (0, p)
            else if ntohl ia = INADDR_ANY then Some (0, if pr_ip4s pr = 1 then p else ia)
            else do { e \<leftarrow> prison_check_ip4_list (p # ps) (pr_ip4s pr) ia; Some (e, ia) } })"

definition prison_remote_ip4 :: "ucred \<Rightarrow> in_addr \<Rightarrow> jail_state \<Rightarrow> (errno \<times> in_addr) option" where
  "prison_remote_ip4 cred ia s =
     (if \<not> jailed cred then Some (0, ia)
      else do {
        pr \<leftarrow> deref_null (pr_heap s) (cr_prison cred);
        case pr_ip4 pr of
          None \<Rightarrow> Some (EAFNOSUPPORT, ia)
        | Some [] \<Rightarrow> None
        | Some (p # _) \<Rightarrow> Some (0, if ntohl ia = INADDR_LOOPBACK then p else ia) })"

definition prison_check_ip4 :: "ucred \<Rightarrow> in_addr \<Rightarrow> jail_state \<Rightarrow> errno option" where
  "prison_check_ip4 cred ia s =
     (if \<not> jailed cred then Some 0
      else do {
        pr \<leftarrow> deref_null (pr_heap s) (cr_prison cred);
        case pr_ip4 pr of
          None \<Rightarrow> Some EAFNOSUPPORT
        | Some ips \<Rightarrow> prison_check_ip4_list ips (pr_ip4s pr) ia })"

definition in6_loopback :: in6_addr where
  "in6_loopback = replicate 15 0 @ [1]"

definition in6_unspecified :: in6_addr where
  "in6_unspecified = replicate 16 0"

definition prison_get_ip6 :: "ucred \<Rightarrow> in6_addr \<Rightarrow> jail_state \<Rightarrow> (errno \<times> in6_addr) option" where
  "prison_get_ip6 cred ia6 s =
     (if \<not> jailed cred then Some (0, ia6)
      else do {
        pr \<leftarrow> deref_null (pr_heap s) (cr_prison cred);
        case pr_ip6 pr of
          None \<Rightarrow> Some (EAFNOSUPPORT, ia6)
        | Some [] \<Rightarrow> None
        | Some (p # _) \<Rightarrow> Some (0, p) })"

definition prison_local_ip6 ::
  "ucred \<Rightarrow> in6_addr \<Rightarrow> bool \<Rightarrow> jail_state \<Rightarrow> (errno \<times> in6_addr) option" where
  "prison_local_ip6 cred ia6 v6only s =
     (if \<not> jailed cred then Some (0, ia6)
      else do {
        pr \<leftarrow> deref_null (pr_heap s) (cr_prison cred);
        case pr_ip6 pr of
          None \<Rightarrow> Some (EAFNOSUPPORT, ia6)
        | Some [] \<Rightarrow> None
        | Some (p # ps) \<Rightarrow>
            if ia6 = in6_loopback then Some (0, p)
            else if ia6 = in6_unspecified then
              Some (0, if v6only \<and> pr_ip6s pr = 1 then p else ia6)
            else do { e \<leftarrow> prison_check_ip6_list (p # ps) (pr_ip6s pr) ia6; Some (e, ia6) } })"

definition prison_remote_ip6 :: "ucred \<Rightarrow> in6_addr \<Rightarrow> jail_state \<Rightarrow> (errno \<times> in6_addr) option" where
  "prison_remote_ip6 cred ia6 s =
     (if \<not> jailed cred then Some (0, ia6)
      else do {
        pr \<leftarrow> deref_null (pr_heap s) (cr_prison cred);
        case pr_ip6 pr of
          None \<Rightarrow> Some (EAFNOSUPPORT, ia6)
        | Some [] \<Rightarrow> None
        | Some (p # _) \<Rightarrow> Some (0, if ia6 = in6_loopback then p else ia6) })"

definition prison_check_ip6 :: "ucred \<Rightarrow> in6_addr \<Rightarrow> jail_state \<Rightarrow> errno option" where
  "prison_check_ip6 cred ia6 s =
     (if \<not> jailed cred then Some 0
      else do {
        pr \<leftarrow> deref_null (pr_heap s) (cr_prison cred);
        case pr_ip6 pr of
          None \<Rightarrow> Some EAFNOSUPPORT
        | Some ips \<Rightarrow> prison_check_ip6_list ips (pr_ip6s pr) ia6 })"

abbreviation (input) AF_LOCAL :: int where "AF_LOCAL \<equiv> 1"
abbreviation (input) AF_INET :: int where "AF_INET \<equiv> 2"
abbreviation (input) AF_ROUTE :: int where "AF_ROUTE \<equiv> 17"
abbreviation (input) AF_INET6 :: int where "AF_INET6 \<equiv> 28"

definition prison_check_af :: "sysconf \<Rightarrow> ucred \<Rightarrow> int \<Rightarrow> jail_state \<Rightarrow> errno option" where
  "prison_check_af cf cred af s =
     (if \<not> jailed cred then Some 0
      else if af = AF_INET then do {
        pr \<leftarrow> deref_null (pr_heap s) (cr_prison cred);
        Some (if pr_ip4 pr = None then EAFNOSUPPORT else 0) }
      else if af = AF_INET6 then do {
        pr \<leftarrow> deref_null (pr_heap s) (cr_prison cred);
        Some (if pr_ip6 pr = None then EAFNOSUPPORT else 0) }
      else if af = AF_LOCAL \<or> af = AF_ROUTE then Some 0
      else Some (if jail_socket_unixiproute_only cf then EAFNOSUPPORT else 0))"

datatype sockaddr = Sa_in in_addr | Sa_in6 in6_addr | Sa_other int

definition prison_if :: "sysconf \<Rightarrow> ucred \<Rightarrow> sockaddr \<Rightarrow> jail_state \<Rightarrow> errno option" where
  "prison_if cf cred sa s =
     (case sa of
        Sa_in ia \<Rightarrow> prison_check_ip4 cred ia s
      | Sa_in6 ia6 \<Rightarrow> prison_check_ip6 cred ia6 s
      | Sa_other af \<Rightarrow> Some (if jailed cred \<and> jail_socket_unixiproute_only cf
                            then EAFNOSUPPORT else 0))"

section \<open>Prisons are a counted store\<close>

definition pr_ids :: "jail_state \<Rightarrow> addr \<Rightarrow> int option" where
  "pr_ids s a = map_option pr_id (pr_at s a)"

text \<open>
  The list holds live prisons, once each, with distinct ids, and \<^verbatim>\<open>prisoncount\<close> is its
  length.
\<close>

definition jail_inv :: "jail_state \<Rightarrow> bool" where
  "jail_inv s \<longleftrightarrow>
     distinct (allprison s) \<and>
     (\<forall>a \<in> set (allprison s). pr_ids s a \<noteq> None) \<and>
     inj_on (pr_ids s) (set (allprison s)) \<and>
     prisoncount s = int (length (allprison s))"

definition pr_refs :: "jail_state \<Rightarrow> addr \<Rightarrow> nat option" where
  "pr_refs s a = map_option (\<lambda>p. unat (pr_ref p)) (pr_at s a)"

definition pr_attr :: "jail_state \<Rightarrow> addr \<Rightarrow> prison option" where
  "pr_attr s a = map_option (\<lambda>p. p\<lparr>pr_ref := 0\<rparr>) (pr_at s a)"

lemma pr_at_put [heap_simps]:
  "pr_at s a = Some p \<Longrightarrow> pr_at (pr_put a q s) b = (if b = a then Some q else pr_at s b)"
  by (auto simp: pr_at_def pr_put_def deref_hstore dest: deref_SomeD)

lemma pr_put_simps [simp]:
  "allprison (pr_put a q s) = allprison s" "prisoncount (pr_put a q s) = prisoncount s"
  "lastprid (pr_put a q s) = lastprid s" "pr_tasks (pr_put a q s) = pr_tasks s"
  by (simp_all add: pr_put_def)

lemma pr_at_tasks [simp]: "pr_at (s\<lparr>pr_tasks := t\<rparr>) = pr_at s"
  by (simp add: fun_eq_iff pr_at_def)

lemma jail_inv_cong:
  assumes "pr_ids s' = pr_ids s" and "allprison s' = allprison s" and "prisoncount s' = prisoncount s"
  shows "jail_inv s' = jail_inv s"
  using assms by (simp add: jail_inv_def)

lemma pr_ids_put:
  assumes "pr_at s a = Some p" and "pr_id q = pr_id p"
  shows "pr_ids (pr_put a q s) = pr_ids s"
  using assms by (auto simp: pr_ids_def pr_at_put)

lemma jail_inv_put:
  assumes "jail_inv s" and "pr_at s a = Some p" and "pr_id q = pr_id p"
  shows "jail_inv (pr_put a q s)"
  using assms jail_inv_cong [of "pr_put a q s" s] by (simp add: pr_ids_put)

lemma jail_inv_tasks [simp]: "jail_inv (s\<lparr>pr_tasks := t\<rparr>) = jail_inv s"
  by (rule jail_inv_cong) (simp_all add: fun_eq_iff pr_ids_def)

lemma pr_refs_put:
  assumes "pr_at s a = Some p"
  shows "pr_refs (pr_put a q s) = (pr_refs s)(a \<mapsto> unat (pr_ref q))"
  using assms by (auto simp: pr_refs_def pr_at_put)

lemma pr_attr_put_ref:
  assumes "pr_at s a = Some p"
  shows "pr_attr (pr_put a (p\<lparr>pr_ref := c\<rparr>) s) = pr_attr s"
  using assms by (auto simp: pr_attr_def pr_at_put)

lemma sint_pos_of_unat:
  fixes w :: "32 word"
  assumes "0 < unat w" and "unat w < 2 ^ 31"
  shows "0 < sint w"
  using sint_eq_unat [OF assms(2)] assms(1) by linarith

lemma prison_hold_counts:
  assumes "jail_inv s" and "pr_refs s a = Some n" and "0 < n" and "n + 1 < 2 ^ 31"
  shows "\<exists>s'. prison_hold a s = Some s' \<and> jail_inv s' \<and> pr_refs s' = (pr_refs s)(a \<mapsto> n + 1) \<and>
    pr_attr s' = pr_attr s"
proof -
  obtain p where p: "pr_at s a = Some p" "unat (pr_ref p) = n"
    using assms(2) by (auto simp: pr_refs_def)
  moreover have "0 < sint (pr_ref p)"
    using sint_pos_of_unat [of "pr_ref p"] p(2) assms(3,4) by simp
  moreover have "unat (pr_ref p + 1) = n + 1"
    using p(2) assms(4) by (simp add: unat_word_ariths)
  ultimately show ?thesis
    using assms(1)
    by (simp add: prison_hold_def prison_hold_locked_def jail_inv_put pr_refs_put pr_attr_put_ref)
qed

lemma prison_free_counts:
  assumes "jail_inv s" and "pr_refs s a = Some (Suc n)"
  shows "\<exists>s'. prison_free a s = Some s' \<and> jail_inv s' \<and> (\<forall>b. b \<noteq> a \<longrightarrow> pr_refs s' b = pr_refs s b) \<and>
    ref_value (pr_refs s' a) = n \<and> (\<forall>b. pr_refs s' b \<noteq> None \<longrightarrow> pr_attr s' b = pr_attr s b)"
proof -
  obtain p where p: "pr_at s a = Some p" "unat (pr_ref p) = Suc n"
    using assms(2) by (auto simp: pr_refs_def)
  have "pr_ref p \<noteq> 0" using p(2) by auto
  then have "unat (pr_ref p - 1) = n" using p(2) by (simp add: unat_minus_one)
  moreover have "pr_refs (s\<lparr>pr_tasks := t\<rparr>) = pr_refs s" "pr_attr (s\<lparr>pr_tasks := t\<rparr>) = pr_attr s"
    for s t by (simp_all add: fun_eq_iff pr_refs_def pr_attr_def)
  ultimately show ?thesis
    using assms(1) p
    by (auto simp: prison_free_def prison_free_locked_def Let_def jail_inv_put pr_refs_put
        pr_attr_put_ref)
qed

interpretation pr: refcounted jail_inv pr_refs pr_attr prison_hold prison_free "2 ^ 31"
  by unfold_locales (rule prison_hold_counts prison_free_counts, assumption+)+

section \<open>Binary search over the addresses\<close>

lemma prison_ip_search_step:
  assumes "a \<le> z" and "i = (a + z) div 2" and "0 \<le> i + 1" and "m = nat (i + 1)" and "m < length ips"
  shows "prison_ip_search cmp ips ia a z =
     (if 0 < cmp (ips ! m) ia then prison_ip_search cmp ips ia a (i - 1)
      else if cmp (ips ! m) ia < 0 then prison_ip_search cmp ips ia (i + 1) z
      else Some 0)"
  using assms by (subst prison_ip_search.simps) (simp only: Let_def if_True simp_thms)

text \<open>What the search needs of a comparison: the sign of a total order.\<close>

locale cmp_order =
  fixes cmp :: "'a \<Rightarrow> 'a \<Rightarrow> int"
    and ok :: "'a \<Rightarrow> bool"
  assumes cmp_eq: "ok x \<Longrightarrow> ok y \<Longrightarrow> cmp x y = 0 \<longleftrightarrow> x = y"
    and cmp_sym: "ok x \<Longrightarrow> ok y \<Longrightarrow> 0 < cmp x y \<longleftrightarrow> cmp y x < 0"
    and cmp_trans: "ok x \<Longrightarrow> ok y \<Longrightarrow> ok z \<Longrightarrow> cmp x y \<le> 0 \<Longrightarrow> cmp y z < 0 \<Longrightarrow> cmp x z < 0"
begin

lemma search_found:
  assumes "\<forall>x \<in> set ips. ok x" and "ok ia"
    and "\<forall>j k. 1 \<le> j \<longrightarrow> j \<le> k \<longrightarrow> k < length ips \<longrightarrow> cmp (ips ! j) (ips ! k) \<le> 0"
    and "0 \<le> a" and "z + 1 < int (length ips)"
  shows "prison_ip_search cmp ips ia a z =
    Some (if \<exists>j. a < int j \<and> int j \<le> z + 1 \<and> ips ! j = ia then 0 else EADDRNOTAVAIL)"
  using assms
proof (induction "nat (z - a + 1)" arbitrary: a z rule: less_induct)
  case less
  note prems = less.prems
  let ?Q = "\<lambda>a z. \<exists>j. a < int j \<and> int j \<le> z + 1 \<and> ips ! j = ia"
  show ?case
  proof (cases "a \<le> z")
    case False
    then have "\<not> ?Q a z" by auto
    then show ?thesis using False by (subst prison_ip_search.simps) simp
  next
    case True
    define i where "i = (a + z) div 2"
    define m where "m = nat (i + 1)"
    have i: "a \<le> i" "i \<le> z" "int m = i + 1" "1 \<le> m" "m < length ips"
      using True prems(4,5) by (auto simp: i_def m_def)
    have okm: "ok (ips ! m)" using prems(1) i(5) by simp
    have okj: "ok (ips ! j)" if "j < length ips" for j using prems(1) that by simp
    have bnd: "0 \<le> i + 1 \<and> nat (i + 1) < length ips" using i prems(4) by (auto simp: m_def)
    have step: "prison_ip_search cmp ips ia a z =
        (if 0 < cmp (ips ! m) ia then prison_ip_search cmp ips ia a (i - 1)
         else if cmp (ips ! m) ia < 0 then prison_ip_search cmp ips ia (i + 1) z
         else Some 0)"
      by (rule prison_ip_search_step) (use True bnd i(5) in \<open>simp_all add: i_def m_def\<close>)
    consider (gt) "0 < cmp (ips ! m) ia" | (lt) "cmp (ips ! m) ia < 0" | (eq) "cmp (ips ! m) ia = 0"
      by linarith
    then show ?thesis
    proof cases
      case gt
      have "?Q a z \<longleftrightarrow> ?Q a (i - 1)"
      proof
        assume "?Q a z"
        then obtain j where j: "a < int j" "int j \<le> z + 1" "ips ! j = ia" by blast
        have "\<not> m \<le> j"
        proof
          assume "m \<le> j"
          then have "cmp (ips ! m) (ips ! j) \<le> 0" using prems(3,5) i(4) j(2) by auto
          then show False using gt j(3) by simp
        qed
        then show "?Q a (i - 1)" using j i(3) by (intro exI [of _ j]) auto
      next
        assume "?Q a (i - 1)"
        then obtain j where "a < int j" "int j \<le> i - 1 + 1" "ips ! j = ia" by blast
        then show "?Q a z" using i(2) by (intro exI [of _ j]) linarith
      qed
      moreover have "prison_ip_search cmp ips ia a (i - 1) =
          Some (if ?Q a (i - 1) then 0 else EADDRNOTAVAIL)"
      proof (rule less.hyps)
        show "nat (i - 1 - a + 1) < nat (z - a + 1)" using True i(2) by linarith
        show "i - 1 + 1 < int (length ips)" using prems(5) i(2) by linarith
      qed (fact prems)+
      ultimately show ?thesis
        using step gt by simp
    next
      case lt
      have "?Q a z \<longleftrightarrow> ?Q (i + 1) z"
      proof
        assume "?Q a z"
        then obtain j where j: "a < int j" "int j \<le> z + 1" "ips ! j = ia" by blast
        have "\<not> j \<le> m"
        proof
          assume "j \<le> m"
          then have "cmp (ips ! j) (ips ! m) \<le> 0" using prems(3,4) i(5) j(1) by auto
          then have "cmp ia ia < 0"
            using cmp_trans [OF _ okm prems(2), of ia] lt prems(2) j(3) by simp
          then show False using cmp_eq [OF prems(2,2)] by simp
        qed
        then show "?Q (i + 1) z" using j i(3) by (intro exI [of _ j]) auto
      next
        assume "?Q (i + 1) z"
        then obtain j where "i + 1 < int j" "int j \<le> z + 1" "ips ! j = ia" by blast
        then show "?Q a z" using i(1) by (intro exI [of _ j]) linarith
      qed
      moreover have "prison_ip_search cmp ips ia (i + 1) z =
          Some (if ?Q (i + 1) z then 0 else EADDRNOTAVAIL)"
      proof (rule less.hyps)
        show "nat (z - (i + 1) + 1) < nat (z - a + 1)" using True i(1) by linarith
        show "0 \<le> i + 1" using prems(4) i(1) by linarith
      qed (fact prems)+
      ultimately show ?thesis
        using step lt by simp
    next
      case eq
      then have "ips ! m = ia" using cmp_eq [OF okm prems(2)] by simp
      then have "?Q a z" using i by (intro exI [of _ m]) auto
      then show ?thesis
        using step eq by simp
    qed
  qed
qed

end

lemma bit_ntohl:
  "bit (ntohl x) n =
     (if n < 8 then bit x (n + 24) else if n < 16 then bit x (n + 8)
      else if n < 24 then bit x (n - 8) else if n < 32 then bit x (n - 24) else False)"
proof -
  consider "n < 8" | "8 \<le> n" "n < 16" | "16 \<le> n" "n < 24" | "24 \<le> n" "n < 32" | "32 \<le> n"
    by linarith
  then show ?thesis
    by cases (simp_all add: ntohl_def bit_simps less_diff_conv2 algebra_simps)
qed

lemma ntohl_ntohl [simp]: "ntohl (ntohl x) = x"
  by (rule bit_word_eqI) (auto simp: bit_ntohl less_diff_conv2 not_less)

lemma ntohl_inject: "ntohl x = ntohl y \<longleftrightarrow> x = y"
  by (metis ntohl_ntohl)

interpretation v4: cmp_order qcmp_v4 "\<lambda>_. True"
  by unfold_locales (auto simp: qcmp_v4_def Let_def ntohl_inject split: if_splits)

lemma qcmp_v6_eq: "length x = length y \<Longrightarrow> qcmp_v6 x y = 0 \<longleftrightarrow> x = y"
  by (induction x y rule: qcmp_v6.induct) (auto split: if_splits)

lemma qcmp_v6_sym: "length x = length y \<Longrightarrow> 0 < qcmp_v6 x y \<longleftrightarrow> qcmp_v6 y x < 0"
  by (induction x y rule: qcmp_v6.induct) (auto split: if_splits)

lemma qcmp_v6_trans:
  "length x = length y \<Longrightarrow> length y = length z \<Longrightarrow> qcmp_v6 x y \<le> 0 \<Longrightarrow> qcmp_v6 y z < 0 \<Longrightarrow>
   qcmp_v6 x z < 0"
proof (induction x y arbitrary: z rule: qcmp_v6.induct)
  case (1 a as b bs)
  then obtain c cs where z: "z = c # cs" by (cases z) auto
  show ?case
    using "1.prems" "1.IH" [of cs] unfolding z by (auto split: if_splits)
qed (auto split: if_splits)

interpretation v6: cmp_order qcmp_v6 "\<lambda>a. length a = 16"
  by unfold_locales (auto simp: qcmp_v6_eq qcmp_v6_sym intro: qcmp_v6_trans)

text \<open>A sorted tail, as \<^verbatim>\<open>jail_copyin_ips\<close> leaves it, makes the search a membership test.\<close>

lemma nth_tail_sorted:
  assumes "sorted_wrt (\<lambda>x y. cmp x y \<le> (0 :: int)) (tl ips)" and "\<forall>x \<in> set ips. cmp x x = 0"
    and "1 \<le> j" and "j \<le> k" and "k < length ips"
  shows "cmp (ips ! j) (ips ! k) \<le> 0"
proof (cases "j = k")
  case True
  then show ?thesis using assms(2,5) by simp
next
  case False
  have "ips ! j = tl ips ! (j - 1)" "ips ! k = tl ips ! (k - 1)"
    using assms(3-5) by (simp_all add: nth_tl)
  then show ?thesis
    using sorted_wrt_nth_less [OF assms(1), of "j - 1" "k - 1"] assms(3-5) False by simp
qed

lemma mem_tail_index:
  assumes "p \<noteq> ia"
  shows "(\<exists>j. 0 < int j \<and> int j \<le> int (length (p # ps)) - 2 + 1 \<and> (p # ps) ! j = ia) \<longleftrightarrow>
    ia \<in> set (p # ps)"
proof
  assume "ia \<in> set (p # ps)"
  then obtain i where "i < length ps" "ps ! i = ia"
    using assms by (auto simp: in_set_conv_nth)
  then show "\<exists>j. 0 < int j \<and> int j \<le> int (length (p # ps)) - 2 + 1 \<and> (p # ps) ! j = ia"
    by (intro exI [of _ "Suc i"]) simp
next
  assume "\<exists>j. 0 < int j \<and> int j \<le> int (length (p # ps)) - 2 + 1 \<and> (p # ps) ! j = ia"
  then obtain j where j: "int j \<le> int (length (p # ps)) - 2 + 1" "(p # ps) ! j = ia" by blast
  then have "j < length (p # ps)" by simp
  then show "ia \<in> set (p # ps)" using j(2) by (metis nth_mem)
qed

lemma prison_check_ip4_list_mem:
  assumes "ips \<noteq> []" and "sorted_wrt (\<lambda>x y. qcmp_v4 x y \<le> 0) (tl ips)"
  shows "prison_check_ip4_list ips (int (length ips)) ia =
    Some (if ia \<in> set ips then 0 else EADDRNOTAVAIL)"
proof -
  obtain p ps where ips: "ips = p # ps" using assms(1) by (cases ips) auto
  have ord: "\<forall>j k. 1 \<le> j \<longrightarrow> j \<le> k \<longrightarrow> k < length ips \<longrightarrow> qcmp_v4 (ips ! j) (ips ! k) \<le> 0"
    using nth_tail_sorted [OF assms(2)] v4.cmp_eq by blast
  show ?thesis
  proof (cases "p = ia")
    case True
    then show ?thesis by (simp add: prison_check_ip4_list_def ips)
  next
    case False
    have "prison_ip_search qcmp_v4 ips ia 0 (int (length ips) - 2) =
        Some (if ia \<in> set ips then 0 else EADDRNOTAVAIL)"
      using v4.search_found [where ia = ia and a = 0 and z = "int (length ips) - 2", OF _ _ ord] mem_tail_index [OF False, of ps]
      by (simp add: ips)
    then show ?thesis using False by (simp add: prison_check_ip4_list_def ips)
  qed
qed

lemma prison_check_ip6_list_mem:
  assumes "ips \<noteq> []" and "sorted_wrt (\<lambda>x y. qcmp_v6 x y \<le> 0) (tl ips)"
    and len: "\<forall>x \<in> set ips. length x = 16" "length ia = 16"
  shows "prison_check_ip6_list ips (int (length ips)) ia =
    Some (if ia \<in> set ips then 0 else EADDRNOTAVAIL)"
proof -
  obtain p ps where ips: "ips = p # ps" using assms(1) by (cases ips) auto
  have ord: "\<forall>j k. 1 \<le> j \<longrightarrow> j \<le> k \<longrightarrow> k < length ips \<longrightarrow> qcmp_v6 (ips ! j) (ips ! k) \<le> 0"
    using nth_tail_sorted [OF assms(2)] v6.cmp_eq len(1) by blast
  show ?thesis
  proof (cases "p = ia")
    case True
    then show ?thesis by (simp add: prison_check_ip6_list_def ips)
  next
    case False
    have "prison_ip_search qcmp_v6 ips ia 0 (int (length ips) - 2) =
        Some (if ia \<in> set ips then 0 else EADDRNOTAVAIL)"
      using v6.search_found [where a = 0 and z = "int (length ips) - 2", OF len ord] mem_tail_index [OF False, of ps]
      by (simp add: ips)
    then show ?thesis using False by (simp add: prison_check_ip6_list_def ips)
  qed
qed

end
