(* ===== verification/Priv.thy ===== *)
theory Priv
  imports Jail
begin

text \<open>
  The privilege decision of \<^verbatim>\<open>src/sys/kern/kern_priv.c\<close>. The configuration has no
  \<^verbatim>\<open>options MAC\<close>, so jail and superuser policy decide. The \<^verbatim>\<open>KASSERT\<close> that the
  privilege number is valid concerns the constant each caller passes.
\<close>

definition priv_check_cred :: "sysconf \<Rightarrow> ucred \<Rightarrow> int \<Rightarrow> errno" where
  "priv_check_cred cf cred priv =
     (let error = prison_priv_check cf cred priv
      in if error \<noteq> 0 then error
         else if suser_enabled cf \<and>
                 (if priv \<in> {PRIV_MAXFILES, PRIV_MAXPROC, PRIV_PROC_LIMIT}
                  then cr_ruid cred = 0 else cr_uid cred = 0)
         then 0
         else EPERM)"

lemma priv_check_cred_errno: "priv_check_cred cf cred priv \<in> {0, EPERM}"
  by (auto simp: priv_check_cred_def prison_priv_check_def Let_def)

text \<open>Neither a change of the reference count nor of the accounting pointers matters.\<close>

lemma priv_check_cred_cong:
  assumes "cr_uid c' = cr_uid c" and "cr_ruid c' = cr_ruid c" and "jailed c' = jailed c"
  shows "priv_check_cred cf c' priv = priv_check_cred cf c priv"
  using assms by (simp add: priv_check_cred_def prison_priv_check_def)

end
