(* ===== verification/Ucred.thy ===== *)
theory Ucred
  imports Uidinfo Priv
begin

text \<open>
  Credentials, \<^verbatim>\<open>src/sys/kern/kern_prot.c\<close>: reference-counted \<^verbatim>\<open>struct ucred\<close> objects,
  shared by processes and threads and never changed once shared. A credential holds
  references into two other stores, the uidinfo table and the prison list.

  The kernel state \<open>kern\<close> is the credential heap, the two stores, the processes and
  the threads. Processes and threads are named by their index.
\<close>

section \<open>State\<close>

record proc =
  p_pid :: int
  p_ucred :: addr
  p_flag :: "32 word"
  p_pfsflags :: "32 word"
  p_stops :: "32 word"
  p_session :: nat
  p_leader :: "nat option"

record thread =
  td_proc :: nat
  td_ucred :: "addr option"
  td_retval :: "32 word"

record kern =
  k_ui :: ui_state
  k_jail :: jail_state
  k_ucreds :: "ucred option list"
  k_procs :: "proc list"
  k_threads :: "thread list"
  initproc :: nat

abbreviation (input) P_SUGID :: "32 word" where "P_SUGID \<equiv> 0x100"
abbreviation (input) P_INEXEC :: "32 word" where "P_INEXEC \<equiv> 0x4000000"
abbreviation (input) PF_ISUGID :: "32 word" where "PF_ISUGID \<equiv> 2"

definition cred_at :: "kern \<Rightarrow> addr \<Rightarrow> ucred option" where
  "cred_at k c = deref (k_ucreds k) c"

definition cred_put :: "addr \<Rightarrow> ucred \<Rightarrow> kern \<Rightarrow> kern" where
  "cred_put c cr k = k\<lparr>k_ucreds := hstore c cr (k_ucreds k)\<rparr>"

definition proc_at :: "kern \<Rightarrow> nat \<Rightarrow> proc option" where
  "proc_at k i = (if i < length (k_procs k) then Some (k_procs k ! i) else None)"

definition proc_put :: "nat \<Rightarrow> proc \<Rightarrow> kern \<Rightarrow> kern" where
  "proc_put i p k = k\<lparr>k_procs := (k_procs k)[i := p]\<rparr>"

definition thread_at :: "kern \<Rightarrow> nat \<Rightarrow> thread option" where
  "thread_at k t = (if t < length (k_threads k) then Some (k_threads k ! t) else None)"

definition thread_put :: "nat \<Rightarrow> thread \<Rightarrow> kern \<Rightarrow> kern" where
  "thread_put t td k = k\<lparr>k_threads := (k_threads k)[t := td]\<rparr>"

text \<open>Operations of the two stores, on the kernel state.\<close>

definition with_ui :: "(ui_state \<Rightarrow> ui_state option) \<Rightarrow> kern \<Rightarrow> kern option" where
  "with_ui f k = do { u \<leftarrow> f (k_ui k); Some (k\<lparr>k_ui := u\<rparr>) }"

definition with_jail :: "(jail_state \<Rightarrow> jail_state option) \<Rightarrow> kern \<Rightarrow> kern option" where
  "with_jail f k = do { j \<leftarrow> f (k_jail k); Some (k\<lparr>k_jail := j\<rparr>) }"

definition with_null :: "('a \<Rightarrow> kern \<Rightarrow> kern option) \<Rightarrow> 'a option \<Rightarrow> kern \<Rightarrow> kern option" where
  "with_null f p k = (case p of None \<Rightarrow> Some k | Some a \<Rightarrow> f a k)"

definition uifind_k :: "uid \<Rightarrow> kern \<Rightarrow> (addr \<times> kern) option" where
  "uifind_k uid k = do { (a, u) \<leftarrow> uifind (\<lambda>s. s) uid (k_ui k); Some (a, k\<lparr>k_ui := u\<rparr>) }"

section \<open>Credential objects\<close>

definition crget :: "kern \<Rightarrow> addr \<times> kern" where
  "crget k = (length (k_ucreds k),
              k\<lparr>k_ucreds := halloc (ucred_zero\<lparr>cr_ref := 1\<rparr>) (k_ucreds k)\<rparr>)"

definition crhold :: "addr \<Rightarrow> kern \<Rightarrow> kern option" where
  "crhold c k =
     do { cr \<leftarrow> cred_at k c;
          Some (cred_put c (cr\<lparr>cr_ref := refcount_acquire (cr_ref cr)\<rparr>) k) }"

definition crfree :: "addr \<Rightarrow> kern \<Rightarrow> kern option" where
  "crfree c k =
     do { cr \<leftarrow> cred_at k c;
          assert_opt (0 < cr_ref cr);
          assert_opt (cr_ref cr \<noteq> 0xdeadc0de);
          (last, n) \<leftarrow> refcount_release (cr_ref cr);
          let k = cred_put c (cr\<lparr>cr_ref := n\<rparr>) k;
          if last then do {
            k \<leftarrow> with_null (\<lambda>u. with_ui (uifree u)) (cr_uidinfo cr) k;
            k \<leftarrow> with_null (\<lambda>u. with_ui (uifree u)) (cr_ruidinfo cr) k;
            k \<leftarrow> with_null (\<lambda>p. with_jail (prison_free p)) (cr_prison cr) k;
            Some (k\<lparr>k_ucreds := hfree c (k_ucreds k)\<rparr>) }
          else Some k }"

definition crshared :: "ucred \<Rightarrow> bool" where
  "crshared cr = (1 < cr_ref cr)"

text \<open>The fields from \<^verbatim>\<open>cr_startcopy\<close> to \<^verbatim>\<open>cr_endcopy\<close>, and the audit state.\<close>

definition cred_copy_fields :: "ucred \<Rightarrow> ucred \<Rightarrow> ucred" where
  "cred_copy_fields dest src =
     dest\<lparr>cr_uid := cr_uid src, cr_ruid := cr_ruid src, cr_svuid := cr_svuid src,
          cr_ngroups := cr_ngroups src, cr_groups := cr_groups src,
          cr_rgid := cr_rgid src, cr_svgid := cr_svgid src,
          cr_uidinfo := cr_uidinfo src, cr_ruidinfo := cr_ruidinfo src,
          cr_prison := cr_prison src\<rparr>"

definition crcopy :: "addr \<Rightarrow> addr \<Rightarrow> kern \<Rightarrow> kern option" where
  "crcopy dest src k =
     do { d \<leftarrow> cred_at k dest;
          s \<leftarrow> cred_at k src;
          assert_opt (\<not> crshared d);
          let d = cred_copy_fields d s;
          let k = cred_put dest d k;
          u \<leftarrow> cr_uidinfo d;
          k \<leftarrow> with_ui (uihold u) k;
          r \<leftarrow> cr_ruidinfo d;
          k \<leftarrow> with_ui (uihold r) k;
          k \<leftarrow> with_null (\<lambda>p. with_jail (prison_hold p)) (cr_prison d) k;
          Some (cred_put dest (d\<lparr>cr_audit := cr_audit s\<rparr>) k) }"

definition crdup :: "addr \<Rightarrow> kern \<Rightarrow> (addr \<times> kern) option" where
  "crdup cr k =
     do { let (newcr, k) = crget k;
          k \<leftarrow> crcopy newcr cr k;
          Some (newcr, k) }"

record xucred =
  xcr_version :: "32 word"
  xcr_uid :: uid
  xcr_ngroups :: nat
  xcr_groups :: "gid list"

definition cru2x :: "ucred \<Rightarrow> xucred" where
  "cru2x cr = \<lparr>xcr_version = 0, xcr_uid = cr_uid cr, xcr_ngroups = cr_ngroups cr,
               xcr_groups = cr_groups cr\<rparr>"

definition cred_update_thread :: "nat \<Rightarrow> kern \<Rightarrow> kern option" where
  "cred_update_thread t k =
     do { td \<leftarrow> thread_at k t;
          p \<leftarrow> proc_at k (td_proc td);
          let cred = td_ucred td;
          k \<leftarrow> crhold (p_ucred p) k;
          let k = thread_put t (td\<lparr>td_ucred := Some (p_ucred p)\<rparr>) k;
          with_null crfree cred k }"

fun groupmember_loop :: "gid \<Rightarrow> gid list \<Rightarrow> bool" where
  "groupmember_loop gid [] = False"
| "groupmember_loop gid (gp # gps) = (if gp = gid then True else groupmember_loop gid gps)"

definition groupmember :: "gid \<Rightarrow> ucred \<Rightarrow> bool" where
  "groupmember gid cred = groupmember_loop gid (take (cr_ngroups cred) (cr_groups cred))"

section \<open>Changing an unshared credential\<close>

definition setsugid :: "nat \<Rightarrow> kern \<Rightarrow> kern option" where
  "setsugid i k =
     do { p \<leftarrow> proc_at k i;
          let p = p\<lparr>p_flag := p_flag p OR P_SUGID\<rparr>;
          let p = (if p_pfsflags p AND PF_ISUGID = 0 then p\<lparr>p_stops := 0\<rparr> else p);
          Some (proc_put i p k) }"

definition change_euid :: "addr \<Rightarrow> addr \<Rightarrow> kern \<Rightarrow> kern option" where
  "change_euid newcred euip k =
     do { cr \<leftarrow> cred_at k newcred;
          u \<leftarrow> ui_at (k_ui k) euip;
          let cr = cr\<lparr>cr_uid := ui_uid u\<rparr>;
          let k = cred_put newcred cr k;
          k \<leftarrow> with_ui (uihold euip) k;
          old \<leftarrow> cr_uidinfo cr;
          k \<leftarrow> with_ui (uifree old) k;
          Some (cred_put newcred (cr\<lparr>cr_uidinfo := Some euip\<rparr>) k) }"

definition change_egid :: "addr \<Rightarrow> gid \<Rightarrow> kern \<Rightarrow> kern option" where
  "change_egid newcred egid k =
     do { cr \<leftarrow> cred_at k newcred;
          Some (cred_put newcred (cr\<lparr>cr_groups := (cr_groups cr)[0 := egid]\<rparr>) k) }"

definition chgproccnt_k :: "addr \<Rightarrow> int \<Rightarrow> int \<Rightarrow> kern \<Rightarrow> kern option" where
  "chgproccnt_k uip diff maxval k = with_ui (\<lambda>s. map_option snd (chgproccnt uip diff maxval s)) k"

definition change_ruid :: "addr \<Rightarrow> addr \<Rightarrow> kern \<Rightarrow> kern option" where
  "change_ruid newcred ruip k =
     do { cr \<leftarrow> cred_at k newcred;
          old \<leftarrow> cr_ruidinfo cr;
          k \<leftarrow> chgproccnt_k old (-1) 0 k;
          u \<leftarrow> ui_at (k_ui k) ruip;
          let cr = cr\<lparr>cr_ruid := ui_uid u\<rparr>;
          let k = cred_put newcred cr k;
          k \<leftarrow> with_ui (uihold ruip) k;
          k \<leftarrow> with_ui (uifree old) k;
          let k = cred_put newcred (cr\<lparr>cr_ruidinfo := Some ruip\<rparr>) k;
          chgproccnt_k ruip 1 0 k }"

definition change_rgid :: "addr \<Rightarrow> gid \<Rightarrow> kern \<Rightarrow> kern option" where
  "change_rgid newcred rgid k =
     do { cr \<leftarrow> cred_at k newcred; Some (cred_put newcred (cr\<lparr>cr_rgid := rgid\<rparr>) k) }"

definition change_svuid :: "addr \<Rightarrow> uid \<Rightarrow> kern \<Rightarrow> kern option" where
  "change_svuid newcred svuid k =
     do { cr \<leftarrow> cred_at k newcred; Some (cred_put newcred (cr\<lparr>cr_svuid := svuid\<rparr>) k) }"

definition change_svgid :: "addr \<Rightarrow> gid \<Rightarrow> kern \<Rightarrow> kern option" where
  "change_svgid newcred svgid k =
     do { cr \<leftarrow> cred_at k newcred; Some (cred_put newcred (cr\<lparr>cr_svgid := svgid\<rparr>) k) }"

end
