(* ===== verification/CredInv.thy ===== *)
theory CredInv
  imports Ucred
begin

text \<open>
  What must hold of the credential store and of the two stores it points into: every
  reference count is the number of references that exist, a live credential points to
  live accounting records of its own users, and each user's process count is the number
  of processes with that real user.

  The references that processes, threads and credentials hold are read off the state;
  the multisets \<open>HC\<close>, \<open>HU\<close>, \<open>HP\<close> are the ones held elsewhere: by local variables of the
  code that is running, and by the rest of the kernel.
\<close>

section \<open>Definitions\<close>

definition opt_mset :: "'a option \<Rightarrow> 'a multiset" where
  "opt_mset x = (case x of None \<Rightarrow> {#} | Some a \<Rightarrow> {#a#})"

definition cred_uids :: "ucred \<Rightarrow> addr multiset" where
  "cred_uids cr = opt_mset (cr_uidinfo cr) + opt_mset (cr_ruidinfo cr)"

definition cred_prisons :: "ucred \<Rightarrow> addr multiset" where
  "cred_prisons cr = opt_mset (cr_prison cr)"

definition thread_creds :: "kern \<Rightarrow> addr multiset" where
  "thread_creds k = sum_list (map (\<lambda>t. opt_mset (td_ucred t)) (k_threads k))"

definition cred_holders :: "kern \<Rightarrow> addr multiset" where
  "cred_holders k = mset (map p_ucred (k_procs k)) + thread_creds k"

definition cr_refs :: "kern \<Rightarrow> addr \<Rightarrow> nat option" where
  "cr_refs k c = map_option (\<lambda>cr. unat (cr_ref cr)) (cred_at k c)"

definition cred_coherent :: "ui_state \<Rightarrow> ucred \<Rightarrow> bool" where
  "cred_coherent s cr \<longleftrightarrow>
     (\<forall>u. cr_uidinfo cr = Some u \<longrightarrow> ui_uids s u = Some (cr_uid cr)) \<and>
     (\<forall>u. cr_ruidinfo cr = Some u \<longrightarrow> ui_uids s u = Some (cr_ruid cr)) \<and>
     length (cr_groups cr) = NGROUPS \<and> cr_ngroups cr \<le> NGROUPS"

definition cred_full :: "ucred \<Rightarrow> bool" where
  "cred_full cr \<longleftrightarrow> cr_uidinfo cr \<noteq> None \<and> cr_ruidinfo cr \<noteq> None \<and> 0 < cr_ngroups cr"

definition ruid_procs :: "kern \<Rightarrow> addr \<Rightarrow> nat" where
  "ruid_procs k u = length (filter (\<lambda>p. Option.bind (cred_at k (p_ucred p)) cr_ruidinfo = Some u)
                             (k_procs k))"

definition uid_refs :: "kern \<Rightarrow> addr multiset" where
  "uid_refs k = heap_mset cred_uids (k_ucreds k)"

definition prison_refs :: "kern \<Rightarrow> addr multiset" where
  "prison_refs k = heap_mset cred_prisons (k_ucreds k)"

definition cred_counted :: "kern \<Rightarrow> addr multiset \<Rightarrow> bool" where
  "cred_counted k HC \<longleftrightarrow>
     backed cr_refs k (HC + cred_holders k) \<and>
     (\<forall>c cr. cred_at k c = Some cr \<longrightarrow> 0 < unat (cr_ref cr))"

definition ui_counted :: "ui_state \<Rightarrow> addr multiset \<Rightarrow> bool" where
  "ui_counted s M \<longleftrightarrow> ui_inv s \<and> backed ui_refs s M"

definition pr_counted :: "jail_state \<Rightarrow> addr multiset \<Rightarrow> bool" where
  "pr_counted s M \<longleftrightarrow> jail_inv s \<and> backed pr_refs s M"

definition creds_wf :: "kern \<Rightarrow> bool" where
  "creds_wf k \<longleftrightarrow>
     (\<forall>c cr. cred_at k c = Some cr \<longrightarrow> cred_coherent (k_ui k) cr) \<and>
     (\<forall>c cr. c \<in># cred_holders k \<longrightarrow> cred_at k c = Some cr \<longrightarrow> cred_full cr) \<and>
     (\<forall>t \<in> set (k_threads k). td_proc t < length (k_procs k))"

definition proccnt_ok :: "kern \<Rightarrow> (addr \<Rightarrow> int) \<Rightarrow> bool" where
  "proccnt_ok k D \<longleftrightarrow>
     (\<forall>u v. ui_at (k_ui k) u = Some v \<longrightarrow>
        ui_proccnt v = word_of_int (int (ruid_procs k u) + D u))"

text \<open>\<open>n\<close> more references to any object can be taken before its count would wrap.\<close>

definition room :: "nat \<Rightarrow> addr multiset \<Rightarrow> bool" where
  "room n M \<longleftrightarrow> (\<forall>a. count M a + n < 2 ^ 31)"

definition kern_inv ::
  "nat \<Rightarrow> kern \<Rightarrow> addr multiset \<Rightarrow> addr multiset \<Rightarrow> addr multiset \<Rightarrow> (addr \<Rightarrow> int) \<Rightarrow> bool" where
  "kern_inv n k HC HU HP D \<longleftrightarrow>
     cred_counted k HC \<and> ui_counted (k_ui k) (HU + uid_refs k) \<and>
     pr_counted (k_jail k) (HP + prison_refs k) \<and> creds_wf k \<and> proccnt_ok k D \<and>
     room n (HC + cred_holders k) \<and> room n (HU + uid_refs k) \<and> room n (HP + prison_refs k)"

section \<open>Basic facts\<close>

lemma opt_mset_simps [simp]: "opt_mset None = {#}" "opt_mset (Some a) = {#a#}"
  by (simp_all add: opt_mset_def)

lemma room_mono: "room n M \<Longrightarrow> m \<le> n \<Longrightarrow> room m M"
  unfolding room_def by (meson add_le_mono le_refl le_less_trans)

lemma room_add:
  assumes "room (Suc n) M"
  shows "room n (add_mset a M)"
  unfolding room_def
proof
  fix b
  have "count M b + Suc n < 2 ^ 31" using assms unfolding room_def by blast
  then show "count (add_mset a M) b + n < 2 ^ 31" by simp
qed

lemma room_subset: "room n M \<Longrightarrow> N \<subseteq># M \<Longrightarrow> room n N"
  unfolding room_def by (meson add_le_mono le_refl le_less_trans mset_subset_eq_count)

lemma room_plus: "room n (M + N) \<Longrightarrow> room n M"
  by (rule room_subset [of n "M + N"]) simp_all

lemma cred_at_put [heap_simps]:
  "cred_at k c = Some cr \<Longrightarrow> cred_at (cred_put c v k) d = (if d = c then Some v else cred_at k d)"
  by (auto simp: cred_at_def cred_put_def deref_hstore dest: deref_SomeD)

lemma cred_put_frame [simp]:
  "k_ui (cred_put c v k) = k_ui k" "k_jail (cred_put c v k) = k_jail k"
  "k_procs (cred_put c v k) = k_procs k" "k_threads (cred_put c v k) = k_threads k"
  "initproc (cred_put c v k) = initproc k"
  by (simp_all add: cred_put_def)

lemma cred_at_frame [simp]:
  "cred_at (k\<lparr>k_ui := u\<rparr>) = cred_at k" "cred_at (k\<lparr>k_jail := j\<rparr>) = cred_at k"
  "cred_at (k\<lparr>k_procs := ps\<rparr>) = cred_at k" "cred_at (k\<lparr>k_threads := ts\<rparr>) = cred_at k"
  by (simp_all add: fun_eq_iff cred_at_def)

section \<open>The two stores\<close>

lemma uihold_runs:
  assumes "ui_counted s M" and "u \<in># M" and "room 1 M"
  shows "runs (uihold u s) (\<lambda>s'. ui_counted s' (add_mset u M) \<and> ui_attr s' = ui_attr s)"
proof -
  have "count M u + 1 < 2 ^ 32"
    using assms(3) unfolding room_def by (rule allE [of _ u]) simp
  then show ?thesis
    using ui.hold_backed [of s M u] assms(1,2) by (auto simp: runs_def ui_counted_def)
qed

lemma uifree_runs:
  assumes "ui_counted s (add_mset u M)"
  shows "runs (uifree u s) (\<lambda>s'. ui_counted s' M \<and>
    (\<forall>b. ui_at s' b \<noteq> None \<longrightarrow> ui_attr s' b = ui_attr s b))"
proof -
  have "ui_refs s' b \<noteq> None \<longleftrightarrow> ui_at s' b \<noteq> None" for s' b
    by (simp add: ui_refs_def)
  then show ?thesis
    using ui.rele_backed [of s u M] assms by (auto simp: runs_def ui_counted_def)
qed

lemma prison_hold_runs:
  assumes "pr_counted s M" and "p \<in># M" and "room 1 M"
  shows "runs (prison_hold p s) (\<lambda>s'. pr_counted s' (add_mset p M) \<and> pr_attr s' = pr_attr s)"
proof -
  have "count M p + 1 < 2 ^ 31"
    using assms(3) unfolding room_def by (rule allE [of _ p]) simp
  then show ?thesis
    using pr.hold_backed [of s M p] assms(1,2) by (auto simp: runs_def pr_counted_def)
qed

lemma prison_free_runs:
  assumes "pr_counted s (add_mset p M)"
  shows "runs (prison_free p s) (\<lambda>s'. pr_counted s' M \<and>
    (\<forall>b. pr_at s' b \<noteq> None \<longrightarrow> pr_attr s' b = pr_attr s b))"
proof -
  have "pr_refs s' b \<noteq> None \<longleftrightarrow> pr_at s' b \<noteq> None" for s' b
    by (simp add: pr_refs_def)
  then show ?thesis
    using pr.rele_backed [of s p M] assms by (auto simp: runs_def pr_counted_def)
qed

lemma ui_counted_live: "ui_counted s M \<Longrightarrow> u \<in># M \<Longrightarrow> ui_at s u \<noteq> None"
  using backed_refs [of ui_refs s M u] by (auto simp: ui_counted_def ui_refs_def)

lemma ui_attr_None: "ui_attr s b = None \<longleftrightarrow> ui_at s b = None"
  by (simp add: ui_attr_def)

lemma ui_attr_uids: "ui_attr s' b = ui_attr s b \<Longrightarrow> ui_uids s' b = ui_uids s b"
proof -
  assume "ui_attr s' b = ui_attr s b"
  then have "map_option ui_uid (ui_attr s' b) = map_option ui_uid (ui_attr s b)" by simp
  then show ?thesis by (simp add: ui_attr_def ui_uids_def option.map_comp comp_def)
qed

section \<open>One unshared credential changes\<close>

text \<open>\<open>exclusive k HC c\<close>: the only reference to \<open>c\<close> is the caller's.\<close>

definition exclusive :: "kern \<Rightarrow> addr multiset \<Rightarrow> addr \<Rightarrow> bool" where
  "exclusive k HC c \<longleftrightarrow> c \<notin># HC + cred_holders k"

definition uids_kept :: "ui_state \<Rightarrow> ui_state \<Rightarrow> bool" where
  "uids_kept s s' \<longleftrightarrow> (\<forall>b i. ui_uids s b = Some i \<longrightarrow> ui_at s' b \<noteq> None \<longrightarrow> ui_uids s' b = Some i)"

lemma uids_kept_attr:
  "(\<forall>b. ui_at s' b \<noteq> None \<longrightarrow> ui_attr s' b = ui_attr s b) \<Longrightarrow> uids_kept s s'"
  unfolding uids_kept_def by (metis ui_attr_uids)

lemma uids_kept_refl [simp]: "uids_kept s s"
  by (simp add: uids_kept_def)

lemma uid_refs_mem:
  assumes "cred_at k c = Some cr" and "cr_uidinfo cr = Some u \<or> cr_ruidinfo cr = Some u"
  shows "u \<in># uid_refs k"
  unfolding uid_refs_def
  by (rule heap_mset_mem [OF assms(1) [unfolded cred_at_def]]) (use assms(2) in \<open>auto simp: cred_uids_def\<close>)

lemma holders_frame [simp]:
  "cred_holders (cred_put c v k) = cred_holders k"
  "cred_holders (k\<lparr>k_ui := u\<rparr>) = cred_holders k" "cred_holders (k\<lparr>k_jail := j\<rparr>) = cred_holders k"
  "cred_holders (k\<lparr>k_ucreds := h\<rparr>) = cred_holders k"
  by (simp_all add: cred_holders_def thread_creds_def)

lemma refs_frame [simp]:
  "uid_refs (k\<lparr>k_ui := u\<rparr>) = uid_refs k" "uid_refs (k\<lparr>k_jail := j\<rparr>) = uid_refs k"
  "prison_refs (k\<lparr>k_ui := u\<rparr>) = prison_refs k" "prison_refs (k\<lparr>k_jail := j\<rparr>) = prison_refs k"
  by (simp_all add: uid_refs_def prison_refs_def)

lemma holder_live:
  assumes "cred_counted k HC" and "c \<in># HC + cred_holders k"
  shows "cred_at k c \<noteq> None"
  using backed_refs [of cr_refs k "HC + cred_holders k" c] assms
  by (auto simp: cred_counted_def cr_refs_def)

lemma ruid_procs_other:
  assumes "\<And>p. p \<in> set (k_procs k) \<Longrightarrow> cred_at k' (p_ucred p) = cred_at k (p_ucred p)"
    and "k_procs k' = k_procs k"
  shows "ruid_procs k' u = ruid_procs k u"
  unfolding ruid_procs_def assms(2) using assms(1) by (metis (mono_tags, lifting) filter_cong)

lemma proc_holder: "p \<in> set (k_procs k) \<Longrightarrow> p_ucred p \<in># cred_holders k"
  by (auto simp: cred_holders_def)

lemma thread_holder:
  assumes "t \<in> set (k_threads k)" and "td_ucred t = Some c"
  shows "c \<in># cred_holders k"
proof -
  obtain xs ys where "k_threads k = xs @ t # ys" using assms(1) by (meson split_list)
  then show ?thesis using assms(2) by (simp add: cred_holders_def thread_creds_def)
qed

lemma exclusive_proc:
  "exclusive k HC c \<Longrightarrow> p \<in> set (k_procs k) \<Longrightarrow> p_ucred p \<noteq> c"
  using proc_holder by (auto simp: exclusive_def)

text \<open>The one place where the invariant is re-established after a change.\<close>

lemma kern_inv_update:
  assumes inv: "kern_inv n k (add_mset c HC) HU HP D" and exc: "exclusive k HC c"
    and at: "cred_at k c = Some cr" and ref: "cr_ref cr' = cr_ref cr"
    and k': "k' = (cred_put c cr' k)\<lparr>k_ui := ui, k_jail := jl\<rparr>"
    and ui: "ui_counted ui (HU' + uid_refs k')" and kept: "uids_kept (k_ui k) ui"
    and jl: "pr_counted jl (HP' + prison_refs k')"
    and coh: "cred_coherent ui cr'"
    and cnt: "\<And>u v. ui_at ui u = Some v \<Longrightarrow>
      ui_proccnt v = word_of_int (int (ruid_procs k u) + D' u)"
    and room: "m \<le> n" "room m (HU' + uid_refs k')" "room m (HP' + prison_refs k')"
  shows "kern_inv m k' (add_mset c HC) HU' HP' D'"
proof -
  have cr: "cred_at k' d = (if d = c then Some cr' else cred_at k d)" for d
    using at by (simp add: k' cred_at_put)
  have hold: "cred_holders k' = cred_holders k" by (simp add: k')
  have fr: "k_ui k' = ui" "k_jail k' = jl" "k_procs k' = k_procs k" "k_threads k' = k_threads k"
    by (simp_all add: k')
  have "cr_refs k' = cr_refs k"
    using at ref by (auto simp: cr_refs_def cr)
  then have "cred_counted k' (add_mset c HC)"
    using inv at ref by (auto simp: kern_inv_def cred_counted_def backed_def hold cr)
  moreover have "creds_wf k'"
  proof -
    have "cred_coherent ui v" if "cred_at k d = Some v" "d \<noteq> c" for d v
    proof -
      have "cred_at k' d = Some v" using that cr by simp
      then have "ui_at ui u \<noteq> None" if "cr_uidinfo v = Some u \<or> cr_ruidinfo v = Some u" for u
        using uid_refs_mem [of k' d v u] that ui_counted_live [OF ui, of u] by simp
      moreover have "cred_coherent (k_ui k) v"
        using inv that(1) by (auto simp: kern_inv_def creds_wf_def)
      ultimately show ?thesis
        using kept by (auto simp: cred_coherent_def uids_kept_def)
    qed
    then have "\<forall>d v. cred_at k' d = Some v \<longrightarrow> cred_coherent (k_ui k') v"
      using coh by (auto simp: cr fr split: if_splits)
    moreover have "c \<notin># cred_holders k" using exc by (simp add: exclusive_def)
    ultimately show ?thesis
      using inv by (auto simp: kern_inv_def creds_wf_def hold cr fr split: if_splits)
  qed
  moreover have "ruid_procs k' u = ruid_procs k u" for u
    by (rule ruid_procs_other) (use exclusive_proc [OF exc] cr fr in auto)
  then have "proccnt_ok k' D'"
    using cnt by (simp add: proccnt_ok_def fr)
  ultimately show ?thesis
    using ui jl room inv room_mono [of n "add_mset c HC + cred_holders k" m]
    by (simp add: kern_inv_def fr hold)
qed

end
