(* ===== verification/CredOps.thy ===== *)
theory CredOps
  imports CredInv
begin

text \<open>
  Each credential operation, under the invariant: it does not fault, the invariant
  holds again with the references it took or gave up, and what else it leaves alone.
\<close>

text \<open>\<open>frames c k k'\<close>: apart from the stores, only the credential \<open>c\<close> differs.\<close>

definition frames :: "addr \<Rightarrow> kern \<Rightarrow> kern \<Rightarrow> bool" where
  "frames c k k' \<longleftrightarrow>
     k_procs k' = k_procs k \<and> k_threads k' = k_threads k \<and> initproc k' = initproc k \<and>
     (\<forall>d. d \<noteq> c \<longrightarrow> cred_at k' d = cred_at k d) \<and> uids_kept (k_ui k) (k_ui k')"

lemma frames_holders: "frames c k k' \<Longrightarrow> cred_holders k' = cred_holders k"
  by (simp add: frames_def cred_holders_def thread_creds_def)

lemma frames_exclusive: "frames c k k' \<Longrightarrow> exclusive k' HC d = exclusive k HC d"
  by (simp add: exclusive_def frames_holders)

section \<open>Changes of the uidinfo table alone\<close>

lemma kern_inv_ui:
  assumes inv: "kern_inv n k HC HU HP D"
    and ui: "ui_counted s (HU' + uid_refs k)" and kept: "uids_kept (k_ui k) s"
    and cnt: "\<And>u v. ui_at s u = Some v \<Longrightarrow>
      ui_proccnt v = word_of_int (int (ruid_procs k u) + D' u)"
    and room: "m \<le> n" "room m (HU' + uid_refs k)"
  shows "kern_inv m (k\<lparr>k_ui := s\<rparr>) HC HU' HP D'"
proof -
  have "cred_coherent s v" if "cred_at k d = Some v" for d v
  proof -
    have "ui_at s u \<noteq> None" if "cr_uidinfo v = Some u \<or> cr_ruidinfo v = Some u" for u
      using uid_refs_mem [OF \<open>cred_at k d = Some v\<close> that] ui_counted_live [OF ui, of u] by simp
    moreover have "cred_coherent (k_ui k) v"
      using inv that by (auto simp: kern_inv_def creds_wf_def)
    ultimately show ?thesis
      using kept by (auto simp: cred_coherent_def uids_kept_def)
  qed
  moreover have "ruid_procs (k\<lparr>k_ui := s\<rparr>) = ruid_procs k"
    by (simp add: fun_eq_iff ruid_procs_def)
  moreover have "cr_refs (k\<lparr>k_ui := s\<rparr>) = cr_refs k"
    by (simp add: fun_eq_iff cr_refs_def)
  ultimately show ?thesis
    using assms room_mono [of n _ m]
    by (auto simp: kern_inv_def creds_wf_def cred_counted_def backed_def proccnt_ok_def)
qed

lemma ui_attr_proccnt:
  assumes "ui_attr s' u = ui_attr s u" and "ui_at s' u = Some v"
  shows "\<exists>w. ui_at s u = Some w \<and> ui_proccnt w = ui_proccnt v"
proof -
  obtain w where w: "ui_at s u = Some w" "w\<lparr>ui_ref := 0\<rparr> = v\<lparr>ui_ref := 0\<rparr>"
    using assms by (cases "ui_at s u") (auto simp: ui_attr_def)
  then have "ui_proccnt (w\<lparr>ui_ref := 0\<rparr>) = ui_proccnt (v\<lparr>ui_ref := 0\<rparr>)" by simp
  then show ?thesis using w(1) by simp
qed

lemma uifree_k_runs:
  assumes "kern_inv n k HC (add_mset u HU) HP D"
  shows "runs (with_ui (uifree u) k)
    (\<lambda>k'. kern_inv n k' HC HU HP D \<and> (\<forall>c. frames c k k') \<and> k_jail k' = k_jail k \<and>
          cred_at k' = cred_at k)"
proof -
  have ui: "ui_counted (k_ui k) (add_mset u (HU + uid_refs k))"
    using assms by (simp add: kern_inv_def)
  have "room n (HU + uid_refs k)"
    by (rule room_subset [of n "add_mset u (HU + uid_refs k)"]) (use assms in \<open>simp_all add: kern_inv_def\<close>)
  then show ?thesis
    unfolding with_ui_def
  proof (intro runs_bind [OF uifree_runs [OF ui]], clarsimp, intro conjI)
    fix s assume s: "ui_counted s (HU + uid_refs k)"
      and attr: "\<forall>b. (\<exists>y. ui_at s b = Some y) \<longrightarrow> ui_attr s b = ui_attr (k_ui k) b"
    then have kept: "uids_kept (k_ui k) s" by (intro uids_kept_attr) auto
    show "\<forall>c. frames c k (k\<lparr>k_ui := s\<rparr>)" using kept by (simp add: frames_def)
    show "kern_inv n (k\<lparr>k_ui := s\<rparr>) HC HU HP D"
    proof (rule kern_inv_ui [OF assms s kept])
      fix v w assume v: "ui_at s v = Some w"
      then obtain w' where "ui_at (k_ui k) v = Some w'" "ui_proccnt w' = ui_proccnt w"
        using attr ui_attr_proccnt by blast
      then show "ui_proccnt w = word_of_int (int (ruid_procs k v) + D v)"
        using assms by (auto simp: kern_inv_def proccnt_ok_def)
    qed (use \<open>room n (HU + uid_refs k)\<close> in auto)
  qed
qed

lemma ruid_procs_dead:
  assumes inv: "kern_inv n k HC HU HP D" and "ui_at (k_ui k) u = None"
  shows "ruid_procs k u = 0"
proof -
  have "Option.bind (cred_at k (p_ucred p)) cr_ruidinfo \<noteq> Some u" for p :: proc
  proof
    assume "Option.bind (cred_at k (p_ucred p)) cr_ruidinfo = Some u"
    then obtain cr where "cred_at k (p_ucred p) = Some cr" "cr_ruidinfo cr = Some u"
      by (auto simp: bind_eq_Some_conv)
    then have "u \<in># uid_refs k" by (blast intro: uid_refs_mem)
    then show False
      using ui_counted_live [of "k_ui k" "HU + uid_refs k" u] inv assms(2) by (simp add: kern_inv_def)
  qed
  then show ?thesis by (simp add: ruid_procs_def)
qed

lemma uifind_k_runs:
  assumes inv: "kern_inv (Suc n) k HC HU HP (\<lambda>_. 0)"
  shows "runs (uifind_k uid k)
    (\<lambda>(u, k'). kern_inv n k' HC (add_mset u HU) HP (\<lambda>_. 0) \<and> ui_uids (k_ui k') u = Some uid \<and>
          (\<forall>c. frames c k k') \<and> k_jail k' = k_jail k \<and> cred_at k' = cred_at k)"
proof -
  let ?M = "HU + uid_refs k"
  have M: "ui_inv (k_ui k)" "backed ui_refs (k_ui k) ?M" "room (Suc n) ?M"
    using inv by (simp_all add: kern_inv_def ui_counted_def)
  have "\<forall>a. count ?M a + 1 < 2 ^ 32"
  proof
    fix a
    have "count ?M a + Suc n < 2 ^ 31" using M(3) unfolding room_def by blast
    then show "count ?M a + 1 < 2 ^ 32" by simp
  qed
  then obtain u s where s: "uifind (\<lambda>s. s) uid (k_ui k) = Some (u, s)" "ui_inv s"
      "ui_uids s u = Some uid" "backed ui_refs s (add_mset u ?M)"
      "\<forall>b. ui_at (k_ui k) b \<noteq> None \<longrightarrow> ui_attr s b = ui_attr (k_ui k) b"
      "\<forall>b v. ui_at (k_ui k) b = None \<longrightarrow> ui_attr s b = Some v \<longrightarrow> ui_proccnt v = 0"
    using uifind_seq [OF M(1,2), of uid] by blast
  have kept: "uids_kept (k_ui k) s"
    unfolding uids_kept_def
  proof (intro allI impI)
    fix b i assume "ui_uids (k_ui k) b = Some i"
    then have "ui_attr s b = ui_attr (k_ui k) b" using s(5) by (auto simp: ui_uids_def)
    then show "ui_uids s b = Some i"
      using \<open>ui_uids (k_ui k) b = Some i\<close> by (metis ui_attr_uids)
  qed
  have "kern_inv n (k\<lparr>k_ui := s\<rparr>) HC (add_mset u HU) HP (\<lambda>_. 0)"
  proof (rule kern_inv_ui [OF inv _ kept])
    show "ui_counted s (add_mset u HU + uid_refs k)" using s(2,4) by (simp add: ui_counted_def)
    show "room n (add_mset u HU + uid_refs k)" using room_add [OF M(3), of u] by simp
    fix v w assume w: "ui_at s v = Some w"
    show "ui_proccnt w = word_of_int (int (ruid_procs k v) + 0)"
    proof (cases "ui_at (k_ui k) v")
      case None
      have "ui_attr s v = Some (w\<lparr>ui_ref := 0\<rparr>)" using w by (simp add: ui_attr_def)
      then have "ui_proccnt (w\<lparr>ui_ref := 0\<rparr>) = 0" using s(6) None by blast
      then show ?thesis using ruid_procs_dead [OF inv None] by simp
    next
      case (Some x)
      then obtain w' where "ui_at (k_ui k) v = Some w'" "ui_proccnt w' = ui_proccnt w"
        using s(5) w ui_attr_proccnt by (metis option.discI)
      then show ?thesis using inv by (auto simp: kern_inv_def proccnt_ok_def)
    qed
  qed simp
  then show ?thesis
    using s(1,3) kept by (simp add: uifind_k_def frames_def)
qed

section \<open>Taking and dropping a credential\<close>

lemma crget_inv:
  assumes inv: "kern_inv (Suc n) k HC HU HP D" and g: "crget k = (c, k')"
  shows "kern_inv n k' (add_mset c HC) HU HP D" and "exclusive k' HC c"
    and "cred_at k' c = Some (ucred_zero\<lparr>cr_ref := 1\<rparr>)" and "cred_at k c = None"
    and "frames c k k'" and "k_ui k' = k_ui k" and "k_jail k' = k_jail k"
proof -
  have c: "c = length (k_ucreds k)"
    and k': "k' = k\<lparr>k_ucreds := halloc (ucred_zero\<lparr>cr_ref := 1\<rparr>) (k_ucreds k)\<rparr>"
    using g by (simp_all add: crget_def)
  show new: "cred_at k' c = Some (ucred_zero\<lparr>cr_ref := 1\<rparr>)" and fresh: "cred_at k c = None"
    and "k_ui k' = k_ui k" and "k_jail k' = k_jail k"
    by (simp_all add: k' c cred_at_def deref_halloc)
  have old: "cred_at k' d = cred_at k d" if "d \<noteq> c" for d
    using that by (simp add: k' c cred_at_def deref_halloc)
  then show "frames c k k'" by (simp add: frames_def k')
  have "c \<notin># HC + cred_holders k"
    using holder_live [of k HC c] inv fresh by (auto simp: kern_inv_def)
  then show exc: "exclusive k' HC c" by (simp add: exclusive_def k')
  have refs: "uid_refs k' = uid_refs k" "prison_refs k' = prison_refs k"
    by (simp_all add: uid_refs_def prison_refs_def k' cred_uids_def cred_prisons_def ucred_zero_def)
  have hold: "cred_holders k' = cred_holders k" by (simp add: k')
  have cc: "cred_counted k HC" using inv by (simp add: kern_inv_def)
  have "0 < unat (cr_ref v)" if "cred_at k' d = Some v" for d v
  proof (cases "d = c")
    case True
    then show ?thesis using that new by auto
  next
    case False
    then show ?thesis using that old cc by (auto simp: cred_counted_def)
  qed
  moreover have "backed cr_refs k' (add_mset c HC + cred_holders k')"
    unfolding backed_def hold
  proof
    fix d
    show "count (add_mset c HC + cred_holders k) d = ref_value (cr_refs k' d)"
    proof (cases "d = c")
      case True
      have "count (HC + cred_holders k) c = 0"
        using \<open>c \<notin># HC + cred_holders k\<close> by (simp only: not_in_iff)
      then show ?thesis using True new by (simp add: cr_refs_def)
    next
      case False
      then show ?thesis using cc old by (simp add: cr_refs_def cred_counted_def backed_def)
    qed
  qed
  ultimately have "cred_counted k' (add_mset c HC)" by (auto simp: cred_counted_def)
  moreover have "creds_wf k'"
  proof -
    have "cred_coherent (k_ui k) v" if "cred_at k' d = Some v" for d v
    proof (cases "d = c")
      case True
      then show ?thesis using that new by (auto simp: cred_coherent_def ucred_zero_def)
    next
      case False
      then show ?thesis using that old inv by (auto simp: kern_inv_def creds_wf_def)
    qed
    moreover have "cred_full v" if "d \<in># cred_holders k" "cred_at k' d = Some v" for d v
    proof -
      have "d \<noteq> c" using that(1) \<open>c \<notin># HC + cred_holders k\<close> by auto
      then show ?thesis using that old inv by (auto simp: kern_inv_def creds_wf_def)
    qed
    ultimately show ?thesis
      using inv by (auto simp: creds_wf_def k' kern_inv_def)
  qed
  moreover have "ruid_procs k' u = ruid_procs k u" for u
    by (rule ruid_procs_other) (use exc exclusive_proc [of k' HC c] old in \<open>auto simp: k'\<close>)
  ultimately show "kern_inv n k' (add_mset c HC) HU HP D"
    using inv refs room_add [of n "HC + cred_holders k" c] room_mono [of "Suc n" _ n]
    by (simp add: kern_inv_def k' proccnt_ok_def)
qed

lemma cred_count:
  assumes "kern_inv n k (add_mset c HC) HU HP D"
  shows "\<exists>cr. cred_at k c = Some cr \<and> unat (cr_ref cr) = Suc (count (HC + cred_holders k) c) \<and>
    unat (cr_ref cr) < 2 ^ 31"
proof -
  let ?M = "add_mset c HC + cred_holders k"
  have "cr_refs k c = Some (count ?M c)"
    by (rule backed_refs) (use assms in \<open>auto simp: kern_inv_def cred_counted_def\<close>)
  moreover have "count ?M c + n < 2 ^ 31"
    using assms unfolding kern_inv_def room_def by blast
  ultimately show ?thesis by (auto simp: cr_refs_def)
qed

lemma with_null_uifree:
  assumes "ui_counted (k_ui k) (M + opt_mset p)"
  shows "runs (with_null (\<lambda>u. with_ui (uifree u)) p k) (\<lambda>k'. \<exists>s. k' = k\<lparr>k_ui := s\<rparr> \<and> ui_counted s M \<and>
    (\<forall>b. ui_at s b \<noteq> None \<longrightarrow> ui_attr s b = ui_attr (k_ui k) b))"
proof (cases p)
  case None
  then show ?thesis using assms by (auto simp: with_null_def intro: exI [of _ "k_ui k"])
next
  case (Some u)
  then have "ui_counted (k_ui k) (add_mset u M)" using assms by simp
  from uifree_runs [OF this] show ?thesis
    unfolding Some with_null_def with_ui_def by (auto simp: runs_def)
qed

lemma with_null_prison_free:
  assumes "pr_counted (k_jail k) (M + opt_mset p)"
  shows "runs (with_null (\<lambda>a. with_jail (prison_free a)) p k) (\<lambda>k'. \<exists>s. k' = k\<lparr>k_jail := s\<rparr> \<and> pr_counted s M)"
proof (cases p)
  case None
  then show ?thesis using assms by (auto simp: with_null_def intro: exI [of _ "k_jail k"])
next
  case (Some u)
  then have "pr_counted (k_jail k) (add_mset u M)" using assms by simp
  from prison_free_runs [OF this] show ?thesis
    unfolding Some with_null_def with_jail_def by (auto simp: runs_def)
qed

lemma ui_attr_trans:
  assumes "\<forall>b. ui_at s1 b \<noteq> None \<longrightarrow> ui_attr s1 b = ui_attr s b"
    and "\<forall>b. ui_at s2 b \<noteq> None \<longrightarrow> ui_attr s2 b = ui_attr s1 b"
  shows "\<forall>b. ui_at s2 b \<noteq> None \<longrightarrow> ui_attr s2 b = ui_attr s b"
proof (intro allI impI)
  fix b assume b: "ui_at s2 b \<noteq> None"
  then have eq: "ui_attr s2 b = ui_attr s1 b" using assms(2) by blast
  then have "ui_at s1 b \<noteq> None" using b by (simp flip: ui_attr_None)
  then show "ui_attr s2 b = ui_attr s b" using eq assms(1) by auto
qed

text \<open>The last reference: the credential and what it pointed to go.\<close>

lemma kern_inv_drop:
  assumes inv: "kern_inv n k (add_mset c HC) HU HP D" and exc: "exclusive k HC c"
    and k': "k' = k\<lparr>k_ui := s, k_jail := j, k_ucreds := hfree c (k_ucreds k)\<rparr>"
    and ui: "ui_counted s (HU + uid_refs k')" and pr: "pr_counted j (HP + prison_refs k')"
    and attr: "\<forall>b. ui_at s b \<noteq> None \<longrightarrow> ui_attr s b = ui_attr (k_ui k) b"
    and room: "room n (HU + uid_refs k')" "room n (HP + prison_refs k')"
  shows "kern_inv n k' HC HU HP D"
proof -
  have at: "cred_at k' d = (if d = c then None else cred_at k d)" for d
    by (simp add: k' cred_at_def deref_hfree)
  have hold: "cred_holders k' = cred_holders k" by (simp add: k' cred_holders_def thread_creds_def)
  have fr: "k_ui k' = s" "k_jail k' = j" "k_procs k' = k_procs k" "k_threads k' = k_threads k"
    by (simp_all add: k')
  have cc: "cred_counted k (add_mset c HC)" using inv by (simp add: kern_inv_def)
  have kept: "uids_kept (k_ui k) s" by (rule uids_kept_attr [OF attr])
  have "cred_counted k' HC"
    unfolding cred_counted_def backed_def hold
  proof (intro conjI allI impI)
    fix d
    have "count (HC + cred_holders k) c = 0"
      using exc by (simp only: exclusive_def not_in_iff)
    moreover have "d \<noteq> c \<Longrightarrow> count (add_mset c HC + cred_holders k) d = count (HC + cred_holders k) d"
      by simp
    ultimately show "count (HC + cred_holders k) d = ref_value (cr_refs k' d)"
      using cc at by (auto simp: cred_counted_def backed_def cr_refs_def split: if_splits)
  next
    fix d cr assume "cred_at k' d = Some cr"
    then show "0 < unat (cr_ref cr)" using cc at by (auto simp: cred_counted_def split: if_splits)
  qed
  moreover have "cred_coherent s v" if v: "cred_at k' d = Some v" for d v
  proof -
    have "ui_at s u \<noteq> None" if "cr_uidinfo v = Some u \<or> cr_ruidinfo v = Some u" for u
      using uid_refs_mem [OF v that] ui_counted_live [OF ui, of u] by simp
    moreover have "cred_coherent (k_ui k) v"
      using inv v at by (auto simp: kern_inv_def creds_wf_def split: if_splits)
    ultimately show ?thesis using kept by (auto simp: cred_coherent_def uids_kept_def)
  qed
  then have "creds_wf k'"
    using inv by (auto simp: kern_inv_def creds_wf_def hold at fr split: if_splits)
  moreover have "ruid_procs k' u = ruid_procs k u" for u
    by (rule ruid_procs_other) (use exclusive_proc [OF exc] at fr in auto)
  then have "proccnt_ok k' D"
    using inv attr ui_attr_proccnt [of s _ "k_ui k"]
    by (auto simp: proccnt_ok_def fr kern_inv_def) (metis option.discI)
  moreover have "room n (HC + cred_holders k)"
    by (rule room_subset [of n "add_mset c HC + cred_holders k"]) (use inv in \<open>auto simp: kern_inv_def\<close>)
  ultimately show ?thesis
    using ui pr room by (simp add: kern_inv_def fr hold)
qed

lemma crfree_last:
  assumes inv: "kern_inv n k (add_mset c HC) HU HP D" and exc: "exclusive k HC c"
  shows "runs (crfree c k) (\<lambda>k'. kern_inv n k' HC HU HP D \<and> frames c k k')"
proof -
  obtain cr where at: "cred_at k c = Some cr" and "unat (cr_ref cr) = Suc (count (HC + cred_holders k) c)"
    using cred_count [OF inv] by blast
  then have "unat (cr_ref cr) = 1"
    using exc by (simp add: exclusive_def not_in_iff)
  then have ref: "cr_ref cr = 1" by (simp add: word_unat_eq_iff)
  let ?h = "k_ucreds k" and ?k1 = "cred_put c (cr\<lparr>cr_ref := 0\<rparr>) k"
  define U where "U = heap_mset cred_uids (hfree c ?h)"
  define P where "P = heap_mset cred_prisons (hfree c ?h)"
  have U: "uid_refs k = U + cred_uids cr" and P: "prison_refs k = P + cred_prisons cr"
    unfolding uid_refs_def prison_refs_def U_def P_def
    by (rule heap_mset_hfree [OF at [unfolded cred_at_def], symmetric])+
  have hf: "hfree c (hstore c v ?h) = hfree c ?h" for v by (simp add: hfree_def hstore_def)
  have ui: "ui_counted (k_ui ?k1) (HU + U + opt_mset (cr_ruidinfo cr) + opt_mset (cr_uidinfo cr))"
    using inv U by (simp add: kern_inv_def cred_uids_def ac_simps)
  have pr: "pr_counted (k_jail k) (HP + P + opt_mset (cr_prison cr))"
    using inv P by (simp add: kern_inv_def cred_prisons_def ac_simps)
  have room: "room n (HU + U)" "room n (HP + P)"
    using inv U P room_plus [of n "HU + U" "cred_uids cr"] room_plus [of n "HP + P" "cred_prisons cr"]
    by (simp_all add: kern_inv_def ac_simps)
  obtain s1 where s1: "with_null (\<lambda>u. with_ui (uifree u)) (cr_uidinfo cr) ?k1 = Some (?k1\<lparr>k_ui := s1\<rparr>)"
      "ui_counted s1 (HU + U + opt_mset (cr_ruidinfo cr))"
      "\<forall>b. ui_at s1 b \<noteq> None \<longrightarrow> ui_attr s1 b = ui_attr (k_ui k) b"
    using with_null_uifree [OF ui] by (auto simp: runs_def)
  obtain s2 where s2: "with_null (\<lambda>u. with_ui (uifree u)) (cr_ruidinfo cr) (?k1\<lparr>k_ui := s1\<rparr>) =
        Some (?k1\<lparr>k_ui := s2\<rparr>)"
      "ui_counted s2 (HU + U)" "\<forall>b. ui_at s2 b \<noteq> None \<longrightarrow> ui_attr s2 b = ui_attr s1 b"
    using with_null_uifree [of "?k1\<lparr>k_ui := s1\<rparr>" "HU + U" "cr_ruidinfo cr"] s1(2)
    by (auto simp: runs_def)
  obtain j where j: "with_null (\<lambda>p. with_jail (prison_free p)) (cr_prison cr) (?k1\<lparr>k_ui := s2\<rparr>) =
        Some (?k1\<lparr>k_ui := s2, k_jail := j\<rparr>)" "pr_counted j (HP + P)"
    using with_null_prison_free [of "?k1\<lparr>k_ui := s2\<rparr>" "HP + P" "cr_prison cr"] pr
    by (auto simp: runs_def)
  define k' where "k' = k\<lparr>k_ui := s2, k_jail := j, k_ucreds := hfree c ?h\<rparr>"
  have "crfree c k = Some k'"
    using s1(1) s2(1) j(1) by (simp add: crfree_def at ref refcount_release_def k'_def cred_put_def hf)
  moreover have "\<forall>b. ui_at s2 b \<noteq> None \<longrightarrow> ui_attr s2 b = ui_attr (k_ui k) b"
    using s1(3) s2(3) by (rule ui_attr_trans)
  moreover have "uid_refs k' = U" "prison_refs k' = P"
    by (simp_all add: uid_refs_def prison_refs_def U_def P_def k'_def)
  ultimately show ?thesis
    using kern_inv_drop [OF inv exc k'_def] s2(2) j(2) room uids_kept_attr [of s2 "k_ui k"]
    by (simp add: frames_def k'_def cred_at_def deref_hfree)
qed

text \<open>A reference to a credential changes hands; its contents stay.\<close>

lemma kern_inv_ref:
  assumes inv: "kern_inv n k HC HU HP D" and at: "cred_at k c = Some cr"
    and cnt: "unat r = count (HC' + cred_holders k) c" "0 < unat r"
    and other: "\<And>d. d \<noteq> c \<Longrightarrow> count HC' d = count HC d"
    and room: "m \<le> n" "room m (HC' + cred_holders k)"
  shows "kern_inv m (cred_put c (cr\<lparr>cr_ref := r\<rparr>) k) HC' HU HP D"
proof -
  let ?k = "cred_put c (cr\<lparr>cr_ref := r\<rparr>) k"
  have at': "cred_at ?k d = (if d = c then Some (cr\<lparr>cr_ref := r\<rparr>) else cred_at k d)" for d
    using at by (simp add: cred_at_put)
  have cc: "cred_counted k HC" using inv by (simp add: kern_inv_def)
  have "cred_counted ?k HC'"
    unfolding cred_counted_def backed_def
  proof (intro conjI allI impI)
    fix d
    show "count (HC' + cred_holders ?k) d = ref_value (cr_refs ?k d)"
      using cc cnt(1) other [of d] by (simp add: cred_counted_def backed_def cr_refs_def at')
  next
    fix d v assume "cred_at ?k d = Some v"
    then show "0 < unat (cr_ref v)"
      using cc cnt(2) by (auto simp: cred_counted_def at' split: if_splits)
  qed
  moreover have "uid_refs ?k = uid_refs k" "prison_refs ?k = prison_refs k"
    unfolding uid_refs_def prison_refs_def cred_put_def
    by (simp_all add: heap_mset_hstore_same [OF at [unfolded cred_at_def]] cred_uids_def cred_prisons_def)
  moreover have "creds_wf ?k"
    using inv at
    by (auto simp: kern_inv_def creds_wf_def at' cred_coherent_def cred_full_def split: if_splits)
  moreover have "ruid_procs ?k u = ruid_procs k u" for u
    unfolding ruid_procs_def using at by (auto simp: at' intro!: arg_cong [where f = length] filter_cong)
  ultimately show ?thesis
    using inv room room_mono [of n _ m] by (auto simp: kern_inv_def proccnt_ok_def)
qed

lemma crfree_more:
  assumes inv: "kern_inv n k (add_mset c HC) HU HP D" and "\<not> exclusive k HC c"
    and at: "cred_at k c = Some cr"
  shows "crfree c k = Some (cred_put c (cr\<lparr>cr_ref := cr_ref cr - 1\<rparr>) k) \<and>
    kern_inv n (cred_put c (cr\<lparr>cr_ref := cr_ref cr - 1\<rparr>) k) HC HU HP D"
proof -
  have ref: "unat (cr_ref cr) = Suc (count (HC + cred_holders k) c)" "unat (cr_ref cr) < 2 ^ 31"
    using cred_count [OF inv] at by auto
  have pos: "0 < count (HC + cred_holders k) c"
    using assms(2) by (simp only: exclusive_def not_not count_greater_zero_iff)
  obtain m where "count (HC + cred_holders k) c = Suc m" using pos gr0_implies_Suc by blast
  then have "cr_ref cr \<noteq> 0" "cr_ref cr \<noteq> 1" "cr_ref cr \<noteq> 0xdeadc0de"
    using ref by (auto simp del: count_union)
  moreover have "0 < cr_ref cr" using \<open>cr_ref cr \<noteq> 0\<close> by (simp add: word_neq_0_conv)
  moreover have dec: "unat (cr_ref cr - 1) = count (HC + cred_holders k) c"
    using ref(1) \<open>cr_ref cr \<noteq> 0\<close> by (simp add: unat_minus_one)
  moreover have "kern_inv n (cred_put c (cr\<lparr>cr_ref := cr_ref cr - 1\<rparr>) k) HC HU HP D"
    by (rule kern_inv_ref [OF inv at dec])
       (use dec pos inv room_plus [of n "HC + cred_holders k" "{#c#}"] in \<open>auto simp: kern_inv_def\<close>)
  ultimately show ?thesis
    using at by (simp add: crfree_def refcount_release_def)
qed

lemma crfree_runs:
  assumes inv: "kern_inv n k (add_mset c HC) HU HP D"
  shows "runs (crfree c k) (\<lambda>k'. kern_inv n k' HC HU HP D \<and> frames c k k' \<and>
    (\<not> exclusive k HC c \<longrightarrow>
       (\<exists>cr r. cred_at k c = Some cr \<and> cred_at k' c = Some (cr\<lparr>cr_ref := r\<rparr>))))"
proof (cases "exclusive k HC c")
  case True
  show ?thesis by (rule runs_weaken [OF crfree_last [OF inv True]]) (use True in auto)
next
  case False
  obtain cr where at: "cred_at k c = Some cr" using cred_count [OF inv] by blast
  show ?thesis
    using crfree_more [OF inv False at] at by (auto simp: frames_def cred_at_put)
qed

lemma crhold_runs:
  assumes inv: "kern_inv (Suc n) k HC HU HP D" and "c \<in># HC + cred_holders k"
  shows "runs (crhold c k) (\<lambda>k'. kern_inv n k' (add_mset c HC) HU HP D \<and> frames c k k' \<and>
    k_ui k' = k_ui k \<and> k_jail k' = k_jail k \<and>
    (\<exists>cr r. cred_at k c = Some cr \<and> cred_at k' c = Some (cr\<lparr>cr_ref := r\<rparr>)))"
proof -
  have "cr_refs k c = Some (count (HC + cred_holders k) c)"
    by (rule backed_refs) (use assms in \<open>auto simp: kern_inv_def cred_counted_def\<close>)
  then obtain cr where at: "cred_at k c = Some cr" "unat (cr_ref cr) = count (HC + cred_holders k) c"
    by (auto simp: cr_refs_def)
  have "count (HC + cred_holders k) c + Suc n < 2 ^ 31"
    using inv unfolding kern_inv_def room_def by blast
  then have inc: "unat (refcount_acquire (cr_ref cr)) = Suc (count (HC + cred_holders k) c)"
    using at(2) unat_refcount_acquire [of "cr_ref cr"] by simp
  have "kern_inv n (cred_put c (cr\<lparr>cr_ref := refcount_acquire (cr_ref cr)\<rparr>) k) (add_mset c HC) HU HP D"
    by (rule kern_inv_ref [OF inv at(1)])
       (use inc inv room_add [of n "HC + cred_holders k" c] in \<open>auto simp: kern_inv_def\<close>)
  then show ?thesis
    using at(1) by (auto simp: crhold_def frames_def cred_at_put)
qed

section \<open>Filling in an unshared credential\<close>

lemma with_ui_hold:
  assumes "ui_counted (k_ui k) M" and "u \<in># M" and "room 1 M"
  shows "\<exists>s. with_ui (uihold u) k = Some (k\<lparr>k_ui := s\<rparr>) \<and> ui_counted s (add_mset u M) \<and>
    ui_attr s = ui_attr (k_ui k)"
  using uihold_runs [OF assms] by (auto simp: runs_def with_ui_def)

lemma with_null_prison_hold:
  assumes "pr_counted (k_jail k) M" and "\<And>a. p = Some a \<Longrightarrow> a \<in># M" and "room 1 M"
  shows "\<exists>s. with_null (\<lambda>a. with_jail (prison_hold a)) p k = Some (k\<lparr>k_jail := s\<rparr>) \<and>
    pr_counted s (opt_mset p + M)"
proof (cases p)
  case None
  then show ?thesis using assms(1) by (auto simp: with_null_def intro: exI [of _ "k_jail k"])
next
  case (Some a)
  then show ?thesis
    using prison_hold_runs [OF assms(1) assms(2) [OF Some] assms(3)]
    by (auto simp: runs_def with_null_def with_jail_def)
qed

lemma uids_kept_attr_eq: "ui_attr s' = ui_attr s \<Longrightarrow> uids_kept s s'"
  by (rule uids_kept_attr) simp

lemma proccnt_attr_eq:
  assumes "proccnt_ok k D" and "ui_attr s = ui_attr (k_ui k)" and "ui_at s u = Some v"
  shows "ui_proccnt v = word_of_int (int (ruid_procs k u) + D u)"
  using ui_attr_proccnt [of s u "k_ui k" v] assms by (auto simp: proccnt_ok_def)

lemma crcopy_runs:
  assumes inv: "kern_inv (Suc (Suc n)) k (add_mset c HC) HU HP D" and exc: "exclusive k HC c"
    and dest: "cred_at k c = Some (ucred_zero\<lparr>cr_ref := 1\<rparr>)"
    and src: "cred_at k old = Some oc" "old \<noteq> c" and full: "cred_full oc"
  shows "runs (crcopy c old k) (\<lambda>k'. kern_inv n k' (add_mset c HC) HU HP D \<and> frames c k k' \<and>
    cred_at k' c = Some (oc\<lparr>cr_ref := 1\<rparr>))"
proof -
  obtain u r where ur: "cr_uidinfo oc = Some u" "cr_ruidinfo oc = Some r"
    using full by (auto simp: cred_full_def)
  let ?M = "HU + uid_refs k" and ?P = "HP + prison_refs k"
  let ?z = "ucred_zero\<lparr>cr_ref := 1\<rparr>"
  define d where "d = cred_copy_fields ?z oc"
  define k1 where "k1 = cred_put c d k"
  have M: "ui_counted (k_ui k1) ?M" "room 2 ?M" "pr_counted (k_jail k1) ?P" "room 2 ?P"
    using inv room_mono [of "Suc (Suc n)" _ 2] by (simp_all add: kern_inv_def k1_def)
  have mem: "u \<in># ?M" "r \<in># ?M"
    using uid_refs_mem [OF src(1)] ur by auto
  obtain s1 where s1: "with_ui (uihold u) k1 = Some (k1\<lparr>k_ui := s1\<rparr>)"
      "ui_counted s1 (add_mset u ?M)" "ui_attr s1 = ui_attr (k_ui k1)"
    using with_ui_hold [OF M(1) mem(1)] M(2) room_mono [of 2 ?M 1] by auto
  obtain s2 where s2: "with_ui (uihold r) (k1\<lparr>k_ui := s1\<rparr>) = Some (k1\<lparr>k_ui := s2\<rparr>)"
      "ui_counted s2 (add_mset r (add_mset u ?M))" "ui_attr s2 = ui_attr s1"
    using with_ui_hold [of "k1\<lparr>k_ui := s1\<rparr>" "add_mset u ?M" r] s1(2) mem(2)
      room_add [of 1 ?M u] M(2) by (auto simp: numeral_2_eq_2)
  have pmem: "cr_prison d = Some a \<Longrightarrow> a \<in># ?P" for a
    using heap_mset_mem [OF src(1) [unfolded cred_at_def], of a cred_prisons]
    by (auto simp: d_def cred_copy_fields_def prison_refs_def cred_prisons_def)
  obtain j where j: "with_null (\<lambda>a. with_jail (prison_hold a)) (cr_prison d) (k1\<lparr>k_ui := s2\<rparr>) =
        Some (k1\<lparr>k_ui := s2, k_jail := j\<rparr>)" "pr_counted j (opt_mset (cr_prison d) + ?P)"
    using with_null_prison_hold [of "k1\<lparr>k_ui := s2\<rparr>" ?P "cr_prison d"] M(3,4) pmem
      room_mono [of 2 ?P 1] by auto
  define cr where "cr = oc\<lparr>cr_ref := 1\<rparr>"
  have cr: "d\<lparr>cr_audit := cr_audit oc\<rparr> = cr"
    by (simp add: d_def cr_def cred_copy_fields_def)
  define k' where "k' = (cred_put c cr k)\<lparr>k_ui := s2, k_jail := j\<rparr>"
  have sh: "\<not> crshared ?z" by (simp add: crshared_def)
  have d: "cr_uidinfo d = Some u" "cr_ruidinfo d = Some r"
    using ur by (simp_all add: d_def cred_copy_fields_def)
  have "crcopy c old k = Some (cred_put c cr (k1\<lparr>k_ui := s2, k_jail := j\<rparr>))"
    unfolding crcopy_def
    by (simp only: dest src(1) bind.bind_lunit Option.bind.simps sh d s1(1) s2(1) j(1) Let_def cr
        assert_opt_def not_False_eq_True if_True simp_thms d_def [symmetric] k1_def [symmetric])
  also have "\<dots> = Some k'" by (simp add: k'_def k1_def cred_put_def hstore_def)
  finally have "crcopy c old k = Some k'" .
  moreover have z: "cred_uids ?z = {#}" "cred_prisons ?z = {#}"
    by (simp_all add: cred_uids_def cred_prisons_def ucred_zero_def)
  have refs: "uid_refs k' = uid_refs k + {#u, r#}"
      "prison_refs k' = prison_refs k + opt_mset (cr_prison oc)"
    using heap_mset_hstore [OF dest [unfolded cred_at_def], of cred_uids cr]
      heap_mset_hstore [OF dest [unfolded cred_at_def], of cred_prisons cr] ur z
    by (simp_all add: uid_refs_def prison_refs_def k'_def cred_put_def cr_def cred_uids_def cred_prisons_def)
  have attr: "ui_attr s2 = ui_attr (k_ui k)" using s1(3) s2(3) by (simp add: k1_def)
  moreover have "kern_inv n k' (add_mset c HC) HU HP D"
  proof (rule kern_inv_update [OF inv exc dest _ k'_def])
    show "ui_counted s2 (HU + uid_refs k')" using s2(2) refs(1) by (simp add: add_mset_commute)
    show "uids_kept (k_ui k) s2" by (rule uids_kept_attr_eq [OF attr])
    show "pr_counted j (HP + prison_refs k')"
      using j(2) refs(2) by (simp add: ac_simps d_def cred_copy_fields_def)
    have "cred_coherent (k_ui k) oc" using inv src(1) by (auto simp: kern_inv_def creds_wf_def)
    then show "cred_coherent s2 cr"
      using attr by (auto simp: cred_coherent_def cr_def ui_attr_uids [OF fun_cong [OF attr]])
    show "room n (HU + uid_refs k')"
      using inv refs(1) room_add [of n "add_mset u ?M" r] room_add [of "Suc n" ?M u]
      by (simp add: kern_inv_def add_mset_commute)
    show "room n (HP + prison_refs k')"
      using inv refs(2) room_add [of n ?P] room_mono [of "Suc (Suc n)" ?P n]
        room_mono [of "Suc (Suc n)" ?P "Suc n"]
      by (cases "cr_prison oc") (simp_all add: kern_inv_def)
    show "ui_proccnt v = word_of_int (int (ruid_procs k a) + D a)" if "ui_at s2 a = Some v" for a v
      by (rule proccnt_attr_eq [OF _ attr that]) (use inv in \<open>simp add: kern_inv_def\<close>)
  qed (simp_all add: cr_def)
  moreover have "frames c k k'"
    using dest uids_kept_attr_eq [OF attr] by (simp add: frames_def k'_def cred_at_put)
  moreover have "cred_at k' c = Some cr"
    using dest by (simp add: k'_def cred_at_put)
  ultimately show ?thesis by (simp add: cr_def)
qed

end
