(* ===== verification/CredBuild.thy ===== *)
theory CredBuild
  imports CredOps
begin

text \<open>
  Changing a credential that only the caller refers to, and installing it in a process:
  what \<^verbatim>\<open>change_euid\<close>, \<^verbatim>\<open>change_ruid\<close> and the assignment to \<^verbatim>\<open>p->p_ucred\<close> do to the
  invariant.
\<close>

section \<open>Exchanging the accounting record of a credential\<close>

lemma ui_swap:
  assumes "ui_counted s (add_mset old M)" and "new \<in># M" and "room 1 (add_mset old M)"
  shows "\<exists>s1 s2. uihold new s = Some s1 \<and> uifree old s1 = Some s2 \<and>
    ui_counted s2 (add_mset new M) \<and> (\<forall>b. ui_at s2 b \<noteq> None \<longrightarrow> ui_attr s2 b = ui_attr s b)"
proof -
  obtain s1 where s1: "uihold new s = Some s1" "ui_counted s1 (add_mset new (add_mset old M))"
      "ui_attr s1 = ui_attr s"
    using uihold_runs [OF assms(1) _ assms(3), of new] assms(2) by (auto simp: runs_def)
  have "ui_counted s1 (add_mset old (add_mset new M))"
    using s1(2) by (simp add: add_mset_commute)
  from uifree_runs [OF this] obtain s2 where "uifree old s1 = Some s2"
      "ui_counted s2 (add_mset new M)" "\<forall>b. ui_at s2 b \<noteq> None \<longrightarrow> ui_attr s2 b = ui_attr s1 b"
    by (auto simp: runs_def)
  then show ?thesis using s1 by auto
qed

lemma chgproccnt_runs:
  assumes "ui_counted s M" and "ui_at s a = Some u"
  shows "\<exists>s'. chgproccnt a diff 0 s = Some (True, s') \<and> ui_counted s' M \<and> ui_uids s' = ui_uids s \<and>
    (\<forall>b. map_option ui_proccnt (ui_at s' b) =
       map_option (\<lambda>v. ui_proccnt v + word_of_int (if b = a then diff else 0)) (ui_at s b))"
proof -
  define s' where "s' = ui_put a (u\<lparr>ui_proccnt := ui_proccnt u + word_of_int diff\<rparr>) s"
  have at: "ui_at s' b = (if b = a then Some (u\<lparr>ui_proccnt := ui_proccnt u + word_of_int diff\<rparr>)
      else ui_at s b)" for b
    using assms(2) by (simp add: s'_def ui_at_put)
  have "chgproccnt a diff 0 s = Some (True, s')"
    using assms(2) by (simp add: chgproccnt_def s'_def)
  moreover have "ui_counted s' M"
  proof -
    have "ui_refs s' = ui_refs s"
      using assms(2) by (auto simp: ui_refs_def at)
    moreover have "ui_inv s'"
      unfolding s'_def by (rule ui_inv_put [OF _ assms(2)]) (use assms(1) in \<open>simp_all add: ui_counted_def\<close>)
    ultimately show ?thesis using assms(1) by (simp add: ui_counted_def backed_def)
  qed
  moreover have "ui_uids s' = ui_uids s"
    using assms(2) by (auto simp: ui_uids_def at)
  moreover have "map_option ui_proccnt (ui_at s' b) =
       map_option (\<lambda>v. ui_proccnt v + word_of_int (if b = a then diff else 0)) (ui_at s b)" for b
    using assms(2) by (simp add: at)
  ultimately show ?thesis by blast
qed

lemma ui_attr_proccnt_map:
  assumes "\<forall>b. ui_at s' b \<noteq> None \<longrightarrow> ui_attr s' b = ui_attr s b" and "ui_at s' b = Some v"
  shows "\<exists>w. ui_at s b = Some w \<and> ui_proccnt w = ui_proccnt v \<and> ui_uid w = ui_uid v"
proof -
  have "ui_attr s' b = ui_attr s b" using assms by auto
  moreover from this have "ui_uids s' b = ui_uids s b" by (rule ui_attr_uids)
  ultimately show ?thesis
    using ui_attr_proccnt [of s' b s v] assms(2) by (auto simp: ui_uids_def)
qed

section \<open>The references of one credential\<close>

definition other_uids :: "addr \<Rightarrow> kern \<Rightarrow> addr multiset" where
  "other_uids c k = heap_mset cred_uids (hfree c (k_ucreds k))"

lemma uid_refs_split:
  assumes "cred_at k c = Some cr"
  shows "uid_refs k = other_uids c k + cred_uids cr"
    and "uid_refs (cred_put c cr' k) = other_uids c k + cred_uids cr'"
proof -
  have "deref (hstore c cr' (k_ucreds k)) c = Some cr'"
    using assms deref_SomeD [of "k_ucreds k" c cr] by (simp add: cred_at_def deref_hstore)
  from heap_mset_hfree [OF this, of cred_uids]
  show "uid_refs (cred_put c cr' k) = other_uids c k + cred_uids cr'"
    by (simp add: uid_refs_def other_uids_def cred_put_def hfree_def hstore_def)
  show "uid_refs k = other_uids c k + cred_uids cr"
    using heap_mset_hfree [OF assms [unfolded cred_at_def], of cred_uids]
    by (simp add: uid_refs_def other_uids_def)
qed

lemma prison_refs_put:
  assumes "cred_at k c = Some cr" and "cr_prison cr' = cr_prison cr"
  shows "prison_refs (cred_put c cr' k) = prison_refs k"
  using heap_mset_hstore_same [OF assms(1) [unfolded cred_at_def], of cred_prisons cr'] assms(2)
  by (simp add: prison_refs_def cred_put_def cred_prisons_def)

section \<open>The operations\<close>

text \<open>
  A change of fields that are no pointers: \<^verbatim>\<open>change_egid\<close>, \<^verbatim>\<open>change_rgid\<close>, \<^verbatim>\<open>change_svuid\<close>,
  \<^verbatim>\<open>change_svgid\<close> and the assignments of \<^verbatim>\<open>kern_setgroups\<close>.
\<close>

lemma kern_inv_put:
  assumes inv: "kern_inv n k (add_mset c HC) HU HP D" and exc: "exclusive k HC c"
    and at: "cred_at k c = Some cr"
    and eq: "cr_ref cr' = cr_ref cr" "cr_uid cr' = cr_uid cr" "cr_ruid cr' = cr_ruid cr"
      "cr_uidinfo cr' = cr_uidinfo cr" "cr_ruidinfo cr' = cr_ruidinfo cr"
      "cr_prison cr' = cr_prison cr"
    and gr: "length (cr_groups cr') = NGROUPS" "cr_ngroups cr' \<le> NGROUPS"
  shows "kern_inv n (cred_put c cr' k) (add_mset c HC) HU HP D"
proof (rule kern_inv_update [OF inv exc at eq(1), where ui = "k_ui k" and jl = "k_jail k"])
  have U: "uid_refs (cred_put c cr' k) = uid_refs k"
    using uid_refs_split(1) [OF at] uid_refs_split(2) [OF at, of cr'] eq by (simp add: cred_uids_def)
  have P: "prison_refs (cred_put c cr' k) = prison_refs k"
    by (rule prison_refs_put [OF at eq(6)])
  show "ui_counted (k_ui k) (HU + uid_refs (cred_put c cr' k))"
      "room n (HU + uid_refs (cred_put c cr' k))"
      "pr_counted (k_jail k) (HP + prison_refs (cred_put c cr' k))"
      "room n (HP + prison_refs (cred_put c cr' k))"
    using inv U P by (simp_all add: kern_inv_def)
  have "cred_coherent (k_ui k) cr" using inv at by (auto simp: kern_inv_def creds_wf_def)
  then show "cred_coherent (k_ui k) cr'" using eq gr by (simp add: cred_coherent_def)
  show "ui_proccnt v = word_of_int (int (ruid_procs k u) + D u)" if "ui_at (k_ui k) u = Some v" for u v
    using inv that by (auto simp: kern_inv_def proccnt_ok_def)
qed (simp_all add: cred_put_def)

lemma frames_put:
  "cred_at k c = Some cr \<Longrightarrow> frames c k (cred_put c v k)"
  by (simp add: frames_def cred_at_put)

lemma change_euid_runs:
  assumes inv: "kern_inv (Suc n) k (add_mset c HC) HU HP D" and exc: "exclusive k HC c"
    and at: "cred_at k c = Some cr" and old: "cr_uidinfo cr = Some old"
    and new: "new \<in># HU" "ui_uids (k_ui k) new = Some uid"
  shows "runs (change_euid c new k) (\<lambda>k'. kern_inv n k' (add_mset c HC) HU HP D \<and> frames c k k' \<and>
    cred_at k' c = Some (cr\<lparr>cr_uid := uid, cr_uidinfo := Some new\<rparr>))"
proof -
  define M where "M = HU + other_uids c k + opt_mset (cr_ruidinfo cr)"
  define cr' where "cr' = cr\<lparr>cr_uid := uid, cr_uidinfo := Some new\<rparr>"
  have M: "HU + uid_refs k = add_mset old M"
    using uid_refs_split [OF at] old by (simp add: M_def cred_uids_def ac_simps)
  have "ui_counted (k_ui k) (add_mset old M)" "room 1 (add_mset old M)" "new \<in># M"
    using inv new(1) room_mono [of "Suc n" "add_mset old M" 1]
    by (simp_all add: kern_inv_def M M_def)
  then obtain s1 s2 where s: "uihold new (k_ui k) = Some s1" "uifree old s1 = Some s2"
      "ui_counted s2 (add_mset new M)" "\<forall>b. ui_at s2 b \<noteq> None \<longrightarrow> ui_attr s2 b = ui_attr (k_ui k) b"
    using ui_swap by blast
  define k' where "k' = (cred_put c cr' k)\<lparr>k_ui := s2, k_jail := k_jail k\<rparr>"
  obtain u where u: "ui_at (k_ui k) new = Some u" "ui_uid u = uid"
    using new(2) by (auto simp: ui_uids_def)
  have run: "change_euid c new k = Some k'"
    using s(1,2) u old by (simp add: change_euid_def at with_ui_def k'_def cred_put_def hstore_def cr'_def)
  have refs: "HU + uid_refs k' = add_mset new M" "prison_refs k' = prison_refs k"
    using uid_refs_split(2) [OF at, of cr'] prison_refs_put [OF at, of cr']
    by (simp_all add: k'_def M_def cr'_def cred_uids_def ac_simps)
  have kept: "uids_kept (k_ui k) s2" by (rule uids_kept_attr [OF s(4)])
  have "ui_at s2 new \<noteq> None" by (rule ui_counted_live [OF s(3)]) simp
  then have uid: "ui_uids s2 new = Some uid" using kept new(2) by (auto simp: uids_kept_def)
  have "kern_inv n k' (add_mset c HC) HU HP D"
  proof (rule kern_inv_update [OF inv exc at _ k'_def])
    show "ui_counted s2 (HU + uid_refs k')" using s(3) refs(1) by simp
    show "cred_coherent s2 cr'"
    proof -
      have "cred_coherent (k_ui k) cr" using inv at by (auto simp: kern_inv_def creds_wf_def)
      moreover have "ui_at s2 r \<noteq> None" if "cr_ruidinfo cr = Some r" for r
        by (rule ui_counted_live [OF s(3)]) (simp add: M_def that)
      ultimately show ?thesis
        using kept uid by (auto simp: cred_coherent_def cr'_def uids_kept_def)
    qed
    show "room n (HU + uid_refs k')"
      unfolding refs(1) by (rule room_add) (use inv M room_plus [of "Suc n" M "{#old#}"] in \<open>simp add: kern_inv_def\<close>)
    show "ui_proccnt v = word_of_int (int (ruid_procs k a) + D a)" if "ui_at s2 a = Some v" for a v
      using ui_attr_proccnt_map [OF s(4) that] inv by (auto simp: kern_inv_def proccnt_ok_def)
  qed (use inv refs(2) kept room_mono [of "Suc n" _ n] in \<open>simp_all add: kern_inv_def cr'_def\<close>)
  moreover have "frames c k k'" using at kept by (simp add: frames_def k'_def cred_at_put)
  moreover have "cred_at k' c = Some cr'" using at by (simp add: k'_def cred_at_put)
  ultimately show ?thesis using run by (simp add: cr'_def)
qed


text \<open>One process moves from the accounting record \<open>r\<close> to the record \<open>r'\<close>.\<close>

definition moved :: "addr \<Rightarrow> addr \<Rightarrow> addr \<Rightarrow> int" where
  "moved r r' u = (if u = r' then 1 else 0) - (if u = r then 1 else 0)"

lemma moved_same [simp]: "moved r r = (\<lambda>_. 0)"
  by (auto simp: moved_def)

lemma recharge:
  assumes cnt: "ui_counted s (add_mset old M)" and room: "room 1 (add_mset old M)"
    and new: "new \<in># M"
  shows "\<exists>s1 s2 s3 s4. chgproccnt old (-1) 0 s = Some (True, s1) \<and> ui_uids s1 = ui_uids s \<and>
    uihold new s1 = Some s2 \<and> uifree old s2 = Some s3 \<and> chgproccnt new 1 0 s3 = Some (True, s4) \<and>
    ui_counted s4 (add_mset new M) \<and> uids_kept s s4 \<and>
    (\<forall>b v. ui_at s4 b = Some v \<longrightarrow> (\<exists>w. ui_at s b = Some w \<and>
       ui_proccnt v = ui_proccnt w + word_of_int (moved old new b)))"
proof -
  obtain u where "ui_at s old = Some u" using ui_counted_live [OF cnt, of old] by auto
  from chgproccnt_runs [OF cnt this, of "-1"] obtain s1
    where s1: "chgproccnt old (-1) 0 s = Some (True, s1)" "ui_counted s1 (add_mset old M)"
      "ui_uids s1 = ui_uids s" "\<And>b. map_option ui_proccnt (ui_at s1 b) =
        map_option (\<lambda>v. ui_proccnt v + word_of_int (if b = old then -1 else 0)) (ui_at s b)"
    by auto
  from ui_swap [OF s1(2) new room] obtain s2 s3
    where s3: "uihold new s1 = Some s2" "uifree old s2 = Some s3" "ui_counted s3 (add_mset new M)"
      "\<forall>b. ui_at s3 b \<noteq> None \<longrightarrow> ui_attr s3 b = ui_attr s1 b"
    by blast
  obtain u' where "ui_at s3 new = Some u'" using ui_counted_live [OF s3(3), of new] by auto
  from chgproccnt_runs [OF s3(3) this, of 1] obtain s4
    where s4: "chgproccnt new 1 0 s3 = Some (True, s4)" "ui_counted s4 (add_mset new M)"
      "ui_uids s4 = ui_uids s3" "\<And>b. map_option ui_proccnt (ui_at s4 b) =
        map_option (\<lambda>v. ui_proccnt v + word_of_int (if b = new then 1 else 0)) (ui_at s3 b)"
    by auto
  have live: "ui_at s4 b \<noteq> None \<longleftrightarrow> ui_at s3 b \<noteq> None" for b
    using arg_cong [OF s4(4) [of b], of "\<lambda>x. x = None"] by auto
  have "uids_kept s s4"
    using uids_kept_attr [OF s3(4)] s1(3) s4(3) live by (auto simp: uids_kept_def)
  moreover have "\<exists>w. ui_at s b = Some w \<and> ui_proccnt v = ui_proccnt w + word_of_int (moved old new b)"
    if v: "ui_at s4 b = Some v" for b v
  proof -
    obtain x where x: "ui_at s3 b = Some x" "ui_proccnt v = ui_proccnt x + word_of_int (if b = new then 1 else 0)"
      using s4(4) [of b] v by (cases "ui_at s3 b") auto
    obtain y where y: "ui_at s1 b = Some y" "ui_proccnt y = ui_proccnt x"
      using ui_attr_proccnt_map [OF s3(4) x(1)] by auto
    obtain w where "ui_at s b = Some w" "ui_proccnt y = ui_proccnt w + word_of_int (if b = old then -1 else 0)"
      using s1(4) [of b] y by (cases "ui_at s b") auto
    then show ?thesis using x y by (auto simp: moved_def)
  qed
  ultimately show ?thesis using s1(1,3) s3(1,2) s4(1,2) by blast
qed

lemma change_ruid_runs:
  assumes inv: "kern_inv (Suc n) k (add_mset c HC) HU HP D" and exc: "exclusive k HC c"
    and at: "cred_at k c = Some cr" and old: "cr_ruidinfo cr = Some old"
    and new: "new \<in># HU" "ui_uids (k_ui k) new = Some uid"
  shows "runs (change_ruid c new k) (\<lambda>k'.
    kern_inv n k' (add_mset c HC) HU HP (\<lambda>u. D u + moved old new u) \<and> frames c k k' \<and>
    cred_at k' c = Some (cr\<lparr>cr_ruid := uid, cr_ruidinfo := Some new\<rparr>))"
proof -
  define M where "M = HU + other_uids c k + opt_mset (cr_uidinfo cr)"
  define cr' where "cr' = cr\<lparr>cr_ruid := uid, cr_ruidinfo := Some new\<rparr>"
  have M: "HU + uid_refs k = add_mset old M"
    using uid_refs_split(1) [OF at] old by (simp add: M_def cred_uids_def ac_simps)
  have "ui_counted (k_ui k) (add_mset old M)" "room 1 (add_mset old M)" "new \<in># M"
    using inv new(1) room_mono [of "Suc n" "add_mset old M" 1]
    by (simp_all add: kern_inv_def M M_def)
  from recharge [OF this] obtain s1 s2 s3 s where s: "chgproccnt old (-1) 0 (k_ui k) = Some (True, s1)"
      "ui_uids s1 = ui_uids (k_ui k)" "uihold new s1 = Some s2" "uifree old s2 = Some s3"
      "chgproccnt new 1 0 s3 = Some (True, s)" "ui_counted s (add_mset new M)"
      "uids_kept (k_ui k) s"
      "\<And>b v. ui_at s b = Some v \<Longrightarrow> \<exists>w. ui_at (k_ui k) b = Some w \<and>
         ui_proccnt v = ui_proccnt w + word_of_int (moved old new b)"
    by blast
  define k' where "k' = (cred_put c cr' k)\<lparr>k_ui := s, k_jail := k_jail k\<rparr>"
  obtain u where u: "ui_at s1 new = Some u" "ui_uid u = uid"
    using new(2) fun_cong [OF s(2), of new] by (auto simp: ui_uids_def)
  have run: "change_ruid c new k = Some k'"
    using s u old
    by (simp add: change_ruid_def chgproccnt_k_def at with_ui_def k'_def cred_put_def hstore_def cr'_def)
  have refs: "HU + uid_refs k' = add_mset new M" "prison_refs k' = prison_refs k"
    using uid_refs_split(2) [OF at, of cr'] prison_refs_put [OF at, of cr']
    by (simp_all add: k'_def M_def cr'_def cred_uids_def ac_simps)
  have "ui_at s new \<noteq> None" by (rule ui_counted_live [OF s(6)]) simp
  then have uid: "ui_uids s new = Some uid" using s(7) new(2) by (auto simp: uids_kept_def)
  have "kern_inv n k' (add_mset c HC) HU HP (\<lambda>u. D u + moved old new u)"
  proof (rule kern_inv_update [OF inv exc at _ k'_def])
    show "ui_counted s (HU + uid_refs k')" using s(6) refs(1) by simp
    show "cred_coherent s cr'"
    proof -
      have "cred_coherent (k_ui k) cr" using inv at by (auto simp: kern_inv_def creds_wf_def)
      moreover have "ui_at s r \<noteq> None" if "cr_uidinfo cr = Some r" for r
        by (rule ui_counted_live [OF s(6)]) (simp add: M_def that)
      ultimately show ?thesis
        using s(7) uid by (auto simp: cred_coherent_def cr'_def uids_kept_def)
    qed
    show "room n (HU + uid_refs k')"
      unfolding refs(1) by (rule room_add) (use inv M room_plus [of "Suc n" M "{#old#}"] in \<open>simp add: kern_inv_def\<close>)
    show "ui_proccnt v = word_of_int (int (ruid_procs k a) + (D a + moved old new a))"
      if "ui_at s a = Some v" for a v
      using s(8) [OF that] inv by (auto simp: kern_inv_def proccnt_ok_def)
  qed (use inv refs(2) s(7) room_mono [of "Suc n" _ n] in \<open>simp_all add: kern_inv_def cr'_def\<close>)
  moreover have "frames c k k'" using at s(7) by (simp add: frames_def k'_def cred_at_put)
  moreover have "cred_at k' c = Some cr'" using at by (simp add: k'_def cred_at_put)
  ultimately show ?thesis using run by (simp add: cr'_def)
qed


section \<open>Processes\<close>

lemma proc_at_put [heap_simps]:
  "proc_at k i = Some p \<Longrightarrow> proc_at (proc_put i q k) j = (if j = i then Some q else proc_at k j)"
  by (auto simp: proc_at_def proc_put_def split: if_splits)

lemma proc_at_length: "proc_at k i = Some p \<longleftrightarrow> i < length (k_procs k) \<and> k_procs k ! i = p"
  by (auto simp: proc_at_def)

lemma proc_put_frame [simp]:
  "k_ui (proc_put i q k) = k_ui k" "k_jail (proc_put i q k) = k_jail k"
  "k_ucreds (proc_put i q k) = k_ucreds k" "k_threads (proc_put i q k) = k_threads k"
  "initproc (proc_put i q k) = initproc k" "cred_at (proc_put i q k) = cred_at k"
  "length (k_procs (proc_put i q k)) = length (k_procs k)"
  "uid_refs (proc_put i q k) = uid_refs k" "prison_refs (proc_put i q k) = prison_refs k"
  by (simp_all add: proc_put_def fun_eq_iff cred_at_def uid_refs_def prison_refs_def)

lemma holders_proc_put:
  assumes "proc_at k i = Some p"
  shows "cred_holders (proc_put i q k) + {#p_ucred p#} = cred_holders k + {#p_ucred q#}"
  using mset_map_update [of i "k_procs k" p_ucred q] assms
  by (simp add: proc_at_length cred_holders_def thread_creds_def proc_put_def)

lemma length_filter_update:
  assumes "i < length xs"
  shows "int (length (filter P (xs[i := y]))) =
    int (length (filter P xs)) + (if P y then 1 else 0) - (if P (xs ! i) then 1 else 0)"
  using assms
proof (induction xs arbitrary: i)
  case Nil
  then show ?case by simp
next
  case (Cons x xs)
  show ?case
  proof (cases i)
    case 0
    then show ?thesis by simp
  next
    case (Suc j)
    then show ?thesis using Cons.IH [of j] Cons.prems by (auto split: if_splits)
  qed
qed

lemma ruid_procs_put:
  assumes "proc_at k i = Some p"
    and "Option.bind (cred_at k (p_ucred p)) cr_ruidinfo = Some r"
    and "Option.bind (cred_at k (p_ucred q)) cr_ruidinfo = Some r'"
  shows "int (ruid_procs (proc_put i q k) u) = int (ruid_procs k u) + moved r r' u"
  using length_filter_update [of i "k_procs k" "\<lambda>p. Option.bind (cred_at k (p_ucred p)) cr_ruidinfo = Some u" q] assms
  by (auto simp: ruid_procs_def proc_at_length proc_put_def moved_def)

text \<open>
  Installing the caller's credential \<open>c\<close> in a process: the caller now holds the process's
  old reference instead, and the pending transfer of the process count is settled.
\<close>

lemma kern_inv_install:
  assumes inv: "kern_inv n k (add_mset c HC) HU HP (moved r r')"
    and p: "proc_at k i = Some p" and q: "p_ucred q = c"
    and old: "cred_at k (p_ucred p) = Some oc" "cr_ruidinfo oc = Some r"
    and new: "cred_at k c = Some cr" "cr_ruidinfo cr = Some r'" "cred_full cr"
  shows "kern_inv n (proc_put i q k) (add_mset (p_ucred p) HC) HU HP (\<lambda>_. 0)"
proof -
  let ?k = "proc_put i q k"
  have hold: "add_mset (p_ucred p) HC + cred_holders ?k = add_mset c HC + cred_holders k"
    using holders_proc_put [OF p, of q] q by (simp add: ac_simps)
  have refs: "cr_refs ?k = cr_refs k" by (simp add: fun_eq_iff cr_refs_def)
  have "cred_counted ?k (add_mset (p_ucred p) HC)"
    using inv unfolding kern_inv_def cred_counted_def backed_def hold refs by simp
  moreover have "d = c \<or> d \<in># cred_holders k" if "d \<in># cred_holders ?k" for d
  proof -
    have "d \<in># cred_holders k + {#c#}"
      using holders_proc_put [OF p, of q] that q by (metis union_iff)
    then show ?thesis by auto
  qed
  then have "creds_wf ?k"
    using inv new by (fastforce simp: kern_inv_def creds_wf_def)
  moreover have "int (ruid_procs ?k u) = int (ruid_procs k u) + moved r r' u" for u
    by (rule ruid_procs_put [OF p]) (use old new q in simp_all)
  then have "proccnt_ok ?k (\<lambda>_. 0)"
    using inv by (simp add: kern_inv_def proccnt_ok_def)
  moreover have "room n (add_mset (p_ucred p) HC + cred_holders ?k)"
    unfolding hold using inv unfolding kern_inv_def by blast
  ultimately show ?thesis
    using inv by (simp add: kern_inv_def)
qed

text \<open>Flags of a process are no part of the invariant.\<close>

lemma kern_inv_flags:
  assumes inv: "kern_inv n k HC HU HP D" and p: "proc_at k i = Some p" and "p_ucred q = p_ucred p"
  shows "kern_inv n (proc_put i q k) HC HU HP D"
proof -
  let ?k = "proc_put i q k"
  have hold: "cred_holders ?k = cred_holders k"
    using holders_proc_put [OF p, of q] assms(3) by simp
  have "cr_refs ?k = cr_refs k" by (simp add: fun_eq_iff cr_refs_def)
  moreover have "ruid_procs ?k u = ruid_procs k u" for u
  proof -
    have "map p_ucred (k_procs ?k) = map p_ucred (k_procs k)"
      using p assms(3) by (simp add: proc_put_def proc_at_length map_update list_update_same_conv)
    moreover have "ruid_procs k' u =
        length (filter (\<lambda>c. Option.bind (cred_at k' c) cr_ruidinfo = Some u) (map p_ucred (k_procs k')))" for k'
      by (simp add: ruid_procs_def filter_map comp_def)
    ultimately show ?thesis by (simp only: proc_put_frame)
  qed
  ultimately show ?thesis
    using inv by (simp add: kern_inv_def cred_counted_def backed_def creds_wf_def proccnt_ok_def hold)
qed

end
