(* ===== verification/SetIds.thy ===== *)
theory SetIds
  imports Ucred
begin

text \<open>
  The system calls that change the credentials of the calling process,
  \<^verbatim>\<open>src/sys/kern/kern_prot.c\<close>. A call takes the calling thread and the kernel state and
  returns the error number and the new state. The order of the calls, and what is freed on
  which path, is the code's. \<^verbatim>\<open>_POSIX_SAVED_IDS\<close> is not defined in the kernel and
  \<^verbatim>\<open>POSIX_APPENDIX_B_4_2_2\<close> is.
\<close>

text \<open>An \<^verbatim>\<open>if\<close> without \<^verbatim>\<open>else\<close>, and the assignment to \<^verbatim>\<open>p->p_ucred\<close>.\<close>

definition whenk :: "bool \<Rightarrow> (kern \<Rightarrow> kern option) \<Rightarrow> kern \<Rightarrow> kern option" where
  "whenk b f k = (if b then f k else Some k)"

definition set_ucred :: "nat \<Rightarrow> addr \<Rightarrow> kern \<Rightarrow> kern option" where
  "set_ucred i c k = do { p \<leftarrow> proc_at k i; Some (proc_put i (p\<lparr>p_ucred := c\<rparr>) k) }"

text \<open>\<^verbatim>\<open>(uid_t)-1\<close> and \<^verbatim>\<open>(gid_t)-1\<close>: leave this id alone.\<close>

abbreviation (input) ID_NONE :: "32 word" where "ID_NONE \<equiv> - 1"

definition setuid :: "sysconf \<Rightarrow> nat \<Rightarrow> uid \<Rightarrow> kern \<Rightarrow> (errno \<times> kern) option" where
  "setuid cf t uid k =
     do { td \<leftarrow> thread_at k t;
          let p = td_proc td;
          let (newcred, k) = crget k;
          (uip, k) \<leftarrow> uifind_k uid k;
          pr \<leftarrow> proc_at k p;
          let oldcred = p_ucred pr;
          old \<leftarrow> cred_at k oldcred;
          let error = priv_check_cred cf old PRIV_CRED_SETUID;
          if uid \<noteq> cr_ruid old \<and> uid \<noteq> cr_uid old \<and> error \<noteq> 0 then do {
            k \<leftarrow> with_ui (uifree uip) k;
            k \<leftarrow> crfree newcred k;
            Some (error, k) }
          else do {
            k \<leftarrow> crcopy newcred oldcred k;
            k \<leftarrow> whenk (uid \<noteq> cr_ruid old) (\<lambda>k. change_ruid newcred uip k \<bind> setsugid p) k;
            k \<leftarrow> whenk (uid \<noteq> cr_svuid old) (\<lambda>k. change_svuid newcred uid k \<bind> setsugid p) k;
            k \<leftarrow> whenk (uid \<noteq> cr_uid old) (\<lambda>k. change_euid newcred uip k \<bind> setsugid p) k;
            k \<leftarrow> set_ucred p newcred k;
            k \<leftarrow> with_ui (uifree uip) k;
            k \<leftarrow> crfree oldcred k;
            Some (0, k) } }"

definition seteuid :: "sysconf \<Rightarrow> nat \<Rightarrow> uid \<Rightarrow> kern \<Rightarrow> (errno \<times> kern) option" where
  "seteuid cf t euid k =
     do { td \<leftarrow> thread_at k t;
          let p = td_proc td;
          let (newcred, k) = crget k;
          (euip, k) \<leftarrow> uifind_k euid k;
          pr \<leftarrow> proc_at k p;
          let oldcred = p_ucred pr;
          old \<leftarrow> cred_at k oldcred;
          let error = priv_check_cred cf old PRIV_CRED_SETEUID;
          if euid \<noteq> cr_ruid old \<and> euid \<noteq> cr_svuid old \<and> error \<noteq> 0 then do {
            k \<leftarrow> with_ui (uifree euip) k;
            k \<leftarrow> crfree newcred k;
            Some (error, k) }
          else do {
            k \<leftarrow> crcopy newcred oldcred k;
            k \<leftarrow> whenk (cr_uid old \<noteq> euid) (\<lambda>k. change_euid newcred euip k \<bind> setsugid p) k;
            k \<leftarrow> set_ucred p newcred k;
            k \<leftarrow> with_ui (uifree euip) k;
            k \<leftarrow> crfree oldcred k;
            Some (0, k) } }"

definition setgid :: "sysconf \<Rightarrow> nat \<Rightarrow> gid \<Rightarrow> kern \<Rightarrow> (errno \<times> kern) option" where
  "setgid cf t gid k =
     do { td \<leftarrow> thread_at k t;
          let p = td_proc td;
          let (newcred, k) = crget k;
          pr \<leftarrow> proc_at k p;
          let oldcred = p_ucred pr;
          old \<leftarrow> cred_at k oldcred;
          let error = priv_check_cred cf old PRIV_CRED_SETGID;
          if gid \<noteq> cr_rgid old \<and> gid \<noteq> cr_groups old ! 0 \<and> error \<noteq> 0 then do {
            k \<leftarrow> crfree newcred k;
            Some (error, k) }
          else do {
            k \<leftarrow> crcopy newcred oldcred k;
            k \<leftarrow> whenk (cr_rgid old \<noteq> gid) (\<lambda>k. change_rgid newcred gid k \<bind> setsugid p) k;
            k \<leftarrow> whenk (cr_svgid old \<noteq> gid) (\<lambda>k. change_svgid newcred gid k \<bind> setsugid p) k;
            k \<leftarrow> whenk (cr_groups old ! 0 \<noteq> gid) (\<lambda>k. change_egid newcred gid k \<bind> setsugid p) k;
            k \<leftarrow> set_ucred p newcred k;
            k \<leftarrow> crfree oldcred k;
            Some (0, k) } }"

definition setegid :: "sysconf \<Rightarrow> nat \<Rightarrow> gid \<Rightarrow> kern \<Rightarrow> (errno \<times> kern) option" where
  "setegid cf t egid k =
     do { td \<leftarrow> thread_at k t;
          let p = td_proc td;
          let (newcred, k) = crget k;
          pr \<leftarrow> proc_at k p;
          let oldcred = p_ucred pr;
          old \<leftarrow> cred_at k oldcred;
          let error = priv_check_cred cf old PRIV_CRED_SETEGID;
          if egid \<noteq> cr_rgid old \<and> egid \<noteq> cr_svgid old \<and> error \<noteq> 0 then do {
            k \<leftarrow> crfree newcred k;
            Some (error, k) }
          else do {
            k \<leftarrow> crcopy newcred oldcred k;
            k \<leftarrow> whenk (cr_groups old ! 0 \<noteq> egid) (\<lambda>k. change_egid newcred egid k \<bind> setsugid p) k;
            k \<leftarrow> set_ucred p newcred k;
            k \<leftarrow> crfree oldcred k;
            Some (0, k) } }"

text \<open>The assignments to the group fields: \<^verbatim>\<open>bcopy\<close> overwrites the first \<^verbatim>\<open>ngrp\<close> entries.\<close>

definition put_groups :: "addr \<Rightarrow> nat \<Rightarrow> gid list \<Rightarrow> kern \<Rightarrow> kern option" where
  "put_groups c ngrp groups k =
     do { cr \<leftarrow> cred_at k c;
          Some (cred_put c
            (if ngrp < 1 then cr\<lparr>cr_ngroups := 1\<rparr>
             else cr\<lparr>cr_groups := take ngrp groups @ drop ngrp (cr_groups cr),
                     cr_ngroups := ngrp\<rparr>) k) }"

definition kern_setgroups ::
  "sysconf \<Rightarrow> nat \<Rightarrow> nat \<Rightarrow> gid list \<Rightarrow> kern \<Rightarrow> (errno \<times> kern) option" where
  "kern_setgroups cf t ngrp groups k =
     do { td \<leftarrow> thread_at k t;
          let p = td_proc td;
          if NGROUPS < ngrp then Some (EINVAL, k)
          else do {
            let (newcred, k) = crget k;
            pr \<leftarrow> proc_at k p;
            let oldcred = p_ucred pr;
            old \<leftarrow> cred_at k oldcred;
            let error = priv_check_cred cf old PRIV_CRED_SETGROUPS;
            if error \<noteq> 0 then do {
              k \<leftarrow> crfree newcred k;
              Some (error, k) }
            else do {
              k \<leftarrow> crcopy newcred oldcred k;
              k \<leftarrow> put_groups newcred ngrp groups k;
              k \<leftarrow> setsugid p k;
              k \<leftarrow> set_ucred p newcred k;
              k \<leftarrow> crfree oldcred k;
              Some (0, k) } } }"

text \<open>\<open>copyin n\<close> is the outcome of copying \<open>n\<close> group ids in from user memory.\<close>

definition setgroups ::
  "sysconf \<Rightarrow> (nat \<Rightarrow> errno + gid list) \<Rightarrow> nat \<Rightarrow> nat \<Rightarrow> kern \<Rightarrow> (errno \<times> kern) option" where
  "setgroups cf copyin t gidsetsize k =
     (if NGROUPS < gidsetsize then Some (EINVAL, k)
      else case copyin gidsetsize of
        Inl error \<Rightarrow> Some (error, k)
      | Inr groups \<Rightarrow> kern_setgroups cf t gidsetsize groups k)"

definition setreuid :: "sysconf \<Rightarrow> nat \<Rightarrow> uid \<Rightarrow> uid \<Rightarrow> kern \<Rightarrow> (errno \<times> kern) option" where
  "setreuid cf t ruid euid k =
     do { td \<leftarrow> thread_at k t;
          let p = td_proc td;
          let (newcred, k) = crget k;
          (euip, k) \<leftarrow> uifind_k euid k;
          (ruip, k) \<leftarrow> uifind_k ruid k;
          pr \<leftarrow> proc_at k p;
          let oldcred = p_ucred pr;
          old \<leftarrow> cred_at k oldcred;
          let error = priv_check_cred cf old PRIV_CRED_SETREUID;
          if ((ruid \<noteq> ID_NONE \<and> ruid \<noteq> cr_ruid old \<and> ruid \<noteq> cr_svuid old) \<or>
              (euid \<noteq> ID_NONE \<and> euid \<noteq> cr_uid old \<and> euid \<noteq> cr_ruid old \<and> euid \<noteq> cr_svuid old)) \<and>
             error \<noteq> 0 then do {
            k \<leftarrow> with_ui (uifree ruip) k;
            k \<leftarrow> with_ui (uifree euip) k;
            k \<leftarrow> crfree newcred k;
            Some (error, k) }
          else do {
            k \<leftarrow> crcopy newcred oldcred k;
            k \<leftarrow> whenk (euid \<noteq> ID_NONE \<and> cr_uid old \<noteq> euid)
                      (\<lambda>k. change_euid newcred euip k \<bind> setsugid p) k;
            k \<leftarrow> whenk (ruid \<noteq> ID_NONE \<and> cr_ruid old \<noteq> ruid)
                      (\<lambda>k. change_ruid newcred ruip k \<bind> setsugid p) k;
            new \<leftarrow> cred_at k newcred;
            k \<leftarrow> whenk ((ruid \<noteq> ID_NONE \<or> cr_uid new \<noteq> cr_ruid new) \<and> cr_svuid new \<noteq> cr_uid new)
                      (\<lambda>k. change_svuid newcred (cr_uid new) k \<bind> setsugid p) k;
            k \<leftarrow> set_ucred p newcred k;
            k \<leftarrow> with_ui (uifree ruip) k;
            k \<leftarrow> with_ui (uifree euip) k;
            k \<leftarrow> crfree oldcred k;
            Some (0, k) } }"

definition setregid :: "sysconf \<Rightarrow> nat \<Rightarrow> gid \<Rightarrow> gid \<Rightarrow> kern \<Rightarrow> (errno \<times> kern) option" where
  "setregid cf t rgid egid k =
     do { td \<leftarrow> thread_at k t;
          let p = td_proc td;
          let (newcred, k) = crget k;
          pr \<leftarrow> proc_at k p;
          let oldcred = p_ucred pr;
          old \<leftarrow> cred_at k oldcred;
          let error = priv_check_cred cf old PRIV_CRED_SETREGID;
          if ((rgid \<noteq> ID_NONE \<and> rgid \<noteq> cr_rgid old \<and> rgid \<noteq> cr_svgid old) \<or>
              (egid \<noteq> ID_NONE \<and> egid \<noteq> cr_groups old ! 0 \<and> egid \<noteq> cr_rgid old \<and>
               egid \<noteq> cr_svgid old)) \<and> error \<noteq> 0 then do {
            k \<leftarrow> crfree newcred k;
            Some (error, k) }
          else do {
            k \<leftarrow> crcopy newcred oldcred k;
            k \<leftarrow> whenk (egid \<noteq> ID_NONE \<and> cr_groups old ! 0 \<noteq> egid)
                      (\<lambda>k. change_egid newcred egid k \<bind> setsugid p) k;
            k \<leftarrow> whenk (rgid \<noteq> ID_NONE \<and> cr_rgid old \<noteq> rgid)
                      (\<lambda>k. change_rgid newcred rgid k \<bind> setsugid p) k;
            new \<leftarrow> cred_at k newcred;
            k \<leftarrow> whenk ((rgid \<noteq> ID_NONE \<or> cr_groups new ! 0 \<noteq> cr_rgid new) \<and>
                       cr_svgid new \<noteq> cr_groups new ! 0)
                      (\<lambda>k. change_svgid newcred (cr_groups new ! 0) k \<bind> setsugid p) k;
            k \<leftarrow> set_ucred p newcred k;
            k \<leftarrow> crfree oldcred k;
            Some (0, k) } }"

definition setresuid ::
  "sysconf \<Rightarrow> nat \<Rightarrow> uid \<Rightarrow> uid \<Rightarrow> uid \<Rightarrow> kern \<Rightarrow> (errno \<times> kern) option" where
  "setresuid cf t ruid euid suid k =
     do { td \<leftarrow> thread_at k t;
          let p = td_proc td;
          let (newcred, k) = crget k;
          (euip, k) \<leftarrow> uifind_k euid k;
          (ruip, k) \<leftarrow> uifind_k ruid k;
          pr \<leftarrow> proc_at k p;
          let oldcred = p_ucred pr;
          old \<leftarrow> cred_at k oldcred;
          let error = priv_check_cred cf old PRIV_CRED_SETRESUID;
          if ((ruid \<noteq> ID_NONE \<and> ruid \<noteq> cr_ruid old \<and> ruid \<noteq> cr_svuid old \<and> ruid \<noteq> cr_uid old) \<or>
              (euid \<noteq> ID_NONE \<and> euid \<noteq> cr_ruid old \<and> euid \<noteq> cr_svuid old \<and> euid \<noteq> cr_uid old) \<or>
              (suid \<noteq> ID_NONE \<and> suid \<noteq> cr_ruid old \<and> suid \<noteq> cr_svuid old \<and> suid \<noteq> cr_uid old)) \<and>
             error \<noteq> 0 then do {
            k \<leftarrow> with_ui (uifree ruip) k;
            k \<leftarrow> with_ui (uifree euip) k;
            k \<leftarrow> crfree newcred k;
            Some (error, k) }
          else do {
            k \<leftarrow> crcopy newcred oldcred k;
            k \<leftarrow> whenk (euid \<noteq> ID_NONE \<and> cr_uid old \<noteq> euid)
                      (\<lambda>k. change_euid newcred euip k \<bind> setsugid p) k;
            k \<leftarrow> whenk (ruid \<noteq> ID_NONE \<and> cr_ruid old \<noteq> ruid)
                      (\<lambda>k. change_ruid newcred ruip k \<bind> setsugid p) k;
            k \<leftarrow> whenk (suid \<noteq> ID_NONE \<and> cr_svuid old \<noteq> suid)
                      (\<lambda>k. change_svuid newcred suid k \<bind> setsugid p) k;
            k \<leftarrow> set_ucred p newcred k;
            k \<leftarrow> with_ui (uifree ruip) k;
            k \<leftarrow> with_ui (uifree euip) k;
            k \<leftarrow> crfree oldcred k;
            Some (0, k) } }"

definition setresgid ::
  "sysconf \<Rightarrow> nat \<Rightarrow> gid \<Rightarrow> gid \<Rightarrow> gid \<Rightarrow> kern \<Rightarrow> (errno \<times> kern) option" where
  "setresgid cf t rgid egid sgid k =
     do { td \<leftarrow> thread_at k t;
          let p = td_proc td;
          let (newcred, k) = crget k;
          pr \<leftarrow> proc_at k p;
          let oldcred = p_ucred pr;
          old \<leftarrow> cred_at k oldcred;
          let error = priv_check_cred cf old PRIV_CRED_SETRESGID;
          if ((rgid \<noteq> ID_NONE \<and> rgid \<noteq> cr_rgid old \<and> rgid \<noteq> cr_svgid old \<and> rgid \<noteq> cr_groups old ! 0) \<or>
              (egid \<noteq> ID_NONE \<and> egid \<noteq> cr_rgid old \<and> egid \<noteq> cr_svgid old \<and> egid \<noteq> cr_groups old ! 0) \<or>
              (sgid \<noteq> ID_NONE \<and> sgid \<noteq> cr_rgid old \<and> sgid \<noteq> cr_svgid old \<and> sgid \<noteq> cr_groups old ! 0)) \<and>
             error \<noteq> 0 then do {
            k \<leftarrow> crfree newcred k;
            Some (error, k) }
          else do {
            k \<leftarrow> crcopy newcred oldcred k;
            k \<leftarrow> whenk (egid \<noteq> ID_NONE \<and> cr_groups old ! 0 \<noteq> egid)
                      (\<lambda>k. change_egid newcred egid k \<bind> setsugid p) k;
            k \<leftarrow> whenk (rgid \<noteq> ID_NONE \<and> cr_rgid old \<noteq> rgid)
                      (\<lambda>k. change_rgid newcred rgid k \<bind> setsugid p) k;
            k \<leftarrow> whenk (sgid \<noteq> ID_NONE \<and> cr_svgid old \<noteq> sgid)
                      (\<lambda>k. change_svgid newcred sgid k \<bind> setsugid p) k;
            k \<leftarrow> set_ucred p newcred k;
            k \<leftarrow> crfree oldcred k;
            Some (0, k) } }"

end
