(* ===== verification/SetIdsProof.thy ===== *)
theory SetIdsProof
  imports CredBuild SetIds
begin

text \<open>
  The calls of \<open>SetIds\<close> against a specification that knows nothing of reference counts,
  accounting records or sharing: what a call does to the ids of the calling process.

  Each call is four phases, and each phase has a state predicate with one rule per
  operation: the new credential is allocated (\<open>ready\<close>), filled in (\<open>building\<close>), installed
  (\<open>installed\<close>), and what is no longer needed is released (\<open>set_result\<close>).
\<close>

section \<open>Views of a state\<close>

text \<open>A credential without its reference count and accounting pointers.\<close>

definition cred_ids :: "ucred \<Rightarrow> ucred" where
  "cred_ids cr = cr\<lparr>cr_ref := 0, cr_uidinfo := None, cr_ruidinfo := None\<rparr>"

definition ids_at :: "kern \<Rightarrow> addr \<Rightarrow> ucred option" where
  "ids_at k c = map_option cred_ids (cred_at k c)"

definition proc_ids :: "kern \<Rightarrow> nat \<Rightarrow> ucred option" where
  "proc_ids k i = Option.bind (proc_at k i) (\<lambda>p. ids_at k (p_ucred p))"

definition thread_ids :: "kern \<Rightarrow> nat \<Rightarrow> ucred option" where
  "thread_ids k t = Option.bind (thread_at k t) (\<lambda>td. Option.bind (td_ucred td) (ids_at k))"

lemma cred_ids_simps [simp]:
  "cr_uid (cred_ids cr) = cr_uid cr" "cr_ruid (cred_ids cr) = cr_ruid cr"
  "cr_svuid (cred_ids cr) = cr_svuid cr" "cr_ngroups (cred_ids cr) = cr_ngroups cr"
  "cr_groups (cred_ids cr) = cr_groups cr" "cr_rgid (cred_ids cr) = cr_rgid cr"
  "cr_svgid (cred_ids cr) = cr_svgid cr" "cr_prison (cred_ids cr) = cr_prison cr"
  "cred_ids (cr\<lparr>cr_ref := r\<rparr>) = cred_ids cr" "jailed (cred_ids cr) = jailed cr"
  "priv_check_cred cf (cred_ids cr) p = priv_check_cred cf cr p"
  by (auto simp: cred_ids_def jailed_def intro: priv_check_cred_cong)

lemma cred_ids_upd [simp]:
  "cred_ids (cr\<lparr>cr_uid := u, cr_uidinfo := x\<rparr>) = (cred_ids cr)\<lparr>cr_uid := u\<rparr>"
  "cred_ids (cr\<lparr>cr_ruid := u, cr_ruidinfo := x\<rparr>) = (cred_ids cr)\<lparr>cr_ruid := u\<rparr>"
  "cred_ids (cr\<lparr>cr_svuid := u\<rparr>) = (cred_ids cr)\<lparr>cr_svuid := u\<rparr>"
  "cred_ids (cr\<lparr>cr_rgid := g\<rparr>) = (cred_ids cr)\<lparr>cr_rgid := g\<rparr>"
  "cred_ids (cr\<lparr>cr_svgid := g\<rparr>) = (cred_ids cr)\<lparr>cr_svgid := g\<rparr>"
  "cred_ids (cr\<lparr>cr_ngroups := n\<rparr>) = (cred_ids cr)\<lparr>cr_ngroups := n\<rparr>"
  "cred_ids (cr\<lparr>cr_groups := gs\<rparr>) = (cred_ids cr)\<lparr>cr_groups := gs\<rparr>"
  by (cases cr; simp add: cred_ids_def)+

text \<open>
  \<open>tainted b p q\<close>: process record \<open>q\<close> is \<open>p\<close> with another credential, and \<^verbatim>\<open>P_SUGID\<close> set
  where \<open>b\<close> holds. (\<^verbatim>\<open>setsugid\<close> may also clear the procfs stop events.)
\<close>

definition tainted :: "bool \<Rightarrow> proc \<Rightarrow> proc \<Rightarrow> bool" where
  "tainted b p q \<longleftrightarrow> q = p\<lparr>p_ucred := p_ucred q, p_stops := p_stops q,
      p_flag := (if b then p_flag p OR P_SUGID else p_flag p)\<rparr>"

text \<open>The outcome of a call by process \<open>i\<close>, for the answer \<open>res\<close> of a specification.\<close>

definition set_result ::
  "nat \<Rightarrow> errno + ucred \<times> bool \<Rightarrow> addr multiset \<Rightarrow> kern \<Rightarrow> errno \<Rightarrow> kern \<Rightarrow> bool" where
  "set_result i res HC k e k' \<longleftrightarrow>
     k_threads k' = k_threads k \<and> initproc k' = initproc k \<and>
     length (k_procs k') = length (k_procs k) \<and>
     (\<forall>j. j \<noteq> i \<longrightarrow> proc_at k' j = proc_at k j \<and> proc_ids k' j = proc_ids k j) \<and>
     (\<forall>t. thread_ids k' t = thread_ids k t) \<and> (\<forall>c. c \<in># HC \<longrightarrow> ids_at k' c = ids_at k c) \<and>
     (case res of
        Inl err \<Rightarrow> e = err \<and> proc_at k' i = proc_at k i \<and> proc_ids k' i = proc_ids k i
      | Inr (new, taint) \<Rightarrow> e = 0 \<and> proc_ids k' i = Some new \<and>
          (\<exists>p q. proc_at k i = Some p \<and> proc_at k' i = Some q \<and> tainted taint p q))"

section \<open>A fresh credential\<close>

text \<open>
  \<open>W\<close> lists the accounting records the call has looked up, each with its user: the call
  holds one reference to each.
\<close>

definition wits :: "(addr \<times> uid) list \<Rightarrow> kern \<Rightarrow> bool" where
  "wits W k \<longleftrightarrow> (\<forall>w \<in> set W. ui_uids (k_ui k) (fst w) = Some (snd w))"

definition wrefs :: "(addr \<times> uid) list \<Rightarrow> addr multiset" where
  "wrefs W = mset (map fst W)"

lemma wrefs_simps [simp]: "wrefs [] = {#}" "wrefs (w # W) = add_mset (fst w) (wrefs W)"
  by (simp_all add: wrefs_def)

lemma wits_Cons: "wits (w # W) k \<longleftrightarrow> ui_uids (k_ui k) (fst w) = Some (snd w) \<and> wits W k"
  by (auto simp: wits_def)

lemma wits_kept:
  assumes "wits W k" and "uids_kept (k_ui k) (k_ui k')" and "kern_inv n k' HC (wrefs W + HU) HP D"
  shows "wits W k'"
  unfolding wits_def
proof
  fix w assume w: "w \<in> set W"
  then have "fst w \<in># wrefs W + HU + uid_refs k'" by (simp add: wrefs_def)
  then have "ui_at (k_ui k') (fst w) \<noteq> None"
    using ui_counted_live assms(3) unfolding kern_inv_def by blast
  then show "ui_uids (k_ui k') (fst w) = Some (snd w)"
    using assms(1,2) w by (auto simp: wits_def uids_kept_def)
qed

definition ready ::
  "nat \<Rightarrow> kern \<Rightarrow> addr \<Rightarrow> (addr \<times> uid) list \<Rightarrow> addr multiset \<Rightarrow> addr multiset \<Rightarrow> addr multiset \<Rightarrow> kern \<Rightarrow> bool" where
  "ready n k0 c W HC HU HP k \<longleftrightarrow>
     kern_inv n k (add_mset c HC) (wrefs W + HU) HP (\<lambda>_. 0) \<and> exclusive k HC c \<and> wits W k \<and>
     cred_at k c = Some (ucred_zero\<lparr>cr_ref := 1\<rparr>) \<and> cred_at k0 c = None \<and>
     k_procs k = k_procs k0 \<and> k_threads k = k_threads k0 \<and> initproc k = initproc k0 \<and>
     (\<forall>d. d \<noteq> c \<longrightarrow> cred_at k d = cred_at k0 d)"

lemma ready_crget:
  assumes "kern_inv (Suc n) k0 HC HU HP (\<lambda>_. 0)" and "crget k0 = (c, k)"
  shows "ready n k0 c [] HC HU HP k"
  using crget_inv [OF assms] by (simp add: ready_def frames_def wits_def)

lemma ready_uifind:
  assumes "ready (Suc n) k0 c W HC HU HP k"
  shows "runs (uifind_k uid k) (\<lambda>(u, k'). ready n k0 c ((u, uid) # W) HC HU HP k')"
proof -
  have inv: "kern_inv (Suc n) k (add_mset c HC) (wrefs W + HU) HP (\<lambda>_. 0)"
    using assms by (simp add: ready_def)
  show ?thesis
  proof (rule runs_weaken [OF uifind_k_runs [OF inv]], clarsimp)
    fix u k' assume i: "kern_inv n k' (add_mset c HC) (add_mset u (wrefs W + HU)) HP (\<lambda>_. 0)"
      and u: "ui_uids (k_ui k') u = Some uid" and fr: "\<forall>c. frames c k k'"
      and cr: "cred_at k' = cred_at k"
    have "uids_kept (k_ui k) (k_ui k')" using fr by (simp add: frames_def)
    moreover have "kern_inv n k' (add_mset c HC) (wrefs W + add_mset u HU) HP (\<lambda>_. 0)"
      using i by simp
    ultimately have "wits W k'"
      using wits_kept [of W k k'] assms unfolding ready_def by blast
    then show "ready n k0 c ((u, uid) # W) HC HU HP k'"
      using assms i u fr frames_exclusive [of c k k'] cr
      by (auto simp: ready_def wits_Cons frames_def)
  qed
qed

lemma ready_uifree:
  assumes "ready n k0 c ((u, uid) # W) HC HU HP k"
  shows "runs (with_ui (uifree u) k) (ready n k0 c W HC HU HP)"
proof -
  have inv: "kern_inv n k (add_mset c HC) (add_mset u (wrefs W + HU)) HP (\<lambda>_. 0)"
    using assms by (simp add: ready_def)
  show ?thesis
  proof (rule runs_weaken [OF uifree_k_runs [OF inv]], clarsimp)
    fix k' assume i: "kern_inv n k' (add_mset c HC) (wrefs W + HU) HP (\<lambda>_. 0)"
      and fr: "\<forall>c. frames c k k'" and cr: "cred_at k' = cred_at k"
    have "uids_kept (k_ui k) (k_ui k')" using fr by (simp add: frames_def)
    then have "wits W k'"
      using wits_kept [of W k, OF _ _ i] assms by (simp add: ready_def wits_Cons)
    then show "ready n k0 c W HC HU HP k'"
      using assms i fr frames_exclusive [of c k k'] cr by (auto simp: ready_def frames_def)
  qed
qed

text \<open>A call that is refused leaves every view as it was.\<close>

lemma set_result_refused:
  assumes "k_procs k' = k_procs k" and "k_threads k' = k_threads k" and "initproc k' = initproc k"
    and "\<And>d. d \<in># HC + cred_holders k \<Longrightarrow> cred_at k' d = cred_at k d"
  shows "set_result i (Inl e) HC k e k'"
proof -
  have procs: "proc_at k' j = proc_at k j" for j using assms(1) by (simp add: proc_at_def)
  have "ids_at k' d = ids_at k d" if "d \<in># HC + cred_holders k" for d
    using assms(4) [OF that] by (simp add: ids_at_def)
  moreover have "p_ucred p \<in># HC + cred_holders k" if "proc_at k j = Some p" for j p
    using that proc_holder [of p k] by (auto simp: proc_at_length)
  moreover have "d \<in># HC + cred_holders k" if "thread_at k t = Some td" "td_ucred td = Some d" for t td d
    using that thread_holder [of td k d] by (auto simp: thread_at_def split: if_splits)
  moreover have "thread_at k' t = thread_at k t" for t using assms(2) by (simp add: thread_at_def)
  ultimately have "proc_ids k' j = proc_ids k j" "thread_ids k' t = thread_ids k t"
      "d \<in># HC \<Longrightarrow> ids_at k' d = ids_at k d" for j t d
    using procs by (auto simp: proc_ids_def thread_ids_def split: option.splits intro!: Option.bind_cong)
  then show ?thesis using assms procs by (simp add: set_result_def)
qed


lemma ready_crfree:
  assumes "ready n k0 c W HC HU HP k"
  shows "runs (crfree c k) (\<lambda>k'. kern_inv n k' HC (wrefs W + HU) HP (\<lambda>_. 0) \<and>
    set_result i (Inl e) HC k0 e k')"
proof -
  have inv: "kern_inv n k (add_mset c HC) (wrefs W + HU) HP (\<lambda>_. 0)" and exc: "exclusive k HC c"
    using assms by (simp_all add: ready_def)
  have hold: "cred_holders k = cred_holders k0"
    using assms by (simp add: ready_def cred_holders_def thread_creds_def)
  show ?thesis
  proof (rule runs_weaken [OF crfree_last [OF inv exc]], intro conjI)
    fix k' assume k': "kern_inv n k' HC (wrefs W + HU) HP (\<lambda>_. 0) \<and> frames c k k'"
    then show "kern_inv n k' HC (wrefs W + HU) HP (\<lambda>_. 0)" ..
    show "set_result i (Inl e) HC k0 e k'"
    proof (rule set_result_refused)
      fix d assume "d \<in># HC + cred_holders k0"
      then have "d \<noteq> c" using exc hold by (auto simp: exclusive_def)
      then show "cred_at k' d = cred_at k0 d" using k' assms by (simp add: frames_def ready_def)
    qed (use k' assms in \<open>auto simp: frames_def ready_def\<close>)
  qed
qed

section \<open>Filling it in\<close>

definition building ::
  "nat \<Rightarrow> kern \<Rightarrow> nat \<Rightarrow> addr \<Rightarrow> ucred \<Rightarrow> bool \<Rightarrow> (addr \<times> uid) list \<Rightarrow>
   addr multiset \<Rightarrow> addr multiset \<Rightarrow> addr multiset \<Rightarrow> kern \<Rightarrow> bool" where
  "building n k0 i c new b W HC HU HP k \<longleftrightarrow>
     (\<exists>p q oc r cr r'. proc_at k0 i = Some p \<and> k_procs k = (k_procs k0)[i := q] \<and>
        p_ucred q = p_ucred p \<and> tainted b p q \<and>
        cred_at k0 (p_ucred p) = Some oc \<and> cr_ruidinfo oc = Some r \<and>
        cred_at k c = Some cr \<and> cr_ruidinfo cr = Some r' \<and> cred_full cr \<and> cred_ids cr = new \<and>
        kern_inv n k (add_mset c HC) (wrefs W + HU) HP (moved r r')) \<and>
     exclusive k HC c \<and> wits W k \<and> cred_at k0 c = None \<and>
     k_threads k = k_threads k0 \<and> initproc k = initproc k0 \<and>
     (\<forall>d. d \<noteq> c \<longrightarrow> cred_at k d = cred_at k0 d)"

lemma tainted_refl [simp]: "tainted False p p"
  by (simp add: tainted_def)

lemma ready_crcopy:
  assumes rdy: "ready (Suc (Suc n)) k0 c W HC HU HP k" and p: "proc_at k0 i = Some p"
    and oc: "cred_at k0 (p_ucred p) = Some oc"
  shows "runs (crcopy c (p_ucred p) k) (building n k0 i c (cred_ids oc) False W HC HU HP)"
proof -
  have inv: "kern_inv (Suc (Suc n)) k (add_mset c HC) (wrefs W + HU) HP (\<lambda>_. 0)"
    and exc: "exclusive k HC c" and dest: "cred_at k c = Some (ucred_zero\<lparr>cr_ref := 1\<rparr>)"
    and ne: "p_ucred p \<noteq> c"
    using rdy oc by (auto simp: ready_def)
  then have oc': "cred_at k (p_ucred p) = Some oc" using rdy oc by (simp add: ready_def)
  have "p \<in> set (k_procs k)" using p rdy by (auto simp: ready_def proc_at_length)
  from proc_holder [OF this] have full: "cred_full oc"
    using inv oc' by (auto simp: kern_inv_def creds_wf_def)
  then obtain r where r: "cr_ruidinfo oc = Some r" by (auto simp: cred_full_def)
  show ?thesis
  proof (rule runs_weaken [OF crcopy_runs [OF inv exc dest oc' ne full]], clarify)
    fix k' assume k': "kern_inv n k' (add_mset c HC) (wrefs W + HU) HP (\<lambda>_. 0)" "frames c k k'"
      "cred_at k' c = Some (oc\<lparr>cr_ref := 1\<rparr>)"
    have "wits W k'" by (rule wits_kept [OF _ _ k'(1)]) (use rdy k'(2) in \<open>auto simp: ready_def frames_def\<close>)
    moreover have "(k_procs k0)[i := p] = k_procs k0" using p by (auto simp: proc_at_length)
    moreover have "kern_inv n k' (add_mset c HC) (wrefs W + HU) HP (moved r r)" using k'(1) by simp
    moreover have "cred_full (oc\<lparr>cr_ref := 1\<rparr>)" using full by (simp add: cred_full_def)
    ultimately show "building n k0 i c (cred_ids oc) False W HC HU HP k'"
      unfolding building_def using rdy k'(2,3) p oc r frames_exclusive [OF k'(2)]
      by (intro conjI exI [of _ p] exI [of _ oc] exI [of _ r] exI [of _ "oc\<lparr>cr_ref := 1\<rparr>"])
        (auto simp: ready_def frames_def)
  qed
qed


text \<open>What a rule for one change may use, and what it has to establish.\<close>

lemma buildingE:
  assumes b: "building n k0 i c new b W HC HU HP k"
  obtains cr r r' where "cred_at k c = Some cr" "cred_ids cr = new" "cr_ruidinfo cr = Some r'"
    "cred_full cr" "cred_coherent (k_ui k) cr" "exclusive k HC c" "wits W k"
    "kern_inv n k (add_mset c HC) (wrefs W + HU) HP (moved r r')"
    "\<And>m k' cr' r''. frames c k k' \<Longrightarrow> cred_at k' c = Some cr' \<Longrightarrow> cr_ruidinfo cr' = Some r'' \<Longrightarrow>
       cred_full cr' \<Longrightarrow> kern_inv m k' (add_mset c HC) (wrefs W + HU) HP (moved r r'') \<Longrightarrow>
       building m k0 i c (cred_ids cr') b W HC HU HP k'"
proof -
  from b obtain p q oc r cr r' where
    a: "proc_at k0 i = Some p" "k_procs k = (k_procs k0)[i := q]" "p_ucred q = p_ucred p"
      "tainted b p q" "cred_at k0 (p_ucred p) = Some oc" "cr_ruidinfo oc = Some r" and
    e: "cred_at k c = Some cr" "cr_ruidinfo cr = Some r'" "cred_full cr" "cred_ids cr = new"
      "kern_inv n k (add_mset c HC) (wrefs W + HU) HP (moved r r')" and
    f: "exclusive k HC c" "wits W k" "cred_at k0 c = None" "k_threads k = k_threads k0"
      "initproc k = initproc k0" "\<forall>d. d \<noteq> c \<longrightarrow> cred_at k d = cred_at k0 d"
    unfolding building_def by blast
  have coh: "cred_coherent (k_ui k) cr"
    using e(1,5) by (auto simp: kern_inv_def creds_wf_def)
  have step: "building m k0 i c (cred_ids cr') b W HC HU HP k'"
    if k': "frames c k k'" "cred_at k' c = Some cr'" "cr_ruidinfo cr' = Some r''" "cred_full cr'"
      "kern_inv m k' (add_mset c HC) (wrefs W + HU) HP (moved r r'')" for m k' cr' r''
  proof -
    have "wits W k'" by (rule wits_kept [OF f(2) _ k'(5)]) (use k'(1) in \<open>simp add: frames_def\<close>)
    moreover have "exclusive k' HC c" using frames_exclusive [OF k'(1)] f(1) by simp
    ultimately show ?thesis
      unfolding building_def using k' f a by (auto simp: frames_def)
  qed
  show thesis by (rule that [OF e(1,4,2,3) coh f(1,2) e(5) step])
qed

lemma moved_trans: "moved r r' u + moved r' r'' u = moved r r'' u"
  by (simp add: moved_def)

lemma building_euid:
  assumes "building (Suc n) k0 i c new b W HC HU HP k" and "(u, uid) \<in> set W"
  shows "runs (change_euid c u k) (building n k0 i c (new\<lparr>cr_uid := uid\<rparr>) b W HC HU HP)"
  using assms(1)
proof (rule buildingE)
  fix cr r r' assume a: "cred_at k c = Some cr" "cred_ids cr = new" "cr_ruidinfo cr = Some r'"
    "cred_full cr" "exclusive k HC c" "wits W k"
    "kern_inv (Suc n) k (add_mset c HC) (wrefs W + HU) HP (moved r r')"
    and step: "\<And>m k' cr' r''. frames c k k' \<Longrightarrow> cred_at k' c = Some cr' \<Longrightarrow> cr_ruidinfo cr' = Some r'' \<Longrightarrow>
       cred_full cr' \<Longrightarrow> kern_inv m k' (add_mset c HC) (wrefs W + HU) HP (moved r r'') \<Longrightarrow>
       building m k0 i c (cred_ids cr') b W HC HU HP k'"
  obtain old where old: "cr_uidinfo cr = Some old" using a(4) by (auto simp: cred_full_def)
  have u: "u \<in># wrefs W + HU" "ui_uids (k_ui k) u = Some uid"
    using a(6) assms(2) by (auto simp: wits_def wrefs_def image_iff intro: rev_bexI)
  show ?thesis
  proof (rule runs_weaken [OF change_euid_runs [OF a(7,5,1) old u]], elim conjE)
    fix k' assume "kern_inv n k' (add_mset c HC) (wrefs W + HU) HP (moved r r')" "frames c k k'"
      "cred_at k' c = Some (cr\<lparr>cr_uid := uid, cr_uidinfo := Some u\<rparr>)"
    from step [OF this(2,3) _ _ this(1)] a(2-4)
    show "building n k0 i c (new\<lparr>cr_uid := uid\<rparr>) b W HC HU HP k'"
      by (auto simp: cred_full_def)
  qed
qed

lemma building_ruid:
  assumes "building (Suc n) k0 i c new b W HC HU HP k" and "(u, uid) \<in> set W"
  shows "runs (change_ruid c u k) (building n k0 i c (new\<lparr>cr_ruid := uid\<rparr>) b W HC HU HP)"
  using assms(1)
proof (rule buildingE)
  fix cr r r' assume a: "cred_at k c = Some cr" "cred_ids cr = new" "cr_ruidinfo cr = Some r'"
    "cred_full cr" "exclusive k HC c" "wits W k"
    "kern_inv (Suc n) k (add_mset c HC) (wrefs W + HU) HP (moved r r')"
    and step: "\<And>m k' cr' r''. frames c k k' \<Longrightarrow> cred_at k' c = Some cr' \<Longrightarrow> cr_ruidinfo cr' = Some r'' \<Longrightarrow>
       cred_full cr' \<Longrightarrow> kern_inv m k' (add_mset c HC) (wrefs W + HU) HP (moved r r'') \<Longrightarrow>
       building m k0 i c (cred_ids cr') b W HC HU HP k'"
  have u: "u \<in># wrefs W + HU" "ui_uids (k_ui k) u = Some uid"
    using a(6) assms(2) by (auto simp: wits_def wrefs_def image_iff intro: rev_bexI)
  show ?thesis
  proof (rule runs_weaken [OF change_ruid_runs [OF a(7,5,1,3) u]], elim conjE)
    fix k' assume "kern_inv n k' (add_mset c HC) (wrefs W + HU) HP (\<lambda>v. moved r r' v + moved r' u v)"
      "frames c k k'" "cred_at k' c = Some (cr\<lparr>cr_ruid := uid, cr_ruidinfo := Some u\<rparr>)"
    from step [OF this(2,3) _ _ this(1) [unfolded moved_trans]] a(2,4)
    show "building n k0 i c (new\<lparr>cr_ruid := uid\<rparr>) b W HC HU HP k'"
      by (auto simp: cred_full_def)
  qed
qed

text \<open>The other fields, through one rule.\<close>

definition plain_change :: "(ucred \<Rightarrow> ucred) \<Rightarrow> bool" where
  "plain_change f \<longleftrightarrow> (\<forall>cr. cr_ref (f cr) = cr_ref cr \<and> cr_uid (f cr) = cr_uid cr \<and>
     cr_ruid (f cr) = cr_ruid cr \<and> cr_uidinfo (f cr) = cr_uidinfo cr \<and>
     cr_ruidinfo (f cr) = cr_ruidinfo cr \<and> cr_prison (f cr) = cr_prison cr \<and>
     cred_ids (f cr) = f (cred_ids cr) \<and>
     (length (cr_groups cr) = NGROUPS \<longrightarrow> cr_ngroups cr \<le> NGROUPS \<longrightarrow> 0 < cr_ngroups cr \<longrightarrow>
        length (cr_groups (f cr)) = NGROUPS \<and> cr_ngroups (f cr) \<le> NGROUPS \<and> 0 < cr_ngroups (f cr)))"

lemma building_plain:
  assumes "building n k0 i c new b W HC HU HP k" and f: "plain_change f"
    and op: "\<And>cr. cred_at k c = Some cr \<Longrightarrow> op k = Some (cred_put c (f cr) k)"
  shows "runs (op k) (building n k0 i c (f new) b W HC HU HP)"
  using assms(1)
proof (rule buildingE)
  fix cr r r' assume a: "cred_at k c = Some cr" "cred_ids cr = new" "cr_ruidinfo cr = Some r'"
    "cred_full cr" "cred_coherent (k_ui k) cr" "exclusive k HC c"
    "kern_inv n k (add_mset c HC) (wrefs W + HU) HP (moved r r')"
    and step: "\<And>m k' cr' r''. frames c k k' \<Longrightarrow> cred_at k' c = Some cr' \<Longrightarrow> cr_ruidinfo cr' = Some r'' \<Longrightarrow>
       cred_full cr' \<Longrightarrow> kern_inv m k' (add_mset c HC) (wrefs W + HU) HP (moved r r'') \<Longrightarrow>
       building m k0 i c (cred_ids cr') b W HC HU HP k'"
  note fs = f [unfolded plain_change_def, rule_format, of cr]
  have g: "length (cr_groups (f cr)) = NGROUPS" "cr_ngroups (f cr) \<le> NGROUPS" "cred_full (f cr)"
    using fs a(4,5) by (auto simp: cred_full_def cred_coherent_def)
  have "kern_inv n (cred_put c (f cr) k) (add_mset c HC) (wrefs W + HU) HP (moved r r')"
    by (rule kern_inv_put [OF a(7,6,1)]) (use fs g in auto)
  from step [OF frames_put [OF a(1)] _ _ g(3) this] fs a(1-3)
  show ?thesis by (simp add: op [OF a(1)] cred_at_put)
qed

lemma tainted_setsugid:
  assumes "tainted b p q"
  shows "tainted True p (q\<lparr>p_flag := p_flag q OR P_SUGID, p_stops := s\<rparr>)"
  using assms by (cases p; cases q) (auto simp: tainted_def or.assoc split: if_splits)


lemma setsugid_put:
  assumes "proc_at k i = Some q"
  shows "\<exists>s. setsugid i k = Some (proc_put i (q\<lparr>p_flag := p_flag q OR P_SUGID, p_stops := s\<rparr>) k)"
  using assms
  by (cases "p_pfsflags q AND PF_ISUGID = 0") (auto simp: setsugid_def Let_def intro: exI [of _ "p_stops q"])

lemma kern_inv_mono:
  assumes "kern_inv n k HC HU HP D" and "m \<le> n"
  shows "kern_inv m k HC HU HP D"
  using assms room_mono [of n _ m] by (simp add: kern_inv_def)

lemma building_mono:
  assumes "building n k0 i c new b W HC HU HP k" and "m \<le> n"
  shows "building m k0 i c new b W HC HU HP k"
  using assms kern_inv_mono [OF _ assms(2)] unfolding building_def by blast

lemma building_sugid:
  assumes b: "building n k0 i c new b W HC HU HP k"
  shows "runs (setsugid i k) (building n k0 i c new True W HC HU HP)"
proof -
  from b obtain p q oc r cr r' where
    a: "proc_at k0 i = Some p" "k_procs k = (k_procs k0)[i := q]" "p_ucred q = p_ucred p"
      "tainted b p q" "cred_at k0 (p_ucred p) = Some oc" "cr_ruidinfo oc = Some r"
      "cred_at k c = Some cr" "cr_ruidinfo cr = Some r'" "cred_full cr" "cred_ids cr = new"
      "kern_inv n k (add_mset c HC) (wrefs W + HU) HP (moved r r')" and
    f: "exclusive k HC c" "wits W k" "cred_at k0 c = None" "k_threads k = k_threads k0"
      "initproc k = initproc k0" "\<forall>d. d \<noteq> c \<longrightarrow> cred_at k d = cred_at k0 d"
    unfolding building_def by blast
  have q: "proc_at k i = Some q" using a(1,2) by (simp add: proc_at_length)
  then obtain s where s: "setsugid i k = Some (proc_put i (q\<lparr>p_flag := p_flag q OR P_SUGID, p_stops := s\<rparr>) k)"
    using setsugid_put by blast
  define q' where "q' = q\<lparr>p_flag := p_flag q OR P_SUGID, p_stops := s\<rparr>"
  have q': "p_ucred q' = p_ucred q" "tainted True p q'"
    using tainted_setsugid [OF a(4)] by (simp_all add: q'_def)
  have "kern_inv n (proc_put i q' k) (add_mset c HC) (wrefs W + HU) HP (moved r r')"
    by (rule kern_inv_flags [OF a(11) q q'(1)])
  moreover have "cred_holders (proc_put i q' k) = cred_holders k"
    using holders_proc_put [OF q, of q'] q'(1) by simp
  moreover have "k_procs (proc_put i q' k) = (k_procs k0)[i := q']"
    using a(2) by (simp add: proc_put_def)
  ultimately have "building n k0 i c new True W HC HU HP (proc_put i q' k)"
    unfolding building_def using a f q' by (auto simp: exclusive_def wits_def)
  then show ?thesis using s by (simp add: q'_def)
qed

text \<open>The shape of every conditional change in the calls.\<close>

lemma building_whenk:
  assumes b: "building (Suc n) k0 i c new b W HC HU HP k"
    and op: "P \<Longrightarrow> runs (op k) (building n k0 i c new' b W HC HU HP)"
  shows "runs (whenk P (\<lambda>k. op k \<bind> setsugid i) k)
    (building n k0 i c (if P then new' else new) (P \<or> b) W HC HU HP)"
proof (cases P)
  case True
  have "runs (op k \<bind> setsugid i) (building n k0 i c new' True W HC HU HP)"
    by (rule runs_bind [OF op [OF True]]) (rule building_sugid)
  then show ?thesis using True by (simp add: whenk_def)
next
  case False
  then show ?thesis using building_mono [OF b, of n] by (simp add: whenk_def)
qed

section \<open>Installing it and letting go\<close>

definition installed ::
  "nat \<Rightarrow> kern \<Rightarrow> nat \<Rightarrow> addr \<Rightarrow> ucred \<Rightarrow> bool \<Rightarrow> (addr \<times> uid) list \<Rightarrow>
   addr multiset \<Rightarrow> addr multiset \<Rightarrow> addr multiset \<Rightarrow> kern \<Rightarrow> bool" where
  "installed n k0 i c new b W HC HU HP k \<longleftrightarrow>
     (\<exists>p q. proc_at k0 i = Some p \<and> k_procs k = (k_procs k0)[i := q] \<and> p_ucred q = c \<and>
        tainted b p q \<and> kern_inv n k (add_mset (p_ucred p) HC) (wrefs W + HU) HP (\<lambda>_. 0)) \<and>
     c \<notin># HC + cred_holders k0 \<and> ids_at k c = Some new \<and>
     k_threads k = k_threads k0 \<and> initproc k = initproc k0 \<and>
     (\<forall>d. d \<noteq> c \<longrightarrow> cred_at k d = cred_at k0 d)"

lemma tainted_ucred: "tainted b p q \<Longrightarrow> tainted b p (q\<lparr>p_ucred := c\<rparr>)"
  by (cases p; cases q) (auto simp: tainted_def)

lemma building_install:
  assumes b: "building n k0 i c new b W HC HU HP k"
  shows "runs (set_ucred i c k) (installed n k0 i c new b W HC HU HP)"
proof -
  from b obtain p q oc r cr r' where
    a: "proc_at k0 i = Some p" "k_procs k = (k_procs k0)[i := q]" "p_ucred q = p_ucred p"
      "tainted b p q" "cred_at k0 (p_ucred p) = Some oc" "cr_ruidinfo oc = Some r"
      "cred_at k c = Some cr" "cr_ruidinfo cr = Some r'" "cred_full cr" "cred_ids cr = new"
      "kern_inv n k (add_mset c HC) (wrefs W + HU) HP (moved r r')" and
    f: "exclusive k HC c" "cred_at k0 c = None" "k_threads k = k_threads k0"
      "initproc k = initproc k0" "\<forall>d. d \<noteq> c \<longrightarrow> cred_at k d = cred_at k0 d"
    unfolding building_def by blast
  let ?q = "q\<lparr>p_ucred := c\<rparr>"
  have q: "proc_at k i = Some q" using a(1,2) by (simp add: proc_at_length)
  have "cred_holders k = cred_holders k0"
  proof -
    have "map p_ucred (k_procs k) = map p_ucred (k_procs k0)"
      using a(1-3) by (auto simp: map_update proc_at_length list_update_same_conv)
    then show ?thesis using f(3) by (simp add: cred_holders_def thread_creds_def)
  qed
  then have "c \<notin># HC + cred_holders k0" using f(1) by (simp add: exclusive_def)
  moreover have "kern_inv n (proc_put i ?q k) (add_mset (p_ucred p) HC) (wrefs W + HU) HP (\<lambda>_. 0)"
  proof -
    have "p_ucred p \<noteq> c" using a(5) f(2) by auto
    then have "cred_at k (p_ucred q) = Some oc" using f(5) a(3,5) by simp
    from kern_inv_install [OF a(11) q _ this a(6,7,8,9), of ?q] show ?thesis using a(3) by simp
  qed
  moreover have "k_procs (proc_put i ?q k) = (k_procs k0)[i := ?q]" using a(2) by (simp add: proc_put_def)
  ultimately show ?thesis
    unfolding set_ucred_def installed_def using a f q tainted_ucred [OF a(4), of c]
    by (auto simp: ids_at_def)
qed


lemma installed_uifree:
  assumes "installed n k0 i c new b ((u, uid) # W) HC HU HP k"
  shows "runs (with_ui (uifree u) k) (installed n k0 i c new b W HC HU HP)"
proof -
  obtain p q where p: "proc_at k0 i = Some p" "k_procs k = (k_procs k0)[i := q]" "p_ucred q = c"
      "tainted b p q" "kern_inv n k (add_mset (p_ucred p) HC) (add_mset u (wrefs W + HU)) HP (\<lambda>_. 0)"
    using assms by (auto simp: installed_def)
  show ?thesis
    by (rule runs_weaken [OF uifree_k_runs [OF p(5)]])
       (use assms p in \<open>auto simp: installed_def frames_def ids_at_def\<close>)
qed

lemma set_result_done:
  assumes p: "proc_at k i = Some p" and q: "k_procs k' = (k_procs k)[i := q]" "tainted b p q"
    and new: "ids_at k' (p_ucred q) = Some new"
    and eq: "k_threads k' = k_threads k" "initproc k' = initproc k"
    and ids: "\<And>d. d \<in># HC + cred_holders k' \<Longrightarrow> d \<noteq> p_ucred q \<Longrightarrow> ids_at k' d = ids_at k d"
    and fresh: "p_ucred q \<notin># HC + cred_holders k"
  shows "set_result i (Inr (new, b)) HC k 0 k'"
proof -
  have at: "proc_at k' j = (if j = i then Some q else proc_at k j)" for j
    using p q(1) by (auto simp: proc_at_def split: if_splits)
  have th: "thread_at k' t = thread_at k t" for t using eq(1) by (simp add: thread_at_def)
  have "ids_at k' (p_ucred x) = ids_at k (p_ucred x)" if "proc_at k j = Some x" "j \<noteq> i" for j x
  proof (rule ids)
    have "proc_at k' j = Some x" using at that by simp
    then show "p_ucred x \<in># HC + cred_holders k'"
      using proc_holder [of x k'] by (auto simp: proc_at_length)
    show "p_ucred x \<noteq> p_ucred q"
      using fresh that proc_holder [of x k] by (auto simp: proc_at_length)
  qed
  then have procs: "j \<noteq> i \<Longrightarrow> proc_ids k' j = proc_ids k j" for j
    by (auto simp: proc_ids_def at intro!: Option.bind_cong)
  have "ids_at k' d = ids_at k d" if "thread_at k t = Some td" "td_ucred td = Some d" for t td d
  proof (rule ids)
    have "td \<in> set (k_threads k)" using that(1) by (auto simp: thread_at_def split: if_splits)
    then show "d \<in># HC + cred_holders k'" "d \<noteq> p_ucred q"
      using thread_holder [of td k' d] thread_holder [of td k d] that(2) eq(1) fresh by auto
  qed
  then have threads: "thread_ids k' t = thread_ids k t" for t
    by (auto simp: thread_ids_def th intro!: Option.bind_cong)
  have "ids_at k' d = ids_at k d" if "d \<in># HC" for d
    using ids [of d] that fresh by auto
  moreover have "proc_ids k' i = Some new" using new by (simp add: proc_ids_def at)
  ultimately show ?thesis
    using procs threads eq p q at by (auto simp: set_result_def)
qed

lemma installed_crfree:
  assumes ins: "installed n k0 i c new b [] HC HU HP k" and p: "proc_at k0 i = Some p"
  shows "runs (crfree (p_ucred p) k) (\<lambda>k'. kern_inv n k' HC HU HP (\<lambda>_. 0) \<and>
    set_result i (Inr (new, b)) HC k0 0 k')"
proof -
  obtain q where q: "k_procs k = (k_procs k0)[i := q]" "p_ucred q = c" "tainted b p q"
      and inv: "kern_inv n k (add_mset (p_ucred p) HC) HU HP (\<lambda>_. 0)"
    using ins p by (auto simp: installed_def)
  have f: "c \<notin># HC + cred_holders k0" "ids_at k c = Some new" "k_threads k = k_threads k0"
      "initproc k = initproc k0" "\<And>d. d \<noteq> c \<Longrightarrow> cred_at k d = cred_at k0 d"
    using ins by (auto simp: installed_def)
  have "p_ucred p \<noteq> c"
    using f(1) p proc_holder [of p k0] by (auto simp: proc_at_length)
  show ?thesis
  proof (rule runs_weaken [OF crfree_runs [OF inv]], intro conjI)
    fix k' assume k': "kern_inv n k' HC HU HP (\<lambda>_. 0) \<and> frames (p_ucred p) k k' \<and>
      (\<not> exclusive k HC (p_ucred p) \<longrightarrow>
       (\<exists>cr r. cred_at k (p_ucred p) = Some cr \<and> cred_at k' (p_ucred p) = Some (cr\<lparr>cr_ref := r\<rparr>)))"
    then show "kern_inv n k' HC HU HP (\<lambda>_. 0)" ..
    have hold: "cred_holders k' = cred_holders k" using k' frames_holders by blast
    show "set_result i (Inr (new, b)) HC k0 0 k'"
    proof (rule set_result_done [OF p _ q(3)])
      fix d assume d: "d \<in># HC + cred_holders k'" "d \<noteq> p_ucred q"
      have "ids_at k' d = ids_at k d"
      proof (cases "d = p_ucred p")
        case True
        then have "\<not> exclusive k HC (p_ucred p)" using d(1) hold by (simp add: exclusive_def)
        then show ?thesis using k' True by (auto simp: ids_at_def)
      next
        case False
        then show ?thesis using k' by (simp add: ids_at_def frames_def)
      qed
      then show "ids_at k' d = ids_at k0 d" using f(5) [of d] d(2) q(2) by (simp add: ids_at_def)
    next
      show "ids_at k' (p_ucred q) = Some new"
        using k' \<open>p_ucred p \<noteq> c\<close> f(2) q(2) by (simp add: ids_at_def frames_def)
    qed (use k' f q in \<open>auto simp: frames_def\<close>)
  qed
qed

end
