(* ===== verification/SetIdsSpec.thy ===== *)
theory SetIdsSpec
  imports SetIdsProof
begin

text \<open>
  The specification of the credential system calls, on the ids of one process, and the
  proof that each call of \<open>SetIds\<close> implements it.
\<close>

section \<open>The specification\<close>

text \<open>
  A specification maps the ids of the caller to an error, or to its new ids and whether the
  process is marked as having changed its ids.
\<close>

definition grant :: "ucred \<Rightarrow> ucred \<Rightarrow> errno + ucred \<times> bool" where
  "grant cr cr' = Inr (cr', cr' \<noteq> cr)"

definition egid :: "ucred \<Rightarrow> gid" where
  "egid cr = cr_groups cr ! 0"

definition set_egid :: "gid \<Rightarrow> ucred \<Rightarrow> ucred" where
  "set_egid g cr = cr\<lparr>cr_groups := (cr_groups cr)[0 := g]\<rparr>"

definition unless_none :: "32 word \<Rightarrow> 32 word \<Rightarrow> 32 word" where
  "unless_none new old = (if new = ID_NONE then old else new)"

definition setuid_spec :: "sysconf \<Rightarrow> uid \<Rightarrow> ucred \<Rightarrow> errno + ucred \<times> bool" where
  "setuid_spec cf uid cr =
     (if uid \<in> {cr_ruid cr, cr_uid cr} \<or> priv_check_cred cf cr PRIV_CRED_SETUID = 0
      then grant cr (cr\<lparr>cr_uid := uid, cr_ruid := uid, cr_svuid := uid\<rparr>) else Inl EPERM)"

definition seteuid_spec :: "sysconf \<Rightarrow> uid \<Rightarrow> ucred \<Rightarrow> errno + ucred \<times> bool" where
  "seteuid_spec cf uid cr =
     (if uid \<in> {cr_ruid cr, cr_svuid cr} \<or> priv_check_cred cf cr PRIV_CRED_SETEUID = 0
      then grant cr (cr\<lparr>cr_uid := uid\<rparr>) else Inl EPERM)"

definition setgid_spec :: "sysconf \<Rightarrow> gid \<Rightarrow> ucred \<Rightarrow> errno + ucred \<times> bool" where
  "setgid_spec cf g cr =
     (if g \<in> {cr_rgid cr, egid cr} \<or> priv_check_cred cf cr PRIV_CRED_SETGID = 0
      then grant cr (set_egid g (cr\<lparr>cr_rgid := g, cr_svgid := g\<rparr>)) else Inl EPERM)"

definition setegid_spec :: "sysconf \<Rightarrow> gid \<Rightarrow> ucred \<Rightarrow> errno + ucred \<times> bool" where
  "setegid_spec cf g cr =
     (if g \<in> {cr_rgid cr, cr_svgid cr} \<or> priv_check_cred cf cr PRIV_CRED_SETEGID = 0
      then grant cr (set_egid g cr) else Inl EPERM)"

definition setgroups_spec :: "sysconf \<Rightarrow> nat \<Rightarrow> gid list \<Rightarrow> ucred \<Rightarrow> errno + ucred \<times> bool" where
  "setgroups_spec cf n gs cr =
     (if NGROUPS < n then Inl EINVAL
      else if priv_check_cred cf cr PRIV_CRED_SETGROUPS = 0
      then Inr (if n = 0 then cr\<lparr>cr_ngroups := 1\<rparr>
                else cr\<lparr>cr_groups := take n gs @ drop n (cr_groups cr), cr_ngroups := n\<rparr>, True)
      else Inl EPERM)"

text \<open>
  In \<^verbatim>\<open>setreuid\<close> the saved id follows the new effective id when a real id is given or when
  the new real and effective ids differ.
\<close>

definition setreuid_spec :: "sysconf \<Rightarrow> uid \<Rightarrow> uid \<Rightarrow> ucred \<Rightarrow> errno + ucred \<times> bool" where
  "setreuid_spec cf ruid euid cr =
     (if (ruid \<in> {ID_NONE, cr_ruid cr, cr_svuid cr} \<and>
          euid \<in> {ID_NONE, cr_uid cr, cr_ruid cr, cr_svuid cr}) \<or>
         priv_check_cred cf cr PRIV_CRED_SETREUID = 0
      then (let r = unless_none ruid (cr_ruid cr); e = unless_none euid (cr_uid cr)
            in grant cr (cr\<lparr>cr_uid := e, cr_ruid := r,
                 cr_svuid := (if ruid \<noteq> ID_NONE \<or> e \<noteq> r then e else cr_svuid cr)\<rparr>))
      else Inl EPERM)"

definition setregid_spec :: "sysconf \<Rightarrow> gid \<Rightarrow> gid \<Rightarrow> ucred \<Rightarrow> errno + ucred \<times> bool" where
  "setregid_spec cf rgid eg cr =
     (if (rgid \<in> {ID_NONE, cr_rgid cr, cr_svgid cr} \<and>
          eg \<in> {ID_NONE, egid cr, cr_rgid cr, cr_svgid cr}) \<or>
         priv_check_cred cf cr PRIV_CRED_SETREGID = 0
      then (let r = unless_none rgid (cr_rgid cr); e = unless_none eg (egid cr)
            in grant cr (set_egid e (cr\<lparr>cr_rgid := r,
                 cr_svgid := (if rgid \<noteq> ID_NONE \<or> e \<noteq> r then e else cr_svgid cr)\<rparr>)))
      else Inl EPERM)"

definition setresuid_spec :: "sysconf \<Rightarrow> uid \<Rightarrow> uid \<Rightarrow> uid \<Rightarrow> ucred \<Rightarrow> errno + ucred \<times> bool" where
  "setresuid_spec cf ruid euid suid cr =
     (if {ruid, euid, suid} \<subseteq> {ID_NONE, cr_ruid cr, cr_svuid cr, cr_uid cr} \<or>
         priv_check_cred cf cr PRIV_CRED_SETRESUID = 0
      then grant cr (cr\<lparr>cr_uid := unless_none euid (cr_uid cr), cr_ruid := unless_none ruid (cr_ruid cr),
             cr_svuid := unless_none suid (cr_svuid cr)\<rparr>)
      else Inl EPERM)"

definition setresgid_spec :: "sysconf \<Rightarrow> gid \<Rightarrow> gid \<Rightarrow> gid \<Rightarrow> ucred \<Rightarrow> errno + ucred \<times> bool" where
  "setresgid_spec cf rgid eg sgid cr =
     (if {rgid, eg, sgid} \<subseteq> {ID_NONE, cr_rgid cr, cr_svgid cr, egid cr} \<or>
         priv_check_cred cf cr PRIV_CRED_SETRESGID = 0
      then grant cr (set_egid (unless_none eg (egid cr)) (cr\<lparr>cr_rgid := unless_none rgid (cr_rgid cr),
             cr_svgid := unless_none sgid (cr_svgid cr)\<rparr>))
      else Inl EPERM)"

section \<open>Common part of the proofs\<close>

text \<open>
  \<open>implements\<close>: the call by thread \<open>t\<close> does not fault, all counts are exact again afterwards,
  and the ids change as specified and no others.
\<close>

definition implements ::
  "(ucred \<Rightarrow> errno + ucred \<times> bool) \<Rightarrow> thread \<Rightarrow> addr multiset \<Rightarrow> addr multiset \<Rightarrow> addr multiset \<Rightarrow>
   kern \<Rightarrow> (errno \<times> kern) option \<Rightarrow> bool" where
  "implements spec td HC HU HP k m \<longleftrightarrow>
     (\<exists>e k' old. m = Some (e, k') \<and> kern_inv 0 k' HC HU HP (\<lambda>_. 0) \<and>
        proc_ids k (td_proc td) = Some old \<and> set_result (td_proc td) (spec old) HC k e k')"

lemma caller:
  assumes inv: "kern_inv n k HC HU HP D" and t: "thread_at k t = Some td"
  obtains p oc where "proc_at k (td_proc td) = Some p" "cred_at k (p_ucred p) = Some oc"
    "proc_ids k (td_proc td) = Some (cred_ids oc)" "length (cr_groups oc) = NGROUPS"
    "0 < cr_ngroups oc" "cr_ngroups oc \<le> NGROUPS"
proof -
  have "td_proc td < length (k_procs k)"
    using assms by (auto simp: kern_inv_def creds_wf_def thread_at_def split: if_splits)
  then obtain p where p: "proc_at k (td_proc td) = Some p" by (auto simp: proc_at_def)
  have h: "p_ucred p \<in># cred_holders k" using p proc_holder by (auto simp: proc_at_length)
  obtain oc where oc: "cred_at k (p_ucred p) = Some oc"
    using holder_live [of k HC "p_ucred p"] inv h by (auto simp: kern_inv_def)
  have "cred_coherent (k_ui k) oc" "cred_full oc"
    using inv oc h by (auto simp: kern_inv_def creds_wf_def)
  with p oc that show thesis by (simp add: proc_ids_def ids_at_def cred_coherent_def cred_full_def)
qed

lemma ready_reads:
  assumes "ready n k0 c W HC HU HP k"
  shows "proc_at k i = proc_at k0 i" and "cred_at k0 d = Some cr \<Longrightarrow> cred_at k d = Some cr"
  using assms by (auto simp: ready_def proc_at_def) (metis option.distinct(1))

lemma refusal:
  assumes "ready n k0 c [] HC HU HP k" and "proc_ids k0 (td_proc td) = Some old" and "spec old = Inl e"
  shows "implements spec td HC HU HP k0 (crfree c k \<bind> (\<lambda>k. Some (e, k)))"
  using ready_crfree [OF assms(1), of "td_proc td" e] assms(2,3) kern_inv_mono [of n _ HC HU HP _ 0]
  by (auto simp: implements_def runs_def)

lemma success:
  assumes "installed n k0 (td_proc td) c new b [] HC HU HP k" and "proc_at k0 (td_proc td) = Some p"
    and "proc_ids k0 (td_proc td) = Some old" and "spec old = Inr (new, b)"
  shows "implements spec td HC HU HP k0 (crfree (p_ucred p) k \<bind> (\<lambda>k. Some (0, k)))"
  using installed_crfree [OF assms(1,2)] assms(3,4) kern_inv_mono [of n _ HC HU HP _ 0]
  by (auto simp: implements_def runs_def)

text \<open>Steps before the outcome is reached.\<close>

lemma implements_bind:
  assumes "runs m P" and "\<And>x. P x \<Longrightarrow> implements spec td HC HU HP k (f x)"
  shows "implements spec td HC HU HP k (m \<bind> f)"
  using assms by (auto simp: runs_def)

lemma implements_bind2:
  assumes "runs m (\<lambda>(u, k). P u k)" and "\<And>u x. P u x \<Longrightarrow> implements spec td HC HU HP k (f (u, x))"
  shows "implements spec td HC HU HP k (m \<bind> f)"
  using assms by (auto simp: runs_def)

lemma priv_refused: "priv_check_cred cf cr p \<noteq> 0 \<Longrightarrow> priv_check_cred cf cr p = EPERM"
  using priv_check_cred_errno by blast

lemma ids_fields:
  "cr_uid cr = cr_uid (cred_ids cr)" "cr_ruid cr = cr_ruid (cred_ids cr)"
  "cr_svuid cr = cr_svuid (cred_ids cr)" "cr_groups cr = cr_groups (cred_ids cr)"
  "cr_ngroups cr = cr_ngroups (cred_ids cr)" "cr_rgid cr = cr_rgid (cred_ids cr)"
  "cr_svgid cr = cr_svgid (cred_ids cr)"
  "priv_check_cred cf cr priv = priv_check_cred cf (cred_ids cr) priv"
  by simp_all

text \<open>One rule per conditional change.\<close>

lemma building_when_euid:
  assumes "building (Suc n) k0 i c new b W HC HU HP k" and "(u, uid) \<in> set W"
  shows "runs (whenk P (\<lambda>k. change_euid c u k \<bind> setsugid i) k)
    (building n k0 i c (new\<lparr>cr_uid := if P then uid else cr_uid new\<rparr>) (P \<or> b) W HC HU HP)"
  using building_whenk [where P = P and op = "change_euid c u", OF assms(1) building_euid [OF assms]] by (cases P) simp_all

lemma building_when_ruid:
  assumes "building (Suc n) k0 i c new b W HC HU HP k" and "(u, uid) \<in> set W"
  shows "runs (whenk P (\<lambda>k. change_ruid c u k \<bind> setsugid i) k)
    (building n k0 i c (new\<lparr>cr_ruid := if P then uid else cr_ruid new\<rparr>) (P \<or> b) W HC HU HP)"
  using building_whenk [where P = P and op = "change_ruid c u", OF assms(1) building_ruid [OF assms]] by (cases P) simp_all

lemma building_when_plain:
  assumes "building (Suc n) k0 i c new b W HC HU HP k" and "plain_change f"
    and "\<And>cr. cred_at k c = Some cr \<Longrightarrow> op k = Some (cred_put c (f cr) k)"
  shows "runs (whenk P (\<lambda>k. op k \<bind> setsugid i) k)
    (building n k0 i c (if P then f new else new) (P \<or> b) W HC HU HP)"
  by (rule building_whenk [OF assms(1)])
     (rule building_plain [where op = op, OF building_mono [OF assms(1)] assms(2,3)], simp_all)

lemma building_when_svuid:
  assumes "building (Suc n) k0 i c new b W HC HU HP k"
  shows "runs (whenk P (\<lambda>k. change_svuid c uid k \<bind> setsugid i) k)
    (building n k0 i c (new\<lparr>cr_svuid := if P then uid else cr_svuid new\<rparr>) (P \<or> b) W HC HU HP)"
  using building_when_plain [where P = P and f = "\<lambda>cr. cr\<lparr>cr_svuid := uid\<rparr>" and op = "change_svuid c uid", OF assms]
  by (cases P) (simp_all add: plain_change_def change_svuid_def)

lemma building_when_rgid:
  assumes "building (Suc n) k0 i c new b W HC HU HP k"
  shows "runs (whenk P (\<lambda>k. change_rgid c g k \<bind> setsugid i) k)
    (building n k0 i c (new\<lparr>cr_rgid := if P then g else cr_rgid new\<rparr>) (P \<or> b) W HC HU HP)"
  using building_when_plain [where P = P and f = "\<lambda>cr. cr\<lparr>cr_rgid := g\<rparr>" and op = "change_rgid c g", OF assms]
  by (cases P) (simp_all add: plain_change_def change_rgid_def)

lemma building_when_svgid:
  assumes "building (Suc n) k0 i c new b W HC HU HP k"
  shows "runs (whenk P (\<lambda>k. change_svgid c g k \<bind> setsugid i) k)
    (building n k0 i c (new\<lparr>cr_svgid := if P then g else cr_svgid new\<rparr>) (P \<or> b) W HC HU HP)"
  using building_when_plain [where P = P and f = "\<lambda>cr. cr\<lparr>cr_svgid := g\<rparr>" and op = "change_svgid c g", OF assms]
  by (cases P) (simp_all add: plain_change_def change_svgid_def)

lemma building_when_egid:
  assumes "building (Suc n) k0 i c new b W HC HU HP k"
  shows "runs (whenk P (\<lambda>k. change_egid c g k \<bind> setsugid i) k)
    (building n k0 i c (set_egid (if P then g else egid new) new) (P \<or> b) W HC HU HP)"
  using building_when_plain [where P = P and f = "set_egid g" and op = "change_egid c g", OF assms]
  by (cases P) (simp_all add: plain_change_def change_egid_def set_egid_def egid_def)

lemma building_read:
  assumes "building n k0 i c new b W HC HU HP k"
  shows "runs (cred_at k c) (\<lambda>cr. cred_ids cr = new \<and> building n k0 i c new b W HC HU HP k)"
  using assms by (rule buildingE) (use assms in auto)

lemma in_first: "w \<in> set (w # W)" and in_second: "w \<in> set (v # w # W)"
  by simp_all

lemmas build_rules =
  building_when_euid building_when_ruid building_when_svuid building_when_rgid building_when_svgid
  building_when_egid

text \<open>
  The first lines of every call. Eight free references of each kind are enough: a call takes
  at most two by \<^verbatim>\<open>uifind\<close>, two by \<^verbatim>\<open>crcopy\<close> and one by each change.
\<close>

lemma start:
  assumes inv: "kern_inv 8 k HC HU HP (\<lambda>_. 0)" and t: "thread_at k t = Some td"
  obtains p oc c k1 where "crget k = (c, k1)" "proc_at k (td_proc td) = Some p"
    "cred_at k (p_ucred p) = Some oc" "proc_ids k (td_proc td) = Some (cred_ids oc)"
    "length (cr_groups oc) = NGROUPS" "0 < cr_ngroups oc" "cr_ngroups oc \<le> NGROUPS"
    "ready (Suc (Suc (Suc (Suc (Suc (Suc (Suc 0))))))) k c [] HC HU HP k1"
proof -
  obtain c k1 where g: "crget k = (c, k1)" by fastforce
  have "ready (Suc (Suc (Suc (Suc (Suc (Suc (Suc 0))))))) k c [] HC HU HP k1"
    by (rule ready_crget [OF _ g]) (use inv in \<open>simp add: eval_nat_numeral\<close>)
  with g that caller [OF inv t] show thesis by metis
qed

lemma find_user:
  assumes "ready (Suc n) k0 c W HC HU HP k"
  obtains u k' where "uifind_k uid k = Some (u, k')" "ready n k0 c ((u, uid) # W) HC HU HP k'"
  using ready_uifind [OF assms, of uid] by (auto simp: runs_def)

section \<open>The calls\<close>

lemma setuid_implements:
  assumes inv: "kern_inv 8 k HC HU HP (\<lambda>_. 0)" and t: "thread_at k t = Some td"
  shows "implements (setuid_spec cf uid) td HC HU HP k (setuid cf t uid k)"
proof (rule start [OF inv t])
  fix p oc c k1 assume g: "crget k = (c, k1)"
    and p: "proc_at k (td_proc td) = Some p" "cred_at k (p_ucred p) = Some oc"
      "proc_ids k (td_proc td) = Some (cred_ids oc)"
    and r: "ready (Suc (Suc (Suc (Suc (Suc (Suc (Suc 0))))))) k c [] HC HU HP k1"
  from find_user [OF r, of uid] obtain uip k2 where u: "uifind_k uid k1 = Some (uip, k2)"
    and r2: "ready (Suc (Suc (Suc (Suc (Suc (Suc 0)))))) k c [(uip, uid)] HC HU HP k2" .
  note simps = setuid_def t g u ready_reads(1) [OF r2] ready_reads(2) [OF r2 p(2)] p(1)
  show ?thesis
  proof (cases "uid \<noteq> cr_ruid oc \<and> uid \<noteq> cr_uid oc \<and> priv_check_cred cf oc PRIV_CRED_SETUID \<noteq> 0")
    case True
    then have "setuid_spec cf uid (cred_ids oc) = Inl (priv_check_cred cf oc PRIV_CRED_SETUID)"
      by (simp add: setuid_spec_def priv_refused)
    then show ?thesis
      using True by (simp add: simps) (rule implements_bind [OF ready_uifree [OF r2]], rule refusal [OF _ p(3)])
  next
    case False
    show ?thesis
      apply (simp add: simps Let_def if_not_P [OF False])
      apply (rule implements_bind, rule ready_crcopy [OF r2 p(1,2)])
      apply (rule implements_bind, erule build_rules, (rule in_first in_second)?)+
      apply (rule implements_bind, erule building_install)
      apply (rule implements_bind, erule installed_uifree)
      apply (erule success [OF _ p(1,3)])
      subgoal premises
        using False unfolding ids_fields [where cr = oc]
        by (cases "cred_ids oc") (auto simp: setuid_spec_def grant_def)
      done
  qed
qed

lemma seteuid_implements:
  assumes inv: "kern_inv 8 k HC HU HP (\<lambda>_. 0)" and t: "thread_at k t = Some td"
  shows "implements (seteuid_spec cf euid) td HC HU HP k (seteuid cf t euid k)"
proof (rule start [OF inv t])
  fix p oc c k1 assume g: "crget k = (c, k1)"
    and p: "proc_at k (td_proc td) = Some p" "cred_at k (p_ucred p) = Some oc"
      "proc_ids k (td_proc td) = Some (cred_ids oc)"
    and len: "length (cr_groups oc) = NGROUPS"
    and r: "ready (Suc (Suc (Suc (Suc (Suc (Suc (Suc 0))))))) k c [] HC HU HP k1"
  from find_user [OF r, of euid] obtain u1 k2 where f1: "uifind_k euid k1 = Some (u1, k2)"
    and r1: "ready (Suc (Suc (Suc (Suc (Suc (Suc 0)))))) k c [(u1, euid)] HC HU HP k2" .
  note simps = seteuid_def t g f1 ready_reads(1) [OF r1] ready_reads(2) [OF r1 p(2)] p(1)
  show ?thesis
  proof (cases "euid \<noteq> cr_ruid oc \<and> euid \<noteq> cr_svuid oc \<and>
      priv_check_cred cf oc PRIV_CRED_SETEUID \<noteq> 0")
    case True
    then have "seteuid_spec cf euid (cred_ids oc) = Inl (priv_check_cred cf oc PRIV_CRED_SETEUID)"
      by (auto simp: seteuid_spec_def egid_def priv_refused)
    with True r1 show ?thesis
      by (simp add: simps) (blast intro: implements_bind ready_uifree refusal p(3))
  next
    case False
    show ?thesis
      apply (simp add: simps Let_def if_not_P [OF False])
      apply (rule implements_bind, rule ready_crcopy [OF r1 p(1,2)])
      apply (rule implements_bind, erule build_rules, (rule in_first in_second)?)+
      apply (rule implements_bind, erule building_install)
      apply (rule implements_bind, erule installed_uifree)
      apply (erule success [OF _ p(1,3)])
      subgoal premises prems
        using False len unfolding ids_fields [where cr = oc]
        by (cases "cred_ids oc") (auto simp: seteuid_spec_def grant_def)
      done
  qed
qed

lemma setgid_implements:
  assumes inv: "kern_inv 8 k HC HU HP (\<lambda>_. 0)" and t: "thread_at k t = Some td"
  shows "implements (setgid_spec cf gid) td HC HU HP k (setgid cf t gid k)"
proof (rule start [OF inv t])
  fix p oc c k1 assume g: "crget k = (c, k1)"
    and p: "proc_at k (td_proc td) = Some p" "cred_at k (p_ucred p) = Some oc"
      "proc_ids k (td_proc td) = Some (cred_ids oc)"
    and len: "length (cr_groups oc) = NGROUPS"
    and r: "ready (Suc (Suc (Suc (Suc (Suc (Suc (Suc 0))))))) k c [] HC HU HP k1"
  note simps = setgid_def t g  ready_reads(1) [OF r] ready_reads(2) [OF r p(2)] p(1)
  show ?thesis
  proof (cases "gid \<noteq> cr_rgid oc \<and> gid \<noteq> cr_groups oc ! 0 \<and>
      priv_check_cred cf oc PRIV_CRED_SETGID \<noteq> 0")
    case True
    then have "setgid_spec cf gid (cred_ids oc) = Inl (priv_check_cred cf oc PRIV_CRED_SETGID)"
      by (auto simp: setgid_spec_def egid_def priv_refused)
    with True r show ?thesis
      by (simp add: simps) (blast intro: implements_bind ready_uifree refusal p(3))
  next
    case False
    show ?thesis
      apply (simp add: simps Let_def if_not_P [OF False])
      apply (rule implements_bind, rule ready_crcopy [OF r p(1,2)])
      apply (rule implements_bind, erule build_rules, (rule in_first in_second)?)+
      apply (rule implements_bind, erule building_install)
      apply (erule success [OF _ p(1,3)])
      subgoal premises prems
        using False len unfolding ids_fields [where cr = oc]
        by (cases "cred_ids oc") (auto simp: setgid_spec_def grant_def egid_def set_egid_def list_update_same_conv)
      done
  qed
qed

lemma setegid_implements:
  assumes inv: "kern_inv 8 k HC HU HP (\<lambda>_. 0)" and t: "thread_at k t = Some td"
  shows "implements (setegid_spec cf gid) td HC HU HP k (setegid cf t gid k)"
proof (rule start [OF inv t])
  fix p oc c k1 assume g: "crget k = (c, k1)"
    and p: "proc_at k (td_proc td) = Some p" "cred_at k (p_ucred p) = Some oc"
      "proc_ids k (td_proc td) = Some (cred_ids oc)"
    and len: "length (cr_groups oc) = NGROUPS"
    and r: "ready (Suc (Suc (Suc (Suc (Suc (Suc (Suc 0))))))) k c [] HC HU HP k1"
  note simps = setegid_def t g  ready_reads(1) [OF r] ready_reads(2) [OF r p(2)] p(1)
  show ?thesis
  proof (cases "gid \<noteq> cr_rgid oc \<and> gid \<noteq> cr_svgid oc \<and>
      priv_check_cred cf oc PRIV_CRED_SETEGID \<noteq> 0")
    case True
    then have "setegid_spec cf gid (cred_ids oc) = Inl (priv_check_cred cf oc PRIV_CRED_SETEGID)"
      by (auto simp: setegid_spec_def egid_def priv_refused)
    with True r show ?thesis
      by (simp add: simps) (blast intro: implements_bind ready_uifree refusal p(3))
  next
    case False
    show ?thesis
      apply (simp add: simps Let_def if_not_P [OF False])
      apply (rule implements_bind, rule ready_crcopy [OF r p(1,2)])
      apply (rule implements_bind, erule build_rules, (rule in_first in_second)?)+
      apply (rule implements_bind, erule building_install)
      apply (erule success [OF _ p(1,3)])
      subgoal premises prems
        using False len unfolding ids_fields [where cr = oc]
        by (cases "cred_ids oc") (auto simp: setegid_spec_def grant_def egid_def set_egid_def list_update_same_conv)
      done
  qed
qed

lemma setresuid_implements:
  assumes inv: "kern_inv 8 k HC HU HP (\<lambda>_. 0)" and t: "thread_at k t = Some td"
  shows "implements (setresuid_spec cf ruid euid suid) td HC HU HP k (setresuid cf t ruid euid suid k)"
proof (rule start [OF inv t])
  fix p oc c k1 assume g: "crget k = (c, k1)"
    and p: "proc_at k (td_proc td) = Some p" "cred_at k (p_ucred p) = Some oc"
      "proc_ids k (td_proc td) = Some (cred_ids oc)"
    and len: "length (cr_groups oc) = NGROUPS"
    and r: "ready (Suc (Suc (Suc (Suc (Suc (Suc (Suc 0))))))) k c [] HC HU HP k1"
  from find_user [OF r, of euid] obtain u1 k2 where f1: "uifind_k euid k1 = Some (u1, k2)"
    and r1: "ready (Suc (Suc (Suc (Suc (Suc (Suc 0)))))) k c [(u1, euid)] HC HU HP k2" .
  from find_user [OF r1, of ruid] obtain u2 k3 where f2: "uifind_k ruid k2 = Some (u2, k3)"
    and r2: "ready (Suc (Suc (Suc (Suc (Suc 0))))) k c [(u2, ruid), (u1, euid)] HC HU HP k3" .
  note simps = setresuid_def t g f1 f2 ready_reads(1) [OF r2] ready_reads(2) [OF r2 p(2)] p(1)
  show ?thesis
  proof (cases "((ruid \<noteq> ID_NONE \<and> ruid \<noteq> cr_ruid oc \<and> ruid \<noteq> cr_svuid oc \<and> ruid \<noteq> cr_uid oc) \<or>
      (euid \<noteq> ID_NONE \<and> euid \<noteq> cr_ruid oc \<and> euid \<noteq> cr_svuid oc \<and> euid \<noteq> cr_uid oc) \<or>
      (suid \<noteq> ID_NONE \<and> suid \<noteq> cr_ruid oc \<and> suid \<noteq> cr_svuid oc \<and> suid \<noteq> cr_uid oc)) \<and>
      priv_check_cred cf oc PRIV_CRED_SETRESUID \<noteq> 0")
    case True
    then have "setresuid_spec cf ruid euid suid (cred_ids oc) = Inl (priv_check_cred cf oc PRIV_CRED_SETRESUID)"
      by (auto simp: setresuid_spec_def egid_def priv_refused)
    with True r2 show ?thesis
      by (simp add: simps) (blast intro: implements_bind ready_uifree refusal p(3))
  next
    case False
    show ?thesis
      apply (simp add: simps Let_def if_not_P [OF False])
      apply (rule implements_bind, rule ready_crcopy [OF r2 p(1,2)])
      apply (rule implements_bind, erule build_rules, (rule in_first in_second)?)+
      apply (rule implements_bind, erule building_install)
      apply (rule implements_bind, erule installed_uifree)
      apply (rule implements_bind, erule installed_uifree)
      apply (erule success [OF _ p(1,3)])
      subgoal premises prems
        using False len unfolding ids_fields [where cr = oc]
        by (cases "cred_ids oc") (auto simp: setresuid_spec_def grant_def unless_none_def)
      done
  qed
qed

lemma setresgid_implements:
  assumes inv: "kern_inv 8 k HC HU HP (\<lambda>_. 0)" and t: "thread_at k t = Some td"
  shows "implements (setresgid_spec cf rgid eg sgid) td HC HU HP k (setresgid cf t rgid eg sgid k)"
proof (rule start [OF inv t])
  fix p oc c k1 assume g: "crget k = (c, k1)"
    and p: "proc_at k (td_proc td) = Some p" "cred_at k (p_ucred p) = Some oc"
      "proc_ids k (td_proc td) = Some (cred_ids oc)"
    and len: "length (cr_groups oc) = NGROUPS"
    and r: "ready (Suc (Suc (Suc (Suc (Suc (Suc (Suc 0))))))) k c [] HC HU HP k1"
  note simps = setresgid_def t g  ready_reads(1) [OF r] ready_reads(2) [OF r p(2)] p(1)
  show ?thesis
  proof (cases "((rgid \<noteq> ID_NONE \<and> rgid \<noteq> cr_rgid oc \<and> rgid \<noteq> cr_svgid oc \<and> rgid \<noteq> cr_groups oc ! 0) \<or>
      (eg \<noteq> ID_NONE \<and> eg \<noteq> cr_rgid oc \<and> eg \<noteq> cr_svgid oc \<and> eg \<noteq> cr_groups oc ! 0) \<or>
      (sgid \<noteq> ID_NONE \<and> sgid \<noteq> cr_rgid oc \<and> sgid \<noteq> cr_svgid oc \<and> sgid \<noteq> cr_groups oc ! 0)) \<and>
      priv_check_cred cf oc PRIV_CRED_SETRESGID \<noteq> 0")
    case True
    then have "setresgid_spec cf rgid eg sgid (cred_ids oc) = Inl (priv_check_cred cf oc PRIV_CRED_SETRESGID)"
      by (auto simp: setresgid_spec_def egid_def priv_refused)
    with True r show ?thesis
      by (simp add: simps) (blast intro: implements_bind ready_uifree refusal p(3))
  next
    case False
    show ?thesis
      apply (simp add: simps Let_def if_not_P [OF False])
      apply (rule implements_bind, rule ready_crcopy [OF r p(1,2)])
      apply (rule implements_bind, erule build_rules, (rule in_first in_second)?)+
      apply (rule implements_bind, erule building_install)
      apply (erule success [OF _ p(1,3)])
      subgoal premises prems
        using False len unfolding ids_fields [where cr = oc]
        by (cases "cred_ids oc") (auto simp: setresgid_spec_def grant_def unless_none_def egid_def set_egid_def list_update_same_conv)
      done
  qed
qed

lemma setreuid_implements:
  assumes inv: "kern_inv 8 k HC HU HP (\<lambda>_. 0)" and t: "thread_at k t = Some td"
  shows "implements (setreuid_spec cf ruid euid) td HC HU HP k (setreuid cf t ruid euid k)"
proof (rule start [OF inv t])
  fix p oc c k1 assume g: "crget k = (c, k1)"
    and p: "proc_at k (td_proc td) = Some p" "cred_at k (p_ucred p) = Some oc"
      "proc_ids k (td_proc td) = Some (cred_ids oc)"
    and len: "length (cr_groups oc) = NGROUPS"
    and r: "ready (Suc (Suc (Suc (Suc (Suc (Suc (Suc 0))))))) k c [] HC HU HP k1"
  from find_user [OF r, of euid] obtain u1 k2 where f1: "uifind_k euid k1 = Some (u1, k2)"
    and r1: "ready (Suc (Suc (Suc (Suc (Suc (Suc 0)))))) k c [(u1, euid)] HC HU HP k2" .
  from find_user [OF r1, of ruid] obtain u2 k3 where f2: "uifind_k ruid k2 = Some (u2, k3)"
    and r2: "ready (Suc (Suc (Suc (Suc (Suc 0))))) k c [(u2, ruid), (u1, euid)] HC HU HP k3" .
  note simps = setreuid_def t g f1 f2 ready_reads(1) [OF r2] ready_reads(2) [OF r2 p(2)] p(1)
  show ?thesis
  proof (cases "((ruid \<noteq> ID_NONE \<and> ruid \<noteq> cr_ruid oc \<and> ruid \<noteq> cr_svuid oc) \<or>
      (euid \<noteq> ID_NONE \<and> euid \<noteq> cr_uid oc \<and> euid \<noteq> cr_ruid oc \<and> euid \<noteq> cr_svuid oc)) \<and>
      priv_check_cred cf oc PRIV_CRED_SETREUID \<noteq> 0")
    case True
    then have "setreuid_spec cf ruid euid (cred_ids oc) = Inl (priv_check_cred cf oc PRIV_CRED_SETREUID)"
      by (auto simp: setreuid_spec_def egid_def priv_refused)
    with True r2 show ?thesis
      by (simp add: simps) (blast intro: implements_bind ready_uifree refusal p(3))
  next
    case False
    show ?thesis
      apply (simp add: simps Let_def if_not_P [OF False])
      apply (rule implements_bind, rule ready_crcopy [OF r2 p(1,2)])
      apply (rule implements_bind, erule build_rules, (rule in_first in_second)?)+
      apply (rule implements_bind, erule building_read, erule conjE)
      apply (rule implements_bind, erule build_rules)
      apply (rule implements_bind, erule building_install)
      apply (rule implements_bind, erule installed_uifree)
      apply (rule implements_bind, erule installed_uifree)
      apply (erule success [OF _ p(1,3)])
      subgoal premises prems for x y z new
        using False len unfolding ids_fields [where cr = oc] ids_fields [where cr = new] prems(4)
        by (cases "cred_ids oc") (auto simp: setreuid_spec_def grant_def unless_none_def Let_def)
      done
  qed
qed

lemma setregid_implements:
  assumes inv: "kern_inv 8 k HC HU HP (\<lambda>_. 0)" and t: "thread_at k t = Some td"
  shows "implements (setregid_spec cf rgid eg) td HC HU HP k (setregid cf t rgid eg k)"
proof (rule start [OF inv t])
  fix p oc c k1 assume g: "crget k = (c, k1)"
    and p: "proc_at k (td_proc td) = Some p" "cred_at k (p_ucred p) = Some oc"
      "proc_ids k (td_proc td) = Some (cred_ids oc)"
    and len: "length (cr_groups oc) = NGROUPS"
    and r: "ready (Suc (Suc (Suc (Suc (Suc (Suc (Suc 0))))))) k c [] HC HU HP k1"
  note simps = setregid_def t g  ready_reads(1) [OF r] ready_reads(2) [OF r p(2)] p(1)
  show ?thesis
  proof (cases "((rgid \<noteq> ID_NONE \<and> rgid \<noteq> cr_rgid oc \<and> rgid \<noteq> cr_svgid oc) \<or>
      (eg \<noteq> ID_NONE \<and> eg \<noteq> cr_groups oc ! 0 \<and> eg \<noteq> cr_rgid oc \<and> eg \<noteq> cr_svgid oc)) \<and>
      priv_check_cred cf oc PRIV_CRED_SETREGID \<noteq> 0")
    case True
    then have "setregid_spec cf rgid eg (cred_ids oc) = Inl (priv_check_cred cf oc PRIV_CRED_SETREGID)"
      by (auto simp: setregid_spec_def egid_def priv_refused)
    with True r show ?thesis
      by (simp add: simps) (blast intro: implements_bind ready_uifree refusal p(3))
  next
    case False
    show ?thesis
      apply (simp add: simps Let_def if_not_P [OF False])
      apply (rule implements_bind, rule ready_crcopy [OF r p(1,2)])
      apply (rule implements_bind, erule build_rules, (rule in_first in_second)?)+
      apply (rule implements_bind, erule building_read, erule conjE)
      apply (rule implements_bind, erule build_rules)
      apply (rule implements_bind, erule building_install)
      apply (erule success [OF _ p(1,3)])
      subgoal premises prems for x y z new
        using False len unfolding ids_fields [where cr = oc] ids_fields [where cr = new] prems(4)
        by (cases "cred_ids oc") (auto simp: setregid_spec_def grant_def unless_none_def egid_def set_egid_def list_update_same_conv Let_def)
      done
  qed
qed


lemma building_groups:
  assumes "building n k0 i c new b W HC HU HP k" and "m \<le> NGROUPS" and "m \<le> length gs"
  shows "runs (put_groups c m gs k) (building n k0 i c
    (if m = 0 then new\<lparr>cr_ngroups := 1\<rparr>
     else new\<lparr>cr_groups := take m gs @ drop m (cr_groups new), cr_ngroups := m\<rparr>) b W HC HU HP)"
proof -
  let ?f = "\<lambda>cr. if m = 0 then cr\<lparr>cr_ngroups := 1\<rparr>
     else cr\<lparr>cr_groups := take m gs @ drop m (cr_groups cr), cr_ngroups := m\<rparr>"
  have "plain_change ?f"
    unfolding plain_change_def using assms(2,3) by (auto simp: cred_ids_def)
  then show ?thesis
    by (rule building_plain [OF assms(1), where op = "put_groups c m gs" and f = ?f, simplified])
       (simp add: put_groups_def)
qed

lemma kern_setgroups_implements:
  assumes inv: "kern_inv 8 k HC HU HP (\<lambda>_. 0)" and t: "thread_at k t = Some td"
    and gs: "ngrp \<le> NGROUPS \<Longrightarrow> ngrp \<le> length groups"
  shows "implements (setgroups_spec cf ngrp groups) td HC HU HP k (kern_setgroups cf t ngrp groups k)"
proof (rule start [OF inv t])
  fix p oc c k1 assume g: "crget k = (c, k1)"
    and p: "proc_at k (td_proc td) = Some p" "cred_at k (p_ucred p) = Some oc"
      "proc_ids k (td_proc td) = Some (cred_ids oc)"
    and r: "ready (Suc (Suc (Suc (Suc (Suc (Suc (Suc 0))))))) k c [] HC HU HP k1"
  note simps = kern_setgroups_def t g ready_reads(1) [OF r] ready_reads(2) [OF r p(2)] p(1)
  consider "NGROUPS < ngrp" | "ngrp \<le> NGROUPS" "priv_check_cred cf oc PRIV_CRED_SETGROUPS \<noteq> 0"
    | "ngrp \<le> NGROUPS" "priv_check_cred cf oc PRIV_CRED_SETGROUPS = 0" by linarith
  then show ?thesis
  proof cases
    case 1
    have "set_result (td_proc td) (Inl EINVAL) HC k EINVAL k" by (rule set_result_refused) simp_all
    then show ?thesis
      using 1 p(3) kern_inv_mono [OF inv, of 0] by (simp add: simps implements_def setgroups_spec_def)
  next
    case 2
    then have "setgroups_spec cf ngrp groups (cred_ids oc) = Inl (priv_check_cred cf oc PRIV_CRED_SETGROUPS)"
      by (simp add: setgroups_spec_def priv_refused)
    with 2 show ?thesis using refusal [OF r p(3)] by (simp add: simps)
  next
    case 3
    show ?thesis
      apply (simp add: simps Let_def 3 not_less [THEN iffD2, OF 3(1)])
      apply (rule implements_bind, rule ready_crcopy [OF r p(1,2)])
      apply (rule implements_bind, erule building_groups [OF _ 3(1) gs [OF 3(1)]])
      apply (rule implements_bind, erule building_sugid)
      apply (rule implements_bind, erule building_install)
      apply (erule success [OF _ p(1,3)])
      using 3 by (simp add: setgroups_spec_def)
  qed
qed

text \<open>\<^verbatim>\<open>copyin\<close> either fails or delivers as many group ids as were asked for.\<close>

lemma setgroups_implements:
  assumes inv: "kern_inv 8 k HC HU HP (\<lambda>_. 0)" and t: "thread_at k t = Some td"
    and copyin: "\<And>gs. copyin n = Inr gs \<Longrightarrow> length gs = n"
  shows "implements (\<lambda>old. if NGROUPS < n then Inl EINVAL
      else case copyin n of Inl e \<Rightarrow> Inl e | Inr gs \<Rightarrow> setgroups_spec cf n gs old)
    td HC HU HP k (setgroups cf copyin t n k)"
proof -
  obtain old where old: "proc_ids k (td_proc td) = Some old" using caller [OF inv t] by metis
  have "set_result (td_proc td) (Inl e) HC k e k" for e by (rule set_result_refused) simp_all
  then have stay: "implements (\<lambda>_. Inl e) td HC HU HP k (Some (e, k))" for e
    using old kern_inv_mono [OF inv, of 0] by (simp add: implements_def)
  show ?thesis
  proof (cases "NGROUPS < n")
    case True
    then show ?thesis using stay by (simp add: setgroups_def)
  next
    case False
    then show ?thesis
      using stay kern_setgroups_implements [OF inv t, of n _ cf] copyin
      by (cases "copyin n") (simp_all add: setgroups_def)
  qed
qed

end
