(* ===== verification/CredSystem.thy ===== *)
theory CredSystem
  imports SetIdsSpec
begin

text \<open>
  Sequences of credential system calls by the threads of a system, in any order: the
  invariant holds along every run, no call faults, and what the ids of a process can become
  is settled on the specification and carried over.
\<close>

section \<open>The calls as a transition system\<close>

datatype idcall =
    Setuid uid | Seteuid uid | Setgid gid | Setegid gid | Setgroups nat "gid list"
  | Setreuid uid uid | Setregid gid gid | Setresuid uid uid uid | Setresgid gid gid gid

text \<open>A group vector that \<^verbatim>\<open>copyin\<close> delivered has the length that was asked for.\<close>

fun wf_call :: "idcall \<Rightarrow> bool" where
  "wf_call (Setgroups n gs) = (n = length gs)"
| "wf_call _ = True"

fun do_call :: "sysconf \<Rightarrow> nat \<Rightarrow> idcall \<Rightarrow> kern \<Rightarrow> (errno \<times> kern) option" where
  "do_call cf t (Setuid u) k = setuid cf t u k"
| "do_call cf t (Seteuid u) k = seteuid cf t u k"
| "do_call cf t (Setgid g) k = setgid cf t g k"
| "do_call cf t (Setegid g) k = setegid cf t g k"
| "do_call cf t (Setgroups n gs) k = kern_setgroups cf t n gs k"
| "do_call cf t (Setreuid r e) k = setreuid cf t r e k"
| "do_call cf t (Setregid r e) k = setregid cf t r e k"
| "do_call cf t (Setresuid r e s) k = setresuid cf t r e s k"
| "do_call cf t (Setresgid r e s) k = setresgid cf t r e s k"

fun call_spec :: "sysconf \<Rightarrow> idcall \<Rightarrow> ucred \<Rightarrow> errno + ucred \<times> bool" where
  "call_spec cf (Setuid u) = setuid_spec cf u"
| "call_spec cf (Seteuid u) = seteuid_spec cf u"
| "call_spec cf (Setgid g) = setgid_spec cf g"
| "call_spec cf (Setegid g) = setegid_spec cf g"
| "call_spec cf (Setgroups n gs) = setgroups_spec cf n gs"
| "call_spec cf (Setreuid r e) = setreuid_spec cf r e"
| "call_spec cf (Setregid r e) = setregid_spec cf r e"
| "call_spec cf (Setresuid r e s) = setresuid_spec cf r e s"
| "call_spec cf (Setresgid r e s) = setresgid_spec cf r e s"

lemma do_call_implements:
  assumes "kern_inv 8 k HC HU HP (\<lambda>_. 0)" and "thread_at k t = Some td" and "wf_call c"
  shows "implements (call_spec cf c) td HC HU HP k (do_call cf t c k)"
  using assms(3) setuid_implements [OF assms(1,2)] seteuid_implements [OF assms(1,2)]
    setgid_implements [OF assms(1,2)] setegid_implements [OF assms(1,2)]
    kern_setgroups_implements [OF assms(1,2)] setreuid_implements [OF assms(1,2)]
    setregid_implements [OF assms(1,2)] setresuid_implements [OF assms(1,2)]
    setresgid_implements [OF assms(1,2)]
  by (cases c) simp_all

text \<open>
  Besides making a call, a thread picks up the credential of its process when it enters the
  kernel (\<^verbatim>\<open>cred_update_thread\<close>). A step is possible while eight more references to
  every object fit into its counter.
\<close>

definition has_room :: "kern \<Rightarrow> addr multiset \<Rightarrow> addr multiset \<Rightarrow> addr multiset \<Rightarrow> bool" where
  "has_room k HC HU HP \<longleftrightarrow>
     room 8 (HC + cred_holders k) \<and> room 8 (HU + uid_refs k) \<and> room 8 (HP + prison_refs k)"

inductive step ::
  "sysconf \<Rightarrow> addr multiset \<Rightarrow> addr multiset \<Rightarrow> addr multiset \<Rightarrow> kern \<Rightarrow> kern \<Rightarrow> bool"
  for cf HC HU HP where
  call: "has_room k HC HU HP \<Longrightarrow> thread_at k t = Some td \<Longrightarrow> wf_call c \<Longrightarrow>
    do_call cf t c k = Some (e, k') \<Longrightarrow> step cf HC HU HP k k'"
| enter: "has_room k HC HU HP \<Longrightarrow> thread_at k t = Some td \<Longrightarrow>
    cred_update_thread t k = Some k' \<Longrightarrow> step cf HC HU HP k k'"

abbreviation steps ::
  "sysconf \<Rightarrow> addr multiset \<Rightarrow> addr multiset \<Rightarrow> addr multiset \<Rightarrow> kern \<Rightarrow> kern \<Rightarrow> bool" where
  "steps cf HC HU HP \<equiv> (step cf HC HU HP)\<^sup>*\<^sup>*"

abbreviation good :: "addr multiset \<Rightarrow> addr multiset \<Rightarrow> addr multiset \<Rightarrow> kern \<Rightarrow> bool" where
  "good HC HU HP k \<equiv> kern_inv 0 k HC HU HP (\<lambda>_. 0)"

lemma good_room: "good HC HU HP k \<Longrightarrow> has_room k HC HU HP \<Longrightarrow> kern_inv 8 k HC HU HP (\<lambda>_. 0)"
  by (simp add: kern_inv_def has_room_def)

section \<open>Entering the kernel\<close>

lemma thread_at_length: "thread_at k t = Some td \<longleftrightarrow> t < length (k_threads k) \<and> k_threads k ! t = td"
  by (auto simp: thread_at_def)

lemma holders_thread_put:
  assumes "thread_at k t = Some td"
  shows "cred_holders (thread_put t td' k) + opt_mset (td_ucred td) =
    cred_holders k + opt_mset (td_ucred td')"
  using sum_list_update_mset [of t "k_threads k" "\<lambda>t. opt_mset (td_ucred t)" td'] assms
  by (simp add: thread_at_length cred_holders_def thread_creds_def thread_put_def ac_simps)

lemma thread_put_frame [simp]:
  "k_ui (thread_put t td k) = k_ui k" "k_jail (thread_put t td k) = k_jail k"
  "k_procs (thread_put t td k) = k_procs k" "initproc (thread_put t td k) = initproc k"
  "cred_at (thread_put t td k) = cred_at k" "uid_refs (thread_put t td k) = uid_refs k"
  "prison_refs (thread_put t td k) = prison_refs k" "ruid_procs (thread_put t td k) = ruid_procs k"
  by (simp_all add: thread_put_def fun_eq_iff cred_at_def uid_refs_def prison_refs_def ruid_procs_def)

text \<open>The caller's reference to \<open>c\<close> becomes the thread's; the thread's old one the caller's.\<close>

lemma kern_inv_thread_put:
  assumes inv: "kern_inv n k (add_mset c HC) HU HP D" and td: "thread_at k t = Some td"
    and c: "cred_at k c = Some cr" "cred_full cr"
  shows "kern_inv n (thread_put t (td\<lparr>td_ucred := Some c\<rparr>) k) (opt_mset (td_ucred td) + HC) HU HP D"
proof -
  let ?k = "thread_put t (td\<lparr>td_ucred := Some c\<rparr>) k"
  have h: "cred_holders ?k + opt_mset (td_ucred td) = add_mset c (cred_holders k)"
    using holders_thread_put [OF td, of "td\<lparr>td_ucred := Some c\<rparr>"] by simp
  then have hold: "opt_mset (td_ucred td) + HC + cred_holders ?k = add_mset c HC + cred_holders k"
    by (simp add: ac_simps)
  have "cr_refs ?k = cr_refs k" by (simp add: fun_eq_iff cr_refs_def)
  then have cc: "cred_counted ?k (opt_mset (td_ucred td) + HC)"
    using inv unfolding kern_inv_def cred_counted_def backed_def hold by simp
  have "d = c \<or> d \<in># cred_holders k" if "d \<in># cred_holders ?k" for d
    using that h by (metis insert_iff set_mset_add_mset_insert union_iff)
  then have "cred_full v" if "d \<in># cred_holders ?k" "cred_at k d = Some v" for d v
    using that c inv unfolding kern_inv_def creds_wf_def by (metis option.inject)
  moreover have "td_proc x < length (k_procs k)" if "x \<in> set (k_threads ?k)" for x
    using that inv td set_update_subset_insert [of "k_threads k" t "td\<lparr>td_ucred := Some c\<rparr>"]
    by (auto simp: kern_inv_def creds_wf_def thread_put_def thread_at_length)
  ultimately have "creds_wf ?k"
    using inv by (simp add: kern_inv_def creds_wf_def)
  moreover have "proccnt_ok ?k D" using inv by (simp add: kern_inv_def proccnt_ok_def)
  moreover have "room n (opt_mset (td_ucred td) + HC + cred_holders ?k)"
    unfolding hold using inv unfolding kern_inv_def by blast
  ultimately show ?thesis using inv cc by (simp add: kern_inv_def)
qed

lemma crfree_ids:
  assumes "kern_inv n k (add_mset c HC) HU HP D"
  shows "runs (crfree c k) (\<lambda>k'. kern_inv n k' HC HU HP D \<and> k_procs k' = k_procs k \<and>
    k_threads k' = k_threads k \<and> (\<forall>d. d \<in># HC + cred_holders k \<longrightarrow> ids_at k' d = ids_at k d))"
proof (rule runs_weaken [OF crfree_runs [OF assms]], intro conjI allI impI)
  fix k' d assume k': "kern_inv n k' HC HU HP D \<and> frames c k k' \<and> (\<not> exclusive k HC c \<longrightarrow>
    (\<exists>cr r. cred_at k c = Some cr \<and> cred_at k' c = Some (cr\<lparr>cr_ref := r\<rparr>)))"
    and d: "d \<in># HC + cred_holders k"
  show "ids_at k' d = ids_at k d"
  proof (cases "d = c")
    case True
    then have "\<not> exclusive k HC c" using d by (simp add: exclusive_def)
    then show ?thesis using k' True by (auto simp: ids_at_def)
  next
    case False
    then show ?thesis using k' by (simp add: ids_at_def frames_def)
  qed
qed (simp_all add: frames_def)


lemma cred_update_thread_runs:
  assumes inv: "kern_inv (Suc n) k HC HU HP (\<lambda>_. 0)" and t: "thread_at k t = Some td"
  shows "runs (cred_update_thread t k) (\<lambda>k'. kern_inv n k' HC HU HP (\<lambda>_. 0) \<and>
    k_procs k' = k_procs k \<and> (\<forall>i. proc_ids k' i = proc_ids k i) \<and>
    thread_ids k' t = proc_ids k (td_proc td))"
proof -
  obtain p oc where p: "proc_at k (td_proc td) = Some p" "cred_at k (p_ucred p) = Some oc"
    using caller [OF inv t] by metis
  let ?c = "p_ucred p"
  have held: "?c \<in># cred_holders k" using p(1) proc_holder by (auto simp: proc_at_length)
  then have full: "cred_full oc" using inv p(2) by (auto simp: kern_inv_def creds_wf_def)
  obtain k1 r where k1: "crhold ?c k = Some k1" "kern_inv n k1 (add_mset ?c HC) HU HP (\<lambda>_. 0)"
      "frames ?c k k1" "cred_at k1 ?c = Some (oc\<lparr>cr_ref := r\<rparr>)"
    using crhold_runs [OF inv, of ?c] held p(2) by (auto simp: runs_def)
  define k2 where "k2 = thread_put t (td\<lparr>td_ucred := Some ?c\<rparr>) k1"
  have t1: "thread_at k1 t = Some td" using t k1(3) by (simp add: thread_at_length frames_def)
  have inv2: "kern_inv n k2 (opt_mset (td_ucred td) + HC) HU HP (\<lambda>_. 0)"
    unfolding k2_def by (rule kern_inv_thread_put [OF k1(2) t1 k1(4)]) (use full in \<open>simp add: cred_full_def\<close>)
  have ids1: "ids_at k2 d = ids_at k d" for d
    using k1(3,4) p(2) by (cases "d = ?c") (simp_all add: ids_at_def k2_def frames_def)
  have fr: "k_procs k2 = k_procs k" using k1(3) by (simp add: k2_def frames_def)
  have th: "thread_at k2 t = Some (td\<lparr>td_ucred := Some ?c\<rparr>)"
    using t1 by (simp add: thread_at_length k2_def thread_put_def)
  have "runs (with_null crfree (td_ucred td) k2) (\<lambda>k'. kern_inv n k' HC HU HP (\<lambda>_. 0) \<and>
      k_procs k' = k_procs k2 \<and> k_threads k' = k_threads k2 \<and>
      (\<forall>d. d \<in># HC + cred_holders k2 \<longrightarrow> ids_at k' d = ids_at k2 d))"
  proof (cases "td_ucred td")
    case None
    then show ?thesis using inv2 by (simp add: with_null_def)
  next
    case (Some old)
    then have "kern_inv n k2 (add_mset old HC) HU HP (\<lambda>_. 0)" using inv2 by simp
    from crfree_ids [OF this] show ?thesis unfolding Some with_null_def option.case .
  qed
  then obtain k' where k': "with_null crfree (td_ucred td) k2 = Some k'" "kern_inv n k' HC HU HP (\<lambda>_. 0)"
      "k_procs k' = k_procs k2" "k_threads k' = k_threads k2"
      "\<And>d. d \<in># HC + cred_holders k2 \<Longrightarrow> ids_at k' d = ids_at k2 d"
    by (auto simp: runs_def)
  have "proc_ids k' i = proc_ids k i" for i
    using k'(3,5) fr ids1 proc_holder [of _ k2]
    by (auto simp: proc_ids_def proc_at_def intro!: Option.bind_cong)
  moreover have "thread_ids k' t = proc_ids k (td_proc td)"
  proof -
    have "?c \<in># HC + cred_holders k2"
      using th thread_holder [of "k_threads k2 ! t" k2 ?c] nth_mem [of t "k_threads k2"]
      by (simp add: thread_at_length)
    moreover have "thread_at k' t = thread_at k2 t" using k'(4) by (simp add: thread_at_def)
    ultimately show ?thesis using k'(5) ids1 p(1) th by (simp add: thread_ids_def proc_ids_def)
  qed
  moreover have "cred_update_thread t k = Some k'"
    using k'(1) t p(1) k1(1) by (simp add: cred_update_thread_def k2_def)
  ultimately show ?thesis using k'(2,3) fr by simp
qed


section \<open>Runs\<close>

lemma step_good:
  assumes "step cf HC HU HP k k'" and "good HC HU HP k"
  shows "good HC HU HP k'"
  using assms
proof cases
  case (call t td c e)
  then show ?thesis
    using do_call_implements [OF good_room [OF assms(2) call(1)] call(2,3), of cf] by (auto simp: implements_def)
next
  case (enter t td)
  have "kern_inv (Suc 7) k HC HU HP (\<lambda>_. 0)" using good_room [OF assms(2) enter(1)] by simp
  from cred_update_thread_runs [OF this enter(2)] show ?thesis
    using enter(3) kern_inv_mono [of 7 k' HC HU HP _ 0] by (auto simp: runs_def)
qed

lemma steps_good: "steps cf HC HU HP k k' \<Longrightarrow> good HC HU HP k \<Longrightarrow> good HC HU HP k'"
  by (induction rule: rtranclp_induct) (auto intro: step_good)

text \<open>What one step does to the ids of a process.\<close>

lemma step_ids:
  assumes "step cf HC HU HP k k'" and good: "good HC HU HP k" and "proc_at k i = Some p"
  obtains (same) "proc_ids k' i = proc_ids k i" "proc_at k' i = proc_at k i"
  | (changed) c old new taint q where "wf_call c" "proc_ids k i = Some old" "call_spec cf c old = Inr (new, taint)"
      "proc_ids k' i = Some new" "proc_at k' i = Some q" "tainted taint p q"
  using assms(1)
proof cases
  case (call t td c e)
  from do_call_implements [OF good_room [OF good call(1)] call(2,3), of cf] call(4) obtain old
    where old: "proc_ids k (td_proc td) = Some old" "set_result (td_proc td) (call_spec cf c old) HC k e k'"
    by (auto simp: implements_def)
  show thesis
  proof (cases "i = td_proc td")
    case True
    then show thesis
      using old assms(3) call(3) same changed by (cases "call_spec cf c old") (auto simp: set_result_def)
  next
    case False
    then show thesis using old same by (auto simp: set_result_def)
  qed
next
  case (enter t td)
  have "kern_inv (Suc 7) k HC HU HP (\<lambda>_. 0)" using good_room [OF good enter(1)] by simp
  from cred_update_thread_runs [OF this enter(2)] show thesis
    using enter(3) same by (auto simp: runs_def proc_at_def)
qed

section \<open>What an unprivileged process can become\<close>

text \<open>
  \<open>within new old\<close>: every user and group id of \<open>new\<close> is one of \<open>old\<close>, and the supplementary
  groups, the prison and the audit state are the same.
\<close>

definition uids :: "ucred \<Rightarrow> uid set" where
  "uids cr = {cr_uid cr, cr_ruid cr, cr_svuid cr}"

definition gids :: "ucred \<Rightarrow> gid set" where
  "gids cr = {egid cr, cr_rgid cr, cr_svgid cr}"

definition within :: "ucred \<Rightarrow> ucred \<Rightarrow> bool" where
  "within new old \<longleftrightarrow> uids new \<subseteq> uids old \<and> gids new \<subseteq> gids old \<and>
     cr_ngroups new = cr_ngroups old \<and> length (cr_groups new) = length (cr_groups old) \<and>
     tl (cr_groups new) = tl (cr_groups old) \<and>
     cr_prison new = cr_prison old \<and> cr_audit new = cr_audit old"

lemma within_refl [simp]: "within cr cr"
  by (simp add: within_def)

lemma within_trans: "within a b \<Longrightarrow> within b c \<Longrightarrow> within a c"
  by (auto simp: within_def)

definition unpriv :: "sysconf \<Rightarrow> ucred \<Rightarrow> bool" where
  "unpriv cf cr \<longleftrightarrow> \<not> suser_enabled cf \<or> 0 \<notin> uids cr"

lemma unpriv_within: "unpriv cf old \<Longrightarrow> within new old \<Longrightarrow> unpriv cf new"
  by (auto simp: unpriv_def within_def)

lemma unpriv_refused: "unpriv cf cr \<Longrightarrow> priv_check_cred cf cr p \<noteq> 0"
  by (auto simp: unpriv_def uids_def priv_check_cred_def Let_def)

lemma tl_update [simp]: "tl (xs[0 := x]) = tl xs"
  by (cases xs) simp_all

lemma unless_none_in: "a = ID_NONE \<or> a \<in> S \<Longrightarrow> b \<in> S \<Longrightarrow> unless_none a b \<in> S"
  by (auto simp: unless_none_def)

lemma within_uids:
  assumes "e \<in> uids cr" and "r \<in> uids cr" and "v \<in> uids cr"
  shows "within (cr\<lparr>cr_uid := e, cr_ruid := r, cr_svuid := v\<rparr>) cr"
  using assms by (auto simp: within_def uids_def gids_def egid_def)

lemma within_gids:
  assumes "e \<in> gids cr" and "r \<in> gids cr" and "v \<in> gids cr" and "cr_groups cr \<noteq> []"
  shows "within (set_egid e (cr\<lparr>cr_rgid := r, cr_svgid := v\<rparr>)) cr"
  using assms by (auto simp: within_def uids_def gids_def egid_def set_egid_def)

text \<open>Each call sets three ids to old ones, when it needs no privilege.\<close>

lemma granted: "(if P then grant cr new' else Inl e) = Inr (new, taint) \<longleftrightarrow> P \<and> new = new' \<and> taint = (new' \<noteq> cr)"
  by (auto simp: grant_def)

lemma own_ids [simp]:
  "cr_uid cr \<in> uids cr" "cr_ruid cr \<in> uids cr" "cr_svuid cr \<in> uids cr"
  "egid cr \<in> gids cr" "cr_rgid cr \<in> gids cr" "cr_svgid cr \<in> gids cr"
  by (simp_all add: uids_def gids_def)

lemma within_setuid:
  assumes "\<And>p. priv_check_cred cf cr p \<noteq> 0" and "setuid_spec cf a cr = Inr (new, taint)"
  shows "within new cr"
proof -
  have "a \<in> uids cr" "new = cr\<lparr>cr_uid := a, cr_ruid := a, cr_svuid := a\<rparr>"
    using assms unfolding setuid_spec_def granted by auto
  then show ?thesis by (simp only: within_uids)
qed

lemma within_seteuid:
  assumes "\<And>p. priv_check_cred cf cr p \<noteq> 0" and "seteuid_spec cf a cr = Inr (new, taint)"
  shows "within new cr"
proof -
  have "a \<in> uids cr" "new = cr\<lparr>cr_uid := a, cr_ruid := cr_ruid cr, cr_svuid := cr_svuid cr\<rparr>"
    using assms unfolding seteuid_spec_def granted by auto
  then show ?thesis by (simp only: within_uids own_ids)
qed

lemma within_setreuid:
  assumes "\<And>p. priv_check_cred cf cr p \<noteq> 0" and "setreuid_spec cf a b cr = Inr (new, taint)"
  shows "within new cr"
proof -
  let ?e = "unless_none b (cr_uid cr)" and ?r = "unless_none a (cr_ruid cr)"
  have ab: "a \<in> {ID_NONE, cr_ruid cr, cr_svuid cr}" "b \<in> {ID_NONE, cr_uid cr, cr_ruid cr, cr_svuid cr}"
    and new: "new = cr\<lparr>cr_uid := ?e, cr_ruid := ?r,
      cr_svuid := if a \<noteq> ID_NONE \<or> ?e \<noteq> ?r then ?e else cr_svuid cr\<rparr>"
    using assms unfolding setreuid_spec_def Let_def granted by simp_all
  have "?e \<in> uids cr" "?r \<in> uids cr" using ab by (intro unless_none_in; auto)+
  then show ?thesis unfolding new by (intro within_uids) simp_all
qed

lemma within_setresuid:
  assumes "\<And>p. priv_check_cred cf cr p \<noteq> 0" and "setresuid_spec cf a b d cr = Inr (new, taint)"
  shows "within new cr"
proof -
  have ab: "{a, b, d} \<subseteq> {ID_NONE, cr_ruid cr, cr_svuid cr, cr_uid cr}"
    and new: "new = cr\<lparr>cr_uid := unless_none b (cr_uid cr), cr_ruid := unless_none a (cr_ruid cr),
      cr_svuid := unless_none d (cr_svuid cr)\<rparr>"
    using assms unfolding setresuid_spec_def granted by simp_all
  have "x = ID_NONE \<or> x \<in> uids cr" if "x \<in> {a, b, d}" for x using subsetD [OF ab that] by auto
  then show ?thesis unfolding new by (intro within_uids unless_none_in) simp_all
qed

lemma within_setgid:
  assumes "\<And>p. priv_check_cred cf cr p \<noteq> 0" and "setgid_spec cf a cr = Inr (new, taint)"
    and "cr_groups cr \<noteq> []"
  shows "within new cr"
proof -
  have "a \<in> gids cr" "new = set_egid a (cr\<lparr>cr_rgid := a, cr_svgid := a\<rparr>)"
    using assms unfolding setgid_spec_def granted by auto
  then show ?thesis using assms(3) by (metis within_gids)
qed

lemma within_setegid:
  assumes "\<And>p. priv_check_cred cf cr p \<noteq> 0" and "setegid_spec cf a cr = Inr (new, taint)"
    and "cr_groups cr \<noteq> []"
  shows "within new cr"
proof -
  have "a \<in> gids cr" "new = set_egid a (cr\<lparr>cr_rgid := cr_rgid cr, cr_svgid := cr_svgid cr\<rparr>)"
    using assms unfolding setegid_spec_def granted by auto
  then show ?thesis using assms(3) by (metis within_gids own_ids(5,6))
qed

lemma within_setregid:
  assumes "\<And>p. priv_check_cred cf cr p \<noteq> 0" and "setregid_spec cf a b cr = Inr (new, taint)"
    and "cr_groups cr \<noteq> []"
  shows "within new cr"
proof -
  let ?e = "unless_none b (egid cr)" and ?r = "unless_none a (cr_rgid cr)"
  have ab: "a \<in> {ID_NONE, cr_rgid cr, cr_svgid cr}" "b \<in> {ID_NONE, egid cr, cr_rgid cr, cr_svgid cr}"
    and new: "new = set_egid ?e (cr\<lparr>cr_rgid := ?r,
      cr_svgid := if a \<noteq> ID_NONE \<or> ?e \<noteq> ?r then ?e else cr_svgid cr\<rparr>)"
    using assms unfolding setregid_spec_def Let_def granted by simp_all
  have "?e \<in> gids cr" "?r \<in> gids cr" using ab by (intro unless_none_in; auto)+
  then show ?thesis unfolding new using assms(3) by (intro within_gids) simp_all
qed

lemma within_setresgid:
  assumes "\<And>p. priv_check_cred cf cr p \<noteq> 0" and "setresgid_spec cf a b d cr = Inr (new, taint)"
    and "cr_groups cr \<noteq> []"
  shows "within new cr"
proof -
  have ab: "{a, b, d} \<subseteq> {ID_NONE, cr_rgid cr, cr_svgid cr, egid cr}"
    and new: "new = set_egid (unless_none b (egid cr)) (cr\<lparr>cr_rgid := unless_none a (cr_rgid cr),
      cr_svgid := unless_none d (cr_svgid cr)\<rparr>)"
    using assms unfolding setresgid_spec_def granted by simp_all
  have "x = ID_NONE \<or> x \<in> gids cr" if "x \<in> {a, b, d}" for x using subsetD [OF ab that] by auto
  then show ?thesis unfolding new using assms(3) by (intro within_gids unless_none_in) simp_all
qed

lemmas within_calls = within_setuid within_seteuid within_setreuid within_setresuid
  within_setgid within_setegid within_setregid within_setresgid

lemma call_within:
  assumes "unpriv cf old" and "call_spec cf c old = Inr (new, taint)" and "cr_groups old \<noteq> []"
  shows "within new old"
proof -
  note no = unpriv_refused [OF assms(1)]
  have "setgroups_spec cf n gs old \<noteq> Inr (new, taint)" for n gs
    using no by (simp add: setgroups_spec_def)
  then show ?thesis
    using assms(2,3) by (cases c) (simp_all add: within_calls [OF no])
qed

lemma good_groups:
  assumes "good HC HU HP k" and "proc_ids k i = Some cr"
  shows "length (cr_groups cr) = NGROUPS"
  using assms by (auto simp: kern_inv_def creds_wf_def cred_coherent_def proc_ids_def ids_at_def bind_eq_Some_conv)

lemma steps_proc:
  "steps cf HC HU HP k k' \<Longrightarrow> good HC HU HP k \<Longrightarrow> proc_at k i = Some p \<Longrightarrow> \<exists>q. proc_at k' i = Some q"
proof (induction rule: rtranclp_induct)
  case (step k1 k2)
  then obtain q where "proc_at k1 i = Some q" by blast
  from step_ids [OF step(2) steps_good [OF step(1,4)] this] show ?case using \<open>proc_at k1 i = Some q\<close> by metis
qed blast

lemma steps_within:
  assumes "steps cf HC HU HP k k'" and good: "good HC HU HP k"
    and "proc_ids k i = Some old" and "unpriv cf old"
  shows "\<exists>new. proc_ids k' i = Some new \<and> within new old"
  using assms(1)
proof (induction rule: rtranclp_induct)
  case base
  then show ?case using assms(3) by simp
next
  case (step k1 k2)
  then obtain cr where cr: "proc_ids k1 i = Some cr" "within cr old" by blast
  have g1: "good HC HU HP k1" by (rule steps_good [OF step(1) good])
  obtain p where p: "proc_at k1 i = Some p" using cr(1) by (auto simp: proc_ids_def bind_eq_Some_conv)
  have ne: "cr_groups cr \<noteq> []" using good_groups [OF g1 cr(1)] by auto
  from step(2) g1 p show ?case
  proof (cases rule: step_ids)
    case same
    then show ?thesis using cr by simp
  next
    case (changed c old' new taint q)
    then have "within new cr"
      using call_within [OF unpriv_within [OF assms(4) cr(2)] _ ne] cr(1) by simp
    then show ?thesis using changed(4) cr(2) within_trans by blast
  qed
qed


section \<open>The mark of a changed process\<close>

lemma sugid_or: "(w OR P_SUGID) AND P_SUGID \<noteq> (0 :: 32 word)"
proof
  assume "(w OR P_SUGID) AND P_SUGID = (0 :: 32 word)"
  then have "bit ((w OR P_SUGID) AND P_SUGID) 8 = bit (0 :: 32 word) 8" by simp
  then show False by (simp add: bit_simps)
qed

lemma call_taint:
  assumes "call_spec cf c old = Inr (new, taint)" and "new \<noteq> old"
  shows taint
proof (cases c)
  case (Setgroups n gs)
  then show ?thesis using assms by (auto simp: setgroups_spec_def split: if_splits)
qed (use assms in \<open>simp_all only: call_spec.simps setuid_spec_def seteuid_spec_def setgid_spec_def
    setegid_spec_def setreuid_spec_def setregid_spec_def setresuid_spec_def setresgid_spec_def granted
    Let_def not_False_eq_True\<close>)

lemma tainted_flag:
  assumes "tainted b p q"
  shows "b \<Longrightarrow> p_flag q AND P_SUGID \<noteq> 0" and "p_flag p AND P_SUGID \<noteq> 0 \<Longrightarrow> p_flag q AND P_SUGID \<noteq> 0"
proof -
  have q: "p_flag q = (if b then p_flag p OR P_SUGID else p_flag p)"
    using arg_cong [OF assms [unfolded tainted_def], of p_flag] by simp
  then show "b \<Longrightarrow> p_flag q AND P_SUGID \<noteq> 0" by (simp add: sugid_or)
  show "p_flag p AND P_SUGID \<noteq> 0 \<Longrightarrow> p_flag q AND P_SUGID \<noteq> 0"
    using q by (cases b) (simp_all add: sugid_or)
qed

lemma steps_taint:
  assumes "steps cf HC HU HP k k'" and good: "good HC HU HP k" and "proc_at k i = Some p"
  shows "\<exists>q. proc_at k' i = Some q \<and> (proc_ids k' i = proc_ids k i \<or> p_flag q AND P_SUGID \<noteq> 0)"
  using assms(1)
proof (induction rule: rtranclp_induct)
  case base
  then show ?case using assms(3) by simp
next
  case (step k1 k2)
  then obtain q where q: "proc_at k1 i = Some q"
      "proc_ids k1 i = proc_ids k i \<or> p_flag q AND P_SUGID \<noteq> 0" by blast
  from step(2) steps_good [OF step(1) good] q(1) show ?case
  proof (cases rule: step_ids)
    case same
    then show ?thesis using q by simp
  next
    case (changed c old new taint q')
    then show ?thesis
      using q tainted_flag [OF changed(6)] call_taint [OF changed(3)] by metis
  qed
qed

section \<open>Process counts\<close>

definition procs_of :: "kern \<Rightarrow> uid \<Rightarrow> nat" where
  "procs_of k uid = length (filter (\<lambda>p. map_option cr_ruid (cred_at k (p_ucred p)) = Some uid) (k_procs k))"

lemma ruid_procs_uid:
  assumes good: "good HC HU HP k" and "ui_at (k_ui k) u = Some v"
  shows "ruid_procs k u = procs_of k (ui_uid v)"
proof -
  have "(Option.bind (cred_at k (p_ucred p)) cr_ruidinfo = Some u) =
      (map_option cr_ruid (cred_at k (p_ucred p)) = Some (ui_uid v))" if p: "p \<in> set (k_procs k)" for p
  proof -
    have h: "p_ucred p \<in># cred_holders k" by (rule proc_holder [OF p])
    obtain cr where cr: "cred_at k (p_ucred p) = Some cr"
      using holder_live [of k HC "p_ucred p"] good h by (auto simp: kern_inv_def)
    then have "cred_full cr" "cred_coherent (k_ui k) cr"
      using good h by (auto simp: kern_inv_def creds_wf_def)
    then obtain r where r: "cr_ruidinfo cr = Some r" "ui_uids (k_ui k) r = Some (cr_ruid cr)"
      by (auto simp: cred_full_def cred_coherent_def)
    have "ui_unique (k_ui k)" using good by (simp add: kern_inv_def ui_counted_def ui_inv_def)
    moreover have "ui_uids (k_ui k) u = Some (ui_uid v)" using assms(2) by (simp add: ui_uids_def)
    ultimately show ?thesis using cr r by (auto simp: ui_unique_def)
  qed
  then show ?thesis
    unfolding ruid_procs_def procs_of_def by (intro arg_cong [where f = length] filter_cong refl)
qed

end
