(* ===== verification/Examples.thy ===== *)
theory Examples
  imports CredSystem
begin

text \<open>
  A small concrete system, on which the properties of the credential code are exercised: a
  process of the superuser and a process of user 1001, with one thread each.
\<close>

definition ex_ui :: ui_state where
  "ex_ui = \<lparr>ui_heap = [Some \<lparr>ui_sbsize = 0, ui_proccnt = 1, ui_ptscnt = 0, ui_uid = 0, ui_ref = 2\<rparr>,
                      Some \<lparr>ui_sbsize = 0, ui_proccnt = 1, ui_ptscnt = 0, ui_uid = 1001, ui_ref = 2\<rparr>],
            uihashtbl = (\<lambda>b. if b = 0 then [0] else if b = 1 then [1] else []), uihash = 7\<rparr>"

definition ex_jail :: jail_state where
  "ex_jail = \<lparr>pr_heap = [], allprison = [], lastprid = 0, prisoncount = 0, pr_tasks = []\<rparr>"

definition ex_cred :: "uid \<Rightarrow> addr \<Rightarrow> ucred" where
  "ex_cred u a = ucred_zero\<lparr>cr_ref := 2, cr_uid := u, cr_ruid := u, cr_svuid := u, cr_ngroups := 1,
     cr_groups := replicate NGROUPS u, cr_rgid := u, cr_svgid := u,
     cr_uidinfo := Some a, cr_ruidinfo := Some a\<rparr>"

definition ex_proc :: "int \<Rightarrow> addr \<Rightarrow> proc" where
  "ex_proc pid c = \<lparr>p_pid = pid, p_ucred = c, p_flag = 0, p_pfsflags = 0, p_stops = 0,
     p_session = 0, p_leader = None\<rparr>"

definition ex_kern :: kern where
  "ex_kern = \<lparr>k_ui = ex_ui, k_jail = ex_jail, k_ucreds = [Some (ex_cred 0 0), Some (ex_cred 1001 1)],
     k_procs = [ex_proc 1 0, ex_proc 2 1],
     k_threads = [\<lparr>td_proc = 0, td_ucred = Some 0, td_retval = 0\<rparr>,
                  \<lparr>td_proc = 1, td_ucred = Some 1, td_retval = 0\<rparr>],
     initproc = 0\<rparr>"

definition ex_conf :: sysconf where
  "ex_conf = \<lparr>suser_enabled = True, securelevel = -1, see_other_uids = True, see_other_gids = True,
     conservative_signals = True, unprivileged_proc_debug = True, jail_chflags_allowed = False,
     jail_mount_allowed = False, jail_allow_raw_sockets = False, jail_socket_unixiproute_only = True,
     jail_sysvipc_allowed = False, jail_enforce_statfs = 2\<rparr>"

lemmas ex_defs = ex_kern_def ex_ui_def ex_jail_def ex_cred_def ex_proc_def ucred_zero_def

lemma ex_ui_at: "ui_at ex_ui a = (if a = 0 then Some \<lparr>ui_sbsize = 0, ui_proccnt = 1, ui_ptscnt = 0, ui_uid = 0, ui_ref = 2\<rparr>
   else if a = 1 then Some \<lparr>ui_sbsize = 0, ui_proccnt = 1, ui_ptscnt = 0, ui_uid = 1001, ui_ref = 2\<rparr> else None)"
  by (simp add: ui_at_def ex_ui_def deref_def nth_Cons')

lemma ex_ui_inv: "ui_inv ex_ui"
proof -
  have uids: "ui_uids ex_ui a = (if a = 0 then Some 0 else if a = 1 then Some 1001 else None)" for a
    by (simp add: ui_uids_def ex_ui_at)
  show ?thesis
    unfolding ui_inv_def ui_hashed_def ui_unique_def UIHASH_def uids
    by (auto simp: ex_ui_def split: if_splits)
qed

lemma ex_cred_at: "cred_at ex_kern c = (if c = 0 then Some (ex_cred 0 0) else if c = 1 then Some (ex_cred 1001 1) else None)"
  by (simp add: cred_at_def ex_kern_def deref_def nth_Cons')

lemma ex_refs:
  "cred_holders ex_kern = {#0, 0, 1, 1#}" "uid_refs ex_kern = {#0, 0, 1, 1#}" "prison_refs ex_kern = {#}"
  by (simp_all add: cred_holders_def thread_creds_def uid_refs_def prison_refs_def heap_mset_def ex_defs
    cred_uids_def cred_prisons_def)

lemma ex_good: "kern_inv 8 ex_kern {#} {#} {#} (\<lambda>_. 0)"
proof -
  have fr: "k_ui ex_kern = ex_ui" "k_jail ex_kern = ex_jail" by (simp_all add: ex_kern_def)
  have "cred_counted ex_kern {#}"
    by (auto simp: cred_counted_def backed_def cr_refs_def ex_refs ex_cred_at ex_cred_def)
  moreover have "ui_counted ex_ui {#0, 0, 1, 1#}"
    by (auto simp: ui_counted_def ex_ui_inv backed_def ui_refs_def ex_ui_at)
  moreover have "pr_counted ex_jail {#}"
    by (simp add: pr_counted_def jail_inv_def backed_def pr_refs_def pr_at_def ex_jail_def deref_def)
  moreover have "creds_wf ex_kern"
  proof -
    have "cred_coherent ex_ui (ex_cred 0 0)" "cred_coherent ex_ui (ex_cred 1001 1)" "cred_full (ex_cred u a)" for u a
      by (simp_all add: cred_coherent_def cred_full_def ex_cred_def ui_uids_def ex_ui_at)
    moreover have "\<forall>t \<in> set (k_threads ex_kern). td_proc t < length (k_procs ex_kern)" by (simp add: ex_kern_def)
    ultimately show ?thesis by (auto simp: creds_wf_def ex_cred_at fr)
  qed
  moreover have "proccnt_ok ex_kern (\<lambda>_. 0)"
  proof -
    have "ruid_procs ex_kern 0 = 1" "ruid_procs ex_kern 1 = 1"
      by (simp_all add: ruid_procs_def ex_cred_at) (simp_all add: ex_kern_def ex_proc_def ex_cred_def)
    then show ?thesis by (auto simp: proccnt_ok_def fr ex_ui_at)
  qed
  moreover have "room 8 {#0, 0, 1, 1#}" "room 8 {#}" by (simp_all add: room_def)
  ultimately show ?thesis by (simp add: kern_inv_def ex_refs fr)
qed

lemma ex_good0: "good {#} {#} {#} ex_kern"
  by (rule kern_inv_mono [OF ex_good]) simp

lemma ex_room: "has_room ex_kern {#} {#} {#}"
  using ex_good by (simp add: has_room_def kern_inv_def)

text \<open>The superuser's process becomes user 1001.\<close>

definition ex_dropped :: "kern option" where
  "ex_dropped = map_option snd (setuid ex_conf 0 1001 ex_kern)"

lemma ex_eval: "map_option fst (setuid ex_conf 0 1001 ex_kern) = Some 0"
  by code_simp

end
