(* ===== verification/CredProps.thy ===== *)
theory CredProps
  imports Examples
begin

text \<open>
  The properties of the credential system calls.
\<close>

text \<open>C1: Every credential system call, made by any thread in a state where the reference counts,
  the per-user process counts and the pointers are right and no counter is about to wrap,
  returns (no use after free, no failed assertion), leaves all of them exact again, and changes the
  ids of the calling process exactly as its specification says; every other process and
  every thread keeps the ids it had, although credentials are shared.\<close>

theorem idcall_refines:
  assumes "kern_inv 8 k HC HU HP (\<lambda>_. 0)" and "thread_at k t = Some td" and "wf_call c"
  shows "implements (call_spec cf c) td HC HU HP k (do_call cf t c k)"
  by (rule do_call_implements [OF assms])

theorem idcall_refines_witness:
  "implements (call_spec ex_conf (Setresuid 0 1001 0)) \<lparr>td_proc = 0, td_ucred = Some 0, td_retval = 0\<rparr>
     {#} {#} {#} ex_kern (do_call ex_conf 0 (Setresuid 0 1001 0) ex_kern)"
  by (rule idcall_refines [OF ex_good]) (simp_all add: thread_at_def ex_kern_def)

text \<open>C6: Along every sequence of credential calls and kernel entries, by any threads in any order, the
  reference count of every credential, accounting record and prison stays the number of
  references to it, credentials point to the records of their own users, and process
  counts are exact; and in every state so reached each further call returns.\<close>

theorem idcalls_safe:
  assumes "steps cf HC HU HP k k'" and "kern_inv 0 k HC HU HP (\<lambda>_. 0)"
  shows "kern_inv 0 k' HC HU HP (\<lambda>_. 0) \<and>
    (has_room k' HC HU HP \<longrightarrow> thread_at k' t = Some td \<longrightarrow> wf_call c \<longrightarrow> do_call cf t c k' \<noteq> None)"
proof -
  have good: "good HC HU HP k'" by (rule steps_good [OF assms])
  then show ?thesis
    using do_call_implements [OF good_room [OF good], of t td c cf] by (auto simp: implements_def)
qed

lemma ex_step:
  assumes "map_option fst (do_call ex_conf t c ex_kern) = Some e" and "t < 2" and "wf_call c"
  shows "step ex_conf {#} {#} {#} ex_kern (snd (the (do_call ex_conf t c ex_kern)))"
proof -
  obtain k' where k': "do_call ex_conf t c ex_kern = Some (e, k')" using assms(1) by auto
  obtain td where "thread_at ex_kern t = Some td" using assms(2) by (auto simp: thread_at_def ex_kern_def)
  from step.call [OF ex_room this assms(3) k'] show ?thesis using k' by simp
qed

theorem idcalls_safe_witness:
  "kern_inv 0 (snd (the (do_call ex_conf 0 (Setuid 1001) ex_kern))) {#} {#} {#} (\<lambda>_. 0)"
proof -
  have "map_option fst (do_call ex_conf 0 (Setuid 1001) ex_kern) = Some 0" using ex_eval by simp
  then have "step ex_conf {#} {#} {#} ex_kern (snd (the (do_call ex_conf 0 (Setuid 1001) ex_kern)))"
    by (rule ex_step) simp_all
  from idcalls_safe [OF r_into_rtranclp [of "step ex_conf {#} {#} {#}", OF this] ex_good0] show ?thesis by blast
qed

text \<open>C4: No sequence of credential calls gives a process without superuser ids an id it did not
  have: afterwards its real, effective and saved user ids are among the three it started
  with, the same for its group ids, and its supplementary groups and prison are unchanged.\<close>

theorem no_escalation:
  assumes "steps cf HC HU HP k k'" and "kern_inv 0 k HC HU HP (\<lambda>_. 0)"
    and "proc_ids k i = Some old" and "\<not> suser_enabled cf \<or> 0 \<notin> {cr_uid old, cr_ruid old, cr_svuid old}"
  shows "\<exists>new. proc_ids k' i = Some new \<and>
    {cr_uid new, cr_ruid new, cr_svuid new} \<subseteq> {cr_uid old, cr_ruid old, cr_svuid old} \<and>
    {cr_groups new ! 0, cr_rgid new, cr_svgid new} \<subseteq> {cr_groups old ! 0, cr_rgid old, cr_svgid old} \<and>
    cr_ngroups new = cr_ngroups old \<and> tl (cr_groups new) = tl (cr_groups old) \<and>
    cr_prison new = cr_prison old"
  using steps_within [OF assms(1-3)] assms(4)
  unfolding unpriv_def within_def uids_def gids_def egid_def by blast

theorem no_escalation_witness:
  "\<exists>new. proc_ids (snd (the (do_call ex_conf 1 (Setreuid 1001 0) ex_kern))) 1 = Some new \<and>
    {cr_uid new, cr_ruid new, cr_svuid new} \<subseteq> {1001}"
proof -
  have "map_option fst (do_call ex_conf 1 (Setreuid 1001 0) ex_kern) = Some EPERM" by code_simp
  then have "step ex_conf {#} {#} {#} ex_kern (snd (the (do_call ex_conf 1 (Setreuid 1001 0) ex_kern)))"
    by (rule ex_step) simp_all
  moreover have "proc_ids ex_kern 1 = Some (cred_ids (ex_cred 1001 1))"
    by (simp add: proc_ids_def proc_at_def ids_at_def ex_cred_at) (simp add: ex_kern_def ex_proc_def)
  moreover have "0 \<notin> {cr_uid (cred_ids (ex_cred 1001 1)), cr_ruid (cred_ids (ex_cred 1001 1)),
      cr_svuid (cred_ids (ex_cred 1001 1))}" by (simp add: ex_cred_def)
  ultimately show ?thesis
    using no_escalation [OF r_into_rtranclp [of "step ex_conf {#} {#} {#}"] ex_good0, of _ 1 "cred_ids (ex_cred 1001 1)"]
    by (auto simp: ex_cred_def)
qed

text \<open>C10: A successful \<^verbatim>\<open>setuid\<close> to a user other than the superuser is final as far as credential calls go: whatever
  of these calls and kernel entries follow, by whatever process, the process's real, effective and saved ids stay that user.
  Executing a set-user-ID program is not one of the steps.\<close>

theorem setuid_drops:
  assumes "kern_inv 8 k HC HU HP (\<lambda>_. 0)" and "thread_at k t = Some td"
    and "setuid cf t uid k = Some (0, k1)" and "uid \<noteq> 0" and "steps cf HC HU HP k1 k2"
  shows "\<exists>new. proc_ids k2 (td_proc td) = Some new \<and>
    cr_uid new = uid \<and> cr_ruid new = uid \<and> cr_svuid new = uid"
proof -
  from setuid_implements [OF assms(1,2), of cf uid] assms(3) obtain old
    where g: "good HC HU HP k1" and r: "set_result (td_proc td) (setuid_spec cf uid old) HC k 0 k1"
    by (auto simp: implements_def)
  obtain new where new: "proc_ids k1 (td_proc td) = Some new" "uids new = {uid}"
    using r by (auto simp: set_result_def setuid_spec_def grant_def uids_def split: if_splits)
  then have "unpriv cf new" using assms(4) by (simp add: unpriv_def)
  from steps_within [OF assms(5) g new(1) this] obtain x
    where "proc_ids k2 (td_proc td) = Some x" "uids x \<subseteq> {uid}" by (auto simp: within_def new(2))
  then show ?thesis by (auto simp: uids_def)
qed

theorem setuid_drops_witness:
  "\<exists>new. proc_ids (snd (the (setuid ex_conf 0 1001 ex_kern))) 0 = Some new \<and> cr_svuid new = 1001"
proof -
  obtain k1 where k1: "setuid ex_conf 0 1001 ex_kern = Some (0, k1)" using ex_eval by auto
  have "thread_at ex_kern 0 = Some \<lparr>td_proc = 0, td_ucred = Some 0, td_retval = 0\<rparr>"
    by (simp add: thread_at_def ex_kern_def)
  from setuid_drops [OF ex_good this k1 _ rtranclp.rtrancl_refl] show ?thesis using k1 by auto
qed

text \<open>C11: A process whose ids differ from what they were is marked \<^verbatim>\<open>P_SUGID\<close>, after any sequence of
  credential calls and kernel entries. Executing a program, which clears the mark, is not one of the steps.\<close>

theorem sugid_marked:
  assumes "steps cf HC HU HP k k'" and "kern_inv 0 k HC HU HP (\<lambda>_. 0)" and "proc_at k i = Some p"
    and "proc_ids k' i \<noteq> proc_ids k i"
  shows "\<exists>q. proc_at k' i = Some q \<and> p_flag q AND P_SUGID \<noteq> 0"
  using steps_taint [OF assms(1-3)] assms(4) by blast

theorem sugid_marked_witness:
  "\<exists>q. proc_at (snd (the (do_call ex_conf 0 (Setuid 1001) ex_kern))) 0 = Some q \<and> p_flag q AND P_SUGID \<noteq> 0"
proof -
  let ?k = "snd (the (do_call ex_conf 0 (Setuid 1001) ex_kern))"
  have "map_option fst (do_call ex_conf 0 (Setuid 1001) ex_kern) = Some 0" using ex_eval by simp
  then have s: "step ex_conf {#} {#} {#} ex_kern ?k" by (rule ex_step) simp_all
  have "map_option cr_uid (proc_ids ?k 0) = Some 1001" "map_option cr_uid (proc_ids ex_kern 0) = Some 0"
    by code_simp+
  then have "proc_ids ?k 0 \<noteq> proc_ids ex_kern 0" by auto
  moreover have "proc_at ex_kern 0 = Some (ex_proc 1 0)" by (simp add: proc_at_def ex_kern_def)
  ultimately show ?thesis
    using sugid_marked [OF r_into_rtranclp [of "step ex_conf {#} {#} {#}", OF s] ex_good0] by blast
qed

text \<open>C12: After any sequence of credential calls, the process count of every accounting record is the
  number of processes whose real user it is.\<close>

theorem process_counts_exact:
  assumes "steps cf HC HU HP k k'" and "kern_inv 0 k HC HU HP (\<lambda>_. 0)" and "ui_at (k_ui k') u = Some v"
  shows "ui_proccnt v = of_nat (procs_of k' (ui_uid v))"
proof -
  have good: "good HC HU HP k'" by (rule steps_good [OF assms(1,2)])
  then have "ui_proccnt v = word_of_int (int (ruid_procs k' u))"
    using assms(3) by (auto simp: kern_inv_def proccnt_ok_def)
  then show ?thesis using ruid_procs_uid [OF good assms(3)] by simp
qed

theorem process_counts_exact_witness: "procs_of ex_kern 1001 = 1"
proof -
  have "ui_at (k_ui ex_kern) 1 = Some \<lparr>ui_sbsize = 0, ui_proccnt = 1, ui_ptscnt = 0, ui_uid = 1001, ui_ref = 2\<rparr>"
    by (simp add: ex_kern_def ex_ui_at)
  from process_counts_exact [OF rtranclp.rtrancl_refl ex_good0 this]
  have "of_nat (procs_of ex_kern 1001) = (1 :: 32 word)" by simp
  moreover have "procs_of ex_kern 1001 \<le> 2"
    using length_filter_le [of _ "k_procs ex_kern"] by (simp add: procs_of_def ex_kern_def)
  ultimately show ?thesis by (auto simp: le_Suc_eq numeral_2_eq_2)
qed

end
