(* ===== verification/ProcAccess.thy ===== *)
theory ProcAccess
  imports Ucred
begin

text \<open>
  The rest of \<^verbatim>\<open>src/sys/kern/kern_prot.c\<close>: the system calls that report ids, and the checks
  that decide whether one subject may see, signal, schedule, debug or wait for another.
  A check returns an error number, 0 when access is granted. The mandatory access control
  hooks are not compiled in.
\<close>

section \<open>Reporting ids\<close>

definition set_retval :: "nat \<Rightarrow> 32 word \<Rightarrow> kern \<Rightarrow> kern option" where
  "set_retval t v k = do { td \<leftarrow> thread_at k t; Some (thread_put t (td\<lparr>td_retval := v\<rparr>) k) }"

text \<open>\<^verbatim>\<open>td->td_ucred\<close>\<close>

definition td_cred :: "nat \<Rightarrow> kern \<Rightarrow> ucred option" where
  "td_cred t k = do { td \<leftarrow> thread_at k t; c \<leftarrow> td_ucred td; cred_at k c }"

definition getpid :: "nat \<Rightarrow> kern \<Rightarrow> (errno \<times> kern) option" where
  "getpid t k =
     do { td \<leftarrow> thread_at k t;
          p \<leftarrow> proc_at k (td_proc td);
          k \<leftarrow> set_retval t (word_of_int (p_pid p)) k;
          Some (0, k) }"

definition getuid :: "nat \<Rightarrow> kern \<Rightarrow> (errno \<times> kern) option" where
  "getuid t k = do { cr \<leftarrow> td_cred t k; k \<leftarrow> set_retval t (cr_ruid cr) k; Some (0, k) }"

definition geteuid :: "nat \<Rightarrow> kern \<Rightarrow> (errno \<times> kern) option" where
  "geteuid t k = do { cr \<leftarrow> td_cred t k; k \<leftarrow> set_retval t (cr_uid cr) k; Some (0, k) }"

definition getgid :: "nat \<Rightarrow> kern \<Rightarrow> (errno \<times> kern) option" where
  "getgid t k = do { cr \<leftarrow> td_cred t k; k \<leftarrow> set_retval t (cr_rgid cr) k; Some (0, k) }"

definition getegid :: "nat \<Rightarrow> kern \<Rightarrow> (errno \<times> kern) option" where
  "getegid t k = do { cr \<leftarrow> td_cred t k; k \<leftarrow> set_retval t (cr_groups cr ! 0) k; Some (0, k) }"

text \<open>Returns the error, the new \<^verbatim>\<open>*ngrp\<close> and what is copied to \<^verbatim>\<open>groups\<close>.\<close>

definition kern_getgroups :: "nat \<Rightarrow> nat \<Rightarrow> kern \<Rightarrow> (errno \<times> nat \<times> gid list) option" where
  "kern_getgroups t ngrp k =
     do { cred \<leftarrow> td_cred t k;
          if ngrp = 0 then Some (0, cr_ngroups cred, [])
          else if ngrp < cr_ngroups cred then Some (EINVAL, ngrp, [])
          else Some (0, cr_ngroups cred, take (cr_ngroups cred) (cr_groups cred)) }"

text \<open>
  \<open>copyout\<close> stores words at a user address and may fault; \<open>m\<close> is user memory. The call
  declares a local array of \<^verbatim>\<open>NGROUPS\<close> ids, so at most that many are asked for.
\<close>

definition getgroups ::
  "(gid list \<Rightarrow> 'a \<Rightarrow> 'm \<Rightarrow> errno \<times> 'm) \<Rightarrow> nat \<Rightarrow> nat \<Rightarrow> 'a \<Rightarrow> 'm \<Rightarrow> kern \<Rightarrow> (errno \<times> 'm \<times> kern) option" where
  "getgroups copyout t gidsetsize gidset m k =
     do { let ngrp = min gidsetsize NGROUPS;
          (error, ngrp, groups) \<leftarrow> kern_getgroups t ngrp k;
          if error \<noteq> 0 then Some (error, m, k)
          else do {
            let (error, m) = (if 0 < gidsetsize then copyout groups gidset m else (error, m));
            if error = 0 then do { k \<leftarrow> set_retval t (of_nat ngrp) k; Some (error, m, k) }
            else Some (error, m, k) } }"

definition copyout_opt ::
  "('v \<Rightarrow> 'a \<Rightarrow> 'm \<Rightarrow> errno \<times> 'm) \<Rightarrow> 'v \<Rightarrow> 'a option \<Rightarrow> 'm \<Rightarrow> errno \<times> 'm" where
  "copyout_opt copyout v p m = (case p of None \<Rightarrow> (0, m) | Some a \<Rightarrow> copyout v a m)"

definition getresuid ::
  "(uid \<Rightarrow> 'a \<Rightarrow> 'm \<Rightarrow> errno \<times> 'm) \<Rightarrow> nat \<Rightarrow> 'a option \<Rightarrow> 'a option \<Rightarrow> 'a option \<Rightarrow> 'm \<Rightarrow> kern \<Rightarrow>
   (errno \<times> 'm) option" where
  "getresuid copyout t ruid euid suid m k =
     do { cred \<leftarrow> td_cred t k;
          let (error1, m) = copyout_opt copyout (cr_ruid cred) ruid m;
          let (error2, m) = copyout_opt copyout (cr_uid cred) euid m;
          let (error3, m) = copyout_opt copyout (cr_svuid cred) suid m;
          Some (if error1 \<noteq> 0 then error1 else if error2 \<noteq> 0 then error2 else error3, m) }"

definition getresgid ::
  "(gid \<Rightarrow> 'a \<Rightarrow> 'm \<Rightarrow> errno \<times> 'm) \<Rightarrow> nat \<Rightarrow> 'a option \<Rightarrow> 'a option \<Rightarrow> 'a option \<Rightarrow> 'm \<Rightarrow> kern \<Rightarrow>
   (errno \<times> 'm) option" where
  "getresgid copyout t rgid egid sgid m k =
     do { cred \<leftarrow> td_cred t k;
          let (error1, m) = copyout_opt copyout (cr_rgid cred) rgid m;
          let (error2, m) = copyout_opt copyout (cr_groups cred ! 0) egid m;
          let (error3, m) = copyout_opt copyout (cr_svgid cred) sgid m;
          Some (if error1 \<noteq> 0 then error1 else if error2 \<noteq> 0 then error2 else error3, m) }"

definition issetugid :: "nat \<Rightarrow> kern \<Rightarrow> (errno \<times> kern) option" where
  "issetugid t k =
     do { td \<leftarrow> thread_at k t;
          p \<leftarrow> proc_at k (td_proc td);
          k \<leftarrow> set_retval t (if p_flag p AND P_SUGID \<noteq> 0 then 1 else 0) k;
          Some (0, k) }"

text \<open>The configuration has no \<^verbatim>\<open>options REGRESSION\<close>.\<close>

definition setugid_syscall :: "int \<Rightarrow> errno" where
  "setugid_syscall flag = ENOSYS"

section \<open>Secure levels\<close>

definition active_securelevel :: "sysconf \<Rightarrow> ucred \<Rightarrow> jail_state \<Rightarrow> int option" where
  "active_securelevel cf cr s =
     (case cr_prison cr of
        None \<Rightarrow> Some (securelevel cf)
      | Some a \<Rightarrow> do { pr \<leftarrow> pr_at s a; Some (max (pr_securelevel pr) (securelevel cf)) })"

definition securelevel_gt :: "sysconf \<Rightarrow> ucred \<Rightarrow> int \<Rightarrow> jail_state \<Rightarrow> errno option" where
  "securelevel_gt cf cr level s =
     do { active \<leftarrow> active_securelevel cf cr s; Some (if active > level then EPERM else 0) }"

definition securelevel_ge :: "sysconf \<Rightarrow> ucred \<Rightarrow> int \<Rightarrow> jail_state \<Rightarrow> errno option" where
  "securelevel_ge cf cr level s =
     do { active \<leftarrow> active_securelevel cf cr s; Some (if active \<ge> level then EPERM else 0) }"

section \<open>One subject and another\<close>

definition cr_seeotheruids :: "sysconf \<Rightarrow> ucred \<Rightarrow> ucred \<Rightarrow> errno" where
  "cr_seeotheruids cf u1 u2 =
     (if \<not> see_other_uids cf \<and> cr_ruid u1 \<noteq> cr_ruid u2 then
        (if priv_check_cred cf u1 PRIV_SEEOTHERUIDS \<noteq> 0 then ESRCH else 0)
      else 0)"

fun seeothergids_match :: "gid list \<Rightarrow> ucred \<Rightarrow> bool" where
  "seeothergids_match [] u2 = False"
| "seeothergids_match (g # gs) u2 = (if groupmember g u2 then True else seeothergids_match gs u2)"

definition cr_seeothergids :: "sysconf \<Rightarrow> ucred \<Rightarrow> ucred \<Rightarrow> errno" where
  "cr_seeothergids cf u1 u2 =
     (if \<not> see_other_gids cf then
        (let match = seeothergids_match (take (cr_ngroups u1) (cr_groups u1)) u2
         in if \<not> match then
              (if priv_check_cred cf u1 PRIV_SEEOTHERGIDS \<noteq> 0 then ESRCH else 0)
            else 0)
      else 0)"

definition cr_cansee :: "sysconf \<Rightarrow> ucred \<Rightarrow> ucred \<Rightarrow> errno" where
  "cr_cansee cf u1 u2 =
     (let error = prison_check u1 u2 in if error \<noteq> 0 then error else
      let error = cr_seeotheruids cf u1 u2 in if error \<noteq> 0 then error else
      let error = cr_seeothergids cf u1 u2 in if error \<noteq> 0 then error else 0)"

text \<open>The credentials of the calling thread and of the target process.\<close>

definition pair_creds :: "nat \<Rightarrow> nat \<Rightarrow> kern \<Rightarrow> (ucred \<times> proc \<times> ucred) option" where
  "pair_creds t i k =
     do { u1 \<leftarrow> td_cred t k; p \<leftarrow> proc_at k i; u2 \<leftarrow> cred_at k (p_ucred p); Some (u1, p, u2) }"

definition p_cansee :: "sysconf \<Rightarrow> nat \<Rightarrow> nat \<Rightarrow> kern \<Rightarrow> errno option" where
  "p_cansee cf t i k = do { (u1, _, u2) \<leftarrow> pair_creds t i k; Some (cr_cansee cf u1 u2) }"

abbreviation (input) SIGHUP :: int where "SIGHUP \<equiv> 1"
abbreviation (input) SIGINT :: int where "SIGINT \<equiv> 2"
abbreviation (input) SIGKILL :: int where "SIGKILL \<equiv> 9"
abbreviation (input) SIGALRM :: int where "SIGALRM \<equiv> 14"
abbreviation (input) SIGTERM :: int where "SIGTERM \<equiv> 15"
abbreviation (input) SIGSTOP :: int where "SIGSTOP \<equiv> 17"
abbreviation (input) SIGTSTP :: int where "SIGTSTP \<equiv> 18"
abbreviation (input) SIGCONT :: int where "SIGCONT \<equiv> 19"
abbreviation (input) SIGTTIN :: int where "SIGTTIN \<equiv> 21"
abbreviation (input) SIGTTOU :: int where "SIGTTOU \<equiv> 22"
abbreviation (input) SIGUSR1 :: int where "SIGUSR1 \<equiv> 30"
abbreviation (input) SIGUSR2 :: int where "SIGUSR2 \<equiv> 31"
abbreviation (input) SIGTHR :: int where "SIGTHR \<equiv> 32"

definition cr_cansignal :: "sysconf \<Rightarrow> ucred \<Rightarrow> proc \<Rightarrow> ucred \<Rightarrow> int \<Rightarrow> errno" where
  "cr_cansignal cf cred p pcred signum =
     (let error = prison_check cred pcred in if error \<noteq> 0 then error else
      let error = cr_seeotheruids cf cred pcred in if error \<noteq> 0 then error else
      let error = cr_seeothergids cf cred pcred in if error \<noteq> 0 then error else
      let error =
        (if conservative_signals cf \<and> p_flag p AND P_SUGID \<noteq> 0 then
           (if signum \<in> {0, SIGKILL, SIGINT, SIGTERM, SIGALRM, SIGSTOP, SIGTTIN, SIGTTOU, SIGTSTP,
                         SIGHUP, SIGUSR1, SIGUSR2}
            then 0 else priv_check_cred cf cred PRIV_SIGNAL_SUGID)
         else 0)
      in if error \<noteq> 0 then error else
      if cr_ruid cred \<noteq> cr_ruid pcred \<and> cr_ruid cred \<noteq> cr_svuid pcred \<and>
         cr_uid cred \<noteq> cr_ruid pcred \<and> cr_uid cred \<noteq> cr_svuid pcred
      then priv_check_cred cf cred PRIV_SIGNAL_DIFFCRED
      else 0)"

definition p_cansignal :: "sysconf \<Rightarrow> nat \<Rightarrow> nat \<Rightarrow> int \<Rightarrow> kern \<Rightarrow> errno option" where
  "p_cansignal cf t i signum k =
     do { td \<leftarrow> thread_at k t;
          if td_proc td = i then Some 0
          else do {
            q \<leftarrow> proc_at k (td_proc td);
            p \<leftarrow> proc_at k i;
            if signum = SIGCONT \<and> p_session q = p_session p then Some 0
            else if p_leader q \<noteq> None \<and> SIGTHR \<le> signum \<and> signum < SIGTHR + 4 \<and> p_leader q = p_leader p
            then Some 0
            else do {
              (u1, p, u2) \<leftarrow> pair_creds t i k;
              Some (cr_cansignal cf u1 p u2 signum) } } }"

definition p_cansched :: "sysconf \<Rightarrow> nat \<Rightarrow> nat \<Rightarrow> kern \<Rightarrow> errno option" where
  "p_cansched cf t i k =
     do { td \<leftarrow> thread_at k t;
          if td_proc td = i then Some 0
          else do {
            (u1, p, u2) \<leftarrow> pair_creds t i k;
            let error = prison_check u1 u2;
            if error \<noteq> 0 then Some error else do {
            let error = cr_seeotheruids cf u1 u2;
            if error \<noteq> 0 then Some error else do {
            let error = cr_seeothergids cf u1 u2;
            if error \<noteq> 0 then Some error else
            if cr_ruid u1 \<noteq> cr_ruid u2 \<and> cr_uid u1 \<noteq> cr_ruid u2
            then Some (priv_check_cred cf u1 PRIV_SCHED_DIFFCRED)
            else Some 0 } } } }"

fun debug_grpsubset :: "gid list \<Rightarrow> ucred \<Rightarrow> bool" where
  "debug_grpsubset [] u1 = True"
| "debug_grpsubset (g # gs) u1 = (if \<not> groupmember g u1 then False else debug_grpsubset gs u1)"

definition p_candebug :: "sysconf \<Rightarrow> nat \<Rightarrow> nat \<Rightarrow> kern \<Rightarrow> errno option" where
  "p_candebug cf t i k =
     do { td \<leftarrow> thread_at k t;
          u1 \<leftarrow> td_cred t k;
          let error = (if \<not> unprivileged_proc_debug cf then priv_check_cred cf u1 PRIV_DEBUG_UNPRIV else 0);
          if error \<noteq> 0 then Some error
          else if td_proc td = i then Some 0
          else do {
            (_, p, u2) \<leftarrow> pair_creds t i k;
            let error = prison_check u1 u2;
            if error \<noteq> 0 then Some error else do {
            let error = cr_seeotheruids cf u1 u2;
            if error \<noteq> 0 then Some error else do {
            let error = cr_seeothergids cf u1 u2;
            if error \<noteq> 0 then Some error else do {
            let grpsubset = debug_grpsubset (take (cr_ngroups u2) (cr_groups u2)) u1;
            let grpsubset = (grpsubset \<and> groupmember (cr_rgid u2) u1 \<and> groupmember (cr_svgid u2) u1);
            let uidsubset = (cr_uid u1 = cr_uid u2 \<and> cr_uid u1 = cr_svuid u2 \<and> cr_uid u1 = cr_ruid u2);
            let credentialchanged = (p_flag p AND P_SUGID \<noteq> 0);
            let error = (if \<not> grpsubset \<or> \<not> uidsubset then priv_check_cred cf u1 PRIV_DEBUG_DIFFCRED else 0);
            if error \<noteq> 0 then Some error else do {
            let error = (if credentialchanged then priv_check_cred cf u1 PRIV_DEBUG_SUGID else 0);
            if error \<noteq> 0 then Some error else do {
            error \<leftarrow> (if i = initproc k then securelevel_gt cf u1 0 (k_jail k) else Some 0);
            if error \<noteq> 0 then Some error else
            if p_flag p AND P_INEXEC \<noteq> 0 then Some EBUSY else Some 0 } } } } } } }"

definition cr_canseesocket :: "sysconf \<Rightarrow> ucred \<Rightarrow> ucred \<Rightarrow> errno" where
  "cr_canseesocket cf cred so_cred =
     (if prison_check cred so_cred \<noteq> 0 then ENOENT
      else if cr_seeotheruids cf cred so_cred \<noteq> 0 then ENOENT
      else if cr_seeothergids cf cred so_cred \<noteq> 0 then ENOENT
      else 0)"

definition cr_canseeinpcb :: "sysconf \<Rightarrow> ucred \<Rightarrow> ucred \<Rightarrow> errno" where
  "cr_canseeinpcb cf cred inp_cred =
     (if prison_check cred inp_cred \<noteq> 0 then ENOENT
      else if cr_seeotheruids cf cred inp_cred \<noteq> 0 then ENOENT
      else if cr_seeothergids cf cred inp_cred \<noteq> 0 then ENOENT
      else 0)"

definition p_canwait :: "sysconf \<Rightarrow> nat \<Rightarrow> nat \<Rightarrow> kern \<Rightarrow> errno option" where
  "p_canwait cf t i k = do { (u1, _, u2) \<leftarrow> pair_creds t i k; Some (prison_check u1 u2) }"

end
