(* ===== verification/ProcProps.thy ===== *)
theory ProcProps
  imports ProcAccess Examples
begin

text \<open>
  What the inter-process checks grant: debugging is the strongest right, a jailed subject reaches
  its own prison only, and a process that changed its ids is out of reach of ordinary users.
\<close>

lemma groupmember_loop_mem: "groupmember_loop g gs \<longleftrightarrow> g \<in> set gs"
  by (induction gs) auto

lemma groupmember_mem: "groupmember g cr \<longleftrightarrow> g \<in> set (take (cr_ngroups cr) (cr_groups cr))"
  by (simp add: groupmember_def groupmember_loop_mem)

lemma seeothergids_match_mem: "seeothergids_match gs u2 \<longleftrightarrow> (\<exists>g \<in> set gs. groupmember g u2)"
  by (induction gs) auto

lemma debug_grpsubset_mem: "debug_grpsubset gs u1 \<longleftrightarrow> (\<forall>g \<in> set gs. groupmember g u1)"
  by (induction gs) auto

lemma priv_effective:
  assumes "priv_check_cred cf cr p = 0" and "p \<notin> {PRIV_MAXFILES, PRIV_MAXPROC, PRIV_PROC_LIMIT}"
  shows "suser_enabled cf \<and> cr_uid cr = 0"
  using assms by (auto simp: priv_check_cred_def Let_def split: if_splits)

text \<open>The privileges the checks ask for are all open to jailed superusers.\<close>

lemma priv_check_jail_free:
  assumes "suser_enabled cf" and "cr_uid cr = 0"
    and "p \<in> set prison_priv_always" and "p \<notin> {PRIV_MAXFILES, PRIV_MAXPROC, PRIV_PROC_LIMIT}"
  shows "priv_check_cred cf cr p = 0"
  using assms by (simp add: priv_check_cred_def prison_priv_check_def)

lemma prison_check_0: "prison_check u1 u2 = 0 \<longleftrightarrow> (jailed u1 \<longrightarrow> cr_prison u2 = cr_prison u1)"
  by (auto simp: prison_check_def jailed_def)

text \<open>What a grant of \<^verbatim>\<open>p_candebug\<close> on another process means.\<close>

lemma candebug_other:
  assumes "thread_at k t = Some td" and "td_proc td \<noteq> i" and "pair_creds t i k = Some (u1, p, u2)"
  shows "p_candebug cf t i k = Some 0 \<longleftrightarrow>
    (unprivileged_proc_debug cf \<or> priv_check_cred cf u1 PRIV_DEBUG_UNPRIV = 0) \<and>
    prison_check u1 u2 = 0 \<and> cr_seeotheruids cf u1 u2 = 0 \<and> cr_seeothergids cf u1 u2 = 0 \<and>
    ((cr_uid u2 = cr_uid u1 \<and> cr_svuid u2 = cr_uid u1 \<and> cr_ruid u2 = cr_uid u1 \<and>
      groupmember (cr_rgid u2) u1 \<and> groupmember (cr_svgid u2) u1 \<and>
      (\<forall>g \<in> set (take (cr_ngroups u2) (cr_groups u2)). groupmember g u1)) \<or>
     priv_check_cred cf u1 PRIV_DEBUG_DIFFCRED = 0) \<and>
    (p_flag p AND P_SUGID = 0 \<or> priv_check_cred cf u1 PRIV_DEBUG_SUGID = 0) \<and>
    (i = initproc k \<longrightarrow> securelevel_gt cf u1 0 (k_jail k) = Some 0) \<and> p_flag p AND P_INEXEC = 0"
proof -
  have u1: "td_cred t k = Some u1" using assms(3) by (auto simp: pair_creds_def bind_eq_Some_conv)
  show ?thesis
    using assms u1
    by (auto simp: p_candebug_def debug_grpsubset_mem Let_def bind_eq_Some_conv split: if_splits)
qed


lemma signal_other:
  assumes "thread_at k t = Some td" and "td_proc td \<noteq> i" and "proc_at k (td_proc td) = Some q"
    and "pair_creds t i k = Some (u1, p, u2)"
  shows "p_cansignal cf t i sig k = Some
    (if sig = SIGCONT \<and> p_session q = p_session p then 0
     else if p_leader q \<noteq> None \<and> SIGTHR \<le> sig \<and> sig < SIGTHR + 4 \<and> p_leader q = p_leader p then 0
     else cr_cansignal cf u1 p u2 sig)"
proof -
  have "proc_at k i = Some p" using assms(4) by (auto simp: pair_creds_def bind_eq_Some_conv)
  then show ?thesis using assms by (auto simp: p_cansignal_def)
qed

lemma sched_other:
  assumes "thread_at k t = Some td" and "td_proc td \<noteq> i" and "pair_creds t i k = Some (u1, p, u2)"
  shows "p_cansched cf t i k = Some 0 \<longleftrightarrow>
    prison_check u1 u2 = 0 \<and> cr_seeotheruids cf u1 u2 = 0 \<and> cr_seeothergids cf u1 u2 = 0 \<and>
    (cr_ruid u1 = cr_ruid u2 \<or> cr_uid u1 = cr_ruid u2 \<or> priv_check_cred cf u1 PRIV_SCHED_DIFFCRED = 0)"
  using assms by (auto simp: p_cansched_def Let_def)

section \<open>Properties\<close>

text \<open>C13: Debugging is the strongest right: a thread that may debug another process may also see
  it, reschedule it, send it any signal and wait for it.\<close>

theorem debug_dominates:
  assumes "p_candebug cf t i k = Some 0" and "thread_at k t = Some td" and "td_proc td \<noteq> i"
    and "proc_at k (td_proc td) = Some q" and "pair_creds t i k = Some (u1, p, u2)"
  shows "p_cansee cf t i k = Some 0 \<and> p_cansched cf t i k = Some 0 \<and> p_cansignal cf t i sig k = Some 0 \<and>
    p_canwait cf t i k = Some 0"
proof -
  note dbg = assms(1) [unfolded candebug_other [OF assms(2,3,5)]]
  have all: "priv_check_cred cf u1 x = 0"
    if "priv_check_cred cf u1 PRIV_DEBUG_DIFFCRED = 0 \<or> priv_check_cred cf u1 PRIV_DEBUG_SUGID = 0"
      "x \<in> {PRIV_SCHED_DIFFCRED, PRIV_SIGNAL_DIFFCRED, PRIV_SIGNAL_SUGID}" for x
  proof -
    have "suser_enabled cf \<and> cr_uid u1 = 0" using that(1) priv_effective by fastforce
    then show ?thesis using that(2) by (intro priv_check_jail_free) (auto simp: prison_priv_always_def)
  qed
  have "p_cansee cf t i k = Some 0" using dbg assms(5) by (simp add: p_cansee_def cr_cansee_def)
  moreover have ids: "cr_ruid u2 = cr_uid u1 \<or> priv_check_cred cf u1 PRIV_SCHED_DIFFCRED = 0"
      "cr_ruid u2 = cr_uid u1 \<or> priv_check_cred cf u1 PRIV_SIGNAL_DIFFCRED = 0"
      "p_flag p AND P_SUGID = 0 \<or> priv_check_cred cf u1 PRIV_SIGNAL_SUGID = 0"
    using dbg all by blast+
  then have "p_cansched cf t i k = Some 0"
    using dbg unfolding sched_other [OF assms(2,3,5)] by simp metis
  moreover have "cr_cansignal cf u1 p u2 sig = 0"
  proof -
    have base: "prison_check u1 u2 = 0" "cr_seeotheruids cf u1 u2 = 0" "cr_seeothergids cf u1 u2 = 0"
      using dbg by blast+
    show ?thesis using ids(2,3) by (auto simp: cr_cansignal_def base)
  qed
  moreover have "p_canwait cf t i k = Some 0" using dbg assms(5) by (simp add: p_canwait_def)
  ultimately show ?thesis by (simp add: signal_other [OF assms(2-5)])
qed

lemma ex_pair: "pair_creds 0 1 ex_kern = Some (ex_cred 0 0, ex_proc 2 1, ex_cred 1001 1)"
  by (simp add: pair_creds_def td_cred_def thread_at_def proc_at_def ex_cred_at)
     (simp add: ex_kern_def ex_proc_def ex_cred_at [unfolded ex_kern_def])

lemma ex_thread: "thread_at ex_kern 0 = Some \<lparr>td_proc = 0, td_ucred = Some 0, td_retval = 0\<rparr>"
  by (simp add: thread_at_def ex_kern_def)

theorem debug_dominates_witness:
  "p_cansee ex_conf 0 1 ex_kern = Some 0 \<and> p_cansched ex_conf 0 1 ex_kern = Some 0 \<and>
   p_cansignal ex_conf 0 1 SIGKILL ex_kern = Some 0 \<and> p_canwait ex_conf 0 1 ex_kern = Some 0"
proof -
  have "p_candebug ex_conf 0 1 ex_kern = Some 0" by code_simp
  moreover have "proc_at ex_kern 0 = Some (ex_proc 1 0)" by (simp add: proc_at_def ex_kern_def)
  ultimately show ?thesis using debug_dominates [OF _ ex_thread _ _ ex_pair] by simp
qed

text \<open>C14: An ordinary user's debugger gains nothing: it may attach to another process only if every user
  id of that process is the debugger's effective id, all its groups are among the
  debugger's, its ids have not changed since it was executed, and it is in the same prison
  if the debugger is in one.\<close>

theorem debug_unprivileged:
  assumes "p_candebug cf t i k = Some 0" and "thread_at k t = Some td" and "td_proc td \<noteq> i"
    and "pair_creds t i k = Some (u1, p, u2)" and "\<not> suser_enabled cf \<or> cr_uid u1 \<noteq> 0"
  shows "{cr_uid u2, cr_ruid u2, cr_svuid u2} = {cr_uid u1} \<and>
    insert (cr_rgid u2) (insert (cr_svgid u2) (set (take (cr_ngroups u2) (cr_groups u2)))) \<subseteq>
      set (take (cr_ngroups u1) (cr_groups u1)) \<and>
    p_flag p AND P_SUGID = 0 \<and> (jailed u1 \<longrightarrow> cr_prison u2 = cr_prison u1)"
proof -
  have "priv_check_cred cf u1 PRIV_DEBUG_DIFFCRED \<noteq> 0" "priv_check_cred cf u1 PRIV_DEBUG_SUGID \<noteq> 0"
    using assms(5) priv_effective by fastforce+
  then show ?thesis
    using assms(1) unfolding candebug_other [OF assms(2-4)] groupmember_mem prison_check_0 by auto
qed

text \<open>A debugger and its target, both of user 1001.\<close>

definition ex_peers :: kern where
  "ex_peers = ex_kern\<lparr>k_procs := [ex_proc 1 0, ex_proc 2 1, ex_proc 3 1]\<rparr>"

theorem debug_unprivileged_witness:
  "p_candebug ex_conf 1 2 ex_peers = Some 0 \<and> p_flag (ex_proc 3 1) AND P_SUGID = 0"
proof -
  have dbg: "p_candebug ex_conf 1 2 ex_peers = Some 0" by code_simp
  have "thread_at ex_peers 1 = Some \<lparr>td_proc = 1, td_ucred = Some 1, td_retval = 0\<rparr>"
    by (simp add: thread_at_def ex_peers_def ex_kern_def)
  moreover have "pair_creds 1 2 ex_peers = Some (ex_cred 1001 1, ex_proc 3 1, ex_cred 1001 1)" by code_simp
  moreover have "cr_uid (ex_cred 1001 1) \<noteq> 0" by (simp add: ex_cred_def)
  ultimately show ?thesis using debug_unprivileged [OF dbg] dbg by fastforce
qed

text \<open>C15: A jailed subject is confined to its prison: whatever check grants it access to another process
  (seeing, scheduling, debugging, waiting, and signalling except for \<^verbatim>\<open>SIGCONT\<close> within the
  session and the thread signals among processes with the same leader), that process is in the
  same prison, and so is the owner of every socket it can see.\<close>

theorem jail_confines:
  assumes "thread_at k t = Some td" and "td_proc td \<noteq> i" and "proc_at k (td_proc td) = Some q"
    and "pair_creds t i k = Some (u1, p, u2)" and "jailed u1"
    and "p_cansee cf t i k = Some 0 \<or> p_cansched cf t i k = Some 0 \<or> p_candebug cf t i k = Some 0 \<or>
      p_canwait cf t i k = Some 0 \<or> cr_canseesocket cf u1 u2 = 0 \<or> cr_canseeinpcb cf u1 u2 = 0 \<or>
      (p_cansignal cf t i sig k = Some 0 \<and> (sig \<noteq> SIGCONT \<or> p_session q \<noteq> p_session p) \<and>
       (p_leader q = None \<or> p_leader q \<noteq> p_leader p \<or> sig < SIGTHR \<or> SIGTHR + 4 \<le> sig))"
  shows "cr_prison u2 = cr_prison u1"
proof -
  consider (see) "p_cansee cf t i k = Some 0" | (sched) "p_cansched cf t i k = Some 0"
    | (debug) "p_candebug cf t i k = Some 0" | (wait) "p_canwait cf t i k = Some 0"
    | (sock) "cr_canseesocket cf u1 u2 = 0" | (inpcb) "cr_canseeinpcb cf u1 u2 = 0"
    | (signal) "p_cansignal cf t i sig k = Some 0" "sig \<noteq> SIGCONT \<or> p_session q \<noteq> p_session p"
        "p_leader q = None \<or> p_leader q \<noteq> p_leader p \<or> sig < SIGTHR \<or> SIGTHR + 4 \<le> sig"
    using assms(6) by blast
  then have "prison_check u1 u2 = 0"
  proof cases
    case see
    then show ?thesis using assms(4) by (auto simp: p_cansee_def cr_cansee_def Let_def split: if_splits)
  next
    case sched
    then show ?thesis unfolding sched_other [OF assms(1,2,4)] by blast
  next
    case debug
    then show ?thesis unfolding candebug_other [OF assms(1,2,4)] by blast
  next
    case wait
    then show ?thesis using assms(4) by (simp add: p_canwait_def)
  next
    case signal
    then have "cr_cansignal cf u1 p u2 sig = 0"
      unfolding signal_other [OF assms(1-4)] by (auto split: if_splits)
    then show ?thesis by (auto simp: cr_cansignal_def Let_def split: if_splits)
  qed (simp_all add: cr_canseesocket_def cr_canseeinpcb_def split: if_splits)
  then show ?thesis using assms(5) by (simp add: prison_check_0)
qed


text \<open>Two processes of user 1001 in the same prison.\<close>

definition ex_jailed :: kern where
  "ex_jailed = ex_peers\<lparr>k_ucreds := [Some (ex_cred 0 0), Some ((ex_cred 1001 1)\<lparr>cr_prison := Some 0\<rparr>)]\<rparr>"

theorem jail_confines_witness:
  "pair_creds 1 2 ex_jailed = Some ((ex_cred 1001 1)\<lparr>cr_prison := Some 0\<rparr>, ex_proc 3 1, (ex_cred 1001 1)\<lparr>cr_prison := Some 0\<rparr>) \<and>
   cr_prison ((ex_cred 1001 1)\<lparr>cr_prison := Some (0 :: nat)\<rparr>) = Some 0"
proof -
  let ?c = "(ex_cred 1001 1)\<lparr>cr_prison := Some 0\<rparr>"
  have pair: "pair_creds 1 2 ex_jailed = Some (?c, ex_proc 3 1, ?c)" by code_simp
  have "p_cansee ex_conf 1 2 ex_jailed = Some 0" by code_simp
  moreover have "thread_at ex_jailed 1 = Some \<lparr>td_proc = 1, td_ucred = Some 1, td_retval = 0\<rparr>"
    "proc_at ex_jailed 1 = Some (ex_proc 2 1)"
    by (simp_all add: thread_at_def proc_at_def ex_jailed_def ex_peers_def ex_kern_def)
  moreover have "jailed ?c" by (simp add: jailed_def)
  ultimately have "cr_prison ?c = cr_prison ?c" using jail_confines [OF _ _ _ pair] by simp
  then show ?thesis using pair by simp
qed

text \<open>C7: A process that has changed its ids is out of reach of ordinary users: after any sequence of
  credential calls that changed the ids of a process, no thread of another process
  with an unprivileged credential may debug it, and the only signals such a thread may send it
  are the termination and job control signals, \<^verbatim>\<open>SIGCONT\<close> in the same session and the thread
  signals under the same leader.\<close>

theorem changed_process_protected:
  assumes "steps cf HC HU HP k k'" and "kern_inv 0 k HC HU HP (\<lambda>_. 0)" and "proc_at k i = Some p0"
    and "proc_ids k' i \<noteq> proc_ids k i"
    and "thread_at k' t = Some td" and "td_proc td \<noteq> i" and "proc_at k' (td_proc td) = Some q"
    and "pair_creds t i k' = Some (u1, p, u2)" and "\<not> suser_enabled cf \<or> cr_uid u1 \<noteq> 0"
  shows "p_candebug cf t i k' \<noteq> Some 0 \<and>
    (conservative_signals cf \<longrightarrow> p_cansignal cf t i sig k' = Some 0 \<longrightarrow>
      sig \<in> {0, SIGKILL, SIGINT, SIGTERM, SIGALRM, SIGSTOP, SIGTTIN, SIGTTOU, SIGTSTP, SIGHUP, SIGUSR1, SIGUSR2} \<or>
      sig = SIGCONT \<and> p_session q = p_session p \<or>
      SIGTHR \<le> sig \<and> sig < SIGTHR + 4 \<and> p_leader q = p_leader p)"
proof -
  have p: "proc_at k' i = Some p" using assms(8) by (auto simp: pair_creds_def bind_eq_Some_conv)
  then have sug: "p_flag p AND P_SUGID \<noteq> 0" using steps_taint [OF assms(1-3)] assms(4) by auto
  have no: "priv_check_cred cf u1 PRIV_DEBUG_SUGID \<noteq> 0" "priv_check_cred cf u1 PRIV_SIGNAL_SUGID \<noteq> 0"
    using assms(9) priv_effective by fastforce+
  have "p_candebug cf t i k' \<noteq> Some 0"
    unfolding candebug_other [OF assms(5,6,8)] using sug no(1) by blast
  moreover have "cr_cansignal cf u1 p u2 sig \<noteq> 0"
    if "conservative_signals cf" "sig \<notin> {0, SIGKILL, SIGINT, SIGTERM, SIGALRM, SIGSTOP, SIGTTIN,
      SIGTTOU, SIGTSTP, SIGHUP, SIGUSR1, SIGUSR2}"
    using that sug no(2) by (auto simp: cr_cansignal_def Let_def)
  ultimately show ?thesis unfolding signal_other [OF assms(5-8)] by (auto split: if_splits)
qed

theorem changed_process_protected_witness:
  "p_candebug ex_conf 1 0 (snd (the (setuid ex_conf 0 1001 ex_kern))) \<noteq> Some 0"
proof -
  obtain k' where k': "setuid ex_conf 0 1001 ex_kern = Some (0, k')" using ex_eval by auto
  have "step ex_conf {#} {#} {#} ex_kern k'"
    by (rule step.call [OF ex_room ex_thread, of "Setuid 1001" ex_conf 0]) (simp_all add: k')
  then have st: "steps ex_conf {#} {#} {#} ex_kern k'" by (rule r_into_rtranclp)
  have "map_option (\<lambda>(e, k). map_option cr_uid (proc_ids k 0)) (setuid ex_conf 0 1001 ex_kern) = Some (Some 1001)"
    "map_option cr_uid (proc_ids ex_kern 0) = Some 0" by code_simp+
  then have ne: "proc_ids k' 0 \<noteq> proc_ids ex_kern 0" using k' by auto
  have "map_option (\<lambda>(e, k). (map_option td_proc (thread_at k 1), proc_at k 1 \<noteq> None,
      map_option (\<lambda>(u1, _). cr_uid u1) (pair_creds 1 0 k))) (setuid ex_conf 0 1001 ex_kern) = Some (Some 1, True, Some 1001)"
    by code_simp
  then obtain td q u1 p u2 where "thread_at k' 1 = Some td" "td_proc td = 1" "proc_at k' 1 = Some q"
    "pair_creds 1 0 k' = Some (u1, p, u2)" "cr_uid u1 = 1001" using k' by auto
  moreover have "proc_at ex_kern 0 = Some (ex_proc 1 0)" by (simp add: proc_at_def ex_kern_def)
  ultimately show ?thesis using changed_process_protected [OF st ex_good0 _ ne] k' by simp
qed

end
