(* ===== verification/Vaccess.thy ===== *)
theory Vaccess
  imports Ucred
begin

text \<open>
  Discretionary access control on files: \<^verbatim>\<open>vaccess\<close> (\<^verbatim>\<open>src/sys/kern/vfs_subr.c\<close>), which reads
  the file mode, and \<^verbatim>\<open>src/sys/kern/subr_acl_posix1e.c\<close>, which evaluates an access control
  list and converts between lists and modes. The permission check of System V IPC
  objects (\<^verbatim>\<open>src/sys/kern/sysv_ipc.c\<close>) has the same shape.

  A check returns the error number and whether privilege was used (\<^verbatim>\<open>*privused\<close>).
\<close>

section \<open>File modes\<close>

type_synonym mode = "16 word"
type_synonym accmode = "32 word"

datatype vtype = VNON | VREG | VDIR | VBLK | VCHR | VLNK | VSOCK | VFIFO | VBAD | VMARKER

abbreviation (input) VEXEC :: accmode where "VEXEC \<equiv> 0x40"
abbreviation (input) VWRITE :: accmode where "VWRITE \<equiv> 0x80"
abbreviation (input) VREAD :: accmode where "VREAD \<equiv> 0x100"
abbreviation (input) VADMIN :: accmode where "VADMIN \<equiv> 0x1000"
abbreviation (input) VAPPEND :: accmode where "VAPPEND \<equiv> 0x4000"

abbreviation (input) S_IRUSR :: mode where "S_IRUSR \<equiv> 0x100"
abbreviation (input) S_IWUSR :: mode where "S_IWUSR \<equiv> 0x80"
abbreviation (input) S_IXUSR :: mode where "S_IXUSR \<equiv> 0x40"
abbreviation (input) S_IRGRP :: mode where "S_IRGRP \<equiv> 0x20"
abbreviation (input) S_IWGRP :: mode where "S_IWGRP \<equiv> 0x10"
abbreviation (input) S_IXGRP :: mode where "S_IXGRP \<equiv> 0x8"
abbreviation (input) S_IROTH :: mode where "S_IROTH \<equiv> 0x4"
abbreviation (input) S_IWOTH :: mode where "S_IWOTH \<equiv> 0x2"
abbreviation (input) S_IXOTH :: mode where "S_IXOTH \<equiv> 0x1"

text \<open>\<^verbatim>\<open>if (b) v |= m;\<close>\<close>

definition or_if :: "bool \<Rightarrow> 'a::len word \<Rightarrow> 'a word \<Rightarrow> 'a word" where
  "or_if b m v = (if b then v OR m else v)"

definition acc_error :: "accmode \<Rightarrow> errno" where
  "acc_error accmode = (if accmode AND VADMIN \<noteq> 0 then EPERM else EACCES)"

text \<open>The part of \<^verbatim>\<open>vaccess\<close> from the label \<^verbatim>\<open>privcheck\<close> on.\<close>

definition vaccess_priv_granted ::
  "sysconf \<Rightarrow> vtype \<Rightarrow> accmode \<Rightarrow> ucred \<Rightarrow> accmode \<Rightarrow> accmode" where
  "vaccess_priv_granted cf type accmode cred dac_granted =
     (let priv_granted = 0;
          priv_granted =
            (if type = VDIR
             then or_if (accmode AND VEXEC \<noteq> 0 \<and> dac_granted AND VEXEC = 0 \<and>
                         priv_check_cred cf cred PRIV_VFS_LOOKUP = 0) VEXEC priv_granted
             else or_if (accmode AND VEXEC \<noteq> 0 \<and> dac_granted AND VEXEC = 0 \<and>
                         priv_check_cred cf cred PRIV_VFS_EXEC = 0) VEXEC priv_granted);
          priv_granted = or_if (accmode AND VREAD \<noteq> 0 \<and> dac_granted AND VREAD = 0 \<and>
                         priv_check_cred cf cred PRIV_VFS_READ = 0) VREAD priv_granted;
          priv_granted = or_if (accmode AND VWRITE \<noteq> 0 \<and> dac_granted AND VWRITE = 0 \<and>
                         priv_check_cred cf cred PRIV_VFS_WRITE = 0) (VWRITE OR VAPPEND) priv_granted
      in or_if (accmode AND VADMIN \<noteq> 0 \<and> dac_granted AND VADMIN = 0 \<and>
           priv_check_cred cf cred PRIV_VFS_ADMIN = 0) VADMIN priv_granted)"

definition vaccess_privcheck ::
  "sysconf \<Rightarrow> vtype \<Rightarrow> accmode \<Rightarrow> ucred \<Rightarrow> accmode \<Rightarrow> errno \<times> bool" where
  "vaccess_privcheck cf type accmode cred dac_granted =
     (let priv_granted = vaccess_priv_granted cf type accmode cred dac_granted
      in if accmode AND (priv_granted OR dac_granted) = accmode then (0, True)
         else (acc_error accmode, False))"

definition vaccess ::
  "sysconf \<Rightarrow> vtype \<Rightarrow> mode \<Rightarrow> uid \<Rightarrow> gid \<Rightarrow> accmode \<Rightarrow> ucred \<Rightarrow> errno \<times> bool" where
  "vaccess cf type file_mode file_uid file_gid accmode cred =
     (let dac_granted = 0 in
      if cr_uid cred = file_uid then
        let dac_granted = dac_granted OR VADMIN;
            dac_granted = or_if (file_mode AND S_IXUSR \<noteq> 0) VEXEC dac_granted;
            dac_granted = or_if (file_mode AND S_IRUSR \<noteq> 0) VREAD dac_granted;
            dac_granted = or_if (file_mode AND S_IWUSR \<noteq> 0) (VWRITE OR VAPPEND) dac_granted
        in if accmode AND dac_granted = accmode then (0, False)
           else vaccess_privcheck cf type accmode cred dac_granted
      else if groupmember file_gid cred then
        let dac_granted = or_if (file_mode AND S_IXGRP \<noteq> 0) VEXEC dac_granted;
            dac_granted = or_if (file_mode AND S_IRGRP \<noteq> 0) VREAD dac_granted;
            dac_granted = or_if (file_mode AND S_IWGRP \<noteq> 0) (VWRITE OR VAPPEND) dac_granted
        in if accmode AND dac_granted = accmode then (0, False)
           else vaccess_privcheck cf type accmode cred dac_granted
      else
        let dac_granted = or_if (file_mode AND S_IXOTH \<noteq> 0) VEXEC dac_granted;
            dac_granted = or_if (file_mode AND S_IROTH \<noteq> 0) VREAD dac_granted;
            dac_granted = or_if (file_mode AND S_IWOTH \<noteq> 0) (VWRITE OR VAPPEND) dac_granted
        in if accmode AND dac_granted = accmode then (0, False)
           else vaccess_privcheck cf type accmode cred dac_granted)"

section \<open>Access control lists\<close>

abbreviation (input) ACL_USER_OBJ :: int where "ACL_USER_OBJ \<equiv> 1"
abbreviation (input) ACL_USER :: int where "ACL_USER \<equiv> 2"
abbreviation (input) ACL_GROUP_OBJ :: int where "ACL_GROUP_OBJ \<equiv> 4"
abbreviation (input) ACL_GROUP :: int where "ACL_GROUP \<equiv> 8"
abbreviation (input) ACL_MASK :: int where "ACL_MASK \<equiv> 0x10"
abbreviation (input) ACL_OTHER :: int where "ACL_OTHER \<equiv> 0x20"
abbreviation (input) ACL_EXECUTE :: mode where "ACL_EXECUTE \<equiv> 1"
abbreviation (input) ACL_WRITE :: mode where "ACL_WRITE \<equiv> 2"
abbreviation (input) ACL_READ :: mode where "ACL_READ \<equiv> 4"
abbreviation (input) ACL_PERM_BITS :: mode where "ACL_PERM_BITS \<equiv> 7"
abbreviation (input) ACL_UNDEFINED_ID :: uid where "ACL_UNDEFINED_ID \<equiv> - 1"
abbreviation (input) ACL_MAX_ENTRIES :: int where "ACL_MAX_ENTRIES \<equiv> 32"

record acl_entry =
  ae_tag :: int
  ae_id :: uid
  ae_perm :: mode

text \<open>The array has \<^verbatim>\<open>ACL_MAX_ENTRIES\<close> entries, of which the first \<^verbatim>\<open>acl_cnt\<close> count.\<close>

record acl =
  acl_cnt :: int
  acl_entry :: "acl_entry list"

definition acl_entries :: "acl \<Rightarrow> acl_entry list" where
  "acl_entries a = take (nat (acl_cnt a)) (acl_entry a)"

text \<open>The three lines that turn the permission bits of an entry into rights.\<close>

definition perm_granted :: "mode \<Rightarrow> accmode \<Rightarrow> accmode" where
  "perm_granted perm granted =
     or_if (perm AND ACL_WRITE \<noteq> 0) (VWRITE OR VAPPEND)
       (or_if (perm AND ACL_READ \<noteq> 0) VREAD (or_if (perm AND ACL_EXECUTE \<noteq> 0) VEXEC granted))"

text \<open>
  The first loop stops at the owner's entry; otherwise it has found the last mask and
  other entries.
\<close>

datatype acl_scan = Owner acl_entry | Cached "acl_entry option" "acl_entry option"

fun acl_scan_owner :: "bool \<Rightarrow> acl_entry option \<Rightarrow> acl_entry option \<Rightarrow> acl_entry list \<Rightarrow> acl_scan" where
  "acl_scan_owner own msk other [] = Cached msk other"
| "acl_scan_owner own msk other (e # es) =
     (if ae_tag e = ACL_USER_OBJ then
        (if \<not> own then acl_scan_owner own msk other es else Owner e)
      else if ae_tag e = ACL_MASK then acl_scan_owner own (Some e) other es
      else if ae_tag e = ACL_OTHER then acl_scan_owner own msk (Some e) es
      else acl_scan_owner own msk other es)"

fun acl_scan_user :: "uid \<Rightarrow> acl_entry list \<Rightarrow> acl_entry option" where
  "acl_scan_user uid [] = None"
| "acl_scan_user uid (e # es) =
     (if ae_tag e = ACL_USER then (if ae_id e \<noteq> uid then acl_scan_user uid es else Some e)
      else acl_scan_user uid es)"

definition acl_group_applies :: "gid \<Rightarrow> ucred \<Rightarrow> acl_entry \<Rightarrow> bool" where
  "acl_group_applies file_gid cred e =
     (if ae_tag e = ACL_GROUP_OBJ then groupmember file_gid cred
      else if ae_tag e = ACL_GROUP then groupmember (ae_id e) cred
      else False)"

text \<open>The group loop without privilege: \<open>None\<close> when it grants access, otherwise \<^verbatim>\<open>group_matched\<close>.\<close>

fun acl_scan_groups ::
  "gid \<Rightarrow> ucred \<Rightarrow> accmode \<Rightarrow> accmode \<Rightarrow> bool \<Rightarrow> acl_entry list \<Rightarrow> bool option" where
  "acl_scan_groups file_gid cred accmode mask_granted matched [] = Some matched"
| "acl_scan_groups file_gid cred accmode mask_granted matched (e # es) =
     (if acl_group_applies file_gid cred e then
        let dac_granted = perm_granted (ae_perm e) 0 AND mask_granted
        in if accmode AND dac_granted = accmode then None
           else acl_scan_groups file_gid cred accmode mask_granted True es
      else acl_scan_groups file_gid cred accmode mask_granted matched es)"

fun acl_scan_groups_priv ::
  "gid \<Rightarrow> ucred \<Rightarrow> accmode \<Rightarrow> accmode \<Rightarrow> accmode \<Rightarrow> acl_entry list \<Rightarrow> bool" where
  "acl_scan_groups_priv file_gid cred accmode mask_granted priv_granted [] = False"
| "acl_scan_groups_priv file_gid cred accmode mask_granted priv_granted (e # es) =
     (if acl_group_applies file_gid cred e then
        let dac_granted = perm_granted (ae_perm e) 0 AND mask_granted
        in if accmode AND (dac_granted OR priv_granted) \<noteq> accmode
           then acl_scan_groups_priv file_gid cred accmode mask_granted priv_granted es
           else True
      else acl_scan_groups_priv file_gid cred accmode mask_granted priv_granted es)"

definition acl_priv_granted :: "sysconf \<Rightarrow> vtype \<Rightarrow> accmode \<Rightarrow> ucred \<Rightarrow> accmode" where
  "acl_priv_granted cf type accmode cred =
     (let priv_granted = 0;
          priv_granted =
            (if type = VDIR
             then or_if (accmode AND VEXEC \<noteq> 0 \<and> priv_check_cred cf cred PRIV_VFS_LOOKUP = 0) VEXEC priv_granted
             else or_if (accmode AND VEXEC \<noteq> 0 \<and> priv_check_cred cf cred PRIV_VFS_EXEC = 0) VEXEC priv_granted);
          priv_granted = or_if (accmode AND VREAD \<noteq> 0 \<and> priv_check_cred cf cred PRIV_VFS_READ = 0)
                           VREAD priv_granted;
          priv_granted = or_if ((accmode AND VWRITE \<noteq> 0 \<or> accmode AND VAPPEND \<noteq> 0) \<and>
                           priv_check_cred cf cred PRIV_VFS_WRITE = 0) (VWRITE OR VAPPEND) priv_granted
      in or_if (accmode AND VADMIN \<noteq> 0 \<and> priv_check_cred cf cred PRIV_VFS_ADMIN = 0)
           VADMIN priv_granted)"

definition vaccess_acl_posix1e ::
  "sysconf \<Rightarrow> vtype \<Rightarrow> uid \<Rightarrow> gid \<Rightarrow> acl \<Rightarrow> accmode \<Rightarrow> ucred \<Rightarrow> errno \<times> bool" where
  "vaccess_acl_posix1e cf type file_uid file_gid a accmode cred =
     (let priv_granted = acl_priv_granted cf type accmode cred;
          es = acl_entries a
      in case acl_scan_owner (file_uid = cr_uid cred) None None es of
        Owner e \<Rightarrow>
          (let dac_granted = perm_granted (ae_perm e) VADMIN
           in if accmode AND dac_granted = accmode then (0, False)
              else if accmode AND (dac_granted OR priv_granted) = accmode then (0, True)
              else (acc_error accmode, False))
      | Cached acl_mask acl_other \<Rightarrow>
          (case acl_other of
             None \<Rightarrow> (EPERM, False)
           | Some other \<Rightarrow>
               (let acl_mask_granted =
                      (case acl_mask of
                         Some m \<Rightarrow> perm_granted (ae_perm m) 0
                       | None \<Rightarrow> VEXEC OR VREAD OR VWRITE OR VAPPEND)
                in case acl_scan_user (cr_uid cred) es of
                     Some e \<Rightarrow>
                       (let dac_granted = perm_granted (ae_perm e) 0 AND acl_mask_granted
                        in if accmode AND dac_granted = accmode then (0, False)
                           else if accmode AND (dac_granted OR priv_granted) \<noteq> accmode
                           then (acc_error accmode, False)
                           else (0, True))
                   | None \<Rightarrow>
                       (case acl_scan_groups file_gid cred accmode acl_mask_granted False es of
                          None \<Rightarrow> (0, False)
                        | Some True \<Rightarrow>
                            (if acl_scan_groups_priv file_gid cred accmode acl_mask_granted priv_granted es
                             then (0, True) else (acc_error accmode, False))
                        | Some False \<Rightarrow>
                            (let dac_granted = perm_granted (ae_perm other) 0
                             in if accmode AND dac_granted = accmode then (0, False)
                                else if accmode AND (dac_granted OR priv_granted) = accmode then (0, True)
                                else (acc_error accmode, False))))))"

section \<open>Lists and modes\<close>

definition acl_posix1e_mode_to_perm :: "int \<Rightarrow> mode \<Rightarrow> mode" where
  "acl_posix1e_mode_to_perm tag mode =
     (let perm = 0 in
      if tag = ACL_USER_OBJ then
        or_if (mode AND S_IWUSR \<noteq> 0) ACL_WRITE
          (or_if (mode AND S_IRUSR \<noteq> 0) ACL_READ (or_if (mode AND S_IXUSR \<noteq> 0) ACL_EXECUTE perm))
      else if tag = ACL_GROUP_OBJ then
        or_if (mode AND S_IWGRP \<noteq> 0) ACL_WRITE
          (or_if (mode AND S_IRGRP \<noteq> 0) ACL_READ (or_if (mode AND S_IXGRP \<noteq> 0) ACL_EXECUTE perm))
      else if tag = ACL_OTHER then
        or_if (mode AND S_IWOTH \<noteq> 0) ACL_WRITE
          (or_if (mode AND S_IROTH \<noteq> 0) ACL_READ (or_if (mode AND S_IXOTH \<noteq> 0) ACL_EXECUTE perm))
      else 0)"

definition acl_posix1e_mode_to_entry :: "int \<Rightarrow> uid \<Rightarrow> gid \<Rightarrow> mode \<Rightarrow> acl_entry" where
  "acl_posix1e_mode_to_entry tag uid gid mode =
     \<lparr>ae_tag = tag,
      ae_id = (if tag = ACL_USER_OBJ then uid else if tag = ACL_GROUP_OBJ then gid
               else if tag = ACL_OTHER then ACL_UNDEFINED_ID else ACL_UNDEFINED_ID),
      ae_perm = acl_posix1e_mode_to_perm tag mode\<rparr>"

definition acl_posix1e_perms_to_mode :: "acl_entry \<Rightarrow> acl_entry \<Rightarrow> acl_entry \<Rightarrow> mode" where
  "acl_posix1e_perms_to_mode user_obj group_obj other =
     (let mode = 0;
          mode = or_if (ae_perm user_obj AND ACL_EXECUTE \<noteq> 0) S_IXUSR mode;
          mode = or_if (ae_perm user_obj AND ACL_READ \<noteq> 0) S_IRUSR mode;
          mode = or_if (ae_perm user_obj AND ACL_WRITE \<noteq> 0) S_IWUSR mode;
          mode = or_if (ae_perm group_obj AND ACL_EXECUTE \<noteq> 0) S_IXGRP mode;
          mode = or_if (ae_perm group_obj AND ACL_READ \<noteq> 0) S_IRGRP mode;
          mode = or_if (ae_perm group_obj AND ACL_WRITE \<noteq> 0) S_IWGRP mode;
          mode = or_if (ae_perm other AND ACL_EXECUTE \<noteq> 0) S_IXOTH mode;
          mode = or_if (ae_perm other AND ACL_READ \<noteq> 0) S_IROTH mode
      in or_if (ae_perm other AND ACL_WRITE \<noteq> 0) S_IWOTH mode)"

text \<open>The last entry of each kind that the loop of \<^verbatim>\<open>acl_posix1e_acl_to_mode\<close> saw; \<open>None\<close> is a panic.\<close>

record acl_found =
  f_user_obj :: "acl_entry option"
  f_group_obj :: "acl_entry option"
  f_other :: "acl_entry option"
  f_mask :: "acl_entry option"

fun acl_find_base :: "acl_entry list \<Rightarrow> acl_found \<Rightarrow> acl_found option" where
  "acl_find_base [] f = Some f"
| "acl_find_base (e # es) f =
     (if ae_tag e = ACL_USER_OBJ then acl_find_base es (f\<lparr>f_user_obj := Some e\<rparr>)
      else if ae_tag e = ACL_GROUP_OBJ then acl_find_base es (f\<lparr>f_group_obj := Some e\<rparr>)
      else if ae_tag e = ACL_OTHER then acl_find_base es (f\<lparr>f_other := Some e\<rparr>)
      else if ae_tag e = ACL_MASK then acl_find_base es (f\<lparr>f_mask := Some e\<rparr>)
      else if ae_tag e = ACL_USER \<or> ae_tag e = ACL_GROUP then acl_find_base es f
      else None)"

definition acl_posix1e_acl_to_mode :: "acl \<Rightarrow> mode option" where
  "acl_posix1e_acl_to_mode a =
     do { f \<leftarrow> acl_find_base (acl_entries a) \<lparr>f_user_obj = None, f_group_obj = None, f_other = None, f_mask = None\<rparr>;
          user_obj \<leftarrow> f_user_obj f;
          group_obj \<leftarrow> f_group_obj f;
          other \<leftarrow> f_other f;
          case f_mask f of
            Some msk \<Rightarrow> Some (acl_posix1e_perms_to_mode user_obj msk other)
          | None \<Rightarrow> Some (acl_posix1e_perms_to_mode user_obj group_obj other) }"

record acl_counts =
  num_acl_user_obj :: int
  num_acl_user :: int
  num_acl_group_obj :: int
  num_acl_group :: int
  num_acl_mask :: int
  num_acl_other :: int

text \<open>
  The loop of \<^verbatim>\<open>acl_posix1e_check\<close>. It overwrites the ids of entries that have no
  qualifier, so the entries come back as they are left; no counts is \<^verbatim>\<open>EINVAL\<close>.
\<close>

fun acl_check_entries :: "acl_entry list \<Rightarrow> acl_counts \<Rightarrow> acl_counts option \<times> acl_entry list" where
  "acl_check_entries [] n = (Some n, [])"
| "acl_check_entries (e # es) n =
     (let blank = e\<lparr>ae_id := ACL_UNDEFINED_ID\<rparr>;
          step = (if ae_tag e = ACL_USER_OBJ then Some (blank, n\<lparr>num_acl_user_obj := num_acl_user_obj n + 1\<rparr>)
                  else if ae_tag e = ACL_GROUP_OBJ then Some (blank, n\<lparr>num_acl_group_obj := num_acl_group_obj n + 1\<rparr>)
                  else if ae_tag e = ACL_USER then
                    (if ae_id e = ACL_UNDEFINED_ID then None else Some (e, n\<lparr>num_acl_user := num_acl_user n + 1\<rparr>))
                  else if ae_tag e = ACL_GROUP then
                    (if ae_id e = ACL_UNDEFINED_ID then None else Some (e, n\<lparr>num_acl_group := num_acl_group n + 1\<rparr>))
                  else if ae_tag e = ACL_OTHER then Some (blank, n\<lparr>num_acl_other := num_acl_other n + 1\<rparr>)
                  else if ae_tag e = ACL_MASK then Some (blank, n\<lparr>num_acl_mask := num_acl_mask n + 1\<rparr>)
                  else None)
      in case step of
           None \<Rightarrow> (None, e # es)
         | Some (e, n) \<Rightarrow>
             if (ae_perm e OR ACL_PERM_BITS) \<noteq> ACL_PERM_BITS then (None, e # es)
             else let (r, es) = acl_check_entries es n in (r, e # es))"

definition acl_posix1e_check :: "acl \<Rightarrow> errno \<times> acl" where
  "acl_posix1e_check a =
     (if acl_cnt a > ACL_MAX_ENTRIES \<or> acl_cnt a < 0 then (EINVAL, a)
      else let n0 = \<lparr>num_acl_user_obj = 0, num_acl_user = 0, num_acl_group_obj = 0, num_acl_group = 0,
                     num_acl_mask = 0, num_acl_other = 0\<rparr>;
               (r, es) = acl_check_entries (acl_entries a) n0;
               a = a\<lparr>acl_entry := es @ drop (nat (acl_cnt a)) (acl_entry a)\<rparr>
           in case r of
                None \<Rightarrow> (EINVAL, a)
              | Some n \<Rightarrow>
                  if num_acl_user_obj n \<noteq> 1 \<or> num_acl_group_obj n \<noteq> 1 \<or> num_acl_other n \<noteq> 1 \<or>
                     (num_acl_mask n \<noteq> 0 \<and> num_acl_mask n \<noteq> 1) then (EINVAL, a)
                  else if (num_acl_group n \<noteq> 0 \<or> num_acl_user n \<noteq> 0) \<and> num_acl_mask n \<noteq> 1 then (EINVAL, a)
                  else (0, a))"

abbreviation (input) ACL_OVERRIDE_MASK :: mode where "ACL_OVERRIDE_MASK \<equiv> 0x1ff"

definition acl_posix1e_newfilemode :: "mode \<Rightarrow> acl \<Rightarrow> mode option" where
  "acl_posix1e_newfilemode cmode dacl =
     do { m \<leftarrow> acl_posix1e_acl_to_mode dacl;
          Some ((cmode AND NOT ACL_OVERRIDE_MASK) OR (ACL_OVERRIDE_MASK AND cmode AND m)) }"

section \<open>System V IPC objects\<close>

text \<open>
  The ids of \<^verbatim>\<open>struct ipc_perm\<close> are 16 bits wide, user ids 32; a comparison widens the
  short one. \<^verbatim>\<open>obj_mode\<close> is an \<^verbatim>\<open>int\<close>.
\<close>

record ipc_perm =
  ipc_cuid :: "16 word"
  ipc_cgid :: "16 word"
  ipc_uid :: "16 word"
  ipc_gid :: "16 word"
  ipc_mode :: "16 word"
  ipc_seq :: "16 word"
  ipc_key :: "32 word"

abbreviation (input) IPC_R :: "32 word" where "IPC_R \<equiv> 0x100"
abbreviation (input) IPC_W :: "32 word" where "IPC_W \<equiv> 0x80"
abbreviation (input) IPC_M :: "32 word" where "IPC_M \<equiv> 0x1000"

definition ipcperm :: "sysconf \<Rightarrow> ucred \<Rightarrow> ipc_perm \<Rightarrow> 32 word \<Rightarrow> errno" where
  "ipcperm cf cred perm acc_mode =
     (let dac_granted = 0;
          owner = (cr_uid cred = ucast (ipc_cuid perm) \<or> cr_uid cred = ucast (ipc_uid perm));
          obj_mode = (if owner then ucast (ipc_mode perm)
                      else if groupmember (ucast (ipc_gid perm)) cred \<or> groupmember (ucast (ipc_cgid perm)) cred
                      then push_bit 3 (ucast (ipc_mode perm))
                      else push_bit 6 (ucast (ipc_mode perm))) :: 32 word;
          dac_granted = or_if owner IPC_M dac_granted;
          dac_granted = or_if (obj_mode AND IPC_R \<noteq> 0) IPC_R dac_granted;
          dac_granted = or_if (obj_mode AND IPC_W \<noteq> 0) IPC_W dac_granted
      in if dac_granted AND acc_mode = acc_mode then 0
         else
           let priv_granted = 0;
               priv_granted = or_if (acc_mode AND IPC_M \<noteq> 0 \<and> dac_granted AND IPC_M = 0 \<and>
                                priv_check_cred cf cred PRIV_IPC_ADMIN = 0) IPC_M priv_granted;
               priv_granted = or_if (acc_mode AND IPC_R \<noteq> 0 \<and> dac_granted AND IPC_R = 0 \<and>
                                priv_check_cred cf cred PRIV_IPC_READ = 0) IPC_R priv_granted;
               priv_granted = or_if (acc_mode AND IPC_W \<noteq> 0 \<and> dac_granted AND IPC_W = 0 \<and>
                                priv_check_cred cf cred PRIV_IPC_WRITE = 0) IPC_W priv_granted
           in if (dac_granted OR priv_granted) AND acc_mode = acc_mode then 0 else EACCES)"

end
