(* ===== verification/VaccessProps.thy ===== *)
theory VaccessProps
  imports Vaccess Examples
begin

text \<open>
  File access by mode and by access control list agree where both apply; lists that pass
  the check can be turned into a mode; and what privilege and the 16-bit ids of IPC objects do.
\<close>

section \<open>Rights as bits\<close>

lemma bit_or_if: "bit (or_if b m v) n \<longleftrightarrow> bit v n \<or> b \<and> bit m n"
  by (simp add: or_if_def bit_simps)

lemma covered_iff: "acc AND g = (acc :: 'a::len word) \<longleftrightarrow> (\<forall>n. bit acc n \<longrightarrow> bit g n)"
proof
  assume "acc AND g = acc"
  then show "\<forall>n. bit acc n \<longrightarrow> bit g n" by (metis bit_and_iff)
next
  assume "\<forall>n. bit acc n \<longrightarrow> bit g n"
  then show "acc AND g = acc" by (intro bit_eqI) (auto simp: bit_and_iff)
qed

lemma flag_bits:
  fixes w :: "'a::len word"
  shows "w AND 1 = 0 \<longleftrightarrow> \<not> bit w 0" "w AND 2 = 0 \<longleftrightarrow> \<not> bit w 1" "w AND 4 = 0 \<longleftrightarrow> \<not> bit w 2"
    "w AND 8 = 0 \<longleftrightarrow> \<not> bit w 3" "w AND 0x10 = 0 \<longleftrightarrow> \<not> bit w 4" "w AND 0x20 = 0 \<longleftrightarrow> \<not> bit w 5"
    "w AND 0x40 = 0 \<longleftrightarrow> \<not> bit w 6" "w AND 0x80 = 0 \<longleftrightarrow> \<not> bit w 7" "w AND 0x100 = 0 \<longleftrightarrow> \<not> bit w 8"
    "w AND 0x1000 = 0 \<longleftrightarrow> \<not> bit w 12" "w AND 0x4000 = 0 \<longleftrightarrow> \<not> bit w 14"
  using and_exp_eq_0_iff_not_bit [of w 0] and_exp_eq_0_iff_not_bit [of w 1]
    and_exp_eq_0_iff_not_bit [of w 2] and_exp_eq_0_iff_not_bit [of w 3]
    and_exp_eq_0_iff_not_bit [of w 4] and_exp_eq_0_iff_not_bit [of w 5]
    and_exp_eq_0_iff_not_bit [of w 6] and_exp_eq_0_iff_not_bit [of w 7]
    and_exp_eq_0_iff_not_bit [of w 8] and_exp_eq_0_iff_not_bit [of w 12]
    and_exp_eq_0_iff_not_bit [of w 14]
  by simp_all

lemma flag_single:
  "bit (VEXEC :: accmode) n \<longleftrightarrow> n = 6" "bit (VREAD :: accmode) n \<longleftrightarrow> n = 8"
  "bit (VADMIN :: accmode) n \<longleftrightarrow> n = 12"
  "bit (VWRITE OR VAPPEND :: accmode) n \<longleftrightarrow> n = 7 \<or> n = 14"
proof -
  have "bit (2 ^ m :: accmode) n \<longleftrightarrow> n = m" if "m < 32" for m
    using that by (auto simp: bit_exp_iff)
  from this [of 6] this [of 7] this [of 8] this [of 12] this [of 14]
  show "bit (VEXEC :: accmode) n \<longleftrightarrow> n = 6" "bit (VREAD :: accmode) n \<longleftrightarrow> n = 8"
    "bit (VADMIN :: accmode) n \<longleftrightarrow> n = 12" "bit (VWRITE OR VAPPEND :: accmode) n \<longleftrightarrow> n = 7 \<or> n = 14"
    unfolding bit_or_iff by simp_all
qed

lemma bit_VAPPEND: "bit (VAPPEND :: accmode) n \<longleftrightarrow> n = 14"
proof -
  have "bit (2 ^ m :: accmode) n \<longleftrightarrow> n = m" if "m < 32" for m
    using that by (auto simp: bit_exp_iff)
  from this [of 14] show ?thesis by simp
qed

lemma bit_perm_granted:
  "bit (perm_granted p g) n \<longleftrightarrow> bit g n \<or> (bit p 0 \<and> n = 6) \<or> (bit p 2 \<and> n = 8) \<or> (bit p 1 \<and> (n = 7 \<or> n = 14))"
  unfolding perm_granted_def bit_or_if flag_single flag_bits by blast

lemma bit_acl_priv_granted:
  "bit (acl_priv_granted cf type acc cred) n \<longleftrightarrow>
     (n = 6 \<and> bit acc 6 \<and> priv_check_cred cf cred (if type = VDIR then PRIV_VFS_LOOKUP else PRIV_VFS_EXEC) = 0) \<or>
     (n = 8 \<and> bit acc 8 \<and> priv_check_cred cf cred PRIV_VFS_READ = 0) \<or>
     ((n = 7 \<or> n = 14) \<and> (bit acc 7 \<or> bit acc 14) \<and> priv_check_cred cf cred PRIV_VFS_WRITE = 0) \<or>
     (n = 12 \<and> bit acc 12 \<and> priv_check_cred cf cred PRIV_VFS_ADMIN = 0)"
  unfolding acl_priv_granted_def Let_def if_distrib [where f = "\<lambda>w. bit w n"] bit_or_if flag_single flag_bits
    bit_0_eq bot_apply bot_bool_def by (cases "type = VDIR"; simp only: if_True if_False simp_thms; blast)

lemma bit_vaccess_priv_granted:
  "bit (vaccess_priv_granted cf type acc cred dac) n \<longleftrightarrow>
     (n = 6 \<and> bit acc 6 \<and> \<not> bit dac 6 \<and>
      priv_check_cred cf cred (if type = VDIR then PRIV_VFS_LOOKUP else PRIV_VFS_EXEC) = 0) \<or>
     (n = 8 \<and> bit acc 8 \<and> \<not> bit dac 8 \<and> priv_check_cred cf cred PRIV_VFS_READ = 0) \<or>
     ((n = 7 \<or> n = 14) \<and> bit acc 7 \<and> \<not> bit dac 7 \<and> priv_check_cred cf cred PRIV_VFS_WRITE = 0) \<or>
     (n = 12 \<and> bit acc 12 \<and> \<not> bit dac 12 \<and> priv_check_cred cf cred PRIV_VFS_ADMIN = 0)"
  unfolding vaccess_priv_granted_def Let_def if_distrib [where f = "\<lambda>w. bit w n"] bit_or_if flag_single flag_bits
    bit_0_eq bot_apply bot_bool_def by (cases "type = VDIR"; simp only: if_True if_False simp_thms; blast)

text \<open>
  Where writing is asked for whenever appending is, both ways of consulting privilege
  grant the same.
\<close>

lemma vaccess_privcheck_acl:
  assumes app: "bit acc 14 \<longrightarrow> bit acc 7" and dac: "bit dac 14 = bit dac 7"
  shows "vaccess_privcheck cf type acc cred dac =
    (if acc AND (dac OR acl_priv_granted cf type acc cred) = acc then (0, True) else (acc_error acc, False))"
proof -
  have "(acc AND (vaccess_priv_granted cf type acc cred dac OR dac) = acc) =
      (acc AND (dac OR acl_priv_granted cf type acc cred) = acc)"
    unfolding covered_iff bit_or_iff bit_acl_priv_granted bit_vaccess_priv_granted using assms by blast
  then show ?thesis by (simp add: vaccess_privcheck_def)
qed

section \<open>Minimal lists\<close>

text \<open>The list a file system without extended entries derives from owner, group and mode.\<close>

definition minimal_acl :: "uid \<Rightarrow> gid \<Rightarrow> mode \<Rightarrow> acl" where
  "minimal_acl uid gid m = \<lparr>acl_cnt = 3,
     acl_entry = [acl_posix1e_mode_to_entry ACL_USER_OBJ uid gid m,
       acl_posix1e_mode_to_entry ACL_GROUP_OBJ uid gid m, acl_posix1e_mode_to_entry ACL_OTHER uid gid m]\<rparr>"

lemma bit_mode_to_perm:
  "bit (acl_posix1e_mode_to_perm ACL_USER_OBJ m) n \<longleftrightarrow> n = 0 \<and> bit m 6 \<or> n = 2 \<and> bit m 8 \<or> n = 1 \<and> bit m 7"
  "bit (acl_posix1e_mode_to_perm ACL_GROUP_OBJ m) n \<longleftrightarrow> n = 0 \<and> bit m 3 \<or> n = 2 \<and> bit m 5 \<or> n = 1 \<and> bit m 4"
  "bit (acl_posix1e_mode_to_perm ACL_OTHER m) n \<longleftrightarrow> n = 0 \<and> bit m 0 \<or> n = 2 \<and> bit m 2 \<or> n = 1 \<and> bit m 1"
proof -
  have "bit (2 ^ j :: mode) n \<longleftrightarrow> n = j" if "j < 16" for j
    using that by (auto simp: bit_exp_iff)
  from this [of 0] this [of 1] this [of 2]
  have one: "bit (1 :: mode) n \<longleftrightarrow> n = 0" "bit (2 :: mode) n \<longleftrightarrow> n = 1" "bit (4 :: mode) n \<longleftrightarrow> n = 2" by simp_all
  show "bit (acl_posix1e_mode_to_perm ACL_USER_OBJ m) n \<longleftrightarrow> n = 0 \<and> bit m 6 \<or> n = 2 \<and> bit m 8 \<or> n = 1 \<and> bit m 7"
    unfolding acl_posix1e_mode_to_perm_def Let_def simp_thms if_True bit_or_if one flag_bits bit_0_eq bot_apply bot_bool_def
    by blast
  have grp: "acl_posix1e_mode_to_perm ACL_GROUP_OBJ m = or_if (m AND S_IWGRP \<noteq> 0) ACL_WRITE
      (or_if (m AND S_IRGRP \<noteq> 0) ACL_READ (or_if (m AND S_IXGRP \<noteq> 0) ACL_EXECUTE 0))"
    and oth: "acl_posix1e_mode_to_perm ACL_OTHER m = or_if (m AND S_IWOTH \<noteq> 0) ACL_WRITE
      (or_if (m AND S_IROTH \<noteq> 0) ACL_READ (or_if (m AND S_IXOTH \<noteq> 0) ACL_EXECUTE 0))"
    by (simp_all add: acl_posix1e_mode_to_perm_def)
  show "bit (acl_posix1e_mode_to_perm ACL_GROUP_OBJ m) n \<longleftrightarrow> n = 0 \<and> bit m 3 \<or> n = 2 \<and> bit m 5 \<or> n = 1 \<and> bit m 4"
    unfolding grp bit_or_if one flag_bits bit_0_eq bot_apply bot_bool_def by blast
  show "bit (acl_posix1e_mode_to_perm ACL_OTHER m) n \<longleftrightarrow> n = 0 \<and> bit m 0 \<or> n = 2 \<and> bit m 2 \<or> n = 1 \<and> bit m 1"
    unfolding oth bit_or_if one flag_bits bit_0_eq bot_apply bot_bool_def by blast
qed

definition rights :: "bool \<Rightarrow> bool \<Rightarrow> bool \<Rightarrow> accmode \<Rightarrow> accmode" where
  "rights x r w g = or_if w (VWRITE OR VAPPEND) (or_if r VREAD (or_if x VEXEC g))"

lemma bit_rights: "bit (rights x r w g) n \<longleftrightarrow> bit g n \<or> x \<and> n = 6 \<or> r \<and> n = 8 \<or> w \<and> (n = 7 \<or> n = 14)"
  unfolding rights_def bit_or_if flag_single by blast

lemma minimal_perm_granted:
  "perm_granted (acl_posix1e_mode_to_perm ACL_USER_OBJ m) g = rights (bit m 6) (bit m 8) (bit m 7) g"
  "perm_granted (acl_posix1e_mode_to_perm ACL_GROUP_OBJ m) g = rights (bit m 3) (bit m 5) (bit m 4) g"
  "perm_granted (acl_posix1e_mode_to_perm ACL_OTHER m) g = rights (bit m 0) (bit m 2) (bit m 1) g"
  by (rule bit_eqI; simp only: bit_rights bit_perm_granted bit_mode_to_perm; auto)+

text \<open>The rights of the class the subject is in.\<close>

definition class_rights :: "mode \<Rightarrow> uid \<Rightarrow> gid \<Rightarrow> ucred \<Rightarrow> accmode" where
  "class_rights m uid gid cred =
     (if cr_uid cred = uid then rights (bit m 6) (bit m 8) (bit m 7) VADMIN
      else if groupmember gid cred then rights (bit m 3) (bit m 5) (bit m 4) 0
      else rights (bit m 0) (bit m 2) (bit m 1) 0)"

lemma vaccess_class:
  "vaccess cf type m uid gid acc cred =
     (if acc AND class_rights m uid gid cred = acc then (0, False)
      else vaccess_privcheck cf type acc cred (class_rights m uid gid cred))"
  unfolding vaccess_def class_rights_def rights_def Let_def flag_bits not_not or.left_neutral
  by (cases "cr_uid cred = uid"; cases "groupmember gid cred"; simp only: if_True if_False simp_thms)

lemma class_rights_append: "bit (class_rights m uid gid cred) 14 = bit (class_rights m uid gid cred) 7"
  unfolding class_rights_def if_distrib [where f = "\<lambda>w. bit w _"] bit_rights flag_single by simp

lemma no_mask:
  "perm_granted p 0 AND (VEXEC OR VREAD OR VWRITE OR VAPPEND) = perm_granted p 0"
proof -
  have "bit (VEXEC OR VREAD OR VWRITE OR VAPPEND :: accmode) n \<longleftrightarrow> n = 6 \<or> n = 8 \<or> n = 7 \<or> n = 14" for n
    using flag_single [of n] by (metis bit_or_iff)
  then show ?thesis
    unfolding covered_iff bit_perm_granted by simp
qed

text \<open>The two checks, after the loops over a minimal list have been run.\<close>

lemma minimal_scans:
  "acl_scan_owner own None None (acl_entries (minimal_acl uid gid m)) =
     (if own then Owner (acl_posix1e_mode_to_entry ACL_USER_OBJ uid gid m)
      else Cached None (Some (acl_posix1e_mode_to_entry ACL_OTHER uid gid m)))"
  "acl_scan_user u (acl_entries (minimal_acl uid gid m)) = None"
  "acl_scan_groups g cred acc mg False (acl_entries (minimal_acl uid gid m)) =
     (if groupmember g cred then
        (if acc AND (perm_granted (acl_posix1e_mode_to_perm ACL_GROUP_OBJ m) 0 AND mg) = acc then None else Some True)
      else Some False)"
  "acl_scan_groups_priv g cred acc mg pg (acl_entries (minimal_acl uid gid m)) \<longleftrightarrow>
     groupmember g cred \<and>
     acc AND ((perm_granted (acl_posix1e_mode_to_perm ACL_GROUP_OBJ m) 0 AND mg) OR pg) = acc"
  by (simp_all add: minimal_acl_def acl_entries_def acl_posix1e_mode_to_entry_def acl_group_applies_def Let_def)

lemma vaccess_acl_minimal:
  "vaccess_acl_posix1e cf type uid gid (minimal_acl uid gid m) acc cred =
     (if acc AND class_rights m uid gid cred = acc then (0, False)
      else if acc AND (class_rights m uid gid cred OR acl_priv_granted cf type acc cred) = acc then (0, True)
      else (acc_error acc, False))"
proof -
  have ent: "ae_perm (acl_posix1e_mode_to_entry tag u gid m) = acl_posix1e_mode_to_perm tag m" for tag u
    by (simp add: acl_posix1e_mode_to_entry_def)
  consider "cr_uid cred = uid" | "uid \<noteq> cr_uid cred" "groupmember gid cred" | "uid \<noteq> cr_uid cred" "\<not> groupmember gid cred" by blast
  then show ?thesis
  proof cases
    case 1
    then show ?thesis
      by (simp only: vaccess_acl_posix1e_def Let_def minimal_scans class_rights_def simp_thms if_True
        acl_scan.case ent minimal_perm_granted)
  next
    case 2
    then show ?thesis
      by (simp only: vaccess_acl_posix1e_def Let_def minimal_scans class_rights_def simp_thms if_True if_False
        eq_commute [of "cr_uid cred"] acl_scan.case option.case ent no_mask) (simp add: minimal_perm_granted)
  next
    case 3
    then show ?thesis
      by (simp only: vaccess_acl_posix1e_def Let_def minimal_scans class_rights_def simp_thms if_True if_False
        eq_commute [of "cr_uid cred"] acl_scan.case option.case bool.case ent minimal_perm_granted)
  qed
qed

lemma vaccess_minimal:
  assumes app: "bit acc 14 \<longrightarrow> bit acc 7"
  shows "vaccess cf type m uid gid acc cred = vaccess_acl_posix1e cf type uid gid (minimal_acl uid gid m) acc cred"
  unfolding vaccess_class vaccess_acl_minimal vaccess_privcheck_acl [OF app class_rights_append] ..


section \<open>Lists that pass the check\<close>

definition tag_count :: "int \<Rightarrow> acl_entry list \<Rightarrow> int" where
  "tag_count tag es = int (length (filter (\<lambda>e. ae_tag e = tag) es))"

lemma tag_count_simps [simp]:
  "tag_count tag [] = 0"
  "tag_count tag (e # es) = (if ae_tag e = tag then 1 else 0) + tag_count tag es"
  by (simp_all add: tag_count_def)

lemma tag_count_pos: "0 \<le> tag_count tag es" "0 < tag_count tag es \<longleftrightarrow> tag \<in> ae_tag ` set es"
  by (auto simp: tag_count_def filter_empty_conv)

lemma acl_check_entries_Some:
  assumes "acl_check_entries es n = (Some n', es')"
  shows "map ae_tag es' = map ae_tag es \<and>
    ae_tag ` set es \<subseteq> {ACL_USER_OBJ, ACL_USER, ACL_GROUP_OBJ, ACL_GROUP, ACL_MASK, ACL_OTHER} \<and>
    num_acl_user_obj n' = num_acl_user_obj n + tag_count ACL_USER_OBJ es \<and>
    num_acl_group_obj n' = num_acl_group_obj n + tag_count ACL_GROUP_OBJ es \<and>
    num_acl_other n' = num_acl_other n + tag_count ACL_OTHER es"
  using assms
proof (induction es arbitrary: n es')
  case Nil
  then show ?case by simp
next
  case (Cons e es)
  then show ?case by (fastforce simp: Let_def split: if_splits option.splits prod.splits)
qed

lemma acl_find_base_Some:
  assumes "ae_tag ` set es \<subseteq> {ACL_USER_OBJ, ACL_USER, ACL_GROUP_OBJ, ACL_GROUP, ACL_MASK, ACL_OTHER}"
  shows "\<exists>f'. acl_find_base es f = Some f' \<and>
    (f_user_obj f' \<noteq> None \<longleftrightarrow> f_user_obj f \<noteq> None \<or> ACL_USER_OBJ \<in> ae_tag ` set es) \<and>
    (f_group_obj f' \<noteq> None \<longleftrightarrow> f_group_obj f \<noteq> None \<or> ACL_GROUP_OBJ \<in> ae_tag ` set es) \<and>
    (f_other f' \<noteq> None \<longleftrightarrow> f_other f \<noteq> None \<or> ACL_OTHER \<in> ae_tag ` set es)"
  using assms
proof (induction es arbitrary: f)
  case Nil
  then show ?case by simp
next
  case (Cons e es)
  then have "\<And>f. \<exists>f'. acl_find_base es f = Some f' \<and>
    (f_user_obj f' \<noteq> None \<longleftrightarrow> f_user_obj f \<noteq> None \<or> ACL_USER_OBJ \<in> ae_tag ` set es) \<and>
    (f_group_obj f' \<noteq> None \<longleftrightarrow> f_group_obj f \<noteq> None \<or> ACL_GROUP_OBJ \<in> ae_tag ` set es) \<and>
    (f_other f' \<noteq> None \<longleftrightarrow> f_other f \<noteq> None \<or> ACL_OTHER \<in> ae_tag ` set es)" by simp
  note IH = this [of "f\<lparr>f_user_obj := Some e\<rparr>"] this [of "f\<lparr>f_group_obj := Some e\<rparr>"]
    this [of "f\<lparr>f_other := Some e\<rparr>"] this [of "f\<lparr>f_mask := Some e\<rparr>"] this [of f]
  have "ae_tag e \<in> {ACL_USER_OBJ, ACL_USER, ACL_GROUP_OBJ, ACL_GROUP, ACL_MASK, ACL_OTHER}"
    using Cons.prems by simp
  then consider "ae_tag e = ACL_USER_OBJ" | "ae_tag e = ACL_GROUP_OBJ" | "ae_tag e = ACL_OTHER"
    | "ae_tag e = ACL_MASK" | "ae_tag e = ACL_USER \<or> ae_tag e = ACL_GROUP" by blast
  then show ?case
  proof cases
    case 1
    then show ?thesis using IH(1) by simp
  next
    case 2
    then show ?thesis using IH(2) by simp
  next
    case 3
    then show ?thesis using IH(3) by simp
  next
    case 4
    then show ?thesis using IH(4) by simp
  next
    case 5
    then show ?thesis using IH(5) by auto
  qed
qed

lemma bit_perms_to_mode:
  "bit (acl_posix1e_perms_to_mode u g w) n \<longleftrightarrow>
     n = 6 \<and> bit (ae_perm u) 0 \<or> n = 8 \<and> bit (ae_perm u) 2 \<or> n = 7 \<and> bit (ae_perm u) 1 \<or>
     n = 3 \<and> bit (ae_perm g) 0 \<or> n = 5 \<and> bit (ae_perm g) 2 \<or> n = 4 \<and> bit (ae_perm g) 1 \<or>
     n = 0 \<and> bit (ae_perm w) 0 \<or> n = 2 \<and> bit (ae_perm w) 2 \<or> n = 1 \<and> bit (ae_perm w) 1"
proof -
  have p: "bit (2 ^ j :: mode) n \<longleftrightarrow> n = j" if "j < 16" for j
    using that by (auto simp: bit_exp_iff)
  have one: "bit (1 :: mode) n \<longleftrightarrow> n = 0" "bit (2 :: mode) n \<longleftrightarrow> n = 1" "bit (4 :: mode) n \<longleftrightarrow> n = 2"
    "bit (8 :: mode) n \<longleftrightarrow> n = 3" "bit (0x10 :: mode) n \<longleftrightarrow> n = 4" "bit (0x20 :: mode) n \<longleftrightarrow> n = 5"
    "bit (0x40 :: mode) n \<longleftrightarrow> n = 6" "bit (0x80 :: mode) n \<longleftrightarrow> n = 7" "bit (0x100 :: mode) n \<longleftrightarrow> n = 8"
    using p [of 0] p [of 1] p [of 2] p [of 3] p [of 4] p [of 5] p [of 6] p [of 7] p [of 8] by simp_all
  show ?thesis
    unfolding acl_posix1e_perms_to_mode_def Let_def bit_or_if one flag_bits bit_0_eq bot_apply bot_bool_def
    by blast
qed

lemma bit_override: "bit (ACL_OVERRIDE_MASK :: mode) n \<longleftrightarrow> n < 9"
proof -
  have "(ACL_OVERRIDE_MASK :: mode) = mask 9" by (simp add: mask_eq_exp_minus_1)
  then show ?thesis by (simp only: bit_mask_iff possible_bit_word) auto
qed

section \<open>Properties\<close>

text \<open>C8: The two ways of deciding file access agree: for the access control list that a file's owner,
  group and mode stand for, \<^verbatim>\<open>vaccess_acl_posix1e\<close> returns the same error and the same use of
  privilege as \<^verbatim>\<open>vaccess\<close> on the mode, for every request that asks for writing when it
  asks for appending.\<close>

theorem vaccess_acl_agree:
  assumes "acc AND VAPPEND \<noteq> 0 \<longrightarrow> acc AND VWRITE \<noteq> 0"
  shows "vaccess_acl_posix1e cf type uid gid (minimal_acl uid gid m) acc cred = vaccess cf type m uid gid acc cred"
  by (rule vaccess_minimal [symmetric]) (use assms in \<open>simp add: flag_bits\<close>)

theorem vaccess_acl_agree_witness:
  "vaccess_acl_posix1e ex_conf VREG 1001 5 (minimal_acl 1001 5 0x1a4) VWRITE (ex_cred 1002 1) = (EACCES, False)"
proof -
  have "vaccess ex_conf VREG 0x1a4 1001 5 VWRITE (ex_cred 1002 1) = (EACCES, False)" by code_simp
  then show ?thesis using vaccess_acl_agree [of VWRITE] by simp
qed

text \<open>C21: Without that proviso they differ: on every file whose mode does not let the subject write, every request for
  appending without writing is refused by \<^verbatim>\<open>vaccess\<close>, which does not consult \<^verbatim>\<open>PRIV_VFS_WRITE\<close> then, even to a
  subject that has all file system privileges; the access control list check grants it by privilege.\<close>

theorem vaccess_append_refused:
  assumes "acc AND VAPPEND \<noteq> 0" "acc AND VWRITE = 0" "acc AND (VEXEC OR VREAD OR VAPPEND OR VADMIN) = acc"
    and "class_rights m uid gid cred AND VAPPEND = 0"
    and "\<forall>p \<in> {PRIV_VFS_LOOKUP, PRIV_VFS_EXEC, PRIV_VFS_READ, PRIV_VFS_WRITE, PRIV_VFS_ADMIN}. priv_check_cred cf cred p = 0"
  shows "vaccess cf type m uid gid acc cred = (if acc AND VADMIN \<noteq> 0 then EPERM else EACCES, False) \<and>
    vaccess_acl_posix1e cf type uid gid (minimal_acl uid gid m) acc cred = (0, True)"
proof -
  let ?d = "class_rights m uid gid cred"
  have a: "bit acc 14" "\<not> bit acc 7" "\<not> bit ?d 14" using assms(1,2,4) unfolding flag_bits by simp_all
  have only: "n \<in> {6, 8, 12, 14}" if "bit acc n" for n
    using assms(3) that unfolding covered_iff bit_or_iff flag_single bit_VAPPEND by blast
  have p: "priv_check_cred cf cred (if type = VDIR then PRIV_VFS_LOOKUP else PRIV_VFS_EXEC) = 0"
    "priv_check_cred cf cred PRIV_VFS_READ = 0" "priv_check_cred cf cred PRIV_VFS_WRITE = 0" "priv_check_cred cf cred PRIV_VFS_ADMIN = 0"
    using assms(5) by simp_all
  have no: "acc AND ?d \<noteq> acc" unfolding covered_iff using a by blast
  moreover have "acc AND (vaccess_priv_granted cf type acc cred ?d OR ?d) \<noteq> acc"
    unfolding covered_iff bit_or_iff bit_vaccess_priv_granted using a by auto
  moreover have "acc AND (?d OR acl_priv_granted cf type acc cred) = acc"
    unfolding covered_iff bit_or_iff bit_acl_priv_granted using only p a(1) by blast
  ultimately show ?thesis by (simp add: vaccess_class vaccess_privcheck_def vaccess_acl_minimal acc_error_def)
qed

theorem vaccess_append_refused_witness:
  "vaccess ex_conf VREG 0 1001 5 VAPPEND (ex_cred 0 0) = (EACCES, False) \<and>
   vaccess_acl_posix1e ex_conf VREG 1001 5 (minimal_acl 1001 5 0) VAPPEND (ex_cred 0 0) = (0, True)"
proof -
  have "\<forall>p \<in> {PRIV_VFS_LOOKUP, PRIV_VFS_EXEC, PRIV_VFS_READ, PRIV_VFS_WRITE, PRIV_VFS_ADMIN}. priv_check_cred ex_conf (ex_cred 0 0) p = 0"
    by code_simp
  moreover have "class_rights 0 1001 5 (ex_cred 0 0) AND VAPPEND = 0" by code_simp
  ultimately show ?thesis using vaccess_append_refused [of VAPPEND 0 1001 5 "ex_cred 0 0" ex_conf VREG] by simp
qed

text \<open>C16: A subject without superuser rights gets from \<^verbatim>\<open>vaccess\<close> exactly the rights of the one class it
  belongs to, owner, group or other, the first that applies: the owner is not granted what only the
  group or everyone else has.\<close>

theorem vaccess_unprivileged:
  assumes "\<not> suser_enabled cf \<or> cr_uid cred \<noteq> 0"
  shows "vaccess cf type m uid gid acc cred =
    (if \<forall>n. bit acc n \<longrightarrow>
        (if cr_uid cred = uid then n = 12 \<or> n = 6 \<and> bit m 6 \<or> n = 8 \<and> bit m 8 \<or> (n = 7 \<or> n = 14) \<and> bit m 7
         else if groupmember gid cred then n = 6 \<and> bit m 3 \<or> n = 8 \<and> bit m 5 \<or> (n = 7 \<or> n = 14) \<and> bit m 4
         else n = 6 \<and> bit m 0 \<or> n = 8 \<and> bit m 2 \<or> (n = 7 \<or> n = 14) \<and> bit m 1)
     then (0, False) else (if acc AND VADMIN \<noteq> 0 then EPERM else EACCES, False))"
proof -
  have no: "priv_check_cred cf cred p \<noteq> 0" if "p \<notin> {PRIV_MAXFILES, PRIV_MAXPROC, PRIV_PROC_LIMIT}" for p
    using assms that by (auto simp: priv_check_cred_def Let_def)
  have "vaccess_priv_granted cf type acc cred d = 0" for d
    by (rule bit_eqI) (use no in \<open>auto simp: bit_vaccess_priv_granted\<close>)
  then have "vaccess cf type m uid gid acc cred =
      (if acc AND class_rights m uid gid cred = acc then (0, False) else (acc_error acc, False))"
    by (simp add: vaccess_class vaccess_privcheck_def)
  moreover have "bit (class_rights m uid gid cred) n \<longleftrightarrow>
        (if cr_uid cred = uid then n = 12 \<or> n = 6 \<and> bit m 6 \<or> n = 8 \<and> bit m 8 \<or> (n = 7 \<or> n = 14) \<and> bit m 7
         else if groupmember gid cred then n = 6 \<and> bit m 3 \<or> n = 8 \<and> bit m 5 \<or> (n = 7 \<or> n = 14) \<and> bit m 4
         else n = 6 \<and> bit m 0 \<or> n = 8 \<and> bit m 2 \<or> (n = 7 \<or> n = 14) \<and> bit m 1)" for n
    unfolding class_rights_def if_distrib [where f = "\<lambda>w. bit w n"] bit_rights flag_single bit_0_eq bot_apply bot_bool_def
    by (simp only: simp_thms conj_commute)
  ultimately show ?thesis unfolding covered_iff acc_error_def by (simp only:)
qed

theorem vaccess_unprivileged_witness:
  "vaccess ex_conf VREG 0x3f 1001 5 VREAD (ex_cred 1001 1) = (EACCES, False)"
proof -
  have u: "cr_uid (ex_cred v b) = v" for v b by (simp add: ex_cred_def)
  have "\<not> suser_enabled ex_conf \<or> cr_uid (ex_cred 1001 1) \<noteq> 0" by (simp add: u)
  from vaccess_unprivileged [OF this, of VREG "0x3f" 1001 5 VREAD] show ?thesis
    unfolding flag_single(2) by (simp add: u)
qed

text \<open>C19: Turning a file mode into a list and back is the identity on the nine permission bits.\<close>

theorem acl_mode_roundtrip:
  "acl_posix1e_acl_to_mode (minimal_acl uid gid m) = Some (m AND ACL_OVERRIDE_MASK)"
proof -
  have "acl_posix1e_perms_to_mode (acl_posix1e_mode_to_entry ACL_USER_OBJ uid gid m)
      (acl_posix1e_mode_to_entry ACL_GROUP_OBJ uid gid m) (acl_posix1e_mode_to_entry ACL_OTHER uid gid m) =
      m AND ACL_OVERRIDE_MASK"
    unfolding acl_posix1e_mode_to_entry_def
    by (rule bit_eqI) (simp only: bit_perms_to_mode acl_entry.select_convs bit_mode_to_perm bit_and_iff bit_override;
      auto simp: less_Suc_eq numeral_eq_Suc)
  then show ?thesis
    by (simp add: acl_posix1e_acl_to_mode_def minimal_acl_def acl_entries_def)
       (simp add: acl_posix1e_mode_to_entry_def)
qed

text \<open>C18: A list that \<^verbatim>\<open>acl_posix1e_check\<close> accepts can be turned into a mode without a panic, and
  the mode has permission bits only.\<close>

theorem acl_check_sound:
  assumes "acl_posix1e_check a = (0, a')"
  shows "\<exists>m. acl_posix1e_acl_to_mode a' = Some m \<and> m AND NOT ACL_OVERRIDE_MASK = 0"
proof -
  let ?n0 = "\<lparr>num_acl_user_obj = 0, num_acl_user = 0, num_acl_group_obj = 0, num_acl_group = 0,
    num_acl_mask = 0, num_acl_other = 0\<rparr>"
  obtain r es where c: "acl_check_entries (acl_entries a) ?n0 = (r, es)" by fastforce
  have range: "acl_cnt a \<le> ACL_MAX_ENTRIES" "0 \<le> acl_cnt a" using assms by (auto simp: acl_posix1e_check_def split: if_splits)
  then obtain n where n: "r = Some n" "num_acl_user_obj n = 1" "num_acl_group_obj n = 1" "num_acl_other n = 1"
      and a': "a' = a\<lparr>acl_entry := es @ drop (nat (acl_cnt a)) (acl_entry a)\<rparr>"
    using assms c by (auto simp: acl_posix1e_check_def Let_def split: option.splits if_splits)
  note chk = acl_check_entries_Some [OF c [unfolded n(1)]]
  have len: "length es = length (acl_entries a)" using chk by (metis length_map)
  then have es: "acl_entries a' = es"
    by (cases "nat (acl_cnt a) \<le> length (acl_entry a)") (simp_all add: acl_entries_def a')
  have tags: "ae_tag ` set es = ae_tag ` set (acl_entries a)" using chk by (metis list.set_map)
  have "{ACL_USER_OBJ, ACL_GROUP_OBJ, ACL_OTHER} \<subseteq> ae_tag ` set es"
    using chk n by (simp add: tags tag_count_pos(2) [symmetric])
  then obtain f u g w where f: "acl_find_base es \<lparr>f_user_obj = None, f_group_obj = None, f_other = None, f_mask = None\<rparr> = Some f"
      "f_user_obj f = Some u" "f_group_obj f = Some g" "f_other f = Some w"
    using acl_find_base_Some [of es "\<lparr>f_user_obj = None, f_group_obj = None, f_other = None, f_mask = None\<rparr>"] chk tags
    by fastforce
  have "acl_posix1e_perms_to_mode x y z AND NOT ACL_OVERRIDE_MASK = 0" for x y z
    by (rule bit_eqI) (simp only: bit_perms_to_mode bit_and_iff bit_not_iff bit_override bit_0_eq bot_apply bot_bool_def; auto)
  then show ?thesis using f es by (cases "f_mask f") (simp_all add: acl_posix1e_acl_to_mode_def)
qed


theorem acl_check_sound_witness:
  "\<exists>m. acl_posix1e_acl_to_mode (snd (acl_posix1e_check (minimal_acl 1001 5 0x1a4))) = Some m \<and>
    m AND NOT ACL_OVERRIDE_MASK = 0"
proof -
  have "fst (acl_posix1e_check (minimal_acl 1001 5 0x1a4)) = 0" by code_simp
  then show ?thesis using acl_check_sound [of "minimal_acl 1001 5 0x1a4"] by (metis prod.collapse)
qed

text \<open>C20: The mode of a new file keeps all bits of the requested mode outside the permission bits, and has
  a permission bit exactly if both the request and the default list allow it.\<close>

theorem newfilemode_bits:
  assumes "acl_posix1e_newfilemode cmode dacl = Some m"
  shows "\<exists>dm. acl_posix1e_acl_to_mode dacl = Some dm \<and> (\<forall>n. bit m n \<longleftrightarrow> bit cmode n \<and> (n < 9 \<longrightarrow> bit dm n))"
proof -
  obtain dm where dm: "acl_posix1e_acl_to_mode dacl = Some dm"
      and m: "m = (cmode AND NOT ACL_OVERRIDE_MASK) OR (ACL_OVERRIDE_MASK AND cmode AND dm)"
    using assms by (auto simp: acl_posix1e_newfilemode_def bind_eq_Some_conv)
  have "bit m n \<longleftrightarrow> bit cmode n \<and> (n < 9 \<longrightarrow> bit dm n)" for n
    unfolding m bit_or_iff bit_and_iff bit_not_iff bit_override possible_bit_word
    using bit_imp_le_length [of cmode n] by auto
  then show ?thesis using dm by blast
qed

theorem newfilemode_bits_witness:
  "\<exists>dm. acl_posix1e_acl_to_mode (minimal_acl 1001 5 0x1e8) = Some dm \<and>
    (\<forall>n. bit (0x9a0 :: mode) n \<longleftrightarrow> bit (0x9b6 :: mode) n \<and> (n < 9 \<longrightarrow> bit dm n))"
proof (rule newfilemode_bits)
  show "acl_posix1e_newfilemode 0x9b6 (minimal_acl 1001 5 0x1e8) = Some 0x9a0" by code_simp
qed

lemma acl_scan_groups_None:
  "acl_scan_groups g cred acc mg b es = None \<Longrightarrow> acc AND mg = acc"
  by (induction es arbitrary: b) (auto simp: Let_def covered_iff bit_and_iff split: if_splits)

lemma acl_scan_groups_False:
  "acl_scan_groups g cred acc mg b es = Some False \<Longrightarrow> \<not> b \<and> (\<forall>e \<in> set es. \<not> acl_group_applies g cred e)"
  by (induction es arbitrary: b) (auto simp: Let_def split: if_splits)

lemma acl_scan_groups_priv_mask:
  "acl_scan_groups_priv g cred acc mg 0 es \<Longrightarrow> acc AND mg = acc"
  by (induction es) (auto simp: Let_def covered_iff bit_and_iff split: if_splits)

text \<open>C17: The mask entry bounds what named users and groups get: on a list that has one, a subject without superuser rights that is
  not the owner, and that a user or group entry applies to, is granted only rights the mask has.\<close>

theorem acl_mask_bounds:
  assumes "\<not> suser_enabled cf \<or> cr_uid cred \<noteq> 0"
    and "acl_scan_owner (file_uid = cr_uid cred) None None (acl_entries a) = Cached (Some mk) other"
    and "acl_scan_user (cr_uid cred) (acl_entries a) \<noteq> None \<or>
      (\<exists>e \<in> set (acl_entries a). acl_group_applies file_gid cred e)"
    and "fst (vaccess_acl_posix1e cf type file_uid file_gid a acc cred) = 0"
  shows "acc AND perm_granted (ae_perm mk) 0 = acc"
proof -
  have no: "priv_check_cred cf cred p \<noteq> 0" if "p \<notin> {PRIV_MAXFILES, PRIV_MAXPROC, PRIV_PROC_LIMIT}" for p
    using assms(1) that by (auto simp: priv_check_cred_def Let_def)
  have pg: "acl_priv_granted cf type acc cred = 0"
    by (rule bit_eqI) (use no in \<open>auto simp: bit_acl_priv_granted\<close>)
  have err: "acc_error acc \<noteq> 0" by (simp add: acc_error_def)
  let ?mg = "perm_granted (ae_perm mk) 0"
  obtain ot where ot: "other = Some ot"
    using assms(2,4) by (cases other) (auto simp: vaccess_acl_posix1e_def Let_def)
  show ?thesis
  proof (cases "acl_scan_user (cr_uid cred) (acl_entries a)")
    case (Some e)
    then have "acc AND (perm_granted (ae_perm e) 0 AND ?mg) = acc"
      using assms(2,4) ot err by (auto simp: vaccess_acl_posix1e_def Let_def pg split: if_splits)
    then show ?thesis unfolding covered_iff bit_and_iff by blast
  next
    case None
    then show ?thesis
    proof (cases "acl_scan_groups file_gid cred acc ?mg False (acl_entries a)")
      case (Some b)
      then have b using acl_scan_groups_False [of file_gid cred acc ?mg False "acl_entries a"] assms(3) None by (cases b) auto
      then have "acl_scan_groups_priv file_gid cred acc ?mg 0 (acl_entries a)"
        using assms(2,4) ot err None Some by (auto simp: vaccess_acl_posix1e_def Let_def pg split: if_splits)
      then show ?thesis by (rule acl_scan_groups_priv_mask)
    qed (rule acl_scan_groups_None)
  qed
qed

definition ex_acl :: acl where
  "ex_acl = \<lparr>acl_cnt = 5, acl_entry =
     [\<lparr>ae_tag = ACL_USER_OBJ, ae_id = - 1, ae_perm = 7\<rparr>, \<lparr>ae_tag = ACL_USER, ae_id = 1001, ae_perm = 7\<rparr>,
      \<lparr>ae_tag = ACL_GROUP_OBJ, ae_id = - 1, ae_perm = 7\<rparr>, \<lparr>ae_tag = ACL_MASK, ae_id = - 1, ae_perm = 4\<rparr>,
      \<lparr>ae_tag = ACL_OTHER, ae_id = - 1, ae_perm = 0\<rparr>]\<rparr>"

theorem acl_mask_bounds_witness:
  "fst (vaccess_acl_posix1e ex_conf VREG 5 5 ex_acl VREAD (ex_cred 1001 1)) = 0 \<and>
   VREAD AND perm_granted 4 0 = VREAD"
proof -
  have g: "fst (vaccess_acl_posix1e ex_conf VREG 5 5 ex_acl VREAD (ex_cred 1001 1)) = 0" by code_simp
  have "VREAD AND perm_granted (ae_perm \<lparr>ae_tag = ACL_MASK, ae_id = - 1, ae_perm = 4\<rparr>) 0 = VREAD"
  proof (rule acl_mask_bounds [OF _ _ _ g])
    show "\<not> suser_enabled ex_conf \<or> cr_uid (ex_cred 1001 1) \<noteq> 0" by (simp add: ex_cred_def)
    show "acl_scan_owner (5 = cr_uid (ex_cred 1001 1)) None None (acl_entries ex_acl) =
        Cached (Some \<lparr>ae_tag = ACL_MASK, ae_id = - 1, ae_perm = 4\<rparr>) (Some \<lparr>ae_tag = ACL_OTHER, ae_id = - 1, ae_perm = 0\<rparr>)"
      by code_simp
    have "acl_scan_user (cr_uid (ex_cred 1001 1)) (acl_entries ex_acl) \<noteq> None" by code_simp
    then show "acl_scan_user (cr_uid (ex_cred 1001 1)) (acl_entries ex_acl) \<noteq> None \<or>
        (\<exists>e \<in> set (acl_entries ex_acl). acl_group_applies 5 (ex_cred 1001 1) e)" ..
  qed
  then show ?thesis using g by simp
qed

end
