(* ===== verification/Bpf.thy ===== *)
theory Bpf
  imports KPrelude
begin

text \<open>
  The packet filter machine, \<^verbatim>\<open>src/sys/net/bpf_filter.c\<close>: the validator a program from user space
  must pass and the interpreter that runs it in the kernel.

  A packet is a buffer, or a chain of mbufs when \<^verbatim>\<open>buflen\<close> is 0. A buffer is the bytes that may
  be read at \<^verbatim>\<open>p\<close>; an mbuf is the \<^verbatim>\<open>m_len\<close> bytes at \<^verbatim>\<open>mtod(m)\<close>. The result \<open>None\<close> is a fault: a
  read outside the program, the packet, the mbuf or the scratch memory, or a division by zero.
  On i386, which the configuration is for, \<^verbatim>\<open>BPF_ALIGN\<close> is not defined, a shift uses the count
  modulo 32, and \<^verbatim>\<open>pc += k\<close> on a pointer to 8-byte instructions wraps at 2^32 bytes.
\<close>

type_synonym byte = "8 word"

record bpf_insn =
  i_code :: "16 word"
  i_jt :: "8 word"
  i_jf :: "8 word"
  i_k :: "32 word"

datatype bpf_packet = Buffer "byte list" | Mbufs "byte list list"

abbreviation (input) BPF_LD :: "16 word" where "BPF_LD \<equiv> 0x00"
abbreviation (input) BPF_LDX :: "16 word" where "BPF_LDX \<equiv> 0x01"
abbreviation (input) BPF_ST :: "16 word" where "BPF_ST \<equiv> 0x02"
abbreviation (input) BPF_STX :: "16 word" where "BPF_STX \<equiv> 0x03"
abbreviation (input) BPF_ALU :: "16 word" where "BPF_ALU \<equiv> 0x04"
abbreviation (input) BPF_JMP :: "16 word" where "BPF_JMP \<equiv> 0x05"
abbreviation (input) BPF_RET :: "16 word" where "BPF_RET \<equiv> 0x06"
abbreviation (input) BPF_MISC :: "16 word" where "BPF_MISC \<equiv> 0x07"
abbreviation (input) BPF_W :: "16 word" where "BPF_W \<equiv> 0x00"
abbreviation (input) BPF_H :: "16 word" where "BPF_H \<equiv> 0x08"
abbreviation (input) BPF_B :: "16 word" where "BPF_B \<equiv> 0x10"
abbreviation (input) BPF_IMM :: "16 word" where "BPF_IMM \<equiv> 0x00"
abbreviation (input) BPF_ABS :: "16 word" where "BPF_ABS \<equiv> 0x20"
abbreviation (input) BPF_IND :: "16 word" where "BPF_IND \<equiv> 0x40"
abbreviation (input) BPF_MEM :: "16 word" where "BPF_MEM \<equiv> 0x60"
abbreviation (input) BPF_LEN :: "16 word" where "BPF_LEN \<equiv> 0x80"
abbreviation (input) BPF_MSH :: "16 word" where "BPF_MSH \<equiv> 0xa0"
abbreviation (input) BPF_ADD :: "16 word" where "BPF_ADD \<equiv> 0x00"
abbreviation (input) BPF_SUB :: "16 word" where "BPF_SUB \<equiv> 0x10"
abbreviation (input) BPF_MUL :: "16 word" where "BPF_MUL \<equiv> 0x20"
abbreviation (input) BPF_DIV :: "16 word" where "BPF_DIV \<equiv> 0x30"
abbreviation (input) BPF_OR :: "16 word" where "BPF_OR \<equiv> 0x40"
abbreviation (input) BPF_AND :: "16 word" where "BPF_AND \<equiv> 0x50"
abbreviation (input) BPF_LSH :: "16 word" where "BPF_LSH \<equiv> 0x60"
abbreviation (input) BPF_RSH :: "16 word" where "BPF_RSH \<equiv> 0x70"
abbreviation (input) BPF_NEG :: "16 word" where "BPF_NEG \<equiv> 0x80"
abbreviation (input) BPF_JA :: "16 word" where "BPF_JA \<equiv> 0x00"
abbreviation (input) BPF_JEQ :: "16 word" where "BPF_JEQ \<equiv> 0x10"
abbreviation (input) BPF_JGT :: "16 word" where "BPF_JGT \<equiv> 0x20"
abbreviation (input) BPF_JGE :: "16 word" where "BPF_JGE \<equiv> 0x30"
abbreviation (input) BPF_JSET :: "16 word" where "BPF_JSET \<equiv> 0x40"
abbreviation (input) BPF_K :: "16 word" where "BPF_K \<equiv> 0x00"
abbreviation (input) BPF_X :: "16 word" where "BPF_X \<equiv> 0x08"
abbreviation (input) BPF_A :: "16 word" where "BPF_A \<equiv> 0x10"
abbreviation (input) BPF_TAX :: "16 word" where "BPF_TAX \<equiv> 0x00"
abbreviation (input) BPF_TXA :: "16 word" where "BPF_TXA \<equiv> 0x80"
abbreviation (input) BPF_MEMWORDS :: nat where "BPF_MEMWORDS \<equiv> 16"

definition BPF_CLASS :: "16 word \<Rightarrow> 16 word" where
  "BPF_CLASS c = c AND 0x07"

section \<open>Reading the packet\<close>

definition byte_at :: "byte list \<Rightarrow> nat \<Rightarrow> byte option" where
  "byte_at bs i = (if i < length bs then Some (bs ! i) else None)"

definition be16 :: "byte \<Rightarrow> byte \<Rightarrow> 16 word" where
  "be16 a b = push_bit 8 (ucast a) OR ucast b"

definition be32 :: "byte \<Rightarrow> byte \<Rightarrow> byte \<Rightarrow> byte \<Rightarrow> 32 word" where
  "be32 a b c d = push_bit 24 (ucast a) OR push_bit 16 (ucast b) OR push_bit 8 (ucast c) OR ucast d"

text \<open>\<^verbatim>\<open>EXTRACT_SHORT\<close>, \<^verbatim>\<open>EXTRACT_LONG\<close> at an offset of the bytes.\<close>

definition EXTRACT_SHORT :: "byte list \<Rightarrow> nat \<Rightarrow> 16 word option" where
  "EXTRACT_SHORT bs i = do { a \<leftarrow> byte_at bs i; b \<leftarrow> byte_at bs (i + 1); Some (be16 a b) }"

definition EXTRACT_LONG :: "byte list \<Rightarrow> nat \<Rightarrow> 32 word option" where
  "EXTRACT_LONG bs i =
     do { a \<leftarrow> byte_at bs i; b \<leftarrow> byte_at bs (i + 1); c \<leftarrow> byte_at bs (i + 2); d \<leftarrow> byte_at bs (i + 3);
          Some (be32 a b c d) }"

text \<open>
  The loop at the head of \<^verbatim>\<open>m_xword\<close> and \<^verbatim>\<open>m_xhalf\<close>, and the macro \<^verbatim>\<open>MINDEX\<close>: the mbuf that holds
  offset \<open>i\<close> with its successors, and the offset in it; \<open>None\<close> when the chain ends before.
\<close>

fun mindex :: "byte list list \<Rightarrow> nat \<Rightarrow> (byte list \<times> byte list list \<times> nat) option" where
  "mindex [] i = None"
| "mindex (m # ms) i = (if i \<ge> length m then mindex ms (i - length m) else Some (m, ms, i))"

text \<open>
  A read of the chain gives the value, or \<open>None\<close> for \<^verbatim>\<open>*err = 1\<close>. The outer option is the fault.
\<close>

definition m_xword :: "byte list list \<Rightarrow> nat \<Rightarrow> 32 word option option" where
  "m_xword ms i =
     (case mindex ms i of
        None \<Rightarrow> Some None
      | Some (cp, next, i) \<Rightarrow>
          (let rem = length cp - i in
           if rem \<ge> 4 then map_option Some (EXTRACT_LONG cp i)
           else case next of
                  [] \<Rightarrow> Some None
                | np # _ \<Rightarrow>
                    if length np + rem < 4 then Some None
                    else if rem = 1 then
                      do { a \<leftarrow> byte_at cp i; b \<leftarrow> byte_at np 0; c \<leftarrow> byte_at np 1; d \<leftarrow> byte_at np 2;
                           Some (Some (be32 a b c d)) }
                    else if rem = 2 then
                      do { a \<leftarrow> byte_at cp i; b \<leftarrow> byte_at cp (i + 1); c \<leftarrow> byte_at np 0; d \<leftarrow> byte_at np 1;
                           Some (Some (be32 a b c d)) }
                    else
                      do { a \<leftarrow> byte_at cp i; b \<leftarrow> byte_at cp (i + 1); c \<leftarrow> byte_at cp (i + 2); d \<leftarrow> byte_at np 0;
                           Some (Some (be32 a b c d)) }))"

definition m_xhalf :: "byte list list \<Rightarrow> nat \<Rightarrow> 16 word option option" where
  "m_xhalf ms i =
     (case mindex ms i of
        None \<Rightarrow> Some None
      | Some (cp, next, i) \<Rightarrow>
          (if length cp - i \<ge> 2 then map_option Some (EXTRACT_SHORT cp i)
           else case next of
                  [] \<Rightarrow> Some None
                | np # _ \<Rightarrow> do { a \<leftarrow> byte_at cp i; b \<leftarrow> byte_at np 0; Some (Some (be16 a b)) }))"

definition m_xbyte :: "byte list list \<Rightarrow> nat \<Rightarrow> byte option option" where
  "m_xbyte ms i =
     (case mindex ms i of
        None \<Rightarrow> Some None
      | Some (m, _, i) \<Rightarrow> map_option Some (byte_at m i))"

text \<open>
  \<^verbatim>\<open>p\<close> as the cast the code applies: to bytes, or to a chain. The wrong cast is a fault.
\<close>

definition as_bytes :: "bpf_packet \<Rightarrow> byte list option" where
  "as_bytes p = (case p of Buffer bs \<Rightarrow> Some bs | Mbufs _ \<Rightarrow> None)"

definition as_mbuf :: "bpf_packet \<Rightarrow> byte list list option" where
  "as_mbuf p = (case p of Buffer _ \<Rightarrow> None | Mbufs [] \<Rightarrow> None | Mbufs (m # ms) \<Rightarrow> Some (m # ms))"

text \<open>
  The load instructions. Result \<open>Some None\<close> is \<^verbatim>\<open>return (0)\<close>, a rejected packet.
\<close>

definition ld_w_abs :: "bpf_packet \<Rightarrow> 32 word \<Rightarrow> 32 word \<Rightarrow> 32 word option option" where
  "ld_w_abs p buflen i =
     (if i > buflen \<or> 4 > buflen - i then
        (if buflen \<noteq> 0 then Some None
         else do { m \<leftarrow> as_mbuf p; m_xword m (unat i) })
      else do { bs \<leftarrow> as_bytes p; map_option Some (EXTRACT_LONG bs (unat i)) })"

text \<open>The half word load does not look at \<^verbatim>\<open>merr\<close>: beyond the end of the chain it loads 0.\<close>

definition ld_h_abs :: "bpf_packet \<Rightarrow> 32 word \<Rightarrow> 32 word \<Rightarrow> 32 word option option" where
  "ld_h_abs p buflen i =
     (if i > buflen \<or> 2 > buflen - i then
        (if buflen \<noteq> 0 then Some None
         else do { m \<leftarrow> as_mbuf p;
                   r \<leftarrow> m_xhalf m (unat i);
                   Some (Some (case r of None \<Rightarrow> 0 | Some v \<Rightarrow> ucast v)) })
      else do { bs \<leftarrow> as_bytes p; map_option (\<lambda>v. Some (ucast v)) (EXTRACT_SHORT bs (unat i)) })"

definition ld_b_abs :: "bpf_packet \<Rightarrow> 32 word \<Rightarrow> 32 word \<Rightarrow> 32 word option option" where
  "ld_b_abs p buflen i =
     (if i \<ge> buflen then
        (if buflen \<noteq> 0 then Some None
         else do { m \<leftarrow> as_mbuf p; r \<leftarrow> m_xbyte m (unat i); Some (map_option ucast r) })
      else do { bs \<leftarrow> as_bytes p; map_option (\<lambda>v. Some (ucast v)) (byte_at bs (unat i)) })"

definition ld_w_ind :: "bpf_packet \<Rightarrow> 32 word \<Rightarrow> 32 word \<Rightarrow> 32 word \<Rightarrow> 32 word option option" where
  "ld_w_ind p buflen x pck =
     (let i = x + pck in
      if pck > buflen \<or> x > buflen - pck \<or> 4 > buflen - i then
        (if buflen \<noteq> 0 then Some None
         else do { m \<leftarrow> as_mbuf p; m_xword m (unat i) })
      else do { bs \<leftarrow> as_bytes p; map_option Some (EXTRACT_LONG bs (unat i)) })"

definition ld_h_ind :: "bpf_packet \<Rightarrow> 32 word \<Rightarrow> 32 word \<Rightarrow> 32 word \<Rightarrow> 32 word option option" where
  "ld_h_ind p buflen x pck =
     (let i = x + pck in
      if x > buflen \<or> pck > buflen - x \<or> 2 > buflen - i then
        (if buflen \<noteq> 0 then Some None
         else do { m \<leftarrow> as_mbuf p; r \<leftarrow> m_xhalf m (unat i); Some (map_option ucast r) })
      else do { bs \<leftarrow> as_bytes p; map_option (\<lambda>v. Some (ucast v)) (EXTRACT_SHORT bs (unat i)) })"

definition ld_b_ind :: "bpf_packet \<Rightarrow> 32 word \<Rightarrow> 32 word \<Rightarrow> 32 word \<Rightarrow> 32 word option option" where
  "ld_b_ind p buflen x pck =
     (let i = x + pck in
      if pck \<ge> buflen \<or> x \<ge> buflen - pck then
        (if buflen \<noteq> 0 then Some None
         else do { m \<leftarrow> as_mbuf p; r \<leftarrow> m_xbyte m (unat i); Some (map_option ucast r) })
      else do { bs \<leftarrow> as_bytes p; map_option (\<lambda>v. Some (ucast v)) (byte_at bs (unat i)) })"

definition msh :: "byte \<Rightarrow> 32 word" where
  "msh b = push_bit 2 (ucast (b AND 0xf))"

definition ldx_msh :: "bpf_packet \<Rightarrow> 32 word \<Rightarrow> 32 word \<Rightarrow> 32 word option option" where
  "ldx_msh p buflen i =
     (if i \<ge> buflen then
        (if buflen \<noteq> 0 then Some None
         else do { m \<leftarrow> as_mbuf p; r \<leftarrow> m_xbyte m (unat i); Some (map_option msh r) })
      else do { bs \<leftarrow> as_bytes p; map_option (\<lambda>v. Some (msh v)) (byte_at bs (unat i)) })"

section \<open>The interpreter\<close>

record bpf_regs =
  rA :: "32 word"
  rX :: "32 word"
  mem :: "32 word list"

text \<open>What one instruction does: \<^verbatim>\<open>return\<close> a value, or \<^verbatim>\<open>continue\<close> after adding an offset to \<^verbatim>\<open>pc\<close>.\<close>

datatype bpf_next = Return "32 word" | Continue "32 word" bpf_regs

definition set_A :: "bpf_regs \<Rightarrow> 32 word \<Rightarrow> bpf_next" where
  "set_A r v = Continue 0 (r\<lparr>rA := v\<rparr>)"

definition set_X :: "bpf_regs \<Rightarrow> 32 word \<Rightarrow> bpf_next" where
  "set_X r v = Continue 0 (r\<lparr>rX := v\<rparr>)"

definition loaded :: "(32 word \<Rightarrow> bpf_next) \<Rightarrow> 32 word option option \<Rightarrow> bpf_next option" where
  "loaded f v = map_option (\<lambda>v. case v of None \<Rightarrow> Return 0 | Some v \<Rightarrow> f v) v"

definition mem_read :: "bpf_regs \<Rightarrow> 32 word \<Rightarrow> 32 word option" where
  "mem_read r i = (if unat i < length (mem r) then Some (mem r ! unat i) else None)"

definition mem_write :: "bpf_regs \<Rightarrow> 32 word \<Rightarrow> 32 word \<Rightarrow> bpf_next option" where
  "mem_write r i v = (if unat i < length (mem r) then Some (Continue 0 (r\<lparr>mem := (mem r)[unat i := v]\<rparr>)) else None)"

definition branch :: "bpf_insn \<Rightarrow> bool \<Rightarrow> bpf_regs \<Rightarrow> bpf_next option" where
  "branch pc b r = Some (Continue (ucast (if b then i_jt pc else i_jf pc)) r)"

definition shl32 :: "32 word \<Rightarrow> 32 word \<Rightarrow> 32 word" where
  "shl32 a n = push_bit (unat n mod 32) a"

definition shr32 :: "32 word \<Rightarrow> 32 word \<Rightarrow> 32 word" where
  "shr32 a n = drop_bit (unat n mod 32) a"

text \<open>The loads, the jumps and the arithmetic of the \<^verbatim>\<open>switch\<close>; the outer \<open>None\<close> says that the code is not among them.\<close>

definition bpf_load :: "bpf_packet \<Rightarrow> 32 word \<Rightarrow> 32 word \<Rightarrow> bpf_insn \<Rightarrow> bpf_regs \<Rightarrow> bpf_next option option" where
  "bpf_load p wirelen buflen pc r =
     (let c = i_code pc in
      if c = BPF_LD OR BPF_W OR BPF_ABS then Some (loaded (set_A r) (ld_w_abs p buflen (i_k pc)))
      else if c = BPF_LD OR BPF_H OR BPF_ABS then Some (loaded (set_A r) (ld_h_abs p buflen (i_k pc)))
      else if c = BPF_LD OR BPF_B OR BPF_ABS then Some (loaded (set_A r) (ld_b_abs p buflen (i_k pc)))
      else if c = BPF_LD OR BPF_W OR BPF_LEN then Some (Some (set_A r wirelen))
      else if c = BPF_LDX OR BPF_W OR BPF_LEN then Some (Some (set_X r wirelen))
      else if c = BPF_LD OR BPF_W OR BPF_IND then Some (loaded (set_A r) (ld_w_ind p buflen (rX r) (i_k pc)))
      else if c = BPF_LD OR BPF_H OR BPF_IND then Some (loaded (set_A r) (ld_h_ind p buflen (rX r) (i_k pc)))
      else if c = BPF_LD OR BPF_B OR BPF_IND then Some (loaded (set_A r) (ld_b_ind p buflen (rX r) (i_k pc)))
      else if c = BPF_LDX OR BPF_MSH OR BPF_B then Some (loaded (set_X r) (ldx_msh p buflen (i_k pc)))
      else if c = BPF_LD OR BPF_IMM then Some (Some (set_A r (i_k pc)))
      else if c = BPF_LDX OR BPF_IMM then Some (Some (set_X r (i_k pc)))
      else if c = BPF_LD OR BPF_MEM then Some (map_option (set_A r) (mem_read r (i_k pc)))
      else if c = BPF_LDX OR BPF_MEM then Some (map_option (set_X r) (mem_read r (i_k pc)))
      else None)"

definition bpf_jump :: "bpf_insn \<Rightarrow> bpf_regs \<Rightarrow> bpf_next option option" where
  "bpf_jump pc r =
     (let c = i_code pc; A = rA r; X = rX r in
      if c = BPF_JMP OR BPF_JA then Some (Some (Continue (i_k pc) r))
      else if c = BPF_JMP OR BPF_JGT OR BPF_K then Some (branch pc (A > i_k pc) r)
      else if c = BPF_JMP OR BPF_JGE OR BPF_K then Some (branch pc (A \<ge> i_k pc) r)
      else if c = BPF_JMP OR BPF_JEQ OR BPF_K then Some (branch pc (A = i_k pc) r)
      else if c = BPF_JMP OR BPF_JSET OR BPF_K then Some (branch pc (A AND i_k pc \<noteq> 0) r)
      else if c = BPF_JMP OR BPF_JGT OR BPF_X then Some (branch pc (A > X) r)
      else if c = BPF_JMP OR BPF_JGE OR BPF_X then Some (branch pc (A \<ge> X) r)
      else if c = BPF_JMP OR BPF_JEQ OR BPF_X then Some (branch pc (A = X) r)
      else if c = BPF_JMP OR BPF_JSET OR BPF_X then Some (branch pc (A AND X \<noteq> 0) r)
      else None)"

definition bpf_alu :: "bpf_insn \<Rightarrow> bpf_regs \<Rightarrow> bpf_next option option" where
  "bpf_alu pc r =
     (let c = i_code pc; A = rA r; X = rX r in
      if c = BPF_ALU OR BPF_ADD OR BPF_X then Some (Some (set_A r (A + X)))
      else if c = BPF_ALU OR BPF_SUB OR BPF_X then Some (Some (set_A r (A - X)))
      else if c = BPF_ALU OR BPF_MUL OR BPF_X then Some (Some (set_A r (A * X)))
      else if c = BPF_ALU OR BPF_DIV OR BPF_X then Some (Some (if X = 0 then Return 0 else set_A r (A div X)))
      else if c = BPF_ALU OR BPF_AND OR BPF_X then Some (Some (set_A r (A AND X)))
      else if c = BPF_ALU OR BPF_OR OR BPF_X then Some (Some (set_A r (A OR X)))
      else if c = BPF_ALU OR BPF_LSH OR BPF_X then Some (Some (set_A r (shl32 A X)))
      else if c = BPF_ALU OR BPF_RSH OR BPF_X then Some (Some (set_A r (shr32 A X)))
      else if c = BPF_ALU OR BPF_ADD OR BPF_K then Some (Some (set_A r (A + i_k pc)))
      else if c = BPF_ALU OR BPF_SUB OR BPF_K then Some (Some (set_A r (A - i_k pc)))
      else if c = BPF_ALU OR BPF_MUL OR BPF_K then Some (Some (set_A r (A * i_k pc)))
      else if c = BPF_ALU OR BPF_DIV OR BPF_K then Some (if i_k pc = 0 then None else Some (set_A r (A div i_k pc)))
      else if c = BPF_ALU OR BPF_AND OR BPF_K then Some (Some (set_A r (A AND i_k pc)))
      else if c = BPF_ALU OR BPF_OR OR BPF_K then Some (Some (set_A r (A OR i_k pc)))
      else if c = BPF_ALU OR BPF_LSH OR BPF_K then Some (Some (set_A r (shl32 A (i_k pc))))
      else if c = BPF_ALU OR BPF_RSH OR BPF_K then Some (Some (set_A r (shr32 A (i_k pc))))
      else if c = BPF_ALU OR BPF_NEG then Some (Some (set_A r (- A)))
      else None)"

definition bpf_step :: "bpf_packet \<Rightarrow> 32 word \<Rightarrow> 32 word \<Rightarrow> bpf_insn \<Rightarrow> bpf_regs \<Rightarrow> bpf_next option" where
  "bpf_step p wirelen buflen pc r =
     (let c = i_code pc in
      if c = BPF_RET OR BPF_K then Some (Return (i_k pc))
      else if c = BPF_RET OR BPF_A then Some (Return (rA r))
      else case bpf_load p wirelen buflen pc r of Some res \<Rightarrow> res
      | None \<Rightarrow>
      if c = BPF_ST then mem_write r (i_k pc) (rA r)
      else if c = BPF_STX then mem_write r (i_k pc) (rX r)
      else case bpf_jump pc r of Some res \<Rightarrow> res
      | None \<Rightarrow>
      case bpf_alu pc r of Some res \<Rightarrow> res
      | None \<Rightarrow>
      if c = BPF_MISC OR BPF_TAX then Some (set_X r (rA r))
      else if c = BPF_MISC OR BPF_TXA then Some (set_A r (rX r))
      else Some (Return 0))"

text \<open>
  The \<^verbatim>\<open>while\<close> loop, from instruction \<open>i\<close>. The loop need not end on a program that was not
  validated: \<open>None\<close> also stands for that.
\<close>

partial_function (option) bpf_loop ::
  "bpf_packet \<Rightarrow> 32 word \<Rightarrow> 32 word \<Rightarrow> bpf_insn list \<Rightarrow> nat \<Rightarrow> bpf_regs \<Rightarrow> 32 word option" where
  [code]: "bpf_loop p wirelen buflen prog i r =
     (if i < length prog then
        case bpf_step p wirelen buflen (prog ! i) r of
          None \<Rightarrow> None
        | Some (Return v) \<Rightarrow> Some v
        | Some (Continue off r) \<Rightarrow> bpf_loop p wirelen buflen prog ((i + unat off + 1) mod 2 ^ 29) r
      else None)"

text \<open>
  \<^verbatim>\<open>bpf_filter\<close>; no program is \<^verbatim>\<open>pc == NULL\<close>. The scratch memory is an uninitialised array on the
  kernel stack, so its contents are an argument.
\<close>

definition bpf_filter ::
  "32 word list \<Rightarrow> bpf_insn list option \<Rightarrow> bpf_packet \<Rightarrow> 32 word \<Rightarrow> 32 word \<Rightarrow> 32 word option" where
  "bpf_filter stack pc p wirelen buflen =
     (case pc of
        None \<Rightarrow> Some (- 1)
      | Some prog \<Rightarrow> bpf_loop p wirelen buflen prog 0 \<lparr>rA = 0, rX = 0, mem = stack\<rparr>)"

section \<open>The validator\<close>

definition bpf_code_map :: "16 word list" where
  "bpf_code_map = [0x10ff, 0x3070, 0x3131, 0x3031, 0x3131, 0x1011, 0x1013, 0x1010, 0x0093, 0x0000,
     0x0000, 0x0002, 0x0000, 0x0000, 0x0000, 0x0000]"

definition BPF_VALIDATE_CODE :: "16 word \<Rightarrow> bool" where
  "BPF_VALIDATE_CODE c \<longleftrightarrow> c \<le> 0xff \<and> bit (bpf_code_map ! unat (drop_bit 4 c)) (unat (c AND 0xf))"

text \<open>One turn of the loop at index \<open>i\<close>, \<open>rest\<close> being \<^verbatim>\<open>(u_int)(len - i) - 1\<close>.\<close>

definition bpf_insn_ok :: "32 word \<Rightarrow> bpf_insn \<Rightarrow> bool" where
  "bpf_insn_ok rest p =
     (let c = i_code p in
      if \<not> BPF_VALIDATE_CODE c then False
      else if BPF_CLASS c = BPF_JMP then
        (let offset = (if c = BPF_JMP OR BPF_JA then i_k p else ucast (if i_jt p > i_jf p then i_jt p else i_jf p))
         in \<not> offset \<ge> rest)
      else if c = BPF_ST \<or> c = BPF_STX \<or> c = BPF_LD OR BPF_MEM \<or> c = BPF_LDX OR BPF_MEM then
        \<not> unat (i_k p) \<ge> BPF_MEMWORDS
      else \<not> (c = BPF_ALU OR BPF_DIV OR BPF_K \<and> i_k p = 0))"

fun bpf_validate_loop :: "bpf_insn list \<Rightarrow> bool" where
  "bpf_validate_loop [] = True"
| "bpf_validate_loop (p # ps) =
     (if \<not> bpf_insn_ok (of_nat (length (p # ps)) - 1) p then False else bpf_validate_loop ps)"

text \<open>\<open>f\<close> has at least \<open>len\<close> instructions; \<open>None\<close> is a read beyond them.\<close>

definition bpf_validate :: "bpf_insn list \<Rightarrow> int \<Rightarrow> bool option" where
  "bpf_validate f len =
     (if len < 0 then Some False
      else if len = 0 then Some True
      else if nat len > length f then None
      else if \<not> bpf_validate_loop (take (nat len) f) then Some False
      else Some (BPF_CLASS (i_code (f ! (nat len - 1))) = BPF_RET))"

end
