(* ===== verification/BpfDesc.thy ===== *)
theory BpfDesc
  imports Bpf
begin

text \<open>
  The descriptor of an open packet filter device, \<^verbatim>\<open>src/sys/net/bpf.c\<close>, with the kernel memory buffers
  of \<^verbatim>\<open>src/sys/net/bpf_buffer.c\<close>: installing filters, catching packets, reading them. The
  descriptor is in \<^verbatim>\<open>BPF_BUFMODE_BUFFER\<close>, the mode \<^verbatim>\<open>bpfopen\<close> sets; in it \<^verbatim>\<open>bpf_canfreebuf\<close> is 0,
  \<^verbatim>\<open>bpf_canwritebuf\<close> is 1 and \<^verbatim>\<open>bpf_buf_reclaimed\<close>, \<^verbatim>\<open>bpf_buffull\<close>, \<^verbatim>\<open>bpf_bufheld\<close> do nothing.

  The three buffer slots hold addresses in \<open>bd_mem\<close>, the memory of the descriptor's buffers, so
  that a lost, shared or missing buffer shows. A write outside a buffer or through a null slot is
  the result \<open>None\<close>. Wake-ups, signals and \<^verbatim>\<open>select\<close> notes have no effect on the descriptor beyond
  \<^verbatim>\<open>bd_state\<close>. \<^verbatim>\<open>BPF_JITTER\<close> and \<^verbatim>\<open>MAC\<close> are not configured.
\<close>

record bpf_if =
  bif_ifp :: nat
  bif_hdrlen :: "32 word"

datatype bpf_direction = BPF_D_IN | BPF_D_INOUT | BPF_D_OUT

datatype bpf_state = BPF_IDLE | BPF_WAITING | BPF_TIMED_OUT

record bpf_d =
  bd_mem :: "byte list option list"
  bd_sbuf :: "addr option"
  bd_hbuf :: "addr option"
  bd_fbuf :: "addr option"
  bd_slen :: int
  bd_hlen :: int
  bd_bufsize :: int
  bd_bif :: "bpf_if option"
  bd_rfilter :: "bpf_insn list option"
  bd_wfilter :: "bpf_insn list option"
  bd_rcount :: "64 word"
  bd_dcount :: "64 word"
  bd_fcount :: "64 word"
  bd_wcount :: "64 word"
  bd_wfcount :: "64 word"
  bd_wdcount :: "64 word"
  bd_zcopy :: "64 word"
  bd_state :: bpf_state
  bd_immediate :: bool
  bd_direction :: bpf_direction
  bd_pid :: int

section \<open>Buffers\<close>

definition BPF_WORDALIGN :: "int \<Rightarrow> int" where
  "BPF_WORDALIGN x = (x + 3) div 4 * 4"

abbreviation (input) BPF_MINBUFSIZE :: "32 word" where "BPF_MINBUFSIZE \<equiv> 32"

definition bpf_buffer_alloc :: "bpf_d \<Rightarrow> bpf_d option" where
  "bpf_buffer_alloc d =
     do { assert_opt (bd_fbuf d = None);
          assert_opt (bd_sbuf d = None);
          assert_opt (bd_hbuf d = None);
          let bytes = replicate (nat (bd_bufsize d)) 0;
          let d = d\<lparr>bd_fbuf := Some (length (bd_mem d)), bd_mem := halloc bytes (bd_mem d)\<rparr>;
          let d = d\<lparr>bd_sbuf := Some (length (bd_mem d)), bd_mem := halloc bytes (bd_mem d)\<rparr>;
          Some (d\<lparr>bd_hbuf := None, bd_slen := 0, bd_hlen := 0\<rparr>) }"

text \<open>\<^verbatim>\<open>bcopy(bytes, buf + offset, n)\<close>.\<close>

definition bcopy_to :: "addr option \<Rightarrow> nat \<Rightarrow> byte list \<Rightarrow> bpf_d \<Rightarrow> bpf_d option" where
  "bcopy_to buf offset bytes d =
     do { a \<leftarrow> buf;
          old \<leftarrow> deref (bd_mem d) a;
          if offset + length bytes \<le> length old
          then Some (d\<lparr>bd_mem := hstore a (take offset old @ bytes @ drop (offset + length bytes) old) (bd_mem d)\<rparr>)
          else None }"

definition bpf_buffer_append_bytes :: "addr option \<Rightarrow> nat \<Rightarrow> byte list \<Rightarrow> nat \<Rightarrow> bpf_d \<Rightarrow> bpf_d option" where
  "bpf_buffer_append_bytes buf offset src len d =
     (if len \<le> length src then bcopy_to buf offset (take len src) d else None)"

text \<open>The chain may be too short for \<^verbatim>\<open>len\<close>: \<^verbatim>\<open>panic("bpf_mcopy")\<close>.\<close>

fun bpf_buffer_append_mbuf :: "addr option \<Rightarrow> nat \<Rightarrow> byte list list \<Rightarrow> nat \<Rightarrow> bpf_d \<Rightarrow> bpf_d option" where
  "bpf_buffer_append_mbuf buf dst [] len d = (if 0 < len then None else Some d)"
| "bpf_buffer_append_mbuf buf dst (m # ms) len d =
     (if 0 < len then
        (let count = min (length m) len in
         do { d \<leftarrow> bcopy_to buf dst (take count m) d;
              bpf_buffer_append_mbuf buf (dst + count) ms (len - count) d })
      else Some d)"

text \<open>\<open>maxbufsize\<close> is the sysctl variable \<^verbatim>\<open>bpf_maxbufsize\<close>, an \<^verbatim>\<open>int\<close> the comparison makes unsigned.\<close>

definition bpf_buffer_ioctl_sblen :: "32 word \<Rightarrow> 32 word \<Rightarrow> bpf_d \<Rightarrow> errno \<times> 32 word \<times> bpf_d" where
  "bpf_buffer_ioctl_sblen maxbufsize i d =
     (if bd_bif d \<noteq> None then (EINVAL, i, d)
      else let size = (if i > maxbufsize then maxbufsize else if i < BPF_MINBUFSIZE then BPF_MINBUFSIZE else i)
           in (0, size, d\<lparr>bd_bufsize := sint size\<rparr>))"

definition ROTATE_BUFFERS :: "bpf_d \<Rightarrow> bpf_d" where
  "ROTATE_BUFFERS d =
     d\<lparr>bd_hbuf := bd_sbuf d, bd_hlen := bd_slen d, bd_sbuf := bd_fbuf d, bd_slen := 0, bd_fbuf := None\<rparr>"

section \<open>The descriptor\<close>

text \<open>\<^verbatim>\<open>bpfopen\<close>; \<open>bufsize\<close> is the sysctl variable \<^verbatim>\<open>bpf_bufsize\<close> that \<^verbatim>\<open>bpf_buffer_init\<close> copies.\<close>

definition bpfopen :: "int \<Rightarrow> int \<Rightarrow> bpf_d" where
  "bpfopen bufsize pid =
     \<lparr>bd_mem = [], bd_sbuf = None, bd_hbuf = None, bd_fbuf = None, bd_slen = 0, bd_hlen = 0,
      bd_bufsize = bufsize, bd_bif = None, bd_rfilter = None, bd_wfilter = None,
      bd_rcount = 0, bd_dcount = 0, bd_fcount = 0, bd_wcount = 0, bd_wfcount = 0, bd_wdcount = 0, bd_zcopy = 0,
      bd_state = BPF_IDLE, bd_immediate = False, bd_direction = BPF_D_INOUT, bd_pid = pid\<rparr>"

definition reset_d :: "bpf_d \<Rightarrow> bpf_d" where
  "reset_d d =
     (let d = (if bd_hbuf d \<noteq> None then d\<lparr>bd_fbuf := bd_hbuf d, bd_hbuf := None\<rparr> else d)
      in d\<lparr>bd_slen := 0, bd_hlen := 0, bd_rcount := 0, bd_dcount := 0, bd_fcount := 0,
           bd_wcount := 0, bd_wfcount := 0, bd_wdcount := 0, bd_zcopy := 0\<rparr>)"

datatype setf_cmd = BIOCSETF | BIOCSETFNR | BIOCSETWF

text \<open>
  \<^verbatim>\<open>bpf_setf\<close>. The request has a length and perhaps a user address; \<open>copyin n\<close> is what copying \<open>n\<close>
  instructions from there gives, an error or that many instructions.
\<close>

definition bpf_setf ::
  "32 word \<Rightarrow> (nat \<Rightarrow> errno + bpf_insn list) \<Rightarrow> bool \<Rightarrow> 32 word \<Rightarrow> setf_cmd \<Rightarrow> bpf_d \<Rightarrow> (errno \<times> bpf_d) option" where
  "bpf_setf maxinsns copyin insns_null bf_len cmd d =
     (let wfilter = (cmd = BIOCSETWF);
          install = (\<lambda>fcode.
            if wfilter then d\<lparr>bd_wfilter := fcode\<rparr>
            else let d = d\<lparr>bd_rfilter := fcode\<rparr> in if cmd = BIOCSETF then reset_d d else d)
      in if insns_null then
           (if bf_len \<noteq> 0 then Some (EINVAL, d) else Some (0, install None))
         else if bf_len > maxinsns then Some (EINVAL, d)
         else case copyin (unat bf_len) of
                Inl error \<Rightarrow> Some (EINVAL, d)
              | Inr fcode \<Rightarrow>
                  do { ok \<leftarrow> bpf_validate fcode (sint bf_len);
                       if ok then Some (0, install (Some fcode)) else Some (EINVAL, d) })"

definition bpf_wakeup :: "bpf_d \<Rightarrow> bpf_d" where
  "bpf_wakeup d = (if bd_state d = BPF_WAITING then d\<lparr>bd_state := BPF_IDLE\<rparr> else d)"

definition bpf_timed_out :: "bpf_d \<Rightarrow> bpf_d" where
  "bpf_timed_out d =
     (if bd_state d = BPF_WAITING then
        (let d = d\<lparr>bd_state := BPF_TIMED_OUT\<rparr> in if bd_slen d \<noteq> 0 then bpf_wakeup d else d)
      else d)"

definition bpf_ready :: "bpf_d \<Rightarrow> bool" where
  "bpf_ready d = (if bd_hlen d \<noteq> 0 then True
     else if (bd_immediate d \<or> bd_state d = BPF_TIMED_OUT) \<and> bd_slen d \<noteq> 0 then True else False)"

section \<open>Catching packets\<close>

text \<open>
  The header of a captured packet as it lies in memory: time stamp, captured length, packet
  length, header length and two bytes of padding, little endian.
\<close>

definition le16 :: "16 word \<Rightarrow> byte list" where
  "le16 w = [ucast w, ucast (drop_bit 8 w)]"

definition le32 :: "32 word \<Rightarrow> byte list" where
  "le32 w = [ucast w, ucast (drop_bit 8 w), ucast (drop_bit 16 w), ucast (drop_bit 24 w)]"

record bpf_hdr =
  bh_sec :: "32 word"
  bh_usec :: "32 word"
  bh_caplen :: "32 word"
  bh_datalen :: "32 word"
  bh_hdrlen :: "16 word"

definition hdr_bytes :: "bpf_hdr \<Rightarrow> byte list" where
  "hdr_bytes h = le32 (bh_sec h) @ le32 (bh_usec h) @ le32 (bh_caplen h) @ le32 (bh_datalen h) @
     le16 (bh_hdrlen h) @ [0, 0]"

text \<open>The copy routine is chosen by the kind of packet, as the callers do.\<close>

definition cpfn :: "bpf_packet \<Rightarrow> addr option \<Rightarrow> nat \<Rightarrow> nat \<Rightarrow> bpf_d \<Rightarrow> bpf_d option" where
  "cpfn pkt buf offset len d =
     (case pkt of
        Buffer bs \<Rightarrow> bpf_buffer_append_bytes buf offset bs len d
      | Mbufs ms \<Rightarrow> bpf_buffer_append_mbuf buf offset ms len d)"

definition catchpacket ::
  "bpf_packet \<Rightarrow> 32 word \<Rightarrow> 32 word \<Rightarrow> 32 word \<times> 32 word \<Rightarrow> bpf_d \<Rightarrow> bpf_d option" where
  "catchpacket pkt pktlen snaplen tv d =
     do { bp \<leftarrow> bd_bif d;
          let hdrlen = sint (bif_hdrlen bp);
          let totlen = sint (bif_hdrlen bp + min snaplen pktlen);
          let totlen = (if totlen > bd_bufsize d then bd_bufsize d else totlen);
          let curlen = BPF_WORDALIGN (bd_slen d);
          let full = (curlen + totlen > bd_bufsize d);
          if full \<and> bd_fbuf d = None then Some (d\<lparr>bd_dcount := bd_dcount d + 1\<rparr>)
          else do {
            let (d, do_wakeup, curlen) =
              (if full then (ROTATE_BUFFERS d, True, 0)
               else (d, bd_immediate d \<or> bd_state d = BPF_TIMED_OUT, curlen));
            let hdr = \<lparr>bh_sec = fst tv, bh_usec = snd tv, bh_caplen = of_int (totlen - hdrlen),
                       bh_datalen = pktlen, bh_hdrlen = of_int hdrlen\<rparr>;
            d \<leftarrow> bpf_buffer_append_bytes (bd_sbuf d) (nat curlen) (hdr_bytes hdr) 20 d;
            d \<leftarrow> cpfn pkt (bd_sbuf d) (nat (curlen + hdrlen)) (unat (bh_caplen hdr)) d;
            let d = d\<lparr>bd_slen := curlen + totlen\<rparr>;
            Some (if do_wakeup then bpf_wakeup d else d) } }"

text \<open>
  The loops of \<^verbatim>\<open>bpf_tap\<close> and \<^verbatim>\<open>bpf_mtap\<close> over the listeners of an interface. \<open>now\<close> is the time
  \<^verbatim>\<open>microtime\<close> gives at the first match, \<open>stk\<close> the stack a filter run finds.
\<close>

definition bpf_offer ::
  "32 word list \<Rightarrow> bpf_packet \<Rightarrow> 32 word \<Rightarrow> 32 word \<Rightarrow> 32 word \<times> 32 word \<Rightarrow> bpf_d \<Rightarrow> bpf_d option" where
  "bpf_offer stk pkt pktlen buflen now d =
     do { let d = d\<lparr>bd_rcount := bd_rcount d + 1\<rparr>;
          slen \<leftarrow> bpf_filter stk (bd_rfilter d) pkt pktlen buflen;
          if slen \<noteq> 0 then catchpacket pkt pktlen slen now (d\<lparr>bd_fcount := bd_fcount d + 1\<rparr>)
          else Some d }"

fun bpf_tap ::
  "32 word list \<Rightarrow> byte list \<Rightarrow> 32 word \<Rightarrow> 32 word \<times> 32 word \<Rightarrow> bpf_d list \<Rightarrow> bpf_d list option" where
  "bpf_tap stk pkt pktlen now [] = Some []"
| "bpf_tap stk pkt pktlen now (d # ds) =
     do { d \<leftarrow> bpf_offer stk (Buffer pkt) pktlen pktlen now d;
          ds \<leftarrow> bpf_tap stk pkt pktlen now ds;
          Some (d # ds) }"

definition BPF_CHECK_DIRECTION :: "bpf_d \<Rightarrow> nat option \<Rightarrow> nat option \<Rightarrow> bool" where
  "BPF_CHECK_DIRECTION d r i \<longleftrightarrow>
     (bd_direction d = BPF_D_IN \<and> r \<noteq> i) \<or> (bd_direction d = BPF_D_OUT \<and> r = i)"

fun bpf_mtap_loop ::
  "32 word list \<Rightarrow> byte list list \<Rightarrow> 32 word \<Rightarrow> nat option \<Rightarrow> nat \<Rightarrow> 32 word \<times> 32 word \<Rightarrow> bpf_d list \<Rightarrow> bpf_d list option" where
  "bpf_mtap_loop stk m pktlen rcvif ifp now [] = Some []"
| "bpf_mtap_loop stk m pktlen rcvif ifp now (d # ds) =
     do { d \<leftarrow> (if BPF_CHECK_DIRECTION d rcvif (Some ifp) then Some d
                else bpf_offer stk (Mbufs m) pktlen 0 now d);
          ds \<leftarrow> bpf_mtap_loop stk m pktlen rcvif ifp now ds;
          Some (d # ds) }"

text \<open>A packet in mbufs: the \<^verbatim>\<open>M_PROMISC\<close> flag and the receiving interface of its header, its data.\<close>

record mbuf_pkt =
  m_promisc :: bool
  m_rcvif :: "nat option"
  m_chain :: "byte list list"

definition m_length :: "byte list list \<Rightarrow> 32 word" where
  "m_length m = sum_list (map (\<lambda>b. of_nat (length b)) m)"

definition bpf_mtap ::
  "32 word list \<Rightarrow> nat \<Rightarrow> mbuf_pkt \<Rightarrow> 32 word \<times> 32 word \<Rightarrow> bpf_d list \<Rightarrow> (mbuf_pkt \<times> bpf_d list) option" where
  "bpf_mtap stk ifp m now ds =
     (if m_promisc m \<and> m_rcvif m = None then Some (m\<lparr>m_promisc := False\<rparr>, ds)
      else do { ds \<leftarrow> bpf_mtap_loop stk (m_chain m) (m_length (m_chain m)) (m_rcvif m) ifp now ds;
                Some (m, ds) })"

definition bpf_mtap2 ::
  "32 word list \<Rightarrow> nat \<Rightarrow> byte list \<Rightarrow> mbuf_pkt \<Rightarrow> 32 word \<times> 32 word \<Rightarrow> bpf_d list \<Rightarrow> (mbuf_pkt \<times> bpf_d list) option" where
  "bpf_mtap2 stk ifp data m now ds =
     (if m_promisc m \<and> m_rcvif m = None then Some (m\<lparr>m_promisc := False\<rparr>, ds)
      else do { let mb = data # m_chain m;
                ds \<leftarrow> bpf_mtap_loop stk mb (m_length (m_chain m) + of_nat (length data)) (m_rcvif m) ifp now ds;
                Some (m, ds) })"

section \<open>Reading\<close>

text \<open>
  \<^verbatim>\<open>bpfread\<close> holds the lock except while it sleeps and while it copies the hold buffer out. The pieces
  between are single steps: a reader returns, sleeps (remembering \<^verbatim>\<open>timed_out\<close>), or goes on to copy.
\<close>

abbreviation (input) ENXIO :: errno where "ENXIO \<equiv> 6"
abbreviation (input) EWOULDBLOCK :: errno where "EWOULDBLOCK \<equiv> 35"
abbreviation (input) ERESTART :: errno where "ERESTART \<equiv> - 1"

datatype read_next = Read_return errno bpf_d | Read_sleep bool bpf_d | Read_copy bpf_d

definition bpfread_loop :: "bool \<Rightarrow> bool \<Rightarrow> bpf_d \<Rightarrow> read_next" where
  "bpfread_loop timed_out nonblock d =
     (if bd_hbuf d \<noteq> None then Read_copy d
      else if (bd_immediate d \<or> timed_out) \<and> bd_slen d \<noteq> 0 then Read_copy (ROTATE_BUFFERS d)
      else if bd_bif d = None then Read_return ENXIO d
      else if nonblock then Read_return EWOULDBLOCK d
      else Read_sleep timed_out d)"

definition bpfread_enter :: "int \<Rightarrow> int \<Rightarrow> bool \<Rightarrow> bpf_d \<Rightarrow> read_next" where
  "bpfread_enter resid pid nonblock d =
     (if resid \<noteq> bd_bufsize d then Read_return EINVAL d
      else let d = d\<lparr>bd_pid := pid\<rparr>;
               timed_out = (bd_state d = BPF_TIMED_OUT);
               d = d\<lparr>bd_state := BPF_IDLE\<rparr>
           in bpfread_loop timed_out nonblock d)"

text \<open>After \<^verbatim>\<open>msleep\<close>, which only a blocking reader calls, came back with \<open>error\<close>.\<close>

definition bpfread_woken :: "errno \<Rightarrow> bool \<Rightarrow> bpf_d \<Rightarrow> read_next" where
  "bpfread_woken error timed_out d =
     (if error = EINTR \<or> error = ERESTART then Read_return error d
      else if error = EWOULDBLOCK then
        (if bd_hbuf d \<noteq> None then Read_copy d
         else if bd_slen d = 0 then Read_return 0 d
         else Read_copy (ROTATE_BUFFERS d))
      else bpfread_loop timed_out False d)"

text \<open>
  What \<^verbatim>\<open>bpf_uiomove\<close> copies out, without the lock; a length of 0 reads nothing. And what is done after it.
\<close>

definition bpfread_copy :: "bpf_d \<Rightarrow> byte list option" where
  "bpfread_copy d =
     (if nat (bd_hlen d) = 0 then Some [] else
      do { a \<leftarrow> bd_hbuf d;
          buf \<leftarrow> deref (bd_mem d) a;
          if nat (bd_hlen d) \<le> length buf then Some (take (nat (bd_hlen d)) buf) else None })"

definition bpfread_finish :: "bpf_d \<Rightarrow> bpf_d" where
  "bpfread_finish d = d\<lparr>bd_fbuf := bd_hbuf d, bd_hbuf := None, bd_hlen := 0\<rparr>"

section \<open>A descriptor at work\<close>

text \<open>
  The descriptor with the threads that read from it, each a number below the length of \<open>sys_rd\<close>. A reader that copies takes
  one step to copy and one to finish, so that other threads can come between. \<open>sys_out\<close> is what \<^verbatim>\<open>bpf_uiomove\<close> has
  been called with so far: the reader, the error it returned and the data.
\<close>

datatype reader = R_idle | R_sleeping bool | R_copying | R_copied

record bpf_sys =
  sys_d :: bpf_d
  sys_rd :: "reader list"
  sys_out :: "(nat \<times> errno \<times> byte list) list"

datatype bpf_event =
    Ev_packet "32 word list" bpf_packet "32 word" "32 word" "32 word \<times> 32 word"
  | Ev_timeout
  | Ev_read nat int int bool
  | Ev_woken nat errno
  | Ev_copy nat errno
  | Ev_finish nat
  | Ev_flush

definition reader_at :: "nat \<Rightarrow> bpf_sys \<Rightarrow> reader option" where
  "reader_at t s = (if t < length (sys_rd s) then Some (sys_rd s ! t) else None)"

definition set_reader :: "nat \<Rightarrow> reader \<Rightarrow> bpf_sys \<Rightarrow> bpf_sys" where
  "set_reader t r s = s\<lparr>sys_rd := (sys_rd s)[t := r]\<rparr>"

definition read_goes :: "nat \<Rightarrow> read_next \<Rightarrow> bpf_sys \<Rightarrow> bpf_sys" where
  "read_goes t r s =
     (case r of
        Read_return error d \<Rightarrow> set_reader t R_idle (s\<lparr>sys_d := d\<rparr>)
      | Read_sleep timed_out d \<Rightarrow> set_reader t (R_sleeping timed_out) (s\<lparr>sys_d := d\<rparr>)
      | Read_copy d \<Rightarrow> set_reader t R_copying (s\<lparr>sys_d := d\<rparr>))"

text \<open>
  One event; an event that cannot happen in the reader's state changes nothing. \<open>None\<close> is a fault. The hold buffer is given
  back whether the copy has failed or not.
\<close>

fun bpf_happens :: "bpf_event \<Rightarrow> bpf_sys \<Rightarrow> bpf_sys option" where
  "bpf_happens (Ev_packet stk pkt pktlen buflen now) s =
     map_option (\<lambda>d. s\<lparr>sys_d := d\<rparr>) (bpf_offer stk pkt pktlen buflen now (sys_d s))"
| "bpf_happens Ev_timeout s = Some (s\<lparr>sys_d := bpf_timed_out (sys_d s)\<rparr>)"
| "bpf_happens (Ev_read t resid pid nonblock) s =
     (if reader_at t s = Some R_idle then Some (read_goes t (bpfread_enter resid pid nonblock (sys_d s)) s) else Some s)"
| "bpf_happens (Ev_woken t error) s =
     (case reader_at t s of
        Some (R_sleeping timed_out) \<Rightarrow> Some (read_goes t (bpfread_woken error timed_out (sys_d s)) s)
      | _ \<Rightarrow> Some s)"
| "bpf_happens (Ev_copy t error) s =
     (if reader_at t s = Some R_copying
      then map_option (\<lambda>b. set_reader t R_copied (s\<lparr>sys_out := sys_out s @ [(t, error, b)]\<rparr>)) (bpfread_copy (sys_d s))
      else Some s)"
| "bpf_happens (Ev_finish t) s =
     (if reader_at t s = Some R_copied then Some (set_reader t R_idle (s\<lparr>sys_d := bpfread_finish (sys_d s)\<rparr>)) else Some s)"
| "bpf_happens Ev_flush s = Some (s\<lparr>sys_d := reset_d (sys_d s)\<rparr>)"

fun bpf_run :: "bpf_event list \<Rightarrow> bpf_sys \<Rightarrow> bpf_sys option" where
  "bpf_run [] s = Some s"
| "bpf_run (e # es) s = do { s \<leftarrow> bpf_happens e s; bpf_run es s }"

end
