(* ===== verification/BpfProps.thy ===== *)
theory BpfProps
  imports Bpf
begin

text \<open>
  Validated programs are safe to run: \<^verbatim>\<open>bpf_filter\<close> returns on them without a fault, whatever the packet.
\<close>

section \<open>Loads\<close>

text \<open>
  The packets the callers pass: a buffer of at least \<^verbatim>\<open>buflen\<close> bytes, or a chain in which no mbuf
  after the first is empty.
\<close>

definition packet_ok :: "bpf_packet \<Rightarrow> 32 word \<Rightarrow> bool" where
  "packet_ok p buflen =
     (case p of
        Buffer bs \<Rightarrow> buflen \<noteq> 0 \<and> unat buflen \<le> length bs
      | Mbufs ms \<Rightarrow> buflen = 0 \<and> ms \<noteq> [] \<and> [] \<notin> set (tl ms))"

lemma byte_at_Some [simp]: "i < length bs \<Longrightarrow> byte_at bs i = Some (bs ! i)"
  by (simp add: byte_at_def)

lemma EXTRACT_total:
  "i + 4 \<le> length bs \<Longrightarrow> \<exists>v. EXTRACT_LONG bs i = Some v"
  "i + 2 \<le> length bs \<Longrightarrow> \<exists>v. EXTRACT_SHORT bs i = Some v"
  by (simp_all add: EXTRACT_LONG_def EXTRACT_SHORT_def)

lemma mindex_bound:
  assumes "mindex ms i = Some (m, ms', j)"
  shows "j < length m \<and> set ms' \<subseteq> set (tl ms)"
  using assms
proof (induction ms arbitrary: i)
  case (Cons a ms)
  have "set (tl ms) \<subseteq> set ms" by (cases ms) auto
  with Cons show ?case by (fastforce split: if_splits)
qed simp

lemma m_xbyte_total: "\<exists>v. m_xbyte ms i = Some v"
  by (auto simp: m_xbyte_def dest: mindex_bound split: option.split)

lemma m_xhalf_total:
  assumes "[] \<notin> set (tl ms)"
  shows "\<exists>v. m_xhalf ms i = Some v"
proof (cases "mindex ms i")
  case (Some r)
  then obtain m ms' j where r: "mindex ms i = Some (m, ms', j)" by (cases r) auto
  from mindex_bound [OF this] assms have j: "j < length m" "[] \<notin> set ms'" by auto
  then show ?thesis
    using EXTRACT_total(2) [of j m] by (cases ms') (auto simp: m_xhalf_def r)
qed (simp add: m_xhalf_def)

lemma m_xword_total: "\<exists>v. m_xword ms i = Some v"
proof (cases "mindex ms i")
  case (Some r)
  then obtain m ms' j where r: "mindex ms i = Some (m, ms', j)" by (cases r) auto
  from mindex_bound [OF this] have j: "j < length m" by simp
  then show ?thesis
    using EXTRACT_total(1) [of j m] by (cases ms') (auto simp: m_xword_def r Let_def byte_at_def simp del: byte_at_Some)
qed (simp add: m_xword_def)

text \<open>Offsets that pass the range tests are inside the buffer; the sums do not wrap.\<close>

lemma in_range:
  fixes i buflen n :: "32 word"
  assumes "\<not> i > buflen" "\<not> n > buflen - i"
  shows "unat i + unat n \<le> unat buflen"
  using assms by (simp add: word_le_nat_alt unat_sub not_less)

lemma in_range_ind:
  fixes x i buflen :: "32 word"
  assumes "\<not> i > buflen" "\<not> x > buflen - i"
  shows "x + i \<le> buflen \<and> unat (x + i) = unat x + unat i"
proof -
  have le: "unat x + unat i \<le> unat buflen" using in_range [OF assms] by simp
  then have "unat x + unat i < 2 ^ 32"
    using unsigned_less [of buflen, where ?'a = nat] by simp
  then have "unat (x + i) = unat x + unat i"
    by (simp add: unat_word_ariths)
  then show ?thesis using le by (simp add: word_le_nat_alt)
qed

lemma in_range_byte:
  fixes x i buflen :: "32 word"
  assumes "\<not> i \<ge> buflen" "\<not> x \<ge> buflen - i"
  shows "unat (x + i) < unat buflen"
proof -
  have "unat x + unat i < unat buflen"
    using assms by (simp add: word_le_nat_alt unat_sub not_le)
  moreover have "unat (x + i) = unat x + unat i"
    using in_range_ind [of buflen i x] assms by (meson leD leI order.strict_implies_order)
  ultimately show ?thesis by simp
qed

named_theorems bpf_total \<open>loads that do not fault\<close>

text \<open>A buffer load whose test rejects returns; a chain load always has an empty buffer.\<close>

lemma packet_okE:
  assumes "packet_ok p buflen"
  obtains bs where "p = Buffer bs" "buflen \<noteq> 0" "unat buflen \<le> length bs"
  | m ms where "p = Mbufs (m # ms)" "buflen = 0" "[] \<notin> set ms"
  using assms by (cases p) (auto simp: packet_ok_def neq_Nil_conv)

lemma chain_test:
  fixes i x :: "32 word"
  shows "0 < i \<or> - i < 4" "0 < i \<or> - i < 2" "0 < i \<or> - i < x \<or> - (x + i) < 4" "0 < x \<or> - x < i \<or> - (x + i) < 2"
  by (cases "i = 0"; cases "x = 0"; simp add: word_gt_0)+

lemmas load_defs = as_bytes_def as_mbuf_def Let_def

lemma ld_w_abs_total [bpf_total]: "packet_ok p buflen \<Longrightarrow> \<exists>v. ld_w_abs p buflen i = Some v"
proof (erule packet_okE)
  fix bs assume "p = Buffer bs" "buflen \<noteq> 0" "unat buflen \<le> length bs"
  then show ?thesis
    using in_range [of buflen i 4] EXTRACT_total(1) [of "unat i" bs] by (auto simp: ld_w_abs_def load_defs)
next
  fix m ms assume "p = Mbufs (m # ms)" "buflen = 0" "[] \<notin> set ms"
  then show ?thesis
    using m_xword_total [of "m # ms" "unat i"] chain_test(1) [of i] by (auto simp: ld_w_abs_def load_defs)
qed

lemma ld_h_abs_total [bpf_total]: "packet_ok p buflen \<Longrightarrow> \<exists>v. ld_h_abs p buflen i = Some v"
proof (erule packet_okE)
  fix bs assume "p = Buffer bs" "buflen \<noteq> 0" "unat buflen \<le> length bs"
  then show ?thesis
    using in_range [of buflen i 2] EXTRACT_total(2) [of "unat i" bs] by (auto simp: ld_h_abs_def load_defs)
next
  fix m ms assume "p = Mbufs (m # ms)" "buflen = 0" "[] \<notin> set ms"
  then show ?thesis
    using m_xhalf_total [of "m # ms" "unat i"] chain_test(2) [of i] by (auto simp: ld_h_abs_def load_defs)
qed

lemma ld_w_ind_total [bpf_total]: "packet_ok p buflen \<Longrightarrow> \<exists>v. ld_w_ind p buflen x i = Some v"
proof (erule packet_okE)
  fix bs assume "p = Buffer bs" "buflen \<noteq> 0" "unat buflen \<le> length bs"
  then show ?thesis
    using in_range_ind [of buflen i x] in_range [of buflen "x + i" 4] EXTRACT_total(1) [of "unat (x + i)" bs]
    by (auto simp: ld_w_ind_def load_defs not_less)
next
  fix m ms assume "p = Mbufs (m # ms)" "buflen = 0" "[] \<notin> set ms"
  then show ?thesis
    using m_xword_total [of "m # ms" "unat (x + i)"] chain_test(3) [of i x] by (auto simp: ld_w_ind_def load_defs)
qed

lemma ld_h_ind_total [bpf_total]: "packet_ok p buflen \<Longrightarrow> \<exists>v. ld_h_ind p buflen x i = Some v"
proof (erule packet_okE)
  fix bs assume "p = Buffer bs" "buflen \<noteq> 0" "unat buflen \<le> length bs"
  then show ?thesis
    using in_range_ind [of buflen x i] in_range [of buflen "x + i" 2] EXTRACT_total(2) [of "unat (x + i)" bs]
    by (auto simp: ld_h_ind_def load_defs not_less add.commute)
next
  fix m ms assume "p = Mbufs (m # ms)" "buflen = 0" "[] \<notin> set ms"
  then show ?thesis
    using m_xhalf_total [of "m # ms" "unat (x + i)"] chain_test(4) [of x i] by (auto simp: ld_h_ind_def load_defs)
qed

lemma byte_load_total:
  assumes "packet_ok p buflen" "i < buflen \<Longrightarrow> unat j < unat buflen"
  shows "\<exists>v. (if i \<ge> buflen then
        (if buflen \<noteq> 0 then Some None
         else do { m \<leftarrow> as_mbuf p; r \<leftarrow> m_xbyte m (unat j); Some (map_option f r) })
      else do { bs \<leftarrow> as_bytes p; map_option (\<lambda>v. Some (f v)) (byte_at bs (unat j)) }) = Some v"
  using assms(1)
proof (rule packet_okE)
  fix bs assume "p = Buffer bs" "buflen \<noteq> 0" "unat buflen \<le> length bs"
  then show ?thesis using assms(2) by (auto simp: load_defs not_le)
next
  fix m ms assume "p = Mbufs (m # ms)" "buflen = 0" "[] \<notin> set ms"
  then show ?thesis using m_xbyte_total [of "m # ms" "unat j"] by (auto simp: load_defs)
qed

lemma ld_b_abs_total [bpf_total]: "packet_ok p buflen \<Longrightarrow> \<exists>v. ld_b_abs p buflen i = Some v"
  unfolding ld_b_abs_def by (rule byte_load_total) (simp_all add: word_less_nat_alt)

lemma ldx_msh_total [bpf_total]: "packet_ok p buflen \<Longrightarrow> \<exists>v. ldx_msh p buflen i = Some v"
  unfolding ldx_msh_def by (rule byte_load_total) (simp_all add: word_less_nat_alt)

lemma ld_b_ind_total [bpf_total]:
  assumes "packet_ok p buflen"
  shows "\<exists>v. ld_b_ind p buflen x i = Some v"
proof (cases "i \<ge> buflen \<or> x \<ge> buflen - i")
  case True
  then show ?thesis
    using byte_load_total [OF assms, of buflen "x + i" ucast] unfolding ld_b_ind_def Let_def by simp
next
  case False
  then show ?thesis
    using byte_load_total [OF assms, of 0 "x + i" ucast] in_range_byte [of buflen i x]
    unfolding ld_b_ind_def Let_def by (auto simp: not_le)
qed

section \<open>One instruction\<close>

text \<open>An instruction that is not a jump: it returns, or goes on to the next one with the memory in place.\<close>

definition plain :: "bpf_regs \<Rightarrow> bpf_next \<Rightarrow> bool" where
  "plain r n = (case n of Return _ \<Rightarrow> True | Continue off r' \<Rightarrow> off = 0 \<and> length (mem r') = length (mem r))"

lemma plain_set [simp]: "plain r (set_A r v)" "plain r (set_X r v)" "plain r (Return v)"
  by (simp_all add: plain_def set_A_def set_X_def)

lemma plain_loaded:
  "\<exists>v. l = Some v \<Longrightarrow> \<exists>n. loaded (set_A r) l = Some n \<and> plain r n"
  "\<exists>v. l = Some v \<Longrightarrow> \<exists>n. loaded (set_X r) l = Some n \<and> plain r n"
  by (auto simp: loaded_def simp del: split_paired_Ex; metis option.exhaust option.simps(4,5) plain_set)+

lemma bpf_insn_okD:
  assumes "bpf_insn_ok rest pc"
  shows "BPF_CLASS (i_code pc) = BPF_JMP \<Longrightarrow> (if i_code pc = BPF_JMP OR BPF_JA then i_k pc
      else ucast (if i_jt pc > i_jf pc then i_jt pc else i_jf pc)) < rest"
    and "i_code pc \<in> {BPF_ST, BPF_STX, BPF_LD OR BPF_MEM, BPF_LDX OR BPF_MEM} \<Longrightarrow> unat (i_k pc) < BPF_MEMWORDS"
    and "i_code pc = BPF_ALU OR BPF_DIV OR BPF_K \<Longrightarrow> i_k pc \<noteq> 0"
  using assms by (auto simp: bpf_insn_ok_def Let_def not_le BPF_CLASS_def split: if_splits)

lemma bpf_load_ok:
  assumes "packet_ok p buflen" "bpf_insn_ok rest pc" "length (mem r) = BPF_MEMWORDS"
    and "bpf_load p wirelen buflen pc r = Some res"
  shows "\<exists>n. res = Some n \<and> plain r n"
proof -
  have m: "unat (i_k pc) < length (mem r)" if "i_code pc = BPF_LD OR BPF_MEM \<or> i_code pc = BPF_LDX OR BPF_MEM"
    using bpf_insn_okD(2) [OF assms(2)] assms(3) that by auto
  note t = bpf_total [OF assms(1), THEN plain_loaded(1)] bpf_total [OF assms(1), THEN plain_loaded(2)]
  show ?thesis
    using assms(4) m
    by (simp add: bpf_load_def Let_def t split: if_splits) (auto simp: t mem_read_def)
qed

lemma unat_ucast8 [simp]: "unat (ucast (b :: 8 word) :: 32 word) = unat b"
proof -
  have "unat b < 2 ^ 8" using unsigned_less [of b, where ?'a = nat] by simp
  then show ?thesis by (simp add: unsigned_ucast_eq take_bit_nat_eq_self)
qed

lemma bpf_jump_ok:
  assumes "bpf_insn_ok rest pc" "bpf_jump pc r = Some res"
  shows "\<exists>off. res = Some (Continue off r) \<and> off < rest"
proof -
  have "BPF_CLASS (i_code pc) = BPF_JMP"
    using assms(2) by (auto simp: bpf_jump_def Let_def BPF_CLASS_def split: if_splits)
  note o = bpf_insn_okD(1) [OF assms(1) this]
  have b: "\<exists>off. branch pc b r = Some (Continue off r) \<and> off < rest" if "i_code pc \<noteq> BPF_JMP OR BPF_JA" for b
    using o that by (auto simp: branch_def word_less_nat_alt split: if_splits)
  show ?thesis
    using assms(2) o b by (simp add: bpf_jump_def Let_def split: if_splits) auto
qed

lemma bpf_alu_ok:
  assumes "bpf_insn_ok rest pc" "bpf_alu pc r = Some res"
  shows "\<exists>n. res = Some n \<and> plain r n"
proof -
  have d: "i_k pc \<noteq> 0" if "i_code pc = BPF_ALU OR BPF_DIV OR BPF_K"
    using bpf_insn_okD(3) [OF assms(1)] that by auto
  show ?thesis using assms(2) d by (simp add: bpf_alu_def Let_def split: if_splits) auto
qed

lemma bpf_step_ok:
  assumes "packet_ok p buflen" "bpf_insn_ok rest pc" "length (mem r) = BPF_MEMWORDS"
  shows "\<exists>n. bpf_step p wirelen buflen pc r = Some n \<and>
    (plain r n \<or> (\<exists>off. n = Continue off r \<and> off < rest))"
proof -
  have w: "\<exists>n. mem_write r (i_k pc) v = Some n \<and> plain r n" if "i_code pc \<in> {BPF_ST, BPF_STX}" for v
    using bpf_insn_okD(2) [OF assms(2)] assms(3) that by (auto simp: mem_write_def plain_def)
  note ok = bpf_load_ok [OF assms, of wirelen] bpf_jump_ok [OF assms(2), of r] bpf_alu_ok [OF assms(2), of r] w
  show ?thesis
  proof (cases "bpf_load p wirelen buflen pc r")
    case None
    show ?thesis
    proof (cases "bpf_jump pc r")
      case None2: None
      show ?thesis
      proof (cases "bpf_alu pc r")
        case None
        then show ?thesis using \<open>bpf_load p wirelen buflen pc r = None\<close> None2 w
          by (auto simp: bpf_step_def Let_def)
      qed (use None None2 ok in \<open>auto simp: bpf_step_def Let_def\<close>)
    qed (use None ok in \<open>auto simp: bpf_step_def Let_def\<close>)
  qed (use ok in \<open>auto simp: bpf_step_def Let_def\<close>)
qed

text \<open>The cases of the \<^verbatim>\<open>switch\<close>.\<close>

definition bpf_codes :: "16 word list" where
  "bpf_codes = [0x06, 0x16, 0x20, 0x28, 0x30, 0x80, 0x81, 0x40, 0x48, 0x50, 0xb1, 0x00, 0x01, 0x60, 0x61,
     0x02, 0x03, 0x05, 0x25, 0x35, 0x15, 0x45, 0x2d, 0x3d, 0x1d, 0x4d, 0x0c, 0x1c, 0x2c, 0x3c, 0x5c, 0x4c,
     0x6c, 0x7c, 0x04, 0x14, 0x24, 0x34, 0x54, 0x44, 0x64, 0x74, 0x84, 0x07, 0x87]"

definition bpf_rows :: "int list" where
  "bpf_rows = [0x10ff, 0x3070, 0x3131, 0x3031, 0x3131, 0x1011, 0x1013, 0x1010, 0x0093, 0, 0, 0x0002, 0, 0, 0, 0]"

lemma bpf_rows_codes:
  "filter (\<lambda>c. bit (bpf_rows ! nat (c div 16)) (nat (c mod 16))) [0..0xff] =
     [0x00, 0x01, 0x02, 0x03, 0x04, 0x05, 0x06, 0x07, 0x0c, 0x14, 0x15, 0x16, 0x1c, 0x1d, 0x20, 0x24, 0x25,
      0x28, 0x2c, 0x2d, 0x30, 0x34, 0x35, 0x3c, 0x3d, 0x40, 0x44, 0x45, 0x48, 0x4c, 0x4d, 0x50, 0x54, 0x5c,
      0x60, 0x61, 0x64, 0x6c, 0x74, 0x7c, 0x80, 0x81, 0x84, 0x87, 0xb1]"
  by code_simp

lemma bpf_code_bit:
  fixes c :: "16 word"
  assumes "c \<le> 0xff"
  shows "bit (bpf_code_map ! unat (drop_bit 4 c)) (unat (c AND 0xf)) \<longleftrightarrow>
    bit (bpf_rows ! nat (uint c div 16)) (nat (uint c mod 16))"
proof -
  have c: "uint c \<le> 255" using assms by (simp add: word_le_def)
  have map: "bpf_rows = map uint bpf_code_map" by (simp add: bpf_rows_def bpf_code_map_def)
  have rows: "bit (bpf_rows ! n) b = bit (bpf_code_map ! n) b" if "n < length bpf_code_map" for n b
    unfolding map using that by (simp add: bit_unsigned_iff)
  have row: "unat (drop_bit 4 c) = nat (uint c div 16)"
    by (simp add: drop_bit_eq_div nat_div_distrib unat_div)
  have len: "nat (uint c div 16) < length bpf_code_map" using c by (simp add: bpf_code_map_def)
  have "c AND 0xf = take_bit 4 c" by (simp add: take_bit_eq_mask mask_eq_exp_minus_1)
  then have "unat (c AND 0xf) = nat (uint c mod 16)"
    by (simp only: unsigned_take_bit_eq) (simp add: take_bit_eq_mod nat_mod_distrib)
  then show ?thesis unfolding row rows [OF len] by (simp only:)
qed

lemma BPF_VALIDATE_CODE_iff: "BPF_VALIDATE_CODE c \<longleftrightarrow> c \<in> set bpf_codes"
proof -
  have "BPF_VALIDATE_CODE c \<longleftrightarrow> uint c \<in> set (filter (\<lambda>c. bit (bpf_rows ! nat (c div 16)) (nat (c mod 16))) [0..0xff])"
    using bpf_code_bit [of c] by (auto simp: BPF_VALIDATE_CODE_def word_le_def)
  also have "\<dots> \<longleftrightarrow> uint c \<in> set (map uint bpf_codes)"
    unfolding bpf_rows_codes by (simp add: bpf_codes_def) blast
  also have "\<dots> \<longleftrightarrow> c \<in> set bpf_codes" by (auto simp: image_iff dest: unsigned_word_eqI)
  finally show ?thesis .
qed

lemma bpf_step_ret:
  assumes "BPF_CLASS (i_code pc) = BPF_RET" "BPF_VALIDATE_CODE (i_code pc)"
  shows "\<exists>v. bpf_step p wirelen buflen pc r = Some (Return v)"
proof -
  have "list_all (\<lambda>c. BPF_CLASS c = BPF_RET \<longrightarrow> c = 0x06 \<or> c = 0x16) bpf_codes" by code_simp
  then have "i_code pc = 0x06 \<or> i_code pc = 0x16"
    using assms by (simp add: BPF_VALIDATE_CODE_iff list_all_iff)
  then show ?thesis by (auto simp: bpf_step_def Let_def)
qed

lemma bpf_step_unknown:
  assumes "i_code pc \<notin> set bpf_codes"
  shows "bpf_step p wirelen buflen pc r = Some (Return 0)"
  using assms
  by (simp add: bpf_codes_def bpf_step_def bpf_load_def bpf_jump_def bpf_alu_def Let_def)

section \<open>The program\<close>

lemma bpf_validate_loop_nth:
  assumes "bpf_validate_loop prog" "i < length prog"
  shows "bpf_insn_ok (of_nat (length prog - i) - 1) (prog ! i)"
  using assms
proof (induction prog arbitrary: i)
  case (Cons p ps)
  then show ?case by (cases i) (auto split: if_splits)
qed simp

lemma bpf_loop_ok:
  assumes "packet_ok p buflen" "bpf_validate_loop prog" "BPF_CLASS (i_code (last prog)) = BPF_RET"
    and "length prog < 2 ^ 29" "i < length prog" "length (mem r) = BPF_MEMWORDS"
  shows "\<exists>v. bpf_loop p wirelen buflen prog i r = Some v"
  using assms(5,6)
proof (induction "length prog - i" arbitrary: i r rule: less_induct)
  case less
  define rest where "rest = (of_nat (length prog - i) - 1 :: 32 word)"
  have ok: "bpf_insn_ok rest (prog ! i)" using bpf_validate_loop_nth [OF assms(2) less.prems(1)] by (simp add: rest_def)
  have "rest = of_nat (length prog - i - 1)" using less.prems(1) by (simp add: rest_def of_nat_diff)
  then have rest: "unat rest = length prog - i - 1"
    using assms(4) by (simp add: unat_of_nat)
  obtain n where n: "bpf_step p wirelen buflen (prog ! i) r = Some n"
      "plain r n \<or> (\<exists>off. n = Continue off r \<and> off < rest)"
    using bpf_step_ok [OF assms(1) ok less.prems(2)] by blast
  show ?case
  proof (cases n)
    case (Return v)
    then show ?thesis using n(1) less.prems(1) by (simp add: bpf_loop.simps)
  next
    case (Continue off r')
    have "i + unat off + 1 < length prog"
    proof (cases "off < rest")
      case True
      then show ?thesis using rest by (simp add: word_less_nat_alt)
    next
      case False
      then have "off = 0" using n(2) Continue by (auto simp: plain_def)
      moreover have "i \<noteq> length prog - 1"
      proof
        assume "i = length prog - 1"
        then have "prog ! i = last prog" using less.prems(1) by (metis last_conv_nth list.size(3) not_less_zero)
        moreover have "BPF_VALIDATE_CODE (i_code (prog ! i))" using ok by (simp add: bpf_insn_ok_def Let_def split: if_splits)
        ultimately show False using bpf_step_ret [of "prog ! i" p wirelen buflen r] assms(3) n(1) Continue by auto
      qed
      ultimately show ?thesis using less.prems(1) by simp
    qed
    moreover have "length (mem r') = BPF_MEMWORDS" using n(2) Continue less.prems(2) by (auto simp: plain_def)
    ultimately have "\<exists>v. bpf_loop p wirelen buflen prog (i + unat off + 1) r' = Some v"
      using less.hyps [of "i + unat off + 1" r'] less.prems(1) by simp
    moreover have "(i + unat off + 1) mod 2 ^ 29 = i + unat off + 1"
      using \<open>i + unat off + 1 < length prog\<close> assms(4) by simp
    ultimately show ?thesis
      using n(1) Continue less.prems(1) by (subst bpf_loop.simps) simp
  qed
qed

section \<open>Buffers and chains\<close>

text \<open>
  A word that starts in one mbuf must end in the next: the middle mbufs are long enough for that.
\<close>

definition chain_ok :: "byte list list \<Rightarrow> bool" where
  "chain_ok ms \<longleftrightarrow> (\<forall>m \<in> set (butlast (tl ms)). 3 \<le> length m)"

lemma mindex_split:
  assumes "i < length (concat ms)"
  shows "\<exists>pre m ms' j. ms = pre @ m # ms' \<and> mindex ms i = Some (m, ms', j) \<and> j < length m \<and>
    i = length (concat pre) + j"
  using assms
proof (induction ms arbitrary: i)
  case (Cons a ms)
  show ?case
  proof (cases "i < length a")
    case True
    then show ?thesis by (intro exI [of _ "[]"] exI [of _ a] exI [of _ ms] exI [of _ i]) simp
  next
    case False
    then have "i - length a < length (concat ms)" using Cons.prems by simp
    from Cons.IH [OF this] obtain pre m ms' j where
      "ms = pre @ m # ms'" "mindex ms (i - length a) = Some (m, ms', j)" "j < length m"
      "i - length a = length (concat pre) + j" by blast
    then show ?thesis using False by (intro exI [of _ "a # pre"]) auto
  qed
qed simp

lemma mindex_None: "length (concat ms) \<le> i \<Longrightarrow> mindex ms i = None"
  by (induction ms arbitrary: i) auto

lemma m_xbyte_concat:
  "m_xbyte ms i = Some (if i < length (concat ms) then Some (concat ms ! i) else None)"
proof (cases "i < length (concat ms)")
  case True
  then obtain pre m ms' j where ms: "ms = pre @ m # ms'" "mindex ms i = Some (m, ms', j)" "j < length m"
    "i = length (concat pre) + j" using mindex_split by blast
  then have "concat ms ! i = m ! j" by (simp add: nth_append)
  then show ?thesis using ms True by (simp add: m_xbyte_def)
qed (simp add: m_xbyte_def mindex_None)

text \<open>The mbuf an offset falls in, seen from the concatenation; a successor exists if the bytes go on.\<close>

lemma mindex_concat:
  assumes "i + n \<le> length (concat ms)" "0 < n" "n \<le> 4" "chain_ok ms"
  obtains m ms' j where "mindex ms i = Some (m, ms', j)" "j < length m"
    "\<And>d. concat ms ! (i + d) = (m @ concat ms') ! (j + d)"
    "length m - j < n \<Longrightarrow> \<exists>np rest. ms' = np # rest \<and> n \<le> length np + (length m - j)"
proof -
  have "i < length (concat ms)" using assms(1,2) by linarith
  then obtain pre m ms' j where ms: "ms = pre @ m # ms'" "mindex ms i = Some (m, ms', j)" "j < length m"
      "i = length (concat pre) + j" using mindex_split by blast
  have nth: "concat ms ! (i + d) = (m @ concat ms') ! (j + d)" for d
    using ms by (simp add: nth_append)
  have "\<exists>np rest. ms' = np # rest \<and> n \<le> length np + (length m - j)" if short: "length m - j < n"
  proof (cases ms')
    case Nil
    then show ?thesis using assms(1) ms short by simp
  next
    case (Cons np rest)
    show ?thesis
    proof (cases rest)
      case Nil
      then show ?thesis using Cons assms(1) ms short by simp
    next
      case (Cons q qs)
      then have "tl ms = tl (pre @ [m]) @ np # q # qs" using ms(1) \<open>ms' = np # rest\<close> by (cases pre) auto
      then have "np \<in> set (butlast (tl ms))" by (simp add: butlast_append)
      then have "3 \<le> length np" using assms(4) by (simp add: chain_ok_def)
      then show ?thesis using \<open>ms' = np # rest\<close> assms(3) ms(3) by auto
    qed
  qed
  then show thesis using that ms(2,3) nth by blast
qed

lemma m_xhalf_concat:
  assumes "i + 2 \<le> length (concat ms)" "chain_ok ms"
  shows "m_xhalf ms i = Some (Some (be16 (concat ms ! i) (concat ms ! (i + 1))))"
proof -
  obtain m ms' j where m: "mindex ms i = Some (m, ms', j)" "j < length m"
      and nth: "\<And>d. concat ms ! (i + d) = (m @ concat ms') ! (j + d)"
      and nx: "length m - j < 2 \<Longrightarrow> \<exists>np rest. ms' = np # rest \<and> 2 \<le> length np + (length m - j)"
    by (rule mindex_concat [OF assms(1) _ _ assms(2)]) (simp, simp, blast)
  show ?thesis
  proof (cases "length m - j < 2")
    case True
    with nx obtain np rest where np: "ms' = np # rest" "2 \<le> length np + (length m - j)" by blast
    then have "np ! 0 = concat ms ! (i + 1)" "0 < length np"
      using True m(2) nth [of 1] by (auto simp: nth_append)
    then show ?thesis using m np True nth [of 0] by (simp add: m_xhalf_def nth_append)
  next
    case False
    then have "Suc j < length m" by simp
    then show ?thesis using False m nth [of 0] nth [of 1] by (simp add: m_xhalf_def EXTRACT_SHORT_def nth_append)
  qed
qed

lemma m_xword_concat:
  assumes "i + 4 \<le> length (concat ms)" "chain_ok ms"
  shows "m_xword ms i =
    Some (Some (be32 (concat ms ! i) (concat ms ! (i + 1)) (concat ms ! (i + 2)) (concat ms ! (i + 3))))"
proof -
  obtain m ms' j where m: "mindex ms i = Some (m, ms', j)" "j < length m"
      and nth: "\<And>d. concat ms ! (i + d) = (m @ concat ms') ! (j + d)"
      and nx: "length m - j < 4 \<Longrightarrow> \<exists>np rest. ms' = np # rest \<and> 4 \<le> length np + (length m - j)"
    by (rule mindex_concat [OF assms(1) _ _ assms(2)]) (simp, simp, blast)
  show ?thesis
  proof (cases "length m - j < 4")
    case True
    with nx obtain np rest where np: "ms' = np # rest" "4 \<le> length np + (length m - j)" by blast
    have b: "concat ms ! (i + d) = (if d < length m - j then m ! (j + d) else np ! (d - (length m - j)))"
      if "d < 4" for d
      using nth [of d] that np m(2) by (auto simp: nth_append add.commute)
    consider "length m - j = 1" | "length m - j = 2" | "length m - j = 3" using True m(2) by linarith
    then show ?thesis
      using m np b [of 0] b [of 1] b [of 2] b [of 3]
      by cases (auto simp: m_xword_def Let_def byte_at_def)
  next
    case False
    then have "j + 3 < length m" by simp
    then show ?thesis
      using False m nth [of 0] nth [of 1] nth [of 2] nth [of 3]
      by (simp add: m_xword_def EXTRACT_LONG_def nth_append)
  qed
qed

text \<open>What a load finds in the buffer it finds in the chain.\<close>

lemma EXTRACT_Some:
  "EXTRACT_LONG bs i = Some v \<Longrightarrow> i + 4 \<le> length bs \<and> v = be32 (bs ! i) (bs ! (i + 1)) (bs ! (i + 2)) (bs ! (i + 3))"
  "EXTRACT_SHORT bs i = Some h \<Longrightarrow> i + 2 \<le> length bs \<and> h = be16 (bs ! i) (bs ! (i + 1))"
  by (auto simp: EXTRACT_LONG_def EXTRACT_SHORT_def byte_at_def bind_eq_Some_conv split: if_splits)

lemma EXTRACT_chain:
  assumes "chain_ok ms"
  shows "EXTRACT_LONG (concat ms) i = Some v \<Longrightarrow> m_xword ms i = Some (Some v)"
    and "EXTRACT_SHORT (concat ms) i = Some h \<Longrightarrow> m_xhalf ms i = Some (Some h)"
    and "byte_at (concat ms) i = Some b \<Longrightarrow> m_xbyte ms i = Some (Some b)"
  using EXTRACT_Some m_xword_concat m_xhalf_concat assms
  by (auto simp: m_xbyte_concat byte_at_def split: if_splits)

lemma loads_chain:
  assumes "chain_ok ms" "ms \<noteq> []"
  defines "p \<equiv> Buffer (concat ms)" and "q \<equiv> Mbufs ms"
  shows "ld_w_abs p buflen i = Some (Some v) \<Longrightarrow> ld_w_abs q 0 i = Some (Some v)"
    and "ld_h_abs p buflen i = Some (Some v) \<Longrightarrow> ld_h_abs q 0 i = Some (Some v)"
    and "ld_b_abs p buflen i = Some (Some v) \<Longrightarrow> ld_b_abs q 0 i = Some (Some v)"
    and "ld_w_ind p buflen x i = Some (Some v) \<Longrightarrow> ld_w_ind q 0 x i = Some (Some v)"
    and "ld_h_ind p buflen x i = Some (Some v) \<Longrightarrow> ld_h_ind q 0 x i = Some (Some v)"
    and "ld_b_ind p buflen x i = Some (Some v) \<Longrightarrow> ld_b_ind q 0 x i = Some (Some v)"
    and "ldx_msh p buflen i = Some (Some v) \<Longrightarrow> ldx_msh q 0 i = Some (Some v)"
proof -
  obtain m r where ms: "ms = m # r" using assms(2) by (cases ms) auto
  have q: "as_mbuf q = Some ms" "as_bytes p = Some (concat ms)" "as_mbuf p = None"
    by (simp_all add: as_mbuf_def as_bytes_def p_def q_def ms)
  note E = EXTRACT_chain [OF assms(1)]
  show "ld_w_abs p buflen i = Some (Some v) \<Longrightarrow> ld_w_abs q 0 i = Some (Some v)"
    using chain_test(1) [of i] by (auto simp: ld_w_abs_def q E split: if_splits)
  show "ld_h_abs p buflen i = Some (Some v) \<Longrightarrow> ld_h_abs q 0 i = Some (Some v)"
    using chain_test(2) [of i] by (auto simp: ld_h_abs_def q E split: if_splits)
  show "ld_b_abs p buflen i = Some (Some v) \<Longrightarrow> ld_b_abs q 0 i = Some (Some v)"
    by (auto simp: ld_b_abs_def q E split: if_splits)
  show "ld_w_ind p buflen x i = Some (Some v) \<Longrightarrow> ld_w_ind q 0 x i = Some (Some v)"
    using chain_test(3) [of i x] by (auto simp: ld_w_ind_def Let_def q E split: if_splits)
  show "ld_h_ind p buflen x i = Some (Some v) \<Longrightarrow> ld_h_ind q 0 x i = Some (Some v)"
    using chain_test(4) [of x i] by (auto simp: ld_h_ind_def Let_def q E split: if_splits)
  show "ld_b_ind p buflen x i = Some (Some v) \<Longrightarrow> ld_b_ind q 0 x i = Some (Some v)"
    by (auto simp: ld_b_ind_def Let_def q E split: if_splits)
  show "ldx_msh p buflen i = Some (Some v) \<Longrightarrow> ldx_msh q 0 i = Some (Some v)"
    by (auto simp: ldx_msh_def q E split: if_splits)
qed

lemma loaded_chain:
  assumes "loaded f l = Some n" "n \<noteq> Return 0" "\<And>v. l = Some (Some v) \<Longrightarrow> l' = Some (Some v)"
  shows "loaded f l' = Some n"
  using assms by (auto simp: loaded_def split: option.splits)

lemma bpf_load_chain:
  assumes "chain_ok ms" "ms \<noteq> []" "n \<noteq> Return 0"
    and "bpf_load (Buffer (concat ms)) wirelen buflen pc r = Some (Some n)"
  shows "bpf_load (Mbufs ms) wirelen 0 pc r = Some (Some n)"
proof -
  note L = loaded_chain [OF _ assms(3) loads_chain(1) [OF assms(1,2)]] loaded_chain [OF _ assms(3) loads_chain(2) [OF assms(1,2)]]
    loaded_chain [OF _ assms(3) loads_chain(3) [OF assms(1,2)]] loaded_chain [OF _ assms(3) loads_chain(4) [OF assms(1,2)]]
    loaded_chain [OF _ assms(3) loads_chain(5) [OF assms(1,2)]] loaded_chain [OF _ assms(3) loads_chain(6) [OF assms(1,2)]]
    loaded_chain [OF _ assms(3) loads_chain(7) [OF assms(1,2)]]
  show ?thesis
    using assms(4) unfolding bpf_load_def Let_def
    by (simp only: if_True if_False split: if_split_asm) (simp_all add: L)
qed

lemma bpf_load_None:
  "bpf_load p wirelen buflen pc r = None \<longleftrightarrow> bpf_load p' wirelen' buflen' pc r = None"
  unfolding bpf_load_def Let_def by simp

lemma bpf_step_chain:
  assumes "chain_ok ms" "ms \<noteq> []" "n \<noteq> Return 0"
    and "bpf_step (Buffer (concat ms)) wirelen buflen pc r = Some n"
  shows "bpf_step (Mbufs ms) wirelen 0 pc r = Some n"
proof (cases "bpf_load (Buffer (concat ms)) wirelen buflen pc r")
  case None
  then have "bpf_load (Mbufs ms) wirelen 0 pc r = None" using bpf_load_None by blast
  then have "bpf_step (Mbufs ms) wirelen 0 pc r = bpf_step (Buffer (concat ms)) wirelen buflen pc r"
    by (simp only: bpf_step_def Let_def None option.case)
  then show ?thesis using assms(4) by simp
next
  case (Some res)
  show ?thesis
  proof (cases "i_code pc = BPF_RET OR BPF_K \<or> i_code pc = BPF_RET OR BPF_A")
    case True
    then show ?thesis using assms(4) by (auto simp: bpf_step_def Let_def)
  next
    case False
    then have "res = Some n" using Some assms(4) by (auto simp: bpf_step_def Let_def)
    then have "bpf_load (Mbufs ms) wirelen 0 pc r = Some (Some n)" using bpf_load_chain assms(1,2,3) Some by blast
    then show ?thesis using False by (simp add: bpf_step_def Let_def)
  qed
qed

lemma bpf_loop_chain:
  assumes "chain_ok ms" "ms \<noteq> []"
    and "bpf_loop (Buffer (concat ms)) wirelen buflen prog i r = Some v" "v \<noteq> 0"
  shows "bpf_loop (Mbufs ms) wirelen 0 prog i r = Some v"
proof -
  let ?P = "\<lambda>q wl bl prog i r v. q = Buffer (concat ms) \<longrightarrow> v \<noteq> 0 \<longrightarrow> bpf_loop (Mbufs ms) wl 0 prog i r = Some v"
  have "?P (Buffer (concat ms)) wirelen buflen prog i r v"
  proof (rule bpf_loop.raw_induct [where P = ?P, OF _ assms(3)], intro impI)
    fix loop q wl bl prog i r v
    assume IH: "\<And>q wl bl prog i r v. loop q wl bl prog i r = Some v \<Longrightarrow> ?P q wl bl prog i r v"
      and body: "(if i < length prog then case bpf_step q wl bl (prog ! i) r of None \<Rightarrow> None
           | Some (Return v) \<Rightarrow> Some v
           | Some (Continue off r) \<Rightarrow> loop q wl bl prog ((i + unat off + 1) mod 2 ^ 29) r
         else None) = Some v"
      and q: "q = Buffer (concat ms)" and v: "v \<noteq> 0"
    from body have i: "i < length prog" by (simp split: if_splits)
    with body obtain n where n: "bpf_step q wl bl (prog ! i) r = Some n" by (auto split: option.splits)
    then have "n \<noteq> Return 0" using body i v by auto
    from bpf_step_chain [OF assms(1,2) this n [unfolded q]]
    have step: "bpf_step (Mbufs ms) wl 0 (prog ! i) r = Some n" .
    show "bpf_loop (Mbufs ms) wl 0 prog i r = Some v"
      using body i n step v q IH by (subst bpf_loop.simps) (cases n; simp)
  qed
  then show ?thesis using assms(4) by simp
qed

section \<open>Runs of at most n instructions\<close>

text \<open>The loop with a bound on the instructions, to evaluate programs.\<close>

primrec bpf_exec :: "nat \<Rightarrow> bpf_packet \<Rightarrow> 32 word \<Rightarrow> 32 word \<Rightarrow> bpf_insn list \<Rightarrow> nat \<Rightarrow> bpf_regs \<Rightarrow> 32 word option" where
  "bpf_exec 0 p wirelen buflen prog i r = None"
| "bpf_exec (Suc n) p wirelen buflen prog i r =
     (if i < length prog then
        case bpf_step p wirelen buflen (prog ! i) r of
          None \<Rightarrow> None
        | Some (Return v) \<Rightarrow> Some v
        | Some (Continue off r) \<Rightarrow> bpf_exec n p wirelen buflen prog (i + unat off + 1) r
      else None)"

lemma bpf_exec_loop:
  assumes "length prog \<le> 2 ^ 29"
  shows "bpf_exec n p wirelen buflen prog i r = Some v \<Longrightarrow> bpf_loop p wirelen buflen prog i r = Some v"
proof (induction n arbitrary: i r)
  case (Suc n)
  have "j mod 2 ^ 29 = j" if "bpf_exec n p wirelen buflen prog j r' = Some v" for j r'
    using that assms by (cases n) (auto split: if_splits)
  with Suc show ?case by (subst bpf_loop.simps) (auto split: if_splits option.splits bpf_next.splits)
qed simp

lemma bpf_filter_exec:
  "bpf_exec n p wirelen buflen prog 0 \<lparr>rA = 0, rX = 0, mem = stk\<rparr> = Some v \<Longrightarrow> length prog \<le> 2 ^ 29 \<Longrightarrow>
   bpf_filter stk (Some prog) p wirelen buflen = Some v"
  by (simp add: bpf_filter_def bpf_exec_loop)

section \<open>Properties\<close>


text \<open>Accept 96 bytes of an IPv4 packet: the ether type is 0x800.\<close>

definition ex_prog :: "bpf_insn list" where
  "ex_prog = [\<lparr>i_code = 0x28, i_jt = 0, i_jf = 0, i_k = 12\<rparr>, \<lparr>i_code = 0x15, i_jt = 0, i_jf = 1, i_k = 0x800\<rparr>,
     \<lparr>i_code = 0x06, i_jt = 0, i_jf = 0, i_k = 96\<rparr>, \<lparr>i_code = 0x06, i_jt = 0, i_jf = 0, i_k = 0\<rparr>]"


text \<open>C22: The validator's table of opcodes and the interpreter's switch agree: an opcode is in the table exactly
  if some instruction with it does something else than reject the packet.\<close>

theorem bpf_code_map_exact:
  "BPF_VALIDATE_CODE c \<longleftrightarrow>
     (\<exists>p wirelen buflen pc r. i_code pc = c \<and> bpf_step p wirelen buflen pc r \<noteq> Some (Return 0))"
proof
  let ?p = "Buffer (replicate 8 0)" and ?r = "\<lparr>rA = 1, rX = 1, mem = replicate 16 0\<rparr>"
  have all: "list_all (\<lambda>c. bpf_step ?p 8 8 \<lparr>i_code = c, i_jt = 0, i_jf = 0, i_k = 1\<rparr> ?r \<noteq> Some (Return 0)) bpf_codes"
    by code_simp
  assume "BPF_VALIDATE_CODE c"
  then have "bpf_step ?p 8 8 \<lparr>i_code = c, i_jt = 0, i_jf = 0, i_k = 1\<rparr> ?r \<noteq> Some (Return 0)"
    using all by (simp add: BPF_VALIDATE_CODE_iff list_all_iff)
  then show "\<exists>p wirelen buflen pc r. i_code pc = c \<and> bpf_step p wirelen buflen pc r \<noteq> Some (Return 0)"
    by (intro exI conjI) (rule bpf_insn.select_convs)
next
  assume "\<exists>p wirelen buflen pc r. i_code pc = c \<and> bpf_step p wirelen buflen pc r \<noteq> Some (Return 0)"
  then show "BPF_VALIDATE_CODE c" unfolding BPF_VALIDATE_CODE_iff by (metis bpf_step_unknown)
qed

text \<open>C23: A packet a program accepts as a contiguous buffer it also accepts as an mbuf chain with the same
  bytes, with the same snapshot length, if the middle mbufs of the chain have at least three bytes.\<close>

theorem bpf_chain_agrees:
  assumes "chain_ok ms" "ms \<noteq> []"
    and "bpf_filter stk (Some prog) (Buffer (concat ms)) wirelen buflen = Some v" "v \<noteq> 0"
  shows "bpf_filter stk (Some prog) (Mbufs ms) wirelen 0 = Some v"
  using bpf_loop_chain [OF assms(1,2)] assms(3,4) by (simp add: bpf_filter_def)

theorem bpf_chain_agrees_witness:
  "bpf_filter (replicate 16 0) (Some ex_prog) (Mbufs [replicate 12 0 @ [8], [0, 1, 2]]) 16 0 = Some 96"
proof (rule bpf_chain_agrees [where buflen = 16])
  show "chain_ok [replicate 12 0 @ [8], [0, 1, 2]]" by (simp add: chain_ok_def)
  have "concat [replicate 12 0 @ [8], [0, 1, 2]] = replicate 12 0 @ [8, 0, 1, 2 :: byte]" by simp
  moreover have "bpf_filter (replicate 16 0) (Some ex_prog) (Buffer (replicate 12 0 @ [8, 0, 1, 2])) 16 16 = Some 96"
    by (rule bpf_filter_exec [where n = 3]) (code_simp, simp add: ex_prog_def)
  ultimately show "bpf_filter (replicate 16 0) (Some ex_prog) (Buffer (concat [replicate 12 0 @ [8], [0, 1, 2]])) 16 16 = Some 96"
    by metis
qed simp_all

text \<open>Two programs: load a half word and accept \<open>s\<close> bytes; load a byte at an index and accept \<open>s\<close> bytes.\<close>

definition half_prog :: "32 word \<Rightarrow> 32 word \<Rightarrow> bpf_insn list" where
  "half_prog k s = [\<lparr>i_code = 0x28, i_jt = 0, i_jf = 0, i_k = k\<rparr>, \<lparr>i_code = 0x06, i_jt = 0, i_jf = 0, i_k = s\<rparr>]"

definition index_prog :: "32 word \<Rightarrow> 32 word \<Rightarrow> 32 word \<Rightarrow> bpf_insn list" where
  "index_prog x k s = [\<lparr>i_code = 0x01, i_jt = 0, i_jf = 0, i_k = x\<rparr>, \<lparr>i_code = 0x50, i_jt = 0, i_jf = 0, i_k = k\<rparr>,
     \<lparr>i_code = 0x06, i_jt = 0, i_jf = 0, i_k = s\<rparr>]"

lemma lenient_valid: "bpf_validate (half_prog k s) 2 = Some True" "bpf_validate (index_prog x k s) 3 = Some True"
proof -
  have "BPF_VALIDATE_CODE 0x28" "BPF_VALIDATE_CODE 0x06" "BPF_VALIDATE_CODE 0x01" "BPF_VALIDATE_CODE 0x50" by code_simp+
  then show "bpf_validate (half_prog k s) 2 = Some True" "bpf_validate (index_prog x k s) 3 = Some True"
    by (simp_all add: bpf_validate_def half_prog_def index_prog_def bpf_insn_ok_def BPF_CLASS_def)
qed

lemma half_prog_run:
  assumes "ld_h_abs p buflen k = Some r"
  shows "bpf_filter stk (Some (half_prog k s)) p wirelen buflen = Some (case r of None \<Rightarrow> 0 | Some v \<Rightarrow> s)"
  by (rule bpf_filter_exec [where n = "Suc (Suc 0)"])
    (use assms in \<open>simp_all add: half_prog_def bpf_step_def bpf_load_def loaded_def set_A_def split: option.split\<close>)

lemma index_prog_run:
  assumes "ld_b_ind p buflen x k = Some r"
  shows "bpf_filter stk (Some (index_prog x k s)) p wirelen buflen = Some (case r of None \<Rightarrow> 0 | Some v \<Rightarrow> s)"
  by (rule bpf_filter_exec [where n = "Suc (Suc (Suc 0))"])
    (use assms in \<open>simp_all add: index_prog_def bpf_step_def bpf_load_def loaded_def set_A_def set_X_def split: option.split\<close>)

text \<open>C29: The converse fails in two ways, on every packet. A half word load at any offset from the last byte on loads 0 from a
  chain and goes on, and an indexed load whose index wraps at 2^32 reads a byte of a chain; both make a validated program
  accept a chain, with any snapshot length, that it rejects as a buffer with the same bytes.\<close>

theorem bpf_chain_lenient:
  assumes "packet_ok (Mbufs ms) 0" "buflen = of_nat (length (concat ms))" "0 < length (concat ms)" "length (concat ms) < 2 ^ 32"
  shows "(length (concat ms) < unat k + 2 \<longrightarrow> bpf_validate (half_prog k s) 2 = Some True \<and>
      bpf_filter stk (Some (half_prog k s)) (Buffer (concat ms)) wirelen buflen = Some 0 \<and>
      bpf_filter stk (Some (half_prog k s)) (Mbufs ms) wirelen 0 = Some s) \<and>
    (2 ^ 32 \<le> unat x + unat j \<and> unat (x + j) < length (concat ms) \<longrightarrow> bpf_validate (index_prog x j s) 3 = Some True \<and>
      bpf_filter stk (Some (index_prog x j s)) (Buffer (concat ms)) wirelen buflen = Some 0 \<and>
      bpf_filter stk (Some (index_prog x j s)) (Mbufs ms) wirelen 0 = Some s)"
proof -
  have len: "unat buflen = length (concat ms)" using assms(2,4) by (simp add: unat_of_nat)
  then have b: "buflen \<noteq> 0" using assms(3) by auto
  have q: "as_mbuf (Mbufs ms) = Some ms" using assms(1) by (auto simp: packet_ok_def as_mbuf_def neq_Nil_conv)
  have half: "ld_h_abs (Buffer (concat ms)) buflen k = Some None" if "length (concat ms) < unat k + 2"
  proof -
    have "k > buflen \<or> 2 > buflen - k"
    proof (rule ccontr)
      assume "\<not> ?thesis"
      then have "k \<le> buflen" "2 \<le> unat (buflen - k)" by (simp_all add: not_less word_le_nat_alt)
      then show False using that len by (simp add: unat_sub word_le_nat_alt)
    qed
    then show ?thesis using b by (simp add: ld_h_abs_def)
  qed
  obtain v where "ld_h_abs (Mbufs ms) 0 k = Some (Some v)"
  proof -
    obtain r where "m_xhalf ms (unat k) = Some r" using m_xhalf_total assms(1) by (auto simp: packet_ok_def)
    then show thesis using that chain_test(2) [of k] q by (auto simp: ld_h_abs_def)
  qed
  note lenient = half_prog_run [OF this]
  have wrap: "ld_b_ind (Buffer (concat ms)) buflen x j = Some None" if "2 ^ 32 \<le> unat x + unat j"
  proof -
    have "j \<ge> buflen \<or> x \<ge> buflen - j"
    proof (rule ccontr)
      assume "\<not> ?thesis"
      then have "unat j < unat buflen" "unat x < unat (buflen - j)" by (simp_all add: not_le word_less_nat_alt)
      then have "unat x < unat buflen - unat j" by (simp add: unat_sub word_le_nat_alt)
      then show False using that len assms(4) by simp
    qed
    then show ?thesis using b by (simp add: ld_b_ind_def Let_def)
  qed
  have byte: "\<exists>v. ld_b_ind (Mbufs ms) 0 x j = Some (Some v)" if "unat (x + j) < length (concat ms)"
    using that q by (simp add: ld_b_ind_def Let_def m_xbyte_concat)
  show ?thesis using lenient_valid half_prog_run [OF half] lenient index_prog_run [OF wrap] index_prog_run byte by fastforce
qed

theorem bpf_chain_lenient_witness:
  "bpf_filter [] (Some (half_prog 100 96)) (Buffer [1, 2]) 2 2 = Some 0 \<and> bpf_filter [] (Some (half_prog 100 96)) (Mbufs [[1, 2]]) 2 0 = Some 96 \<and>
   bpf_filter [] (Some (index_prog 0xffffffff 1 96)) (Buffer [1, 2]) 2 2 = Some 0 \<and>
   bpf_filter [] (Some (index_prog 0xffffffff 1 96)) (Mbufs [[1, 2]]) 2 0 = Some 96"
  using bpf_chain_lenient [of "[[1, 2]]" 2 100 96 "[]" 2 "0xffffffff" 1] by (simp add: packet_ok_def)

text \<open>C30: A validated program can return what it finds on the kernel stack: the scratch memory is not
  initialised and the validator does not ask for a store before a load.\<close>

theorem bpf_stack_leak:
  "let leak = [\<lparr>i_code = 0x60, i_jt = 0, i_jf = 0, i_k = 0\<rparr>, \<lparr>i_code = 0x16, i_jt = 0, i_jf = 0, i_k = 0\<rparr>]
   in bpf_validate leak 2 = Some True \<and>
      (\<forall>secret. bpf_filter (replicate 16 secret) (Some leak) p wirelen buflen = Some secret)"
proof -
  let ?leak = "[\<lparr>i_code = 0x60, i_jt = 0, i_jf = 0, i_k = 0\<rparr>, \<lparr>i_code = 0x16, i_jt = 0, i_jf = 0, i_k = 0\<rparr>] :: bpf_insn list"
  have "bpf_validate ?leak 2 = Some True" by code_simp
  moreover have "bpf_filter (replicate 16 secret) (Some ?leak) p wirelen buflen = Some secret" for secret
    by (rule bpf_filter_exec [where n = "Suc (Suc 0)"])
       (simp_all add: bpf_step_def bpf_load_def loaded_def mem_read_def set_A_def)
  ultimately show ?thesis by simp
qed

end
