(* ===== verification/BpfDescProps.thy ===== *)
theory BpfDescProps
  imports BpfDesc BpfProps
begin

text \<open>
  The descriptor at work: its buffers stay in place, no access leaves them, and the packets it
  captures reach the reader in order.
\<close>

section \<open>Writing into a buffer\<close>

definition patch :: "nat \<Rightarrow> 'a list \<Rightarrow> 'a list \<Rightarrow> 'a list" where
  "patch off bs old = take off old @ bs @ drop (off + length bs) old"

lemma length_patch [simp]: "off + length bs \<le> length old \<Longrightarrow> length (patch off bs old) = length old"
  by (simp add: patch_def)

lemma patch_Nil [simp]: "patch off [] old = old"
  by (simp add: patch_def)

lemma patch_patch:
  assumes "off + length a + length b \<le> length old"
  shows "patch (off + length a) b (patch off a old) = patch off (a @ b) old"
proof -
  have "off \<le> length old" "off + length a \<le> length old" using assms by linarith+
  then show ?thesis using assms by (simp add: patch_def ac_simps)
qed

lemma patch_before:
  "o' + n \<le> off \<Longrightarrow> off + length bs \<le> length old \<Longrightarrow> take n (drop o' (patch off bs old)) = take n (drop o' old)"
  by (simp add: patch_def take_drop min_def)

lemma patch_inside: "off \<le> length old \<Longrightarrow> take (length bs) (drop off (patch off bs old)) = bs"
  by (simp add: patch_def)

lemma patch_head: "n \<le> length bs \<Longrightarrow> off \<le> length old \<Longrightarrow> take n (drop off (patch off bs old)) = take n bs"
  by (simp add: patch_def)

definition packet_bytes :: "bpf_packet \<Rightarrow> byte list" where
  "packet_bytes pkt = (case pkt of Buffer bs \<Rightarrow> bs | Mbufs ms \<Rightarrow> concat ms)"

lemma bcopy_to_patch:
  assumes "deref (bd_mem d) a = Some old" "off + length bs \<le> length old"
  shows "bcopy_to (Some a) off bs d = Some (d\<lparr>bd_mem := hstore a (patch off bs old) (bd_mem d)\<rparr>)"
  using assms by (simp add: bcopy_to_def patch_def)

lemma hstore_hstore: "hstore a v (hstore a w h) = hstore a v h"
  by (simp add: hstore_def)

lemma append_mbuf_patch:
  assumes "deref (bd_mem d) a = Some old" "len \<le> length (concat ms)" "off + len \<le> length old"
  shows "bpf_buffer_append_mbuf (Some a) off ms len d =
    Some (d\<lparr>bd_mem := hstore a (patch off (take len (concat ms)) old) (bd_mem d)\<rparr>)"
  using assms
proof (induction ms arbitrary: off len d old)
  case Nil
  then show ?case by (simp add: hstore_same)
next
  case (Cons m ms)
  let ?n = "min (length m) len"
  let ?d = "d\<lparr>bd_mem := hstore a (patch off (take ?n m) old) (bd_mem d)\<rparr>"
  have a: "a < length (bd_mem d)" using Cons.prems(1) by (simp add: deref_def split: if_splits)
  show ?case
  proof (cases "len = 0")
    case True
    then show ?thesis using Cons.prems by (simp add: hstore_same)
  next
    case False
    have "bpf_buffer_append_mbuf (Some a) (off + ?n) ms (len - ?n) ?d =
      Some (?d\<lparr>bd_mem := hstore a (patch (off + ?n) (take (len - ?n) (concat ms)) (patch off (take ?n m) old)) (bd_mem ?d)\<rparr>)"
      by (rule Cons.IH) (use Cons.prems a in \<open>auto simp: heap_simps\<close>)
    moreover have "patch (off + ?n) (take (len - ?n) (concat ms)) (patch off (take ?n m) old) =
        patch off (take len (concat (m # ms))) old"
    proof (cases "length m \<le> len")
      case True
      then show ?thesis using patch_patch [of off m "take (len - length m) (concat ms)" old] Cons.prems
        by simp
    qed simp
    moreover have "bcopy_to (Some a) off (take ?n m) d = Some ?d"
      by (rule bcopy_to_patch) (use Cons.prems in auto)
    ultimately show ?thesis using False by (simp add: Let_def hstore_hstore)
  qed
qed

lemma cpfn_patch:
  assumes "deref (bd_mem d) a = Some old" "len \<le> length (packet_bytes pkt)" "off + len \<le> length old"
  shows "cpfn pkt (Some a) off len d =
    Some (d\<lparr>bd_mem := hstore a (patch off (take len (packet_bytes pkt)) old) (bd_mem d)\<rparr>)"
  using assms append_mbuf_patch [of d a old len _ off] bcopy_to_patch [of d a old off "take len _"]
  by (cases pkt) (simp_all add: cpfn_def packet_bytes_def bpf_buffer_append_bytes_def)

section \<open>Captured packets\<close>

text \<open>
  The records of a buffer: each starts at the word boundary after the one before, with the
  header fields in its first 18 bytes and the captured bytes after the header length \<open>hl\<close>.
\<close>

record capture =
  c_tv :: "32 word \<times> 32 word"
  c_datalen :: "32 word"
  c_data :: "byte list"

definition cap_hdr :: "int \<Rightarrow> capture \<Rightarrow> bpf_hdr" where
  "cap_hdr hl c = \<lparr>bh_sec = fst (c_tv c), bh_usec = snd (c_tv c), bh_caplen = of_nat (length (c_data c)),
     bh_datalen = c_datalen c, bh_hdrlen = of_int hl\<rparr>"

definition end_of :: "int \<Rightarrow> capture list \<Rightarrow> int" where
  "end_of hl caps = foldl (\<lambda>e c. BPF_WORDALIGN e + hl + int (length (c_data c))) 0 caps"

definition lies :: "int \<Rightarrow> byte list \<Rightarrow> int \<Rightarrow> capture \<Rightarrow> bool" where
  "lies hl buf off c \<longleftrightarrow>
     take 18 (drop (nat off) buf) = take 18 (hdr_bytes (cap_hdr hl c)) \<and>
     take (length (c_data c)) (drop (nat (off + hl)) buf) = c_data c"

definition laid_out :: "int \<Rightarrow> byte list \<Rightarrow> capture list \<Rightarrow> bool" where
  "laid_out hl buf caps \<longleftrightarrow>
     (\<forall>i < length caps. lies hl buf (BPF_WORDALIGN (end_of hl (take i caps))) (caps ! i))"

lemma align_bounds: "x \<le> BPF_WORDALIGN x" "BPF_WORDALIGN x \<le> x + 3" "BPF_WORDALIGN x mod 4 = 0"
  by (simp_all add: BPF_WORDALIGN_def)

lemma end_of_simps [simp]:
  "end_of hl [] = 0"
  "end_of hl (caps @ [c]) = BPF_WORDALIGN (end_of hl caps) + hl + int (length (c_data c))"
  by (simp_all add: end_of_def)

lemma end_of_nonneg: "0 \<le> hl \<Longrightarrow> 0 \<le> end_of hl caps"
proof (induction caps rule: rev_induct)
  case (snoc c caps)
  then show ?case using align_bounds(1) [of "end_of hl caps"] by simp
qed simp

lemma laid_out_Nil [simp]: "laid_out hl buf []"
  by (simp add: laid_out_def)

lemma laid_out_snoc:
  "laid_out hl buf (caps @ [c]) \<longleftrightarrow> laid_out hl buf caps \<and> lies hl buf (BPF_WORDALIGN (end_of hl caps)) c"
  by (auto simp: laid_out_def nth_append less_Suc_eq)

lemma take_drop_prefix:
  assumes "take n buf' = take n buf" "off + k \<le> n"
  shows "take k (drop off buf') = take k (drop off buf)"
proof -
  have "take k (drop off b) = take k (drop off (take n b))" for b :: "'a list"
    using assms(2) by (simp add: drop_take)
  then show ?thesis using assms(1) by metis
qed

lemma laid_out_prefix:
  assumes "laid_out hl buf caps" "end_of hl caps \<le> n" "take (nat n) buf' = take (nat n) buf" "18 \<le> hl"
  shows "laid_out hl buf' caps"
  using assms(1,2)
proof (induction caps rule: rev_induct)
  case (snoc c caps)
  define off where "off = BPF_WORDALIGN (end_of hl caps)"
  have off: "0 \<le> off" "end_of hl caps \<le> off"
    using align_bounds(1) [of "end_of hl caps"] end_of_nonneg [of hl caps] assms(4) by (auto simp: off_def)
  have e: "off + hl + int (length (c_data c)) \<le> n" using snoc.prems(2) by (simp add: off_def)
  have "take 18 (drop (nat off) buf') = take 18 (drop (nat off) buf)"
    by (rule take_drop_prefix [OF assms(3)]) (use e off assms(4) in linarith)
  moreover have "take (length (c_data c)) (drop (nat (off + hl)) buf') = take (length (c_data c)) (drop (nat (off + hl)) buf)"
    by (rule take_drop_prefix [OF assms(3)]) (use e off assms(4) in linarith)
  ultimately have "lies hl buf' off c" using snoc.prems(1) by (simp add: laid_out_snoc lies_def off_def)
  moreover have "laid_out hl buf' caps" using snoc e off assms(4) by (simp add: laid_out_snoc)
  ultimately show ?case by (simp add: laid_out_snoc off_def)
qed simp

lemma length_hdr_bytes [simp]: "length (hdr_bytes h) = 20"
  by (simp add: hdr_bytes_def le32_def le16_def)

text \<open>Writing one record behind the others.\<close>

lemma append_record:
  assumes buf: "bd_sbuf d = Some a" "deref (bd_mem d) a = Some old" and len: "length (c_data c) \<le> length (packet_bytes pkt)"
    and data: "c_data c = take (length (c_data c)) (packet_bytes pkt)"
    and off: "0 \<le> off" "off mod 4 = 0" "length old mod 4 < 2 \<or> 20 \<le> hl" "18 \<le> hl" "off + hl + int (length (c_data c)) \<le> int (length old)"
  shows "\<exists>new. do { d \<leftarrow> bpf_buffer_append_bytes (bd_sbuf d) (nat off) (hdr_bytes (cap_hdr hl c)) 20 d;
             cpfn pkt (bd_sbuf d) (nat (off + hl)) (length (c_data c)) d } = Some (d\<lparr>bd_mem := hstore a new (bd_mem d)\<rparr>) \<and>
    length new = length old \<and> take (nat off) new = take (nat off) old \<and> lies hl new off c"
proof -
  let ?h = "hdr_bytes (cap_hdr hl c)" and ?n = "length (c_data c)"
  define mid where "mid = patch (nat off) ?h old"
  define new where "new = patch (nat (off + hl)) (c_data c) mid"
  have fit: "nat off + 20 \<le> length old"
  proof -
    have "int (length old) mod 4 < 2 \<or> 20 \<le> hl" using off(3) by presburger
    moreover have "off + hl \<le> int (length old)" using off(5) by linarith
    ultimately have "off + 20 \<le> int (length old)" using off(2,4) by presburger
    then show ?thesis using off(1) by linarith
  qed
  have fit2: "nat (off + hl) + ?n \<le> length old" using off by linarith
  have mid: "length mid = length old" using fit by (simp add: mid_def)
  have a: "a < length (bd_mem d)" using buf(2) by (simp add: deref_def split: if_splits)
  have "bpf_buffer_append_bytes (Some a) (nat off) ?h 20 d = Some (d\<lparr>bd_mem := hstore a mid (bd_mem d)\<rparr>)"
    using bcopy_to_patch [OF buf(2), of "nat off" ?h] fit by (simp add: bpf_buffer_append_bytes_def mid_def)
  moreover have "cpfn pkt (Some a) (nat (off + hl)) ?n (d\<lparr>bd_mem := hstore a mid (bd_mem d)\<rparr>) =
      Some (d\<lparr>bd_mem := hstore a new (bd_mem d)\<rparr>)"
    using cpfn_patch [of "d\<lparr>bd_mem := hstore a mid (bd_mem d)\<rparr>" a mid ?n pkt "nat (off + hl)"] a len fit2 mid data
    by (simp add: heap_simps hstore_hstore new_def)
  moreover have "length new = length old" using fit2 mid by (simp add: new_def)
  moreover have "take (nat off) new = take (nat off) old"
  proof -
    have "nat off \<le> nat (off + hl)" using off(4) by linarith
    then show ?thesis using fit fit2 mid by (simp add: new_def mid_def patch_def)
  qed
  moreover have "lies hl new off c"
  proof -
    have "take 18 (drop (nat off) new) = take 18 (drop (nat off) mid)"
      unfolding new_def by (rule patch_before) (use off fit2 mid in linarith)+
    also have "\<dots> = take 18 ?h" unfolding mid_def by (rule patch_head) (use fit in simp_all)
    finally show ?thesis using fit2 mid by (simp add: lies_def new_def patch_inside)
  qed
  ultimately show ?thesis using buf(1) by auto
qed

section \<open>The descriptor invariant\<close>

text \<open>
  An attached descriptor has two distinct buffers, one of them in the store slot, the other in
  the hold or in the free slot. \<open>held\<close> and \<open>stored\<close> are the packets in them. The
  header length is the one \<^verbatim>\<open>bpfattach2\<close> computes; the last condition on
  the buffer size says that a header of 20 bytes fits where a record fits, although \<^verbatim>\<open>bh_hdrlen\<close> may be as little as 18.
\<close>

definition hdr_len :: "bpf_d \<Rightarrow> int" where
  "hdr_len d = int (unat (bif_hdrlen (the (bd_bif d))))"

definition slots :: "bpf_d \<Rightarrow> addr \<Rightarrow> addr \<Rightarrow> bool" where
  "slots d a b \<longleftrightarrow> bd_sbuf d = Some a \<and> a \<noteq> b \<and>
     (bd_hbuf d = None \<and> bd_fbuf d = Some b \<or> bd_hbuf d = Some b \<and> bd_fbuf d = None)"

definition geometry :: "bpf_d \<Rightarrow> bool" where
  "geometry d \<longleftrightarrow> bd_bif d \<noteq> None \<and> 18 \<le> hdr_len d \<and> hdr_len d \<le> 21 \<and>
     32 \<le> bd_bufsize d \<and> bd_bufsize d \<le> 2 ^ 30 \<and> (bd_bufsize d mod 4 < 2 \<or> 20 \<le> hdr_len d)"

definition in_buf :: "bpf_d \<Rightarrow> addr \<Rightarrow> int \<Rightarrow> capture list \<Rightarrow> bool" where
  "in_buf d a len caps \<longleftrightarrow> (\<exists>buf. deref (bd_mem d) a = Some buf \<and> length buf = nat (bd_bufsize d) \<and>
     laid_out (hdr_len d) buf caps) \<and> len = end_of (hdr_len d) caps \<and> len \<le> bd_bufsize d"

definition bd_inv :: "bpf_d \<Rightarrow> capture list \<Rightarrow> capture list \<Rightarrow> bool" where
  "bd_inv d held stored \<longleftrightarrow> geometry d \<and> (\<exists>a b. slots d a b \<and> in_buf d a (bd_slen d) stored \<and>
     in_buf d b (bd_hlen d) held \<and> (bd_hbuf d = None \<longrightarrow> held = []))"

lemma bd_inv_rotate:
  assumes "bd_inv d [] stored" "bd_fbuf d \<noteq> None"
  shows "bd_inv (ROTATE_BUFFERS d) stored []"
proof -
  from assms obtain a b where i: "geometry d" "slots d a b" "in_buf d a (bd_slen d) stored"
    "in_buf d b (bd_hlen d) []" by (auto simp: bd_inv_def)
  have "slots (ROTATE_BUFFERS d) b a" using i(2) assms(2) by (auto simp: slots_def ROTATE_BUFFERS_def)
  moreover have "geometry (ROTATE_BUFFERS d)" using i(1) by (simp add: geometry_def hdr_len_def ROTATE_BUFFERS_def)
  moreover have "in_buf (ROTATE_BUFFERS d) a (bd_slen d) stored" "in_buf (ROTATE_BUFFERS d) b 0 []"
    using i(1,3,4) by (auto simp: in_buf_def hdr_len_def ROTATE_BUFFERS_def geometry_def)
  moreover have "bd_hbuf (ROTATE_BUFFERS d) = Some a" "bd_hlen (ROTATE_BUFFERS d) = bd_slen d"
      "bd_slen (ROTATE_BUFFERS d) = 0"
    using i(2) by (simp_all add: ROTATE_BUFFERS_def slots_def)
  ultimately show ?thesis unfolding bd_inv_def by auto
qed

text \<open>Fields that play no part in the invariant.\<close>

lemma bd_inv_cong:
  assumes "bd_mem d' = bd_mem d" "bd_sbuf d' = bd_sbuf d" "bd_hbuf d' = bd_hbuf d" "bd_fbuf d' = bd_fbuf d"
    "bd_slen d' = bd_slen d" "bd_hlen d' = bd_hlen d" "bd_bufsize d' = bd_bufsize d" "bd_bif d' = bd_bif d"
  shows "bd_inv d' held stored = bd_inv d held stored"
  using assms by (simp add: bd_inv_def geometry_def slots_def in_buf_def hdr_len_def)

text \<open>What a packet leaves in the buffer, and when it is dropped.\<close>

definition captured :: "bpf_d \<Rightarrow> bpf_packet \<Rightarrow> 32 word \<Rightarrow> 32 word \<Rightarrow> 32 word \<times> 32 word \<Rightarrow> capture" where
  "captured d pkt pktlen snaplen tv = \<lparr>c_tv = tv, c_datalen = pktlen,
     c_data = take (min (unat (min snaplen pktlen)) (nat (bd_bufsize d - hdr_len d))) (packet_bytes pkt)\<rparr>"

definition no_room :: "bpf_d \<Rightarrow> capture \<Rightarrow> bool" where
  "no_room d c \<longleftrightarrow> BPF_WORDALIGN (bd_slen d) + hdr_len d + int (length (c_data c)) > bd_bufsize d"

definition pkt_wf :: "bpf_packet \<Rightarrow> 32 word \<Rightarrow> bool" where
  "pkt_wf pkt pktlen \<longleftrightarrow> length (packet_bytes pkt) = unat pktlen \<and> unat pktlen < 2 ^ 30"

lemma geometry_hdr:
  assumes "geometry d" "bd_bif d = Some bp"
  shows "unat (bif_hdrlen bp) \<le> 21" "sint (bif_hdrlen bp) = hdr_len d"
proof -
  have h: "hdr_len d = int (unat (bif_hdrlen bp))" by (simp only: hdr_len_def assms(2) option.sel)
  moreover have "hdr_len d \<le> 21" using assms(1) by (simp add: geometry_def)
  ultimately show "unat (bif_hdrlen bp) \<le> 21" by linarith
  then show "sint (bif_hdrlen bp) = hdr_len d" using sint_eq_unat [of "bif_hdrlen bp"] h by simp
qed

lemma captured_length:
  fixes snaplen :: "32 word" and tv :: "32 word \<times> 32 word"
  assumes "geometry d" "pkt_wf pkt pktlen"
  defines "c \<equiv> captured d pkt pktlen snaplen tv"
  shows "min (bd_bufsize d) (sint (bif_hdrlen (the (bd_bif d)) + min snaplen pktlen)) = hdr_len d + int (length (c_data c))"
    and "length (c_data c) \<le> length (packet_bytes pkt)" "length (c_data c) < 2 ^ 31"
    and "c_data c = take (length (c_data c)) (packet_bytes pkt)"
proof -
  let ?h = "bif_hdrlen (the (bd_bif d))" and ?n = "min snaplen pktlen"
  obtain bp where "bd_bif d = Some bp" using assms(1) by (auto simp: geometry_def)
  then have hl: "unat ?h \<le> 21" "hdr_len d \<le> bd_bufsize d"
    using geometry_hdr(1) [OF assms(1)] assms(1) by (auto simp: geometry_def)
  have "unat ?n \<le> unat pktlen" by (simp add: min_def word_le_nat_alt)
  then have n: "unat ?n \<le> length (packet_bytes pkt)" "unat ?n < 2 ^ 30" using assms(2) by (auto simp: pkt_wf_def)
  have sum: "unat (?h + ?n) = unat ?h + unat ?n" using hl n by (simp add: unat_word_ariths)
  define u where "u = unat ?n"
  have "sint (?h + ?n) = int (unat ?h + u)"
    unfolding u_def sum [symmetric] by (rule sint_eq_unat) (use hl n sum in simp)
  then have "sint (?h + ?n) = hdr_len d + int u" by (simp only: hdr_len_def of_nat_add)
  moreover have "length (c_data c) = min u (nat (bd_bufsize d - hdr_len d))"
    using n(1) by (simp add: c_def captured_def u_def)
  ultimately show "min (bd_bufsize d) (sint (?h + ?n)) = hdr_len d + int (length (c_data c))"
    using hl(2) by (simp add: min_def) linarith
  show "length (c_data c) \<le> length (packet_bytes pkt)" "length (c_data c) < 2 ^ 31"
      "c_data c = take (length (c_data c)) (packet_bytes pkt)"
    using n by (auto simp: c_def captured_def)
qed

text \<open>The body of \<^verbatim>\<open>catchpacket\<close> once the capture is known.\<close>

lemma catchpacket_eq:
  fixes snaplen :: "32 word" and tv :: "32 word \<times> 32 word"
  assumes "geometry d" "pkt_wf pkt pktlen"
  defines "c \<equiv> captured d pkt pktlen snaplen tv"
  shows "catchpacket pkt pktlen snaplen tv d =
    (if no_room d c \<and> bd_fbuf d = None then Some (d\<lparr>bd_dcount := bd_dcount d + 1\<rparr>)
     else let (e, do_wakeup, off) =
            (if no_room d c then (ROTATE_BUFFERS d, True, 0)
             else (d, bd_immediate d \<or> bd_state d = BPF_TIMED_OUT, BPF_WORDALIGN (bd_slen d)))
          in do { e \<leftarrow> do { e \<leftarrow> bpf_buffer_append_bytes (bd_sbuf e) (nat off) (hdr_bytes (cap_hdr (hdr_len d) c)) 20 e;
                           cpfn pkt (bd_sbuf e) (nat (off + hdr_len d)) (length (c_data c)) e };
                  let e = e\<lparr>bd_slen := off + (hdr_len d + int (length (c_data c)))\<rparr>;
                  Some (if do_wakeup then bpf_wakeup e else e) })"
proof -
  obtain bp where bp: "bd_bif d = Some bp" using assms(1) by (auto simp: geometry_def)
  note h = geometry_hdr(2) [OF assms(1) bp]
  note len = captured_length(1,3) [OF assms(1,2), of snaplen tv, folded c_def]
  have tot: "(if sint (bif_hdrlen bp + min snaplen pktlen) > bd_bufsize d then bd_bufsize d
      else sint (bif_hdrlen bp + min snaplen pktlen)) = hdr_len d + int (length (c_data c))"
    using len(1) bp by (simp add: min_def split: if_splits)
  have cap: "unat (of_nat (length (c_data c)) :: 32 word) = length (c_data c)"
    using len(2) by (simp add: unat_of_nat)
  have hdr: "\<lparr>bh_sec = fst tv, bh_usec = snd tv, bh_caplen = of_nat (length (c_data c)),
      bh_datalen = pktlen, bh_hdrlen = of_int (hdr_len d)\<rparr> = cap_hdr (hdr_len d) c"
    by (simp add: cap_hdr_def c_def captured_def)
  have capl: "unat (bh_caplen (cap_hdr (hdr_len d) c)) = length (c_data c)" by (simp add: cap_hdr_def cap)
  show ?thesis
    unfolding catchpacket_def bp bind.bind_lunit Let_def tot h
    by (simp add: capl hdr no_room_def add.assoc split: prod.split)
qed

lemma bd_inv_append:
  assumes inv: "bd_inv d held stored" and c: "length (c_data c) \<le> length (packet_bytes pkt)"
      "c_data c = take (length (c_data c)) (packet_bytes pkt)"
    and room: "\<not> no_room d c"
  defines "off \<equiv> BPF_WORDALIGN (bd_slen d)"
  shows "\<exists>e. do { e \<leftarrow> bpf_buffer_append_bytes (bd_sbuf d) (nat off) (hdr_bytes (cap_hdr (hdr_len d) c)) 20 d;
               cpfn pkt (bd_sbuf e) (nat (off + hdr_len d)) (length (c_data c)) e } = Some e \<and>
    bd_inv (e\<lparr>bd_slen := off + (hdr_len d + int (length (c_data c)))\<rparr>) held (stored @ [c]) \<and>
    (\<exists>m. e = d\<lparr>bd_mem := m\<rparr>)"
proof -
  from inv obtain a b where i: "geometry d" "slots d a b" "in_buf d a (bd_slen d) stored"
    "in_buf d b (bd_hlen d) held" "bd_hbuf d = None \<longrightarrow> held = []" by (auto simp: bd_inv_def)
  from i(3) obtain old where old: "deref (bd_mem d) a = Some old" "length old = nat (bd_bufsize d)"
      "laid_out (hdr_len d) old stored" and e: "bd_slen d = end_of (hdr_len d) stored"
    by (auto simp: in_buf_def)
  have g: "18 \<le> hdr_len d" "bd_bufsize d mod 4 < 2 \<or> 20 \<le> hdr_len d" "0 < bd_bufsize d" using i(1) by (auto simp: geometry_def)
  have s: "bd_sbuf d = Some a" "a \<noteq> b" using i(2) by (simp_all add: slots_def)
  have off: "0 \<le> off" "off mod 4 = 0" "bd_slen d \<le> off"
    using align_bounds [of "bd_slen d"] end_of_nonneg [of "hdr_len d" stored] g(1) e by (auto simp: off_def)
  have "int (length old) = bd_bufsize d" using old(2) g(3) by simp
  then have mod4: "length old mod 4 < 2 \<or> 20 \<le> hdr_len d" using g(2) by presburger
  have fits: "off + hdr_len d + int (length (c_data c)) \<le> int (length old)"
    using room old(2) g(3) by (simp add: no_room_def off_def)
  from append_record [OF s(1) old(1) c off(1,2) mod4 g(1) fits]
  obtain new where new: "do { e \<leftarrow> bpf_buffer_append_bytes (bd_sbuf d) (nat off) (hdr_bytes (cap_hdr (hdr_len d) c)) 20 d;
               cpfn pkt (bd_sbuf e) (nat (off + hdr_len d)) (length (c_data c)) e } = Some (d\<lparr>bd_mem := hstore a new (bd_mem d)\<rparr>)"
      "length new = length old" "take (nat off) new = take (nat off) old" "lies (hdr_len d) new off c"
    by (elim exE conjE)
  let ?e = "d\<lparr>bd_mem := hstore a new (bd_mem d), bd_slen := off + (hdr_len d + int (length (c_data c)))\<rparr>"
  have "laid_out (hdr_len d) new stored"
    by (rule laid_out_prefix [OF old(3) _ new(3) g(1)]) (use e off(3) in simp)
  then have "laid_out (hdr_len d) new (stored @ [c])" using new(4) e by (simp add: laid_out_snoc off_def)
  moreover have "a < length (bd_mem d)" using old(1) by (simp add: deref_def split: if_splits)
  ultimately have "in_buf ?e a (bd_slen ?e) (stored @ [c])"
    using new(2) old(2) e fits g(3) by (auto simp: in_buf_def hdr_len_def heap_simps off_def)
  moreover have "in_buf ?e b (bd_hlen ?e) held" using i(4) s(2) by (auto simp: in_buf_def hdr_len_def heap_simps)
  moreover have "geometry ?e" "slots ?e a b" using i(1,2) by (auto simp: geometry_def hdr_len_def slots_def)
  ultimately have "bd_inv ?e held (stored @ [c])" using i(5) by (auto simp: bd_inv_def)
  then show ?thesis using new(1) by auto
qed

section \<open>Catching a packet\<close>

lemma bd_inv_wakeup: "bd_inv (if b then bpf_wakeup d else d) held stored = bd_inv d held stored"
  by (simp add: bpf_wakeup_def bd_inv_cong [of "d\<lparr>bd_state := BPF_IDLE\<rparr>" d])

text \<open>
  The slots of a held buffer do not change, and neither do the filters.
\<close>

definition keeps :: "bpf_d \<Rightarrow> bpf_d \<Rightarrow> bool" where
  "keeps d d' \<longleftrightarrow> bd_rfilter d' = bd_rfilter d \<and> bd_bufsize d' = bd_bufsize d \<and> hdr_len d' = hdr_len d \<and>
     (bd_hbuf d \<noteq> None \<longrightarrow> bd_hbuf d' = bd_hbuf d)"

lemma keeps_wakeup: "keeps d (if b then bpf_wakeup e else e) = keeps d e"
  by (simp add: keeps_def bpf_wakeup_def hdr_len_def)

lemma catchpacket_inv:
  fixes snaplen :: "32 word" and tv :: "32 word \<times> 32 word"
  assumes inv: "bd_inv d held stored" and wf: "pkt_wf pkt pktlen"
  defines "c \<equiv> captured d pkt pktlen snaplen tv"
  shows "runs (catchpacket pkt pktlen snaplen tv d) (\<lambda>d'. keeps d d' \<and>
    (if no_room d c then
       if bd_fbuf d = None then d' = d\<lparr>bd_dcount := bd_dcount d + 1\<rparr> else held = [] \<and> bd_inv d' stored [c]
     else bd_inv d' held (stored @ [c])))"
proof -
  have geo: "geometry d" using inv by (simp add: bd_inv_def)
  note eq = catchpacket_eq [OF geo wf, of snaplen tv, folded c_def]
  note len = captured_length(2,4) [OF geo wf, of snaplen tv, folded c_def]
  show ?thesis
  proof (cases "no_room d c")
    case False
    from bd_inv_append [OF inv len this] obtain e m where e: "do {
        e \<leftarrow> bpf_buffer_append_bytes (bd_sbuf d) (nat (BPF_WORDALIGN (bd_slen d))) (hdr_bytes (cap_hdr (hdr_len d) c)) 20 d;
        cpfn pkt (bd_sbuf e) (nat (BPF_WORDALIGN (bd_slen d) + hdr_len d)) (length (c_data c)) e } = Some e"
      "bd_inv (e\<lparr>bd_slen := BPF_WORDALIGN (bd_slen d) + (hdr_len d + int (length (c_data c)))\<rparr>) held (stored @ [c])"
      "e = d\<lparr>bd_mem := m\<rparr>" by blast
    then show ?thesis
      unfolding eq Let_def using False e
      by (simp only: False e(1) prod.case if_False simp_thms bind.bind_lunit runs_Some bd_inv_wakeup keeps_wakeup)
         (simp add: keeps_def hdr_len_def)
  next
    case True
    show ?thesis
    proof (cases "bd_fbuf d")
      case None
      then show ?thesis using True eq by (simp add: keeps_def hdr_len_def)
    next
      case (Some f)
      then have held: "held = []" "bd_hbuf d = None" using inv by (auto simp: bd_inv_def slots_def)
      have rot: "bd_inv (ROTATE_BUFFERS d) stored []" using bd_inv_rotate inv held Some by auto
      have h: "hdr_len (ROTATE_BUFFERS d) = hdr_len d" "bd_bufsize (ROTATE_BUFFERS d) = bd_bufsize d"
          "bd_slen (ROTATE_BUFFERS d) = 0" "BPF_WORDALIGN 0 = 0"
        by (simp_all add: hdr_len_def ROTATE_BUFFERS_def BPF_WORDALIGN_def)
      have "\<not> no_room (ROTATE_BUFFERS d) c"
        using captured_length(1) [OF geo wf, of snaplen tv, folded c_def] by (simp add: no_room_def h)
      from bd_inv_append [OF rot len this, unfolded h] obtain e m where e: "do {
          e \<leftarrow> bpf_buffer_append_bytes (bd_sbuf (ROTATE_BUFFERS d)) (nat 0) (hdr_bytes (cap_hdr (hdr_len d) c)) 20 (ROTATE_BUFFERS d);
          cpfn pkt (bd_sbuf e) (nat (0 + hdr_len d)) (length (c_data c)) e } = Some e"
        "bd_inv (e\<lparr>bd_slen := 0 + (hdr_len d + int (length (c_data c)))\<rparr>) stored ([] @ [c])"
        "e = (ROTATE_BUFFERS d)\<lparr>bd_mem := m\<rparr>" by blast
      then show ?thesis
        unfolding eq Let_def using True Some e held
        by (simp only: True e(1) prod.case if_True simp_thms bind.bind_lunit runs_Some option.distinct if_False
              bd_inv_wakeup [of True, simplified])
           (simp add: keeps_def hdr_len_def ROTATE_BUFFERS_def bpf_wakeup_def)
    qed
  qed
qed

section \<open>Reading the records back\<close>

text \<open>The packets in a chunk of data, found the way a reader of the device does: from header to header.\<close>

definition get16 :: "byte list \<Rightarrow> nat \<Rightarrow> 16 word" where
  "get16 b i = ucast (b ! i) OR push_bit 8 (ucast (b ! (i + 1)))"

definition get32 :: "byte list \<Rightarrow> nat \<Rightarrow> 32 word" where
  "get32 b i = ucast (b ! i) OR push_bit 8 (ucast (b ! (i + 1))) OR push_bit 16 (ucast (b ! (i + 2))) OR
     push_bit 24 (ucast (b ! (i + 3)))"

definition capture_at :: "byte list \<Rightarrow> nat \<Rightarrow> capture" where
  "capture_at b off =
     (let h = take 18 (drop off b)
      in \<lparr>c_tv = (get32 h 0, get32 h 4), c_datalen = get32 h 12,
          c_data = take (unat (get32 h 8)) (drop (off + unat (get16 h 16)) b)\<rparr>)"

definition next_record :: "byte list \<Rightarrow> nat \<Rightarrow> nat" where
  "next_record b off =
     (let h = take 18 (drop off b)
      in nat (BPF_WORDALIGN (int off + int (unat (get16 h 16)) + int (unat (get32 h 8)))))"

function bpf_records :: "byte list \<Rightarrow> nat \<Rightarrow> capture list" where
  "bpf_records b off =
     (if off + 18 \<le> length b \<and> off < next_record b off
      then capture_at b off # bpf_records b (next_record b off) else [])"
  by pat_completeness auto
termination by (relation "measure (\<lambda>(b, off). length b - off)") auto

declare bpf_records.simps [simp del]

lemma get_le [simp]: "get32 (le32 w @ xs) 0 = w" "get16 (le16 v @ xs) 0 = v"
proof -
  show "get32 (le32 w @ xs) 0 = w"
  proof (rule bit_word_eqI)
    fix n assume "n < LENGTH(32)"
    then consider "n < 8" | "8 \<le> n" "n < 16" | "16 \<le> n" "n < 24" | "24 \<le> n" "n < 32" by force
    then show "bit (get32 (le32 w @ xs) 0) n = bit w n" by cases (auto simp: get32_def le32_def bit_simps)
  qed
  show "get16 (le16 v @ xs) 0 = v"
  proof (rule bit_word_eqI)
    fix n assume "n < LENGTH(16)"
    then consider "n < 8" | "8 \<le> n" "n < 16" by force
    then show "bit (get16 (le16 v @ xs) 0) n = bit v n" by cases (auto simp: get16_def le16_def bit_simps)
  qed
qed

lemma get32_append [simp]: "get32 (xs @ ys) (length xs + i) = get32 ys i" "get16 (xs @ ys) (length xs + i) = get16 ys i"
  by (simp_all add: get32_def get16_def nth_append)

lemma length_le [simp]: "length (le32 w) = 4" "length (le16 v) = 2"
  by (simp_all add: le32_def le16_def)

lemma get_hdr:
  "get32 (hdr_bytes h) 0 = bh_sec h" "get32 (hdr_bytes h) 4 = bh_usec h" "get32 (hdr_bytes h) 8 = bh_caplen h"
  "get32 (hdr_bytes h) 12 = bh_datalen h" "get16 (hdr_bytes h) 16 = bh_hdrlen h"
  using get32_append [of "le32 (bh_sec h)" _ 0]
    get32_append [of "le32 (bh_sec h) @ le32 (bh_usec h)" _ 0]
    get32_append [of "le32 (bh_sec h) @ le32 (bh_usec h) @ le32 (bh_caplen h)" _ 0]
    get32_append(2) [of "le32 (bh_sec h) @ le32 (bh_usec h) @ le32 (bh_caplen h) @ le32 (bh_datalen h)" _ 0]
  by (simp_all add: hdr_bytes_def)

lemma capture_at_lies:
  assumes "lies hl b (int off) c" "18 \<le> hl" "hl \<le> 21" "int (length (c_data c)) < 2 ^ 31"
  shows "capture_at b off = c"
    and "next_record b off = nat (BPF_WORDALIGN (int off + hl + int (length (c_data c))))"
proof -
  let ?h = "hdr_bytes (cap_hdr hl c)"
  have h: "take 18 (drop off b) = take 18 ?h" and d: "take (length (c_data c)) (drop (nat (int off + hl)) b) = c_data c"
    using assms(1) by (simp_all add: lies_def)
  have g: "get32 (take 18 x) i = get32 x i" if "i \<le> 14" for x i using that by (simp add: get32_def)
  have g16: "get16 (take 18 x) i = get16 x i" if "i \<le> 16" for x i using that by (simp add: get16_def)
  have "(of_int hl :: 16 word) = of_nat (nat hl)" using assms(2) by simp
  then have hl: "unat (of_int hl :: 16 word) = nat hl" using assms(3) by (simp only: unat_of_nat) simp
  have len: "unat (of_nat (length (c_data c)) :: 32 word) = length (c_data c)"
    using assms(4) by (simp add: unat_of_nat)
  have "nat (int off + hl) = off + nat hl" using assms(2) by simp
  with d show "capture_at b off = c"
    unfolding capture_at_def Let_def h by (simp add: g g16 get_hdr) (simp add: cap_hdr_def hl len)
  have f: "unat (get16 (take 18 ?h) 16) = nat hl" "unat (get32 (take 18 ?h) 8) = length (c_data c)"
    using hl len by (simp_all add: g g16 get_hdr) (simp_all add: cap_hdr_def)
  show "next_record b off = nat (BPF_WORDALIGN (int off + hl + int (length (c_data c))))"
    unfolding next_record_def Let_def h f using assms(2) by simp
qed

lemma end_of_take_Suc:
  "i < length caps \<Longrightarrow> end_of hl (take (Suc i) caps) =
     BPF_WORDALIGN (end_of hl (take i caps)) + hl + int (length (c_data (caps ! i)))"
  by (simp add: take_Suc_conv_app_nth)

lemma end_of_mono:
  assumes "i \<le> length caps" "0 \<le> hl"
  shows "end_of hl (take i caps) \<le> end_of hl caps"
  using assms(1)
proof (induction "length caps - i" arbitrary: i)
  case (Suc n)
  then have i: "i < length caps" by linarith
  have "end_of hl (take i caps) \<le> end_of hl (take (Suc i) caps)"
    using end_of_take_Suc [OF i, of hl] align_bounds(1) [of "end_of hl (take i caps)"] assms(2) by linarith
  also have "\<dots> \<le> end_of hl caps" using Suc i by simp
  finally show ?case .
qed simp

lemma bpf_records_at:
  assumes "laid_out hl b caps" "end_of hl caps = int (length b)" "18 \<le> hl" "hl \<le> 21" "int (length b) < 2 ^ 31"
    and "i \<le> length caps"
  shows "bpf_records b (nat (BPF_WORDALIGN (end_of hl (take i caps)))) = drop i caps"
  using assms(6)
proof (induction "length caps - i" arbitrary: i)
  case 0
  then have "int (length b) \<le> BPF_WORDALIGN (end_of hl (take i caps))"
    using align_bounds(1) [of "end_of hl caps"] assms(2) by simp
  then show ?case using 0 by (subst bpf_records.simps) auto
next
  case (Suc n)
  then have i: "i < length caps" by linarith
  define off where "off = BPF_WORDALIGN (end_of hl (take i caps))"
  let ?c = "caps ! i"
  have off: "0 \<le> off" using align_bounds(1) [of "end_of hl (take i caps)"] end_of_nonneg [of hl "take i caps"] assms(3)
    by (simp add: off_def)
  have e: "off + hl + int (length (c_data ?c)) = end_of hl (take (Suc i) caps)"
    using end_of_take_Suc [OF i] by (simp add: off_def)
  then have le: "off + hl + int (length (c_data ?c)) \<le> int (length b)"
    using end_of_mono [of "Suc i" caps hl] i assms(2,3) by simp
  have "lies hl b (int (nat off)) ?c" using assms(1) i off by (simp add: laid_out_def off_def)
  note at = capture_at_lies [OF this assms(3,4)]
  have small: "int (length (c_data ?c)) < 2 ^ 31" using le off assms(3,5) by linarith
  have nx: "next_record b (nat off) = nat (BPF_WORDALIGN (end_of hl (take (Suc i) caps)))"
    using at(2) [OF small] off e by simp
  moreover have "nat off < next_record b (nat off)"
    using align_bounds(1) [of "end_of hl (take (Suc i) caps)"] e off assms(3) by (simp add: nx)
  moreover have "nat off + 18 \<le> length b" using le off assms(3) by linarith
  ultimately have "bpf_records b (nat off) = ?c # drop (Suc i) caps"
    using at(1) [OF small] Suc.hyps(1) [of "Suc i"] Suc.hyps(2) i by (subst bpf_records.simps) simp
  then show ?case using i by (simp add: off_def Cons_nth_drop_Suc)
qed

section \<open>The descriptor at work\<close>

definition filter_ok :: "bpf_insn list option \<Rightarrow> bool" where
  "filter_ok f = (case f of None \<Rightarrow> True
     | Some prog \<Rightarrow> prog \<noteq> [] \<and> length prog < 2 ^ 29 \<and> bpf_validate prog (int (length prog)) = Some True)"

lemma bpf_filter_total:
  assumes "filter_ok f" "packet_ok p buflen" "length stk = BPF_MEMWORDS"
  shows "\<exists>v. bpf_filter stk f p wirelen buflen = Some v"
proof (cases f)
  case (Some prog)
  then have "bpf_validate_loop prog" "BPF_CLASS (i_code (last prog)) = BPF_RET" "0 < length prog" "length prog < 2 ^ 29"
    using assms(1) by (auto simp: filter_ok_def bpf_validate_def last_conv_nth split: if_splits)
  then show ?thesis using bpf_loop_ok [OF assms(2)] assms(3) Some by (simp add: bpf_filter_def)
qed (simp add: bpf_filter_def)

text \<open>Whether a reader is between the release of the lock and the return of the hold buffer.\<close>

definition copies :: "reader \<Rightarrow> bool" where
  "copies r \<longleftrightarrow> r = R_copying \<or> r = R_copied"

lemma copies_simps [simp]: "copies R_copying" "copies R_copied" "\<not> copies R_idle" "\<not> copies (R_sleeping b)"
  by (simp_all add: copies_def)

definition busy :: "bpf_sys \<Rightarrow> bool" where
  "busy s \<longleftrightarrow> list_ex copies (sys_rd s)"

text \<open>At most one reader copies, and while one does the hold slot is full.\<close>

definition one_copies :: "reader list \<Rightarrow> bool" where
  "one_copies rs \<longleftrightarrow> (\<forall>i < length rs. \<forall>j < length rs. copies (rs ! i) \<and> copies (rs ! j) \<longrightarrow> i = j)"

definition sys_inv :: "bpf_sys \<Rightarrow> capture list \<Rightarrow> capture list \<Rightarrow> bool" where
  "sys_inv s held stored \<longleftrightarrow> bd_inv (sys_d s) held stored \<and> filter_ok (bd_rfilter (sys_d s)) \<and>
     one_copies (sys_rd s) \<and> (busy s \<longrightarrow> bd_hbuf (sys_d s) \<noteq> None)"

text \<open>
  The packets drivers pass; a flush that does not run into a copy; a reader that does not begin to copy while another one
  copies. Any number of readers may sleep or be refused.
\<close>

definition to_copy :: "read_next \<Rightarrow> bool" where
  "to_copy r = (case r of Read_copy _ \<Rightarrow> True | _ \<Rightarrow> False)"

definition packet_event :: "bpf_event \<Rightarrow> bool" where
  "packet_event e = (case e of
       Ev_packet stk pkt pktlen buflen now \<Rightarrow> length stk = BPF_MEMWORDS \<and> packet_ok pkt buflen \<and> pkt_wf pkt pktlen
     | _ \<Rightarrow> True)"

definition calm :: "bpf_event \<Rightarrow> bpf_sys \<Rightarrow> bool" where
  "calm e s = (case e of
       Ev_read t resid pid nonblock \<Rightarrow> reader_at t s = Some R_idle \<and> to_copy (bpfread_enter resid pid nonblock (sys_d s)) \<longrightarrow> \<not> busy s
     | Ev_woken t error \<Rightarrow>
         (case reader_at t s of
            Some (R_sleeping timed_out) \<Rightarrow> to_copy (bpfread_woken error timed_out (sys_d s)) \<longrightarrow> \<not> busy s
          | _ \<Rightarrow> True)
     | Ev_flush \<Rightarrow> \<not> busy s
     | _ \<Rightarrow> True)"

text \<open>What an event adds to the captured packets, and the packets copied out or on their way.\<close>

definition taken :: "bpf_event \<Rightarrow> bpf_sys \<Rightarrow> capture list" where
  "taken e s = (case e of
       Ev_packet stk pkt pktlen buflen now \<Rightarrow>
         (case bpf_filter stk (bd_rfilter (sys_d s)) pkt pktlen buflen of
            None \<Rightarrow> []
          | Some v \<Rightarrow> let c = captured (sys_d s) pkt pktlen v now in
              if v = 0 \<or> no_room (sys_d s) c \<and> bd_fbuf (sys_d s) = None then [] else [c])
     | _ \<Rightarrow> [])"

definition copied_out :: "bpf_sys \<Rightarrow> capture list" where
  "copied_out s = concat (map (\<lambda>(t, error, b). bpf_records b 0) (sys_out s))"

definition on_the_way :: "bpf_sys \<Rightarrow> capture list \<Rightarrow> capture list \<Rightarrow> capture list" where
  "on_the_way s held stored = copied_out s @ (if R_copied \<in> set (sys_rd s) then [] else held) @ stored"

lemma busy_iff: "busy s \<longleftrightarrow> (\<exists>i < length (sys_rd s). copies (sys_rd s ! i))"
  by (simp add: busy_def list_ex_length)

lemma copied_busy: "R_copied \<in> set (sys_rd s) \<Longrightarrow> busy s"
  by (auto simp: busy_def list_ex_iff intro: bexI [of _ R_copied])

lemma reader_at_Some: "reader_at t s = Some r \<longleftrightarrow> t < length (sys_rd s) \<and> sys_rd s ! t = r"
  by (auto simp: reader_at_def)

text \<open>What becomes of the readers when one of them takes a step.\<close>

lemma one_copies_update:
  assumes "one_copies rs" "copies r \<longrightarrow> (\<forall>i < length rs. i \<noteq> t \<longrightarrow> \<not> copies (rs ! i))"
  shows "one_copies (rs[t := r])"
proof -
  have "i = t \<and> copies r \<or> i \<noteq> t \<and> copies (rs ! i)" if "i < length rs" "copies (rs[t := r] ! i)" for i
    using that by (cases "i = t") simp_all
  then show ?thesis using assms unfolding one_copies_def length_list_update by blast
qed

lemma one_copies_others:
  assumes "one_copies rs" "t < length rs" "copies (rs ! t)"
  shows "\<forall>i < length rs. i \<noteq> t \<longrightarrow> \<not> copies (rs ! i)"
  using assms unfolding one_copies_def by blast

lemma others_update:
  assumes "t < length rs" "\<forall>i < length rs. i \<noteq> t \<longrightarrow> \<not> copies (rs ! i)"
  shows "R_copied \<in> set (rs[t := r]) \<longleftrightarrow> r = R_copied" "list_ex copies (rs[t := r]) \<longleftrightarrow> copies r"
proof -
  have "copies (rs[t := r] ! i) \<longleftrightarrow> i = t \<and> copies r" if "i < length rs" for i using assms that by (simp add: nth_list_update)
  then show "list_ex copies (rs[t := r]) \<longleftrightarrow> copies r" using assms(1) by (auto simp: list_ex_length)
  have "rs[t := r] ! i = R_copied \<longleftrightarrow> i = t \<and> r = R_copied" if "i < length rs" for i
    using assms that by (auto simp: nth_list_update)
  then show "R_copied \<in> set (rs[t := r]) \<longleftrightarrow> r = R_copied" using assms(1) by (auto simp: in_set_conv_nth)
qed

lemma quiet_update:
  assumes "t < length rs" "\<not> copies (rs ! t)" "\<not> copies r"
  shows "R_copied \<in> set (rs[t := r]) \<longleftrightarrow> R_copied \<in> set rs" "list_ex copies (rs[t := r]) \<longleftrightarrow> list_ex copies rs"
proof -
  have "copies (rs[t := r] ! i) \<longleftrightarrow> copies (rs ! i)" if "i < length rs" for i using assms that by (cases "i = t") simp_all
  then show "list_ex copies (rs[t := r]) \<longleftrightarrow> list_ex copies rs" by (auto simp: list_ex_length)
  have "rs[t := r] ! i = R_copied \<longleftrightarrow> rs ! i = R_copied" if "i < length rs" for i
    using assms that by (cases "i = t") auto
  then show "R_copied \<in> set (rs[t := r]) \<longleftrightarrow> R_copied \<in> set rs" by (auto simp: in_set_conv_nth)
qed

text \<open>The steps of a reader.\<close>

lemma bd_inv_finish:
  assumes "bd_inv d held stored" "bd_hbuf d \<noteq> None"
  shows "bd_inv (bpfread_finish d) [] stored"
proof -
  from assms obtain a b where i: "geometry d" "slots d a b" "in_buf d a (bd_slen d) stored"
    "in_buf d b (bd_hlen d) held" by (auto simp: bd_inv_def)
  have "slots (bpfread_finish d) a b" using i(2) assms(2) by (auto simp: slots_def bpfread_finish_def)
  moreover have "geometry (bpfread_finish d)" using i(1) by (simp add: geometry_def hdr_len_def bpfread_finish_def)
  moreover have "in_buf (bpfread_finish d) a (bd_slen d) stored" "in_buf (bpfread_finish d) b 0 []"
    using i(1,3,4) by (auto simp: in_buf_def hdr_len_def bpfread_finish_def geometry_def)
  moreover have "bd_hlen (bpfread_finish d) = 0" "bd_slen (bpfread_finish d) = bd_slen d"
    by (simp_all add: bpfread_finish_def)
  ultimately show ?thesis unfolding bd_inv_def by auto
qed

lemma bd_inv_reset:
  assumes "bd_inv d held stored"
  shows "bd_inv (reset_d d) [] []"
proof -
  from assms obtain a b where i: "geometry d" "slots d a b" "in_buf d a (bd_slen d) stored"
    "in_buf d b (bd_hlen d) held" by (auto simp: bd_inv_def)
  have "slots (reset_d d) a b" using i(2) by (auto simp: slots_def reset_d_def Let_def)
  moreover have "geometry (reset_d d)" using i(1) by (simp add: geometry_def hdr_len_def reset_d_def Let_def)
  moreover have "in_buf (reset_d d) a 0 []" "in_buf (reset_d d) b 0 []"
    using i(1,3,4) by (auto simp: in_buf_def hdr_len_def reset_d_def Let_def geometry_def)
  moreover have "bd_hlen (reset_d d) = 0" "bd_slen (reset_d d) = 0" by (simp_all add: reset_d_def Let_def)
  ultimately show ?thesis unfolding bd_inv_def by auto
qed

text \<open>
  A reader that returns or sleeps leaves the buffers alone; one that goes on to copy keeps the order of held and stored
  packets, and copies only from a filled hold slot.
\<close>

definition read_ok :: "bpf_d \<Rightarrow> capture list \<Rightarrow> capture list \<Rightarrow> read_next \<Rightarrow> bool" where
  "read_ok d0 held stored r = (case r of
       Read_return _ d \<Rightarrow> bd_inv d held stored \<and> bd_rfilter d = bd_rfilter d0 \<and> bd_hbuf d = bd_hbuf d0
     | Read_sleep _ d \<Rightarrow> bd_inv d held stored \<and> bd_rfilter d = bd_rfilter d0 \<and> bd_hbuf d = bd_hbuf d0
     | Read_copy d \<Rightarrow> bd_hbuf d \<noteq> None \<and> bd_rfilter d = bd_rfilter d0 \<and>
         (\<exists>held' stored'. bd_inv d held' stored' \<and> held' @ stored' = held @ stored))"

lemma read_ok_rotate:
  assumes "bd_inv d held stored" "bd_hbuf d = None"
  shows "read_ok d held stored (Read_copy (ROTATE_BUFFERS d))"
proof -
  have h: "held = []" "bd_fbuf d \<noteq> None" using assms by (auto simp: bd_inv_def slots_def)
  from bd_inv_rotate [of d stored] have i: "bd_inv (ROTATE_BUFFERS d) stored []" using assms h by simp
  then have "bd_hbuf (ROTATE_BUFFERS d) \<noteq> None" using assms by (auto simp: bd_inv_def slots_def ROTATE_BUFFERS_def)
  then show ?thesis using i h by (auto simp: read_ok_def ROTATE_BUFFERS_def)
qed

lemma bpfread_loop_ok:
  assumes "bd_inv d held stored"
  shows "read_ok d held stored (bpfread_loop t nb d)"
  using assms read_ok_rotate [OF assms] by (auto simp: bpfread_loop_def read_ok_def)

lemma bpfread_enter_ok:
  assumes "bd_inv d held stored"
  shows "read_ok d held stored (bpfread_enter resid pid nb d)"
proof -
  let ?d = "d\<lparr>bd_pid := pid, bd_state := BPF_IDLE\<rparr>"
  have "bd_inv ?d held stored" using assms bd_inv_cong [of ?d d] by simp
  from bpfread_loop_ok [OF this, of "bd_state d = BPF_TIMED_OUT" nb] have "read_ok d held stored (bpfread_loop (bd_state d = BPF_TIMED_OUT) nb ?d)"
    by (cases "bpfread_loop (bd_state d = BPF_TIMED_OUT) nb ?d") (simp_all add: read_ok_def)
  then show ?thesis using assms by (simp add: bpfread_enter_def Let_def) (simp add: read_ok_def)
qed

lemma bpfread_woken_ok:
  assumes "bd_inv d held stored"
  shows "read_ok d held stored (bpfread_woken error t d)"
  using assms read_ok_rotate [OF assms] bpfread_loop_ok [OF assms]
  by (auto simp: bpfread_woken_def) (auto simp: read_ok_def)

lemma bpfread_copy_ok:
  assumes "bd_inv d held stored" "bd_hbuf d \<noteq> None"
  shows "\<exists>b. bpfread_copy d = Some b \<and> bpf_records b 0 = held"
proof -
  from assms obtain a where h: "bd_hbuf d = Some a" "in_buf d a (bd_hlen d) held" and g: "geometry d"
    by (auto simp: bd_inv_def slots_def)
  then obtain buf where buf: "deref (bd_mem d) a = Some buf" "length buf = nat (bd_bufsize d)"
      "laid_out (hdr_len d) buf held" "bd_hlen d = end_of (hdr_len d) held" "bd_hlen d \<le> bd_bufsize d"
    by (auto simp: in_buf_def)
  have g': "18 \<le> hdr_len d" "hdr_len d \<le> 21" "bd_bufsize d \<le> 2 ^ 30" using g by (auto simp: geometry_def)
  let ?b = "take (nat (bd_hlen d)) buf"
  have pos: "0 \<le> bd_hlen d" using buf(4) end_of_nonneg [of "hdr_len d" held] g'(1) by simp
  have len: "int (length ?b) = bd_hlen d" using buf(2,5) pos by simp
  have lo: "laid_out (hdr_len d) ?b held"
    by (rule laid_out_prefix [OF buf(3), of "bd_hlen d"]) (use buf(4) g' in auto)
  have small: "int (length ?b) < 2 ^ 31" unfolding len using buf(5) g'(3) by simp
  have "end_of (hdr_len d) held = int (length ?b)" using buf(4) len by (simp only:)
  from bpf_records_at [OF lo this g'(1,2) small, of 0]
  have "bpf_records ?b (nat (BPF_WORDALIGN (end_of (hdr_len d) (take 0 held)))) = drop 0 held" by (simp only: le0)
  then have "bpf_records ?b 0 = held" by (simp add: BPF_WORDALIGN_def)
  moreover have "bpfread_copy d = Some ?b" using h(1) buf(1,2) nat_mono [OF buf(5)] by (simp add: bpfread_copy_def)
  ultimately show ?thesis by blast
qed

text \<open>Every event keeps the invariant; what was captured is in the data read or on its way.\<close>

lemma read_goes_ok:
  assumes inv: "sys_inv s held stored" and r: "read_ok (sys_d s) held stored r" and t: "reader_at t s = Some x" "\<not> copies x"
    and calm: "to_copy r \<longrightarrow> \<not> busy s"
  shows "\<exists>held' stored'. sys_inv (read_goes t r s) held' stored' \<and>
    on_the_way (read_goes t r s) held' stored' = on_the_way s held stored"
proof -
  have i: "filter_ok (bd_rfilter (sys_d s))" "one_copies (sys_rd s)" "busy s \<longrightarrow> bd_hbuf (sys_d s) \<noteq> None"
    using inv by (simp_all add: sys_inv_def)
  have t': "t < length (sys_rd s)" "\<not> copies (sys_rd s ! t)" using t by (auto simp: reader_at_Some)
  have quiet: "\<exists>held' stored'. sys_inv (set_reader t y (s\<lparr>sys_d := d\<rparr>)) held' stored' \<and>
      on_the_way (set_reader t y (s\<lparr>sys_d := d\<rparr>)) held' stored' = on_the_way s held stored"
    if d: "bd_inv d held stored" "bd_rfilter d = bd_rfilter (sys_d s)" "bd_hbuf d = bd_hbuf (sys_d s)" and y: "\<not> copies y" for d y
    using d i one_copies_update [OF i(2), of y t] y quiet_update [OF t' y]
    by (intro exI [of _ held] exI [of _ stored]) (simp add: sys_inv_def on_the_way_def copied_out_def set_reader_def busy_def)
  show ?thesis
  proof (cases r)
    case (Read_copy d)
    then have nb: "\<not> busy s" using calm by (simp add: to_copy_def)
    then have o: "\<forall>i < length (sys_rd s). i \<noteq> t \<longrightarrow> \<not> copies (sys_rd s ! i)" by (auto simp: busy_iff)
    obtain held' stored' where d: "bd_hbuf d \<noteq> None" "bd_rfilter d = bd_rfilter (sys_d s)" "bd_inv d held' stored'" "held' @ stored' = held @ stored"
      using r Read_copy by (auto simp: read_ok_def)
    have "R_copied \<notin> set (sys_rd s)" using nb copied_busy by blast
    then have "on_the_way (read_goes t r s) held' stored' = on_the_way s held stored"
      using d(4) others_update(1) [OF t'(1) o, of R_copying] by (simp add: Read_copy read_goes_def set_reader_def on_the_way_def copied_out_def)
    moreover have "sys_inv (read_goes t r s) held' stored'"
      using d i(1) one_copies_update [OF i(2), of R_copying t] o by (simp add: Read_copy read_goes_def set_reader_def sys_inv_def)
    ultimately show ?thesis by blast
  qed (use r quiet in \<open>auto simp: read_ok_def read_goes_def\<close>)
qed

lemma packet_event_ok:
  assumes inv: "sys_inv s held stored" and ok: "packet_event (Ev_packet stk pkt pktlen buflen now)"
  shows "runs (bpf_happens (Ev_packet stk pkt pktlen buflen now) s) (\<lambda>s'. \<exists>held' stored'. sys_inv s' held' stored' \<and>
    on_the_way s' held' stored' = on_the_way s held stored @ taken (Ev_packet stk pkt pktlen buflen now) s)"
proof -
  let ?d = "sys_d s"
  have i: "bd_inv ?d held stored" "filter_ok (bd_rfilter ?d)" using inv by (simp_all add: sys_inv_def)
  have p: "packet_ok pkt buflen" "pkt_wf pkt pktlen" "length stk = BPF_MEMWORDS" using ok by (simp_all add: packet_event_def)
  obtain v where v: "bpf_filter stk (bd_rfilter ?d) pkt pktlen buflen = Some v"
    using bpf_filter_total [OF i(2) p(1,3)] by blast
  define r where "r = ?d\<lparr>bd_rcount := bd_rcount ?d + 1\<rparr>"
  have ri: "bd_inv r held stored" using i(1) bd_inv_cong [of r ?d] by (simp add: r_def)
  show ?thesis
  proof (cases "v = 0")
    case True
    then show ?thesis using v ri inv
      by (auto simp: bpf_offer_def r_def [symmetric] taken_def sys_inv_def on_the_way_def copied_out_def busy_def) (auto simp: r_def)
  next
    case False
    define d where "d = r\<lparr>bd_fcount := bd_fcount r + 1\<rparr>"
    have di: "bd_inv d held stored" using ri bd_inv_cong [of d r] by (simp add: d_def)
    have same: "captured d = captured ?d" "no_room d = no_room ?d" "bd_fbuf d = bd_fbuf ?d" "bd_hbuf d = bd_hbuf ?d"
        "bd_rfilter d = bd_rfilter ?d"
      by (auto simp: captured_def no_room_def hdr_len_def d_def r_def fun_eq_iff)
    let ?c = "captured ?d pkt pktlen v now"
    from catchpacket_inv [OF di p(2), of v now] obtain d' where d': "catchpacket pkt pktlen v now d = Some d'"
        "keeps d d'" "if no_room ?d ?c then if bd_fbuf ?d = None then d' = d\<lparr>bd_dcount := bd_dcount d + 1\<rparr>
          else held = [] \<and> bd_inv d' stored [?c] else bd_inv d' held (stored @ [?c])"
      unfolding same by (auto simp: runs_def)
    have ev: "bpf_happens (Ev_packet stk pkt pktlen buflen now) s = Some (s\<lparr>sys_d := d'\<rparr>)"
      using v False d'(1) by (simp add: bpf_offer_def d_def r_def)
    have k: "filter_ok (bd_rfilter d')" "busy s \<Longrightarrow> bd_hbuf d' \<noteq> None" "one_copies (sys_rd s)"
      using d'(2) i(2) inv same by (auto simp: keeps_def sys_inv_def)
    have "\<exists>held' stored'. bd_inv d' held' stored' \<and> (R_copied \<in> set (sys_rd s) \<longrightarrow> held' = held) \<and>
        held' @ stored' = held @ stored @ taken (Ev_packet stk pkt pktlen buflen now) s"
    proof (cases "no_room ?d ?c")
      case room: False
      then show ?thesis using d'(3) v False by (auto simp: taken_def Let_def)
    next
      case full: True
      show ?thesis
      proof (cases "bd_fbuf ?d")
        case None
        then have "bd_inv d' held stored" using d'(3) full di bd_inv_cong [of d' d] by auto
        then show ?thesis using full None v False by (auto simp: taken_def Let_def)
      next
        case (Some f)
        then have "bd_hbuf ?d = None" using i(1) by (auto simp: bd_inv_def slots_def)
        then have "R_copied \<notin> set (sys_rd s)" using inv copied_busy by (auto simp: sys_inv_def)
        then show ?thesis using d'(3) full Some v False by (auto simp: taken_def Let_def)
      qed
    qed
    then show ?thesis using k unfolding ev runs_Some by (auto simp: sys_inv_def on_the_way_def copied_out_def busy_def)
  qed
qed

lemma copy_event_ok:
  assumes inv: "sys_inv s held stored"
  shows "runs (bpf_happens (Ev_copy t error) s) (\<lambda>s'. \<exists>held' stored'. sys_inv s' held' stored' \<and> on_the_way s' held' stored' = on_the_way s held stored)"
proof (cases "reader_at t s = Some R_copying")
  case True
  have i: "bd_inv (sys_d s) held stored" "one_copies (sys_rd s)" "busy s \<longrightarrow> bd_hbuf (sys_d s) \<noteq> None" using inv by (simp_all add: sys_inv_def)
  have t: "t < length (sys_rd s)" "sys_rd s ! t = R_copying" using True by (simp_all add: reader_at_Some)
  have o: "\<forall>i < length (sys_rd s). i \<noteq> t \<longrightarrow> \<not> copies (sys_rd s ! i)" by (rule one_copies_others [OF i(2) t(1)]) (simp add: t(2))
  have "busy s" using t by (auto simp: busy_iff intro!: exI [of _ t])
  then obtain b where b: "bpfread_copy (sys_d s) = Some b" "bpf_records b 0 = held" using bpfread_copy_ok [OF i(1)] i(3) by auto
  let ?s = "set_reader t R_copied (s\<lparr>sys_out := sys_out s @ [(t, error, b)]\<rparr>)"
  have "R_copied \<notin> set (sys_rd s)" using others_update(1) [OF t(1) o, of R_copying] t by (simp add: list_update_same_conv [THEN iffD2])
  then have "on_the_way ?s held stored = on_the_way s held stored"
    using others_update(1) [OF t(1) o, of R_copied] b(2) by (simp add: on_the_way_def copied_out_def set_reader_def)
  moreover have "sys_inv ?s held stored"
    using inv \<open>busy s\<close> one_copies_update [OF i(2), of R_copied t] o by (simp add: sys_inv_def set_reader_def)
  ultimately show ?thesis using True b(1) by auto
qed (use inv in auto)

lemma finish_event_ok:
  assumes inv: "sys_inv s held stored"
  shows "runs (bpf_happens (Ev_finish t) s) (\<lambda>s'. \<exists>held' stored'. sys_inv s' held' stored' \<and> on_the_way s' held' stored' = on_the_way s held stored)"
proof (cases "reader_at t s = Some R_copied")
  case True
  have i: "bd_inv (sys_d s) held stored" "one_copies (sys_rd s)" "busy s \<longrightarrow> bd_hbuf (sys_d s) \<noteq> None" using inv by (simp_all add: sys_inv_def)
  have t: "t < length (sys_rd s)" "sys_rd s ! t = R_copied" using True by (simp_all add: reader_at_Some)
  have o: "\<forall>i < length (sys_rd s). i \<noteq> t \<longrightarrow> \<not> copies (sys_rd s ! i)" by (rule one_copies_others [OF i(2) t(1)]) (simp add: t(2))
  have c: "R_copied \<in> set (sys_rd s)" using t by (metis nth_mem)
  then have "bd_inv (bpfread_finish (sys_d s)) [] stored" using bd_inv_finish [OF i(1)] i(3) copied_busy by blast
  then have "sys_inv (set_reader t R_idle (s\<lparr>sys_d := bpfread_finish (sys_d s)\<rparr>)) [] stored"
    using inv one_copies_update [OF i(2), of R_idle t] others_update(2) [OF t(1) o, of R_idle]
    by (simp add: sys_inv_def set_reader_def busy_def bpfread_finish_def)
  moreover have "on_the_way (set_reader t R_idle (s\<lparr>sys_d := bpfread_finish (sys_d s)\<rparr>)) [] stored = on_the_way s held stored"
    using c others_update(1) [OF t(1) o, of R_idle] by (simp add: on_the_way_def copied_out_def set_reader_def)
  ultimately show ?thesis using True by auto
qed (use inv in auto)

lemma event_inv:
  assumes inv: "sys_inv s held stored" and ok: "packet_event e" "calm e s"
  shows "runs (bpf_happens e s) (\<lambda>s'. \<exists>held' stored'. sys_inv s' held' stored' \<and>
    (e \<noteq> Ev_flush \<longrightarrow> on_the_way s' held' stored' = on_the_way s held stored @ taken e s))"
proof -
  have i: "bd_inv (sys_d s) held stored" "filter_ok (bd_rfilter (sys_d s))" using inv by (simp_all add: sys_inv_def)
  show ?thesis
  proof (cases e)
    case (Ev_packet stk pkt pktlen buflen now)
    then show ?thesis using packet_event_ok [OF inv, of stk pkt pktlen buflen now] ok by simp
  next
    case Ev_timeout
    have "bd_inv (bpf_timed_out (sys_d s)) held stored"
      using i(1) bd_inv_cong [of "bpf_timed_out (sys_d s)" "sys_d s"]
      by (simp add: bpf_timed_out_def bpf_wakeup_def Let_def)
    then have "sys_inv (s\<lparr>sys_d := bpf_timed_out (sys_d s)\<rparr>) held stored"
      using inv by (simp add: sys_inv_def busy_def bpf_timed_out_def bpf_wakeup_def Let_def)
    moreover have "on_the_way (s\<lparr>sys_d := bpf_timed_out (sys_d s)\<rparr>) held stored = on_the_way s held stored"
      by (simp add: on_the_way_def copied_out_def)
    ultimately show ?thesis using Ev_timeout by (simp add: taken_def) blast
  next
    case (Ev_read t resid pid nb)
    then show ?thesis
      using inv ok read_goes_ok [OF inv bpfread_enter_ok [OF i(1), of resid pid nb], of t R_idle] by (auto simp: taken_def calm_def)
  next
    case (Ev_woken t error)
    show ?thesis
    proof (cases "\<exists>b. reader_at t s = Some (R_sleeping b)")
      case True
      then obtain b where "reader_at t s = Some (R_sleeping b)" by blast
      then show ?thesis
        using Ev_woken ok read_goes_ok [OF inv bpfread_woken_ok [OF i(1), of error b], of t "R_sleeping b"] by (simp add: taken_def calm_def)
    next
      case False
      then have "bpf_happens e s = Some s" by (simp add: Ev_woken split: option.split reader.split)
      then show ?thesis using inv by (auto simp: Ev_woken taken_def)
    qed
  next
    case (Ev_copy t error)
    show ?thesis using copy_event_ok [OF inv, of t error] by (simp add: Ev_copy taken_def)
  next
    case (Ev_finish t)
    show ?thesis using finish_event_ok [OF inv, of t] by (simp add: Ev_finish taken_def)
  next
    case Ev_flush
    then have "sys_inv (s\<lparr>sys_d := reset_d (sys_d s)\<rparr>) [] []"
      using bd_inv_reset [OF i(1)] inv ok by (simp add: sys_inv_def calm_def busy_def reset_d_def Let_def)
    then show ?thesis using Ev_flush by simp blast
  qed
qed

text \<open>A sequence of events that are all admissible where they happen.\<close>

fun calm_run :: "bpf_event list \<Rightarrow> bpf_sys \<Rightarrow> bool" where
  "calm_run [] s = True"
| "calm_run (e # es) s = (calm e s \<and> (case bpf_happens e s of None \<Rightarrow> True | Some s' \<Rightarrow> calm_run es s'))"

definition events_ok :: "bpf_event list \<Rightarrow> bpf_sys \<Rightarrow> bool" where
  "events_ok es s \<longleftrightarrow> list_all packet_event es \<and> calm_run es s"

fun all_taken :: "bpf_event list \<Rightarrow> bpf_sys \<Rightarrow> capture list" where
  "all_taken [] s = []"
| "all_taken (e # es) s = taken e s @ (case bpf_happens e s of None \<Rightarrow> [] | Some s' \<Rightarrow> all_taken es s')"

lemma bpf_run_inv:
  assumes "sys_inv s held stored" "events_ok es s"
  shows "runs (bpf_run es s) (\<lambda>s'. \<exists>held' stored'. sys_inv s' held' stored' \<and>
    (Ev_flush \<notin> set es \<longrightarrow> on_the_way s' held' stored' = on_the_way s held stored @ all_taken es s))"
  using assms
proof (induction es arbitrary: s held stored)
  case (Cons e es)
  have "packet_event e" "calm e s" using Cons.prems(2) by (simp_all add: events_ok_def)
  from event_inv [OF Cons.prems(1) this] obtain s' h t where s': "bpf_happens e s = Some s'" "sys_inv s' h t"
      "e \<noteq> Ev_flush \<longrightarrow> on_the_way s' h t = on_the_way s held stored @ taken e s"
    by (auto simp: runs_def)
  have "events_ok es s'" using Cons.prems(2) s'(1) by (simp add: events_ok_def)
  from Cons.IH [OF s'(2) this] obtain x h' t' where x: "bpf_run es s' = Some x" "sys_inv x h' t'"
      "Ev_flush \<notin> set es \<longrightarrow> on_the_way x h' t' = on_the_way s' h t @ all_taken es s'"
    by (auto simp: runs_def)
  then have "bpf_run (e # es) s = Some x" using s'(1) by simp
  moreover have "Ev_flush \<notin> set (e # es) \<longrightarrow> on_the_way x h' t' = on_the_way s held stored @ all_taken (e # es) s"
    using x(3) s'(1,3) by auto
  ultimately show ?case using x(2) unfolding runs_def by blast
qed auto

section \<open>Properties\<close>

text \<open>A descriptor as it is after opening the device, attaching it and setting a filter, with \<open>n\<close> threads that may read.\<close>

definition bpf_start :: "int \<Rightarrow> bpf_if \<Rightarrow> bpf_insn list option \<Rightarrow> bool \<Rightarrow> nat \<Rightarrow> bpf_sys" where
  "bpf_start bufsize bp f imm n =
     \<lparr>sys_d = (the (bpf_buffer_alloc (bpfopen bufsize 1)))\<lparr>bd_bif := Some bp, bd_rfilter := f, bd_immediate := imm\<rparr>,
      sys_rd = replicate n R_idle, sys_out = []\<rparr>"

definition start_ok :: "int \<Rightarrow> bpf_if \<Rightarrow> bpf_insn list option \<Rightarrow> bool" where
  "start_ok bufsize bp f \<longleftrightarrow> 32 \<le> bufsize \<and> bufsize \<le> 2 ^ 30 \<and> 18 \<le> unat (bif_hdrlen bp) \<and> unat (bif_hdrlen bp) \<le> 21 \<and>
     (bufsize mod 4 < 2 \<or> 20 \<le> unat (bif_hdrlen bp)) \<and> filter_ok f"

lemma start_d:
  "bd_mem (sys_d (bpf_start bufsize bp f imm n)) = [Some (replicate (nat bufsize) 0), Some (replicate (nat bufsize) 0)]"
  "bd_sbuf (sys_d (bpf_start bufsize bp f imm n)) = Some 1" "bd_fbuf (sys_d (bpf_start bufsize bp f imm n)) = Some 0"
  "bd_hbuf (sys_d (bpf_start bufsize bp f imm n)) = None" "bd_slen (sys_d (bpf_start bufsize bp f imm n)) = 0"
  "bd_hlen (sys_d (bpf_start bufsize bp f imm n)) = 0" "bd_bufsize (sys_d (bpf_start bufsize bp f imm n)) = bufsize"
  "bd_bif (sys_d (bpf_start bufsize bp f imm n)) = Some bp" "bd_rfilter (sys_d (bpf_start bufsize bp f imm n)) = f"
  by (simp_all add: bpf_start_def bpf_buffer_alloc_def bpfopen_def Let_def halloc_def)

lemma start_inv:
  assumes "start_ok bufsize bp f"
  shows "sys_inv (bpf_start bufsize bp f imm n) [] []"
proof -
  let ?d = "sys_d (bpf_start bufsize bp f imm n)"
  note d = start_d [of bufsize bp f imm n]
  have h: "18 \<le> hdr_len ?d" "hdr_len ?d \<le> 21" "bufsize mod 4 < 2 \<or> 20 \<le> hdr_len ?d"
    unfolding hdr_len_def d(8) option.sel using assms by (simp_all only: start_ok_def) linarith+
  have "geometry ?d" using assms h d by (simp add: geometry_def start_ok_def)
  moreover have "slots ?d 1 0" by (simp add: slots_def d)
  moreover have "in_buf ?d 1 0 []" "in_buf ?d 0 0 []"
    using assms by (auto simp: in_buf_def d deref_def start_ok_def)
  ultimately have "bd_inv ?d [] []" unfolding bd_inv_def d by blast
  then show ?thesis using assms d by (simp add: sys_inv_def start_ok_def bpf_start_def one_copies_def busy_iff)
qed


text \<open>C3: Packets are neither lost, duplicated nor reordered before they are copied out. Under the conditions of the previous
  theorem, and as long as the descriptor is not flushed, the packets in the data that \<^verbatim>\<open>bpf_uiomove\<close> has been called with so
  far, by whatever reader, then those in the hold buffer, then those in the store buffer, are exactly the packets the filter
  matched that were not counted as dropped, each cut to the length the filter asked for and the buffer allows. A reader
  gets the packets of the copies that succeed; those of a copy that fails are gone.\<close>

theorem bpf_delivers:
  assumes "start_ok bufsize bp f" "events_ok es (bpf_start bufsize bp f imm n)" "Ev_flush \<notin> set es"
  shows "\<exists>s held stored. bpf_run es (bpf_start bufsize bp f imm n) = Some s \<and> bd_inv (sys_d s) held stored \<and>
    concat (map (\<lambda>(t, error, b). bpf_records b 0) (sys_out s)) @ (if R_copied \<in> set (sys_rd s) then [] else held) @ stored =
      all_taken es (bpf_start bufsize bp f imm n)"
proof -
  let ?s = "bpf_start bufsize bp f imm n"
  from bpf_run_inv [OF start_inv [OF assms(1)] assms(2)] obtain s held stored where s:
    "bpf_run es ?s = Some s" "bd_inv (sys_d s) held stored"
    "on_the_way s held stored = on_the_way ?s [] [] @ all_taken es ?s"
    using assms(3) by (auto simp: runs_def sys_inv_def)
  have "on_the_way ?s [] [] = []" by (simp add: on_the_way_def copied_out_def bpf_start_def)
  with s(3) have "on_the_way s held stored = all_taken es ?s" by simp
  then show ?thesis using s(1,2) unfolding on_the_way_def copied_out_def by blast
qed

text \<open>
  A descriptor with a buffer of 64 bytes whose filter takes the first 20 bytes of every packet. A reader sleeps; the packets that
  arrive wake it up, it copies, a packet arrives while it does, and a second reader whose buffer has the wrong size is refused.
\<close>

definition ex_if :: bpf_if where
  "ex_if = \<lparr>bif_ifp = 1, bif_hdrlen = 18\<rparr>"

definition ex_filter :: "bpf_insn list option" where
  "ex_filter = Some [\<lparr>i_code = 0x06, i_jt = 0, i_jf = 0, i_k = 20\<rparr>]"

definition ex_big :: bpf_event where
  "ex_big = Ev_packet (replicate 16 0) (Buffer (replicate 30 7)) 30 30 (5, 6)"

definition ex_small :: bpf_event where
  "ex_small = Ev_packet (replicate 16 0) (Mbufs [[1, 2], [3, 4, 5]]) 5 0 (7, 8)"

definition ex_events :: "bpf_event list" where
  "ex_events = [Ev_read 0 64 9 False, ex_big, ex_small, Ev_woken 0 0, ex_small, Ev_read 1 32 9 False, Ev_copy 0 0, ex_small,
     Ev_finish 0, Ev_read 1 64 9 False, Ev_copy 1 14, Ev_finish 1]"

lemma ex_start_ok: "start_ok 64 ex_if ex_filter"
proof -
  have "bpf_validate [\<lparr>i_code = 0x06, i_jt = 0, i_jf = 0, i_k = 20\<rparr>] 1 = Some True" by code_simp
  then show ?thesis by (simp add: start_ok_def ex_if_def ex_filter_def filter_ok_def)
qed

lemma ex_packets_ok: "packet_event ex_big" "packet_event ex_small"
  by (simp_all add: ex_big_def ex_small_def packet_event_def packet_ok_def pkt_wf_def packet_bytes_def)

lemma ex_events_ok: "events_ok ex_events (bpf_start 64 ex_if ex_filter False 2)"
proof -
  have "list_all packet_event ex_events" by (simp add: ex_events_def ex_packets_ok) (simp add: packet_event_def)
  moreover have "calm_run ex_events (bpf_start 64 ex_if ex_filter False 2)" by code_simp
  ultimately show ?thesis by (simp add: events_ok_def)
qed


theorem bpf_delivers_witness:
  "\<exists>s held stored. bpf_run ex_events (bpf_start 64 ex_if ex_filter False 2) = Some s \<and> bd_inv (sys_d s) held stored \<and>
    concat (map (\<lambda>(t, error, b). bpf_records b 0) (sys_out s)) @ (if R_copied \<in> set (sys_rd s) then [] else held) @ stored =
      all_taken ex_events (bpf_start 64 ex_if ex_filter False 2)"
proof (rule bpf_delivers [OF ex_start_ok ex_events_ok])
  show "Ev_flush \<notin> set ex_events" by (simp add: ex_events_def ex_big_def ex_small_def)
qed



text \<open>C25: The proviso is needed: for a program of no instructions at a user address that is not null, \<^verbatim>\<open>bpf_setf\<close> reports
  success and installs it, with every command and on every descriptor, and running it on any packet reads outside the program.\<close>

theorem bpf_setf_empty:
  assumes "copyin 0 = Inr []"
  shows "\<exists>d'. bpf_setf maxinsns copyin False 0 cmd d = Some (0, d') \<and>
    bpf_filter stk (if cmd = BIOCSETWF then bd_wfilter d' else bd_rfilter d') p wirelen buflen = None"
proof -
  have "bpf_filter stk (Some []) p wirelen buflen = None" by (simp add: bpf_filter_def bpf_loop.simps)
  then show ?thesis using assms by (cases cmd) (simp_all add: bpf_setf_def bpf_validate_def reset_d_def Let_def)
qed

theorem bpf_setf_empty_witness:
  "\<exists>d'. bpf_setf 512 (\<lambda>n. if n = 0 then Inr [] else Inl EFAULT) False 0 BIOCSETF (bpfopen 64 1) = Some (0, d') \<and>
    bpf_filter (replicate 16 0) (bd_rfilter d') (Mbufs [[1, 2, 3]]) 3 0 = None"
  using bpf_setf_empty [of "\<lambda>n. if n = 0 then Inr [] else Inl EFAULT" 512 BIOCSETF "bpfopen 64 1" "replicate 16 0" "Mbufs [[1, 2, 3]]" 3 0]
  by simp

section \<open>What the conditions exclude\<close>

text \<open>
  A descriptor that has lost a buffer: nothing is held or free. It goes on storing packets; the read that rotates
  its buffers empties the store slot, and the next packet to be stored is copied to a null pointer.
\<close>

definition lost_buffer :: "bpf_d \<Rightarrow> capture list \<Rightarrow> bool" where
  "lost_buffer d stored \<longleftrightarrow> geometry d \<and> bd_hbuf d = None \<and> bd_fbuf d = None \<and>
     (\<exists>a. bd_sbuf d = Some a \<and> in_buf d a (bd_slen d) stored)"

lemma flush_finish_lost:
  assumes "bd_inv d held stored"
  shows "lost_buffer (bpfread_finish (reset_d d)) []"
proof -
  let ?d = "bpfread_finish (reset_d d)"
  from bd_inv_reset [OF assms] obtain a where a: "geometry (reset_d d)" "bd_sbuf (reset_d d) = Some a"
      "in_buf (reset_d d) a (bd_slen (reset_d d)) []" by (auto simp: bd_inv_def slots_def)
  then have "geometry ?d" "bd_sbuf ?d = Some a" "in_buf ?d a (bd_slen ?d) []"
    by (simp_all add: geometry_def in_buf_def hdr_len_def bpfread_finish_def)
  moreover have "bd_hbuf ?d = None" "bd_fbuf ?d = None" by (simp_all add: bpfread_finish_def reset_d_def Let_def)
  ultimately show ?thesis by (auto simp: lost_buffer_def)
qed

lemma finish_finish_lost:
  assumes "bd_inv d held stored"
  shows "lost_buffer (bpfread_finish (bpfread_finish d)) stored"
proof -
  let ?d = "bpfread_finish (bpfread_finish d)"
  from assms obtain a where a: "geometry d" "bd_sbuf d = Some a" "in_buf d a (bd_slen d) stored" by (auto simp: bd_inv_def slots_def)
  then have "geometry ?d" "bd_sbuf ?d = Some a" "in_buf ?d a (bd_slen ?d) stored"
    by (simp_all add: geometry_def in_buf_def hdr_len_def bpfread_finish_def)
  moreover have "bd_hbuf ?d = None" "bd_fbuf ?d = None" by (simp_all add: bpfread_finish_def)
  ultimately show ?thesis by (auto simp: lost_buffer_def)
qed

text \<open>What a packet does to such a descriptor, and to one whose store slot is empty.\<close>

lemma lost_catchpacket:
  fixes v :: "32 word" and tv :: "32 word \<times> 32 word"
  assumes lost: "lost_buffer d stored" and wf: "pkt_wf pkt pktlen"
  shows "\<exists>d'. catchpacket pkt pktlen v tv d = Some d' \<and> geometry d' \<and> bd_hbuf d' = None \<and> bd_fbuf d' = None \<and> bd_slen d' \<noteq> 0 \<and>
    bd_bufsize d' = bd_bufsize d \<and> bd_rfilter d' = bd_rfilter d \<and> bd_immediate d' = bd_immediate d"
proof -
  define c where "c = captured d pkt pktlen v tv"
  define off where "off = BPF_WORDALIGN (bd_slen d)"
  from lost obtain a old where d: "geometry d" "bd_hbuf d = None" "bd_fbuf d = None" "bd_sbuf d = Some a"
      "deref (bd_mem d) a = Some old" "length old = nat (bd_bufsize d)" "bd_slen d = end_of (hdr_len d) stored" "bd_slen d \<le> bd_bufsize d"
    by (auto simp: lost_buffer_def in_buf_def)
  have g: "18 \<le> hdr_len d" "bd_bufsize d mod 4 < 2 \<or> 20 \<le> hdr_len d" "0 < bd_bufsize d" using d(1) by (auto simp: geometry_def)
  note eq = catchpacket_eq [OF d(1) wf, of v tv, folded c_def off_def]
  note len = captured_length(2,4) [OF d(1) wf, of v tv, folded c_def]
  have pos: "0 \<le> bd_slen d" using d(7) end_of_nonneg [of "hdr_len d" stored] g(1) by simp
  then have off: "0 \<le> off" "off mod 4 = 0" using align_bounds [of "bd_slen d"] by (auto simp: off_def)
  show ?thesis
  proof (cases "no_room d c")
    case True
    then have "bd_slen d \<noteq> 0" using captured_length(1) [OF d(1) wf, of v tv, folded c_def] by (auto simp: no_room_def BPF_WORDALIGN_def)
    then show ?thesis using True d unfolding eq by (simp add: geometry_def hdr_len_def)
  next
    case False
    then have fits: "off + hdr_len d + int (length (c_data c)) \<le> int (length old)" using d(6) g(3) by (simp add: no_room_def off_def)
    have "int (length old) = bd_bufsize d" using d(6) g(3) by simp
    then have mod4: "length old mod 4 < 2 \<or> 20 \<le> hdr_len d" using g(2) by presburger
    from append_record [OF d(4,5) len off mod4 g(1) fits] obtain new where
      new: "do { e \<leftarrow> bpf_buffer_append_bytes (bd_sbuf d) (nat off) (hdr_bytes (cap_hdr (hdr_len d) c)) 20 d;
            cpfn pkt (bd_sbuf e) (nat (off + hdr_len d)) (length (c_data c)) e } = Some (d\<lparr>bd_mem := hstore a new (bd_mem d)\<rparr>)" by blast
    let ?e = "d\<lparr>bd_mem := hstore a new (bd_mem d), bd_slen := off + (hdr_len d + int (length (c_data c)))\<rparr>"
    have "catchpacket pkt pktlen v tv d = Some (if bd_immediate d \<or> bd_state d = BPF_TIMED_OUT then bpf_wakeup ?e else ?e)"
      unfolding eq Let_def by (simp only: False new prod.case if_False simp_thms bind.bind_lunit)
    then show ?thesis using d(1-3) g(1) off(1) by (simp add: geometry_def hdr_len_def bpf_wakeup_def)
  qed
qed

lemma empty_slot_catchpacket:
  assumes "geometry d" "pkt_wf pkt pktlen" "bd_sbuf d = None" "bd_slen d = 0"
  shows "catchpacket pkt pktlen v tv d = None"
proof -
  have "\<not> no_room d (captured d pkt pktlen v tv)"
    using captured_length(1) [OF assms(1,2), of v tv] assms(4) by (simp add: no_room_def BPF_WORDALIGN_def)
  then show ?thesis using assms by (simp add: catchpacket_eq [OF assms(1,2)] bpf_buffer_append_bytes_def bcopy_to_def)
qed

text \<open>A captured packet, a read and another captured packet, after a buffer was lost.\<close>

lemma lost_faults:
  assumes lost: "lost_buffer (sys_d s) stored" and imm: "bd_immediate (sys_d s)" and t: "reader_at t s = Some R_idle"
    and wf: "pkt_wf pkt pktlen" and v: "bpf_filter stk (bd_rfilter (sys_d s)) pkt pktlen buflen = Some v" "v \<noteq> 0"
  shows "\<exists>s'. bpf_run [Ev_packet stk pkt pktlen buflen now, Ev_read t (bd_bufsize (sys_d s)) pid nb] s = Some s' \<and>
    sys_out s' = sys_out s \<and> bd_sbuf (sys_d s') = None \<and> bpf_happens (Ev_packet stk pkt pktlen buflen now) s' = None"
proof -
  let ?d = "(sys_d s)\<lparr>bd_rcount := bd_rcount (sys_d s) + 1, bd_fcount := bd_fcount (sys_d s) + 1\<rparr>"
  have "lost_buffer ?d stored" using lost by (simp add: lost_buffer_def geometry_def in_buf_def hdr_len_def)
  from lost_catchpacket [OF this wf, of v now] obtain d where d: "catchpacket pkt pktlen v now ?d = Some d" "geometry d"
      "bd_hbuf d = None" "bd_fbuf d = None" "bd_slen d \<noteq> 0" "bd_bufsize d = bd_bufsize (sys_d s)" "bd_rfilter d = bd_rfilter (sys_d s)"
      "bd_immediate d" using imm by auto
  define e where "e = ROTATE_BUFFERS (d\<lparr>bd_pid := pid, bd_state := BPF_IDLE\<rparr>)"
  have e: "bd_sbuf e = None" "bd_rfilter e = bd_rfilter (sys_d s)" using d by (simp_all add: e_def ROTATE_BUFFERS_def)
  have "bpfread_enter (bd_bufsize (sys_d s)) pid nb d = Read_copy e"
    using d by (simp add: bpfread_enter_def bpfread_loop_def Let_def e_def)
  moreover have ev: "bpf_happens (Ev_packet stk pkt pktlen buflen now) s = Some (s\<lparr>sys_d := d\<rparr>)" using v d(1) by (simp add: bpf_offer_def)
  ultimately have "bpf_run [Ev_packet stk pkt pktlen buflen now, Ev_read t (bd_bufsize (sys_d s)) pid nb] s =
      Some (set_reader t R_copying (s\<lparr>sys_d := e\<rparr>))"
    using t unfolding bpf_run.simps ev bind.bind_lunit by (simp add: reader_at_def read_goes_def split: if_splits)
  moreover have "bpf_happens (Ev_packet stk pkt pktlen buflen now) (set_reader t R_copying (s\<lparr>sys_d := e\<rparr>)) = None"
  proof -
    let ?e = "e\<lparr>bd_rcount := bd_rcount e + 1, bd_fcount := bd_fcount e + 1\<rparr>"
    have "geometry ?e" "bd_sbuf ?e = None" "bd_slen ?e = 0"
      using d(2,4) by (simp_all add: e_def ROTATE_BUFFERS_def geometry_def hdr_len_def)
    then have "catchpacket pkt pktlen v now ?e = None" by (rule empty_slot_catchpacket [OF _ wf])
    then show ?thesis using v e(2) by (simp add: set_reader_def bpf_offer_def)
  qed
  ultimately show ?thesis using e(1) by (auto simp: set_reader_def)
qed

text \<open>C26: A flush while a reader has the hold buffer copied but not yet given back loses a buffer, because the reader frees what
  the hold slot contains by then, a null pointer. In immediate mode the machine then crashes on the second packet captured
  after it: the next read rotates the null pointer into the store slot, and the packet is copied there. This is so in every state
  the descriptor can be in at that point and for every packet the filter accepts.\<close>

theorem bpf_flush_race:
  assumes "bd_inv (sys_d s) held stored" "bd_immediate (sys_d s)" "reader_at t s = Some R_copied"
    and "pkt_wf pkt pktlen" "bpf_filter stk (bd_rfilter (sys_d s)) pkt pktlen buflen = Some v" "v \<noteq> 0"
  shows "\<exists>s'. bpf_run [Ev_flush, Ev_finish t, Ev_packet stk pkt pktlen buflen now, Ev_read t (bd_bufsize (sys_d s)) pid nb] s = Some s' \<and>
    bd_sbuf (sys_d s') = None \<and> bpf_happens (Ev_packet stk pkt pktlen buflen now) s' = None"
proof -
  let ?s = "set_reader t R_idle (s\<lparr>sys_d := bpfread_finish (reset_d (sys_d s))\<rparr>)"
  have t: "t < length (sys_rd s)" "sys_rd s ! t = R_copied" using assms(3) by (simp_all add: reader_at_Some)
  have r: "bpf_run (Ev_flush # Ev_finish t # es) s = bpf_run es ?s" for es using t by (simp add: reader_at_def set_reader_def)
  have d: "sys_d ?s = bpfread_finish (reset_d (sys_d s))" by (simp add: set_reader_def)
  have k: "bd_immediate (sys_d ?s)" "bd_rfilter (sys_d ?s) = bd_rfilter (sys_d s)" "bd_bufsize (sys_d ?s) = bd_bufsize (sys_d s)"
      "reader_at t ?s = Some R_idle"
    using assms(2) t by (simp_all add: set_reader_def reader_at_def bpfread_finish_def reset_d_def Let_def)
  have "lost_buffer (sys_d ?s) []" unfolding d by (rule flush_finish_lost [OF assms(1)])
  from lost_faults [OF this k(1,4) assms(4) _ assms(6), unfolded k(2,3), OF assms(5)] show ?thesis unfolding r by blast
qed

text \<open>C27: Two readers that copy at the same time both get the packets of the hold buffer, and then lose a buffer, the second
  one by freeing the null pointer the first one has left: in immediate mode the second packet captured after it is copied to a
  null pointer. It takes no more than a read of the full size that starts while another reader copies.\<close>

theorem bpf_readers_race:
  assumes "sys_inv s held stored" "bd_immediate (sys_d s)" "reader_at t s = Some R_copying" "reader_at u s = Some R_idle"
    and "pkt_wf pkt pktlen" "bpf_filter stk (bd_rfilter (sys_d s)) pkt pktlen buflen = Some v" "v \<noteq> 0"
  shows "\<exists>b s'. bpf_records b 0 = held \<and>
    bpf_run [Ev_read u (bd_bufsize (sys_d s)) pid nb, Ev_copy u err, Ev_copy t err', Ev_finish u, Ev_finish t,
      Ev_packet stk pkt pktlen buflen now, Ev_read t (bd_bufsize (sys_d s)) pid' nb'] s = Some s' \<and>
    sys_out s' = sys_out s @ [(u, err, b), (t, err', b)] \<and>
    bd_sbuf (sys_d s') = None \<and> bpf_happens (Ev_packet stk pkt pktlen buflen now) s' = None"
proof -
  have t: "t < length (sys_rd s)" "sys_rd s ! t = R_copying" "u < length (sys_rd s)" "sys_rd s ! u = R_idle"
    using assms(3,4) by (simp_all add: reader_at_Some)
  then have ne: "t \<noteq> u" by auto
  have "busy s" using t by (auto simp: busy_iff intro!: exI [of _ t])
  then have h: "bd_hbuf (sys_d s) \<noteq> None" and inv: "bd_inv (sys_d s) held stored" using assms(1) by (auto simp: sys_inv_def)
  define d where "d = (sys_d s)\<lparr>bd_pid := pid, bd_state := BPF_IDLE\<rparr>"
  have di: "bd_inv d held stored" "bd_hbuf d \<noteq> None" using inv h bd_inv_cong [of d "sys_d s"] by (simp_all add: d_def)
  from bpfread_copy_ok [OF this] obtain b where b: "bpfread_copy d = Some b" "bpf_records b 0 = held" by blast
  have enter: "bpfread_enter (bd_bufsize (sys_d s)) pid nb (sys_d s) = Read_copy d"
    using h by (simp add: bpfread_enter_def bpfread_loop_def Let_def d_def)
  define z where "z = s\<lparr>sys_out := sys_out s @ [(u, err, b), (t, err', b)], sys_d := bpfread_finish (bpfread_finish d),
    sys_rd := (sys_rd s)[u := R_idle, t := R_idle]\<rparr>"
  have r: "bpf_run (Ev_read u (bd_bufsize (sys_d s)) pid nb # Ev_copy u err # Ev_copy t err' # Ev_finish u # Ev_finish t # es) s = bpf_run es z" for es
    using t ne b(1) by (simp add: reader_at_def enter read_goes_def set_reader_def z_def list_update_swap)
  have k: "bd_immediate (sys_d z)" "bd_rfilter (sys_d z) = bd_rfilter (sys_d s)" "bd_bufsize (sys_d z) = bd_bufsize (sys_d s)"
      "reader_at t z = Some R_idle"
    using assms(2) t by (simp_all add: z_def reader_at_def bpfread_finish_def d_def)
  have "lost_buffer (sys_d z) stored" using finish_finish_lost [OF di(1)] by (simp add: z_def)
  from lost_faults [OF this k(1,4) assms(5) _ assms(7), unfolded k(2,3), OF assms(6), of now pid' nb'] obtain s' where s':
    "bpf_run [Ev_packet stk pkt pktlen buflen now, Ev_read t (bd_bufsize (sys_d s)) pid' nb'] z = Some s'" "sys_out s' = sys_out z"
    "bd_sbuf (sys_d s') = None" "bpf_happens (Ev_packet stk pkt pktlen buflen now) s' = None" by blast
  have "sys_out s' = sys_out s @ [(u, err, b), (t, err', b)]" unfolding s'(2) by (simp add: z_def)
  then show ?thesis unfolding r using b(2) s' by blast
qed

text \<open>The two packets that run over a buffer whose size is 3 modulo 4.\<close>

lemma leaves_19:
  assumes bp: "bd_bif d = Some bp" "bif_hdrlen bp = 18" and slot: "bd_sbuf d = Some a" "deref (bd_mem d) a = Some old"
    "int (length old) = bd_bufsize d" "bd_slen d = 0" and size: "39 \<le> bd_bufsize d" "bd_bufsize d \<le> 2 ^ 30"
    and pkt: "pkt_wf pkt n" "int (unat (min v n)) = bd_bufsize d - 37"
  shows "\<exists>d' new. catchpacket pkt n v tv d = Some d' \<and> bd_sbuf d' = Some a \<and> deref (bd_mem d') a = Some new \<and>
    length new = length old \<and> bd_slen d' = bd_bufsize d - 19 \<and>
    bd_bufsize d' = bd_bufsize d \<and> bd_bif d' = bd_bif d \<and> bd_rfilter d' = bd_rfilter d"
proof -
  define m where "m = min v n"
  have m: "int (unat m) = bd_bufsize d - 37" using pkt(2) by (simp only: m_def)
  have "int (unat m) < 2 ^ 30" using m size(2) by linarith
  then have small: "unat m < 2 ^ 30" by (metis of_nat_less_iff of_nat_numeral of_nat_power)
  then have "unat (18 + m) = 18 + unat m" by (simp add: unat_word_ariths)
  then have tot: "sint (18 + m) = bd_bufsize d - 19" using sint_eq_unat [of "18 + m"] m small by simp
  have "of_int (bd_bufsize d - 37) = m" using m by (metis of_int_of_nat_eq of_nat_unat ucast_id)
  then have cap: "word_of_int (bd_bufsize d) - 37 = m" by simp
  have le: "unat m \<le> length (packet_bytes pkt)" using pkt(1) by (simp add: m_def pkt_wf_def min_def word_le_nat_alt)
  have al: "BPF_WORDALIGN 0 = 0" by (simp add: BPF_WORDALIGN_def)
  let ?h = "\<lparr>bh_sec = fst tv, bh_usec = snd tv, bh_caplen = m, bh_datalen = n, bh_hdrlen = 18\<rparr>"
  let ?d = "d\<lparr>bd_mem := hstore a (patch 0 (hdr_bytes ?h) old) (bd_mem d)\<rparr>"
  have a: "a < length (bd_mem d)" using slot(2) by (simp add: deref_def split: if_splits)
  have one: "bpf_buffer_append_bytes (bd_sbuf d) 0 (hdr_bytes ?h) 20 d = Some ?d"
    using bcopy_to_patch [OF slot(2), of 0 "hdr_bytes ?h"] slot size by (simp add: bpf_buffer_append_bytes_def)
  have l: "length (patch 0 (hdr_bytes ?h) old) = length old" using slot(3) size by (intro length_patch) simp
  have two: "cpfn pkt (bd_sbuf ?d) 18 (unat m) ?d =
      Some (?d\<lparr>bd_mem := hstore a (patch 18 (take (unat m) (packet_bytes pkt)) (patch 0 (hdr_bytes ?h) old)) (bd_mem ?d)\<rparr>)"
    using cpfn_patch [of ?d a "patch 0 (hdr_bytes ?h) old" "unat m" pkt 18] slot a l le m size by (simp add: heap_simps)
  have "length (patch 18 (take (unat m) (packet_bytes pkt)) (patch 0 (hdr_bytes ?h) old)) = length old"
  proof -
    have "18 + unat m \<le> length old" using m slot(3) by linarith
    then show ?thesis using l le by (subst length_patch) auto
  qed
  then show ?thesis using one two a slot(1)
    by (simp add: catchpacket_def bp slot(4) al m_def [symmetric] tot cap size Let_def bpf_wakeup_def heap_simps)
qed

lemma overruns_19:
  assumes "bd_bif d = Some bp" "bif_hdrlen bp = 18" "bd_sbuf d = Some a" "deref (bd_mem d) a = Some old"
    "int (length old) = bd_bufsize d" "bd_slen d = bd_bufsize d - 19" "39 \<le> bd_bufsize d" "bd_bufsize d mod 4 = 3" "min v n = 1"
  shows "catchpacket pkt n v tv d = None"
proof -
  have "BPF_WORDALIGN (bd_bufsize d - 19) = bd_bufsize d - 19" unfolding BPF_WORDALIGN_def using assms(8) by presburger
  moreover have "\<not> nat (bd_bufsize d - 19) + 20 \<le> length old" using assms(5,7) by linarith
  ultimately show ?thesis
    using assms by (simp add: catchpacket_def Let_def bpf_buffer_append_bytes_def bcopy_to_def)
qed

text \<open>C28: The condition on the buffer size is needed, too, although \<^verbatim>\<open>BIOCSBLEN\<close> sets any size. With the header length of
  Ethernet, 18, and a buffer size of 3 modulo 4, a first packet that leaves 19 bytes behind it and a second one of
  which one byte is to be captured make \<^verbatim>\<open>catchpacket\<close> write past the buffer: it finds that 18 + 1 bytes fit and copies
  \<^verbatim>\<open>sizeof(struct bpf_hdr)\<close> = 20 bytes.\<close>

theorem bpf_header_overrun:
  assumes size: "bufsize mod 4 = 3" "39 \<le> bufsize" "bufsize \<le> 2 ^ 30" and hl: "unat (bif_hdrlen bp) = 18"
    and p: "pkt_wf pkt n" "bpf_filter stk f pkt n buflen = Some v" "int (unat (min v n)) = bufsize - 37"
    and q: "pkt_wf pkt' n'" "bpf_filter stk' f pkt' n' buflen' = Some v'" "min v' n' = 1"
  shows "\<exists>s. bpf_happens (Ev_packet stk pkt n buflen now) (bpf_start bufsize bp f imm k) = Some s \<and>
    bpf_happens (Ev_packet stk' pkt' n' buflen' now') s = None"
proof -
  let ?s = "bpf_start bufsize bp f imm k"
  let ?d = "(sys_d ?s)\<lparr>bd_rcount := bd_rcount (sys_d ?s) + 1, bd_fcount := bd_fcount (sys_d ?s) + 1\<rparr>"
  have h: "bif_hdrlen bp = 18" using hl by (simp add: word_unat_eq_iff)
  have nz: "v \<noteq> 0" "v' \<noteq> 0" using p(3) q(3) size(2) by (auto simp: min_def split: if_splits)
  have slot: "deref (bd_mem ?d) 1 = Some (replicate (nat bufsize) 0)" by (simp add: start_d deref_def)
  from leaves_19 [of ?d bp 1 "replicate (nat bufsize) 0" pkt n v now] obtain d new where d:
      "catchpacket pkt n v now ?d = Some d" "bd_sbuf d = Some 1" "deref (bd_mem d) 1 = Some new" "length new = nat bufsize"
      "bd_slen d = bufsize - 19" "bd_bufsize d = bufsize" "bd_bif d = Some bp" "bd_rfilter d = f"
    using slot h p size by (auto simp: start_d)
  have "catchpacket pkt' n' v' now' (d\<lparr>bd_rcount := bd_rcount d + 1, bd_fcount := bd_fcount d + 1\<rparr>) = None"
    by (rule overruns_19 [of _ bp 1 new]) (use d h q size in auto)
  then have "bpf_happens (Ev_packet stk' pkt' n' buflen' now') (?s\<lparr>sys_d := d\<rparr>) = None"
    using q(2) nz(2) d(8) by (simp add: bpf_offer_def)
  moreover have "bpf_happens (Ev_packet stk pkt n buflen now) ?s = Some (?s\<lparr>sys_d := d\<rparr>)"
    using p(2) nz(1) d(1) by (simp add: bpf_offer_def start_d)
  ultimately show ?thesis by blast
qed

text \<open>A descriptor in immediate mode that has captured a packet, and the first reader at its work.\<close>

lemma ex_run:
  assumes es: "list_all packet_event es" and run: "calm_run es (bpf_start 64 ex_if ex_filter True 2)"
    "map_option (\<lambda>s. (sys_rd s, bd_immediate (sys_d s), bd_bufsize (sys_d s), bd_rfilter (sys_d s)))
       (bpf_run es (bpf_start 64 ex_if ex_filter True 2)) = Some (rs, True, 64, ex_filter)"
  obtains s held stored where "bpf_run es (bpf_start 64 ex_if ex_filter True 2) = Some s" "sys_inv s held stored"
    "sys_rd s = rs" "bd_immediate (sys_d s)" "bd_bufsize (sys_d s) = 64" "bd_rfilter (sys_d s) = ex_filter"
proof -
  have "events_ok es (bpf_start 64 ex_if ex_filter True 2)" using es run(1) by (simp add: events_ok_def)
  from bpf_run_inv [OF start_inv [OF ex_start_ok] this] obtain s held stored where
    "bpf_run es (bpf_start 64 ex_if ex_filter True 2) = Some s" "sys_inv s held stored" by (auto simp: runs_def)
  then show thesis using run(2) that [of s held stored] by simp
qed

lemma ex_small_captured:
  "pkt_wf (Mbufs [[1, 2], [3, 4, 5]]) 5" "bpf_filter (replicate 16 0) ex_filter (Mbufs [[1, 2], [3, 4, 5]]) 5 0 = Some 20"
  "(20 :: 32 word) \<noteq> 0"
proof -
  show "pkt_wf (Mbufs [[1, 2], [3, 4, 5]]) 5" by (simp add: pkt_wf_def packet_bytes_def)
  show "bpf_filter (replicate 16 0) ex_filter (Mbufs [[1, 2], [3, 4, 5]]) 5 0 = Some 20" by code_simp
qed simp

theorem bpf_flush_race_witness:
  "\<exists>s s'. bpf_run [ex_small, Ev_read 0 64 9 False, Ev_copy 0 0] (bpf_start 64 ex_if ex_filter True 2) = Some s \<and>
    bpf_run [Ev_flush, Ev_finish 0, ex_small, Ev_read 0 64 9 False] s = Some s' \<and>
    bd_sbuf (sys_d s') = None \<and> bpf_happens ex_small s' = None"
proof -
  let ?es = "[ex_small, Ev_read 0 64 9 False, Ev_copy 0 0]" and ?s = "bpf_start 64 ex_if ex_filter True 2"
  have es: "list_all packet_event ?es" by (simp add: ex_packets_ok) (simp add: packet_event_def)
  have c: "calm_run ?es ?s" by code_simp
  have m: "map_option (\<lambda>s. (sys_rd s, bd_immediate (sys_d s), bd_bufsize (sys_d s), bd_rfilter (sys_d s))) (bpf_run ?es ?s) =
      Some ([R_copied, R_idle], True, 64, ex_filter)" by code_simp
  from ex_run [OF es c m] obtain s held stored where s: "bpf_run ?es ?s = Some s" "sys_inv s held stored"
    "sys_rd s = [R_copied, R_idle]" "bd_immediate (sys_d s)" "bd_bufsize (sys_d s) = 64" "bd_rfilter (sys_d s) = ex_filter" .
  have "bd_inv (sys_d s) held stored" "reader_at 0 s = Some R_copied" using s by (simp_all add: sys_inv_def reader_at_def)
  from bpf_flush_race [OF this(1) s(4) this(2) ex_small_captured(1) _ ex_small_captured(3), of "replicate 16 0" 0 "(7, 8)" 9 False, unfolded s(5,6), OF ex_small_captured(2)]
  show ?thesis using s(1) unfolding ex_small_def by blast
qed

theorem bpf_readers_race_witness:
  "\<exists>s b s'. bpf_run [ex_small, Ev_read 0 64 9 False] (bpf_start 64 ex_if ex_filter True 2) = Some s \<and>
    bpf_run [Ev_read 1 64 10 False, Ev_copy 1 0, Ev_copy 0 0, Ev_finish 1, Ev_finish 0, ex_small, Ev_read 0 64 9 False] s = Some s' \<and>
    sys_out s' = sys_out s @ [(1, 0, b), (0, 0, b)] \<and> bd_sbuf (sys_d s') = None \<and> bpf_happens ex_small s' = None"
proof -
  let ?es = "[ex_small, Ev_read 0 64 9 False]" and ?s = "bpf_start 64 ex_if ex_filter True 2"
  have es: "list_all packet_event ?es" by (simp add: ex_packets_ok) (simp add: packet_event_def)
  have c: "calm_run ?es ?s" by code_simp
  have m: "map_option (\<lambda>s. (sys_rd s, bd_immediate (sys_d s), bd_bufsize (sys_d s), bd_rfilter (sys_d s))) (bpf_run ?es ?s) =
      Some ([R_copying, R_idle], True, 64, ex_filter)" by code_simp
  from ex_run [OF es c m] obtain s held stored where s: "bpf_run ?es ?s = Some s" "sys_inv s held stored"
    "sys_rd s = [R_copying, R_idle]" "bd_immediate (sys_d s)" "bd_bufsize (sys_d s) = 64" "bd_rfilter (sys_d s) = ex_filter" .
  have "reader_at 0 s = Some R_copying" "reader_at 1 s = Some R_idle" using s by (simp_all add: reader_at_def)
  from bpf_readers_race [OF s(2,4) this ex_small_captured(1) _ ex_small_captured(3), of "replicate 16 0" 0 10 False 0 0 "(7, 8)" 9 False, unfolded s(5,6), OF ex_small_captured(2)]
  show ?thesis using s(1) unfolding ex_small_def by blast
qed

theorem bpf_header_overrun_witness:
  "\<exists>s. bpf_happens (Ev_packet (replicate 16 0) (Buffer [1, 2]) 2 2 (5, 6)) (bpf_start 39 ex_if None False 1) = Some s \<and>
    bpf_happens (Ev_packet (replicate 16 0) (Buffer [3]) 1 1 (7, 8)) s = None"
proof -
  have "bpf_filter (replicate 16 0) None (Buffer [1, 2]) 2 2 = Some (- 1)" "bpf_filter (replicate 16 0) None (Buffer [3]) 1 1 = Some (- 1)"
    by (simp_all add: bpf_filter_def)
  then show ?thesis
    using bpf_header_overrun [of 39 ex_if "Buffer [1, 2]" 2 "replicate 16 0" None 2 "- 1" "Buffer [3]" 1 "replicate 16 0" 1 "- 1" "(5, 6)" False 1 "(7, 8)"]
    by (simp add: ex_if_def pkt_wf_def packet_bytes_def)
qed

end
