(* ===== verification/Bitstring.thy ===== *)
theory Bitstring
  imports KPrelude
begin

text \<open>
  The bit strings of \<^verbatim>\<open>src/sys/sys/bitstring.h\<close>: arrays of bytes whose bits the macros test, set, clear
  and search. Positions are non-negative \<^verbatim>\<open>int\<close>s, here \<open>nat\<close>; the shifts of the \<^verbatim>\<open>int\<close> 0xff only reach the
  array through a byte, so they are shifts of a byte. An access outside the array is a fault.

  The interface \<open>bitstring\<close> says what the macros do to the sequence of bits; it is interpreted on them.
\<close>

type_synonym bitstr = "8 word list"

section \<open>The macros\<close>

definition bit_get :: "bitstr \<Rightarrow> nat \<Rightarrow> 8 word option" where
  "bit_get name i = (if i < length name then Some (name ! i) else None)"

definition bit_put :: "bitstr \<Rightarrow> nat \<Rightarrow> 8 word \<Rightarrow> bitstr option" where
  "bit_put name i v = (if i < length name then Some (name[i := v]) else None)"

definition bit_byte :: "nat \<Rightarrow> nat" where
  "bit_byte n = drop_bit 3 n"

definition bit_mask :: "nat \<Rightarrow> 8 word" where
  "bit_mask n = push_bit (n AND 7) 1"

definition bit_test :: "bitstr \<Rightarrow> nat \<Rightarrow> bool option" where
  "bit_test name n = do { b \<leftarrow> bit_get name (bit_byte n); Some (b AND bit_mask n \<noteq> 0) }"

definition bit_set :: "bitstr \<Rightarrow> nat \<Rightarrow> bitstr option" where
  "bit_set name n = do { b \<leftarrow> bit_get name (bit_byte n); bit_put name (bit_byte n) (b OR bit_mask n) }"

definition bit_clear :: "bitstr \<Rightarrow> nat \<Rightarrow> bitstr option" where
  "bit_clear name n = do { b \<leftarrow> bit_get name (bit_byte n); bit_put name (bit_byte n) (b AND NOT (bit_mask n)) }"

text \<open>The loop that writes the bytes strictly between the first and the last.\<close>

function bit_fill :: "8 word \<Rightarrow> nat \<Rightarrow> nat \<Rightarrow> bitstr \<Rightarrow> bitstr option" where
  "bit_fill v i stopbyte name =
     (let i = i + 1 in
      if i < stopbyte then do { name \<leftarrow> bit_put name i v; bit_fill v i stopbyte name } else Some name)"
  by pat_completeness auto
termination
  by (relation "measure (\<lambda>(v, i, stop, name). stop - i)") auto

declare bit_fill.simps [simp del]

definition bit_nclear :: "bitstr \<Rightarrow> nat \<Rightarrow> nat \<Rightarrow> bitstr option" where
  "bit_nclear name start stop =
     (let startbyte = bit_byte start; stopbyte = bit_byte stop;
          lower = drop_bit (8 - (start AND 7)) 0xff; upper = push_bit ((stop AND 7) + 1) 0xff in
      if startbyte = stopbyte then
        do { b \<leftarrow> bit_get name startbyte; bit_put name startbyte (b AND (lower OR upper)) }
      else
        do { b \<leftarrow> bit_get name startbyte;
             name \<leftarrow> bit_put name startbyte (b AND lower);
             name \<leftarrow> bit_fill 0 startbyte stopbyte name;
             b \<leftarrow> bit_get name stopbyte;
             bit_put name stopbyte (b AND upper) })"

definition bit_nset :: "bitstr \<Rightarrow> nat \<Rightarrow> nat \<Rightarrow> bitstr option" where
  "bit_nset name start stop =
     (let startbyte = bit_byte start; stopbyte = bit_byte stop;
          upper = push_bit (start AND 7) 0xff; lower = drop_bit (7 - (stop AND 7)) 0xff in
      if startbyte = stopbyte then
        do { b \<leftarrow> bit_get name startbyte; bit_put name startbyte (b OR (upper AND lower)) }
      else
        do { b \<leftarrow> bit_get name startbyte;
             name \<leftarrow> bit_put name startbyte (b OR upper);
             name \<leftarrow> bit_fill 0xff startbyte stopbyte name;
             b \<leftarrow> bit_get name stopbyte;
             bit_put name stopbyte (b OR lower) })"

text \<open>\<^verbatim>\<open>bit_ffc\<close>: the loop over the bits of a byte, the loop over the bytes, the result.\<close>

function ffc_byte :: "8 word \<Rightarrow> int \<Rightarrow> int" where
  "ffc_byte lb v = (if lb AND 1 \<noteq> 0 then ffc_byte (drop_bit 1 lb) (v + 1) else v)"
  by pat_completeness auto
termination
proof (relation "measure (\<lambda>(lb, v). unat lb)")
  fix lb :: "8 word" and v :: int
  assume "lb AND 1 \<noteq> 0"
  then have "unat lb \<noteq> 0" by (auto simp: unat_eq_zero)
  then show "((drop_bit 1 lb, v + 1), lb, v) \<in> measure (\<lambda>(lb, v). unat lb)"
    by (simp add: drop_bit_eq_div unat_div)
qed simp

declare ffc_byte.simps [simp del]

function ffc_scan :: "bitstr \<Rightarrow> nat \<Rightarrow> nat \<Rightarrow> int option" where
  "ffc_scan name i stopbyte =
     (if i \<le> stopbyte then
        do { b \<leftarrow> bit_get name i;
             if b \<noteq> 0xff then Some (ffc_byte b (int (push_bit 3 i))) else ffc_scan name (i + 1) stopbyte }
      else Some (- 1))"
  by pat_completeness auto
termination
  by (relation "measure (\<lambda>(name, i, stop). Suc stop - i)") auto

declare ffc_scan.simps [simp del]

definition bit_ffc :: "bitstr \<Rightarrow> nat \<Rightarrow> int option" where
  "bit_ffc name nbits =
     do { v \<leftarrow> (if nbits > 0 then ffc_scan name 0 (bit_byte (nbits - 1)) else Some (- 1));
          Some (if v \<ge> int nbits then - 1 else v) }"

section \<open>The interface\<close>

locale bitstring =
  fixes view :: "'s \<Rightarrow> bool list"
    and test :: "'s \<Rightarrow> nat \<Rightarrow> bool option"
    and set1 :: "'s \<Rightarrow> nat \<Rightarrow> 's option"
    and clear1 :: "'s \<Rightarrow> nat \<Rightarrow> 's option"
    and nset :: "'s \<Rightarrow> nat \<Rightarrow> nat \<Rightarrow> 's option"
    and nclear :: "'s \<Rightarrow> nat \<Rightarrow> nat \<Rightarrow> 's option"
    and ffc :: "'s \<Rightarrow> nat \<Rightarrow> int option"
  assumes test: "i < length (view s) \<Longrightarrow> test s i = Some (view s ! i)"
    and set1: "i < length (view s) \<Longrightarrow> runs (set1 s i) (\<lambda>t. view t = (view s)[i := True])"
    and clear1: "i < length (view s) \<Longrightarrow> runs (clear1 s i) (\<lambda>t. view t = (view s)[i := False])"
    and nset: "a \<le> b \<Longrightarrow> b < length (view s) \<Longrightarrow>
      runs (nset s a b) (\<lambda>t. view t = take a (view s) @ replicate (Suc b - a) True @ drop (Suc b) (view s))"
    and nclear: "a \<le> b \<Longrightarrow> b < length (view s) \<Longrightarrow>
      runs (nclear s a b) (\<lambda>t. view t = take a (view s) @ replicate (Suc b - a) False @ drop (Suc b) (view s))"
    and ffc: "n \<le> length (view s) \<Longrightarrow>
      ffc s n = Some (let i = length (takeWhile id (view s)) in if i < n then int i else - 1)"
begin

text \<open>The operations as extensions of a prefix that has been written.\<close>

lemma set1_prefix:
  assumes "i < length (view s)"
  shows "runs (set1 s i) (\<lambda>t. length (view t) = length (view s) \<and> take (Suc i) (view t) = take i (view s) @ [True])"
  using assms by (rule runs_weaken [OF set1]) (simp add: assms take_Suc_conv_app_nth)

lemma clear1_prefix:
  assumes "i < length (view s)"
  shows "runs (clear1 s i) (\<lambda>t. length (view t) = length (view s) \<and> take (Suc i) (view t) = take i (view s) @ [False])"
  using assms by (rule runs_weaken [OF clear1]) (simp add: assms take_Suc_conv_app_nth)

lemma nset_prefix:
  assumes "0 < n" "a + n \<le> length (view s)"
  shows "runs (nset s a (a + n - 1))
    (\<lambda>t. length (view t) = length (view s) \<and> take (a + n) (view t) = take a (view s) @ replicate n True)"
  by (rule runs_weaken [OF nset]) (use assms in auto)

lemma nclear_prefix:
  assumes "0 < n" "a + n \<le> length (view s)"
  shows "runs (nclear s a (a + n - 1))
    (\<lambda>t. length (view t) = length (view s) \<and> take (a + n) (view t) = take a (view s) @ replicate n False)"
  by (rule runs_weaken [OF nclear]) (use assms in auto)

end

section \<open>The macros meet the interface\<close>

definition bits_of :: "bitstr \<Rightarrow> bool list" where
  "bits_of name = map (\<lambda>n. bit (name ! (n div 8)) (n mod 8)) [0..<8 * length name]"

lemma length_bits_of [simp]: "length (bits_of name) = 8 * length name"
  by (simp add: bits_of_def)

lemma nth_bits_of [simp]: "n < 8 * length name \<Longrightarrow> bits_of name ! n = bit (name ! (n div 8)) (n mod 8)"
  by (simp add: bits_of_def)

lemma bit_byte_eq [simp]: "bit_byte n = n div 8"
  by (simp add: bit_byte_def drop_bit_eq_div)

lemma and7 [simp]: "n AND 7 = n mod (8 :: nat)"
proof -
  have "(7 :: nat) = mask 3" by (simp add: mask_eq_exp_minus_1)
  then show ?thesis by (metis take_bit_eq_mask take_bit_eq_mod numeral_eq_Suc power3_eq_cube numeral_times_numeral semiring_norm(11-13) mult.commute)
qed

lemma bit_ff [simp]:
  "bit (push_bit n (0xff :: 8 word)) i \<longleftrightarrow> n \<le> i \<and> i < 8" "bit (drop_bit n (0xff :: 8 word)) i \<longleftrightarrow> i + n < 8"
proof -
  have ff: "(0xff :: 8 word) = - 1" by simp
  show "bit (push_bit n (0xff :: 8 word)) i \<longleftrightarrow> n \<le> i \<and> i < 8" "bit (drop_bit n (0xff :: 8 word)) i \<longleftrightarrow> i + n < 8"
    unfolding ff bit_push_bit_iff bit_drop_bit_eq comp_def by (auto simp: bit_minus_1_iff)
qed

lemma bit_255 [simp]: "i < 8 \<Longrightarrow> bit (255 :: int) i"
proof -
  have "(255 :: int) = mask 8" by (simp add: mask_eq_exp_minus_1)
  then show "i < 8 \<Longrightarrow> bit (255 :: int) i" by (simp only: bit_mask_iff) simp
qed

lemma bit_mask_bit [simp]: "bit (bit_mask n) i \<longleftrightarrow> i = n mod 8"
  by (auto simp: bit_mask_def bit_exp_iff)

lemma and_bit_mask: "b AND bit_mask n \<noteq> 0 \<longleftrightarrow> bit b (n mod 8)"
proof
  assume "bit b (n mod 8)"
  then have "bit (b AND bit_mask n) (n mod 8)" by (simp add: bit_and_iff)
  then show "b AND bit_mask n \<noteq> 0" by auto
next
  assume "b AND bit_mask n \<noteq> 0"
  then obtain i where "bit (b AND bit_mask n) i" using bit_word_eqI [of "b AND bit_mask n" 0] by auto
  then show "bit b (n mod 8)" by (auto simp: bit_and_iff)
qed

lemma bits_of_eqI:
  assumes "length t = length s" "length r = 8 * length s"
    and "\<And>j i. j < length s \<Longrightarrow> i < 8 \<Longrightarrow> bit (t ! j) i = r ! (8 * j + i)"
  shows "bits_of t = r"
proof (rule nth_equalityI)
  fix n assume "n < length (bits_of t)"
  then have n: "n < 8 * length s" using assms(1) by simp
  then have "bit (t ! (n div 8)) (n mod 8) = r ! (8 * (n div 8) + n mod 8)" by (intro assms(3)) auto
  then show "bits_of t ! n = r ! n" using n assms(1) by simp
qed (use assms in simp)

lemma bit_update_ok:
  assumes "n < 8 * length name"
  shows "runs (bit_set name n) (\<lambda>t. bits_of t = (bits_of name)[n := True])"
    and "runs (bit_clear name n) (\<lambda>t. bits_of t = (bits_of name)[n := False])"
proof -
  have n: "n div 8 < length name" using assms by auto
  have same: "n = 8 * j + i \<longleftrightarrow> j = n div 8 \<and> i = n mod 8" if "i < 8" for j i using that by auto
  show "runs (bit_set name n) (\<lambda>t. bits_of t = (bits_of name)[n := True])"
    using n by (auto simp: bit_set_def bit_get_def bit_put_def nth_list_update same bit_or_iff
        intro!: bits_of_eqI [where s = name] split: if_split_asm)
  show "runs (bit_clear name n) (\<lambda>t. bits_of t = (bits_of name)[n := False])"
    using n by (auto simp: bit_clear_def bit_get_def bit_put_def nth_list_update same bit_and_iff bit_not_iff
        intro!: bits_of_eqI [where s = name] split: if_split_asm)
qed

lemma bit_fill_ok:
  assumes "stop \<le> length name"
  shows "runs (bit_fill v i stop name)
    (\<lambda>t. length t = length name \<and> (\<forall>j. t ! j = (if i < j \<and> j < stop then v else name ! j)))"
  using assms
proof (induction v i stop name rule: bit_fill.induct)
  case (1 v i stop name)
  show ?case
  proof (cases "i + 1 < stop")
    case True
    then have "runs (bit_fill v (i + 1) stop (name[i + 1 := v]))
      (\<lambda>t. length t = length (name[i + 1 := v]) \<and> (\<forall>j. t ! j = (if i + 1 < j \<and> j < stop then v else name[i + 1 := v] ! j)))"
      by (rule 1(1) [OF refl]) (use True 1(2) in \<open>auto simp: bit_put_def\<close>)
    then show ?thesis using True 1(2)
      by (subst bit_fill.simps) (auto simp: Let_def bit_put_def nth_list_update elim!: runs_weaken)
  next
    case False
    then show ?thesis by (subst bit_fill.simps) (auto simp: Let_def)
  qed
qed

text \<open>What is left to compare: a byte between, at the ends of or outside the range.\<close>

lemma range_byte:
  assumes "i < 8" "a \<le> b"
  shows "a \<le> 8 * j + i \<longleftrightarrow> a div 8 < j \<or> a div 8 = j \<and> a mod 8 \<le> i"
    and "8 * j + i \<le> b \<longleftrightarrow> j < b div 8 \<or> j = b div 8 \<and> i \<le> b mod (8 :: nat)"
proof -
  have "a = 8 * (a div 8) + a mod 8" "b = 8 * (b div 8) + b mod 8" "a mod 8 < 8" "b mod 8 < 8" by simp_all
  then show "a \<le> 8 * j + i \<longleftrightarrow> a div 8 < j \<or> a div 8 = j \<and> a mod 8 \<le> i"
    "8 * j + i \<le> b \<longleftrightarrow> j < b div 8 \<or> j = b div 8 \<and> i \<le> b mod (8 :: nat)" using assms by linarith+
qed

lemma range_nth:
  assumes "a \<le> b" "b < length xs" "n < length xs"
  shows "(take a xs @ replicate (Suc b - a) v @ drop (Suc b) xs) ! n = (if a \<le> n \<and> n \<le> b then v else xs ! n)"
  using assms by (auto simp: nth_append)

lemma bit_range_ok:
  assumes "a \<le> b" "b < 8 * length name" "length t = length name"
    and "\<And>j i. j < length name \<Longrightarrow> i < 8 \<Longrightarrow> bit (t ! j) i = (if a \<le> 8 * j + i \<and> 8 * j + i \<le> b then v else bit (name ! j) i)"
  shows "bits_of t = take a (bits_of name) @ replicate (Suc b - a) v @ drop (Suc b) (bits_of name)"
proof (rule bits_of_eqI [OF assms(3)])
  show "length (take a (bits_of name) @ replicate (Suc b - a) v @ drop (Suc b) (bits_of name)) = 8 * length name"
    using assms(1,2) by simp
  fix j i :: nat assume ji: "j < length name" "i < 8"
  then have "8 * j + i < 8 * length name" "bits_of name ! (8 * j + i) = bit (name ! j) i" by auto
  then show "bit (t ! j) i = (take a (bits_of name) @ replicate (Suc b - a) v @ drop (Suc b) (bits_of name)) ! (8 * j + i)"
    using assms(1,2) assms(4) [OF ji] by (subst range_nth) auto
qed

lemma full_byte: "(\<forall>i<8. bit (b :: 8 word) i) \<longleftrightarrow> b = 0xff"
proof
  assume "\<forall>i<8. bit b i"
  then have "b = - 1" by (intro bit_word_eqI) (simp add: bit_minus_1_iff)
  then show "b = 0xff" by simp
next
  assume "b = 0xff"
  then show "\<forall>i<8. bit b i" by simp
qed

lemma bit_nset_ok:
  assumes "a \<le> b" "b < 8 * length name"
  shows "runs (bit_nset name a b) (\<lambda>t. bits_of t = take a (bits_of name) @ replicate (Suc b - a) True @ drop (Suc b) (bits_of name))"
proof -
  define upper lower where ul: "upper = push_bit (a mod 8) (0xff :: 8 word)" "lower = drop_bit (7 - b mod 8) (0xff :: 8 word)"
  have bits: "bit upper i \<longleftrightarrow> a mod 8 \<le> i" "bit lower i \<longleftrightarrow> i \<le> b mod 8" "bit (0xff :: 8 word) i" if "i < 8" for i
    using that by (auto simp: ul)
  note nset = bit_nset_def bit_byte_eq and7 ul [symmetric] bit_get_def bit_put_def Let_def
  show ?thesis
  proof (cases "a div 8 = b div 8")
    case True
    have "bits_of (name[b div 8 := name ! (b div 8) OR (upper AND lower)]) =
      take a (bits_of name) @ replicate (Suc b - a) True @ drop (Suc b) (bits_of name)"
      using assms True by (intro bit_range_ok) (auto simp: nth_list_update bit_or_iff bit_and_iff range_byte bits split: if_splits)
    then show ?thesis using True assms unfolding nset by auto
  next
    case False
    then have ends: "a div 8 < b div 8" "b div 8 < length name" using assms div_le_mono [OF assms(1), of 8] by auto
    let ?name = "name[a div 8 := name ! (a div 8) OR upper]"
    obtain t where t: "bit_fill 0xff (a div 8) (b div 8) ?name = Some t" "length t = length name"
      "\<And>j. t ! j = (if a div 8 < j \<and> j < b div 8 then 0xff else ?name ! j)"
      using bit_fill_ok [of "b div 8" ?name "0xff" "a div 8"] ends by (auto simp: runs_def)
    have "bits_of (t[b div 8 := t ! (b div 8) OR lower]) =
      take a (bits_of name) @ replicate (Suc b - a) True @ drop (Suc b) (bits_of name)"
      using ends assms t(2)
      by (intro bit_range_ok) (auto simp: t(3) nth_list_update bit_or_iff range_byte bits split: if_splits)
    then show ?thesis using False ends t(1,2) unfolding nset by simp
  qed
qed

lemma bit_nclear_ok:
  assumes "a \<le> b" "b < 8 * length name"
  shows "runs (bit_nclear name a b) (\<lambda>t. bits_of t = take a (bits_of name) @ replicate (Suc b - a) False @ drop (Suc b) (bits_of name))"
proof -
  define upper lower where ul: "upper = push_bit (b mod 8 + 1) (0xff :: 8 word)" "lower = drop_bit (8 - a mod 8) (0xff :: 8 word)"
  have bits: "bit upper i \<longleftrightarrow> b mod 8 < i" "bit lower i \<longleftrightarrow> i < a mod 8" if "i < 8" for i
    using that unfolding ul bit_ff by auto
  note nclear = bit_nclear_def bit_byte_eq and7 ul [symmetric] bit_get_def bit_put_def Let_def
  show ?thesis
  proof (cases "a div 8 = b div 8")
    case True
    have "bits_of (name[b div 8 := name ! (b div 8) AND (lower OR upper)]) =
      take a (bits_of name) @ replicate (Suc b - a) False @ drop (Suc b) (bits_of name)"
      using assms True by (intro bit_range_ok) (auto simp: nth_list_update bit_or_iff bit_and_iff range_byte bits split: if_splits)
    then show ?thesis using True assms unfolding nclear by auto
  next
    case False
    then have ends: "a div 8 < b div 8" "b div 8 < length name" using assms div_le_mono [OF assms(1), of 8] by auto
    let ?name = "name[a div 8 := name ! (a div 8) AND lower]"
    obtain t where t: "bit_fill 0 (a div 8) (b div 8) ?name = Some t" "length t = length name"
      "\<And>j. t ! j = (if a div 8 < j \<and> j < b div 8 then 0 else ?name ! j)"
      using bit_fill_ok [of "b div 8" ?name "0" "a div 8"] ends by (auto simp: runs_def)
    have "bits_of (t[b div 8 := t ! (b div 8) AND upper]) =
      take a (bits_of name) @ replicate (Suc b - a) False @ drop (Suc b) (bits_of name)"
      using ends assms t(2)
      by (intro bit_range_ok) (auto simp: t(3) nth_list_update bit_and_iff range_byte bits split: if_splits)
    then show ?thesis using False ends t(1,2) unfolding nclear by simp
  qed
qed

lemma ffc_byte_ok: "\<exists>n. ffc_byte lb v = v + int n \<and> (\<forall>i<n. bit lb i) \<and> \<not> bit lb n"
proof (induction lb v rule: ffc_byte.induct)
  case (1 lb v)
  have odd: "lb AND 1 \<noteq> 0 \<longleftrightarrow> bit lb 0" using and_bit_mask [of lb 0] by (simp add: bit_mask_def)
  show ?case
  proof (cases "bit lb 0")
    case True
    then obtain n where n: "ffc_byte (drop_bit 1 lb) (v + 1) = v + 1 + int n" "\<forall>i<n. bit lb (Suc i)" "\<not> bit lb (Suc n)"
      using 1 odd by (auto simp: bit_drop_bit_eq)
    then have "ffc_byte lb v = v + int (Suc n)" using True odd by (subst ffc_byte.simps) simp
    moreover have "\<forall>i<Suc n. bit lb i" using n(2) True by (auto simp: less_Suc_eq_0_disj)
    ultimately show ?thesis using n(3) by blast
  next
    case False
    then have "ffc_byte lb v = v + int 0" using odd by (subst ffc_byte.simps) simp
    with False show ?thesis by blast
  qed
qed


definition first_clear :: "nat \<Rightarrow> bool list \<Rightarrow> int" where
  "first_clear n bs = (let i = length (takeWhile id bs) in if i < n then int i else - 1)"

lemma first_clearI: "i < n \<Longrightarrow> n \<le> length bs \<Longrightarrow> \<forall>j<i. bs ! j \<Longrightarrow> \<not> bs ! i \<Longrightarrow> first_clear n bs = int i"
  by (simp add: first_clear_def takeWhile_eq_take_P_nth [where n = i])

lemma first_clear_full: "n \<le> length bs \<Longrightarrow> \<forall>j<n. bs ! j \<Longrightarrow> first_clear n bs = - 1"
  using nth_length_takeWhile [of id bs] by (auto simp: first_clear_def Let_def)

lemma ffc_scan_ok:
  assumes "stop < length name" "i \<le> Suc stop" "\<forall>n<8 * i. bits_of name ! n"
  shows "ffc_scan name i stop = Some (first_clear (8 * Suc stop) (bits_of name))"
  using assms
proof (induction name i stop rule: ffc_scan.induct)
  case (1 name i stop)
  show ?case
  proof (cases "i \<le> stop")
    case True
    then have i: "i < length name" using 1 by simp
    obtain n where n: "ffc_byte (name ! i) (int (8 * i)) = int (8 * i) + int n" "\<forall>j<n. bit (name ! i) j" "\<not> bit (name ! i) n"
      using ffc_byte_ok by blast
    have byte: "bits_of name ! (8 * i + j) = bit (name ! i) j" if "j < 8" for j using i that by auto
    show ?thesis
    proof (cases "name ! i = 0xff")
      case True
      have "bits_of name ! m" if "m < 8 * (i + 1)" for m
      proof (cases "m < 8 * i")
        case False
        then have "bit (name ! i) (m - 8 * i)" "m - 8 * i < 8" using True full_byte that by auto
        then show ?thesis using byte [of "m - 8 * i"] False by simp
      qed (use 1 in simp)
      then show ?thesis using 1 \<open>i \<le> stop\<close> True i by (subst ffc_scan.simps) (simp add: bit_get_def)
    next
      case False
      then have n8: "n < 8" using n(2) full_byte by (metis linorder_not_less order_less_le_trans)
      have all: "bits_of name ! m" if "m < 8 * i + n" for m
      proof (cases "m < 8 * i")
        case False
        then show ?thesis using byte [of "m - 8 * i"] n(2) n8 that by auto
      qed (use 1 in simp)
      have "first_clear (8 * Suc stop) (bits_of name) = int (8 * i + n)"
        by (rule first_clearI) (use n8 True 1(2) all n(3) byte in auto)
      then show ?thesis using True False i n(1)
        by (subst ffc_scan.simps) (simp add: bit_get_def push_bit_eq_mult mult.commute)
    qed
  next
    case False
    then have "i = Suc stop" using 1 by simp
    then have "first_clear (8 * Suc stop) (bits_of name) = - 1" using 1 by (intro first_clear_full) auto
    then show ?thesis using False by (subst ffc_scan.simps) simp
  qed
qed

lemma bit_ffc_ok:
  assumes "n \<le> 8 * length name"
  shows "bit_ffc name n = Some (first_clear n (bits_of name))"
proof (cases "n = 0")
  case False
  let ?N = "8 * Suc ((n - 1) div 8)"
  have N: "n \<le> ?N" "?N \<le> 8 * length name" using False assms by (presburger, presburger)
  have "first_clear n (bits_of name) = (if first_clear ?N (bits_of name) \<ge> int n then - 1 else first_clear ?N (bits_of name))"
    using N by (auto simp: first_clear_def Let_def)
  moreover have "ffc_scan name 0 ((n - 1) div 8) = Some (first_clear ?N (bits_of name))"
    by (rule ffc_scan_ok) (use N in auto)
  ultimately show ?thesis using False by (simp add: bit_ffc_def)
qed (simp add: bit_ffc_def first_clear_def)

interpretation bs: bitstring bits_of bit_test bit_set bit_clear bit_nset bit_nclear bit_ffc
proof
  show "i < length (bits_of s) \<Longrightarrow> bit_test s i = Some (bits_of s ! i)" for i s
    by (simp add: bit_test_def bit_get_def and_bit_mask less_mult_imp_div_less mult.commute)
qed (simp_all add: bit_update_ok bit_nset_ok bit_nclear_ok bit_ffc_ok first_clear_def)

end
