(* ===== verification/Unr.thy ===== *)
theory Unr
  imports Bitstring
begin

text \<open>
  The unit number allocator, \<^verbatim>\<open>src/sys/kern/subr_unit.c\<close>. A space of numbers from \<^verbatim>\<open>low\<close> to \<^verbatim>\<open>high\<close> is a run of
  \<^verbatim>\<open>first\<close> allocated numbers, a list of chunks, and a run of \<^verbatim>\<open>last\<close> free numbers; a chunk is a free run, an
  allocated run or a bitmap.

  The pointer \<^verbatim>\<open>ptr\<close> of a chunk is null, the header itself, or the bitmap only this chunk points to: it is a
  datatype. A pointer into the list is a position: the chunks before, the chunk, the chunks after. The list \<^verbatim>\<open>ppfree\<close>
  is only counted. The lengths of the runs are \<^verbatim>\<open>u_int\<close>s that add up to the size of the space, so they are naturals;
  the counters \<^verbatim>\<open>busy\<close> and \<^verbatim>\<open>alloc\<close> of the header, \<^verbatim>\<open>low\<close> and \<^verbatim>\<open>high\<close> keep their width. On i386 a chunk has 16
  bytes, so a bitmap has 15 bytes of bits.

  \<^verbatim>\<open>optimize_unr\<close> turns the memory of a chunk into a bitmap without clearing it: the argument \<open>stale\<close> says what
  15 bytes it finds there. Failed assertions and null pointers are faults.
\<close>

section \<open>Data\<close>

abbreviation (input) NBITS :: nat where "NBITS \<equiv> 120"

record unrb =
  ub_busy :: nat
  ub_map :: bitstr

datatype unr_ptr = Ptr_null | Ptr_uh | Ptr_map unrb

record unr =
  u_len :: nat
  u_ptr :: unr_ptr

record unrhdr =
  uh_head :: "unr list"
  uh_low :: "32 word"
  uh_high :: "32 word"
  uh_busy :: "32 word"
  uh_alloc :: "32 word"
  uh_first :: nat
  uh_last :: nat
  uh_ppfree :: nat

definition is_bitmap :: "unr \<Rightarrow> bool" where
  "is_bitmap up = (case u_ptr up of Ptr_map _ \<Rightarrow> True | _ \<Rightarrow> False)"

text \<open>\<^verbatim>\<open>up->ptr == upp->ptr\<close> for two chunks: bitmaps are not shared.\<close>

definition same_ptr :: "unr \<Rightarrow> unr \<Rightarrow> bool" where
  "same_ptr up upp =
     (case (u_ptr up, u_ptr upp) of (Ptr_null, Ptr_null) \<Rightarrow> True | (Ptr_uh, Ptr_uh) \<Rightarrow> True | _ \<Rightarrow> False)"

section \<open>The consistency check\<close>

text \<open>
  \<^verbatim>\<open>check_unrhdr\<close> as a function: whether all its assertions hold. \<open>None\<close> is a read outside a bitmap.
\<close>

fun check_count :: "bitstr \<Rightarrow> nat \<Rightarrow> nat \<Rightarrow> 32 word \<Rightarrow> 32 word option" where
  "check_count bm x 0 w = Some w"
| "check_count bm x (Suc n) w =
     do { b \<leftarrow> bit_test bm x; check_count bm (x + 1) n (if b then w + 1 else w) }"

fun check_loop :: "unr list \<Rightarrow> 32 word \<Rightarrow> 32 word \<Rightarrow> (bool \<times> 32 word \<times> 32 word) option" where
  "check_loop [] y z = Some (True, y, z)"
| "check_loop (up # us) y z =
     (let z = z + 1 in
      case u_ptr up of
        Ptr_map ub \<Rightarrow>
          if u_len up \<le> NBITS then
            do { w \<leftarrow> check_count (ub_map ub) 0 (u_len up) 0;
                 if w = of_nat (ub_busy ub) then check_loop us (y + w) (z + 1) else Some (False, y, z) }
          else Some (False, y, z)
      | Ptr_uh \<Rightarrow> check_loop us (y + of_nat (u_len up)) z
      | Ptr_null \<Rightarrow> check_loop us y z)"

definition check_unrhdr :: "unrhdr \<Rightarrow> bool option" where
  "check_unrhdr uh =
     do { (ok, y, z) \<leftarrow> check_loop (uh_head uh) (of_nat (uh_first uh)) 0;
          Some (ok \<and> y = uh_busy uh \<and> z = uh_alloc uh) }"

section \<open>Memory\<close>

text \<open>\<^verbatim>\<open>p1\<close> and \<^verbatim>\<open>p2\<close>: whether the chunk allocated in advance is still there.\<close>

definition new_unr :: "unrhdr \<Rightarrow> bool \<Rightarrow> bool \<Rightarrow> (unrhdr \<times> bool \<times> bool) option" where
  "new_unr uh p1 p2 =
     (let uh = uh\<lparr>uh_alloc := uh_alloc uh + 1\<rparr> in
      if \<not> p1 \<and> \<not> p2 then None
      else if p1 then Some (uh, False, p2) else Some (uh, p1, False))"

definition delete_unr :: "unrhdr \<Rightarrow> unrhdr" where
  "delete_unr uh = uh\<lparr>uh_alloc := uh_alloc uh - 1, uh_ppfree := uh_ppfree uh + 1\<rparr>"

definition clean_unrhdrl :: "unrhdr \<Rightarrow> unrhdr" where
  "clean_unrhdrl uh = uh\<lparr>uh_ppfree := 0\<rparr>"

definition new_unrhdr :: "32 word \<Rightarrow> 32 word \<Rightarrow> unrhdr option" where
  "new_unrhdr low high =
     (if sint low \<le> sint high then
        Some \<lparr>uh_head = [], uh_low = low, uh_high = high, uh_busy = 0, uh_alloc = 0, uh_first = 0,
              uh_last = unat (1 + (high - low)), uh_ppfree = 0\<rparr>
      else None)"

text \<open>The header can be freed: the assertions of \<^verbatim>\<open>delete_unrhdr\<close>.\<close>

definition delete_unrhdr :: "unrhdr \<Rightarrow> unit option" where
  "delete_unrhdr uh = assert_opt (uh_busy uh = 0 \<and> uh_alloc uh = 0 \<and> uh_ppfree uh = 0)"

section \<open>Bitmaps from runs\<close>

text \<open>The search: how many chunks of memory a bitmap starting here would replace, and the best start.\<close>

fun opt_extend :: "nat \<Rightarrow> nat \<Rightarrow> unr list \<Rightarrow> nat" where
  "opt_extend l a [] = a"
| "opt_extend l a (up # us) =
     (if u_len up + l > NBITS then a
      else opt_extend (l + u_len up) (a + 1 + (if is_bitmap up then 1 else 0)) us)"

fun opt_best :: "nat \<Rightarrow> nat \<Rightarrow> nat \<Rightarrow> unr list \<Rightarrow> nat \<times> nat" where
  "opt_best i ba us [] = (ba, us)"
| "opt_best i ba us (uf # rest) =
     (if u_len uf \<ge> NBITS then opt_best (i + 1) ba us rest
      else let a = opt_extend (u_len uf) (1 + (if is_bitmap uf then 1 else 0)) rest
           in if a > ba then opt_best (i + 1) a i rest else opt_best (i + 1) ba us rest)"

text \<open>The loop that copies \<open>n\<close> bits from \<open>l\<close> on to the end \<open>a\<close> of another bitmap.\<close>

fun opt_copy :: "bitstr \<Rightarrow> nat \<Rightarrow> nat \<Rightarrow> unrb \<Rightarrow> nat \<Rightarrow> (unrb \<times> nat) option" where
  "opt_copy src l 0 ub a = Some (ub, a)"
| "opt_copy src l (Suc n) ub a =
     do { b \<leftarrow> bit_test src l;
          ub \<leftarrow> (if b then do { m \<leftarrow> bit_set (ub_map ub) a; Some (ub\<lparr>ub_map := m, ub_busy := ub_busy ub + 1\<rparr>) }
                 else do { m \<leftarrow> bit_clear (ub_map ub) a; Some (ub\<lparr>ub_map := m\<rparr>) });
          opt_copy src (l + 1) n ub (a + 1) }"

text \<open>\<^verbatim>\<open>bit_nset\<close> or \<^verbatim>\<open>bit_nclear\<close> a run into a bitmap; the number of busy items grows by \<open>n\<close> in the first case.\<close>

definition opt_run :: "bool \<Rightarrow> nat \<Rightarrow> nat \<Rightarrow> nat \<Rightarrow> unrb \<Rightarrow> unrb option" where
  "opt_run allocated start stop n ub =
     (if allocated then do { m \<leftarrow> bit_nset (ub_map ub) start stop; Some (ub\<lparr>ub_map := m, ub_busy := ub_busy ub + n\<rparr>) }
      else do { m \<leftarrow> bit_nclear (ub_map ub) start stop; Some (ub\<lparr>ub_map := m\<rparr>) })"

text \<open>The run \<open>us\<close> becomes a bitmap that takes over its successor \<open>uf\<close>.\<close>

definition opt_first :: "bitstr \<Rightarrow> unr \<Rightarrow> unr \<Rightarrow> unrhdr \<Rightarrow> (unr \<times> unrhdr) option" where
  "opt_first stale us uf uh =
     do { let a = u_len us;
          ub \<leftarrow> opt_run (u_ptr us = Ptr_uh) 0 a a \<lparr>ub_busy = 0, ub_map = stale\<rparr>;
          case u_ptr uf of
            Ptr_map ubf \<Rightarrow>
              do { (ub, a) \<leftarrow> opt_copy (ub_map ubf) 0 (u_len uf) ub a;
                   Some (uf\<lparr>u_len := a, u_ptr := Ptr_map ub\<rparr>, delete_unr uh) }
          | p \<Rightarrow>
              do { ub \<leftarrow> opt_run (p = Ptr_uh) a (a + u_len uf - 1) (u_len uf) ub;
                   Some (uf\<lparr>u_len := u_len uf + a, u_ptr := Ptr_map ub\<rparr>, uh) } }"

text \<open>The last loop: the bitmap takes over its successors as long as they fit.\<close>

fun opt_absorb :: "nat \<Rightarrow> unrb \<Rightarrow> unr list \<Rightarrow> unrhdr \<Rightarrow> (nat \<times> unrb \<times> unr list \<times> unrhdr) option" where
  "opt_absorb ulen ub [] uh = Some (ulen, ub, [], uh)"
| "opt_absorb ulen ub (uf # rest) uh =
     (if u_len uf + ulen > NBITS then Some (ulen, ub, uf # rest, uh)
      else case u_ptr uf of
        Ptr_map ubf \<Rightarrow>
          do { (ub, ulen) \<leftarrow> opt_copy (ub_map ubf) 0 (u_len uf) ub ulen;
               opt_absorb ulen ub rest (delete_unr (delete_unr uh)) }
      | p \<Rightarrow>
          do { ub \<leftarrow> opt_run (p = Ptr_uh) ulen (ulen + u_len uf - 1) (u_len uf) ub;
               opt_absorb (ulen + u_len uf) ub rest (delete_unr uh) })"

definition opt_build :: "bitstr \<Rightarrow> unr list \<Rightarrow> unr \<Rightarrow> unr list \<Rightarrow> unrhdr \<Rightarrow> unrhdr option" where
  "opt_build stale pre us post uh =
     do { (us, post, uh) \<leftarrow>
            (if is_bitmap us then Some (us, post, uh)
             else case post of
                    [] \<Rightarrow> None
                  | uf # post \<Rightarrow> do { (us, uh) \<leftarrow> opt_first stale us uf uh; Some (us, post, uh) });
          case u_ptr us of
            Ptr_map ub \<Rightarrow>
              do { (ulen, ub, post, uh) \<leftarrow> opt_absorb (u_len us) ub post uh;
                   Some (uh\<lparr>uh_head := pre @ us\<lparr>u_len := ulen, u_ptr := Ptr_map ub\<rparr> # post\<rparr>) }
          | _ \<Rightarrow> None }"

definition optimize_unr :: "(unrhdr \<Rightarrow> bitstr) \<Rightarrow> unrhdr \<Rightarrow> (bool \<times> unrhdr) option" where
  "optimize_unr stale uh =
     (let (ba, us) = opt_best 0 0 0 (uh_head uh) in
      if ba < 3 then Some (False, uh)
      else do { uh \<leftarrow> opt_build (stale uh) (take us (uh_head uh)) (uh_head uh ! us) (drop (us + 1) (uh_head uh)) uh;
                Some (True, uh) })"

text \<open>A successful step has fewer chunks in the list, so the loop \<^verbatim>\<open>while (optimize_unr(uh)) continue;\<close> ends.\<close>

lemma opt_best_cases:
  assumes "opt_best i ba us xs = (ba', us')"
  shows "ba' = ba \<and> us' = us \<or>
    i \<le> us' \<and> us' - i < length xs \<and> u_len (xs ! (us' - i)) < NBITS \<and>
    ba' = opt_extend (u_len (xs ! (us' - i))) (1 + (if is_bitmap (xs ! (us' - i)) then 1 else 0)) (drop (us' - i + 1) xs)"
  using assms
proof (induction i ba us xs rule: opt_best.induct)
  case (2 i ba us uf rest)
  have step: "(uf # rest) ! (us' - i) = rest ! (us' - (i + 1)) \<and> drop (us' - i + 1) (uf # rest) = drop (us' - (i + 1) + 1) rest"
    if "i + 1 \<le> us'" using that by (simp add: nth_Cons' Suc_diff_Suc [symmetric])
  show ?case
  proof (cases "u_len uf \<ge> NBITS")
    case True
    then show ?thesis using 2 step by auto
  next
    case False
    then show ?thesis using 2 step by (cases "us' = i") (auto simp: Let_def split: if_splits)
  qed
qed simp

lemma opt_best_fits:
  assumes "opt_best 0 0 0 xs = (ba, us)" "3 \<le> ba"
  shows "us < length xs" "u_len (xs ! us) < NBITS"
    "\<exists>uf rest. drop (us + 1) xs = uf # rest \<and> u_len uf + u_len (xs ! us) \<le> NBITS"
proof -
  from opt_best_cases [OF assms(1)] assms(2) show "us < length xs" "u_len (xs ! us) < NBITS" by auto
  from opt_best_cases [OF assms(1)] assms(2)
  have "3 \<le> opt_extend (u_len (xs ! us)) (1 + (if is_bitmap (xs ! us) then 1 else 0)) (drop (us + 1) xs)" by auto
  then show "\<exists>uf rest. drop (us + 1) xs = uf # rest \<and> u_len uf + u_len (xs ! us) \<le> NBITS"
    by (cases "drop (us + 1) xs") (auto split: if_splits)
qed

lemma opt_absorb_length:
  "opt_absorb ulen ub post uh = Some (ulen', ub', post', uh') \<Longrightarrow> length post' \<le> length post"
  by (induction ulen ub post uh rule: opt_absorb.induct)
     (fastforce split: if_splits unr_ptr.splits bind_splits)+

lemma opt_build_length:
  assumes "opt_build stale pre us post uh = Some uh'" "post = uf # rest" "u_len uf + u_len us \<le> NBITS"
  shows "length (uh_head uh') \<le> length pre + length post"
proof (cases "u_ptr us")
  case (Ptr_map ub)
  then obtain ulen ub' post' uh1 where "opt_absorb (u_len us) ub post uh = Some (ulen, ub', post', uh1)"
    "length (uh_head uh') = Suc (length pre + length post')"
    using assms(1) by (auto simp: opt_build_def is_bitmap_def split: bind_splits)
  moreover from this(1) have "length post' \<le> length rest"
    using assms(2,3) by (auto dest!: opt_absorb_length split: unr_ptr.splits bind_splits)
  ultimately show ?thesis using assms(2) by simp
next
  case Ptr_null
  then show ?thesis using assms(1,2)
    by (auto simp: opt_build_def is_bitmap_def dest!: opt_absorb_length split: bind_splits unr_ptr.splits)
next
  case Ptr_uh
  then show ?thesis using assms(1,2)
    by (auto simp: opt_build_def is_bitmap_def dest!: opt_absorb_length split: bind_splits unr_ptr.splits)
qed

lemma optimize_unr_length:
  assumes "optimize_unr stale uh = Some (True, uh')"
  shows "length (uh_head uh') < length (uh_head uh)"
proof -
  obtain ba us where best: "opt_best 0 0 0 (uh_head uh) = (ba, us)" by force
  with assms have 3: "3 \<le> ba" and
    build: "opt_build (stale uh) (take us (uh_head uh)) (uh_head uh ! us) (drop (us + 1) (uh_head uh)) uh = Some uh'"
    by (auto simp: optimize_unr_def split: if_splits bind_splits)
  from opt_best_fits [OF best 3] obtain uf rest where "us < length (uh_head uh)" "drop (us + 1) (uh_head uh) = uf # rest"
    "u_len uf + u_len (uh_head uh ! us) \<le> NBITS" by blast
  moreover from this(1,2) have "length (uh_head uh) = us + 1 + length (uf # rest)"
    by (metis Suc_eq_plus1 Suc_leI add.commute le_add_diff_inverse length_drop)
  ultimately show ?thesis using opt_build_length [OF build] by auto
qed

function optimize_loop :: "(unrhdr \<Rightarrow> bitstr) \<Rightarrow> unrhdr \<Rightarrow> unrhdr option" where
  "optimize_loop stale uh =
     do { (more, uh) \<leftarrow> optimize_unr stale uh; if more then optimize_loop stale uh else Some uh }"
  by pat_completeness auto
termination
  by (relation "measure (\<lambda>(stale, uh). length (uh_head uh))") (auto dest: optimize_unr_length)

declare optimize_loop.simps [simp del]

section \<open>Collapsing\<close>

text \<open>The steps of \<^verbatim>\<open>collapse_unr\<close> on the chunk \<open>up\<close> between \<open>pre\<close> and \<open>post\<close>.\<close>

definition collapse_map :: "unr \<Rightarrow> unrhdr \<Rightarrow> unr \<times> unrhdr" where
  "collapse_map up uh =
     (case u_ptr up of
        Ptr_map ub \<Rightarrow>
          if ub_busy ub = u_len up then (up\<lparr>u_ptr := Ptr_uh\<rparr>, delete_unr uh)
          else if ub_busy ub = 0 then (up\<lparr>u_ptr := Ptr_null\<rparr>, delete_unr uh)
          else (up, uh)
      | _ \<Rightarrow> (up, uh))"

definition merge_prev :: "unr list \<Rightarrow> unr \<Rightarrow> unrhdr \<Rightarrow> unr list \<times> unr \<times> unrhdr" where
  "merge_prev pre up uh =
     (if pre \<noteq> [] \<and> same_ptr up (last pre)
      then (butlast pre, up\<lparr>u_len := u_len up + u_len (last pre)\<rparr>, delete_unr uh) else (pre, up, uh))"

definition merge_next :: "unr \<Rightarrow> unr list \<Rightarrow> unrhdr \<Rightarrow> unr \<times> unr list \<times> unrhdr" where
  "merge_next up post uh =
     (case post of
        upp # rest \<Rightarrow> if same_ptr up upp then (up\<lparr>u_len := u_len up + u_len upp\<rparr>, rest, delete_unr uh) else (up, post, uh)
      | [] \<Rightarrow> (up, post, uh))"

definition merge_hot :: "unr list \<Rightarrow> unr \<Rightarrow> unr list \<Rightarrow> unrhdr \<Rightarrow> unrhdr" where
  "merge_hot pre up post uh =
     (let (pre, up, uh) = merge_prev pre up uh; (up, post, uh) = merge_next up post uh
      in uh\<lparr>uh_head := pre @ up # post\<rparr>)"

definition collapse_hot :: "unr list \<Rightarrow> unr \<Rightarrow> unr list \<Rightarrow> unrhdr \<Rightarrow> unrhdr" where
  "collapse_hot pre up post uh =
     (if u_len up = 0 then
        (let uh = delete_unr uh in
         if pre \<noteq> [] then merge_hot (butlast pre) (last pre) post uh
         else case post of upp # rest \<Rightarrow> merge_hot [] upp rest uh | [] \<Rightarrow> uh\<lparr>uh_head := []\<rparr>)
      else merge_hot pre up post uh)"

definition collapse_first :: "unrhdr \<Rightarrow> unrhdr" where
  "collapse_first uh =
     (case uh_head uh of
        upp # rest \<Rightarrow>
          if u_ptr upp = Ptr_uh then delete_unr (uh\<lparr>uh_first := uh_first uh + u_len upp, uh_head := rest\<rparr>) else uh
      | [] \<Rightarrow> uh)"

definition collapse_last :: "unrhdr \<Rightarrow> unrhdr" where
  "collapse_last uh =
     (if uh_head uh \<noteq> [] \<and> u_ptr (last (uh_head uh)) = Ptr_null
      then delete_unr (uh\<lparr>uh_last := uh_last uh + u_len (last (uh_head uh)), uh_head := butlast (uh_head uh)\<rparr>) else uh)"

definition collapse_unr :: "(unrhdr \<Rightarrow> bitstr) \<Rightarrow> unr list \<Rightarrow> unr \<Rightarrow> unr list \<Rightarrow> unrhdr \<Rightarrow> unrhdr option" where
  "collapse_unr stale pre up post uh =
     (let (up, uh) = collapse_map up uh;
          uh = collapse_hot pre up post uh;
          uh = collapse_first uh;
          uh = collapse_last uh
      in optimize_loop stale uh)"

section \<open>Allocation\<close>

definition alloc_unrl :: "(unrhdr \<Rightarrow> bitstr) \<Rightarrow> unrhdr \<Rightarrow> (int \<times> unrhdr) option" where
  "alloc_unrl stale uh =
     (let x = uh_low uh + of_nat (uh_first uh) in
      case uh_head uh of
        [] \<Rightarrow>
          Some (if uh_last uh > 0
                then (sint x, uh\<lparr>uh_first := uh_first uh + 1, uh_last := uh_last uh - 1, uh_busy := uh_busy uh + 1\<rparr>)
                else (- 1, uh))
      | up # post \<Rightarrow>
          (case u_ptr up of
             Ptr_uh \<Rightarrow> None
           | Ptr_null \<Rightarrow>
               do { uh \<leftarrow> collapse_unr stale [] (up\<lparr>u_len := u_len up - 1\<rparr>) post
                           (uh\<lparr>uh_first := uh_first uh + 1, uh_busy := uh_busy uh + 1\<rparr>);
                    Some (sint x, uh) }
           | Ptr_map ub \<Rightarrow>
               if \<not> ub_busy ub < u_len up then None
               else do { y \<leftarrow> bit_ffc (ub_map ub) (u_len up);
                         if y = - 1 then None
                         else do {
                           m \<leftarrow> bit_set (ub_map ub) (nat y);
                           uh \<leftarrow> collapse_unr stale [] (up\<lparr>u_ptr := Ptr_map \<lparr>ub_busy = ub_busy ub + 1, ub_map = m\<rparr>\<rparr>) post
                                  (uh\<lparr>uh_busy := uh_busy uh + 1\<rparr>);
                           Some (sint (x + of_int y), uh) } }))"

definition alloc_unr :: "(unrhdr \<Rightarrow> bitstr) \<Rightarrow> unrhdr \<Rightarrow> (int \<times> unrhdr) option" where
  "alloc_unr stale uh = do { (i, uh) \<leftarrow> alloc_unrl stale uh; Some (i, clean_unrhdrl uh) }"

section \<open>Freeing\<close>

text \<open>The chunk that holds an item, with the chunks around it and the item's offset in it; \<open>None\<close> at the end of the list.\<close>

fun find_unr :: "unr list \<Rightarrow> unr list \<Rightarrow> nat \<Rightarrow> (unr list \<times> unr \<times> unr list \<times> nat) option" where
  "find_unr pre [] item = None"
| "find_unr pre (up # post) item =
     (if u_len up > item then Some (pre, up, post, item) else find_unr (pre @ [up]) post (item - u_len up))"

definition split_unr :: "(unrhdr \<Rightarrow> bitstr) \<Rightarrow> unr list \<Rightarrow> unr \<Rightarrow> unr list \<Rightarrow> nat \<Rightarrow> bool \<Rightarrow> bool \<Rightarrow> unrhdr \<Rightarrow> unrhdr option" where
  "split_unr stale pre up post item p1 p2 uh =
     do { let pl = u_len up - (1 + item);
          (post, uh, p1, p2) \<leftarrow>
            (if pl > 0
             then do { (uh, p1, p2) \<leftarrow> new_unr uh p1 p2; Some (\<lparr>u_len = pl, u_ptr = Ptr_uh\<rparr> # post, uh, p1, p2) }
             else Some (post, uh, p1, p2));
          (pre, uh, p1, p2) \<leftarrow>
            (if item > 0
             then do { (uh, p1, p2) \<leftarrow> new_unr uh p1 p2; Some (pre @ [\<lparr>u_len = item, u_ptr = Ptr_uh\<rparr>], uh, p1, p2) }
             else Some (pre, uh, p1, p2));
          collapse_unr stale pre (up\<lparr>u_len := 1, u_ptr := Ptr_null\<rparr>) post (uh\<lparr>uh_busy := uh_busy uh - 1\<rparr>) }"

definition free_run :: "(unrhdr \<Rightarrow> bitstr) \<Rightarrow> unr list \<Rightarrow> unr \<Rightarrow> unr list \<Rightarrow> nat \<Rightarrow> bool \<Rightarrow> bool \<Rightarrow> unrhdr \<Rightarrow> unrhdr option" where
  "free_run stale pre up post item p1 p2 uh =
     (let busy = uh\<lparr>uh_busy := uh_busy uh - 1\<rparr> in
      if u_len up = 1 then collapse_unr stale pre (up\<lparr>u_ptr := Ptr_null\<rparr>) post busy
      else if item = 0 \<and> pre \<noteq> [] \<and> u_ptr (last pre) = Ptr_null then
        collapse_unr stale (butlast pre @ [(last pre)\<lparr>u_len := u_len (last pre) + 1\<rparr>]) (up\<lparr>u_len := u_len up - 1\<rparr>) post busy
      else if item = u_len up - 1 \<and> post \<noteq> [] \<and> u_ptr (hd post) = Ptr_null then
        collapse_unr stale pre (up\<lparr>u_len := u_len up - 1\<rparr>) ((hd post)\<lparr>u_len := u_len (hd post) + 1\<rparr> # tl post) busy
      else split_unr stale pre up post item p1 p2 uh)"

definition free_chunk :: "(unrhdr \<Rightarrow> bitstr) \<Rightarrow> nat \<Rightarrow> bool \<Rightarrow> bool \<Rightarrow> unrhdr \<Rightarrow> unrhdr option" where
  "free_chunk stale item p1 p2 uh =
     do { (pre, up, post, item) \<leftarrow> find_unr [] (uh_head uh) item;
          case u_ptr up of
            Ptr_map ub \<Rightarrow>
              do { b \<leftarrow> bit_test (ub_map ub) item;
                   if \<not> b then None
                   else do {
                     m \<leftarrow> bit_clear (ub_map ub) item;
                     collapse_unr stale pre (up\<lparr>u_ptr := Ptr_map \<lparr>ub_busy = ub_busy ub - 1, ub_map = m\<rparr>\<rparr>) post
                       (uh\<lparr>uh_busy := uh_busy uh - 1\<rparr>) } }
          | Ptr_null \<Rightarrow> None
          | Ptr_uh \<Rightarrow> free_run stale pre up post item p1 p2 uh }"

definition free_unrl :: "(unrhdr \<Rightarrow> bitstr) \<Rightarrow> unrhdr \<Rightarrow> 32 word \<Rightarrow> bool \<Rightarrow> bool \<Rightarrow> unrhdr option" where
  "free_unrl stale uh item p1 p2 =
     (if \<not> (item \<ge> uh_low uh \<and> item \<le> uh_high uh) then None
      else let item = unat (item - uh_low uh) in
      if item + 1 = uh_first uh \<and> uh_head uh = [] then
        Some (uh\<lparr>uh_last := uh_last uh + 1, uh_first := uh_first uh - 1, uh_busy := uh_busy uh - 1\<rparr>)
      else do {
        (uh, p1, p2) \<leftarrow>
          (if item < uh_first uh
           then do { (uh, p1, p2) \<leftarrow> new_unr uh p1 p2;
                     Some (uh\<lparr>uh_head := \<lparr>u_len = uh_first uh - item, u_ptr = Ptr_uh\<rparr> # uh_head uh, uh_first := item\<rparr>, p1, p2) }
           else Some (uh, p1, p2));
        free_chunk stale (item - uh_first uh) p1 p2 uh })"

definition free_unr :: "(unrhdr \<Rightarrow> bitstr) \<Rightarrow> unrhdr \<Rightarrow> 32 word \<Rightarrow> unrhdr option" where
  "free_unr stale uh item = do { uh \<leftarrow> free_unrl stale uh item True True; Some (clean_unrhdrl uh) }"

end
