(* ===== verification/Simulation.thy ===== *)
theory Simulation
  imports KPrelude
begin

text \<open>
  Sequences of calls and refinement. A component with operations that return a result and a new state refines an
  abstract one when each call gives the same result and panics together; then so do all sequences of calls.
\<close>

fun run_ops :: "('o \<Rightarrow> 's \<Rightarrow> ('r \<times> 's) option) \<Rightarrow> 'o list \<Rightarrow> 's \<Rightarrow> ('r list \<times> 's) option" where
  "run_ops f [] s = Some ([], s)"
| "run_ops f (c # cs) s = do { (r, s) \<leftarrow> f c s; (rs, s) \<leftarrow> run_ops f cs s; Some (r # rs, s) }"

locale op_refines =
  fixes step :: "'o \<Rightarrow> 's \<Rightarrow> ('r \<times> 's) option"
    and spec :: "'o \<Rightarrow> 'a \<Rightarrow> ('r \<times> 'a) option"
    and inv :: "'s \<Rightarrow> bool"
    and abs :: "'s \<Rightarrow> 'a"
  assumes refused: "inv s \<Longrightarrow> spec c (abs s) = None \<Longrightarrow> step c s = None"
    and accepted: "inv s \<Longrightarrow> spec c (abs s) = Some (r, a) \<Longrightarrow> runs (step c s) (\<lambda>(r', s'). r' = r \<and> inv s' \<and> abs s' = a)"
begin

lemma run_refused: "inv s \<Longrightarrow> run_ops spec cs (abs s) = None \<Longrightarrow> run_ops step cs s = None"
proof (induction cs arbitrary: s)
  case (Cons c cs)
  show ?case
  proof (cases "spec c (abs s)")
    case None
    then show ?thesis using refused [OF Cons.prems(1)] by simp
  next
    case (Some ra)
    then obtain r a where ra: "spec c (abs s) = Some (r, a)" by (cases ra) auto
    from accepted [OF Cons.prems(1) this] obtain s' where s': "step c s = Some (r, s')" "inv s'" "abs s' = a"
      by (auto simp: runs_def)
    then have "run_ops spec cs (abs s') = None" using Cons.prems(2) ra by (auto split: bind_splits)
    then show ?thesis using Cons.IH [OF s'(2)] s'(1) by simp
  qed
qed simp

lemma run_accepted:
  "inv s \<Longrightarrow> run_ops spec cs (abs s) = Some (rs, a) \<Longrightarrow> runs (run_ops step cs s) (\<lambda>(rs', s'). rs' = rs \<and> inv s' \<and> abs s' = a)"
proof (induction cs arbitrary: s rs)
  case (Cons c cs)
  from Cons.prems(2) obtain r b qs where r: "spec c (abs s) = Some (r, b)" "run_ops spec cs b = Some (qs, a)" "rs = r # qs"
    by (auto split: bind_splits)
  from accepted [OF Cons.prems(1) r(1)] obtain s' where s': "step c s = Some (r, s')" "inv s'" "abs s' = b"
    by (auto simp: runs_def)
  from Cons.IH [OF s'(2)] r(2) s'(3) have "runs (run_ops step cs s') (\<lambda>(rs', s'). rs' = qs \<and> inv s' \<and> abs s' = a)" by simp
  then show ?case using s'(1) r(3) by (auto simp: runs_def)
qed simp

lemma run_results:
  "inv s \<Longrightarrow> map_option (map_prod id abs) (run_ops step cs s) = run_ops spec cs (abs s)"
  using run_refused [of s cs] run_accepted [of s cs] by (cases "run_ops spec cs (abs s)") (auto simp: runs_def)

lemma run_inv: "inv s \<Longrightarrow> run_ops step cs s = Some (rs, s') \<Longrightarrow> inv s'"
  using run_refused [of s cs] run_accepted [of s cs] by (cases "run_ops spec cs (abs s)") (auto simp: runs_def)

end

end
