(* ===== verification/UnrProps.thy ===== *)
theory UnrProps
  imports Unr Simulation
begin

text \<open>
  The unit number allocator refines an allocator over a sequence of booleans: the sequence of a header says which
  numbers are allocated, \<^verbatim>\<open>alloc_unr\<close> takes the first free one and \<^verbatim>\<open>free_unr\<close> gives one back. Every
  rearrangement of chunks leaves the sequence alone.
\<close>

section \<open>The sequence a header stands for\<close>

definition unr_bits :: "unr \<Rightarrow> bool list" where
  "unr_bits up =
     (case u_ptr up of
        Ptr_null \<Rightarrow> replicate (u_len up) False
      | Ptr_uh \<Rightarrow> replicate (u_len up) True
      | Ptr_map ub \<Rightarrow> take (u_len up) (bits_of (ub_map ub)))"

definition chunk_bits :: "unr list \<Rightarrow> bool list" where
  "chunk_bits us = concat (map unr_bits us)"

definition units :: "unrhdr \<Rightarrow> bool list" where
  "units uh = replicate (uh_first uh) True @ chunk_bits (uh_head uh) @ replicate (uh_last uh) False"

text \<open>The number of memory chunks: a bitmap takes two.\<close>

definition chunks :: "unr list \<Rightarrow> 32 word" where
  "chunks us = (\<Sum>up\<leftarrow>us. if is_bitmap up then 2 else 1)"

definition ones :: "bool list \<Rightarrow> nat" where
  "ones bs = count_list bs True"

definition map_ok :: "nat \<Rightarrow> unrb \<Rightarrow> bool" where
  "map_ok n ub \<longleftrightarrow> n \<le> NBITS \<and> length (ub_map ub) = 15 \<and> ub_busy ub = ones (take n (bits_of (ub_map ub)))"

definition unr_wf :: "unr \<Rightarrow> bool" where
  "unr_wf up = (case u_ptr up of Ptr_map ub \<Rightarrow> map_ok (u_len up) ub | _ \<Rightarrow> True)"

definition unr_ok :: "unr \<Rightarrow> bool" where
  "unr_ok up \<longleftrightarrow> 0 < u_len up \<and>
     (case u_ptr up of Ptr_map ub \<Rightarrow> map_ok (u_len up) ub \<and> 0 < ub_busy ub \<and> ub_busy ub < u_len up | _ \<Rightarrow> True)"

abbreviation apart :: "unr \<Rightarrow> unr \<Rightarrow> bool" where "apart a b \<equiv> \<not> same_ptr a b"

definition list_ok :: "unr list \<Rightarrow> bool" where
  "list_ok us \<longleftrightarrow> list_all unr_ok us \<and> successively apart us"

definition ends_ok :: "unr list \<Rightarrow> bool" where
  "ends_ok us \<longleftrightarrow> us \<noteq> [] \<longrightarrow> u_ptr (hd us) \<noteq> Ptr_uh \<and> u_ptr (last us) \<noteq> Ptr_null"

definition unr_inv :: "unrhdr \<Rightarrow> bool" where
  "unr_inv uh \<longleftrightarrow> list_ok (uh_head uh) \<and> ends_ok (uh_head uh) \<and>
     uh_alloc uh = chunks (uh_head uh) \<and> uh_busy uh = of_nat (ones (units uh))"

section \<open>Counting\<close>

lemma ones_simps [simp]:
  "ones [] = 0" "ones (b # bs) = (if b then 1 else 0) + ones bs" "ones (bs @ cs) = ones bs + ones cs"
  "ones (replicate n True) = n" "ones (replicate n False) = 0"
proof -
  show "ones (replicate n True) = n" "ones (replicate n False) = 0" by (induction n) (simp_all add: ones_def)
qed (simp_all add: ones_def)

lemma ones_le: "ones bs \<le> length bs"
  by (simp add: ones_def count_le_length)

lemma ones_all: "ones bs = length bs \<longleftrightarrow> bs = replicate (length bs) True"
proof (induction bs)
  case (Cons b bs)
  then show ?case using ones_le [of bs] by auto
qed simp

lemma ones_none: "ones bs = 0 \<longleftrightarrow> bs = replicate (length bs) False"
  by (induction bs) auto

lemma ones_update:
  "i < length bs \<Longrightarrow> \<not> bs ! i \<Longrightarrow> ones (bs[i := True]) = ones bs + 1"
  "i < length bs \<Longrightarrow> bs ! i \<Longrightarrow> ones (bs[i := False]) + 1 = ones bs"
  by (induction bs arbitrary: i) (auto simp: nth_Cons split: nat.splits)

lemma chunk_simps [simp]:
  "chunk_bits [] = []" "chunk_bits (u # us) = unr_bits u @ chunk_bits us"
  "chunk_bits (us @ vs) = chunk_bits us @ chunk_bits vs"
  "chunks [] = 0" "chunks (u # us) = (if is_bitmap u then 2 else 1) + chunks us" "chunks (us @ vs) = chunks us + chunks vs"
  by (simp_all add: chunk_bits_def chunks_def)

lemma is_bitmap_simps [simp]: "is_bitmap up \<longleftrightarrow> (\<exists>ub. u_ptr up = Ptr_map ub)"
  by (auto simp: is_bitmap_def split: unr_ptr.splits)

lemma same_ptr_iff: "same_ptr a b \<longleftrightarrow> u_ptr a = u_ptr b \<and> \<not> is_bitmap a"
  by (auto simp: same_ptr_def split: unr_ptr.splits)

lemma length_unr_bits [simp]: "unr_wf up \<Longrightarrow> length (unr_bits up) = u_len up"
  by (auto simp: unr_bits_def unr_wf_def map_ok_def split: unr_ptr.splits)

lemma unr_ok_wf: "unr_ok up \<Longrightarrow> unr_wf up"
  by (auto simp: unr_ok_def unr_wf_def split: unr_ptr.splits)

lemma list_ok_append:
  "list_ok (us @ vs) \<longleftrightarrow> list_ok us \<and> list_ok vs \<and> (us \<noteq> [] \<longrightarrow> vs \<noteq> [] \<longrightarrow> apart (last us) (hd vs))"
  by (auto simp: list_ok_def successively_append_iff)

lemma list_ok_Cons:
  "list_ok (u # us) \<longleftrightarrow> unr_ok u \<and> list_ok us \<and> (us \<noteq> [] \<longrightarrow> apart u (hd us))"
  by (cases us) (auto simp: list_ok_def)

lemma list_ok_Nil [simp]: "list_ok []"
  by (simp add: list_ok_def)

lemma delete_unr_simps [simp]:
  "uh_head (delete_unr uh) = uh_head uh" "uh_low (delete_unr uh) = uh_low uh" "uh_high (delete_unr uh) = uh_high uh"
  "uh_busy (delete_unr uh) = uh_busy uh" "uh_first (delete_unr uh) = uh_first uh" "uh_last (delete_unr uh) = uh_last uh"
  "uh_alloc (delete_unr uh) = uh_alloc uh - 1"
  by (simp_all add: delete_unr_def)

section \<open>Bitmaps\<close>

lemma opt_copy_ok:
  assumes "l + n \<le> length (bits_of src)" "a + n \<le> length (bits_of (ub_map ub))"
  shows "runs (opt_copy src l n ub a) (\<lambda>(ub', a'). a' = a + n \<and> length (ub_map ub') = length (ub_map ub) \<and>
    take a' (bits_of (ub_map ub')) = take a (bits_of (ub_map ub)) @ take n (drop l (bits_of src)) \<and>
    ub_busy ub' = ub_busy ub + ones (take n (drop l (bits_of src))))"
  using assms
proof (induction src l n ub a rule: opt_copy.induct)
  case (2 src l n ub a)
  let ?b = "bits_of src ! l"
  have l: "l < length (bits_of src)" and a: "a < length (bits_of (ub_map ub))" using 2 by simp_all
  have test: "bit_test src l = Some ?b" using l by (rule bs.test)
  have step: "take (Suc n) (drop l (bits_of src)) = ?b # take n (drop (l + 1) (bits_of src))"
    using l by (simp add: Cons_nth_drop_Suc [symmetric])
  show ?case
  proof (cases ?b)
    case True
    from bs.set1_prefix [OF a] obtain m where m: "bit_set (ub_map ub) a = Some m"
      "length (bits_of m) = length (bits_of (ub_map ub))" "take (Suc a) (bits_of m) = take a (bits_of (ub_map ub)) @ [True]"
      by (auto simp: runs_def)
    then show ?thesis using 2(1) [OF test] 2(2,3) True
      by (simp add: test step)
  next
    case False
    from bs.clear1_prefix [OF a] obtain m where m: "bit_clear (ub_map ub) a = Some m"
      "length (bits_of m) = length (bits_of (ub_map ub))" "take (Suc a) (bits_of m) = take a (bits_of (ub_map ub)) @ [False]"
      by (auto simp: runs_def)
    then show ?thesis using 2(1) [OF test] 2(2,3) False
      by (simp add: test step)
  qed
qed simp

lemma opt_run_ok:
  assumes "0 < n" "a + n \<le> length (bits_of (ub_map ub))"
  shows "runs (opt_run v a (a + n - 1) k ub) (\<lambda>ub'. length (ub_map ub') = length (ub_map ub) \<and>
    take (a + n) (bits_of (ub_map ub')) = take a (bits_of (ub_map ub)) @ replicate n v \<and>
    ub_busy ub' = ub_busy ub + (if v then k else 0))"
  using bs.nset_prefix [OF assms] bs.nclear_prefix [OF assms] by (cases v) (auto simp: opt_run_def runs_def)

text \<open>A bitmap that takes over what follows it: no bit changes place.\<close>

definition mixed :: "nat \<Rightarrow> unrb \<Rightarrow> bool" where
  "mixed n ub \<longleftrightarrow> map_ok n ub \<and> 0 < ub_busy ub \<and> ub_busy ub < n"

lemma map_ok_bits: "map_ok n ub \<Longrightarrow> n \<le> length (bits_of (ub_map ub))" "map_ok n ub \<Longrightarrow> ub_busy ub \<le> n"
  using ones_le [of "take n (bits_of (ub_map ub))"] by (auto simp: map_ok_def)

lemma mixed_extend:
  assumes "mixed n ub" "n + m \<le> NBITS" "length (ub_map ub') = length (ub_map ub)" "length bs = m"
    and "take (n + m) (bits_of (ub_map ub')) = take n (bits_of (ub_map ub)) @ bs" "ub_busy ub' = ub_busy ub + ones bs"
  shows "mixed (n + m) ub'"
  using assms ones_le [of bs] by (auto simp: mixed_def map_ok_def)

lemma opt_take:
  assumes "length (ub_map ub) = 15" "unr_ok uf" "u_len uf + ulen \<le> NBITS"
  obtains ub' where
    "(case u_ptr uf of
        Ptr_map ubf \<Rightarrow> opt_copy (ub_map ubf) 0 (u_len uf) ub ulen = Some (ub', ulen + u_len uf)
      | p \<Rightarrow> opt_run (p = Ptr_uh) ulen (ulen + u_len uf - 1) (u_len uf) ub = Some ub')"
    "length (ub_map ub') = 15" "take (ulen + u_len uf) (bits_of (ub_map ub')) = take ulen (bits_of (ub_map ub)) @ unr_bits uf"
    "ub_busy ub' = ub_busy ub + ones (unr_bits uf)"
proof (cases "u_ptr uf")
  case (Ptr_map ubf)
  then have "0 + u_len uf \<le> length (bits_of (ub_map ubf))" using assms(2) by (simp add: unr_ok_def map_ok_def)
  from opt_copy_ok [OF this, of ulen ub] assms that show thesis by (auto simp: runs_def unr_bits_def Ptr_map)
next
  case Ptr_null
  with opt_run_ok [of "u_len uf" ulen ub False "u_len uf"] assms that show thesis
    by (auto simp: runs_def unr_bits_def unr_ok_def)
next
  case Ptr_uh
  with opt_run_ok [of "u_len uf" ulen ub True "u_len uf"] assms that show thesis
    by (auto simp: runs_def unr_bits_def unr_ok_def)
qed

lemma opt_absorb_ok:
  assumes "mixed ulen ub" "list_all unr_ok post"
  shows "runs (opt_absorb ulen ub post uh) (\<lambda>(ulen', ub', post', uh').
    mixed ulen' ub' \<and> (\<exists>us. post = us @ post') \<and>
    take ulen' (bits_of (ub_map ub')) @ chunk_bits post' = take ulen (bits_of (ub_map ub)) @ chunk_bits post \<and>
    uh_alloc uh' + chunks post = uh_alloc uh + chunks post' \<and>
    uh_head uh' = uh_head uh \<and> uh_low uh' = uh_low uh \<and> uh_high uh' = uh_high uh \<and> uh_busy uh' = uh_busy uh \<and>
    uh_first uh' = uh_first uh \<and> uh_last uh' = uh_last uh)"
  using assms
proof (induction post arbitrary: ulen ub uh)
  case (Cons uf rest)
  show ?case
  proof (cases "u_len uf + ulen > NBITS")
    case True
    then show ?thesis using Cons.prems by simp
  next
    case False
    with opt_take [of ub uf ulen] Cons.prems obtain ub' where ub':
      "(case u_ptr uf of
        Ptr_map ubf \<Rightarrow> opt_copy (ub_map ubf) 0 (u_len uf) ub ulen = Some (ub', ulen + u_len uf)
      | p \<Rightarrow> opt_run (p = Ptr_uh) ulen (ulen + u_len uf - 1) (u_len uf) ub = Some ub')" "length (ub_map ub') = 15"
      "take (ulen + u_len uf) (bits_of (ub_map ub')) = take ulen (bits_of (ub_map ub)) @ unr_bits uf"
      "ub_busy ub' = ub_busy ub + ones (unr_bits uf)"
      by (auto simp: mixed_def map_ok_def)
    let ?uh = "(if is_bitmap uf then delete_unr else id) (delete_unr uh)"
    have step: "opt_absorb ulen ub (uf # rest) uh = opt_absorb (ulen + u_len uf) ub' rest ?uh"
      using False ub'(1) by (cases "u_ptr uf") auto
    have mixed: "mixed (ulen + u_len uf) ub'"
      by (rule mixed_extend [OF Cons.prems(1) _ _ _ ub'(3,4)])
         (use False Cons.prems ub'(2) in \<open>auto simp: unr_ok_wf mixed_def map_ok_def\<close>)
    have "list_all unr_ok rest" using Cons.prems(2) by simp
    note IH = Cons.IH [OF mixed this, of ?uh]
    show ?thesis unfolding step by (rule runs_weaken [OF IH]) (use ub'(3) in \<open>force simp: algebra_simps split: if_splits\<close>)
  qed
qed simp

definition same_fields :: "unrhdr \<Rightarrow> unrhdr \<Rightarrow> bool" where
  "same_fields uh uh' \<longleftrightarrow> uh_head uh' = uh_head uh \<and> uh_low uh' = uh_low uh \<and> uh_high uh' = uh_high uh \<and>
     uh_busy uh' = uh_busy uh \<and> uh_first uh' = uh_first uh \<and> uh_last uh' = uh_last uh"

lemma opt_first_ok:
  assumes "unr_ok us" "\<not> is_bitmap us" "unr_ok uf" "apart us uf" "u_len uf + u_len us \<le> NBITS" "length stale = 15"
  shows "runs (opt_first stale us uf uh) (\<lambda>(us', uh'). \<exists>ub. u_ptr us' = Ptr_map ub \<and> mixed (u_len us') ub \<and>
    take (u_len us') (bits_of (ub_map ub)) = unr_bits us @ unr_bits uf \<and>
    uh_alloc uh' + chunks [us, uf] = uh_alloc uh + 2 \<and> same_fields uh uh')"
proof -
  let ?a = "u_len us" and ?v = "u_ptr us = Ptr_uh" and ?ub = "\<lparr>ub_busy = 0, ub_map = stale\<rparr>"
  have len: "0 < u_len uf" "0 < ?a" using assms(1,3) by (auto simp: unr_ok_def)
  have "0 < ?a + 1" "0 + (?a + 1) \<le> length (bits_of (ub_map ?ub))" using assms(5,6) len by simp_all
  from opt_run_ok [OF this, of ?v ?a] obtain ub where ub: "opt_run ?v 0 ?a ?a ?ub = Some ub" "length (ub_map ub) = 15"
    "take (?a + 1) (bits_of (ub_map ub)) = replicate (?a + 1) ?v" "ub_busy ub = (if ?v then ?a else 0)"
    using assms(6) by (auto simp: runs_def)
  have "take ?a (replicate (?a + 1) ?v) = replicate ?a ?v" by (subst take_replicate) simp
  with arg_cong [OF ub(3), of "take ?a"] have us: "take ?a (bits_of (ub_map ub)) = unr_bits us"
    using assms(2) by (cases "u_ptr us") (auto simp: unr_bits_def)
  from opt_take [OF ub(2) assms(3,5)] obtain ub' where ub':
    "(case u_ptr uf of
        Ptr_map ubf \<Rightarrow> opt_copy (ub_map ubf) 0 (u_len uf) ub ?a = Some (ub', ?a + u_len uf)
      | p \<Rightarrow> opt_run (p = Ptr_uh) ?a (?a + u_len uf - 1) (u_len uf) ub = Some ub')" "length (ub_map ub') = 15"
    "take (?a + u_len uf) (bits_of (ub_map ub')) = take ?a (bits_of (ub_map ub)) @ unr_bits uf"
    "ub_busy ub' = ub_busy ub + ones (unr_bits uf)" by blast
  have busy: "ub_busy ub' = ones (unr_bits us @ unr_bits uf)"
    using assms(2) by (cases "u_ptr us") (simp_all add: ub'(4) ub(4) unr_bits_def)
  have "0 < ub_busy ub' \<and> ub_busy ub' < ?a + u_len uf"
    using assms(2-4) len by (cases "u_ptr us"; cases "u_ptr uf")
      (auto simp: busy unr_bits_def same_ptr_iff unr_ok_def map_ok_def)
  then have mixed: "mixed (?a + u_len uf) ub'" using assms(5) ub'(2,3) us busy by (simp add: mixed_def map_ok_def)
  have "opt_first stale us uf uh =
    Some (uf\<lparr>u_len := ?a + u_len uf, u_ptr := Ptr_map ub'\<rparr>, if is_bitmap uf then delete_unr uh else uh)"
    using ub(1) ub'(1) by (cases "u_ptr uf") (simp_all add: opt_first_def add.commute)
  then show ?thesis using mixed ub'(3) us assms(2) by (simp add: same_fields_def)
qed

lemma mixed_unr_ok: "u_ptr us = Ptr_map ub \<Longrightarrow> unr_ok us \<longleftrightarrow> mixed (u_len us) ub"
  by (auto simp: unr_ok_def mixed_def)

text \<open>A rearrangement: the numbers and their states stay, and the count of chunks follows.\<close>

definition same_units :: "unrhdr \<Rightarrow> unrhdr \<Rightarrow> bool" where
  "same_units uh uh' \<longleftrightarrow> units uh' = units uh \<and> uh_low uh' = uh_low uh \<and> uh_high uh' = uh_high uh \<and>
     uh_busy uh' = uh_busy uh \<and> uh_alloc uh' - chunks (uh_head uh') = uh_alloc uh - chunks (uh_head uh)"

lemma same_units_trans: "same_units a b \<Longrightarrow> same_units b c \<Longrightarrow> same_units a c"
  by (simp add: same_units_def)

lemma opt_finish_ok:
  assumes "u_ptr us = Ptr_map ub" "mixed (u_len us) ub" "list_ok pre" "list_ok post"
    and units: "chunk_bits (uh_head uh0) = chunk_bits (pre @ us # post)" "uh_alloc uh - chunks (pre @ us # post) = uh_alloc uh0 - chunks (uh_head uh0)"
    and "same_fields uh0 uh"
  shows "runs (opt_absorb (u_len us) ub post uh) (\<lambda>(ulen, ub, post', uh).
    (let uh = uh\<lparr>uh_head := pre @ us\<lparr>u_len := ulen, u_ptr := Ptr_map ub\<rparr> # post'\<rparr> in
     same_units uh0 uh \<and> list_ok (uh_head uh) \<and> (ends_ok (pre @ us # post) \<longrightarrow> ends_ok (uh_head uh))))"
proof -
  have "list_all unr_ok post" using assms(4) by (simp add: list_ok_def)
  note absorb = opt_absorb_ok [OF assms(2) this, of uh]
  show ?thesis
  proof (rule runs_weaken [OF absorb], simp only: split_paired_all prod.case, elim conjE exE)
    fix ulen ub' post' vs and uh' :: unrhdr
    assume h: "mixed ulen ub'" "post = vs @ post'"
      "take ulen (bits_of (ub_map ub')) @ chunk_bits post' = take (u_len us) (bits_of (ub_map ub)) @ chunk_bits post"
      "uh_alloc uh' + chunks post = uh_alloc uh + chunks post'" "uh_head uh' = uh_head uh" "uh_low uh' = uh_low uh"
      "uh_high uh' = uh_high uh" "uh_busy uh' = uh_busy uh" "uh_first uh' = uh_first uh" "uh_last uh' = uh_last uh"
    let ?us = "us\<lparr>u_len := ulen, u_ptr := Ptr_map ub'\<rparr>"
    have "list_ok (pre @ ?us # post')"
      using assms(3,4) h(1,2) by (auto simp: list_ok_append list_ok_Cons mixed_unr_ok same_ptr_iff)
    moreover have "ends_ok (pre @ us # post) \<longrightarrow> ends_ok (pre @ ?us # post')"
      using h(2) by (cases pre) (auto simp: ends_ok_def)
    moreover have "same_units uh0 (uh'\<lparr>uh_head := pre @ ?us # post'\<rparr>)"
    proof -
      have "uh_alloc uh' = uh_alloc uh + chunks post' - chunks post" using h(4) by (simp add: eq_diff_eq)
      moreover have "uh_alloc uh = uh_alloc uh0 - chunks (uh_head uh0) + chunks (pre @ us # post)"
        using units(2) by (metis diff_add_cancel)
      ultimately show ?thesis
        using units(1) h(3,5-10) assms(1,7) by (simp add: same_units_def same_fields_def units_def unr_bits_def)
    qed
    ultimately show "let uh = uh'\<lparr>uh_head := pre @ ?us # post'\<rparr> in same_units uh0 uh \<and> list_ok (uh_head uh) \<and>
      (ends_ok (pre @ us # post) \<longrightarrow> ends_ok (uh_head uh))" by simp
  qed
qed

lemma opt_build_ok:
  assumes "uh_head uh = pre @ us # uf # rest" "list_ok (uh_head uh)" "u_len uf + u_len us \<le> NBITS" "length stale = 15"
  shows "runs (opt_build stale pre us (uf # rest) uh)
    (\<lambda>uh'. same_units uh uh' \<and> list_ok (uh_head uh') \<and> (ends_ok (uh_head uh) \<longrightarrow> ends_ok (uh_head uh')))"
proof (cases "is_bitmap us")
  case True
  then obtain ub where Ptr_map: "u_ptr us = Ptr_map ub" by auto
  from assms(1,2) have "mixed (u_len us) ub" "list_ok pre" "list_ok (uf # rest)"
    by (simp_all add: list_ok_append list_ok_Cons mixed_unr_ok [OF Ptr_map])
  from opt_finish_ok [OF Ptr_map this, of uh uh] show ?thesis
    using assms(1) by (auto simp: opt_build_def Ptr_map same_fields_def runs_def Let_def)
next
  case run: False
  from assms(1,2) have ok: "unr_ok us" "unr_ok uf" "apart us uf" "list_ok pre" "list_ok rest"
    by (simp_all add: list_ok_append list_ok_Cons)
  from opt_first_ok [OF ok(1) run ok(2,3) assms(3,4), of uh] obtain us' uh' ub where
    first: "opt_first stale us uf uh = Some (us', uh')" "u_ptr us' = Ptr_map ub" "mixed (u_len us') ub"
      "take (u_len us') (bits_of (ub_map ub)) = unr_bits us @ unr_bits uf"
      "uh_alloc uh' + chunks [us, uf] = uh_alloc uh + 2" "same_fields uh uh'" by (auto simp: runs_def)
  have "chunk_bits (uh_head uh) = chunk_bits (pre @ us' # rest)"
    using assms(1) first(2,4) by (simp add: unr_bits_def)
  moreover have "uh_alloc uh' - chunks (pre @ us' # rest) = uh_alloc uh - chunks (uh_head uh)"
  proof -
    have "uh_alloc uh' = uh_alloc uh + 2 - chunks [us, uf]" using first(5) by (simp only: eq_diff_eq)
    then show ?thesis unfolding assms(1) using first(2) by simp
  qed
  moreover have "ends_ok (uh_head uh) \<longrightarrow> ends_ok (pre @ us' # rest)"
    using assms(1) first(2) by (cases pre) (auto simp: ends_ok_def)
  ultimately show ?thesis using opt_finish_ok [OF first(2,3) ok(4,5) _ _ first(6)] run first(1,2)
    by (auto simp: opt_build_def runs_def Let_def)
qed

lemma optimize_unr_ok:
  assumes "list_ok (uh_head uh)" "length (stale uh) = 15"
  shows "runs (optimize_unr stale uh)
    (\<lambda>(more, uh'). same_units uh uh' \<and> list_ok (uh_head uh') \<and> (ends_ok (uh_head uh) \<longrightarrow> ends_ok (uh_head uh')))"
proof -
  obtain ba us where best: "opt_best 0 0 0 (uh_head uh) = (ba, us)" by force
  show ?thesis
  proof (cases "ba < 3")
    case True
    then show ?thesis using best assms(1) by (simp add: optimize_unr_def same_units_def)
  next
    case False
    with opt_best_fits [OF best] obtain uf rest where fit: "us < length (uh_head uh)" "drop (us + 1) (uh_head uh) = uf # rest"
      "u_len uf + u_len (uh_head uh ! us) \<le> NBITS" by force
    then have "uh_head uh = take us (uh_head uh) @ uh_head uh ! us # uf # rest"
      using id_take_nth_drop [OF fit(1)] by simp
    from opt_build_ok [OF this assms(1) fit(3) assms(2)] show ?thesis
      using best False fit(2) by (auto simp: optimize_unr_def runs_def)
  qed
qed

lemma optimize_loop_ok:
  assumes "list_ok (uh_head uh)" "\<And>uh. length (stale uh) = 15"
  shows "runs (optimize_loop stale uh)
    (\<lambda>uh'. same_units uh uh' \<and> list_ok (uh_head uh') \<and> (ends_ok (uh_head uh) \<longrightarrow> ends_ok (uh_head uh')))"
  using assms
proof (induction stale uh rule: optimize_loop.induct)
  case (1 stale uh)
  from optimize_unr_ok [of uh stale] 1(2,3) obtain more uh' where
    opt: "optimize_unr stale uh = Some (more, uh')" "same_units uh uh'" "list_ok (uh_head uh')"
      "ends_ok (uh_head uh) \<longrightarrow> ends_ok (uh_head uh')" by (auto simp: runs_def)
  show ?case
  proof (cases more)
    case True
    from 1(1) [OF opt(1) refl True opt(3) 1(3)] show ?thesis using opt True
      by (subst optimize_loop.simps) (auto elim!: runs_weaken intro: same_units_trans)
  next
    case False
    then show ?thesis using opt by (subst optimize_loop.simps) simp
  qed
qed

section \<open>Collapsing is a rearrangement that restores the invariant\<close>

abbreviation with_head :: "unr list \<Rightarrow> unrhdr \<Rightarrow> unrhdr" where
  "with_head us uh \<equiv> uh\<lparr>uh_head := us\<rparr>"

lemma delete_with_head [simp]: "delete_unr (with_head us uh) = with_head us (delete_unr uh)"
  by (simp add: delete_unr_def)

lemma same_units_simps:
  "same_units (with_head us uh) (with_head vs uh') \<longleftrightarrow>
     replicate (uh_first uh') True @ chunk_bits vs @ replicate (uh_last uh') False =
       replicate (uh_first uh) True @ chunk_bits us @ replicate (uh_last uh) False \<and>
     uh_low uh' = uh_low uh \<and> uh_high uh' = uh_high uh \<and> uh_busy uh' = uh_busy uh \<and>
     uh_alloc uh' - chunks vs = uh_alloc uh - chunks us"
  by (auto simp: same_units_def units_def)

lemma run_bits:
  "u_ptr up = Ptr_uh \<Longrightarrow> unr_bits up = replicate (u_len up) True" "u_ptr up = Ptr_null \<Longrightarrow> unr_bits up = replicate (u_len up) False"
  by (simp_all add: unr_bits_def)

lemma collapse_map_ok:
  assumes "unr_wf up" "collapse_map up uh = (up', uh')"
  shows "u_len up' = u_len up" "0 < u_len up \<Longrightarrow> unr_ok up'" "unr_wf up'" "u_len up = 0 \<Longrightarrow> \<not> is_bitmap up'"
    "same_units (with_head (pre @ up # post) uh) (with_head (pre @ up' # post) uh')"
proof -
  have "unr_bits up' = unr_bits up"
  proof (cases "u_ptr up")
    case (Ptr_map ub)
    then have ub: "ub_busy ub = ones (unr_bits up)" "length (unr_bits up) = u_len up"
      using assms(1) by (simp_all add: unr_bits_def unr_wf_def map_ok_def)
    then show ?thesis using assms(2) ones_all [of "unr_bits up"] ones_none [of "unr_bits up"]
      by (auto simp: collapse_map_def Ptr_map run_bits split: if_splits)
  qed (use assms(2) in \<open>auto simp: collapse_map_def\<close>)
  then show "same_units (with_head (pre @ up # post) uh) (with_head (pre @ up' # post) uh')"
    using assms(2) by (auto simp: collapse_map_def same_units_simps split: unr_ptr.splits if_splits)
  show "u_len up' = u_len up" "0 < u_len up \<Longrightarrow> unr_ok up'" "unr_wf up'" "u_len up = 0 \<Longrightarrow> \<not> is_bitmap up'"
    using assms by (cases "u_ptr up";
      fastforce simp: collapse_map_def unr_ok_def unr_wf_def dest: map_ok_bits(2) split: if_splits)+
qed

lemma unr_ok_grow: "unr_ok up \<Longrightarrow> \<not> is_bitmap up \<Longrightarrow> unr_ok (up\<lparr>u_len := u_len up + n\<rparr>)"
  by (auto simp: unr_ok_def split: unr_ptr.splits)

lemma merge_bits:
  "same_ptr up upp \<Longrightarrow> unr_bits (up\<lparr>u_len := u_len up + u_len upp\<rparr>) = unr_bits upp @ unr_bits up"
  "same_ptr up upp \<Longrightarrow> unr_bits (up\<lparr>u_len := u_len up + u_len upp\<rparr>) = unr_bits up @ unr_bits upp"
  by (auto simp: same_ptr_iff unr_bits_def replicate_add [symmetric] add.commute split: unr_ptr.splits)

lemma merge_prev_ok:
  assumes "list_ok pre" "unr_ok up" "merge_prev pre up uh = (pre', up', uh')"
  shows "list_ok pre'" "unr_ok up'" "u_ptr up' = u_ptr up" "pre' \<noteq> [] \<Longrightarrow> apart (last pre') up'"
    "same_units (with_head (pre @ up # post) uh) (with_head (pre' @ up' # post) uh')"
proof -
  consider (merge) ps p where "pre = ps @ [p]" "same_ptr up p" "pre' = ps" "up' = up\<lparr>u_len := u_len up + u_len p\<rparr>" "uh' = delete_unr uh"
    | (keep) "pre' = pre" "up' = up" "uh' = uh" "pre \<noteq> [] \<Longrightarrow> apart up (last pre)"
    using assms(3) by (cases pre rule: rev_cases) (auto simp: merge_prev_def split: if_splits)
  then have "list_ok pre' \<and> unr_ok up' \<and> u_ptr up' = u_ptr up \<and> (pre' \<noteq> [] \<longrightarrow> apart (last pre') up') \<and>
    same_units (with_head (pre @ up # post) uh) (with_head (pre' @ up' # post) uh')"
  proof cases
    case merge
    then show ?thesis using assms(1,2)
      by (auto simp: list_ok_append list_ok_Cons unr_ok_grow merge_bits same_ptr_iff same_units_simps)
  next
    case keep
    then show ?thesis using assms(1,2) by (auto simp: same_units_simps same_ptr_iff)
  qed
  then show "list_ok pre'" "unr_ok up'" "u_ptr up' = u_ptr up" "pre' \<noteq> [] \<Longrightarrow> apart (last pre') up'"
    "same_units (with_head (pre @ up # post) uh) (with_head (pre' @ up' # post) uh')" by simp_all
qed

lemma merge_next_ok:
  assumes "list_ok post" "unr_ok up" "merge_next up post uh = (up', post', uh')"
  shows "list_ok (up' # post')" "u_ptr up' = u_ptr up"
    "same_units (with_head (pre @ up # post) uh) (with_head (pre @ up' # post') uh')"
proof -
  consider (merge) p where "post = p # post'" "same_ptr up p" "up' = up\<lparr>u_len := u_len up + u_len p\<rparr>" "uh' = delete_unr uh"
    | (keep) "post' = post" "up' = up" "uh' = uh" "post \<noteq> [] \<Longrightarrow> apart up (hd post)"
    using assms(3) by (cases post) (auto simp: merge_next_def split: if_splits)
  then have "list_ok (up' # post') \<and> u_ptr up' = u_ptr up \<and>
    same_units (with_head (pre @ up # post) uh) (with_head (pre @ up' # post') uh')"
  proof cases
    case merge
    then show ?thesis using assms(1,2)
      by (auto simp: list_ok_append list_ok_Cons unr_ok_grow merge_bits(2) same_ptr_iff same_units_simps)
  next
    case keep
    then show ?thesis using assms(1,2) by (auto simp: same_units_simps list_ok_Cons)
  qed
  then show "list_ok (up' # post')" "u_ptr up' = u_ptr up"
    "same_units (with_head (pre @ up # post) uh) (with_head (pre @ up' # post') uh')" by simp_all
qed

lemma merge_hot_ok:
  assumes "list_ok pre" "unr_ok up" "list_ok post"
  shows "list_ok (uh_head (merge_hot pre up post uh))" "same_units (with_head (pre @ up # post) uh) (merge_hot pre up post uh)"
proof -
  obtain pre' up1 uh1 up2 post' uh2 where m: "merge_prev pre up uh = (pre', up1, uh1)" "merge_next up1 post uh1 = (up2, post', uh2)"
    by (metis prod_cases3)
  note prev = merge_prev_ok [OF assms(1,2) m(1)]
  note nxt = merge_next_ok [OF assms(3) prev(2) m(2)]
  have hot: "merge_hot pre up post uh = with_head (pre' @ up2 # post') uh2" using m by (simp add: merge_hot_def)
  show "list_ok (uh_head (merge_hot pre up post uh))"
    using prev(1,4) nxt(1,2) by (auto simp: hot list_ok_append same_ptr_iff)
  show "same_units (with_head (pre @ up # post) uh) (merge_hot pre up post uh)"
    unfolding hot by (rule same_units_trans [OF prev(5) nxt(3)])
qed

lemma collapse_hot_ok:
  assumes "list_ok pre" "list_ok post" "unr_wf up" "0 < u_len up \<Longrightarrow> unr_ok up" "u_len up = 0 \<Longrightarrow> \<not> is_bitmap up"
  shows "list_ok (uh_head (collapse_hot pre up post uh))" "same_units (with_head (pre @ up # post) uh) (collapse_hot pre up post uh)"
proof -
  have "list_ok (uh_head (collapse_hot pre up post uh)) \<and> same_units (with_head (pre @ up # post) uh) (collapse_hot pre up post uh)"
  proof (cases "u_len up = 0")
    case False
    then show ?thesis using merge_hot_ok [OF assms(1) _ assms(2)] assms(4) by (simp add: collapse_hot_def)
  next
    case True
    then have "unr_bits up = []" using assms(3) by (metis length_0_conv length_unr_bits)
    with True have gone: "same_units (with_head (pre @ up # post) uh) (with_head (pre @ post) (delete_unr uh))"
      using assms(3,5) by (simp add: same_units_simps)
    consider (prev) ps p where "pre = ps @ [p]" | (nxt) p rest where "pre = []" "post = p # rest" | (none) "pre = []" "post = []"
      by (cases pre rule: rev_cases; cases post) auto
    then show ?thesis
    proof cases
      case prev
      then have "list_ok ps" "unr_ok p" using assms(1) by (simp_all add: list_ok_append list_ok_Cons)
      from merge_hot_ok [OF this assms(2), of "delete_unr uh"] show ?thesis
        using prev True same_units_trans [OF gone] by (simp add: collapse_hot_def)
    next
      case nxt
      then have "list_ok []" "unr_ok p" "list_ok rest" using assms(2) by (simp_all add: list_ok_Cons)
      from merge_hot_ok [OF this, of "delete_unr uh"] show ?thesis
        using nxt True same_units_trans [OF gone] by (simp add: collapse_hot_def)
    next
      case none
      then show ?thesis using gone True by (simp add: collapse_hot_def)
    qed
  qed
  then show "list_ok (uh_head (collapse_hot pre up post uh))" "same_units (with_head (pre @ up # post) uh) (collapse_hot pre up post uh)"
    by simp_all
qed

lemma collapse_first_ok:
  assumes "list_ok (uh_head uh)"
  shows "list_ok (uh_head (collapse_first uh))" "same_units uh (collapse_first uh)"
    "uh_head (collapse_first uh) \<noteq> [] \<Longrightarrow> u_ptr (hd (uh_head (collapse_first uh))) \<noteq> Ptr_uh"
  using assms
  by (auto simp: collapse_first_def list_ok_Cons same_units_def units_def run_bits replicate_add same_ptr_iff split: list.splits)

lemma collapse_last_ok:
  assumes "list_ok (uh_head uh)" "uh_head uh \<noteq> [] \<Longrightarrow> u_ptr (hd (uh_head uh)) \<noteq> Ptr_uh"
  shows "list_ok (uh_head (collapse_last uh))" "same_units uh (collapse_last uh)" "ends_ok (uh_head (collapse_last uh))"
proof -
  have "list_ok (uh_head (collapse_last uh)) \<and> same_units uh (collapse_last uh) \<and> ends_ok (uh_head (collapse_last uh))"
  proof (cases "uh_head uh" rule: rev_cases)
    case Nil
    then show ?thesis by (simp add: collapse_last_def same_units_def ends_ok_def)
  next
    case (snoc us up)
    then show ?thesis using assms
      by (cases us) (auto simp: collapse_last_def same_units_def units_def list_ok_append list_ok_Cons ends_ok_def run_bits
          replicate_add [symmetric] same_ptr_iff add.commute)
  qed
  then show "list_ok (uh_head (collapse_last uh))" "same_units uh (collapse_last uh)" "ends_ok (uh_head (collapse_last uh))"
    by simp_all
qed

lemma collapse_unr_ok:
  assumes "list_ok pre" "list_ok post" "unr_wf up" "\<And>uh. length (stale uh) = 15"
  shows "runs (collapse_unr stale pre up post uh)
    (\<lambda>uh'. same_units (with_head (pre @ up # post) uh) uh' \<and> list_ok (uh_head uh') \<and> ends_ok (uh_head uh'))"
proof -
  obtain up' uh1 where m: "collapse_map up uh = (up', uh1)" by force
  note map = collapse_map_ok [OF assms(3) m]
  have pre: "0 < u_len up' \<Longrightarrow> unr_ok up'" "u_len up' = 0 \<Longrightarrow> \<not> is_bitmap up'" using map(1,2,4) by simp_all
  note hot = collapse_hot_ok [OF assms(1,2) map(3) pre, of uh1]
  note first = collapse_first_ok [OF hot(1)]
  note last = collapse_last_ok [OF first(1,3)]
  have units: "same_units (with_head (pre @ up # post) uh) (collapse_last (collapse_first (collapse_hot pre up' post uh1)))"
    using map(5) hot(2) first(2) last(2) by (blast intro: same_units_trans)
  from optimize_loop_ok [where stale = stale, OF last(1) assms(4)] units last(3) show ?thesis
    by (auto simp: collapse_unr_def m elim!: runs_weaken intro: same_units_trans)
qed

section \<open>Allocation and release\<close>

text \<open>The header \<open>uh'\<close> is well-formed and stands for the sequence \<open>bs\<close> over the range of \<open>uh\<close>.\<close>

definition stands_for :: "unrhdr \<Rightarrow> bool list \<Rightarrow> unrhdr \<Rightarrow> bool" where
  "stands_for uh bs uh' \<longleftrightarrow> unr_inv uh' \<and> units uh' = bs \<and> uh_low uh' = uh_low uh \<and> uh_high uh' = uh_high uh"

lemma collapse_inv:
  assumes "list_ok pre" "list_ok post" "unr_wf up" "\<And>uh. length (stale uh) = 15"
    and "uh_alloc uh = chunks (pre @ up # post)" "uh_busy uh = of_nat (ones bs)"
    and "replicate (uh_first uh) True @ chunk_bits (pre @ up # post) @ replicate (uh_last uh) False = bs"
  shows "runs (collapse_unr stale pre up post uh) (stands_for uh bs)"
  by (rule runs_weaken [OF collapse_unr_ok [OF assms(1-4)]])
     (use assms(5-7) in \<open>auto simp: same_units_def stands_for_def unr_inv_def units_def\<close>)

definition first_free :: "bool list \<Rightarrow> nat" where
  "first_free bs = length (takeWhile id bs)"

lemma first_free_simps [simp]:
  "first_free [] = 0" "first_free (True # bs) = Suc (first_free bs)" "first_free (False # bs) = 0"
  "first_free (replicate n True @ bs) = n + first_free bs"
  by (induction n) (simp_all add: first_free_def)

lemma first_free_nth: "first_free bs < length bs \<Longrightarrow> \<not> bs ! first_free bs"
  using nth_length_takeWhile [of id bs] by (simp add: first_free_def)

lemma first_free_append: "first_free bs < length bs \<Longrightarrow> first_free (bs @ cs) = first_free bs"
  by (induction bs) (auto simp: first_free_def)

lemma first_free_all: "first_free bs = length bs \<longleftrightarrow> bs = replicate (length bs) True"
  by (induction bs) (auto simp: first_free_def)

lemma take_first_free: "n \<le> first_free bs \<Longrightarrow> take n bs = replicate n True"
proof (induction bs arbitrary: n)
  case (Cons b bs)
  then show ?case by (cases n; cases b) (auto simp: first_free_def)
qed simp

lemma first_free_take: "first_free bs < n \<Longrightarrow> first_free (take n bs) = first_free bs"
proof (induction bs arbitrary: n)
  case (Cons b bs)
  then show ?case by (cases n; cases b) (auto simp: first_free_def)
qed simp

lemma update_front: "(replicate n True @ b # bs)[n := c] = replicate n True @ c # bs"
  by (simp add: list_update_append)

lemma alloc_first:
  assumes "unr_inv uh" "uh_head uh = up # post" "u_ptr up = Ptr_null" "\<And>uh. length (stale uh) = 15"
  shows "first_free (units uh) = uh_first uh" "uh_first uh < length (units uh)"
    "runs (collapse_unr stale [] (up\<lparr>u_len := u_len up - 1\<rparr>) post (uh\<lparr>uh_first := uh_first uh + 1, uh_busy := uh_busy uh + 1\<rparr>))
      (stands_for uh ((units uh)[uh_first uh := True]))"
proof -
  obtain n where n: "u_len up = Suc n" using assms(1,2) by (cases "u_len up") (auto simp: unr_inv_def list_ok_Cons unr_ok_def)
  have units: "units uh = replicate (uh_first uh) True @ False # (replicate n False @ chunk_bits post @ replicate (uh_last uh) False)"
    by (simp add: units_def assms(2) run_bits(2) [OF assms(3)] n)
  show "first_free (units uh) = uh_first uh" "uh_first uh < length (units uh)" by (simp_all add: units)
  have new: "(units uh)[uh_first uh := True] =
    replicate (uh_first uh) True @ True # (replicate n False @ chunk_bits post @ replicate (uh_last uh) False)"
    unfolding units by (rule update_front)
  let ?uh = "uh\<lparr>uh_first := uh_first uh + 1, uh_busy := uh_busy uh + 1\<rparr>"
  have "runs (collapse_unr stale [] (up\<lparr>u_len := u_len up - 1\<rparr>) post ?uh) (stands_for ?uh ((units uh)[uh_first uh := True]))"
    unfolding new by (rule collapse_inv)
       (use assms in \<open>simp_all add: unr_inv_def list_ok_Cons n unr_wf_def run_bits replicate_append_same [symmetric] units\<close>)
  then show "runs (collapse_unr stale [] (up\<lparr>u_len := u_len up - 1\<rparr>) post ?uh) (stands_for uh ((units uh)[uh_first uh := True]))"
    by (simp add: stands_for_def [abs_def])
qed

lemma alloc_map:
  assumes "unr_inv uh" "uh_head uh = up # post" "u_ptr up = Ptr_map ub" "\<And>uh. length (stale uh) = 15"
  obtains y m where "bit_ffc (ub_map ub) (u_len up) = Some (int y)" "bit_set (ub_map ub) y = Some m"
    "first_free (units uh) = uh_first uh + y" "uh_first uh + y < length (units uh)"
    "runs (collapse_unr stale [] (up\<lparr>u_ptr := Ptr_map \<lparr>ub_busy = ub_busy ub + 1, ub_map = m\<rparr>\<rparr>) post (uh\<lparr>uh_busy := uh_busy uh + 1\<rparr>))
      (stands_for uh ((units uh)[uh_first uh + y := True]))"
proof -
  let ?bits = "bits_of (ub_map ub)" and ?n = "u_len up" and ?y = "first_free (bits_of (ub_map ub))"
  have ub: "?n \<le> 120" "length (ub_map ub) = 15" "ub_busy ub = ones (take ?n ?bits)" "ub_busy ub < ?n"
    using assms(1-3) by (auto simp: unr_inv_def list_ok_Cons unr_ok_def map_ok_def)
  have y: "?y < ?n"
  proof (rule ccontr)
    assume "\<not> ?y < ?n"
    then have "take ?n ?bits = replicate ?n True"
      by (intro take_first_free) simp
    then show False using ub(3,4) by simp
  qed
  have bits: "unr_bits up = take ?n ?bits" "length (take ?n ?bits) = ?n" using assms(3) ub(1,2) by (simp_all add: unr_bits_def)
  have ff: "first_free (take ?n ?bits) = ?y" "\<not> ?bits ! ?y"
    using y ub(1,2) first_free_take [of ?bits ?n] first_free_nth [of ?bits] by simp_all
  obtain m where m: "bit_set (ub_map ub) ?y = Some m" "bits_of m = ?bits[?y := True]"
    using bs.set1 [of ?y "ub_map ub"] y ub(1,2) by (auto simp: runs_def)
  have ffc: "bit_ffc (ub_map ub) ?n = Some (int ?y)" using y ub(1,2) by (simp add: bs.ffc first_free_def)
  let ?up = "up\<lparr>u_ptr := Ptr_map \<lparr>ub_busy = ub_busy ub + 1, ub_map = m\<rparr>\<rparr>" and ?uh = "uh\<lparr>uh_busy := uh_busy uh + 1\<rparr>"
  have up: "unr_bits ?up = (unr_bits up)[?y := True]" by (simp add: unr_bits_def assms(3) m(2) take_update_swap)
  have units: "units uh = replicate (uh_first uh) True @ unr_bits up @ chunk_bits post @ replicate (uh_last uh) False"
    by (simp add: units_def assms(2))
  have new: "(units uh)[uh_first uh + ?y := True] =
    replicate (uh_first uh) True @ (unr_bits up)[?y := True] @ chunk_bits post @ replicate (uh_last uh) False"
    using y bits by (simp add: units list_update_append)
  have "length m = 15" using arg_cong [OF m(2), of length] ub(2) by simp
  moreover have more: "ones ((unr_bits up)[?y := True]) = ones (unr_bits up) + 1" using y ff bits by (simp add: ones_update)
  moreover have "ones (take ?n (bits_of m)) = ub_busy ub + 1" using more bits(1) ub(3) by (simp add: m(2) take_update_swap)
  ultimately have wf: "unr_wf ?up" using ub by (simp add: unr_wf_def map_ok_def)
  have "runs (collapse_unr stale [] ?up post ?uh) (stands_for ?uh ((units uh)[uh_first uh + ?y := True]))"
    unfolding new by (rule collapse_inv)
      (use assms wf in \<open>simp_all add: unr_inv_def list_ok_Cons units up [simplified] more\<close>)
  then have "runs (collapse_unr stale [] ?up post ?uh) (stands_for uh ((units uh)[uh_first uh + ?y := True]))"
    by (simp add: stands_for_def [abs_def])
  moreover have "first_free (units uh) = uh_first uh + ?y" "uh_first uh + ?y < length (units uh)"
    using y ff bits by (simp_all add: units first_free_append)
  ultimately show thesis using that ffc m(1) by blast
qed

lemma clean_stands_for [simp]: "stands_for uh bs (clean_unrhdrl uh') = stands_for uh bs uh'"
  by (simp add: clean_unrhdrl_def stands_for_def unr_inv_def units_def)

lemma alloc_unr_ok:
  assumes "unr_inv uh" "\<And>uh. length (stale uh) = 15" "first_free (units uh) < length (units uh)"
  shows "runs (alloc_unr stale uh) (\<lambda>(x, uh'). x = sint (uh_low uh + of_nat (first_free (units uh))) \<and>
    stands_for uh ((units uh)[first_free (units uh) := True]) uh')"
proof (cases "uh_head uh")
  case Nil
  then obtain n where n: "uh_last uh = Suc n"
    using assms(3) first_free_all [of "units uh"] by (cases "uh_last uh") (auto simp: units_def)
  have units: "units uh = replicate (uh_first uh) True @ False # replicate n False" by (simp add: units_def Nil n)
  have new: "(units uh)[uh_first uh := True] = replicate (uh_first uh) True @ True # replicate n False"
    unfolding units by (rule update_front)
  have ff: "first_free (units uh) = uh_first uh" by (simp add: units)
  let ?uh = "uh\<lparr>uh_first := uh_first uh + 1, uh_last := uh_last uh - 1, uh_busy := uh_busy uh + 1\<rparr>"
  have "stands_for uh ((units uh)[uh_first uh := True]) ?uh" unfolding new
    using assms(1) n by (simp add: Nil stands_for_def unr_inv_def units_def replicate_app_Cons_same)
  then show ?thesis using n by (simp add: alloc_unr_def alloc_unrl_def Nil ff)
next
  case (Cons up post)
  show ?thesis
  proof (cases "u_ptr up")
    case Ptr_uh
    then show ?thesis using assms(1) Cons by (simp add: unr_inv_def ends_ok_def)
  next
    case Ptr_null
    from alloc_first [where stale = stale, OF assms(1) Cons this assms(2)] show ?thesis
      by (auto simp: alloc_unr_def alloc_unrl_def Cons Ptr_null runs_def)
  next
    case (Ptr_map ub)
    then have "ub_busy ub < u_len up" using assms(1) Cons by (simp add: unr_inv_def list_ok_Cons unr_ok_def)
    moreover from alloc_map [where stale = stale, OF assms(1) Cons Ptr_map assms(2)] obtain y m where
      "bit_ffc (ub_map ub) (u_len up) = Some (int y)" "bit_set (ub_map ub) y = Some m"
      "first_free (units uh) = uh_first uh + y" 
      "runs (collapse_unr stale [] (up\<lparr>u_ptr := Ptr_map \<lparr>ub_busy = ub_busy ub + 1, ub_map = m\<rparr>\<rparr>) post (uh\<lparr>uh_busy := uh_busy uh + 1\<rparr>))
        (stands_for uh ((units uh)[uh_first uh + y := True]))" by metis
    ultimately show ?thesis by (auto simp: alloc_unr_def alloc_unrl_def Cons Ptr_map runs_def add.assoc)
  qed
qed

lemma alloc_unr_full:
  assumes "unr_inv uh" "\<And>uh. length (stale uh) = 15" "first_free (units uh) = length (units uh)"
  shows "alloc_unr stale uh = Some (- 1, clean_unrhdrl uh)"
proof (cases "uh_head uh")
  case Nil
  have "uh_last uh = 0" using assms(3) first_free_all [of "units uh"] by (cases "uh_last uh") (auto simp: units_def Nil)
  then show ?thesis by (simp add: alloc_unr_def alloc_unrl_def Nil)
next
  case (Cons up post)
  then show ?thesis using assms alloc_first [where stale = stale, OF assms(1) Cons _ assms(2)]
      alloc_map [where stale = stale, OF assms(1) Cons _ assms(2)]
    by (cases "u_ptr up") (fastforce simp: unr_inv_def ends_ok_def)+
qed

text \<open>Finding the chunk of an item.\<close>

lemma list_ok_wf: "list_ok us \<Longrightarrow> up \<in> set us \<Longrightarrow> unr_wf up"
  by (auto simp: list_ok_def list_all_iff intro: unr_ok_wf)

lemma find_unr_None: "list_ok us \<Longrightarrow> length (chunk_bits us) \<le> item \<Longrightarrow> find_unr pre us item = None"
  by (induction us arbitrary: pre item) (auto simp: list_ok_Cons unr_ok_wf)

lemma find_unr_Some:
  assumes "list_ok us" "item < length (chunk_bits us)"
  obtains qs up post j where "find_unr pre us item = Some (pre @ qs, up, post, j)" "us = qs @ up # post" "j < u_len up"
    "item = length (chunk_bits qs) + j"
  using assms
proof (induction us arbitrary: pre item thesis)
  case (Cons u us)
  have u: "unr_wf u" "list_ok us" using Cons.prems(2) by (simp_all add: list_ok_Cons unr_ok_wf)
  show ?case
  proof (cases "item < u_len u")
    case True
    then show ?thesis using Cons.prems(1) [of "[]"] by simp
  next
    case False
    then have "item - u_len u < length (chunk_bits us)" using Cons.prems(3) u by simp
    from Cons.IH [OF _ u(2) this, of "pre @ [u]"] obtain qs up post j where
      "find_unr (pre @ [u]) us (item - u_len u) = Some ((pre @ [u]) @ qs, up, post, j)" "us = qs @ up # post" "j < u_len up"
      "item - u_len u = length (chunk_bits qs) + j" by metis
    then show ?thesis using Cons.prems(1) [of "u # qs" up post j] False u by simp
  qed
qed simp

text \<open>
  The header as \<^verbatim>\<open>free_unrl\<close> searches it: the first chunk may be an allocated run.
\<close>

definition free_pre :: "unrhdr \<Rightarrow> bool" where
  "free_pre uh \<longleftrightarrow> list_ok (uh_head uh) \<and> uh_alloc uh = chunks (uh_head uh) \<and> uh_busy uh = of_nat (ones (units uh))"

lemma freed_bits:
  assumes "uh_head uh = pre @ up # post" "list_ok (uh_head uh)" "j < u_len up" "unr_bits up ! j"
    and "bs = (units uh)[uh_first uh + (length (chunk_bits pre) + j) := False]"
  shows "bs = replicate (uh_first uh) True @ chunk_bits pre @ (unr_bits up)[j := False] @ chunk_bits post @ replicate (uh_last uh) False"
    "ones bs + 1 = ones (units uh)"
proof -
  have "length (unr_bits up) = u_len up" using assms(1,2) by (simp add: list_ok_append list_ok_Cons unr_ok_wf)
  then show eq: "bs = replicate (uh_first uh) True @ chunk_bits pre @ (unr_bits up)[j := False] @ chunk_bits post @ replicate (uh_last uh) False"
    using assms(3) unfolding assms(5) units_def assms(1) by (simp add: list_update_append)
  show "ones bs + 1 = ones (units uh)"
    using ones_update(2) [of j "unr_bits up"] assms(1,3,4) \<open>length (unr_bits up) = u_len up\<close> by (simp add: eq units_def)
qed

lemma run_update: "i < n \<Longrightarrow> (replicate n True)[i := False] = replicate i True @ False # replicate (n - (1 + i)) True"
proof (induction n arbitrary: i)
  case (Suc n)
  then show ?case by (cases i) auto
qed simp

lemma busy_down: "ones bs + 1 = ones cs \<Longrightarrow> b = of_nat (ones cs) \<Longrightarrow> b - 1 = (of_nat (ones bs) :: 32 word)"
  by (metis add_diff_cancel_right' of_nat_1 of_nat_add)

lemma split_unr_ok:
  assumes "uh_head uh = pre @ up # post" "free_pre uh" "j < u_len up" "u_ptr up = Ptr_uh" "\<And>uh. length (stale uh) = 15"
    and "bs = (units uh)[uh_first uh + (length (chunk_bits pre) + j) := False]" "p1 \<and> p2 \<or> p2 \<and> j = 0"
  shows "runs (split_unr stale pre up post j p1 p2 uh) (stands_for uh bs)"
proof -
  have ok: "list_ok pre" "list_ok post" "pre \<noteq> [] \<Longrightarrow> u_ptr (last pre) \<noteq> Ptr_uh" "post \<noteq> [] \<Longrightarrow> u_ptr (hd post) \<noteq> Ptr_uh"
    using assms(1,2,4) by (auto simp: free_pre_def list_ok_append list_ok_Cons same_ptr_iff)
  have bit: "unr_bits up ! j" using assms(3,4) by (simp add: run_bits)
  note freed = freed_bits [OF assms(1) _ assms(3) bit assms(6)]
  let ?pl = "u_len up - (1 + j)"
  let ?post = "if ?pl > 0 then \<lparr>u_len = ?pl, u_ptr = Ptr_uh\<rparr> # post else post"
  let ?pre = "if j > 0 then pre @ [\<lparr>u_len = j, u_ptr = Ptr_uh\<rparr>] else pre"
  let ?n = "(if ?pl > 0 then 1 else 0) + (if j > 0 then 1 else 0)"
  let ?uh = "uh\<lparr>uh_alloc := uh_alloc uh + ?n, uh_busy := uh_busy uh - 1\<rparr>" and ?up = "up\<lparr>u_len := 1, u_ptr := Ptr_null\<rparr>"
  have split: "split_unr stale pre up post j p1 p2 uh = collapse_unr stale ?pre ?up ?post ?uh"
    using assms(7) by (auto simp: split_unr_def new_unr_def Let_def add.commute)
  have lists: "list_ok ?pre" "list_ok ?post"
    using ok by (auto simp: list_ok_append list_ok_Cons unr_ok_def same_ptr_iff)
  have "runs (collapse_unr stale ?pre ?up ?post ?uh) (stands_for ?uh bs)"
  proof (rule collapse_inv [OF lists _ assms(5)])
    show "unr_wf ?up" by (simp add: unr_wf_def)
    show "uh_alloc ?uh = chunks (?pre @ ?up # ?post)" using assms(1,2,4) by (simp add: free_pre_def)
    show "uh_busy ?uh = of_nat (ones bs)" using busy_down freed(2) assms(2) by (simp add: free_pre_def)
    show "replicate (uh_first ?uh) True @ chunk_bits (?pre @ ?up # ?post) @ replicate (uh_last ?uh) False = bs"
      using freed(1) assms(2,3,4) by (simp add: free_pre_def run_bits run_update)
  qed
  then show ?thesis unfolding split by (simp add: stands_for_def [abs_def])
qed

lemma free_run_ok:
  assumes "uh_head uh = pre @ up # post" "free_pre uh" "j < u_len up" "u_ptr up = Ptr_uh" "\<And>uh. length (stale uh) = 15"
    and "bs = (units uh)[uh_first uh + (length (chunk_bits pre) + j) := False]" "p1 \<and> p2 \<or> p2 \<and> j = 0"
  shows "runs (free_run stale pre up post j p1 p2 uh) (stands_for uh bs)"
proof -
  have ok: "list_ok pre" "list_ok post" "pre \<noteq> [] \<Longrightarrow> u_ptr (last pre) \<noteq> Ptr_uh" "post \<noteq> [] \<Longrightarrow> u_ptr (hd post) \<noteq> Ptr_uh"
    using assms(1,2,4) by (auto simp: free_pre_def list_ok_append list_ok_Cons same_ptr_iff)
  have bit: "unr_bits up ! j" using assms(3,4) by (simp add: run_bits)
  have "list_ok (uh_head uh)" using assms(2) by (simp add: free_pre_def)
  note freed = freed_bits [OF assms(1) this assms(3) bit assms(6)]
  let ?uh = "uh\<lparr>uh_busy := uh_busy uh - 1\<rparr>"
  have busy: "uh_busy ?uh = of_nat (ones bs)" using busy_down freed(2) assms(2) by (simp add: free_pre_def)
  have all: "uh_alloc ?uh = chunks (pre @ up # post)" using assms(1,2) by (simp add: free_pre_def)
  have stands: "runs m (stands_for ?uh bs) \<Longrightarrow> runs m (stands_for uh bs)" for m by (simp add: stands_for_def [abs_def])
  let ?prev = "j = 0 \<and> pre \<noteq> [] \<and> u_ptr (last pre) = Ptr_null"
  let ?next = "j = u_len up - 1 \<and> post \<noteq> [] \<and> u_ptr (hd post) = Ptr_null"
  consider (one) "u_len up = 1" | (prev) "u_len up \<noteq> 1" ?prev | (nxt) "u_len up \<noteq> 1" "\<not> ?prev" ?next
    | (split) "u_len up \<noteq> 1" "\<not> ?prev" "\<not> ?next" by blast
  then show ?thesis
  proof cases
    case one
    have "runs (collapse_unr stale pre (up\<lparr>u_ptr := Ptr_null\<rparr>) post ?uh) (stands_for ?uh bs)"
      by (rule collapse_inv [OF ok(1,2) _ assms(5) _ busy])
         (use one assms(3,4) all freed(1) in \<open>simp_all add: unr_wf_def run_bits\<close>)
    then show ?thesis using one stands by (simp add: free_run_def)
  next
    case prev
    then obtain ps q where pre: "pre = ps @ [q]" "u_ptr q = Ptr_null" by (cases pre rule: rev_cases) auto
    then have "list_ok ps" "unr_ok q" "ps \<noteq> [] \<Longrightarrow> apart (last ps) q" using ok(1) by (simp_all add: list_ok_append list_ok_Cons)
    then have "list_ok (ps @ [q\<lparr>u_len := u_len q + 1\<rparr>])" using pre(2)
      by (auto simp: list_ok_append list_ok_Cons unr_ok_def same_ptr_iff)
    from collapse_inv [OF this ok(2) _ assms(5) _ busy, of "up\<lparr>u_len := u_len up - 1\<rparr>"]
    show ?thesis using prev pre assms(3,4) all freed(1) stands
      by (simp add: free_run_def unr_wf_def run_bits run_update replicate_append_same [symmetric])
  next
    case nxt
    then obtain q qs where post: "post = q # qs" "u_ptr q = Ptr_null" by (cases post) auto
    then have "unr_ok q" "list_ok qs" "qs \<noteq> [] \<Longrightarrow> apart q (hd qs)" using ok(2) by (simp_all add: list_ok_Cons)
    then have "list_ok (q\<lparr>u_len := u_len q + 1\<rparr> # qs)" using post(2)
      by (auto simp: list_ok_Cons unr_ok_def same_ptr_iff)
    from collapse_inv [OF ok(1) this _ assms(5) _ busy, of "up\<lparr>u_len := u_len up - 1\<rparr>"]
    show ?thesis using nxt post assms(3,4) all freed(1) stands
      by (auto simp: free_run_def unr_wf_def run_bits run_update)
  next
    case split
    then show ?thesis using split_unr_ok [where stale = stale, OF assms] by (auto simp: free_run_def Let_def)
  qed
qed

lemma chunk_nth:
  assumes "list_ok (qs @ up # post)" "j < u_len up"
  shows "chunk_bits (qs @ up # post) ! (length (chunk_bits qs) + j) = unr_bits up ! j"
  using assms by (simp add: nth_append list_ok_append list_ok_Cons unr_ok_wf)

lemma free_chunk_ok:
  assumes "free_pre uh" "item < length (chunk_bits (uh_head uh))" "chunk_bits (uh_head uh) ! item" "\<And>uh. length (stale uh) = 15"
    and "p1 \<and> p2 \<or> p2 \<and> item = 0"
  shows "runs (free_chunk stale item p1 p2 uh) (stands_for uh ((units uh)[uh_first uh + item := False]))"
proof -
  let ?bs = "(units uh)[uh_first uh + item := False]"
  have ok: "list_ok (uh_head uh)" using assms(1) by (simp add: free_pre_def)
  obtain pre up post j where
    find: "find_unr [] (uh_head uh) item = Some (pre, up, post, j)" and head: "uh_head uh = pre @ up # post"
      and j: "j < u_len up" "item = length (chunk_bits pre) + j"
    using find_unr_Some [OF ok assms(2), of "[]"] by (metis append_Nil)
  have bit: "unr_bits up ! j" using chunk_nth [of pre up post j] ok head j assms(3) by simp
  have bs: "?bs = (units uh)[uh_first uh + (length (chunk_bits pre) + j) := False]" by (simp add: j(2))
  note freed = freed_bits [OF head ok j(1) bit bs]
  show ?thesis
  proof (cases "u_ptr up")
    case Ptr_null
    then show ?thesis using bit j(1) by (simp add: run_bits)
  next
    case Ptr_uh
    have "p1 \<and> p2 \<or> p2 \<and> j = 0" using assms(5) j(2) by auto
    from free_run_ok [where stale = stale, OF head assms(1) j(1) Ptr_uh assms(4) bs this] show ?thesis
      by (simp add: free_chunk_def find Ptr_uh)
  next
    case (Ptr_map ub)
    then have ub: "map_ok (u_len up) ub" "0 < ub_busy ub" using ok head by (simp_all add: list_ok_append list_ok_Cons unr_ok_def)
    let ?bits = "bits_of (ub_map ub)"
    have inb: "j < length ?bits" "?bits ! j" using ub(1) j(1) bit by (simp_all add: map_ok_def unr_bits_def Ptr_map)
    obtain m where m: "bit_clear (ub_map ub) j = Some m" "bits_of m = ?bits[j := False]"
      using bs.clear1 [OF inb(1)] by (auto simp: runs_def)
    let ?up = "up\<lparr>u_ptr := Ptr_map \<lparr>ub_busy = ub_busy ub - 1, ub_map = m\<rparr>\<rparr>" and ?uh = "uh\<lparr>uh_busy := uh_busy uh - 1\<rparr>"
    have up: "unr_bits ?up = (unr_bits up)[j := False]" by (simp add: unr_bits_def Ptr_map m(2) take_update_swap)
    have "length (ub_map ub) = length m" using arg_cong [OF m(2), of length] by simp
    moreover have "ones ((unr_bits up)[j := False]) + 1 = ones (unr_bits up)"
      using bit j(1) ok head by (intro ones_update) (simp_all add: list_ok_append list_ok_Cons unr_ok_wf)
    ultimately have wf: "unr_wf ?up" using ub up by (simp add: unr_wf_def map_ok_def unr_bits_def Ptr_map)
    have "runs (collapse_unr stale pre ?up post ?uh) (stands_for ?uh ?bs)"
      by (rule collapse_inv [OF _ _ wf assms(4)])
         (use ok head assms(1) freed(1) busy_down [OF freed(2)] up Ptr_map in
           \<open>simp_all add: list_ok_append list_ok_Cons free_pre_def\<close>)
    then have "runs (collapse_unr stale pre ?up post ?uh) (stands_for uh ?bs)" by (simp add: stands_for_def [abs_def])
    then show ?thesis using inb by (simp add: free_chunk_def find Ptr_map bs.test m(1))
  qed
qed

lemma free_chunk_refused:
  assumes "free_pre uh" "item < length (chunk_bits (uh_head uh)) \<Longrightarrow> \<not> chunk_bits (uh_head uh) ! item"
  shows "free_chunk stale item p1 p2 uh = None"
proof -
  have ok: "list_ok (uh_head uh)" using assms(1) by (simp add: free_pre_def)
  show ?thesis
  proof (cases "item < length (chunk_bits (uh_head uh))")
    case True
    obtain pre up post j where
      find: "find_unr [] (uh_head uh) item = Some (pre, up, post, j)" and head: "uh_head uh = pre @ up # post"
        and j: "j < u_len up" "item = length (chunk_bits pre) + j"
      using find_unr_Some [OF ok True, of "[]"] by (metis append_Nil)
    have bit: "\<not> unr_bits up ! j" using chunk_nth [of pre up post j] ok head j assms(2) [OF True] by simp
    then show ?thesis
    proof (cases "u_ptr up")
      case (Ptr_map ub)
      then have "j < length (bits_of (ub_map ub))" using ok head j(1)
        by (simp add: list_ok_append list_ok_Cons unr_ok_def map_ok_def)
      then show ?thesis using bit j(1) by (simp add: free_chunk_def find Ptr_map bs.test unr_bits_def)
    qed (use j(1) in \<open>simp_all add: free_chunk_def find run_bits\<close>)
  next
    case False
    then show ?thesis using find_unr_None [OF ok] by (simp add: free_chunk_def)
  qed
qed

text \<open>The header after the run in front of the list has been cut at \<open>item\<close>.\<close>

lemma free_cut:
  assumes "unr_inv uh" "item < uh_first uh"
    and "uh' = uh\<lparr>uh_alloc := uh_alloc uh + 1, uh_head := \<lparr>u_len = uh_first uh - item, u_ptr = Ptr_uh\<rparr> # uh_head uh, uh_first := item\<rparr>"
  shows "free_pre uh'" "units uh' = units uh" "stands_for uh' bs = stands_for uh bs"
    "0 < length (chunk_bits (uh_head uh'))" "chunk_bits (uh_head uh') ! 0"
proof -
  have "replicate item True @ replicate (uh_first uh - item) True = replicate (uh_first uh) True"
    using assms(2) by (simp add: replicate_add [symmetric])
  then show units: "units uh' = units uh" by (simp add: assms(3) units_def run_bits flip: append_assoc)
  show "free_pre uh'" using assms(1,2) units
    by (auto simp: assms(3) free_pre_def unr_inv_def list_ok_Cons unr_ok_def ends_ok_def same_ptr_iff)
  show "stands_for uh' bs = stands_for uh bs" by (simp add: assms(3) stands_for_def [abs_def])
  show "0 < length (chunk_bits (uh_head uh'))" "chunk_bits (uh_head uh') ! 0"
    using assms(2) by (simp_all add: assms(3) run_bits nth_append)
qed

lemma unr_inv_free_pre: "unr_inv uh \<Longrightarrow> free_pre uh"
  by (simp add: unr_inv_def free_pre_def)

lemma units_nth:
  assumes "uh_first uh \<le> n"
  shows "n < length (units uh) \<and> units uh ! n \<longleftrightarrow>
    n - uh_first uh < length (chunk_bits (uh_head uh)) \<and> chunk_bits (uh_head uh) ! (n - uh_first uh)"
  using assms by (auto simp: units_def nth_append)

lemma free_unr_ok:
  assumes "unr_inv uh" "\<And>uh. length (stale uh) = 15" "uh_low uh \<le> item" "item \<le> uh_high uh"
    and "unat (item - uh_low uh) < length (units uh)" "units uh ! unat (item - uh_low uh)"
  shows "runs (free_unr stale uh item) (stands_for uh ((units uh)[unat (item - uh_low uh) := False]))"
proof -
  define n where "n = unat (item - uh_low uh)"
  consider (ideal) "n + 1 = uh_first uh" "uh_head uh = []" | (cut) "\<not> (n + 1 = uh_first uh \<and> uh_head uh = [])" "n < uh_first uh"
    | (list) "\<not> (n + 1 = uh_first uh \<and> uh_head uh = [])" "uh_first uh \<le> n" by linarith
  then have "runs (free_unrl stale uh item True True) (stands_for uh ((units uh)[n := False]))"
  proof cases
    case ideal
    have units: "units uh = replicate n True @ True # replicate (uh_last uh) False"
      by (simp add: units_def ideal(2) ideal(1) [symmetric] replicate_app_Cons_same)
    have "(units uh)[n := False] = replicate n True @ False # replicate (uh_last uh) False" unfolding units by (rule update_front)
    then show ?thesis using assms(1,3,4) ideal units
      by (simp add: free_unrl_def n_def [symmetric] stands_for_def unr_inv_def) (simp add: units_def ideal(1) [symmetric])
  next
    case cut
    let ?uh = "uh\<lparr>uh_alloc := uh_alloc uh + 1, uh_head := \<lparr>u_len = uh_first uh - n, u_ptr = Ptr_uh\<rparr> # uh_head uh, uh_first := n\<rparr>"
    note c = free_cut [OF assms(1) cut(2) refl]
    from free_chunk_ok [where stale = stale, OF c(1,4,5) assms(2), of False True] have
      "runs (free_chunk stale 0 False True ?uh) (stands_for uh ((units uh)[n := False]))" by (simp add: c(2,3))
    then show ?thesis using assms(3,4) cut by (auto simp: free_unrl_def n_def [symmetric] new_unr_def Let_def)
  next
    case list
    have "n - uh_first uh < length (chunk_bits (uh_head uh))" "chunk_bits (uh_head uh) ! (n - uh_first uh)"
      using units_nth [OF list(2)] assms(5,6) by (simp_all add: n_def)
    from free_chunk_ok [where stale = stale, OF unr_inv_free_pre [OF assms(1)] this assms(2), of True True]
    show ?thesis using assms(3,4) list by (auto simp: free_unrl_def n_def [symmetric])
  qed
  then show ?thesis by (auto simp: free_unr_def n_def runs_def)
qed

lemma free_unr_refused:
  assumes "unr_inv uh"
    and "\<not> (uh_low uh \<le> item \<and> item \<le> uh_high uh \<and> unat (item - uh_low uh) < length (units uh) \<and> units uh ! unat (item - uh_low uh))"
  shows "free_unr stale uh item = None"
proof -
  define n where "n = unat (item - uh_low uh)"
  consider (range) "\<not> (uh_low uh \<le> item \<and> item \<le> uh_high uh)"
    | (list) "uh_low uh \<le> item" "item \<le> uh_high uh" "\<not> (n < length (units uh) \<and> units uh ! n)"
    using assms(2) by (auto simp: n_def)
  then show ?thesis
  proof cases
    case range
    then show ?thesis by (simp add: free_unr_def free_unrl_def)
  next
    case list
    have n: "uh_first uh \<le> n"
    proof (rule ccontr)
      assume "\<not> uh_first uh \<le> n"
      then show False using list(3) by (simp add: units_def nth_append)
    qed
    from units_nth [OF n] list(3) have
      "n - uh_first uh < length (chunk_bits (uh_head uh)) \<Longrightarrow> \<not> chunk_bits (uh_head uh) ! (n - uh_first uh)" by blast
    from free_chunk_refused [OF unr_inv_free_pre [OF assms(1)] this, of stale True True] list(1,2) n show ?thesis
      by (simp add: free_unr_def free_unrl_def n_def [symmetric])
  qed
qed

section \<open>The consistency check\<close>

lemma check_count_ok:
  "x + n \<le> length (bits_of bm) \<Longrightarrow> check_count bm x n w = Some (w + of_nat (ones (take n (drop x (bits_of bm)))))"
proof (induction bm x n w rule: check_count.induct)
  case (2 bm x n w)
  then have x: "x < length (bits_of bm)" by simp
  have "take (Suc n) (drop x (bits_of bm)) = bits_of bm ! x # take n (drop (Suc x) (bits_of bm))"
    using x by (simp add: Cons_nth_drop_Suc [symmetric])
  then show ?case using 2 bs.test [OF x] by simp
qed simp

lemma check_loop_ok:
  "list_all unr_wf us \<Longrightarrow> check_loop us y z = Some (True, y + of_nat (ones (chunk_bits us)), z + chunks us)"
proof (induction us arbitrary: y z)
  case (Cons u us)
  show ?case
  proof (cases "u_ptr u")
    case (Ptr_map ub)
    then have "map_ok (u_len u) ub" using Cons.prems by (simp add: unr_wf_def)
    then show ?thesis using Cons check_count_ok [of 0 "u_len u" "ub_map ub"]
      by (simp add: Ptr_map map_ok_def unr_bits_def Let_def algebra_simps)
  qed (use Cons in \<open>simp_all add: run_bits Let_def algebra_simps\<close>)
qed simp

lemma check_unrhdr_ok: "unr_inv uh \<Longrightarrow> check_unrhdr uh = Some True"
proof -
  assume inv: "unr_inv uh"
  then have "list_all unr_wf (uh_head uh)" by (auto simp: unr_inv_def list_ok_def list_all_iff intro: unr_ok_wf)
  then show "check_unrhdr uh = Some True" using inv
    by (simp add: check_unrhdr_def check_loop_ok unr_inv_def units_def)
qed

text \<open>A header without allocated numbers has no chunks.\<close>

lemma idle_head:
  assumes "unr_inv uh" "ones (units uh) = 0"
  shows "uh_head uh = []"
proof (cases "uh_head uh" rule: rev_cases)
  case (snoc us up)
  then have "unr_ok up" "u_ptr up \<noteq> Ptr_null" "ones (unr_bits up) = 0"
    using assms by (auto simp: unr_inv_def list_ok_append list_ok_Cons ends_ok_def units_def)
  then have False by (cases "u_ptr up") (auto simp: unr_ok_def map_ok_def unr_bits_def)
  then show ?thesis ..
qed simp

section \<open>The abstract allocator\<close>

datatype unr_op = Alloc | Free "32 word"

text \<open>A set of numbers in use: the lowest number not in use is handed out, and only a number in use can come back.\<close>

fun spec_op :: "int \<Rightarrow> int \<Rightarrow> unr_op \<Rightarrow> int set \<Rightarrow> (int \<times> int set) option" where
  "spec_op lo hi Alloc used =
     (if {lo..hi} \<subseteq> used then Some (- 1, used)
      else let x = Min ({lo..hi} - used) in Some (x, insert x used))"
| "spec_op lo hi (Free item) used = (if uint item \<in> used then Some (0, used - {uint item}) else None)"

fun unr_call :: "(unrhdr \<Rightarrow> bitstr) \<Rightarrow> unr_op \<Rightarrow> unrhdr \<Rightarrow> (int \<times> unrhdr) option" where
  "unr_call stale Alloc uh = alloc_unr stale uh"
| "unr_call stale (Free item) uh = map_option (Pair 0) (free_unr stale uh item)"

definition in_use :: "unrhdr \<Rightarrow> int set" where
  "in_use uh = {uint (uh_low uh) + int i | i. i < length (units uh) \<and> units uh ! i}"

definition unr_state :: "int \<Rightarrow> int \<Rightarrow> unrhdr \<Rightarrow> bool" where
  "unr_state lo hi uh \<longleftrightarrow> unr_inv uh \<and> uint (uh_low uh) = lo \<and> uint (uh_high uh) = hi \<and> int (length (units uh)) = hi - lo + 1"

lemma in_use_range: "unr_state lo hi uh \<Longrightarrow> in_use uh \<subseteq> {lo..hi}"
  by (auto simp: unr_state_def in_use_def)

lemma in_use_nth:
  assumes "unr_state lo hi uh" "lo \<le> x" "x \<le> hi"
  shows "x \<in> in_use uh \<longleftrightarrow> units uh ! nat (x - lo)"
proof -
  define i where "i = nat (x - lo)"
  have "i < length (units uh)" "x = lo + int i" "uint (uh_low uh) = lo" using assms by (auto simp: unr_state_def i_def)
  then show ?thesis unfolding in_use_def i_def [symmetric] by auto
qed

lemma unr_state_stands_for:
  "unr_state lo hi uh \<Longrightarrow> length bs = length (units uh) \<Longrightarrow> stands_for uh bs uh' \<Longrightarrow> unr_state lo hi uh'"
  by (auto simp: unr_state_def stands_for_def)

lemma first_free_Min:
  assumes "unr_state lo hi uh" "first_free (units uh) < length (units uh)"
  shows "Min ({lo..hi} - in_use uh) = lo + int (first_free (units uh))" "\<not> {lo..hi} \<subseteq> in_use uh"
proof -
  let ?n = "first_free (units uh)"
  have free: "lo + int ?n \<in> {lo..hi} - in_use uh"
    using assms first_free_nth [OF assms(2)] in_use_nth [OF assms(1), of "lo + int ?n"] by (auto simp: unr_state_def)
  have low: "lo + int ?n \<le> x" if x: "x \<in> {lo..hi} - in_use uh" for x
  proof (rule ccontr)
    assume "\<not> lo + int ?n \<le> x"
    then have "nat (x - lo) < ?n" using x by auto
    then have "units uh ! nat (x - lo)"
      using takeWhile_nth [of "nat (x - lo)" id "units uh"] nth_mem [of "nat (x - lo)" "takeWhile id (units uh)"]
        set_takeWhileD by (fastforce simp: first_free_def)
    then show False using x in_use_nth [OF assms(1), of x] by simp
  qed
  show "Min ({lo..hi} - in_use uh) = lo + int ?n" by (rule Min_eqI) (use free low in auto)
  show "\<not> {lo..hi} \<subseteq> in_use uh" using free by blast
qed

lemma first_free_full:
  assumes "unr_state lo hi uh" "first_free (units uh) = length (units uh)"
  shows "{lo..hi} \<subseteq> in_use uh"
proof
  fix x assume "x \<in> {lo..hi}"
  then have x: "lo \<le> x" "x \<le> hi" "nat (x - lo) < length (units uh)" using assms(1) by (auto simp: unr_state_def)
  from assms(2) have "units uh ! nat (x - lo)" using x(3) by (metis first_free_all nth_replicate)
  then show "x \<in> in_use uh" using in_use_nth [OF assms(1) x(1,2)] by simp
qed

lemma in_use_update:
  assumes "unr_state lo hi uh" "n < length (units uh)" "stands_for uh ((units uh)[n := b]) uh'"
  shows "in_use uh' = (if b then insert (lo + int n) (in_use uh) else in_use uh - {lo + int n})"
proof -
  have state: "unr_state lo hi uh'" by (rule unr_state_stands_for [OF assms(1) _ assms(3)]) simp
  have "x \<in> in_use uh' \<longleftrightarrow> x \<in> (if b then insert (lo + int n) (in_use uh) else in_use uh - {lo + int n})" for x
  proof (cases "x \<in> {lo..hi}")
    case True
    then have "x = lo + int n \<longleftrightarrow> nat (x - lo) = n" by auto
    then show ?thesis using True in_use_nth [OF state, of x] in_use_nth [OF assms(1), of x] assms(2,3)
      by (auto simp: stands_for_def nth_list_update)
  next
    case False
    then show ?thesis using in_use_range [OF state] in_use_range [OF assms(1)] assms(1,2) by (auto simp: unr_state_def)
  qed
  then show ?thesis by blast
qed

lemma unit_number:
  assumes "unr_state lo hi uh" "hi < 2 ^ 31" "n < length (units uh)"
  shows "sint (uh_low uh + of_nat n) = lo + int n"
proof -
  define l where "l = unat (uh_low uh)"
  have lo: "lo = int l" using assms(1) by (simp add: unr_state_def l_def)
  then have sum: "l + n < 2 ^ 31" using assms by (auto simp: unr_state_def)
  then have "unat (of_nat n :: 32 word) = n" by (simp add: unat_of_nat)
  then have "unat (uh_low uh + of_nat n) = l + n" using sum by (simp add: unat_word_ariths l_def)
  then show ?thesis using sum lo by (subst sint_eq_unat) simp_all
qed

lemma free_offset:
  assumes "unr_state lo hi uh" "uh_low uh \<le> item"
  shows "unat (item - uh_low uh) = nat (uint item - lo)"
proof -
  have "unat (item - uh_low uh) = unat item - unat (uh_low uh)" using assms(2) by (simp add: unat_sub)
  moreover have "uint item = int (unat item)" "lo = int (unat (uh_low uh))" using assms(1) by (simp_all add: unr_state_def)
  ultimately show ?thesis by (metis nat_minus_as_int)
qed

definition ex_unr :: unrhdr where
  "ex_unr = \<lparr>uh_head = [], uh_low = 5, uh_high = 7, uh_busy = 0, uh_alloc = 0, uh_first = 0, uh_last = 3, uh_ppfree = 0\<rparr>"

definition unr_good :: "(unrhdr \<Rightarrow> bitstr) \<Rightarrow> int \<Rightarrow> int \<Rightarrow> unrhdr \<Rightarrow> bool" where
  "unr_good stale lo hi uh \<longleftrightarrow> (\<forall>uh. length (stale uh) = 15) \<and> hi < 2 ^ 31 \<and> unr_state lo hi uh"

interpretation ur: op_refines "unr_call stale" "spec_op lo hi" "unr_good stale lo hi" in_use for stale lo hi
proof
  fix uh c
  assume good: "unr_good stale lo hi uh" and none: "spec_op lo hi c (in_use uh) = None"
  then obtain item where c: "c = Free item" "uint item \<notin> in_use uh" by (cases c) (auto simp: Let_def split: if_splits)
  have state: "unr_state lo hi uh" using good by (simp add: unr_good_def)
  have "\<not> (uh_low uh \<le> item \<and> item \<le> uh_high uh \<and> unat (item - uh_low uh) < length (units uh) \<and> units uh ! unat (item - uh_low uh))"
  proof
    assume h: "uh_low uh \<le> item \<and> item \<le> uh_high uh \<and> unat (item - uh_low uh) < length (units uh) \<and> units uh ! unat (item - uh_low uh)"
    then have "lo \<le> uint item" "uint item \<le> hi" using state by (auto simp: unr_state_def word_le_def)
    then show False using in_use_nth [OF state] free_offset [OF state] h c(2) by auto
  qed
  from free_unr_refused [OF _ this, of stale] show "unr_call stale c uh = None"
    using state by (simp add: c(1) unr_state_def)
next
  fix uh c r a
  assume good: "unr_good stale lo hi uh" and some: "spec_op lo hi c (in_use uh) = Some (r, a)"
  then have state: "unr_state lo hi uh" and stale: "\<And>uh. length (stale uh) = 15" and hi: "hi < 2 ^ 31" and inv: "unr_inv uh"
    by (simp_all add: unr_good_def unr_state_def)
  have good': "unr_good stale lo hi uh'" if "stands_for uh bs uh'" "length bs = length (units uh)" for bs uh'
    using unr_state_stands_for [OF state that(2,1)] stale hi by (simp add: unr_good_def)
  show "runs (unr_call stale c uh) (\<lambda>(r', uh'). r' = r \<and> unr_good stale lo hi uh' \<and> in_use uh' = a)"
  proof (cases c)
    case Alloc
    show ?thesis
    proof (cases "first_free (units uh) < length (units uh)")
      case True
      have "r = lo + int (first_free (units uh))" "a = insert r (in_use uh)"
        using some first_free_Min [OF state True] by (auto simp: Alloc Let_def)
      with alloc_unr_ok [where stale = stale, OF inv stale True] show ?thesis
        using unit_number [OF state hi True] in_use_update [OF state True] good'
        by (auto simp: Alloc elim!: runs_weaken)
    next
      case False
      then have full: "first_free (units uh) = length (units uh)"
        by (simp add: first_free_def order_antisym length_takeWhile_le)
      have "stands_for uh (units uh) uh" using inv by (simp add: stands_for_def)
      then have "stands_for uh (units uh) (clean_unrhdrl uh)" by simp
      then show ?thesis using alloc_unr_full [where stale = stale, OF inv stale full] first_free_full [OF state full] some good'
        by (auto simp: Alloc in_use_def stands_for_def)
    qed
  next
    case (Free item)
    then have item: "uint item \<in> in_use uh" "r = 0" "a = in_use uh - {uint item}" using some by (auto split: if_splits)
    then have range: "lo \<le> uint item" "uint item \<le> hi" using in_use_range [OF state] by auto
    then have words: "uh_low uh \<le> item" "item \<le> uh_high uh" using state by (auto simp: unr_state_def word_le_def)
    have n: "unat (item - uh_low uh) = nat (uint item - lo)" by (rule free_offset [OF state words(1)])
    have bounds: "nat (uint item - lo) < length (units uh)" using range state by (auto simp: unr_state_def)
    have "units uh ! nat (uint item - lo)" using in_use_nth [OF state range] item(1) by simp
    with free_unr_ok [where stale = stale, OF inv stale words] n bounds
    have "runs (free_unr stale uh item) (stands_for uh ((units uh)[nat (uint item - lo) := False]))" by simp
    then show ?thesis using in_use_update [OF state bounds] range good' item(2,3)
      by (auto simp: Free runs_def)
  qed
qed

lemma new_unrhdr_good:
  assumes "0 \<le> lo" "lo \<le> hi" "hi < 2 ^ 31" "\<forall>uh. length (stale uh) = 15"
    and "new_unrhdr (word_of_int lo) (word_of_int hi) = Some uh"
  shows "unr_good stale lo hi uh" "in_use uh = {}"
proof -
  have words: "uint (word_of_int lo :: 32 word) = lo" "uint (word_of_int hi :: 32 word) = hi"
    using assms(1-3) by (simp_all add: uint_word_of_int)
  have "uint (1 + (word_of_int hi - word_of_int lo) :: 32 word) = hi - lo + 1"
    using assms(1-3) by (simp add: uint_word_ariths words)
  then have "int (unat (1 + (word_of_int hi - word_of_int lo) :: 32 word)) = hi - lo + 1" by simp
  then show "unr_good stale lo hi uh" "in_use uh = {}" using assms words
    by (auto simp: new_unrhdr_def unr_good_def unr_state_def unr_inv_def units_def ends_ok_def in_use_def split: if_splits)
qed

lemma unr_call_clean: "unr_call stale c uh = Some (r, uh') \<Longrightarrow> uh_ppfree uh' = 0"
  by (cases c) (auto simp: alloc_unr_def free_unr_def clean_unrhdrl_def split: bind_splits)

lemma run_clean: "run_ops (unr_call stale) cs uh = Some (rs, uh') \<Longrightarrow> uh_ppfree uh = 0 \<Longrightarrow> uh_ppfree uh' = 0"
proof (induction cs arbitrary: uh rs)
  case (Cons c cs)
  then obtain r uh1 qs where "unr_call stale c uh = Some (r, uh1)" "run_ops (unr_call stale) cs uh1 = Some (qs, uh')"
    by (auto split: bind_splits)
  then show ?case using Cons.IH unr_call_clean by blast
qed simp

section \<open>Properties\<close>

text \<open>C2: The unit number allocator is the abstract allocator: for every sequence of allocations and releases it
  returns the same numbers, always the lowest free one and -1 when there is none, and it panics exactly when a number is
  released that is not in use. In particular the regrouping of runs and bitmaps ends, needs no more than the two chunks
  allocated in advance and never shows.\<close>

theorem unr_refines:
  assumes "0 \<le> lo" "lo \<le> hi" "hi < 2 ^ 31" "\<forall>uh. length (stale uh) = 15"
    and "new_unrhdr (word_of_int lo) (word_of_int hi) = Some uh"
  shows "map_option fst (run_ops (unr_call stale) cs uh) = map_option fst (run_ops (spec_op lo hi) cs {})"
proof -
  note new = new_unrhdr_good [OF assms]
  from ur.run_results [OF new(1), of cs] new(2)
  have "map_option fst (run_ops (spec_op lo hi) cs {}) = map_option fst (map_option (map_prod id in_use) (run_ops (unr_call stale) cs uh))"
    by simp
  then show ?thesis by (simp add: option.map_comp comp_def)
qed

theorem unr_refines_witness:
  "map_option fst (run_ops (unr_call (\<lambda>uh. replicate 15 0xa5)) [Alloc, Alloc, Alloc, Free 6, Alloc, Alloc] ex_unr) =
   Some [5, 6, 7, 0, 6, - 1]"
proof (rule trans [OF unr_refines [where lo = 5 and hi = 7]])
  show "new_unrhdr (word_of_int 5) (word_of_int 7) = Some ex_unr" by code_simp
  show "map_option fst (run_ops (spec_op 5 7) [Alloc, Alloc, Alloc, Free 6, Alloc, Alloc] {}) = Some [5, 6, 7, 0, 6, - 1]"
    by code_simp
qed simp_all

text \<open>C31: Whatever calls were made, the allocator's own consistency check holds: the counters of allocated numbers and of
  memory chunks are exact. And once all numbers are back nothing is left to free: the assertions of \<^verbatim>\<open>delete_unrhdr\<close> hold.\<close>

theorem unr_consistent:
  assumes "0 \<le> lo" "lo \<le> hi" "hi < 2 ^ 31" "\<forall>uh. length (stale uh) = 15"
    and "new_unrhdr (word_of_int lo) (word_of_int hi) = Some uh" "run_ops (unr_call stale) cs uh = Some (rs, uh')"
  shows "check_unrhdr uh' = Some True \<and> (run_ops (spec_op lo hi) cs {} = Some (rs, {}) \<longrightarrow> delete_unrhdr uh' = Some ())"
proof -
  note new = new_unrhdr_good [OF assms(1-5)]
  have inv: "unr_inv uh'" using ur.run_inv [OF new(1) assms(6)] by (simp add: unr_good_def unr_state_def)
  have "delete_unrhdr uh' = Some ()" if "run_ops (spec_op lo hi) cs {} = Some (rs, {})"
  proof -
    have "in_use uh' = {}" using ur.run_results [OF new(1), of cs] new(2) assms(6) that by simp
    then have "\<forall>i<length (units uh'). \<not> units uh' ! i" by (auto simp: in_use_def)
    then have "units uh' = replicate (length (units uh')) False" by (intro nth_equalityI) auto
    then have "ones (units uh') = 0" by (metis ones_simps(5))
    moreover have "uh_ppfree uh' = 0" using run_clean [OF assms(6)] assms(5) by (auto simp: new_unrhdr_def split: if_splits)
    ultimately show ?thesis using inv idle_head [OF inv] by (simp add: delete_unrhdr_def unr_inv_def)
  qed
  then show ?thesis using check_unrhdr_ok [OF inv] by simp
qed

theorem unr_consistent_witness: "check_unrhdr ex_unr = Some True \<and> delete_unrhdr ex_unr = Some ()"
proof -
  let ?cs = "[Alloc, Alloc, Alloc, Free 6, Free 5, Free 7]" and ?rs = "[5, 6, 7, 0, 0, 0] :: int list"
  have "new_unrhdr (word_of_int 5) (word_of_int 7) = Some ex_unr" by code_simp
  moreover have "run_ops (unr_call (\<lambda>uh. replicate 15 0xa5)) ?cs ex_unr = Some (?rs, ex_unr)" by code_simp
  ultimately have "check_unrhdr ex_unr = Some True \<and>
    (run_ops (spec_op 5 7) ?cs {} = Some (?rs, {}) \<longrightarrow> delete_unrhdr ex_unr = Some ())"
    by (intro unr_consistent [where stale = "\<lambda>uh. replicate 15 0xa5"]) simp_all
  moreover have "run_ops (spec_op 5 7) ?cs {} = Some (?rs, {})" by code_simp
  ultimately show ?thesis by simp
qed

end
