(* ===== verification/Xdr.thy ===== *)
theory Xdr
  imports Jail
begin

text \<open>
  External data representation: the routines of \<^verbatim>\<open>src/sys/xdr/xdr.c\<close>, \<^verbatim>\<open>xdr_array.c\<close> and \<^verbatim>\<open>xdr_reference.c\<close>, which
  encode, decode or free an object over a stream given by a table of operations (\<^verbatim>\<open>src/sys/rpc/xdr.h\<close>).

  A stream operation works on the private data \<open>'s\<close> of the stream; its outer \<open>None\<close> is a fault. A routine takes the
  handle and the object its pointer argument points to and returns \<^verbatim>\<open>TRUE\<close> or \<^verbatim>\<open>FALSE\<close>, the object and the handle. A pointer
  to storage the routine may allocate is an \<open>option\<close>, \<open>None\<close> the null pointer; a call through it is a fault.
  \<^verbatim>\<open>mem_alloc\<close> waits for memory and clears it. On i386 \<^verbatim>\<open>long\<close> has 32 bits, so the casts between the
  32-bit types do nothing.
\<close>

type_synonym octets = "8 word list"

section \<open>Streams\<close>

datatype xdr_op = XDR_ENCODE | XDR_DECODE | XDR_FREE

text \<open>
  The table of operations. \<open>x_getlong\<close> gives the value, or \<open>None\<close> for \<^verbatim>\<open>FALSE\<close>; \<open>x_getbytes\<close> gives the result and
  the bytes it has copied out, on failure perhaps a part of them. The operations that look at \<^verbatim>\<open>x_op\<close> of the handle
  are given it. \<open>x_inline\<close> gives a pointer into the stream's own memory, a block and an offset;
  \<open>x_load\<close> and \<open>x_store\<close> are not members of the table but the memory accesses of a caller through such a pointer, which
  fault outside the block.
\<close>

type_synonym iptr = "nat \<times> nat"

record 's xdr_ops =
  x_getlong :: "xdr_op \<Rightarrow> 's \<Rightarrow> (32 word option \<times> 's) option"
  x_putlong :: "xdr_op \<Rightarrow> 32 word \<Rightarrow> 's \<Rightarrow> (bool \<times> 's) option"
  x_getbytes :: "nat \<Rightarrow> 's \<Rightarrow> (bool \<times> octets \<times> 's) option"
  x_putbytes :: "octets \<Rightarrow> 's \<Rightarrow> (bool \<times> 's) option"
  x_getpostn :: "'s \<Rightarrow> 32 word option"
  x_setpostn :: "32 word \<Rightarrow> 's \<Rightarrow> (bool \<times> 's) option"
  x_inline :: "xdr_op \<Rightarrow> 32 word \<Rightarrow> 's \<Rightarrow> (iptr option \<times> 's) option"
  x_load :: "iptr \<Rightarrow> nat \<Rightarrow> 's \<Rightarrow> octets option"
  x_store :: "iptr \<Rightarrow> octets \<Rightarrow> 's \<Rightarrow> 's option"

record 's XDR =
  x_op :: xdr_op
  x_ops :: "'s xdr_ops"
  x_priv :: 's

type_synonym ('s, 'a) xdrproc = "'s XDR \<Rightarrow> 'a \<Rightarrow> (bool \<times> 'a \<times> 's XDR) option"

definition XDR_GETLONG :: "'s XDR \<Rightarrow> (32 word option \<times> 's XDR) option" where
  "XDR_GETLONG xdrs = do { (l, s) \<leftarrow> x_getlong (x_ops xdrs) (x_op xdrs) (x_priv xdrs); Some (l, xdrs\<lparr>x_priv := s\<rparr>) }"

definition XDR_PUTLONG :: "'s XDR \<Rightarrow> 32 word \<Rightarrow> (bool \<times> 's XDR) option" where
  "XDR_PUTLONG xdrs l = do { (b, s) \<leftarrow> x_putlong (x_ops xdrs) (x_op xdrs) l (x_priv xdrs); Some (b, xdrs\<lparr>x_priv := s\<rparr>) }"

definition XDR_GETBYTES :: "'s XDR \<Rightarrow> nat \<Rightarrow> (bool \<times> octets \<times> 's XDR) option" where
  "XDR_GETBYTES xdrs n = do { (b, bs, s) \<leftarrow> x_getbytes (x_ops xdrs) n (x_priv xdrs); Some (b, bs, xdrs\<lparr>x_priv := s\<rparr>) }"

definition XDR_PUTBYTES :: "'s XDR \<Rightarrow> octets \<Rightarrow> (bool \<times> 's XDR) option" where
  "XDR_PUTBYTES xdrs bs = do { (b, s) \<leftarrow> x_putbytes (x_ops xdrs) bs (x_priv xdrs); Some (b, xdrs\<lparr>x_priv := s\<rparr>) }"

definition XDR_GETPOS :: "'s XDR \<Rightarrow> 32 word option" where
  "XDR_GETPOS xdrs = x_getpostn (x_ops xdrs) (x_priv xdrs)"

definition XDR_SETPOS :: "'s XDR \<Rightarrow> 32 word \<Rightarrow> (bool \<times> 's XDR) option" where
  "XDR_SETPOS xdrs pos = do { (b, s) \<leftarrow> x_setpostn (x_ops xdrs) pos (x_priv xdrs); Some (b, xdrs\<lparr>x_priv := s\<rparr>) }"

definition XDR_INLINE :: "'s XDR \<Rightarrow> 32 word \<Rightarrow> (iptr option \<times> 's XDR) option" where
  "XDR_INLINE xdrs len =
     do { (p, s) \<leftarrow> x_inline (x_ops xdrs) (x_op xdrs) len (x_priv xdrs); Some (p, xdrs\<lparr>x_priv := s\<rparr>) }"

text \<open>The host is little-endian; \<^verbatim>\<open>htonl\<close> is the same exchange of bytes as \<^verbatim>\<open>ntohl\<close>.\<close>

definition load32 :: "octets \<Rightarrow> 32 word" where
  "load32 bs = ucast (bs ! 0) OR push_bit 8 (ucast (bs ! 1)) OR push_bit 16 (ucast (bs ! 2)) OR push_bit 24 (ucast (bs ! 3))"

definition store32 :: "32 word \<Rightarrow> octets" where
  "store32 w = [ucast w, ucast (drop_bit 8 w), ucast (drop_bit 16 w), ucast (drop_bit 24 w)]"

definition iptr_add :: "iptr \<Rightarrow> nat \<Rightarrow> iptr" where
  "iptr_add p n = (fst p, snd p + n)"

definition IXDR_GET_INT32 :: "'s XDR \<Rightarrow> iptr \<Rightarrow> (32 word \<times> iptr) option" where
  "IXDR_GET_INT32 xdrs buf = do { bs \<leftarrow> x_load (x_ops xdrs) buf 4 (x_priv xdrs); Some (ntohl (load32 bs), iptr_add buf 4) }"

definition IXDR_PUT_INT32 :: "'s XDR \<Rightarrow> iptr \<Rightarrow> 32 word \<Rightarrow> (iptr \<times> 's XDR) option" where
  "IXDR_PUT_INT32 xdrs buf v =
     do { s \<leftarrow> x_store (x_ops xdrs) buf (store32 (ntohl v)) (x_priv xdrs); Some (iptr_add buf 4, xdrs\<lparr>x_priv := s\<rparr>) }"

definition RNDUP :: "32 word \<Rightarrow> 32 word" where
  "RNDUP x = ((x + 4 - 1) div 4) * 4"

section \<open>Integers\<close>

text \<open>
  The common shape of the integer routines: encode puts a long made from the object, decode makes the object from
  the long it gets, free does nothing.
\<close>

definition xdr_long_as :: "('a \<Rightarrow> 32 word) \<Rightarrow> (32 word \<Rightarrow> 'a) \<Rightarrow> ('s, 'a) xdrproc" where
  "xdr_long_as to_long of_long xdrs v =
     (case x_op xdrs of
        XDR_ENCODE \<Rightarrow> do { (b, xdrs) \<leftarrow> XDR_PUTLONG xdrs (to_long v); Some (b, v, xdrs) }
      | XDR_DECODE \<Rightarrow>
          do { (l, xdrs) \<leftarrow> XDR_GETLONG xdrs;
               case l of None \<Rightarrow> Some (False, v, xdrs) | Some l \<Rightarrow> Some (True, of_long l, xdrs) }
      | XDR_FREE \<Rightarrow> Some (True, v, xdrs))"

definition xdr_void :: "('s, unit) xdrproc" where
  "xdr_void xdrs u = Some (True, u, xdrs)"

definition xdr_int :: "('s, 32 word) xdrproc" where
  "xdr_int = xdr_long_as (\<lambda>i. i) (\<lambda>l. l)"

definition xdr_u_int :: "('s, 32 word) xdrproc" where
  "xdr_u_int = xdr_long_as (\<lambda>u. u) (\<lambda>l. l)"

definition xdr_long :: "('s, 32 word) xdrproc" where
  "xdr_long = xdr_long_as (\<lambda>l. l) (\<lambda>l. l)"

definition xdr_u_long :: "('s, 32 word) xdrproc" where
  "xdr_u_long = xdr_long_as (\<lambda>l. l) (\<lambda>l. l)"

definition xdr_int32_t :: "('s, 32 word) xdrproc" where
  "xdr_int32_t = xdr_long_as (\<lambda>i. i) (\<lambda>l. l)"

definition xdr_uint32_t :: "('s, 32 word) xdrproc" where
  "xdr_uint32_t = xdr_long_as (\<lambda>u. u) (\<lambda>l. l)"

definition xdr_short :: "('s, 16 word) xdrproc" where
  "xdr_short = xdr_long_as scast ucast"

definition xdr_u_short :: "('s, 16 word) xdrproc" where
  "xdr_u_short = xdr_long_as ucast ucast"

definition xdr_int16_t :: "('s, 16 word) xdrproc" where
  "xdr_int16_t = xdr_long_as scast ucast"

definition xdr_uint16_t :: "('s, 16 word) xdrproc" where
  "xdr_uint16_t = xdr_long_as ucast ucast"

definition xdr_char :: "('s, 8 word) xdrproc" where
  "xdr_char xdrs cp =
     do { (b, i, xdrs) \<leftarrow> xdr_int xdrs (scast cp); if \<not> b then Some (False, cp, xdrs) else Some (True, ucast i, xdrs) }"

definition xdr_u_char :: "('s, 8 word) xdrproc" where
  "xdr_u_char xdrs cp =
     do { (b, u, xdrs) \<leftarrow> xdr_u_int xdrs (ucast cp); if \<not> b then Some (False, cp, xdrs) else Some (True, ucast u, xdrs) }"

text \<open>A \<^verbatim>\<open>bool_t\<close> is an \<^verbatim>\<open>int32_t\<close>.\<close>

definition xdr_bool :: "('s, 32 word) xdrproc" where
  "xdr_bool = xdr_long_as (\<lambda>b. if b \<noteq> 0 then 1 else 0) (\<lambda>lb. if lb = 0 then 0 else 1)"

definition xdr_enum :: "('s, 32 word) xdrproc" where
  "xdr_enum = xdr_long"

definition xdr_uint64_t :: "('s, 64 word) xdrproc" where
  "xdr_uint64_t xdrs v =
     (case x_op xdrs of
        XDR_ENCODE \<Rightarrow>
          do { let ul0 = ucast (drop_bit 32 v) AND 0xffffffff;
               let ul1 = ucast v AND 0xffffffff;
               (b, xdrs) \<leftarrow> XDR_PUTLONG xdrs ul0;
               if \<not> b then Some (False, v, xdrs)
               else do { (b, xdrs) \<leftarrow> XDR_PUTLONG xdrs ul1; Some (b, v, xdrs) } }
      | XDR_DECODE \<Rightarrow>
          do { (l0, xdrs) \<leftarrow> XDR_GETLONG xdrs;
               case l0 of None \<Rightarrow> Some (False, v, xdrs)
               | Some ul0 \<Rightarrow>
                   do { (l1, xdrs) \<leftarrow> XDR_GETLONG xdrs;
                        case l1 of None \<Rightarrow> Some (False, v, xdrs)
                        | Some ul1 \<Rightarrow> Some (True, push_bit 32 (ucast ul0) OR ucast ul1, xdrs) } }
      | XDR_FREE \<Rightarrow> Some (True, v, xdrs))"

text \<open>The signed routine has the same body on the bits of the integer; the others only call these two.\<close>

definition xdr_int64_t :: "('s, 64 word) xdrproc" where
  "xdr_int64_t = xdr_uint64_t"

definition xdr_hyper :: "('s, 64 word) xdrproc" where "xdr_hyper = xdr_int64_t"
definition xdr_u_hyper :: "('s, 64 word) xdrproc" where "xdr_u_hyper = xdr_uint64_t"
definition xdr_longlong_t :: "('s, 64 word) xdrproc" where "xdr_longlong_t = xdr_int64_t"
definition xdr_u_longlong_t :: "('s, 64 word) xdrproc" where "xdr_u_longlong_t = xdr_uint64_t"

section \<open>Bytes and strings\<close>

text \<open>\<^verbatim>\<open>memmove\<close> to and from a block.\<close>

definition blk_write :: "octets \<Rightarrow> octets \<Rightarrow> octets option" where
  "blk_write cp bs = (if length bs \<le> length cp then Some (bs @ drop (length bs) cp) else None)"

definition blk_read :: "octets \<Rightarrow> nat \<Rightarrow> octets option" where
  "blk_read cp n = (if n \<le> length cp then Some (take n cp) else None)"

definition xdr_opaque :: "'s XDR \<Rightarrow> octets \<Rightarrow> 32 word \<Rightarrow> (bool \<times> octets \<times> 's XDR) option" where
  "xdr_opaque xdrs cp cnt =
     (if cnt = 0 then Some (True, cp, xdrs)
      else let rndup = unat cnt mod 4; rndup = (if rndup > 0 then 4 - rndup else rndup) in
      case x_op xdrs of
        XDR_DECODE \<Rightarrow>
          do { (b, bs, xdrs) \<leftarrow> XDR_GETBYTES xdrs (unat cnt);
               cp \<leftarrow> blk_write cp bs;
               if \<not> b then Some (False, cp, xdrs)
               else if rndup = 0 then Some (True, cp, xdrs)
               else do { (b, crud, xdrs) \<leftarrow> XDR_GETBYTES xdrs rndup; Some (b, cp, xdrs) } }
      | XDR_ENCODE \<Rightarrow>
          do { bs \<leftarrow> blk_read cp (unat cnt);
               (b, xdrs) \<leftarrow> XDR_PUTBYTES xdrs bs;
               if \<not> b then Some (False, cp, xdrs)
               else if rndup = 0 then Some (True, cp, xdrs)
               else do { (b, xdrs) \<leftarrow> XDR_PUTBYTES xdrs (replicate rndup 0); Some (b, cp, xdrs) } }
      | XDR_FREE \<Rightarrow> Some (True, cp, xdrs))"

definition mem_alloc :: "32 word \<Rightarrow> octets" where
  "mem_alloc n = replicate (unat n) 0"

text \<open>A call of \<^verbatim>\<open>xdr_opaque\<close> with a pointer that may be null: without data it is not followed.\<close>

definition xdr_opaque_at :: "'s XDR \<Rightarrow> octets option \<Rightarrow> 32 word \<Rightarrow> (bool \<times> octets option \<times> 's XDR) option" where
  "xdr_opaque_at xdrs sp cnt =
     (case sp of
        Some cp \<Rightarrow> do { (b, cp, xdrs) \<leftarrow> xdr_opaque xdrs cp cnt; Some (b, Some cp, xdrs) }
      | None \<Rightarrow> if cnt = 0 then Some (True, None, xdrs) else None)"

text \<open>The object of \<^verbatim>\<open>xdr_bytes\<close> is the pointer and the count.\<close>

definition xdr_bytes :: "32 word \<Rightarrow> ('s, octets option \<times> 32 word) xdrproc" where
  "xdr_bytes maxsize xdrs obj =
     (let (sp, size) = obj in
      do { (b, size, xdrs) \<leftarrow> xdr_u_int xdrs size;
           if \<not> b then Some (False, (sp, size), xdrs)
           else if size > maxsize \<and> x_op xdrs \<noteq> XDR_FREE then Some (False, (sp, size), xdrs)
           else case x_op xdrs of
             XDR_DECODE \<Rightarrow>
               if size = 0 then Some (True, (sp, size), xdrs)
               else do { let sp = (case sp of None \<Rightarrow> Some (mem_alloc size) | Some p \<Rightarrow> Some p);
                         (b, sp, xdrs) \<leftarrow> xdr_opaque_at xdrs sp size;
                         Some (b, (sp, size), xdrs) }
           | XDR_ENCODE \<Rightarrow>
               do { (b, sp, xdrs) \<leftarrow> xdr_opaque_at xdrs sp size; Some (b, (sp, size), xdrs) }
           | XDR_FREE \<Rightarrow> Some (True, (None, size), xdrs) })"

definition xdr_netobj :: "('s, octets option \<times> 32 word) xdrproc" where
  "xdr_netobj = xdr_bytes 1024"

text \<open>\<^verbatim>\<open>strlen\<close>; a block without a null byte is read past its end.\<close>

definition strlen :: "octets \<Rightarrow> nat option" where
  "strlen s = (if 0 \<in> set s then Some (length (takeWhile (\<lambda>c. c \<noteq> 0) s)) else None)"

definition xdr_string :: "32 word \<Rightarrow> ('s, octets option) xdrproc" where
  "xdr_string maxsize xdrs sp =
     (if x_op xdrs = XDR_FREE \<and> sp = None then Some (True, sp, xdrs)
      else do {
        size \<leftarrow> (if x_op xdrs = XDR_DECODE then Some 0
                 else case sp of None \<Rightarrow> None | Some s \<Rightarrow> map_option of_nat (strlen s));
        (b, size, xdrs) \<leftarrow> xdr_u_int xdrs size;
        if \<not> b then Some (False, sp, xdrs)
        else if size > maxsize then Some (False, sp, xdrs)
        else let nodesize = size + 1 in
          case x_op xdrs of
            XDR_DECODE \<Rightarrow>
              if nodesize = 0 then Some (True, sp, xdrs)
              else do { let s = (case sp of None \<Rightarrow> mem_alloc nodesize | Some s \<Rightarrow> s);
                        if \<not> unat size < length s then None
                        else do { let s = s[unat size := 0];
                                  (b, s, xdrs) \<leftarrow> xdr_opaque xdrs s size;
                                  Some (b, Some s, xdrs) } }
          | XDR_ENCODE \<Rightarrow> xdr_opaque_at xdrs sp size
          | XDR_FREE \<Rightarrow> Some (True, None, xdrs) })"

definition xdr_wrapstring :: "('s, octets option) xdrproc" where
  "xdr_wrapstring = xdr_string (- 1)"

section \<open>Unions, arrays, pointers\<close>

definition xdr_union ::
  "(32 word \<times> ('s, 'a) xdrproc) list \<Rightarrow> ('s, 'a) xdrproc option \<Rightarrow> ('s, 32 word \<times> 'a) xdrproc" where
  "xdr_union choices dfault xdrs obj =
     (let (dscm, u) = obj in
      do { (b, dscm, xdrs) \<leftarrow> xdr_enum xdrs dscm;
           if \<not> b then Some (False, (dscm, u), xdrs)
           else case (case map_of choices dscm of Some p \<Rightarrow> Some p | None \<Rightarrow> dfault) of
             None \<Rightarrow> Some (False, (dscm, u), xdrs)
           | Some p \<Rightarrow> do { (b, u, xdrs) \<leftarrow> p xdrs u; Some (b, (dscm, u), xdrs) } })"

text \<open>The element loops: \<open>n\<close> elements from index \<open>i\<close> on.\<close>

fun array_loop :: "('s, 'a) xdrproc \<Rightarrow> nat \<Rightarrow> nat \<Rightarrow> 's XDR \<Rightarrow> 'a list \<Rightarrow> (bool \<times> 'a list \<times> 's XDR) option" where
  "array_loop elproc i 0 xdrs target = Some (True, target, xdrs)"
| "array_loop elproc i (Suc n) xdrs target =
     (if i < length target then
        do { (stat, v, xdrs) \<leftarrow> elproc xdrs (target ! i);
             let target = target[i := v];
             if stat then array_loop elproc (i + 1) n xdrs target else Some (False, target, xdrs) }
      else None)"

text \<open>
  \<open>zero\<close> is the element that cleared memory holds. A null array is not followed when there are no elements.
\<close>

definition xdr_array ::
  "'a \<Rightarrow> 32 word \<Rightarrow> 32 word \<Rightarrow> ('s, 'a) xdrproc \<Rightarrow> ('s, 'a list option \<times> 32 word) xdrproc" where
  "xdr_array zero maxsize elsize elproc xdrs obj =
     (let (target, c) = obj in
      do { (b, c, xdrs) \<leftarrow> xdr_u_int xdrs c;
           if \<not> b then Some (False, (target, c), xdrs)
           else if c \<le> maxsize \<and> elsize = 0 then None
           else if (c > maxsize \<or> - 1 div elsize < c) \<and> x_op xdrs \<noteq> XDR_FREE then Some (False, (target, c), xdrs)
           else if target = None \<and> (x_op xdrs = XDR_DECODE \<and> c = 0 \<or> x_op xdrs = XDR_FREE) then Some (True, (target, c), xdrs)
           else do { let elems = (case target of
                                    Some t \<Rightarrow> t
                                  | None \<Rightarrow> if x_op xdrs = XDR_DECODE then replicate (unat c) zero else []);
                     (stat, elems, xdrs) \<leftarrow> array_loop elproc 0 (unat c) xdrs elems;
                     Some (stat, (if x_op xdrs = XDR_FREE \<or> target = None \<and> x_op xdrs = XDR_ENCODE then None else Some elems, c), xdrs) } })"

definition xdr_vector :: "32 word \<Rightarrow> ('s, 'a) xdrproc \<Rightarrow> ('s, 'a list) xdrproc" where
  "xdr_vector nelem xdr_elem xdrs base = array_loop xdr_elem 0 (unat nelem) xdrs base"

definition xdr_reference :: "'a \<Rightarrow> ('s, 'a) xdrproc \<Rightarrow> ('s, 'a option) xdrproc" where
  "xdr_reference zero proc xdrs loc =
     (if loc = None \<and> x_op xdrs = XDR_FREE then Some (True, loc, xdrs)
      else do { loc \<leftarrow> (case loc of Some v \<Rightarrow> Some v | None \<Rightarrow> if x_op xdrs = XDR_DECODE then Some zero else None);
                (stat, v, xdrs) \<leftarrow> proc xdrs loc;
                Some (stat, if x_op xdrs = XDR_FREE then None else Some v, xdrs) })"

definition xdr_pointer :: "'a \<Rightarrow> ('s, 'a) xdrproc \<Rightarrow> ('s, 'a option) xdrproc" where
  "xdr_pointer zero xdr_obj xdrs obj =
     do { (b, more_data, xdrs) \<leftarrow> xdr_bool xdrs (if obj \<noteq> None then 1 else 0);
          if \<not> b then Some (False, obj, xdrs)
          else if more_data = 0 then Some (True, None, xdrs)
          else xdr_reference zero xdr_obj xdrs obj }"

text \<open>\<^verbatim>\<open>xdr_free\<close> runs a routine on a handle of which only the operation is set.\<close>

definition xdr_free :: "'s XDR \<Rightarrow> ('s, 'a) xdrproc \<Rightarrow> 'a \<Rightarrow> 'a option" where
  "xdr_free x proc obj = do { (_, obj, _) \<leftarrow> proc (x\<lparr>x_op := XDR_FREE\<rparr>) obj; Some obj }"

end
