(* ===== verification/XdrStream.thy ===== *)
theory XdrStream
  imports Xdr
begin

text \<open>
  What the routines of \<^theory_text>\<open>Xdr\<close> rely on in a stream, and what they do over every stream that keeps it: the
  interfaces \<open>xdr_writer\<close>, \<open>xdr_reader\<close> and \<open>xdr_seeker\<close>. A writer appends octets while they fit;
  a reader has the octets that are still to be read.
\<close>

section \<open>Units\<close>

definition xdr_unit :: "32 word \<Rightarrow> octets" where
  "xdr_unit l = store32 (ntohl l)"

definition xdr_pad :: "nat \<Rightarrow> nat" where
  "xdr_pad n = (if n mod 4 > 0 then 4 - n mod 4 else 0)"

definition xdr_octets :: "octets \<Rightarrow> octets" where
  "xdr_octets bs = bs @ replicate (xdr_pad (length bs)) 0"

lemma length_store32 [simp]: "length (store32 w) = 4"
  by (simp add: store32_def)

lemma length_xdr_unit [simp]: "length (xdr_unit l) = 4"
  by (simp add: xdr_unit_def)

lemma xdr_unit_not_Nil [simp]: "xdr_unit l \<noteq> []"
  by (metis length_0_conv length_xdr_unit zero_neq_numeral)

lemma load32_store32 [simp]: "load32 (store32 w) = w"
proof (rule bit_word_eqI)
  fix n :: nat assume "n < LENGTH(32)"
  then consider "n < 8" | "8 \<le> n" "n < 16" | "16 \<le> n" "n < 24" | "24 \<le> n" "n < 32" by fastforce
  then show "bit (load32 (store32 w)) n = bit w n"
    by cases (auto simp: load32_def store32_def bit_simps less_diff_conv2)
qed

lemma load32_append [simp]: "length bs = 4 \<Longrightarrow> load32 (bs @ cs) = load32 bs"
  by (simp add: load32_def nth_append)

lemma load32_xdr_unit [simp]: "ntohl (load32 (xdr_unit l)) = l"
  by (simp add: xdr_unit_def)

lemma and_ffffffff [simp]: "(w :: 32 word) AND 0xffffffff = w"
proof -
  have "(0xffffffff :: 32 word) = - 1" by simp
  then show ?thesis by (metis and.right_neutral)
qed

lemma round4: "(n + 3) div 4 * 4 = n + xdr_pad n" "(n + xdr_pad n) div 4 * 4 = n + xdr_pad n"
proof -
  show "(n + 3) div 4 * 4 = n + xdr_pad n" unfolding xdr_pad_def by presburger
  then have "n + xdr_pad n = (n + 3) div 4 * 4" by (rule sym)
  then show "(n + xdr_pad n) div 4 * 4 = n + xdr_pad n" by (simp only: div_mult_self_is_m zero_less_numeral)
qed

lemma narrow_extend [simp]:
  "ucast (scast (c :: 8 word) :: 32 word) = c" "ucast (ucast c :: 32 word) = c"
  "ucast (scast (h :: 16 word) :: 32 word) = h" "ucast (ucast h :: 32 word) = h"
  by (rule bit_word_eqI; simp add: bit_simps)+

lemma unat_of_nat32: "n < 2 ^ 32 \<Longrightarrow> unat (of_nat n :: 32 word) = n"
  by (simp add: unat_of_nat)

lemma RNDUP_eq:
  assumes "unat n \<le> 2 ^ 31"
  shows "unat (RNDUP n) = unat n + xdr_pad (unat n)"
proof -
  have a: "unat (n + 4 - 1) = unat n + 3"
    using assms unat_add_lem [of n 3] by (simp add: unat_word_ariths)
  have "unat ((n + 4 - 1) div 4) = (unat n + 3) div 4" by (simp only: unat_div a) simp
  moreover have "(unat n + 3) div 4 * 4 \<le> unat n + 3" by simp
  then have "(unat n + 3) div 4 * 4 < 2 ^ 32" using assms by simp
  ultimately have "unat (RNDUP n) = (unat n + 3) div 4 * 4" by (simp add: RNDUP_def unat_word_ariths)
  then show ?thesis using round4 [of "unat n"] by simp
qed

lemma RNDUP_div:
  assumes "unat n \<le> 2 ^ 31"
  shows "unat (RNDUP n div 4) * 4 = unat n + xdr_pad (unat n)"
proof -
  have "unat (RNDUP n div 4) = (unat n + xdr_pad (unat n)) div 4" by (simp only: unat_div RNDUP_eq [OF assms]) simp
  then show ?thesis using round4 [of "unat n"] by simp
qed

section \<open>Handles\<close>

lemma bind_put_conv: "(do { (b, x) \<leftarrow> m; Some (b, u, x) }) = Some (b', u', y) \<longleftrightarrow> m = Some (b', y) \<and> u' = u"
  by (cases m) auto

lemma XDR_ops_run:
  "x_getlong (x_ops xdrs) (x_op xdrs) (x_priv xdrs) = Some (l, s) \<Longrightarrow> XDR_GETLONG xdrs = Some (l, xdrs\<lparr>x_priv := s\<rparr>)"
  "x_putlong (x_ops xdrs) (x_op xdrs) v (x_priv xdrs) = Some (b, s) \<Longrightarrow> XDR_PUTLONG xdrs v = Some (b, xdrs\<lparr>x_priv := s\<rparr>)"
  "x_getbytes (x_ops xdrs) n (x_priv xdrs) = Some (b, bs, s) \<Longrightarrow> XDR_GETBYTES xdrs n = Some (b, bs, xdrs\<lparr>x_priv := s\<rparr>)"
  "x_putbytes (x_ops xdrs) bs (x_priv xdrs) = Some (b, s) \<Longrightarrow> XDR_PUTBYTES xdrs bs = Some (b, xdrs\<lparr>x_priv := s\<rparr>)"
  "x_inline (x_ops xdrs) (x_op xdrs) len (x_priv xdrs) = Some (p, s) \<Longrightarrow> XDR_INLINE xdrs len = Some (p, xdrs\<lparr>x_priv := s\<rparr>)"
  by (simp_all add: XDR_GETLONG_def XDR_PUTLONG_def XDR_GETBYTES_def XDR_PUTBYTES_def XDR_INLINE_def)

section \<open>Writers\<close>

text \<open>
  \<open>wr bs s t\<close>: \<open>t\<close> is \<open>s\<close> with \<open>bs\<close> appended. \<open>res q bs s t\<close>: so it is, and \<open>q\<close> points to them in the stream's memory.
\<close>

locale xdr_writer =
  fixes ops :: "'s xdr_ops" and ok :: "'s \<Rightarrow> bool" and fits :: "nat \<Rightarrow> 's \<Rightarrow> bool"
    and wr :: "octets \<Rightarrow> 's \<Rightarrow> 's \<Rightarrow> bool" and res :: "iptr \<Rightarrow> octets \<Rightarrow> 's \<Rightarrow> 's \<Rightarrow> bool"
  assumes put_long: "ok s \<Longrightarrow> fits 4 s \<Longrightarrow> \<exists>t. x_putlong ops XDR_ENCODE l s = Some (True, t) \<and> wr (xdr_unit l) s t"
    and put_bytes: "ok s \<Longrightarrow> fits (length bs) s \<Longrightarrow> \<exists>t. x_putbytes ops bs s = Some (True, t) \<and> wr bs s t"
    and put_inline: "ok s \<Longrightarrow> fits (unat len) s \<Longrightarrow> len \<noteq> 0 \<Longrightarrow>
      x_inline ops XDR_ENCODE len s = Some (None, s) \<or>
      (\<exists>q bs t. x_inline ops XDR_ENCODE len s = Some (Some q, t) \<and> length bs = unat len \<and> res q bs s t)"
    and res_store: "res q bs s t \<Longrightarrow> i + length cs \<le> length bs \<Longrightarrow>
      \<exists>u. x_store ops (iptr_add q i) cs t = Some u \<and> res q (take i bs @ cs @ drop (i + length cs) bs) s u"
    and res_wr: "res q bs s t \<Longrightarrow> wr bs s t"
    and wr_ok: "wr bs s t \<Longrightarrow> ok t"
    and wr_fits: "wr bs s t \<Longrightarrow> fits (length bs + n) s \<Longrightarrow> fits n t"
    and fits_le: "fits n s \<Longrightarrow> m \<le> n \<Longrightarrow> fits m s"
    and wr_Nil: "ok s \<Longrightarrow> wr [] s s"
    and wr_append: "wr bs s t \<Longrightarrow> wr cs t u \<Longrightarrow> wr (bs @ cs) s u"
begin

text \<open>\<open>encodes p v bs\<close>: the routine, on \<open>v\<close>, appends \<open>bs\<close> to every stream they fit in, and leaves \<open>v\<close> as it is.\<close>

definition encodes :: "('s, 'a) xdrproc \<Rightarrow> 'a \<Rightarrow> octets \<Rightarrow> bool" where
  "encodes p v bs \<longleftrightarrow>
     (\<forall>xdrs. x_op xdrs = XDR_ENCODE \<longrightarrow> x_ops xdrs = ops \<longrightarrow> ok (x_priv xdrs) \<longrightarrow> fits (length bs) (x_priv xdrs) \<longrightarrow>
        (\<exists>t. p xdrs v = Some (True, v, xdrs\<lparr>x_priv := t\<rparr>) \<and> wr bs (x_priv xdrs) t))"

lemma encodesI:
  assumes "\<And>xdrs. x_op xdrs = XDR_ENCODE \<Longrightarrow> x_ops xdrs = ops \<Longrightarrow> ok (x_priv xdrs) \<Longrightarrow> fits (length bs) (x_priv xdrs) \<Longrightarrow>
    \<exists>t. p xdrs v = Some (True, v, xdrs\<lparr>x_priv := t\<rparr>) \<and> wr bs (x_priv xdrs) t"
  shows "encodes p v bs"
  using assms by (simp add: encodes_def)

lemma encodesD:
  assumes "encodes p v bs" "x_op xdrs = XDR_ENCODE" "x_ops xdrs = ops" "ok (x_priv xdrs)" "fits (length bs) (x_priv xdrs)"
  obtains t where "p xdrs v = Some (True, v, xdrs\<lparr>x_priv := t\<rparr>)" "wr bs (x_priv xdrs) t"
  using assms by (auto simp: encodes_def)

lemma PUTLONG:
  assumes "x_op xdrs = XDR_ENCODE" "x_ops xdrs = ops" "ok (x_priv xdrs)" "fits 4 (x_priv xdrs)"
  obtains t where "XDR_PUTLONG xdrs l = Some (True, xdrs\<lparr>x_priv := t\<rparr>)" "wr (xdr_unit l) (x_priv xdrs) t"
  using put_long [OF assms(3,4), of l] XDR_ops_run(2) [of xdrs] assms(1,2) by fastforce

lemma PUTBYTES:
  assumes "x_ops xdrs = ops" "ok (x_priv xdrs)" "fits (length bs) (x_priv xdrs)"
  obtains t where "XDR_PUTBYTES xdrs bs = Some (True, xdrs\<lparr>x_priv := t\<rparr>)" "wr bs (x_priv xdrs) t"
  using put_bytes [OF assms(2,3)] XDR_ops_run(4) [of xdrs] assms(1) by fastforce

lemma fits_left: "fits (length bs + n) s \<Longrightarrow> fits (length bs) s"
  by (rule fits_le [of "length bs + n"]) simp_all

lemma encodes_long_as: "encodes (xdr_long_as f g) v (xdr_unit (f v))"
proof (rule encodesI)
  fix xdrs :: "'s XDR" assume a: "x_op xdrs = XDR_ENCODE" "x_ops xdrs = ops" "ok (x_priv xdrs)" "fits (length (xdr_unit (f v))) (x_priv xdrs)"
  then have "fits 4 (x_priv xdrs)" by simp
  then obtain t where "XDR_PUTLONG xdrs (f v) = Some (True, xdrs\<lparr>x_priv := t\<rparr>)" "wr (xdr_unit (f v)) (x_priv xdrs) t"
    by (rule PUTLONG [OF a(1-3)])
  then show "\<exists>t. xdr_long_as f g xdrs v = Some (True, v, xdrs\<lparr>x_priv := t\<rparr>) \<and> wr (xdr_unit (f v)) (x_priv xdrs) t"
    by (intro exI [of _ t]) (simp add: xdr_long_as_def a(1))
qed

text \<open>One routine after another.\<close>

lemma encodes_then:
  assumes p: "encodes p v bs" and q: "encodes q w cs"
    and r: "\<And>xdrs t t'. p xdrs v = Some (True, v, xdrs\<lparr>x_priv := t\<rparr>) \<Longrightarrow> x_op xdrs = XDR_ENCODE \<Longrightarrow>
      q (xdrs\<lparr>x_priv := t\<rparr>) w = Some (True, w, xdrs\<lparr>x_priv := t'\<rparr>) \<Longrightarrow> r xdrs u = Some (True, u, xdrs\<lparr>x_priv := t'\<rparr>)"
  shows "encodes r u (bs @ cs)"
proof (rule encodesI)
  fix xdrs :: "'s XDR" assume a: "x_op xdrs = XDR_ENCODE" "x_ops xdrs = ops" "ok (x_priv xdrs)" "fits (length (bs @ cs)) (x_priv xdrs)"
  from a(4) have f: "fits (length bs + length cs) (x_priv xdrs)" by simp
  obtain t where t: "p xdrs v = Some (True, v, xdrs\<lparr>x_priv := t\<rparr>)" "wr bs (x_priv xdrs) t"
    using p a(1-3) fits_left [OF f] by (rule encodesD)
  obtain t' where t': "q (xdrs\<lparr>x_priv := t\<rparr>) w = Some (True, w, xdrs\<lparr>x_priv := t\<rparr>\<lparr>x_priv := t'\<rparr>)"
    "wr cs (x_priv (xdrs\<lparr>x_priv := t\<rparr>)) t'"
    by (rule encodesD [OF q, of "xdrs\<lparr>x_priv := t\<rparr>"]) (use a(1,2) wr_ok [OF t(2)] wr_fits [OF t(2) f] in simp_all)
  have "r xdrs u = Some (True, u, xdrs\<lparr>x_priv := t'\<rparr>)" using r [OF t(1) a(1)] t'(1) by simp
  moreover have "wr (bs @ cs) (x_priv xdrs) t'" using wr_append [OF t(2)] t'(2) by simp
  ultimately show "\<exists>t. r xdrs u = Some (True, u, xdrs\<lparr>x_priv := t\<rparr>) \<and> wr (bs @ cs) (x_priv xdrs) t" by blast
qed

lemma encodes_put: "encodes (\<lambda>xdrs u. do { (b, x) \<leftarrow> XDR_PUTLONG xdrs l; Some (b, u, x) }) u (xdr_unit l)"
  using encodes_long_as [of "\<lambda>_. l" "\<lambda>_. u" u] by (simp add: encodes_def xdr_long_as_def)

lemma encodes_putbytes: "encodes (\<lambda>xdrs u. do { (b, x) \<leftarrow> XDR_PUTBYTES xdrs bs; Some (b, u, x) }) u bs"
proof (rule encodesI)
  fix xdrs :: "'s XDR" assume "x_ops xdrs = ops" "ok (x_priv xdrs)" "fits (length bs) (x_priv xdrs)"
  then obtain t where "XDR_PUTBYTES xdrs bs = Some (True, xdrs\<lparr>x_priv := t\<rparr>)" "wr bs (x_priv xdrs) t" by (rule PUTBYTES)
  then show
    "\<exists>t. (do { (b, x) \<leftarrow> XDR_PUTBYTES xdrs bs; Some (b, u, x) }) = Some (True, u, xdrs\<lparr>x_priv := t\<rparr>) \<and> wr bs (x_priv xdrs) t"
    by (intro exI [of _ t]) simp
qed

lemma encodes_Nil: "(\<And>xdrs. x_op xdrs = XDR_ENCODE \<Longrightarrow> p xdrs v = Some (True, v, xdrs)) \<Longrightarrow> encodes p v []"
  by (rule encodesI) (metis XDR.surjective XDR.update_convs(3) wr_Nil)

lemma encodes_uint64_t:
  "encodes xdr_uint64_t v (xdr_unit (ucast (drop_bit 32 v)) @ xdr_unit (ucast v))"
  by (rule encodes_then [OF encodes_put [of "ucast (drop_bit 32 v)" v] encodes_put [of "ucast v" v]])
     (simp add: bind_put_conv xdr_uint64_t_def)

lemma encodes_step:
  assumes p: "encodes p v bs"
    and r: "\<And>xdrs t. p xdrs v = Some (True, v, xdrs\<lparr>x_priv := t\<rparr>) \<Longrightarrow> x_op xdrs = XDR_ENCODE \<Longrightarrow>
      r xdrs u = Some (True, u, xdrs\<lparr>x_priv := t\<rparr>)"
  shows "encodes r u bs"
proof (rule encodesI)
  fix xdrs :: "'s XDR" assume a: "x_op xdrs = XDR_ENCODE" "x_ops xdrs = ops" "ok (x_priv xdrs)" "fits (length bs) (x_priv xdrs)"
  obtain t where t: "p xdrs v = Some (True, v, xdrs\<lparr>x_priv := t\<rparr>)" "wr bs (x_priv xdrs) t" using p a by (rule encodesD)
  with r [OF t(1) a(1)] show "\<exists>t. r xdrs u = Some (True, u, xdrs\<lparr>x_priv := t\<rparr>) \<and> wr bs (x_priv xdrs) t" by blast
qed

lemmas encodes_int = encodes_long_as [of "\<lambda>i. i" "\<lambda>i. i", folded xdr_int_def]
  and encodes_u_int = encodes_long_as [of "\<lambda>i. i" "\<lambda>i. i", folded xdr_u_int_def]
  and encodes_uint32_t = encodes_long_as [of "\<lambda>i. i" "\<lambda>i. i", folded xdr_uint32_t_def]
  and encodes_long = encodes_long_as [of "\<lambda>i. i" "\<lambda>i. i", folded xdr_long_def]
  and encodes_enum = encodes_long_as [of "\<lambda>i. i" "\<lambda>i. i", folded xdr_long_def, folded xdr_enum_def]

lemma encodes_bool: "encodes xdr_bool b (xdr_unit (if b \<noteq> 0 then 1 else 0))"
  unfolding xdr_bool_def by (rule encodes_long_as)

lemma encodes_char: "encodes xdr_char c (xdr_unit (scast c))"
  by (rule encodes_step [OF encodes_int]) (simp add: xdr_char_def)

lemma encodes_u_char: "encodes xdr_u_char c (xdr_unit (ucast c))"
  by (rule encodes_step [OF encodes_u_int]) (simp add: xdr_u_char_def)

lemma encodes_opaque:
  assumes "unat cnt \<le> length cp"
  shows "encodes (\<lambda>xdrs cp. xdr_opaque xdrs cp cnt) cp (xdr_octets (take (unat cnt) cp))"
proof (cases "cnt = 0")
  case True
  then show ?thesis by (simp add: xdr_octets_def xdr_pad_def encodes_Nil xdr_opaque_def)
next
  case False
  have len: "length (take (unat cnt) cp) = unat cnt" using assms by simp
  show ?thesis
  proof (cases "unat cnt mod 4 = 0")
    case True
    then have eq: "xdr_octets (take (unat cnt) cp) = take (unat cnt) cp" unfolding xdr_octets_def xdr_pad_def len by simp
    show ?thesis unfolding eq
      by (rule encodes_step [OF encodes_putbytes [of _ cp]])
        (use False True assms in \<open>simp add: xdr_opaque_def blk_read_def bind_put_conv Let_def not_le\<close>)
  next
    case pad: False
    then have eq: "xdr_octets (take (unat cnt) cp) = take (unat cnt) cp @ replicate (4 - unat cnt mod 4) 0"
      unfolding xdr_octets_def xdr_pad_def len by simp
    show ?thesis unfolding eq
      by (rule encodes_then [OF encodes_putbytes [of _ cp] encodes_putbytes [of _ cp]])
        (use False pad assms in \<open>simp add: xdr_opaque_def blk_read_def bind_put_conv Let_def not_le\<close>)
  qed
qed

lemma encodes_opaque_at:
  assumes "case sp of None \<Rightarrow> n = 0 \<and> bs = [] | Some cp \<Rightarrow> unat n \<le> length cp \<and> bs = take (unat n) cp"
  shows "encodes (\<lambda>xdrs sp. xdr_opaque_at xdrs sp n) sp (xdr_octets bs)"
proof (cases sp)
  case None
  with assms show ?thesis by (auto simp: xdr_octets_def xdr_pad_def xdr_opaque_at_def intro: encodes_Nil)
next
  case (Some cp)
  with assms have e: "encodes (\<lambda>xdrs cp. xdr_opaque xdrs cp n) cp (xdr_octets bs)" using encodes_opaque [of n cp] by simp
  show ?thesis by (rule encodes_step [OF e]) (simp add: xdr_opaque_at_def Some)
qed

lemma encodes_bytes:
  assumes "case sp of None \<Rightarrow> n = 0 \<and> bs = [] | Some cp \<Rightarrow> unat n \<le> length cp \<and> bs = take (unat n) cp" "n \<le> maxsize"
  shows "encodes (xdr_bytes maxsize) (sp, n) (xdr_unit n @ xdr_octets bs)"
  by (rule encodes_then [OF encodes_u_int encodes_opaque_at [OF assms(1)]]) (use assms(2) in \<open>simp add: xdr_bytes_def\<close>)

lemma encodes_string:
  assumes "strlen s = Some n" "n < 2 ^ 32" "of_nat n \<le> maxsize"
  shows "encodes (xdr_string maxsize) (Some s) (xdr_unit (of_nat n) @ xdr_octets (take n s))"
proof -
  have n: "unat (of_nat n :: 32 word) = n" using assms(2) by (rule unat_of_nat32)
  have "n \<le> length s" using assms(1) by (auto simp: strlen_def length_takeWhile_le split: if_splits)
  then have "case Some s of None \<Rightarrow> (of_nat n :: 32 word) = 0 \<and> take n s = []
      | Some cp \<Rightarrow> unat (of_nat n :: 32 word) \<le> length cp \<and> take n s = take (unat (of_nat n :: 32 word)) cp"
    by (simp add: n)
  note e = encodes_opaque_at [OF this]
  show ?thesis
    by (rule encodes_then [OF encodes_u_int e]) (use assms in \<open>simp add: xdr_string_def Let_def not_less\<close>)
qed

lemma encodes_union:
  assumes "(case map_of choices d of Some p \<Rightarrow> Some p | None \<Rightarrow> dfault) = Some p" "encodes p u bs"
  shows "encodes (xdr_union choices dfault) (d, u) (xdr_unit d @ bs)"
  by (rule encodes_then [OF encodes_enum assms(2)]) (use assms(1) in \<open>simp add: xdr_union_def\<close>)

lemma encodes_array_loop:
  assumes "list_all2 (encodes p) xs bss"
  shows "encodes (array_loop p (length ys) (length xs)) (ys @ xs) (concat bss)"
  using assms
proof (induction xs bss arbitrary: ys rule: list_all2_induct)
  case Nil
  show ?case by (simp add: encodes_Nil)
next
  case (Cons x xs bs bss)
  have "encodes (array_loop p (Suc (length ys)) (length xs)) (ys @ x # xs) (concat bss)"
    using Cons.IH [of "ys @ [x]"] by simp
  note tail = this
  show ?case unfolding concat.simps length_Cons
    by (rule encodes_then [OF Cons.hyps(1) tail]) simp
qed

lemma encodes_vector:
  assumes "list_all2 (encodes p) xs bss" "unat n = length xs"
  shows "encodes (xdr_vector n p) xs (concat bss)"
  using encodes_array_loop [OF assms(1), of "[]"] assms(2) by (simp add: encodes_def xdr_vector_def)

lemma encodes_array:
  assumes "list_all2 (encodes p) xs bss" "unat n = length xs" "n \<le> maxsize" "elsize \<noteq> 0" "n \<le> - 1 div elsize"
  shows "encodes (xdr_array zero maxsize elsize p) (Some xs, n) (xdr_unit n @ concat bss)"
  by (rule encodes_then [OF encodes_u_int encodes_array_loop [OF assms(1), of "[]"]])
    (use assms(2-) in \<open>simp add: xdr_array_def not_less\<close>)

lemma encodes_reference:
  assumes "encodes p v bs"
  shows "encodes (xdr_reference zero p) (Some v) bs"
  by (rule encodes_step [OF assms]) (simp add: xdr_reference_def)

lemma encodes_pointer:
  assumes "case obj of None \<Rightarrow> bs = xdr_unit 0 | Some v \<Rightarrow> \<exists>cs. encodes p v cs \<and> bs = xdr_unit 1 @ cs"
  shows "encodes (xdr_pointer zero p) obj bs"
proof (cases obj)
  case None
  with assms have bs: "bs = xdr_unit (if (0 :: 32 word) \<noteq> 0 then 1 else 0)" by simp
  show ?thesis unfolding bs by (rule encodes_step [OF encodes_bool]) (simp add: xdr_pointer_def None)
next
  case (Some v)
  with assms obtain cs where cs: "encodes p v cs" "bs = xdr_unit (if (1 :: 32 word) \<noteq> 0 then 1 else 0) @ cs" by auto
  show ?thesis unfolding cs(2)
    by (rule encodes_then [OF encodes_bool encodes_reference [OF cs(1)]]) (simp add: xdr_pointer_def Some)
qed

end

section \<open>Readers\<close>

text \<open>What \<^verbatim>\<open>xdr_bytes\<close> leaves in the pointer: it allocates when there is something to store and nowhere to store it.\<close>

definition stored :: "octets option \<Rightarrow> octets \<Rightarrow> octets option" where
  "stored sp bs = (case sp of None \<Rightarrow> if bs = [] then None else Some bs | Some cp \<Rightarrow> Some (bs @ drop (length bs) cp))"

locale xdr_reader =
  fixes ops :: "'s xdr_ops" and ok :: "'s \<Rightarrow> bool" and inp :: "'s \<Rightarrow> octets"
  assumes get_long: "ok s \<Longrightarrow> inp s = xdr_unit l @ r \<Longrightarrow>
      \<exists>t. x_getlong ops XDR_DECODE s = Some (Some l, t) \<and> ok t \<and> inp t = r"
    and get_bytes: "ok s \<Longrightarrow> inp s = bs @ r \<Longrightarrow>
      \<exists>t. x_getbytes ops (length bs) s = Some (True, bs, t) \<and> ok t \<and> inp t = r"
    and get_inline: "ok s \<Longrightarrow> inp s = bs @ r \<Longrightarrow> length bs = unat len \<Longrightarrow> len \<noteq> 0 \<Longrightarrow>
      x_inline ops XDR_DECODE len s = Some (None, s) \<or>
      (\<exists>q t. x_inline ops XDR_DECODE len s = Some (Some q, t) \<and> ok t \<and> inp t = r \<and>
         (\<forall>i n. i + n \<le> length bs \<longrightarrow> x_load ops (iptr_add q i) n t = Some (take n (drop i bs))))"
begin

text \<open>\<open>decodes p v bs w\<close>: with \<open>bs\<close> next in the stream, the routine reads them and turns \<open>v\<close> into \<open>w\<close>.\<close>

definition decodes :: "('s, 'a) xdrproc \<Rightarrow> 'a \<Rightarrow> octets \<Rightarrow> 'a \<Rightarrow> bool" where
  "decodes p v bs w \<longleftrightarrow>
     (\<forall>xdrs r. x_op xdrs = XDR_DECODE \<longrightarrow> x_ops xdrs = ops \<longrightarrow> ok (x_priv xdrs) \<longrightarrow> inp (x_priv xdrs) = bs @ r \<longrightarrow>
        (\<exists>t. p xdrs v = Some (True, w, xdrs\<lparr>x_priv := t\<rparr>) \<and> ok t \<and> inp t = r))"

lemma decodesI:
  assumes "\<And>xdrs r. x_op xdrs = XDR_DECODE \<Longrightarrow> x_ops xdrs = ops \<Longrightarrow> ok (x_priv xdrs) \<Longrightarrow> inp (x_priv xdrs) = bs @ r \<Longrightarrow>
    \<exists>t. p xdrs v = Some (True, w, xdrs\<lparr>x_priv := t\<rparr>) \<and> ok t \<and> inp t = r"
  shows "decodes p v bs w"
  using assms by (simp add: decodes_def)

lemma decodesD:
  assumes "decodes p v bs w" "x_op xdrs = XDR_DECODE" "x_ops xdrs = ops" "ok (x_priv xdrs)" "inp (x_priv xdrs) = bs @ r"
  obtains t where "p xdrs v = Some (True, w, xdrs\<lparr>x_priv := t\<rparr>)" "ok t" "inp t = r"
  using assms by (auto simp: decodes_def)

lemma GETLONG:
  assumes "x_op xdrs = XDR_DECODE" "x_ops xdrs = ops" "ok (x_priv xdrs)" "inp (x_priv xdrs) = xdr_unit l @ r"
  obtains t where "XDR_GETLONG xdrs = Some (Some l, xdrs\<lparr>x_priv := t\<rparr>)" "ok t" "inp t = r"
  using get_long [OF assms(3,4)] XDR_ops_run(1) [of xdrs] assms(1,2) by fastforce

lemma GETBYTES:
  assumes "x_ops xdrs = ops" "ok (x_priv xdrs)" "inp (x_priv xdrs) = bs @ r"
  obtains t where "XDR_GETBYTES xdrs (length bs) = Some (True, bs, xdrs\<lparr>x_priv := t\<rparr>)" "ok t" "inp t = r"
  using get_bytes [OF assms(2,3)] XDR_ops_run(3) [of xdrs] assms(1) by fastforce

lemma decodes_long_as: "decodes (xdr_long_as f g) v (xdr_unit l) (g l)"
proof (rule decodesI)
  fix xdrs :: "'s XDR" and r
  assume a: "x_op xdrs = XDR_DECODE" "x_ops xdrs = ops" "ok (x_priv xdrs)" "inp (x_priv xdrs) = xdr_unit l @ r"
  obtain t where "XDR_GETLONG xdrs = Some (Some l, xdrs\<lparr>x_priv := t\<rparr>)" "ok t" "inp t = r" using a by (rule GETLONG)
  then show "\<exists>t. xdr_long_as f g xdrs v = Some (True, g l, xdrs\<lparr>x_priv := t\<rparr>) \<and> ok t \<and> inp t = r"
    by (intro exI [of _ t]) (simp add: xdr_long_as_def a(1))
qed

lemma decodes_then:
  assumes p: "decodes p v bs v'" and q: "decodes q w cs w'"
    and r: "\<And>xdrs t t'. p xdrs v = Some (True, v', xdrs\<lparr>x_priv := t\<rparr>) \<Longrightarrow> x_op xdrs = XDR_DECODE \<Longrightarrow>
      q (xdrs\<lparr>x_priv := t\<rparr>) w = Some (True, w', xdrs\<lparr>x_priv := t'\<rparr>) \<Longrightarrow> r xdrs u = Some (True, u', xdrs\<lparr>x_priv := t'\<rparr>)"
  shows "decodes r u (bs @ cs) u'"
proof (rule decodesI)
  fix xdrs :: "'s XDR" and rest
  assume a: "x_op xdrs = XDR_DECODE" "x_ops xdrs = ops" "ok (x_priv xdrs)" "inp (x_priv xdrs) = (bs @ cs) @ rest"
  from a(4) have f: "inp (x_priv xdrs) = bs @ cs @ rest" by simp
  obtain t where t: "p xdrs v = Some (True, v', xdrs\<lparr>x_priv := t\<rparr>)" "ok t" "inp t = cs @ rest"
    using p a(1-3) f by (rule decodesD)
  have "x_op (xdrs\<lparr>x_priv := t\<rparr>) = XDR_DECODE" "x_ops (xdrs\<lparr>x_priv := t\<rparr>) = ops"
    "ok (x_priv (xdrs\<lparr>x_priv := t\<rparr>))" "inp (x_priv (xdrs\<lparr>x_priv := t\<rparr>)) = cs @ rest" using a(1,2) t by simp_all
  then obtain t' where t': "q (xdrs\<lparr>x_priv := t\<rparr>) w = Some (True, w', xdrs\<lparr>x_priv := t\<rparr>\<lparr>x_priv := t'\<rparr>)" "ok t'" "inp t' = rest"
    by (rule decodesD [OF q])
  have "r xdrs u = Some (True, u', xdrs\<lparr>x_priv := t'\<rparr>)" using r [OF t(1) a(1)] t'(1) by simp
  with t'(2,3) show "\<exists>t. r xdrs u = Some (True, u', xdrs\<lparr>x_priv := t\<rparr>) \<and> ok t \<and> inp t = rest" by blast
qed

lemma decodes_step:
  assumes p: "decodes p v bs v'"
    and r: "\<And>xdrs t. p xdrs v = Some (True, v', xdrs\<lparr>x_priv := t\<rparr>) \<Longrightarrow> x_op xdrs = XDR_DECODE \<Longrightarrow>
      r xdrs u = Some (True, u', xdrs\<lparr>x_priv := t\<rparr>)"
  shows "decodes r u bs u'"
proof (rule decodesI)
  fix xdrs :: "'s XDR" and rest
  assume a: "x_op xdrs = XDR_DECODE" "x_ops xdrs = ops" "ok (x_priv xdrs)" "inp (x_priv xdrs) = bs @ rest"
  obtain t where t: "p xdrs v = Some (True, v', xdrs\<lparr>x_priv := t\<rparr>)" "ok t" "inp t = rest" using p a by (rule decodesD)
  with r [OF t(1) a(1)] show "\<exists>t. r xdrs u = Some (True, u', xdrs\<lparr>x_priv := t\<rparr>) \<and> ok t \<and> inp t = rest" by blast
qed

lemma decodes_Nil: "(\<And>xdrs. x_op xdrs = XDR_DECODE \<Longrightarrow> p xdrs v = Some (True, w, xdrs)) \<Longrightarrow> decodes p v [] w"
  by (rule decodesI) (metis XDR.surjective XDR.update_convs(3) append_Nil)

lemma decodes_get:
  "decodes (\<lambda>xdrs u. do { (l, x) \<leftarrow> XDR_GETLONG xdrs; case l of None \<Rightarrow> Some (False, u, x) | Some l \<Rightarrow> Some (True, l, x) })
     u (xdr_unit l) l"
  using decodes_long_as [of "\<lambda>_. l" "\<lambda>l. l" u l] by (simp add: decodes_def xdr_long_as_def)

lemma decodes_getbytes:
  "decodes (\<lambda>xdrs u. XDR_GETBYTES xdrs (length bs)) u bs bs"
proof (rule decodesI)
  fix xdrs :: "'s XDR" and r assume "x_ops xdrs = ops" "ok (x_priv xdrs)" "inp (x_priv xdrs) = bs @ r"
  then obtain t where "XDR_GETBYTES xdrs (length bs) = Some (True, bs, xdrs\<lparr>x_priv := t\<rparr>)" "ok t" "inp t = r" by (rule GETBYTES)
  then show "\<exists>t. XDR_GETBYTES xdrs (length bs) = Some (True, bs, xdrs\<lparr>x_priv := t\<rparr>) \<and> ok t \<and> inp t = r" by blast
qed

lemma decodes_uint64_t:
  "decodes xdr_uint64_t v (xdr_unit h @ xdr_unit l) (push_bit 32 (ucast h) OR ucast l)"
  by (rule decodes_then [OF decodes_get decodes_get])
    (auto simp: xdr_uint64_t_def bind_eq_Some_conv split: option.splits)

lemmas decodes_int = decodes_long_as [of "\<lambda>i. i" "\<lambda>i. i", folded xdr_int_def]
  and decodes_u_int = decodes_long_as [of "\<lambda>i. i" "\<lambda>i. i", folded xdr_u_int_def]
  and decodes_uint32_t = decodes_long_as [of "\<lambda>i. i" "\<lambda>i. i", folded xdr_uint32_t_def]
  and decodes_long = decodes_long_as [of "\<lambda>i. i" "\<lambda>i. i", folded xdr_long_def]
  and decodes_enum = decodes_long_as [of "\<lambda>i. i" "\<lambda>i. i", folded xdr_long_def, folded xdr_enum_def]

lemma decodes_bool: "decodes xdr_bool v (xdr_unit l) (if l = 0 then 0 else 1)"
  unfolding xdr_bool_def by (rule decodes_long_as)

lemma decodes_char: "decodes xdr_char v (xdr_unit l) (ucast l)"
  by (rule decodes_step [OF decodes_int [of "scast v"]]) (simp add: xdr_char_def)

lemma decodes_u_char: "decodes xdr_u_char v (xdr_unit l) (ucast l)"
  by (rule decodes_step [OF decodes_u_int [of "ucast v"]]) (simp add: xdr_u_char_def)

lemma decodes_opaque:
  assumes "length bs = unat cnt" "unat cnt \<le> length cp" "length pad = xdr_pad (unat cnt)"
  shows "decodes (\<lambda>xdrs cp. xdr_opaque xdrs cp cnt) cp (bs @ pad) (bs @ drop (unat cnt) cp)"
proof (cases "cnt = 0")
  case True
  with assms show ?thesis by (simp add: xdr_pad_def decodes_Nil xdr_opaque_def)
next
  case False
  note eqs = xdr_opaque_def blk_write_def Let_def not_le
  show ?thesis
  proof (cases "unat cnt mod 4 = 0")
    case True
    then have pad: "pad = []" using assms(3) by (simp add: xdr_pad_def)
    show ?thesis unfolding pad append_Nil2
      by (rule decodes_step [OF decodes_getbytes [of bs cp]]) (use False True assms in \<open>simp add: eqs\<close>)
  next
    case pad: False
    then have "length pad = 4 - unat cnt mod 4" using assms(3) by (simp add: xdr_pad_def)
    then show ?thesis
      by (intro decodes_then [OF decodes_getbytes [of bs cp] decodes_getbytes [of pad cp]])
        (use False pad assms in \<open>simp add: eqs\<close>)
  qed
qed

lemma decodes_opaque_at:
  assumes "length bs = unat cnt" "length pad = xdr_pad (unat cnt)"
    and "case sp of None \<Rightarrow> cnt = 0 \<and> sp' = None | Some cp \<Rightarrow> unat cnt \<le> length cp \<and> sp' = Some (bs @ drop (unat cnt) cp)"
  shows "decodes (\<lambda>xdrs sp. xdr_opaque_at xdrs sp cnt) sp (bs @ pad) sp'"
proof (cases sp)
  case None
  with assms show ?thesis by (auto simp: xdr_pad_def xdr_opaque_at_def intro: decodes_Nil)
next
  case (Some cp)
  with assms(3) have c: "unat cnt \<le> length cp" "sp' = Some (bs @ drop (unat cnt) cp)" by simp_all
  show ?thesis by (rule decodes_step [OF decodes_opaque [OF assms(1) c(1) assms(2)]]) (simp add: xdr_opaque_at_def Some c(2))
qed

lemma decodes_bytes:
  assumes "length bs = unat n" "length pad = xdr_pad (unat n)" "n \<le> maxsize"
    and "case sp of None \<Rightarrow> True | Some cp \<Rightarrow> unat n \<le> length cp"
  shows "decodes (xdr_bytes maxsize) (sp, n0) (xdr_unit n @ bs @ pad) (stored sp bs, n)"
proof (cases "n = 0")
  case True
  with assms have "bs = []" "pad = []" by (simp_all add: xdr_pad_def)
  then show ?thesis
    using decodes_step [OF decodes_u_int [of n0 n], of "xdr_bytes maxsize" "(sp, n0)" "(stored sp bs, n)"]
    by (simp add: xdr_bytes_def True stored_def split: option.splits)
next
  case False
  let ?sp = "case sp of None \<Rightarrow> Some (mem_alloc n) | Some p \<Rightarrow> Some p"
  have "bs \<noteq> []" using False assms(1) by (auto simp: unat_eq_0)
  then have "case ?sp of None \<Rightarrow> n = 0 \<and> stored sp bs = None
      | Some cp \<Rightarrow> unat n \<le> length cp \<and> stored sp bs = Some (bs @ drop (unat n) cp)"
    using assms(1,4) by (auto simp: stored_def mem_alloc_def split: option.splits)
  note e = decodes_opaque_at [OF assms(1,2) this]
  show ?thesis by (rule decodes_then [OF decodes_u_int [of n0] e]) (use assms(3) False in \<open>simp add: xdr_bytes_def Let_def not_less\<close>)
qed

lemma decodes_string:
  assumes "length bs = unat n" "length pad = xdr_pad (unat n)" "n \<le> maxsize" "n \<noteq> - 1"
  shows "decodes (xdr_string maxsize) None (xdr_unit n @ bs @ pad) (Some (bs @ [0]))"
proof -
  have n1: "n + 1 \<noteq> 0" using assms(4) by (metis add.right_cancel add_eq_0_iff2)
  then have len: "unat (n + 1) = Suc (unat n)" by (metis unatSuc add.commute)
  let ?s = "(mem_alloc (n + 1))[unat n := 0]"
  have "(replicate (Suc (unat n)) 0)[unat n := 0] = (replicate (Suc (unat n)) 0 :: octets)"
    by (simp only: list_update_same_conv length_replicate lessI nth_replicate)
  then have s: "?s = replicate (unat n) 0 @ [0]" by (simp only: mem_alloc_def len) (simp add: replicate_append_same)
  have "unat n \<le> length (replicate (unat n) 0 @ [0 :: 8 word])" by simp
  note e = decodes_opaque [OF assms(1) this assms(2)]
  show ?thesis
    by (rule decodes_then [OF decodes_u_int [of 0] e])
      (use n1 assms(3) s in \<open>simp add: xdr_string_def Let_def not_less, simp add: mem_alloc_def len\<close>)
qed

lemma decodes_union:
  assumes "(case map_of choices d of Some p \<Rightarrow> Some p | None \<Rightarrow> dfault) = Some p" "decodes p u bs u'"
  shows "decodes (xdr_union choices dfault) (d0, u) (xdr_unit d @ bs) (d, u')"
  by (rule decodes_then [OF decodes_enum [of d0] assms(2)]) (use assms(1) in \<open>simp add: xdr_union_def\<close>)

lemma decodes_array_loop:
  assumes "list_all2 (\<lambda>(x, x') bs. decodes p x bs x') xxs bss"
  shows "decodes (array_loop p (length ys) (length xxs)) (ys @ map fst xxs) (concat bss) (ys @ map snd xxs)"
  using assms
proof (induction xxs bss arbitrary: ys rule: list_all2_induct)
  case Nil
  show ?case by (simp add: decodes_Nil)
next
  case (Cons x xs bs bss)
  obtain a b where x: "x = (a, b)" by (cases x)
  with Cons.hyps(1) have d: "decodes p a bs b" by simp
  have tail: "decodes (array_loop p (Suc (length ys)) (length xs)) (ys @ b # map fst xs) (concat bss) (ys @ b # map snd xs)"
    using Cons.IH [of "ys @ [b]"] by simp
  show ?case unfolding concat.simps length_Cons x
    by (rule decodes_then [OF d tail]) simp
qed

lemma decodes_array:
  assumes "list_all2 (\<lambda>x bs. decodes p zero bs x) xs bss" "unat n = length xs"
    and "n \<le> maxsize" "elsize \<noteq> 0" "n \<le> - 1 div elsize"
  shows "decodes (xdr_array zero maxsize elsize p) (None, n0) (xdr_unit n @ concat bss) (if xs = [] then None else Some xs, n)"
proof (cases "n = 0")
  case True
  with assms(1,2) have "xs = []" "bss = []" by auto
  then show ?thesis
    using decodes_step [OF decodes_u_int [of n0 n], of "xdr_array zero maxsize elsize p" "(None, n0)" "(None, n)"] assms(3-)
    by (simp add: xdr_array_def True)
next
  case False
  have "list_all2 (\<lambda>(x, x') bs. decodes p x bs x') (map (Pair zero) xs) bss"
    using assms(1) by (simp add: list_all2_map1)
  note e = decodes_array_loop [OF this, of "[]"]
  have m: "map fst (map (Pair zero) xs) = replicate (length xs) zero" "map snd (map (Pair zero) xs) = xs"
    by (induction xs) simp_all
  have "xs \<noteq> []" using False assms(2) by (metis length_0_conv unat_eq_0)
  then show ?thesis using decodes_then [OF decodes_u_int [of n0 n] e [unfolded m], of "xdr_array zero maxsize elsize p" "(None, n0)" "(Some xs, n)"]
      assms(2-) False by (simp add: xdr_array_def not_less)
qed

lemma decodes_reference:
  assumes "decodes p (case obj of None \<Rightarrow> zero | Some v \<Rightarrow> v) bs w"
  shows "decodes (xdr_reference zero p) obj bs (Some w)"
  by (rule decodes_step [OF assms]) (auto simp: xdr_reference_def split: option.splits)

lemma decodes_pointer_None: "decodes (xdr_pointer zero p) obj (xdr_unit 0) None"
  by (rule decodes_step [OF decodes_bool [of "if obj \<noteq> None then 1 else 0"]]) (simp add: xdr_pointer_def)

lemma decodes_pointer_Some:
  assumes "decodes p (case obj of None \<Rightarrow> zero | Some v \<Rightarrow> v) bs w"
  shows "decodes (xdr_pointer zero p) obj (xdr_unit 1 @ bs) (Some w)"
  by (rule decodes_then [OF decodes_bool [of "if obj \<noteq> None then 1 else 0"] decodes_reference [OF assms]]) (simp add: xdr_pointer_def)

end

text \<open>Streams that can skip input by their position.\<close>

locale xdr_seeker = xdr_reader +
  assumes seek: "ok s \<Longrightarrow> inp s = bs @ r \<Longrightarrow> r \<noteq> [] \<Longrightarrow> length bs < 2 ^ 32 \<Longrightarrow>
    \<exists>pos t. x_getpostn ops s = Some pos \<and> x_setpostn ops (pos + of_nat (length bs)) s = Some (True, t) \<and> ok t \<and> inp t = r"

end
