(* ===== verification/XdrMem.thy ===== *)
theory XdrMem
  imports XdrStream
begin

text \<open>
  The streams of \<^verbatim>\<open>src/sys/xdr/xdr_mem.c\<close>, over a buffer in memory, and of \<^verbatim>\<open>src/sys/xdr/xdr_sizeof.c\<close>, which
  only counts what is put.

  The state of a memory stream has the pointers of the handle as 32-bit addresses and the block of memory the buffer
  lies in: its address \<open>xm_addr\<close> and its bytes \<open>xm_mem\<close>. An access outside the block is a fault.
\<close>

record xdrmem =
  xm_addr :: "32 word"
  xm_mem :: octets
  xm_private :: "32 word"
  xm_base :: "32 word"
  xm_handy :: "32 word"

section \<open>Memory\<close>

definition xm_pos :: "xdrmem \<Rightarrow> nat" where
  "xm_pos s = unat (xm_private s - xm_addr s)"

definition area_read :: "nat \<Rightarrow> nat \<Rightarrow> octets \<Rightarrow> octets option" where
  "area_read off n m = (if n = 0 then Some [] else if off + n \<le> length m then Some (take n (drop off m)) else None)"

definition area_write :: "nat \<Rightarrow> octets \<Rightarrow> octets \<Rightarrow> octets option" where
  "area_write off bs m =
     (if bs = [] then Some m
      else if off + length bs \<le> length m then Some (take off m @ bs @ drop (off + length bs) m) else None)"

section \<open>Operations\<close>

definition xdrmem_getlong :: "xdr_op \<Rightarrow> xdrmem \<Rightarrow> (32 word option \<times> xdrmem) option" where
  "xdrmem_getlong xop s =
     (if xm_handy s < 4 then Some (None, s)
      else do { bs \<leftarrow> area_read (xm_pos s) 4 (xm_mem s);
                Some (Some (ntohl (load32 bs)), s\<lparr>xm_handy := xm_handy s - 4, xm_private := xm_private s + 4\<rparr>) })"

definition xdrmem_putlong :: "xdr_op \<Rightarrow> 32 word \<Rightarrow> xdrmem \<Rightarrow> (bool \<times> xdrmem) option" where
  "xdrmem_putlong xop l s =
     (if xm_handy s < 4 then Some (False, s)
      else do { m \<leftarrow> area_write (xm_pos s) (store32 (ntohl l)) (xm_mem s);
                Some (True, s\<lparr>xm_mem := m, xm_handy := xm_handy s - 4, xm_private := xm_private s + 4\<rparr>) })"

definition xdrmem_getbytes :: "nat \<Rightarrow> xdrmem \<Rightarrow> (bool \<times> octets \<times> xdrmem) option" where
  "xdrmem_getbytes len s =
     (if unat (xm_handy s) < len then Some (False, [], s)
      else do { bs \<leftarrow> area_read (xm_pos s) len (xm_mem s);
                Some (True, bs, s\<lparr>xm_handy := xm_handy s - of_nat len, xm_private := xm_private s + of_nat len\<rparr>) })"

definition xdrmem_putbytes :: "octets \<Rightarrow> xdrmem \<Rightarrow> (bool \<times> xdrmem) option" where
  "xdrmem_putbytes bs s =
     (let len = length bs in
      if unat (xm_handy s) < len then Some (False, s)
      else do { m \<leftarrow> area_write (xm_pos s) bs (xm_mem s);
                Some (True, s\<lparr>xm_mem := m, xm_handy := xm_handy s - of_nat len, xm_private := xm_private s + of_nat len\<rparr>) })"

definition xdrmem_getpos :: "xdrmem \<Rightarrow> 32 word option" where
  "xdrmem_getpos s = Some (xm_private s - xm_base s)"

definition xdrmem_setpos :: "32 word \<Rightarrow> xdrmem \<Rightarrow> (bool \<times> xdrmem) option" where
  "xdrmem_setpos pos s =
     (let newaddr = xm_base s + pos; lastaddr = xm_private s + xm_handy s in
      if newaddr > lastaddr then Some (False, s)
      else Some (True, s\<lparr>xm_private := newaddr, xm_handy := lastaddr - newaddr\<rparr>))"

definition xdrmem_inline_aligned :: "xdr_op \<Rightarrow> 32 word \<Rightarrow> xdrmem \<Rightarrow> (iptr option \<times> xdrmem) option" where
  "xdrmem_inline_aligned xop len s =
     (if xm_handy s \<ge> len
      then Some (if xm_private s = 0 then None else Some (0, xm_pos s),
                 s\<lparr>xm_handy := xm_handy s - len, xm_private := xm_private s + len\<rparr>)
      else Some (None, s))"

definition xdrmem_inline_unaligned :: "xdr_op \<Rightarrow> 32 word \<Rightarrow> xdrmem \<Rightarrow> (iptr option \<times> xdrmem) option" where
  "xdrmem_inline_unaligned xop len s = Some (None, s)"

definition xdrmem_load :: "iptr \<Rightarrow> nat \<Rightarrow> xdrmem \<Rightarrow> octets option" where
  "xdrmem_load p n s = area_read (snd p) n (xm_mem s)"

definition xdrmem_store :: "iptr \<Rightarrow> octets \<Rightarrow> xdrmem \<Rightarrow> xdrmem option" where
  "xdrmem_store p bs s = do { m \<leftarrow> area_write (snd p) bs (xm_mem s); Some (s\<lparr>xm_mem := m\<rparr>) }"

text \<open>
  The unaligned variants copy the four bytes with \<^verbatim>\<open>memmove\<close> where the aligned ones access them as a word: the same
  bytes of the same block. The two tables differ in \<^verbatim>\<open>x_inline\<close>.
\<close>

definition xdrmem_ops_aligned :: "xdrmem xdr_ops" where
  "xdrmem_ops_aligned =
     \<lparr>x_getlong = xdrmem_getlong, x_putlong = xdrmem_putlong, x_getbytes = xdrmem_getbytes,
      x_putbytes = xdrmem_putbytes, x_getpostn = xdrmem_getpos, x_setpostn = xdrmem_setpos,
      x_inline = xdrmem_inline_aligned, x_load = xdrmem_load, x_store = xdrmem_store\<rparr>"

definition xdrmem_ops_unaligned :: "xdrmem xdr_ops" where
  "xdrmem_ops_unaligned =
     \<lparr>x_getlong = xdrmem_getlong, x_putlong = xdrmem_putlong, x_getbytes = xdrmem_getbytes,
      x_putbytes = xdrmem_putbytes, x_getpostn = xdrmem_getpos, x_setpostn = xdrmem_setpos,
      x_inline = xdrmem_inline_unaligned, x_load = xdrmem_load, x_store = xdrmem_store\<rparr>"

text \<open>A stream over \<open>len\<close> bytes from \<open>addr\<close> on, the start of the block \<open>m\<close>.\<close>

definition xdrmem_create :: "32 word \<Rightarrow> octets \<Rightarrow> 32 word \<Rightarrow> xdr_op \<Rightarrow> xdrmem XDR" where
  "xdrmem_create addr m len xop =
     \<lparr>x_op = xop, x_ops = (if addr AND 3 \<noteq> 0 then xdrmem_ops_unaligned else xdrmem_ops_aligned),
      x_priv = \<lparr>xm_addr = addr, xm_mem = m, xm_private = addr, xm_base = addr, xm_handy = len\<rparr>\<rparr>"

section \<open>Counting\<close>

text \<open>
  The handle of \<^verbatim>\<open>xdr_sizeof\<close>: the count, the address of the area \<^verbatim>\<open>x_inline\<close> has handed out, as its bytes, and its
  size as the code keeps it in \<^verbatim>\<open>x_base\<close>. What \<^verbatim>\<open>malloc\<close> returns is not cleared: \<open>stale\<close> bytes.
\<close>

record xdrsize =
  xs_handy :: "32 word"
  xs_private :: "octets option"
  xs_base :: "32 word"

definition size_inline :: "(nat \<Rightarrow> 8 word) \<Rightarrow> xdr_op \<Rightarrow> 32 word \<Rightarrow> xdrsize \<Rightarrow> (iptr option \<times> xdrsize) option" where
  "size_inline stale xop len s =
     (if len = 0 then Some (None, s)
      else if xop \<noteq> XDR_ENCODE then Some (None, s)
      else if len < xs_base s then
        Some (map_option (\<lambda>_. (0, 0)) (xs_private s), s\<lparr>xs_handy := xs_handy s + len\<rparr>)
      else Some (Some (0, 0), s\<lparr>xs_private := Some (map stale [0..<unat len]), xs_base := len,
                                xs_handy := xs_handy s + len\<rparr>))"

definition size_load :: "iptr \<Rightarrow> nat \<Rightarrow> xdrsize \<Rightarrow> octets option" where
  "size_load p n s = do { m \<leftarrow> xs_private s; area_read (snd p) n m }"

definition size_store :: "iptr \<Rightarrow> octets \<Rightarrow> xdrsize \<Rightarrow> xdrsize option" where
  "size_store p bs s = do { m \<leftarrow> xs_private s; m \<leftarrow> area_write (snd p) bs m; Some (s\<lparr>xs_private := Some m\<rparr>) }"

definition size_ops :: "(nat \<Rightarrow> 8 word) \<Rightarrow> xdrsize xdr_ops" where
  "size_ops stale =
     \<lparr>x_getlong = \<lambda>xop s. Some (None, s),
      x_putlong = \<lambda>xop l s. Some (True, s\<lparr>xs_handy := xs_handy s + 4\<rparr>),
      x_getbytes = \<lambda>len s. Some (False, [], s),
      x_putbytes = \<lambda>bs s. Some (True, s\<lparr>xs_handy := xs_handy s + of_nat (length bs)\<rparr>),
      x_getpostn = \<lambda>s. Some (xs_handy s),
      x_setpostn = \<lambda>pos s. Some (False, s),
      x_inline = size_inline stale, x_load = size_load, x_store = size_store\<rparr>"

definition xdr_sizeof :: "(nat \<Rightarrow> 8 word) \<Rightarrow> (xdrsize, 'a) xdrproc \<Rightarrow> 'a \<Rightarrow> 32 word option" where
  "xdr_sizeof stale func data =
     do { (stat, _, x) \<leftarrow> func \<lparr>x_op = XDR_ENCODE, x_ops = size_ops stale,
                               x_priv = \<lparr>xs_handy = 0, xs_private = None, xs_base = 0\<rparr>\<rparr> data;
          Some (if stat then xs_handy (x_priv x) else 0) }"

section \<open>Memory streams keep the interfaces\<close>

definition xm_ok :: "xdrmem \<Rightarrow> bool" where
  "xm_ok s \<longleftrightarrow> xm_addr s \<noteq> 0 \<and> unat (xm_addr s) + length (xm_mem s) < 2 ^ 32 \<and>
     xm_pos s + unat (xm_handy s) \<le> length (xm_mem s) \<and> unat (xm_base s - xm_addr s) \<le> xm_pos s"

definition xm_inp :: "xdrmem \<Rightarrow> octets" where
  "xm_inp s = take (unat (xm_handy s)) (drop (xm_pos s) (xm_mem s))"

definition xm_fits :: "nat \<Rightarrow> xdrmem \<Rightarrow> bool" where
  "xm_fits n s \<longleftrightarrow> n \<le> unat (xm_handy s)"

definition xm_skip :: "nat \<Rightarrow> xdrmem \<Rightarrow> xdrmem" where
  "xm_skip n s = s\<lparr>xm_handy := xm_handy s - of_nat n, xm_private := xm_private s + of_nat n\<rparr>"

definition xm_put :: "nat \<Rightarrow> octets \<Rightarrow> octets \<Rightarrow> octets" where
  "xm_put off bs m = take off m @ bs @ drop (off + length bs) m"

definition xm_wr :: "octets \<Rightarrow> xdrmem \<Rightarrow> xdrmem \<Rightarrow> bool" where
  "xm_wr bs s t \<longleftrightarrow> xm_ok s \<and> length bs \<le> unat (xm_handy s) \<and> t = (xm_skip (length bs) s)\<lparr>xm_mem := xm_put (xm_pos s) bs (xm_mem s)\<rparr>"

definition xm_res :: "iptr \<Rightarrow> octets \<Rightarrow> xdrmem \<Rightarrow> xdrmem \<Rightarrow> bool" where
  "xm_res q bs s t \<longleftrightarrow> xm_wr bs s t \<and> q = (0, xm_pos s)"

lemma length_xm_put [simp]: "off + length bs \<le> length m \<Longrightarrow> length (xm_put off bs m) = length m"
  by (simp add: xm_put_def)

lemma xm_put_append: "off + length bs + length cs \<le> length m \<Longrightarrow> xm_put (off + length bs) cs (xm_put off bs m) = xm_put off (bs @ cs) m"
  by (simp add: xm_put_def ac_simps)

lemma xm_put_put:
  "off + length bs \<le> length m \<Longrightarrow> i + length cs \<le> length bs \<Longrightarrow>
   xm_put (off + i) cs (xm_put off bs m) = xm_put off (take i bs @ cs @ drop (i + length cs) bs) m"
proof -
  assume le: "off + length bs \<le> length m" "i + length cs \<le> length bs"
  have off: "length (take off m) = off" using le(1) by simp
  have "take (off + i) (take off m @ bs @ drop (off + length bs) m) = take off m @ take i bs"
    using le(2) by (simp only: take_append off) simp
  moreover have "drop (off + i + length cs) (take off m @ bs @ drop (off + length bs) m) =
      drop (i + length cs) bs @ drop (off + length bs) m"
    using le by (simp only: drop_append off) (simp add: add.assoc)
  moreover have "off + length (take i bs @ cs @ drop (i + length cs) bs) = off + length bs" using le(2) by simp
  ultimately show ?thesis unfolding xm_put_def by simp
qed

lemma area_write_put: "off + length bs \<le> length m \<Longrightarrow> area_write off bs m = Some (xm_put off bs m)"
  by (simp add: area_write_def xm_put_def)

lemma area_read_take: "off + n \<le> length m \<Longrightarrow> area_read off n m = Some (take n (drop off m))"
  by (simp add: area_read_def)

lemma xm_okD:
  assumes "xm_ok s"
  shows "xm_pos s + unat (xm_handy s) \<le> length (xm_mem s)" "length (xm_mem s) < 2 ^ 32"
  using assms by (auto simp: xm_ok_def)

lemma xm_skip:
  assumes "xm_ok s" "n \<le> unat (xm_handy s)"
  shows "xm_pos (xm_skip n s) = xm_pos s + n" "unat (xm_handy (xm_skip n s)) = unat (xm_handy s) - n"
    "xm_mem (xm_skip n s) = xm_mem s" "xm_addr (xm_skip n s) = xm_addr s" "xm_base (xm_skip n s) = xm_base s"
    and "xm_ok (xm_skip n s)"
proof -
  have n: "unat (of_nat n :: 32 word) = n" using xm_okD [OF assms(1)] assms(2) by (intro unat_of_nat32) linarith
  have eq: "xm_private (xm_skip n s) - xm_addr (xm_skip n s) = (xm_private s - xm_addr s) + of_nat n" by (simp add: xm_skip_def)
  have "unat ((xm_private s - xm_addr s) + of_nat n) = unat (xm_private s - xm_addr s) + n"
    using xm_okD [OF assms(1)] assms(2) n unat_add_lem [of "xm_private s - xm_addr s" "of_nat n"] by (simp add: xm_pos_def)
  then show p: "xm_pos (xm_skip n s) = xm_pos s + n" unfolding xm_pos_def eq .
  show h: "unat (xm_handy (xm_skip n s)) = unat (xm_handy s) - n"
    using assms(2) n by (simp add: xm_skip_def unat_sub_if_size word_size)
  show fields: "xm_mem (xm_skip n s) = xm_mem s" "xm_addr (xm_skip n s) = xm_addr s" "xm_base (xm_skip n s) = xm_base s"
    by (simp_all add: xm_skip_def)
  show "xm_ok (xm_skip n s)" using assms unfolding xm_ok_def p h fields by auto
qed

lemma xm_inp_skip:
  assumes "xm_ok s" "xm_inp s = bs @ r"
  shows "length bs \<le> unat (xm_handy s)" "xm_inp (xm_skip (length bs) s) = r" "take (length bs) (drop (xm_pos s) (xm_mem s)) = bs"
proof -
  have len: "length (xm_inp s) = unat (xm_handy s)" using xm_okD(1) [OF assms(1)] by (simp add: xm_inp_def)
  then show le: "length bs \<le> unat (xm_handy s)" using assms(2) by simp
  have "xm_inp (xm_skip (length bs) s) = drop (length bs) (xm_inp s)"
    by (simp add: xm_inp_def xm_skip [OF assms(1) le] drop_take add.commute)
  then show "xm_inp (xm_skip (length bs) s) = r" using assms(2) by simp
  have "take (length bs) (xm_inp s) = bs" using assms(2) by simp
  then show "take (length bs) (drop (xm_pos s) (xm_mem s)) = bs" using le by (simp add: xm_inp_def min_absorb1)
qed

lemma xm_read:
  assumes "xm_ok s" "xm_inp s = bs @ r"
  shows "area_read (xm_pos s) (length bs) (xm_mem s) = Some bs"
  using xm_inp_skip [OF assms] xm_okD(1) [OF assms(1)] by (simp add: area_read_take)

lemma xm_wr_ok: "xm_wr bs s t \<Longrightarrow> xm_ok t"
proof -
  assume "xm_wr bs s t"
  then have s: "xm_ok s" "length bs \<le> unat (xm_handy s)" and t: "t = (xm_skip (length bs) s)\<lparr>xm_mem := xm_put (xm_pos s) bs (xm_mem s)\<rparr>"
    by (simp_all add: xm_wr_def)
  have "length (xm_put (xm_pos s) bs (xm_mem s)) = length (xm_mem s)" using xm_okD(1) [OF s(1)] s(2) by simp
  then show ?thesis using xm_skip(6) [OF s] unfolding t by (simp add: xm_ok_def xm_pos_def xm_skip_def)
qed

lemma xm_wr_append:
  assumes "xm_wr bs s t" "xm_wr cs t u"
  shows "xm_wr (bs @ cs) s u"
proof -
  from assms(1) have s: "xm_ok s" "length bs \<le> unat (xm_handy s)" and t: "t = (xm_skip (length bs) s)\<lparr>xm_mem := xm_put (xm_pos s) bs (xm_mem s)\<rparr>"
    by (simp_all add: xm_wr_def)
  from assms(2) have c: "length cs \<le> unat (xm_handy t)" and u: "u = (xm_skip (length cs) t)\<lparr>xm_mem := xm_put (xm_pos t) cs (xm_mem t)\<rparr>"
    by (simp_all add: xm_wr_def)
  have pos: "xm_pos t = xm_pos s + length bs" and h: "unat (xm_handy t) = unat (xm_handy s) - length bs"
    using xm_skip(1,2) [OF s] by (simp_all add: t xm_pos_def)
  have len: "length (bs @ cs) \<le> unat (xm_handy s)" using c h s(2) by simp
  have m: "xm_put (xm_pos t) cs (xm_mem t) = xm_put (xm_pos s) (bs @ cs) (xm_mem s)"
    using xm_okD(1) [OF s(1)] len unfolding pos by (simp add: t xm_put_append)
  show ?thesis using s(1) len unfolding xm_wr_def u m by (simp add: t xm_skip_def)
qed

lemma xm_wr_fits: "xm_wr bs s t \<Longrightarrow> xm_fits (length bs + n) s \<Longrightarrow> xm_fits n t"
  using xm_skip(2) [of s "length bs"] by (auto simp: xm_wr_def xm_fits_def)

lemma xm_wr_Nil: "xm_ok s \<Longrightarrow> xm_wr [] s s"
  by (simp add: xm_wr_def xm_skip_def xm_put_def)

lemma xm_put_runs:
  assumes "xm_ok s" "length bs \<le> unat (xm_handy s)"
  shows "area_write (xm_pos s) bs (xm_mem s) = Some (xm_put (xm_pos s) bs (xm_mem s))"
  using xm_okD(1) [OF assms(1)] assms(2) by (simp add: area_write_put)

lemmas xm_defs = xdrmem_ops_aligned_def xdrmem_ops_unaligned_def xdrmem_putlong_def xdrmem_getlong_def
  xdrmem_putbytes_def xdrmem_getbytes_def xdrmem_inline_aligned_def xdrmem_inline_unaligned_def
  xdrmem_load_def xdrmem_store_def

lemma xm_putlong:
  assumes "xm_ok s" "xm_fits 4 s"
  shows "\<exists>t. xdrmem_putlong XDR_ENCODE l s = Some (True, t) \<and> xm_wr (xdr_unit l) s t"
proof -
  have "length (xdr_unit l) \<le> unat (xm_handy s)" using assms(2) by (simp add: xm_fits_def)
  with xm_put_runs [OF assms(1) this] assms show ?thesis
    by (simp add: xdrmem_putlong_def xm_wr_def xm_skip_def word_less_nat_alt flip: xdr_unit_def)
qed

lemma xm_putbytes:
  assumes "xm_ok s" "xm_fits (length bs) s"
  shows "\<exists>t. xdrmem_putbytes bs s = Some (True, t) \<and> xm_wr bs s t"
  using xm_put_runs [OF assms(1), of bs] assms by (simp add: xdrmem_putbytes_def Let_def xm_wr_def xm_skip_def xm_fits_def)

lemma xm_res_store:
  assumes "xm_res q bs s t" "i + length cs \<le> length bs"
  shows "\<exists>u. xdrmem_store (iptr_add q i) cs t = Some u \<and> xm_res q (take i bs @ cs @ drop (i + length cs) bs) s u"
proof -
  let ?bs = "take i bs @ cs @ drop (i + length cs) bs"
  from assms(1) have s: "xm_ok s" "length bs \<le> unat (xm_handy s)" and t: "t = (xm_skip (length bs) s)\<lparr>xm_mem := xm_put (xm_pos s) bs (xm_mem s)\<rparr>"
    and q: "q = (0, xm_pos s)" by (simp_all add: xm_res_def xm_wr_def)
  have le: "xm_pos s + length bs \<le> length (xm_mem s)" using xm_okD(1) [OF s(1)] s(2) by simp
  have "area_write (xm_pos s + i) cs (xm_put (xm_pos s) bs (xm_mem s)) = Some (xm_put (xm_pos s) ?bs (xm_mem s))"
    using le assms(2) xm_put_put [OF le assms(2)] by (simp add: area_write_put)
  moreover have "length ?bs = length bs" using assms(2) by simp
  ultimately show ?thesis using s unfolding xm_res_def xm_wr_def q t by (simp add: xdrmem_store_def iptr_add_def)
qed

lemma xm_address:
  assumes "xm_ok s" "n \<le> unat (xm_handy s)"
  shows "unat (xm_private s + of_nat n) = unat (xm_addr s) + (xm_pos s + n)"
proof -
  have "xm_private s + of_nat n = xm_addr s + (xm_private (xm_skip n s) - xm_addr (xm_skip n s))" by (simp add: xm_skip_def)
  then have "unat (xm_private s + of_nat n) = unat (xm_addr s) + xm_pos (xm_skip n s)"
    using assms unat_add_lem [of "xm_addr s" "xm_private (xm_skip n s) - xm_addr (xm_skip n s)"] xm_skip(1) [OF assms] xm_okD(1) [OF assms(1)]
    by (simp add: xm_pos_def xm_ok_def)
  then show ?thesis by (simp add: xm_skip(1) [OF assms])
qed

lemma xm_private_nonzero:
  assumes "xm_ok s"
  shows "xm_private s \<noteq> 0"
proof -
  have "0 < unat (xm_private s)" using xm_address [OF assms, of 0] assms by (simp add: xm_ok_def unat_gt_0)
  then show ?thesis by auto
qed

lemma xm_inline_aligned_put:
  assumes "xm_ok s" "xm_fits (unat len) s" "len \<noteq> 0"
  shows "xdrmem_inline_aligned XDR_ENCODE len s = Some (None, s) \<or>
    (\<exists>q bs t. xdrmem_inline_aligned XDR_ENCODE len s = Some (Some q, t) \<and> length bs = unat len \<and> xm_res q bs s t)"
proof -
  let ?bs = "take (unat len) (drop (xm_pos s) (xm_mem s))"
  have le: "unat len \<le> unat (xm_handy s)" using assms(2) by (simp add: xm_fits_def)
  have l: "xm_pos s + unat len \<le> length (xm_mem s)" using xm_okD(1) [OF assms(1)] le by simp
  then have bs: "length ?bs = unat len" by simp
  have "xm_put (xm_pos s) ?bs (xm_mem s) = xm_mem s"
    unfolding xm_put_def bs by (simp add: add.commute flip: drop_drop)
  then have "xm_res (0, xm_pos s) ?bs s (xm_skip (unat len) s)"
    using assms(1) le unfolding xm_res_def xm_wr_def bs by (simp add: xm_skip_def)
  moreover have "xdrmem_inline_aligned XDR_ENCODE len s = Some (Some (0, xm_pos s), xm_skip (unat len) s)"
    using le xm_private_nonzero [OF assms(1)] by (simp add: xdrmem_inline_aligned_def xm_skip_def word_le_nat_alt)
  ultimately show ?thesis using bs by blast
qed

lemma xm_res_wr: "xm_res q bs s t \<Longrightarrow> xm_wr bs s t"
  by (simp add: xm_res_def)

lemma xm_fits_le: "xm_fits n s \<Longrightarrow> m \<le> n \<Longrightarrow> xm_fits m s"
  by (simp add: xm_fits_def)

lemmas xm_writer_laws = xm_putlong xm_putbytes xm_res_store xm_res_wr xm_wr_ok xm_wr_fits xm_fits_le xm_wr_Nil xm_wr_append

interpretation mw: xdr_writer xdrmem_ops_aligned xm_ok xm_fits xm_wr xm_res
  by (unfold_locales, unfold xdrmem_ops_aligned_def xdr_ops.simps) (fact xm_writer_laws xm_inline_aligned_put)+

interpretation mwu: xdr_writer xdrmem_ops_unaligned xm_ok xm_fits xm_wr xm_res
  by (unfold_locales, unfold xdrmem_ops_unaligned_def xdr_ops.simps xdrmem_inline_unaligned_def) ((fact xm_writer_laws)+, simp, (fact xm_writer_laws)+)

lemma xm_getlong:
  assumes "xm_ok s" "xm_inp s = xdr_unit l @ r"
  shows "\<exists>t. xdrmem_getlong XDR_DECODE s = Some (Some l, t) \<and> xm_ok t \<and> xm_inp t = r"
proof -
  note i = xm_inp_skip [OF assms] and s = xm_skip(6) [OF assms(1), of 4]
  have "xdrmem_getlong XDR_DECODE s = Some (Some l, xm_skip 4 s)"
    using i(1) xm_read [OF assms] by (simp add: xdrmem_getlong_def xm_skip_def word_less_nat_alt)
  then show ?thesis using i(1,2) s by simp
qed

lemma xm_getbytes:
  assumes "xm_ok s" "xm_inp s = bs @ r"
  shows "\<exists>t. xdrmem_getbytes (length bs) s = Some (True, bs, t) \<and> xm_ok t \<and> xm_inp t = r"
proof -
  note i = xm_inp_skip [OF assms]
  have "xdrmem_getbytes (length bs) s = Some (True, bs, xm_skip (length bs) s)"
    using i(1) xm_read [OF assms] by (simp add: xdrmem_getbytes_def xm_skip_def)
  then show ?thesis using i(2) xm_skip(6) [OF assms(1) i(1)] by simp
qed

lemma xm_inline_aligned_get:
  assumes "xm_ok s" "xm_inp s = bs @ r" "length bs = unat len" "len \<noteq> 0"
  shows "xdrmem_inline_aligned XDR_DECODE len s = Some (None, s) \<or>
    (\<exists>q t. xdrmem_inline_aligned XDR_DECODE len s = Some (Some q, t) \<and> xm_ok t \<and> xm_inp t = r \<and>
      (\<forall>i n. i + n \<le> length bs \<longrightarrow> xdrmem_load (iptr_add q i) n t = Some (take n (drop i bs))))"
proof -
  note i = xm_inp_skip [OF assms(1,2)]
  have run: "xdrmem_inline_aligned XDR_DECODE len s = Some (Some (0, xm_pos s), xm_skip (length bs) s)"
    using i(1) xm_private_nonzero [OF assms(1)] assms(3)
    by (simp add: xdrmem_inline_aligned_def xm_skip_def word_le_nat_alt)
  have "xdrmem_load (iptr_add (0, xm_pos s) j) n (xm_skip (length bs) s) = Some (take n (drop j bs))"
    if "j + n \<le> length bs" for j n
  proof -
    have "take n (drop j bs) = take n (drop j (take (length bs) (drop (xm_pos s) (xm_mem s))))" by (simp only: i(3))
    also have "\<dots> = take n (drop (xm_pos s + j) (xm_mem s))"
      using that by (simp add: take_drop drop_drop add.commute min_def)
    finally show ?thesis
      using that i(1) xm_okD(1) [OF assms(1)] by (simp add: xdrmem_load_def iptr_add_def area_read_take xm_skip_def)
  qed
  then show ?thesis using run i(2) xm_skip(6) [OF assms(1) i(1)] by blast
qed

lemma xm_seek:
  assumes "xm_ok s" "xm_inp s = bs @ r" "r \<noteq> []" "length bs < 2 ^ 32"
  shows "\<exists>pos t. xdrmem_getpos s = Some pos \<and> xdrmem_setpos (pos + of_nat (length bs)) s = Some (True, t) \<and> xm_ok t \<and> xm_inp t = r"
proof -
  note i = xm_inp_skip [OF assms(1,2)]
  have new: "xm_base s + (xm_private s - xm_base s + of_nat (length bs)) = xm_private s + of_nat (length bs)" by simp
  have "unat (xm_private s + of_nat (length bs)) \<le> unat (xm_private s + xm_handy s)"
    using xm_address [OF assms(1) i(1)] xm_address [OF assms(1), of "unat (xm_handy s)"] i(1) by simp
  then have "xdrmem_setpos (xm_private s - xm_base s + of_nat (length bs)) s = Some (True, xm_skip (length bs) s)"
    by (simp add: xdrmem_setpos_def Let_def new xm_skip_def word_less_nat_alt not_less)
  then show ?thesis using i(2) xm_skip(6) [OF assms(1) i(1)] by (simp add: xdrmem_getpos_def)
qed

lemmas xm_reader_laws = xm_getlong xm_getbytes xm_seek

interpretation mr: xdr_seeker xdrmem_ops_aligned xm_ok xm_inp
  by (unfold_locales, unfold xdrmem_ops_aligned_def xdr_ops.simps) (fact xm_reader_laws xm_inline_aligned_get)+

interpretation mru: xdr_seeker xdrmem_ops_unaligned xm_ok xm_inp
  by (unfold_locales, unfold xdrmem_ops_unaligned_def xdr_ops.simps xdrmem_inline_unaligned_def)
    ((fact xm_reader_laws)+, simp, fact xm_seek)

section \<open>The counting stream keeps the writer's interface\<close>

definition xs_ok :: "xdrsize \<Rightarrow> bool" where
  "xs_ok s \<longleftrightarrow> (case xs_private s of None \<Rightarrow> xs_base s = 0 | Some m \<Rightarrow> length m = unat (xs_base s))"

definition xs_wr :: "octets \<Rightarrow> xdrsize \<Rightarrow> xdrsize \<Rightarrow> bool" where
  "xs_wr bs s t \<longleftrightarrow> xs_ok t \<and> xs_handy t = xs_handy s + of_nat (length bs)"

definition xs_res :: "iptr \<Rightarrow> octets \<Rightarrow> xdrsize \<Rightarrow> xdrsize \<Rightarrow> bool" where
  "xs_res q bs s t \<longleftrightarrow> xs_wr bs s t \<and> q = (0, 0) \<and>
     (\<exists>m. xs_private t = Some m \<and> length bs \<le> length m \<and> take (length bs) m = bs)"

lemma xs_inline_put:
  assumes "xs_ok s" "len \<noteq> 0"
  shows "size_inline stale XDR_ENCODE len s = Some (None, s) \<or>
    (\<exists>q bs t. size_inline stale XDR_ENCODE len s = Some (Some q, t) \<and> length bs = unat len \<and> xs_res q bs s t)"
proof (cases "len < xs_base s")
  case True
  then have "xs_base s \<noteq> 0" by auto
  then obtain m where m: "xs_private s = Some m" "length m = unat (xs_base s)"
    using assms(1) by (auto simp: xs_ok_def split: option.splits)
  then have "length (take (unat len) m) = unat len" using True by (simp add: word_less_nat_alt)
  moreover have "xs_res (0, 0) (take (unat len) m) s (s\<lparr>xs_handy := xs_handy s + len\<rparr>)"
    using m True by (simp add: xs_res_def xs_wr_def xs_ok_def word_less_nat_alt)
  moreover have "size_inline stale XDR_ENCODE len s = Some (Some (0, 0), s\<lparr>xs_handy := xs_handy s + len\<rparr>)"
    using True assms(2) m by (simp add: size_inline_def)
  ultimately show ?thesis by blast
next
  case False
  let ?m = "map stale [0..<unat len]"
  let ?t = "s\<lparr>xs_private := Some ?m, xs_base := len, xs_handy := xs_handy s + len\<rparr>"
  have "xs_res (0, 0) ?m s ?t" by (simp add: xs_res_def xs_wr_def xs_ok_def)
  moreover have "size_inline stale XDR_ENCODE len s = Some (Some (0, 0), ?t)"
    using False assms(2) by (simp add: size_inline_def)
  moreover have "length ?m = unat len" by simp
  ultimately show ?thesis by blast
qed

lemma xs_res_store:
  assumes "xs_res q bs s t" "i + length cs \<le> length bs"
  shows "\<exists>u. size_store (iptr_add q i) cs t = Some u \<and> xs_res q (take i bs @ cs @ drop (i + length cs) bs) s u"
proof -
  let ?bs = "take i bs @ cs @ drop (i + length cs) bs"
  obtain m where t: "xs_wr bs s t" "q = (0, 0)" and m: "xs_private t = Some m" "length bs \<le> length m" "take (length bs) m = bs"
    using assms(1) by (auto simp: xs_res_def)
  have len: "length ?bs = length bs" using assms(2) by simp
  have m': "m = bs @ drop (length bs) m" using m(3) by (metis append_take_drop_id)
  have w: "area_write i cs m = Some (xm_put i cs m)" using m(2) assms(2) by (intro area_write_put) simp
  have "xm_put i cs m = ?bs @ drop (length bs) m"
    unfolding xm_put_def using assms(2) by (subst (1 2) m') (simp add: m(2))
  then have p: "take (length ?bs) (xm_put i cs m) = ?bs" unfolding len using assms(2) by simp
  have l: "length (xm_put i cs m) = length m" using m(2) assms(2) by simp
  then have "xs_res q ?bs s (t\<lparr>xs_private := Some (xm_put i cs m)\<rparr>)"
    using t m p len unfolding xs_res_def xs_wr_def xs_ok_def by simp
  then show ?thesis using w m(1) t(2) by (simp add: size_store_def iptr_add_def)
qed

lemma xs_wr_append: "xs_wr bs s t \<Longrightarrow> xs_wr cs t u \<Longrightarrow> xs_wr (bs @ cs) s u"
  by (simp add: xs_wr_def add.assoc)

lemma xs_wr_put: "xs_ok s \<Longrightarrow> xs_wr bs s (s\<lparr>xs_handy := xs_handy s + of_nat (length bs)\<rparr>)"
  by (simp add: xs_wr_def xs_ok_def split: option.splits)

interpretation sw: xdr_writer "size_ops stale" xs_ok "\<lambda>_ _. True" xs_wr xs_res for stale
proof (unfold_locales, unfold size_ops_def xdr_ops.simps, goal_cases)
  case (1 s l)
  then show ?case using xs_wr_put [of s "xdr_unit l"] by simp
next
  case (2 s bs)
  then show ?case by (simp add: xs_wr_put)
next
  case (3 s len)
  then show ?case by (intro xs_inline_put)
next
  case (4 q bs s t i cs)
  then show ?case by (rule xs_res_store)
qed (auto simp: xs_res_def xs_wr_def intro: xs_wr_append)

lemma sizeof_encodes:
  assumes "sw.encodes stale p v bs"
  shows "xdr_sizeof stale p v = Some (of_nat (length bs))"
proof -
  let ?x = "\<lparr>x_op = XDR_ENCODE, x_ops = size_ops stale, x_priv = \<lparr>xs_handy = 0, xs_private = None, xs_base = 0\<rparr>\<rparr>"
  obtain t where "p ?x v = Some (True, v, ?x\<lparr>x_priv := t\<rparr>)" "xs_wr bs (x_priv ?x) t"
    by (rule sw.encodesD [OF assms, of ?x]) (simp_all add: xs_ok_def)
  then show ?thesis by (simp add: xdr_sizeof_def xs_wr_def)
qed

end
