(* ===== verification/XdrMbuf.thy ===== *)
theory XdrMbuf
  imports XdrMem
begin

text \<open>
  The streams of \<^verbatim>\<open>src/sys/xdr/xdr_mbuf.c\<close>, over a chain of mbufs.

  An mbuf of the chain has the address of its data, the storage from there to the end of what may be
  written, the number \<open>m_len\<close> of bytes in use and whether the storage is external. Trailing space is the storage behind
  \<open>m_len\<close> (none where the storage is shared). The chain at \<^verbatim>\<open>x_base\<close> is a list, a null pointer the empty one;
  \<^verbatim>\<open>x_private\<close> is an index into it or null. Differences like \<^verbatim>\<open>m->m_len - xdrs->x_handy\<close> are
  unsigned; an offset behind \<open>m_len\<close>, where they would wrap, counts as a fault.
\<close>

record mbuf =
  m_addr :: "32 word"
  m_store :: octets
  m_len :: nat
  m_ext :: bool

record xdrmbuf =
  xb_base :: "mbuf list"
  xb_private :: "nat option"
  xb_handy :: nat

section \<open>Mbufs\<close>

text \<open>
  \<open>MGET\<close>: the \<open>n\<close>th allocation. \<open>mg\<close> says at which address it lies and what its storage still holds; the storage
  has \<^verbatim>\<open>MLEN\<close> bytes, \<^verbatim>\<open>MCLBYTES\<close> after \<^verbatim>\<open>MCLGET\<close>.
\<close>

type_synonym mbuf_zone = "nat \<Rightarrow> 32 word \<times> (nat \<Rightarrow> 8 word)"

abbreviation (input) MLEN :: nat where "MLEN \<equiv> 232"
abbreviation (input) MCLBYTES :: nat where "MCLBYTES \<equiv> 2048"

definition MGET :: "mbuf_zone \<Rightarrow> nat \<Rightarrow> bool \<Rightarrow> mbuf" where
  "MGET mg n ext =
     \<lparr>m_addr = fst (mg n), m_store = map (snd (mg n)) [0..<(if ext then MCLBYTES else MLEN)], m_len = 0, m_ext = ext\<rparr>"

definition M_TRAILINGSPACE :: "mbuf \<Rightarrow> nat" where
  "M_TRAILINGSPACE m = length (m_store m) - m_len m"

definition mb_length :: "mbuf list \<Rightarrow> nat" where
  "mb_length ms = sum_list (map m_len ms)"

text \<open>\<^verbatim>\<open>m_adj\<close> trimming from the head.\<close>

fun m_adj :: "nat \<Rightarrow> mbuf list \<Rightarrow> mbuf list" where
  "m_adj len [] = []"
| "m_adj len (m # ms) =
     (if len = 0 then m # ms
      else if m_len m \<le> len then m\<lparr>m_len := 0\<rparr> # m_adj (len - m_len m) ms
      else m\<lparr>m_len := m_len m - len, m_addr := m_addr m + of_nat len, m_store := drop len (m_store m)\<rparr> # ms)"

section \<open>Operations\<close>

definition xdrmbuf_inline :: "xdr_op \<Rightarrow> 32 word \<Rightarrow> xdrmbuf \<Rightarrow> (iptr option \<times> xdrmbuf) option" where
  "xdrmbuf_inline xop len s =
     (case xb_private s of
        None \<Rightarrow> None
      | Some i \<Rightarrow>
          if \<not> i < length (xb_base s) then None
          else let m = xb_base s ! i; handy = xb_handy s in
          if m_len m < handy then None
          else let available = (if xop = XDR_ENCODE then M_TRAILINGSPACE m else 0) + (m_len m - handy) in
          if available \<ge> unat len then
            (if (m_addr m + of_nat handy) AND 3 \<noteq> 0 then Some (None, s)
             else let handy' = handy + unat len in
               Some (Some (i, handy),
                 s\<lparr>xb_handy := handy',
                   xb_base := (if handy' > m_len m then (xb_base s)[i := m\<lparr>m_len := handy'\<rparr>] else xb_base s)\<rparr>))
          else Some (None, s))"

definition xdrmbuf_load :: "iptr \<Rightarrow> nat \<Rightarrow> xdrmbuf \<Rightarrow> octets option" where
  "xdrmbuf_load p n s =
     (if fst p < length (xb_base s) then area_read (snd p) n (m_store (xb_base s ! fst p)) else None)"

definition xdrmbuf_store :: "iptr \<Rightarrow> octets \<Rightarrow> xdrmbuf \<Rightarrow> xdrmbuf option" where
  "xdrmbuf_store p bs s =
     (if fst p < length (xb_base s) then
        do { st \<leftarrow> area_write (snd p) bs (m_store (xb_base s ! fst p));
             Some (s\<lparr>xb_base := (xb_base s)[fst p := (xb_base s ! fst p)\<lparr>m_store := st\<rparr>]\<rparr>) }
      else None)"

text \<open>
  The loop of \<^verbatim>\<open>xdrmbuf_getbytes\<close>; it returns the result, the bytes copied, and \<^verbatim>\<open>x_private\<close> and \<^verbatim>\<open>x_handy\<close>.
\<close>

function mbuf_get :: "mbuf list \<Rightarrow> nat \<Rightarrow> nat option \<Rightarrow> nat \<Rightarrow> (bool \<times> octets \<times> nat option \<times> nat) option" where
  "mbuf_get ms len p handy =
     (if len = 0 then Some (True, [], p, handy)
      else case p of
        None \<Rightarrow> Some (False, [], p, handy)
      | Some i \<Rightarrow>
          if \<not> i < length ms then None
          else let m = ms ! i in
          if m_len m < handy then None
          else let sz = min (m_len m - handy) len; handy' = handy + sz in
          do { bs \<leftarrow> area_read handy sz (m_store m);
               (b, bs', p, h) \<leftarrow>
                 (if handy' = m_len m then mbuf_get ms (len - sz) (if Suc i < length ms then Some (Suc i) else None) 0
                  else mbuf_get ms (len - sz) (Some i) handy');
               Some (b, bs @ bs', p, h) })"
  by pat_completeness auto
termination
  by (relation "measure (\<lambda>(ms, len, p, handy). len + (case p of None \<Rightarrow> 0 | Some i \<Rightarrow> length ms - i))") auto

declare mbuf_get.simps [simp del]

definition xdrmbuf_getbytes :: "nat \<Rightarrow> xdrmbuf \<Rightarrow> (bool \<times> octets \<times> xdrmbuf) option" where
  "xdrmbuf_getbytes len s =
     do { (b, bs, p, h) \<leftarrow> mbuf_get (xb_base s) len (xb_private s) (xb_handy s);
          Some (b, bs, s\<lparr>xb_private := p, xb_handy := h\<rparr>) }"

text \<open>The variable \<^verbatim>\<open>t\<close> of \<^verbatim>\<open>xdrmbuf_getlong\<close> is on the stack and not initialised: it holds the four bytes \<open>junk\<close>.\<close>

definition xdrmbuf_getlong :: "octets \<Rightarrow> xdr_op \<Rightarrow> xdrmbuf \<Rightarrow> (32 word option \<times> xdrmbuf) option" where
  "xdrmbuf_getlong junk xop s =
     do { (p, s) \<leftarrow> xdrmbuf_inline xop 4 s;
          (t, s) \<leftarrow> (case p of
                       Some p \<Rightarrow> do { bs \<leftarrow> xdrmbuf_load p 4 s; Some (bs, s) }
                     | None \<Rightarrow> do { (b, bs, s) \<leftarrow> xdrmbuf_getbytes 4 s; t \<leftarrow> blk_write junk bs; Some (t, s) });
          Some (Some (ntohl (load32 t)), s) }"

text \<open>The loop of \<^verbatim>\<open>xdrmbuf_putbytes\<close>.\<close>

function mbuf_put :: "mbuf_zone \<Rightarrow> octets \<Rightarrow> mbuf list \<Rightarrow> nat \<Rightarrow> nat \<Rightarrow> (mbuf list \<times> nat \<times> nat) option" where
  "mbuf_put mg bs ms i handy =
     (if bs = [] then Some (ms, i, handy)
      else if \<not> i < length ms then None
      else let m = ms ! i in
      if m_len m < handy then None
      else let sz = min (M_TRAILINGSPACE m + (m_len m - handy)) (length bs); handy' = handy + sz in
      do { st \<leftarrow> area_write handy (take sz bs) (m_store m);
           let m = m\<lparr>m_store := st, m_len := (if handy' > m_len m then handy' else m_len m)\<rparr>;
           let ms = ms[i := m];
           if handy' = m_len m \<and> M_TRAILINGSPACE m = 0
           then mbuf_put mg (drop sz bs) (if Suc i < length ms then ms else ms @ [MGET mg (length ms) (m_ext m)]) (Suc i) 0
           else mbuf_put mg (drop sz bs) ms i handy' })"
  by pat_completeness auto

lemma length_MGET [simp]: "length (m_store (MGET mg n ext)) = (if ext then MCLBYTES else MLEN)"
  by (simp add: MGET_def)

lemma length_area_write: "area_write off bs m = Some m' \<Longrightarrow> length m' = length m"
  by (auto simp: area_write_def split: if_splits)

text \<open>
  The loop ends: a turn either writes a byte or leaves a full mbuf, and a new mbuf is never full.
\<close>

definition put_full :: "mbuf list \<Rightarrow> nat \<Rightarrow> nat \<Rightarrow> nat" where
  "put_full ms i handy = (if i < length ms \<and> length (m_store (ms ! i)) > handy then 0 else 1)"

lemma put_full_le: "put_full ms i handy \<le> 1"
  by (simp add: put_full_def)

lemma put_full_fresh: "put_full (ms @ [MGET mg n ext]) (length ms) 0 = 0"
  by (simp add: put_full_def)

lemma put_turn:
  assumes "bs \<noteq> []" "i < length ms" "handy \<le> m_len (ms ! i)"
    and "sz = min (M_TRAILINGSPACE (ms ! i) + (m_len (ms ! i) - handy)) (length bs)"
    and "area_write handy (take sz bs) (m_store (ms ! i)) = Some st"
  shows "0 < sz \<or> length (m_store (ms ! i)) \<le> handy \<and> m_len (ms ! i) = handy"
    and "sz < length bs \<Longrightarrow> handy + sz = max (m_len (ms ! i)) (handy + sz) \<and> length st \<le> handy + sz"
proof -
  show "0 < sz \<or> length (m_store (ms ! i)) \<le> handy \<and> m_len (ms ! i) = handy"
    using assms(1,3,4) by (auto simp: M_TRAILINGSPACE_def)
  assume sz: "sz < length bs"
  then have eq: "sz = M_TRAILINGSPACE (ms ! i) + (m_len (ms ! i) - handy)" using assms(4) by simp
  have st: "length st = length (m_store (ms ! i))" using assms(5) by (rule length_area_write)
  show "handy + sz = max (m_len (ms ! i)) (handy + sz) \<and> length st \<le> handy + sz"
    unfolding st eq using assms(3) by (auto simp: M_TRAILINGSPACE_def)
qed

termination mbuf_put
proof (relation "measures [\<lambda>(mg, bs, ms, i, handy). length bs, \<lambda>(mg, bs, ms, i, handy). length ms - i + put_full ms i handy]",
       goal_cases)
  case 1
  show ?case by simp
next
  case (2 mg bs ms i handy m sz handy' st m' ms')
  have pre: "i < length ms" "handy \<le> m_len (ms ! i)" using 2(2,3,4) by simp_all
  note t = put_turn [OF 2(1) pre 2(5) [unfolded 2(3)] 2(7) [unfolded 2(3)]]
  show ?case
  proof (cases "0 < sz")
    case True
    then show ?thesis using 2(1) by simp
  next
    case False
    then have "length (m_store (ms ! i)) \<le> handy" using t(1) by (simp add: not_less)
    then have now: "put_full ms i handy = 1" by (simp add: put_full_def)
    have len: "length ms' = length ms" by (simp add: 2(9))
    show ?thesis
    proof (cases "Suc i < length ms'")
      case True
      then show ?thesis using False len now put_full_le [of ms' "Suc i" 0] by simp
    next
      case False
      then have "Suc i = length ms'" using pre(1) len by simp
      then show ?thesis using False \<open>\<not> 0 < sz\<close> len now put_full_fresh [of ms'] by simp
    qed
  qed
next
  case (3 mg bs ms i handy m sz handy' st m' ms')
  have pre: "i < length ms" "handy \<le> m_len (ms ! i)" using 3(2,3,4) by simp_all
  note t = put_turn [OF 3(1) pre 3(5) [unfolded 3(3)] 3(7) [unfolded 3(3)]]
  have "\<not> sz < length bs"
  proof
    assume "sz < length bs"
    from t(2) [OF this] have "handy' = m_len m'" "M_TRAILINGSPACE m' = 0"
      unfolding 3(6,8) 3(3) by (simp_all add: M_TRAILINGSPACE_def max_def split: if_splits)
    then show False using 3(10) by simp
  qed
  then show ?case using 3(1) by simp
qed

declare mbuf_put.simps [simp del]

definition xdrmbuf_putbytes :: "mbuf_zone \<Rightarrow> octets \<Rightarrow> xdrmbuf \<Rightarrow> (bool \<times> xdrmbuf) option" where
  "xdrmbuf_putbytes mg bs s =
     (case xb_private s of
        None \<Rightarrow> if bs = [] then Some (True, s) else None
      | Some i \<Rightarrow>
          do { (ms, i, handy) \<leftarrow> mbuf_put mg bs (xb_base s) i (xb_handy s);
               Some (True, s\<lparr>xb_base := ms, xb_private := Some i, xb_handy := handy\<rparr>) })"

definition xdrmbuf_putlong :: "mbuf_zone \<Rightarrow> xdr_op \<Rightarrow> 32 word \<Rightarrow> xdrmbuf \<Rightarrow> (bool \<times> xdrmbuf) option" where
  "xdrmbuf_putlong mg xop l s =
     do { let t = ntohl l;
          (p, s) \<leftarrow> xdrmbuf_inline xop 4 s;
          case p of
            Some p \<Rightarrow> do { s \<leftarrow> xdrmbuf_store p (store32 t) s; Some (True, s) }
          | None \<Rightarrow> xdrmbuf_putbytes mg (store32 t) s }"

definition xdrmbuf_getpos :: "xdrmbuf \<Rightarrow> 32 word option" where
  "xdrmbuf_getpos s =
     (case xb_private s of
        None \<Rightarrow> None
      | Some i \<Rightarrow> if i < length (xb_base s) then Some (of_nat (mb_length (take i (xb_base s)) + xb_handy s)) else None)"

fun mbuf_seek :: "nat \<Rightarrow> nat \<Rightarrow> mbuf list \<Rightarrow> (nat \<times> nat) option" where
  "mbuf_seek i pos [] = None"
| "mbuf_seek i pos (m # ms) = (if pos > m_len m then mbuf_seek (Suc i) (pos - m_len m) ms else Some (i, pos))"

definition xdrmbuf_setpos :: "32 word \<Rightarrow> xdrmbuf \<Rightarrow> (bool \<times> xdrmbuf) option" where
  "xdrmbuf_setpos pos s =
     do { (i, pos) \<leftarrow> mbuf_seek 0 (unat pos) (xb_base s); Some (True, s\<lparr>xb_private := Some i, xb_handy := pos\<rparr>) }"

definition xdrmbuf_ops :: "mbuf_zone \<Rightarrow> octets \<Rightarrow> xdrmbuf xdr_ops" where
  "xdrmbuf_ops mg junk =
     \<lparr>x_getlong = xdrmbuf_getlong junk, x_putlong = xdrmbuf_putlong mg, x_getbytes = xdrmbuf_getbytes,
      x_putbytes = xdrmbuf_putbytes mg, x_getpostn = xdrmbuf_getpos, x_setpostn = xdrmbuf_setpos,
      x_inline = xdrmbuf_inline, x_load = xdrmbuf_load, x_store = xdrmbuf_store\<rparr>"

definition xdrmbuf_create :: "mbuf_zone \<Rightarrow> octets \<Rightarrow> mbuf list \<Rightarrow> xdr_op \<Rightarrow> xdrmbuf XDR option" where
  "xdrmbuf_create mg junk m xop =
     do { assert_opt (m \<noteq> []);
          Some \<lparr>x_op = xop, x_ops = xdrmbuf_ops mg junk,
                x_priv = (if xop = XDR_ENCODE
                          then \<lparr>xb_base = m, xb_private = Some (length m - 1), xb_handy = m_len (last m)\<rparr>
                          else \<lparr>xb_base = m, xb_private = Some 0, xb_handy = 0\<rparr>)\<rparr> }"

text \<open>
  The chain \<open>madd\<close> is linked behind the current mbuf. A null pointer has length 0.
\<close>

definition xdrmbuf_append :: "xdrmbuf XDR \<Rightarrow> mbuf list \<Rightarrow> xdrmbuf XDR option" where
  "xdrmbuf_append xdrs madd =
     do { assert_opt (x_op xdrs = XDR_ENCODE);
          if mb_length madd = 0 then Some xdrs
          else case xb_private (x_priv xdrs) of
            None \<Rightarrow> None
          | Some i \<Rightarrow>
              do { let ms = take (Suc i) (xb_base (x_priv xdrs)) @ madd;
                   Some (xdrs\<lparr>x_priv := \<lparr>xb_base = ms, xb_private = Some (length ms - 1), xb_handy = m_len (last madd)\<rparr>\<rparr>) } }"

text \<open>Takes the rest of the message off the stream: the chain from the current mbuf on, without what has been read.\<close>

definition xdrmbuf_getall :: "mbuf_zone \<Rightarrow> xdrmbuf XDR \<Rightarrow> (mbuf list \<times> xdrmbuf XDR) option" where
  "xdrmbuf_getall mg xdrs =
     do { assert_opt (x_op xdrs = XDR_DECODE);
          let s = x_priv xdrs;
          case xb_private s of
            Some i \<Rightarrow>
              if i < length (xb_base s)
              then Some (m_adj (xb_handy s) (drop i (xb_base s)),
                         xdrs\<lparr>x_priv := s\<lparr>xb_base := take i (xb_base s), xb_private := None\<rparr>\<rparr>)
              else None
          | None \<Rightarrow> Some ([MGET mg (length (xb_base s)) False], xdrs) }"

definition xdrmbuf_destroy :: "xdrmbuf XDR \<Rightarrow> xdrmbuf XDR" where
  "xdrmbuf_destroy xdrs =
     (if x_op xdrs = XDR_DECODE \<and> xb_base (x_priv xdrs) \<noteq> []
      then xdrs\<lparr>x_priv := (x_priv xdrs)\<lparr>xb_base := [], xb_private := None\<rparr>\<rparr> else xdrs)"

section \<open>The data of a chain\<close>

definition m_wf :: "mbuf \<Rightarrow> bool" where
  "m_wf m \<longleftrightarrow> m_len m \<le> length (m_store m)"

definition mdata :: "mbuf \<Rightarrow> octets" where
  "mdata m = take (m_len m) (m_store m)"

definition mchain :: "mbuf list \<Rightarrow> octets" where
  "mchain ms = concat (map mdata ms)"

lemma mchain_simps [simp]: "mchain [] = []" "mchain (m # ms) = mdata m @ mchain ms" "mchain (ms @ ms') = mchain ms @ mchain ms'"
  by (simp_all add: mchain_def)

lemma length_mdata [simp]: "m_wf m \<Longrightarrow> length (mdata m) = m_len m"
  by (simp add: mdata_def m_wf_def)

lemma length_mchain: "\<forall>m\<in>set ms. m_wf m \<Longrightarrow> length (mchain ms) = mb_length ms"
  by (induction ms) (simp_all add: mb_length_def)

lemma m_wf_MGET [simp]: "m_wf (MGET mg n ext)" "mdata (MGET mg n ext) = []" "m_len (MGET mg n ext) = 0"
  by (simp_all add: MGET_def m_wf_def mdata_def)

section \<open>Reading from a chain keeps the reader's interface\<close>

text \<open>\<open>at_in ms p h\<close>: the place is in the chain; \<open>mrest\<close> is the data from there on.\<close>

definition at_in :: "mbuf list \<Rightarrow> nat option \<Rightarrow> nat \<Rightarrow> bool" where
  "at_in ms p h \<longleftrightarrow> (case p of None \<Rightarrow> True | Some i \<Rightarrow> i < length ms \<and> h \<le> m_len (ms ! i))"

definition mrest :: "mbuf list \<Rightarrow> nat option \<Rightarrow> nat \<Rightarrow> octets" where
  "mrest ms p h = (case p of None \<Rightarrow> [] | Some i \<Rightarrow> drop h (mdata (ms ! i)) @ mchain (drop (Suc i) ms))"

definition xr_ok :: "octets \<Rightarrow> xdrmbuf \<Rightarrow> bool" where
  "xr_ok junk s \<longleftrightarrow> length junk = 4 \<and> (\<forall>m\<in>set (xb_base s). m_wf m) \<and> mb_length (xb_base s) < 2 ^ 32 \<and>
     at_in (xb_base s) (xb_private s) (xb_handy s)"

definition xr_inp :: "xdrmbuf \<Rightarrow> octets" where
  "xr_inp s = mrest (xb_base s) (xb_private s) (xb_handy s)"

lemma rest_next:
  "i < length ms \<Longrightarrow> m_wf (ms ! i) \<Longrightarrow>
   mrest ms (Some i) (m_len (ms ! i)) = mrest ms (if Suc i < length ms then Some (Suc i) else None) 0"
  by (auto simp: mrest_def not_less simp flip: Cons_nth_drop_Suc)

lemma rest_advance:
  assumes "i < length ms" "m_wf (ms ! i)" "h + n \<le> m_len (ms ! i)"
  shows "mrest ms (Some i) (h + n) = drop n (mrest ms (Some i) h)"
    and "take n (mrest ms (Some i) h) = take n (drop h (m_store (ms ! i)))"
proof -
  have n: "n \<le> length (drop h (mdata (ms ! i)))" using assms(2,3) by simp
  show "mrest ms (Some i) (h + n) = drop n (mrest ms (Some i) h)"
    using n by (simp add: mrest_def add.commute)
  have "take n (drop h (mdata (ms ! i))) = take n (drop h (m_store (ms ! i)))"
    using assms(3) by (simp add: mdata_def drop_take min_def)
  then show "take n (mrest ms (Some i) h) = take n (drop h (m_store (ms ! i)))" using n by (simp add: mrest_def)
qed

lemma mbuf_get_rest:
  assumes wf: "\<forall>m\<in>set ms. m_wf m" and "at_in ms p h" "mrest ms p h = bs @ r"
  shows "\<exists>p' h'. mbuf_get ms (length bs) p h = Some (True, bs, p', h') \<and> at_in ms p' h' \<and> mrest ms p' h' = r"
  using assms(2,3)
proof (induction "length bs + (case p of None \<Rightarrow> 0 | Some i \<Rightarrow> length ms - i)" arbitrary: bs p h rule: less_induct)
  case less
  show ?case
  proof (cases "bs = []")
    case True
    with less.prems show ?thesis by (simp add: mbuf_get.simps [of ms 0])
  next
    case False
    then obtain i where p: "p = Some i" using less.prems(2) by (cases p) (auto simp: mrest_def)
    let ?m = "ms ! i"
    have i: "i < length ms" "h \<le> m_len ?m" and m: "m_wf ?m"
      using less.prems(1) wf by (auto simp: at_in_def p)
    define sz where "sz = min (m_len ?m - h) (length bs)"
    have sz: "sz \<le> length bs" "h + sz \<le> m_len ?m" using i(2) by (auto simp: sz_def)
    note adv = rest_advance [OF i(1) m sz(2)]
    have "take sz bs = take sz (drop h (m_store ?m))" using adv(2) less.prems(2) sz(1) by (simp add: p)
    then have rd: "area_read h sz (m_store ?m) = Some (take sz bs)"
      using sz(2) m by (simp add: area_read_take m_wf_def)
    let ?next = "if h + sz = m_len ?m then (if Suc i < length ms then Some (Suc i) else None, 0) else (Some i, h + sz)"
    have "mrest ms (fst ?next) (snd ?next) = mrest ms (Some i) (h + sz)" using rest_next [OF i(1) m] by simp
    also have "\<dots> = drop sz bs @ r" using adv(1) less.prems(2) sz(1) by (simp add: p)
    finally have mrest: "mrest ms (fst ?next) (snd ?next) = drop sz bs @ r" .
    have at: "at_in ms (fst ?next) (snd ?next)" using i(1) sz(2) by (simp add: at_in_def)
    have "h + sz \<noteq> m_len ?m \<Longrightarrow> sz = length bs" using i(2) by (auto simp: sz_def)
    moreover obtain k where "length bs = Suc k" using False by (cases bs) simp_all
    ultimately have "length (drop sz bs) + (case fst ?next of None \<Rightarrow> 0 | Some i \<Rightarrow> length ms - i) <
        length bs + (case p of None \<Rightarrow> 0 | Some i \<Rightarrow> length ms - i)" using i(1) False sz(1) by (auto simp: p)
    from less.hyps [OF this at mrest] obtain p' h' where
      IH: "mbuf_get ms (length (drop sz bs)) (fst ?next) (snd ?next) = Some (True, drop sz bs, p', h')" "at_in ms p' h'" "mrest ms p' h' = r"
      by blast
    have "mbuf_get ms (length bs) p h = Some (True, take sz bs @ drop sz bs, p', h')"
      using IH(1) rd False i by (subst mbuf_get.simps) (simp add: p Let_def flip: sz_def split: if_splits)
    then show ?thesis using IH(2,3) by simp
  qed
qed

lemma xr_getbytes:
  assumes "xr_ok junk s" "xr_inp s = bs @ r"
  shows "\<exists>t. xdrmbuf_getbytes (length bs) s = Some (True, bs, t) \<and> xr_ok junk t \<and> xr_inp t = r"
  using mbuf_get_rest [of "xb_base s" "xb_private s" "xb_handy s" bs r] assms
  by (auto simp: xr_ok_def xr_inp_def xdrmbuf_getbytes_def)

lemma xr_inline:
  assumes "xr_ok junk s" "xr_inp s = bs @ r" "length bs = unat len" "len \<noteq> 0"
  shows "xdrmbuf_inline XDR_DECODE len s = Some (None, s) \<or>
    (\<exists>q t. xdrmbuf_inline XDR_DECODE len s = Some (Some q, t) \<and> xr_ok junk t \<and> xr_inp t = r \<and>
      (\<forall>i n. i + n \<le> length bs \<longrightarrow> xdrmbuf_load (iptr_add q i) n t = Some (take n (drop i bs))))"
proof -
  have "bs \<noteq> []" using assms(3,4) by (auto simp: unat_eq_0)
  then obtain i where p: "xb_private s = Some i" using assms(2) by (cases "xb_private s") (auto simp: xr_inp_def mrest_def)
  let ?m = "xb_base s ! i" and ?h = "xb_handy s"
  have i: "i < length (xb_base s)" "?h \<le> m_len ?m" and m: "m_wf ?m"
    using assms(1) by (auto simp: xr_ok_def at_in_def p)
  show ?thesis
  proof (cases "unat len \<le> m_len ?m - ?h \<and> (m_addr ?m + of_nat ?h) AND 3 = 0")
    case False
    then show ?thesis using i by (auto simp: xdrmbuf_inline_def p Let_def)
  next
    case True
    let ?t = "s\<lparr>xb_handy := ?h + length bs\<rparr>"
    have le: "?h + length bs \<le> m_len ?m" using conjunct1 [OF True] i(2) assms(3) by linarith
    note adv = rest_advance [OF i(1) m le]
    have "xdrmbuf_inline XDR_DECODE len s = Some (Some (i, ?h), ?t)"
      using True i le assms(3) by (simp add: xdrmbuf_inline_def p Let_def)
    moreover have "xr_inp ?t = r" using adv(1) assms(2) by (simp add: xr_inp_def p)
    moreover have "xr_ok junk ?t" using assms(1) le i(1) by (simp add: xr_ok_def at_in_def p)
    moreover have "xdrmbuf_load (iptr_add (i, ?h) j) n ?t = Some (take n (drop j bs))" if jn: "j + n \<le> length bs" for j n
    proof -
      have "bs = take (length bs) (drop ?h (m_store ?m))" using adv(2) assms(2) by (simp add: xr_inp_def p)
      then have "take n (drop j bs) = take n (drop j (take (length bs) (drop ?h (m_store ?m))))" by simp
      also have "\<dots> = take n (drop (?h + j) (m_store ?m))" using jn by (simp add: take_drop drop_drop add.commute min_def)
      finally show ?thesis using jn le m i(1) by (simp add: xdrmbuf_load_def iptr_add_def area_read_take m_wf_def)
    qed
    ultimately show ?thesis by blast
  qed
qed

lemma xr_getlong:
  assumes "xr_ok junk s" "xr_inp s = xdr_unit l @ r"
  shows "\<exists>t. xdrmbuf_getlong junk XDR_DECODE s = Some (Some l, t) \<and> xr_ok junk t \<and> xr_inp t = r"
proof -
  have "length (xdr_unit l) = unat (4 :: 32 word)" "(4 :: 32 word) \<noteq> 0" by simp_all
  from xr_inline [OF assms this] show ?thesis
  proof (elim disjE exE conjE)
    assume n: "xdrmbuf_inline XDR_DECODE 4 s = Some (None, s)"
    obtain t where t: "xdrmbuf_getbytes 4 s = Some (True, xdr_unit l, t)" "xr_ok junk t" "xr_inp t = r"
      using xr_getbytes [OF assms] by auto
    have "length junk = 4" using assms(1) by (simp add: xr_ok_def)
    then show ?thesis using n t by (simp add: xdrmbuf_getlong_def blk_write_def)
  next
    fix q t assume q: "xdrmbuf_inline XDR_DECODE 4 s = Some (Some q, t)" "xr_ok junk t" "xr_inp t = r"
      and ld: "\<forall>i n. i + n \<le> length (xdr_unit l) \<longrightarrow> xdrmbuf_load (iptr_add q i) n t = Some (take n (drop i (xdr_unit l)))"
    from spec [OF spec [OF ld, of 0], of 4] have "xdrmbuf_load q 4 t = Some (xdr_unit l)" by (simp add: iptr_add_def)
    then show ?thesis using q by (simp add: xdrmbuf_getlong_def)
  qed
qed

text \<open>A place by its distance from the start of the chain.\<close>

lemma rest_pos:
  assumes "\<forall>m\<in>set ms. m_wf m" "i < length ms" "h \<le> m_len (ms ! i)"
  shows "mrest ms (Some i) h = drop (mb_length (take i ms) + h) (mchain ms)"
proof -
  have "ms = take i ms @ ms ! i # drop (Suc i) ms" using assms(2) by (simp add: id_take_nth_drop)
  then have "mchain ms = mchain (take i ms) @ mdata (ms ! i) @ mchain (drop (Suc i) ms)" by (metis mchain_simps(2,3))
  moreover have "length (mchain (take i ms)) = mb_length (take i ms)"
    using assms(1) by (intro length_mchain) (meson in_set_takeD)
  ultimately show ?thesis using assms by (simp add: mrest_def)
qed

lemma mbuf_seek_place:
  assumes "pos \<le> mb_length ms" "ms \<noteq> []"
  shows "\<exists>i h. mbuf_seek k pos ms = Some (k + i, h) \<and> i < length ms \<and> h \<le> m_len (ms ! i) \<and> mb_length (take i ms) + h = pos"
  using assms
proof (induction ms arbitrary: k pos)
  case (Cons m ms)
  show ?case
  proof (cases "pos > m_len m")
    case True
    then have "pos - m_len m \<le> mb_length ms" "ms \<noteq> []" using Cons.prems(1) by (auto simp: mb_length_def)
    from Cons.IH [OF this, of "Suc k"] obtain i h where
      "mbuf_seek (Suc k) (pos - m_len m) ms = Some (Suc k + i, h)" "i < length ms" "h \<le> m_len (ms ! i)"
      "mb_length (take i ms) + h = pos - m_len m" by blast
    then show ?thesis using True by (intro exI [of _ "Suc i"] exI [of _ h]) (simp add: mb_length_def)
  next
    case False
    then show ?thesis by (intro exI [of _ 0] exI [of _ pos]) (simp add: mb_length_def)
  qed
qed simp

lemma xr_seek:
  assumes "xr_ok junk s" "xr_inp s = bs @ r" "r \<noteq> []" "length bs < 2 ^ 32"
  shows "\<exists>pos t. xdrmbuf_getpos s = Some pos \<and> xdrmbuf_setpos (pos + of_nat (length bs)) s = Some (True, t) \<and>
    xr_ok junk t \<and> xr_inp t = r"
proof -
  obtain i where p: "xb_private s = Some i" using assms(2,3) by (cases "xb_private s") (auto simp: xr_inp_def mrest_def)
  let ?ms = "xb_base s" and ?h = "xb_handy s"
  have i: "i < length ?ms" "?h \<le> m_len (?ms ! i)" and wf: "\<forall>m\<in>set ?ms. m_wf m" and small: "mb_length ?ms < 2 ^ 32"
    using assms(1) by (auto simp: xr_ok_def at_in_def p)
  let ?pos = "mb_length (take i ?ms) + ?h"
  have D: "drop ?pos (mchain ?ms) = bs @ r" using rest_pos [OF wf i] assms(2) by (simp add: xr_inp_def p)
  then have "length (mchain ?ms) - ?pos = length bs + length r" by (metis length_append length_drop)
  moreover have "0 < length r" using assms(3) by simp
  ultimately have le: "?pos + length bs \<le> mb_length ?ms" using length_mchain [OF wf] by linarith
  then have w: "unat (of_nat ?pos + of_nat (length bs) :: 32 word) = ?pos + length bs"
    using small unat_of_nat32 [of "?pos + length bs"] by simp
  have "?ms \<noteq> []" using i(1) by auto
  from mbuf_seek_place [OF le this, of 0] obtain j h where
    j: "mbuf_seek 0 (?pos + length bs) ?ms = Some (j, h)" "j < length ?ms" "h \<le> m_len (?ms ! j)" "mb_length (take j ?ms) + h = ?pos + length bs"
    by auto
  let ?t = "s\<lparr>xb_private := Some j, xb_handy := h\<rparr>"
  have "xr_inp ?t = drop (?pos + length bs) (mchain ?ms)" using rest_pos [OF wf j(2,3)] by (simp add: xr_inp_def j(4))
  also have "\<dots> = drop (length bs) (drop ?pos (mchain ?ms))" by (simp add: add.commute)
  also have "\<dots> = r" by (simp only: D) simp
  finally have "xr_inp ?t = r" .
  moreover have "xr_ok junk ?t" using assms(1) j(2,3) by (simp add: xr_ok_def at_in_def)
  moreover have "xdrmbuf_setpos (of_nat ?pos + of_nat (length bs)) s = Some (True, ?t)" unfolding xdrmbuf_setpos_def w j(1) by simp
  moreover have "xdrmbuf_getpos s = Some (of_nat ?pos)" using i(1) by (simp add: xdrmbuf_getpos_def p)
  ultimately show ?thesis by blast
qed

interpretation br: xdr_seeker "xdrmbuf_ops mg junk" "xr_ok junk" xr_inp for mg junk
  by (unfold_locales, unfold xdrmbuf_ops_def xdr_ops.simps) (fact xr_getlong xr_getbytes xr_inline xr_seek)+

section \<open>Writing to the end of a chain keeps the writer's interface\<close>

definition xw_ok :: "xdrmbuf \<Rightarrow> bool" where
  "xw_ok s \<longleftrightarrow> (\<exists>ms m. xb_base s = ms @ [m] \<and> xb_private s = Some (length ms) \<and> xb_handy s = m_len m \<and>
     (\<forall>m\<in>set (xb_base s). m_wf m))"

definition xw_wr :: "octets \<Rightarrow> xdrmbuf \<Rightarrow> xdrmbuf \<Rightarrow> bool" where
  "xw_wr bs s t \<longleftrightarrow> xw_ok t \<and> mchain (xb_base t) = mchain (xb_base s) @ bs"

definition xw_res :: "iptr \<Rightarrow> octets \<Rightarrow> xdrmbuf \<Rightarrow> xdrmbuf \<Rightarrow> bool" where
  "xw_res q bs s t \<longleftrightarrow> xw_ok t \<and>
     (\<exists>ms m off. xb_base t = ms @ [m] \<and> q = (length ms, off) \<and> mchain (xb_base s) = mchain ms @ take off (m_store m) \<and>
        off + length bs = m_len m \<and> drop off (mdata m) = bs)"

lemma xw_okE:
  assumes "xw_ok s"
  obtains ms m where "s = \<lparr>xb_base = ms @ [m], xb_private = Some (length ms), xb_handy = m_len m\<rparr>" "m_wf m" "\<forall>m\<in>set ms. m_wf m"
  using assms by (cases s) (auto simp: xw_ok_def)

lemma mdata_split: "off \<le> m_len m \<Longrightarrow> mdata m = take off (m_store m) @ drop off (mdata m)"
  by (metis append_take_drop_id mdata_def min.absorb1 take_take)

lemma xw_res_wr: "xw_res q bs s t \<Longrightarrow> xw_wr bs s t"
proof -
  assume "xw_res q bs s t"
  then obtain ms m off where t: "xw_ok t" "xb_base t = ms @ [m]" "mchain (xb_base s) = mchain ms @ take off (m_store m)"
    "off + length bs = m_len m" "drop off (mdata m) = bs" by (auto simp: xw_res_def)
  then show ?thesis using mdata_split [of off m] by (simp add: xw_wr_def)
qed

text \<open>Writing at the end of the last mbuf: the room there is used up, then a new mbuf is linked.\<close>

lemma mbuf_put_append:
  assumes "\<forall>m\<in>set (ms @ [m]). m_wf m"
  shows "\<exists>ms' m'. mbuf_put mg bs (ms @ [m]) (length ms) (m_len m) = Some (ms' @ [m'], length ms', m_len m') \<and>
    (\<forall>m\<in>set (ms' @ [m']). m_wf m) \<and> mchain (ms' @ [m']) = mchain (ms @ [m]) @ bs"
  using assms
proof (induction "length bs + put_full (ms @ [m]) (length ms) (m_len m)" arbitrary: bs ms m rule: less_induct)
  case less
  show ?case
  proof (cases "bs = []")
    case True
    then show ?thesis using less.prems by (intro exI [of _ ms] exI [of _ m]) (simp add: mbuf_put.simps)
  next
    case False
    have wf: "m_wf m" using less.prems by simp
    define room where "room = length (m_store m) - m_len m"
    define sz where "sz = min room (length bs)"
    define m1 where "m1 = m\<lparr>m_store := xm_put (m_len m) (take sz bs) (m_store m), m_len := m_len m + sz\<rparr>"
    have sz: "sz \<le> length bs" "m_len m + sz \<le> length (m_store m)" using wf by (auto simp: sz_def room_def m_wf_def)
    have m1: "m_wf m1" "mdata m1 = mdata m @ take sz bs" and tr: "M_TRAILINGSPACE m1 = room - sz"
      using sz by (simp_all add: m1_def m_wf_def mdata_def xm_put_def M_TRAILINGSPACE_def room_def min_absorb2)
    have cur: "(m_len m + sz = (if 0 < sz then m_len m + sz else m_len m)) = True" by simp
    have m1': "m\<lparr>m_store := xm_put (m_len m) (take sz bs) (m_store m), m_len := (if 0 < sz then m_len m + sz else m_len m)\<rparr> = m1"
      by (simp add: m1_def)
    have room: "M_TRAILINGSPACE m = room" and len1: "m_len m1 = m_len m + sz"
      by (simp_all add: room_def M_TRAILINGSPACE_def m1_def)
    have "area_write (m_len m) (take sz bs) (m_store m) = Some (xm_put (m_len m) (take sz bs) (m_store m))"
      using sz by (simp add: area_write_put)
    then have run: "mbuf_put mg bs (ms @ [m]) (length ms) (m_len m) =
        (if room \<le> sz then mbuf_put mg (drop sz bs) (ms @ [m1, MGET mg (Suc (length ms)) (m_ext m1)]) (Suc (length ms)) 0
         else mbuf_put mg (drop sz bs) (ms @ [m1]) (length ms) (m_len m1))"
      using False m1'
      by (cases "room \<le> sz"; subst mbuf_put.simps) (simp_all add: Let_def tr len1 room cur split del: if_split flip: sz_def)
    show ?thesis
    proof (cases "room \<le> sz")
      case True
      let ?n = "MGET mg (Suc (length ms)) (m_ext m1)"
      have "put_full ((ms @ [m1]) @ [?n]) (length (ms @ [m1])) (m_len ?n) = 0" using put_full_fresh [of "ms @ [m1]"] by simp
      moreover have "sz = 0 \<Longrightarrow> put_full (ms @ [m]) (length ms) (m_len m) = 1" using True by (simp add: put_full_def room_def)
      moreover obtain k where "length bs = Suc k" using False by (cases bs) simp_all
      ultimately have "length (drop sz bs) + put_full ((ms @ [m1]) @ [?n]) (length (ms @ [m1])) (m_len ?n) <
          length bs + put_full (ms @ [m]) (length ms) (m_len m)" by (cases "sz = 0") auto
      from less.hyps [OF this] m1 less.prems show ?thesis unfolding run using True by auto
    next
      case part: False
      then have "drop sz bs = []" by (simp add: sz_def)
      then show ?thesis unfolding run using part m1 less.prems
        by (intro exI [of _ ms] exI [of _ m1]) (simp add: mbuf_put.simps)
    qed
  qed
qed

lemma xw_putbytes:
  assumes "xw_ok s"
  shows "\<exists>t. xdrmbuf_putbytes mg bs s = Some (True, t) \<and> xw_wr bs s t"
proof -
  obtain ms m where s: "s = \<lparr>xb_base = ms @ [m], xb_private = Some (length ms), xb_handy = m_len m\<rparr>" "m_wf m" "\<forall>m\<in>set ms. m_wf m"
    using assms by (rule xw_okE)
  then have "\<forall>m\<in>set (ms @ [m]). m_wf m" by simp
  from mbuf_put_append [OF this, of mg bs] s show ?thesis
    by (auto simp: xdrmbuf_putbytes_def xw_wr_def xw_ok_def)
qed

lemma xw_inline:
  assumes "xw_ok s" "len \<noteq> 0"
  shows "xdrmbuf_inline XDR_ENCODE len s = Some (None, s) \<or>
    (\<exists>q bs t. xdrmbuf_inline XDR_ENCODE len s = Some (Some q, t) \<and> length bs = unat len \<and> xw_res q bs s t)"
proof -
  obtain ms m where s: "s = \<lparr>xb_base = ms @ [m], xb_private = Some (length ms), xb_handy = m_len m\<rparr>" "m_wf m" "\<forall>m\<in>set ms. m_wf m"
    using assms(1) by (rule xw_okE)
  show ?thesis
  proof (cases "unat len \<le> M_TRAILINGSPACE m \<and> (m_addr m + of_nat (m_len m)) AND 3 = 0")
    case False
    then show ?thesis by (auto simp: xdrmbuf_inline_def s Let_def)
  next
    case True
    let ?m = "m\<lparr>m_len := m_len m + unat len\<rparr>"
    let ?t = "s\<lparr>xb_handy := m_len ?m, xb_base := ms @ [?m]\<rparr>"
    let ?bs = "drop (m_len m) (mdata ?m)"
    have "0 < unat len" using assms(2) by (simp add: unat_gt_0)
    then have run: "xdrmbuf_inline XDR_ENCODE len s = Some (Some (length ms, m_len m), ?t)"
      using True by (simp add: xdrmbuf_inline_def s Let_def)
    have room: "m_len m + unat len \<le> length (m_store m)" using True s(2) by (auto simp: M_TRAILINGSPACE_def m_wf_def)
    then have wf: "m_wf ?m" and len: "length ?bs = unat len" by (simp_all add: m_wf_def mdata_def)
    have "xw_ok ?t" using wf s by (simp add: xw_ok_def)
    moreover have "mchain (xb_base s) = mchain ms @ take (m_len m) (m_store ?m)" by (simp add: s mdata_def)
    ultimately have "xw_res (length ms, m_len m) ?bs s ?t" using len unfolding xw_res_def by simp
    then show ?thesis using run len by blast
  qed
qed

lemma xw_res_store:
  assumes "xw_res q bs s t" "i + length cs \<le> length bs"
  shows "\<exists>u. xdrmbuf_store (iptr_add q i) cs t = Some u \<and> xw_res q (take i bs @ cs @ drop (i + length cs) bs) s u"
proof -
  let ?bs = "take i bs @ cs @ drop (i + length cs) bs"
  obtain ms m off where ok: "xw_ok t" and t: "xb_base t = ms @ [m]" "q = (length ms, off)"
    "mchain (xb_base s) = mchain ms @ take off (m_store m)" "off + length bs = m_len m" "drop off (mdata m) = bs"
    using assms(1) by (auto simp: xw_res_def)
  have wf: "m_wf m" using ok t(1) by (auto simp: xw_ok_def)
  have len: "length ?bs = length bs" using assms(2) by simp
  let ?st = "xm_put (off + i) cs (m_store m)"
  let ?m = "m\<lparr>m_store := ?st\<rparr>" and ?u = "t\<lparr>xb_base := ms @ [m\<lparr>m_store := xm_put (off + i) cs (m_store m)\<rparr>]\<rparr>"
  have le: "off + i + length cs \<le> length (m_store m)" using wf t(4) assms(2) by (simp add: m_wf_def)
  have run: "xdrmbuf_store (iptr_add q i) cs t = Some ?u"
    using le by (simp add: xdrmbuf_store_def iptr_add_def t(1,2) area_write_put)
  have ok': "xw_ok ?u" using ok t(1) wf le by (auto simp: xw_ok_def m_wf_def)
  have pre: "take off ?st = take off (m_store m)" using le by (simp add: xm_put_def)
  have "m_store m = take off (m_store m) @ bs @ drop (m_len m) (m_store m)"
    using t(4,5) by (metis append_assoc append_take_drop_id le_add1 mdata_def mdata_split)
  then have "?st = xm_put (off + i) cs (xm_put off bs (m_store m))" using t(4) by (simp add: xm_put_def)
  also have "\<dots> = xm_put off ?bs (m_store m)" using xm_put_put [of off bs "m_store m" i cs] wf t(4) assms(2) by (simp add: m_wf_def)
  finally have "drop off (mdata ?m) = ?bs"
    using t(4) wf assms(2) by (simp add: mdata_def xm_put_def m_wf_def len drop_take)
  then have "xw_res q ?bs s ?u" using ok' t(2,3,4) pre len unfolding xw_res_def by auto
  then show ?thesis using run by blast
qed

lemma xw_putlong:
  assumes "xw_ok s"
  shows "\<exists>t. xdrmbuf_putlong mg XDR_ENCODE l s = Some (True, t) \<and> xw_wr (xdr_unit l) s t"
proof -
  have "(4 :: 32 word) \<noteq> 0" by simp
  from xw_inline [OF assms this] show ?thesis
  proof (elim disjE exE conjE)
    assume "xdrmbuf_inline XDR_ENCODE 4 s = Some (None, s)"
    then show ?thesis using xw_putbytes [OF assms, of mg "xdr_unit l"] by (simp add: xdrmbuf_putlong_def flip: xdr_unit_def)
  next
    fix q bs t assume i: "xdrmbuf_inline XDR_ENCODE 4 s = Some (Some q, t)" "length bs = unat (4 :: 32 word)" "xw_res q bs s t"
    have "0 + length (xdr_unit l) \<le> length bs" using i(2) by simp
    from xw_res_store [OF i(3) this] obtain u where
      u: "xdrmbuf_store (iptr_add q 0) (xdr_unit l) t = Some u" "xw_res q (take 0 bs @ xdr_unit l @ drop (0 + length (xdr_unit l)) bs) s u"
      by blast
    have "xw_res q (xdr_unit l) s u" using u(2) i(2) by simp
    then have "xw_wr (xdr_unit l) s u" by (rule xw_res_wr)
    then show ?thesis using i(1) u(1) by (simp add: xdrmbuf_putlong_def iptr_add_def flip: xdr_unit_def)
  qed
qed

interpretation bw: xdr_writer "xdrmbuf_ops mg junk" xw_ok "\<lambda>_ _. True" xw_wr xw_res for mg junk
proof (unfold_locales, unfold xdrmbuf_ops_def xdr_ops.simps, goal_cases)
  case (1 s l)
  show ?case using 1(1) by (rule xw_putlong)
next
  case (2 s bs)
  show ?case using 2(1) by (rule xw_putbytes)
next
  case (3 s len)
  show ?case using 3(1,3) by (rule xw_inline)
next
  case (4 q bs s t i cs)
  then show ?case by (rule xw_res_store)
next
  case (5 q bs s t)
  then show ?case by (rule xw_res_wr)
qed (simp_all add: xw_wr_def)

end
