(* ===== verification/RpcMsg.thy ===== *)
theory RpcMsg
  imports XdrMbuf
begin

text \<open>
  The messages of the remote procedure call protocol: \<^verbatim>\<open>src/sys/rpc/rpc_prot.c\<close> and \<^verbatim>\<open>src/sys/rpc/rpc_callmsg.c\<close>, the
  structures of \<^verbatim>\<open>src/sys/rpc/rpc_msg.h\<close> and \<^verbatim>\<open>src/sys/rpc/auth.h\<close>.

  The members of a union are separate fields: the code reads only the member its discriminant selects. Enumerations
  are their 32-bit values, as they travel. \<open>ar_proc\<close> is \<open>None\<close> for \<^verbatim>\<open>xdr_void\<close>.
\<close>

abbreviation (input) CALL :: "32 word" where "CALL \<equiv> 0"
abbreviation (input) REPLY :: "32 word" where "REPLY \<equiv> 1"
abbreviation (input) MSG_ACCEPTED :: "32 word" where "MSG_ACCEPTED \<equiv> 0"
abbreviation (input) MSG_DENIED :: "32 word" where "MSG_DENIED \<equiv> 1"
abbreviation (input) SUCCESS :: "32 word" where "SUCCESS \<equiv> 0"
abbreviation (input) PROG_UNAVAIL :: "32 word" where "PROG_UNAVAIL \<equiv> 1"
abbreviation (input) PROG_MISMATCH :: "32 word" where "PROG_MISMATCH \<equiv> 2"
abbreviation (input) PROC_UNAVAIL :: "32 word" where "PROC_UNAVAIL \<equiv> 3"
abbreviation (input) GARBAGE_ARGS :: "32 word" where "GARBAGE_ARGS \<equiv> 4"
abbreviation (input) SYSTEM_ERR :: "32 word" where "SYSTEM_ERR \<equiv> 5"
abbreviation (input) RPC_MISMATCH :: "32 word" where "RPC_MISMATCH \<equiv> 0"
abbreviation (input) AUTH_ERROR :: "32 word" where "AUTH_ERROR \<equiv> 1"
abbreviation (input) RPC_MSG_VERSION :: "32 word" where "RPC_MSG_VERSION \<equiv> 2"
abbreviation (input) MAX_AUTH_BYTES :: "32 word" where "MAX_AUTH_BYTES \<equiv> 400"

record opaque_auth =
  oa_flavor :: "32 word"
  oa_base :: "octets option"
  oa_length :: "32 word"

record call_body =
  cb_rpcvers :: "32 word"
  cb_prog :: "32 word"
  cb_vers :: "32 word"
  cb_proc :: "32 word"
  cb_cred :: opaque_auth
  cb_verf :: opaque_auth

record ('s, 'r) accepted_reply =
  ar_verf :: opaque_auth
  ar_stat :: "32 word"
  ar_low :: "32 word"
  ar_high :: "32 word"
  ar_where :: 'r
  ar_proc :: "('s, 'r) xdrproc option"

record rejected_reply =
  rj_stat :: "32 word"
  rj_low :: "32 word"
  rj_high :: "32 word"
  rj_why :: "32 word"

record ('s, 'r) reply_body =
  rp_stat :: "32 word"
  rp_acpt :: "('s, 'r) accepted_reply"
  rp_rjct :: rejected_reply

record ('s, 'r) rpc_msg =
  rm_xid :: "32 word"
  rm_direction :: "32 word"
  rm_call :: call_body
  rm_reply :: "('s, 'r) reply_body"

section \<open>Sequences of routines\<close>

text \<open>
  \<open>xfield\<close> runs a routine on a field of a structure; \<open>xall\<close> is the chain of \<^verbatim>\<open>&&\<close> (or of \<^verbatim>\<open>if (!...) return (FALSE)\<close>) over
  routines and tests of the structure.
\<close>

definition xfield :: "('s, 'f) xdrproc \<Rightarrow> ('a \<Rightarrow> 'f) \<Rightarrow> (('f \<Rightarrow> 'f) \<Rightarrow> 'a \<Rightarrow> 'a) \<Rightarrow> ('s, 'a) xdrproc" where
  "xfield proc fld upd xdrs a = do { (b, v, xdrs) \<leftarrow> proc xdrs (fld a); Some (b, upd (\<lambda>_. v) a, xdrs) }"

definition xtest :: "('a \<Rightarrow> bool) \<Rightarrow> ('s, 'a) xdrproc" where
  "xtest P xdrs a = Some (P a, a, xdrs)"

fun xall :: "('s, 'a) xdrproc list \<Rightarrow> ('s, 'a) xdrproc" where
  "xall [] xdrs a = Some (True, a, xdrs)"
| "xall (p # ps) xdrs a = do { (b, a, xdrs) \<leftarrow> p xdrs a; if b then xall ps xdrs a else Some (False, a, xdrs) }"

section \<open>Replies\<close>

definition xdr_auth_bytes :: "('s, opaque_auth) xdrproc" where
  "xdr_auth_bytes = xfield (xdr_bytes MAX_AUTH_BYTES) (\<lambda>ap. (oa_base ap, oa_length ap))
     (\<lambda>f ap. ap\<lparr>oa_base := fst (f (oa_base ap, oa_length ap)), oa_length := snd (f (oa_base ap, oa_length ap))\<rparr>)"

definition xdr_opaque_auth :: "('s, opaque_auth) xdrproc" where
  "xdr_opaque_auth = xall [xfield xdr_enum oa_flavor oa_flavor_update, xdr_auth_bytes]"

definition accepted_body :: "('s, ('s, 'r) accepted_reply) xdrproc" where
  "accepted_body xdrs ar =
     (if ar_stat ar = SUCCESS then
        (case ar_proc ar of
           Some p \<Rightarrow> xfield p ar_where ar_where_update xdrs ar
         | None \<Rightarrow> Some (True, ar, xdrs))
      else if ar_stat ar = PROG_MISMATCH then
        xall [xfield xdr_uint32_t ar_low ar_low_update, xfield xdr_uint32_t ar_high ar_high_update] xdrs ar
      else Some (True, ar, xdrs))"

definition xdr_accepted_reply :: "('s, ('s, 'r) accepted_reply) xdrproc" where
  "xdr_accepted_reply = xall
     [xfield xdr_opaque_auth ar_verf ar_verf_update, xfield xdr_enum ar_stat ar_stat_update, accepted_body]"

text \<open>An unknown reason for the rejection runs into \<^verbatim>\<open>assert(0)\<close>.\<close>

definition rejected_body :: "('s, rejected_reply) xdrproc" where
  "rejected_body xdrs rr =
     (if rj_stat rr = RPC_MISMATCH then
        xall [xfield xdr_uint32_t rj_low rj_low_update, xfield xdr_uint32_t rj_high rj_high_update] xdrs rr
      else if rj_stat rr = AUTH_ERROR then xfield xdr_enum rj_why rj_why_update xdrs rr
      else None)"

definition xdr_rejected_reply :: "('s, rejected_reply) xdrproc" where
  "xdr_rejected_reply = xall [xfield xdr_enum rj_stat rj_stat_update, rejected_body]"

definition reply_dscrm :: "(32 word \<times> ('s, ('s, 'r) reply_body) xdrproc) list" where
  "reply_dscrm =
     [(MSG_ACCEPTED, xfield xdr_accepted_reply rp_acpt rp_acpt_update),
      (MSG_DENIED, xfield xdr_rejected_reply rp_rjct rp_rjct_update)]"

text \<open>The discriminant of the union is a field of the structure that holds it.\<close>

definition xdr_reply_union :: "('s, ('s, 'r) reply_body) xdrproc" where
  "xdr_reply_union = xfield (xdr_union reply_dscrm None) (\<lambda>rp. (rp_stat rp, rp))
     (\<lambda>f rp. (snd (f (rp_stat rp, rp)))\<lparr>rp_stat := fst (f (rp_stat rp, rp))\<rparr>)"

definition xdr_replymsg :: "('s, ('s, 'r) rpc_msg) xdrproc" where
  "xdr_replymsg xdrs rmsg =
     do { (buf, xdrs) \<leftarrow> (if x_op xdrs = XDR_DECODE then XDR_INLINE xdrs (3 * 4) else Some (None, xdrs));
          case buf of
            Some buf \<Rightarrow>
              do { (v, buf) \<leftarrow> IXDR_GET_INT32 xdrs buf;
                   let rmsg = rmsg\<lparr>rm_xid := v\<rparr>;
                   (v, buf) \<leftarrow> IXDR_GET_INT32 xdrs buf;
                   let rmsg = rmsg\<lparr>rm_direction := v\<rparr>;
                   if rm_direction rmsg \<noteq> REPLY then Some (False, rmsg, xdrs)
                   else do {
                     (v, buf) \<leftarrow> IXDR_GET_INT32 xdrs buf;
                     let rmsg = rmsg\<lparr>rm_reply := (rm_reply rmsg)\<lparr>rp_stat := v\<rparr>\<rparr>;
                     if rp_stat (rm_reply rmsg) = MSG_ACCEPTED then
                       xfield (xfield xdr_accepted_reply rp_acpt rp_acpt_update) rm_reply rm_reply_update xdrs rmsg
                     else if rp_stat (rm_reply rmsg) = MSG_DENIED then
                       xfield (xfield xdr_rejected_reply rp_rjct rp_rjct_update) rm_reply rm_reply_update xdrs rmsg
                     else Some (False, rmsg, xdrs) } }
          | None \<Rightarrow>
              xall [xfield xdr_uint32_t rm_xid rm_xid_update,
                    xfield xdr_enum rm_direction rm_direction_update,
                    xtest (\<lambda>m. rm_direction m = REPLY),
                    xfield xdr_reply_union rm_reply rm_reply_update] xdrs rmsg }"

section \<open>Calls\<close>

abbreviation (input) cb_field ::
  "('s, 'f) xdrproc \<Rightarrow> (call_body \<Rightarrow> 'f) \<Rightarrow> (('f \<Rightarrow> 'f) \<Rightarrow> call_body \<Rightarrow> call_body) \<Rightarrow> ('s, ('s, 'r) rpc_msg) xdrproc" where
  "cb_field p fld upd \<equiv> xfield (xfield p fld upd) rm_call rm_call_update"

definition xdr_callhdr :: "('s, ('s, 'r) rpc_msg) xdrproc" where
  "xdr_callhdr xdrs cmsg =
     (let cmsg = cmsg\<lparr>rm_direction := CALL, rm_call := (rm_call cmsg)\<lparr>cb_rpcvers := RPC_MSG_VERSION\<rparr>\<rparr> in
      if x_op xdrs = XDR_ENCODE then
        xall [xfield xdr_uint32_t rm_xid rm_xid_update,
              xfield xdr_enum rm_direction rm_direction_update,
              cb_field xdr_uint32_t cb_rpcvers cb_rpcvers_update,
              cb_field xdr_uint32_t cb_prog cb_prog_update,
              cb_field xdr_uint32_t cb_vers cb_vers_update] xdrs cmsg
      else Some (False, cmsg, xdrs))"

text \<open>The general path of \<^verbatim>\<open>xdr_callmsg\<close>.\<close>

definition callmsg_general :: "('s, ('s, 'r) rpc_msg) xdrproc" where
  "callmsg_general = xall
     [xfield xdr_uint32_t rm_xid rm_xid_update,
      xfield xdr_enum rm_direction rm_direction_update,
      xtest (\<lambda>m. rm_direction m = CALL),
      cb_field xdr_uint32_t cb_rpcvers cb_rpcvers_update,
      xtest (\<lambda>m. cb_rpcvers (rm_call m) = RPC_MSG_VERSION),
      cb_field xdr_uint32_t cb_prog cb_prog_update,
      cb_field xdr_uint32_t cb_vers cb_vers_update,
      cb_field xdr_uint32_t cb_proc cb_proc_update,
      cb_field xdr_opaque_auth cb_cred cb_cred_update,
      cb_field xdr_opaque_auth cb_verf cb_verf_update]"

text \<open>Encoding in place: an authenticator, then the whole message. The pointer is advanced by the rounded length.\<close>

definition put_auth_inline :: "'s XDR \<Rightarrow> iptr \<Rightarrow> opaque_auth \<Rightarrow> (iptr \<times> 's XDR) option" where
  "put_auth_inline xdrs buf oa =
     do { (buf, xdrs) \<leftarrow> IXDR_PUT_INT32 xdrs buf (oa_flavor oa);
          (buf, xdrs) \<leftarrow> IXDR_PUT_INT32 xdrs buf (oa_length oa);
          if oa_length oa \<noteq> 0 then
            do { base \<leftarrow> oa_base oa;
                 bs \<leftarrow> blk_read base (unat (oa_length oa));
                 s \<leftarrow> x_store (x_ops xdrs) buf bs (x_priv xdrs);
                 Some (iptr_add buf (unat (RNDUP (oa_length oa) div 4) * 4), xdrs\<lparr>x_priv := s\<rparr>) }
          else Some (buf, xdrs) }"

definition callmsg_put_inline :: "iptr \<Rightarrow> ('s, ('s, 'r) rpc_msg) xdrproc" where
  "callmsg_put_inline buf xdrs cmsg =
     do { (buf, xdrs) \<leftarrow> IXDR_PUT_INT32 xdrs buf (rm_xid cmsg);
          (buf, xdrs) \<leftarrow> IXDR_PUT_INT32 xdrs buf (rm_direction cmsg);
          if rm_direction cmsg \<noteq> CALL then Some (False, cmsg, xdrs)
          else do {
            (buf, xdrs) \<leftarrow> IXDR_PUT_INT32 xdrs buf (cb_rpcvers (rm_call cmsg));
            if cb_rpcvers (rm_call cmsg) \<noteq> RPC_MSG_VERSION then Some (False, cmsg, xdrs)
            else do {
              (buf, xdrs) \<leftarrow> IXDR_PUT_INT32 xdrs buf (cb_prog (rm_call cmsg));
              (buf, xdrs) \<leftarrow> IXDR_PUT_INT32 xdrs buf (cb_vers (rm_call cmsg));
              (buf, xdrs) \<leftarrow> IXDR_PUT_INT32 xdrs buf (cb_proc (rm_call cmsg));
              (buf, xdrs) \<leftarrow> put_auth_inline xdrs buf (cb_cred (rm_call cmsg));
              (buf, xdrs) \<leftarrow> put_auth_inline xdrs buf (cb_verf (rm_call cmsg));
              Some (True, cmsg, xdrs) } } }"

text \<open>Decoding in place: the bytes of an authenticator whose flavor and length have been read.\<close>

definition get_auth_inline :: "('s, opaque_auth) xdrproc" where
  "get_auth_inline xdrs oa =
     (if oa_length oa = 0 then Some (True, oa, xdrs)
      else if oa_length oa > MAX_AUTH_BYTES then Some (False, oa, xdrs)
      else do {
        let base = (case oa_base oa of None \<Rightarrow> mem_alloc (oa_length oa) | Some b \<Rightarrow> b);
        (buf, xdrs) \<leftarrow> XDR_INLINE xdrs (RNDUP (oa_length oa));
        case buf of
          None \<Rightarrow> do { (b, base, xdrs) \<leftarrow> xdr_opaque xdrs base (oa_length oa); Some (b, oa\<lparr>oa_base := Some base\<rparr>, xdrs) }
        | Some buf \<Rightarrow>
            do { bs \<leftarrow> x_load (x_ops xdrs) buf (unat (oa_length oa)) (x_priv xdrs);
                 base \<leftarrow> blk_write base bs;
                 Some (True, oa\<lparr>oa_base := Some base\<rparr>, xdrs) } })"

text \<open>The flavor and the length of the verifier, in place or not, and then its octets.\<close>

definition get_verf :: "('s, opaque_auth) xdrproc" where
  "get_verf xdrs oa =
     do { (buf, xdrs) \<leftarrow> XDR_INLINE xdrs (2 * 4);
          (b, oa, xdrs) \<leftarrow>
            (case buf of
               None \<Rightarrow> xall [xfield xdr_enum oa_flavor oa_flavor_update, xfield xdr_u_int oa_length oa_length_update] xdrs oa
             | Some buf \<Rightarrow> do { (f, buf) \<leftarrow> IXDR_GET_INT32 xdrs buf;
                                (l, buf) \<leftarrow> IXDR_GET_INT32 xdrs buf;
                                Some (True, oa\<lparr>oa_flavor := f, oa_length := l\<rparr>, xdrs) });
          if b then get_auth_inline xdrs oa else Some (False, oa, xdrs) }"

definition callmsg_get_inline :: "iptr \<Rightarrow> ('s, ('s, 'r) rpc_msg) xdrproc" where
  "callmsg_get_inline buf xdrs cmsg =
     do { (v, buf) \<leftarrow> IXDR_GET_INT32 xdrs buf;
          let cmsg = cmsg\<lparr>rm_xid := v\<rparr>;
          (v, buf) \<leftarrow> IXDR_GET_INT32 xdrs buf;
          let cmsg = cmsg\<lparr>rm_direction := v\<rparr>;
          if rm_direction cmsg \<noteq> CALL then Some (False, cmsg, xdrs)
          else do {
            (v, buf) \<leftarrow> IXDR_GET_INT32 xdrs buf;
            let cmsg = cmsg\<lparr>rm_call := (rm_call cmsg)\<lparr>cb_rpcvers := v\<rparr>\<rparr>;
            if cb_rpcvers (rm_call cmsg) \<noteq> RPC_MSG_VERSION then Some (False, cmsg, xdrs)
            else do {
              (v, buf) \<leftarrow> IXDR_GET_INT32 xdrs buf;
              let cmsg = cmsg\<lparr>rm_call := (rm_call cmsg)\<lparr>cb_prog := v\<rparr>\<rparr>;
              (v, buf) \<leftarrow> IXDR_GET_INT32 xdrs buf;
              let cmsg = cmsg\<lparr>rm_call := (rm_call cmsg)\<lparr>cb_vers := v\<rparr>\<rparr>;
              (v, buf) \<leftarrow> IXDR_GET_INT32 xdrs buf;
              let cmsg = cmsg\<lparr>rm_call := (rm_call cmsg)\<lparr>cb_proc := v\<rparr>\<rparr>;
              (f, buf) \<leftarrow> IXDR_GET_INT32 xdrs buf;
              (l, buf) \<leftarrow> IXDR_GET_INT32 xdrs buf;
              (b, oa, xdrs) \<leftarrow> get_auth_inline xdrs ((cb_cred (rm_call cmsg))\<lparr>oa_flavor := f, oa_length := l\<rparr>);
              let cmsg = cmsg\<lparr>rm_call := (rm_call cmsg)\<lparr>cb_cred := oa\<rparr>\<rparr>;
              if \<not> b then Some (False, cmsg, xdrs)
              else do {
                (b, oa, xdrs) \<leftarrow> get_verf xdrs (cb_verf (rm_call cmsg));
                Some (b, cmsg\<lparr>rm_call := (rm_call cmsg)\<lparr>cb_verf := oa\<rparr>\<rparr>, xdrs) } } } }"

definition xdr_callmsg :: "('s, ('s, 'r) rpc_msg) xdrproc" where
  "xdr_callmsg xdrs cmsg =
     (case x_op xdrs of
        XDR_ENCODE \<Rightarrow>
          let cred = cb_cred (rm_call cmsg); verf = cb_verf (rm_call cmsg) in
          if oa_length cred > MAX_AUTH_BYTES then Some (False, cmsg, xdrs)
          else if oa_length verf > MAX_AUTH_BYTES then Some (False, cmsg, xdrs)
          else do { (buf, xdrs) \<leftarrow> XDR_INLINE xdrs (8 * 4 + RNDUP (oa_length cred) + 2 * 4 + RNDUP (oa_length verf));
                    case buf of
                      Some buf \<Rightarrow> callmsg_put_inline buf xdrs cmsg
                    | None \<Rightarrow> callmsg_general xdrs cmsg }
      | XDR_DECODE \<Rightarrow>
          do { (buf, xdrs) \<leftarrow> XDR_INLINE xdrs (8 * 4);
               case buf of
                 Some buf \<Rightarrow> callmsg_get_inline buf xdrs cmsg
               | None \<Rightarrow> callmsg_general xdrs cmsg }
      | XDR_FREE \<Rightarrow> callmsg_general xdrs cmsg)"

section \<open>The status of a call\<close>

datatype clnt_stat =
    RPC_SUCCESS | RPC_CANTENCODEARGS | RPC_CANTDECODERES | RPC_CANTSEND | RPC_CANTRECV | RPC_TIMEDOUT | RPC_INTR | RPC_UDERROR
  | RPC_VERSMISMATCH | RPC_AUTHERROR | RPC_PROGUNAVAIL | RPC_PROGVERSMISMATCH | RPC_PROCUNAVAIL | RPC_CANTDECODEARGS
  | RPC_SYSTEMERROR | RPC_UNKNOWNHOST | RPC_UNKNOWNPROTO | RPC_UNKNOWNADDR | RPC_NOBROADCAST | RPC_RPCBFAILURE
  | RPC_PROGNOTREGISTERED | RPC_N2AXLATEFAILURE | RPC_TLIERROR | RPC_FAILED | RPC_INPROGRESS | RPC_STALERACHANDLE
  | RPC_CANTCONNECT | RPC_XPRTFAILED | RPC_CANTCREATESTREAM

text \<open>The members of the union behind the status are kept apart: each is read after it has been set.\<close>

record rpc_err =
  re_status :: clnt_stat
  re_errno :: nat
  re_why :: "32 word"
  re_low :: "32 word"
  re_high :: "32 word"
  re_s1 :: "32 word"
  re_s2 :: "32 word"

definition accepted :: "32 word \<Rightarrow> rpc_err \<Rightarrow> clnt_stat \<times> rpc_err" where
  "accepted acpt_stat err =
     (if acpt_stat = PROG_UNAVAIL then (RPC_PROGUNAVAIL, err\<lparr>re_status := RPC_PROGUNAVAIL\<rparr>)
      else if acpt_stat = PROG_MISMATCH then (RPC_PROGVERSMISMATCH, err\<lparr>re_status := RPC_PROGVERSMISMATCH\<rparr>)
      else if acpt_stat = PROC_UNAVAIL then (RPC_PROCUNAVAIL, err)
      else if acpt_stat = GARBAGE_ARGS then (RPC_CANTDECODEARGS, err)
      else if acpt_stat = SYSTEM_ERR then (RPC_SYSTEMERROR, err)
      else if acpt_stat = SUCCESS then (RPC_SUCCESS, err)
      else (RPC_FAILED, err\<lparr>re_s1 := MSG_ACCEPTED, re_s2 := acpt_stat\<rparr>))"

definition rejected :: "32 word \<Rightarrow> rpc_err \<Rightarrow> clnt_stat \<times> rpc_err" where
  "rejected rjct_stat err =
     (if rjct_stat = RPC_MISMATCH then (RPC_VERSMISMATCH, err)
      else if rjct_stat = AUTH_ERROR then (RPC_AUTHERROR, err)
      else (RPC_FAILED, err\<lparr>re_s1 := MSG_DENIED, re_s2 := rjct_stat\<rparr>))"

definition seterr_reply :: "('s, 'r) rpc_msg \<Rightarrow> rpc_err \<Rightarrow> clnt_stat \<times> rpc_err" where
  "seterr_reply msg err =
     (let rp = rm_reply msg in
      if rp_stat rp = MSG_ACCEPTED \<and> ar_stat (rp_acpt rp) = SUCCESS then (RPC_SUCCESS, err)
      else let (stat, err) =
          (if rp_stat rp = MSG_ACCEPTED then accepted (ar_stat (rp_acpt rp)) err
           else if rp_stat rp = MSG_DENIED then rejected (rj_stat (rp_rjct rp)) err
           else (RPC_FAILED, err\<lparr>re_s1 := rp_stat rp\<rparr>));
        err = err\<lparr>re_status := stat\<rparr>
      in (stat,
          case stat of
            RPC_VERSMISMATCH \<Rightarrow> err\<lparr>re_low := rj_low (rp_rjct rp), re_high := rj_high (rp_rjct rp)\<rparr>
          | RPC_AUTHERROR \<Rightarrow> err\<lparr>re_why := rj_why (rp_rjct rp)\<rparr>
          | RPC_PROGVERSMISMATCH \<Rightarrow> err\<lparr>re_low := ar_low (rp_acpt rp), re_high := ar_high (rp_acpt rp)\<rparr>
          | _ \<Rightarrow> err))"

end
