(* ===== verification/AuthUnix.thy ===== *)
theory AuthUnix
  imports RpcMsg Ucred
begin

text \<open>
  Unix-style authentication of remote procedure calls: the parameters of \<^verbatim>\<open>src/sys/rpc/authunix_prot.c\<close>, the
  client's authenticator of \<^verbatim>\<open>src/sys/rpc/auth_unix.c\<close>, the server's side of \<^verbatim>\<open>src/sys/rpc/svc_auth_unix.c\<close> and
  \<^verbatim>\<open>src/sys/rpc/svc_auth.c\<close>, and the request of \<^verbatim>\<open>src/sys/rpc/clnt_dg.c\<close> and its receipt in \<^verbatim>\<open>src/sys/rpc/svc_dg.c\<close>.

  Whether the thread owns \<^verbatim>\<open>hostname_mtx\<close> is part of the object of \<open>xdr_authunix_parms\<close>: locking a mutex the thread
  owns is a fault. A local variable that is read before it is set has the value \<open>g\<close>.
\<close>

abbreviation (input) AUTH_OK :: "32 word" where "AUTH_OK \<equiv> 0"
abbreviation (input) AUTH_BADCRED :: "32 word" where "AUTH_BADCRED \<equiv> 1"
abbreviation (input) AUTH_REJECTEDCRED :: "32 word" where "AUTH_REJECTEDCRED \<equiv> 2"
abbreviation (input) AUTH_NULL :: "32 word" where "AUTH_NULL \<equiv> 0"
abbreviation (input) AUTH_SYS :: "32 word" where "AUTH_SYS \<equiv> 1"
abbreviation (input) AUTH_SHORT :: "32 word" where "AUTH_SHORT \<equiv> 2"
abbreviation (input) RPCSEC_GSS :: "32 word" where "RPCSEC_GSS \<equiv> 6"
abbreviation (input) NGRPS :: "32 word" where "NGRPS \<equiv> 16"

record authunix =
  aup_mtx :: bool
  aup_time :: "32 word"
  aup_cred :: xucred

section \<open>The parameters\<close>

text \<open>The groups behind the first: those that do not fit go to \<^verbatim>\<open>junk\<close>.\<close>

fun groups_loop :: "nat \<Rightarrow> nat \<Rightarrow> ('s, gid list \<times> 32 word) xdrproc" where
  "groups_loop i 0 xdrs gj = Some (True, gj, xdrs)"
| "groups_loop i (Suc n) xdrs (gs, junk) =
     (if i + 1 < NGROUPS then
        (if i + 1 < length gs then
           do { (b, v, xdrs) \<leftarrow> xdr_uint32_t xdrs (gs ! (i + 1));
                let gs = gs[i + 1 := v];
                if b then groups_loop (i + 1) n xdrs (gs, junk) else Some (False, (gs, junk), xdrs) }
         else None)
      else
        do { (b, junk, xdrs) \<leftarrow> xdr_uint32_t xdrs junk;
             if b then groups_loop (i + 1) n xdrs (gs, junk) else Some (False, (gs, junk), xdrs) })"

definition authunix_groups :: "32 word \<Rightarrow> ('s, xucred) xdrproc" where
  "authunix_groups g xdrs cred =
     do { let ngroups = (if x_op xdrs = XDR_ENCODE
                         then let n = of_nat (xcr_ngroups cred) - 1 in if n > NGRPS then NGRPS else n
                         else g);
          (b, ngroups, xdrs) \<leftarrow> xdr_uint32_t xdrs ngroups;
          if \<not> b then Some (False, cred, xdrs)
          else do {
            (b, (gs, _), xdrs) \<leftarrow> groups_loop 0 (unat ngroups) xdrs (xcr_groups cred, 0);
            let cred = cred\<lparr>xcr_groups := gs\<rparr>;
            if \<not> b then Some (False, cred, xdrs)
            else Some (True,
              (if x_op xdrs = XDR_DECODE
               then cred\<lparr>xcr_ngroups := (if ngroups + 1 > of_nat NGROUPS then NGROUPS else unat (ngroups + 1))\<rparr>
               else cred), xdrs) } }"

definition authunix_cred :: "32 word \<Rightarrow> ('s, xucred) xdrproc" where
  "authunix_cred g = xall
     [xfield xdr_uint32_t xcr_uid xcr_uid_update,
      (\<lambda>xdrs cred. do { assert_opt (0 < length (xcr_groups cred));
         xfield xdr_uint32_t (\<lambda>cred. xcr_groups cred ! 0)
           (\<lambda>f cred. cred\<lparr>xcr_groups := (xcr_groups cred)[0 := f (xcr_groups cred ! 0)]\<rparr>) xdrs cred }),
      authunix_groups g]"

text \<open>
  The time and the host name, which is skipped on the way in; what \<^verbatim>\<open>xdr_setpos\<close> returns is not looked at.
\<close>

definition authunix_head :: "octets \<Rightarrow> ('s, 32 word) xdrproc" where
  "authunix_head hostname xdrs time =
     do { namelen \<leftarrow> (if x_op xdrs = XDR_ENCODE
                     then do { n \<leftarrow> strlen hostname; let n = of_nat n; Some (if n > 255 then 255 else n) }
                     else Some 0);
          (b, time, xdrs) \<leftarrow> xdr_uint32_t xdrs time;
          if \<not> b then Some (False, time, xdrs)
          else do {
            (b, namelen, xdrs) \<leftarrow> xdr_uint32_t xdrs namelen;
            if \<not> b then Some (False, time, xdrs)
            else if x_op xdrs = XDR_ENCODE then
              do { (b, _, xdrs) \<leftarrow> xdr_opaque xdrs hostname namelen; Some (b, time, xdrs) }
            else
              do { pos \<leftarrow> XDR_GETPOS xdrs; (_, xdrs) \<leftarrow> XDR_SETPOS xdrs (pos + RNDUP namelen); Some (True, time, xdrs) } } }"

text \<open>The mutex is taken before the first part and released behind it, but not on the returns from inside it.\<close>

definition xdr_authunix_parms :: "octets \<Rightarrow> 32 word \<Rightarrow> ('s, authunix) xdrproc" where
  "xdr_authunix_parms hostname g xdrs a =
     do { assert_opt (\<not> aup_mtx a);
          let a = a\<lparr>aup_mtx := True\<rparr>;
          (b, v, xdrs) \<leftarrow> authunix_head hostname xdrs (aup_time a);
          let a = a\<lparr>aup_time := v\<rparr>;
          if \<not> b then Some (False, a, xdrs)
          else do {
            let a = a\<lparr>aup_mtx := False\<rparr>;
            (b, cred, xdrs) \<leftarrow> authunix_cred g xdrs (aup_cred a);
            Some (b, a\<lparr>aup_cred := cred\<rparr>, xdrs) } }"

section \<open>The server\<close>

text \<open>
  The groups and the check of the length, read in place. The pointer may run behind \<^verbatim>\<open>auth_len\<close> bytes: the block
  of \<^verbatim>\<open>oa_base\<close> bounds it.
\<close>

fun groups_inline :: "nat \<Rightarrow> nat \<Rightarrow> 's XDR \<Rightarrow> iptr \<Rightarrow> gid list \<Rightarrow> (gid list \<times> iptr) option" where
  "groups_inline i 0 xdrs buf gs = Some (gs, buf)"
| "groups_inline i (Suc n) xdrs buf gs =
     (if i + 1 < NGROUPS then
        (if i + 1 < length gs then
           do { (v, buf) \<leftarrow> IXDR_GET_INT32 xdrs buf; groups_inline (i + 1) n xdrs buf (gs[i + 1 := v]) }
         else None)
      else groups_inline (i + 1) n xdrs (iptr_add buf 4) gs)"

definition svcauth_unix_inline :: "'s XDR \<Rightarrow> iptr \<Rightarrow> 32 word \<Rightarrow> xucred \<Rightarrow> (32 word \<times> xucred) option" where
  "svcauth_unix_inline xdrs buf auth_len xcr =
     do { (time, buf) \<leftarrow> IXDR_GET_INT32 xdrs buf;
          (str_len, buf) \<leftarrow> IXDR_GET_INT32 xdrs buf;
          if str_len > 255 then Some (AUTH_BADCRED, xcr)
          else do {
            let str_len = RNDUP str_len;
            let buf = iptr_add buf (unat (str_len div 4) * 4);
            (v, buf) \<leftarrow> IXDR_GET_INT32 xdrs buf;
            let xcr = xcr\<lparr>xcr_uid := v\<rparr>;
            assert_opt (0 < length (xcr_groups xcr));
            (v, buf) \<leftarrow> IXDR_GET_INT32 xdrs buf;
            let xcr = xcr\<lparr>xcr_groups := (xcr_groups xcr)[0 := v]\<rparr>;
            (gid_len, buf) \<leftarrow> IXDR_GET_INT32 xdrs buf;
            if gid_len > NGRPS then Some (AUTH_BADCRED, xcr)
            else do {
              (gs, buf) \<leftarrow> groups_inline 0 (unat gid_len) xdrs buf (xcr_groups xcr);
              let xcr = xcr\<lparr>xcr_groups := gs,
                            xcr_ngroups := (if gid_len + 1 > of_nat NGROUPS then NGROUPS else unat (gid_len + 1))\<rparr>;
              if (5 + gid_len) * 4 + str_len > auth_len then Some (AUTH_BADCRED, xcr)
              else Some (AUTH_OK, xcr) } } }"

text \<open>
  A request under examination: \<open>rq_clntcred\<close> is the area the cooked credential goes to, \<open>rq_credaddr\<close> the address of the
  buffer \<^verbatim>\<open>oa_base\<close> of the raw one. \<open>rq_mtx\<close> says whether the thread owns \<^verbatim>\<open>hostname_mtx\<close>.
\<close>

record svc_req =
  rq_xid :: "32 word"
  rq_prog :: "32 word"
  rq_vers :: "32 word"
  rq_proc :: "32 word"
  rq_args :: "mbuf list"
  rq_addr :: "octets option"
  rq_cred :: opaque_auth
  rq_verf :: opaque_auth
  rq_clntcred :: xucred
  rq_credaddr :: "32 word"
  rq_mtx :: bool

definition null_auth :: opaque_auth where
  "null_auth = \<lparr>oa_flavor = 0, oa_base = None, oa_length = 0\<rparr>"

definition svcauth_unix :: "octets \<Rightarrow> 32 word \<Rightarrow> svc_req \<Rightarrow> call_body \<Rightarrow> (32 word \<times> svc_req) option" where
  "svcauth_unix hostname g rqst call =
     do { let xcr = rq_clntcred rqst;
          let auth_len = oa_length (cb_cred call);
          let m = (case oa_base (cb_cred call) of Some m \<Rightarrow> m | None \<Rightarrow> []);
          let addr = (case oa_base (cb_cred call) of Some _ \<Rightarrow> rq_credaddr rqst | None \<Rightarrow> 0);
          (buf, xdrs) \<leftarrow> XDR_INLINE (xdrmem_create addr m auth_len XDR_DECODE) auth_len;
          (stat, rqst) \<leftarrow>
            (case buf of
               Some buf \<Rightarrow>
                 do { (stat, xcr) \<leftarrow> svcauth_unix_inline xdrs buf auth_len xcr; Some (stat, rqst\<lparr>rq_clntcred := xcr\<rparr>) }
             | None \<Rightarrow>
                 do { (b, a, xdrs) \<leftarrow> xdr_authunix_parms hostname g xdrs \<lparr>aup_mtx = rq_mtx rqst, aup_time = g, aup_cred = xcr\<rparr>;
                      Some (if b then AUTH_OK else AUTH_BADCRED, rqst\<lparr>rq_clntcred := aup_cred a, rq_mtx := aup_mtx a\<rparr>) });
          Some (stat, if stat = AUTH_OK then rqst\<lparr>rq_verf := null_auth\<rparr> else rqst) }"

text \<open>
  \<open>gss\<close> is the handler \<^verbatim>\<open>svc_auth_reg\<close> has registered for \<^verbatim>\<open>RPCSEC_GSS\<close>, if any. The operations \<^verbatim>\<open>rq_auth\<close> is set to do
  nothing for the other flavors.
\<close>

definition authenticate ::
  "octets \<Rightarrow> 32 word \<Rightarrow> (svc_req \<Rightarrow> call_body \<Rightarrow> (32 word \<times> svc_req) option) option \<Rightarrow>
   svc_req \<Rightarrow> call_body \<Rightarrow> (32 word \<times> svc_req) option" where
  "authenticate hostname g gss rqst call =
     (let rqst = rqst\<lparr>rq_cred := cb_cred call\<rparr>; cred_flavor = oa_flavor (rq_cred rqst) in
      if cred_flavor = AUTH_NULL then Some (AUTH_OK, rqst\<lparr>rq_verf := null_auth\<rparr>)
      else if cred_flavor = AUTH_SYS then svcauth_unix hostname g rqst call
      else if cred_flavor = AUTH_SHORT then Some (AUTH_REJECTEDCRED, rqst)
      else if cred_flavor = RPCSEC_GSS then (case gss of None \<Rightarrow> Some (AUTH_REJECTEDCRED, rqst) | Some f \<Rightarrow> f rqst call)
      else Some (AUTH_REJECTEDCRED, rqst))"

text \<open>
  The credential for the file system or whatever serves the request, made from the cooked one. \<open>None\<close> in place of the
  address is \<^verbatim>\<open>FALSE\<close>: no credential has been made. \<open>gssc\<close> is the other function \<^verbatim>\<open>svc_auth_reg\<close> has registered.
\<close>

definition svc_getcred ::
  "(svc_req \<Rightarrow> kern \<Rightarrow> (addr option \<times> kern) option) option \<Rightarrow> svc_req \<Rightarrow> kern \<Rightarrow> (addr option \<times> kern) option" where
  "svc_getcred gssc rqst k =
     (if oa_flavor (rq_cred rqst) = AUTH_SYS then
        do { let xcr = rq_clntcred rqst;
             let (c, k) = crget k;
             cr \<leftarrow> cred_at k c;
             assert_opt (xcr_ngroups xcr \<le> length (xcr_groups xcr) \<and> xcr_ngroups xcr \<le> length (cr_groups cr));
             let gs = take (xcr_ngroups xcr) (xcr_groups xcr) @ drop (xcr_ngroups xcr) (cr_groups cr);
             let cr = cr\<lparr>cr_uid := xcr_uid xcr, cr_ruid := xcr_uid xcr, cr_svuid := xcr_uid xcr,
                         cr_ngroups := xcr_ngroups xcr, cr_groups := gs, cr_rgid := gs ! 0, cr_svgid := gs ! 0\<rparr>;
             Some (Some c, cred_put c cr k) }
      else if oa_flavor (rq_cred rqst) = RPCSEC_GSS then (case gssc of None \<Rightarrow> Some (None, k) | Some f \<Rightarrow> f rqst k)
      else Some (None, k))"

end
