(* ===== verification/AuthClient.thy ===== *)
theory AuthClient
  imports AuthUnix
begin

text \<open>
  The client's side of Unix-style authentication: the authenticators of \<^verbatim>\<open>src/sys/rpc/auth_unix.c\<close> and their cache.

  An \<^verbatim>\<open>AUTH\<close> and its \<^verbatim>\<open>struct audata\<close> are allocated and freed together: one record. The address and the stale bytes of a
  buffer on the stack are arguments. \<^verbatim>\<open>V_hostname\<close> and \<^verbatim>\<open>hostname_mtx\<close> are arguments of the operations that use them.
\<close>

record audata =
  au_refs :: "32 word"
  au_xcred :: xucred
  au_origcred :: opaque_auth
  au_shcred :: opaque_auth
  au_shfaults :: "32 word"
  au_marshed :: octets
  au_mpos :: "32 word"
  ah_cred :: opaque_auth
  ah_verf :: opaque_auth
  ah_orig :: bool

text \<open>
  \<open>ah_orig\<close> says whether \<^verbatim>\<open>auth->ah_cred.oa_base\<close> is the pointer of \<^verbatim>\<open>au_origcred\<close>.
\<close>

section \<open>Authenticators\<close>

definition marshal_new_auth :: "32 word \<Rightarrow> audata \<Rightarrow> audata option" where
  "marshal_new_auth addr au =
     do { let xdrs = xdrmem_create addr (au_marshed au) MAX_AUTH_BYTES XDR_ENCODE;
          (b, _, xdrs) \<leftarrow> xdr_opaque_auth xdrs (ah_cred au);
          (b, xdrs) \<leftarrow> (if b then do { (b, _, xdrs) \<leftarrow> xdr_opaque_auth xdrs (ah_verf au); Some (b, xdrs) } else Some (False, xdrs));
          let au = au\<lparr>au_marshed := xm_mem (x_priv xdrs)\<rparr>;
          if b then do { pos \<leftarrow> XDR_GETPOS xdrs; Some (au\<lparr>au_mpos := pos\<rparr>) } else Some au }"

text \<open>
  The part of \<^verbatim>\<open>authunix_create\<close> that makes a new authenticator. \<open>mymem\<close> is the buffer on the stack, \<open>marshed\<close> the array in
  the new structure (cleared), \<open>time\<close> the time of day. A credential that cannot be encoded is a panic.
\<close>

definition authunix_new :: "octets \<Rightarrow> 32 word \<Rightarrow> 32 word \<Rightarrow> octets \<Rightarrow> 32 word \<Rightarrow> xucred \<Rightarrow> audata option" where
  "authunix_new hostname time stack mymem addr xcr =
     do { let xdrs = xdrmem_create stack mymem MAX_AUTH_BYTES XDR_ENCODE;
          (b, _, xdrs) \<leftarrow> xdr_authunix_parms hostname 0 xdrs \<lparr>aup_mtx = False, aup_time = time, aup_cred = xcr\<rparr>;
          assert_opt b;
          len \<leftarrow> XDR_GETPOS xdrs;
          base \<leftarrow> blk_read (xm_mem (x_priv xdrs)) (unat len);
          let origcred = \<lparr>oa_flavor = AUTH_SYS, oa_base = Some base, oa_length = len\<rparr>;
          marshal_new_auth addr
            \<lparr>au_refs = 1, au_xcred = xcr, au_origcred = origcred, au_shcred = null_auth, au_shfaults = 0,
             au_marshed = replicate (unat MAX_AUTH_BYTES) 0, au_mpos = 0, ah_cred = origcred, ah_verf = null_auth, ah_orig = True\<rparr> }"

text \<open>A verifier of flavor \<^verbatim>\<open>AUTH_SHORT\<close> brings a shorthand credential, which is used from then on.\<close>

definition authunix_validate :: "32 word \<Rightarrow> 32 word \<Rightarrow> opaque_auth option \<Rightarrow> audata \<Rightarrow> (bool \<times> audata) option" where
  "authunix_validate vaddr addr verf au =
     (case verf of
        None \<Rightarrow> Some (True, au)
      | Some verf \<Rightarrow>
          if oa_flavor verf = AUTH_SHORT then
            do { let xdrs = xdrmem_create vaddr (case oa_base verf of Some b \<Rightarrow> b | None \<Rightarrow> []) (oa_length verf) XDR_DECODE;
                 (b, shcred, _) \<leftarrow> xdr_opaque_auth xdrs ((au_shcred au)\<lparr>oa_base := None\<rparr>);
                 let au = (if b then au\<lparr>au_shcred := shcred, ah_cred := shcred, ah_orig := False\<rparr>
                           else au\<lparr>au_shcred := shcred\<lparr>oa_base := None\<rparr>, ah_cred := au_origcred au, ah_orig := True\<rparr>);
                 au \<leftarrow> marshal_new_auth addr au;
                 Some (True, au) }
          else Some (True, au))"

text \<open>
  The original parameters are read back, and written over themselves with the time of day and the host name of now.
  The second component of the result is whether the thread owns \<^verbatim>\<open>hostname_mtx\<close> on return.
\<close>

definition authunix_refresh ::
  "octets \<Rightarrow> 32 word \<Rightarrow> 32 word \<Rightarrow> 32 word \<Rightarrow> audata \<Rightarrow> xucred \<Rightarrow> 32 word \<Rightarrow> (bool \<times> bool \<times> audata) option" where
  "authunix_refresh hostname time oaddr addr au xcr g =
     (if ah_orig au then Some (False, False, au)
      else do {
        let au = au\<lparr>au_shfaults := au_shfaults au + 1\<rparr>;
        base \<leftarrow> oa_base (au_origcred au);
        let xdrs = xdrmem_create oaddr base (oa_length (au_origcred au)) XDR_DECODE;
        (stat, a, xdrs) \<leftarrow> xdr_authunix_parms hostname g xdrs \<lparr>aup_mtx = False, aup_time = g, aup_cred = xcr\<rparr>;
        if \<not> stat then Some (False, aup_mtx a, au)
        else do {
          (_, xdrs) \<leftarrow> XDR_SETPOS (xdrs\<lparr>x_op := XDR_ENCODE\<rparr>) 0;
          (stat, a, xdrs) \<leftarrow> xdr_authunix_parms hostname g xdrs (a\<lparr>aup_time := time\<rparr>);
          let au = au\<lparr>au_origcred := (au_origcred au)\<lparr>oa_base := Some (xm_mem (x_priv xdrs))\<rparr>\<rparr>;
          if \<not> stat then Some (False, aup_mtx a, au)
          else do {
            au \<leftarrow> marshal_new_auth addr (au\<lparr>ah_cred := au_origcred au, ah_orig := True\<rparr>);
            Some (True, aup_mtx a, au) } } })"

section \<open>The cache of authenticators\<close>

text \<open>
  The hash chains and the list of all authenticators in the order of their last use. What is done under one hold of
  \<^verbatim>\<open>auth_unix_lock\<close> is one operation; the operations of several threads follow one another in any order.
\<close>

record authcache =
  ac_heap :: "audata option list"
  auth_unix_cache :: "addr list list"
  auth_unix_all :: "addr list"
  auth_unix_count :: int

abbreviation (input) AUTH_UNIX_HASH_SIZE :: nat where "AUTH_UNIX_HASH_SIZE \<equiv> 16"
abbreviation (input) AUTH_UNIX_MAX :: int where "AUTH_UNIX_MAX \<equiv> 256"

definition authunix_init :: "authcache \<Rightarrow> authcache" where
  "authunix_init st = st\<lparr>auth_unix_cache := replicate AUTH_UNIX_HASH_SIZE [], auth_unix_all := []\<rparr>"

definition auth_hash :: "uid \<Rightarrow> nat" where
  "auth_hash u = unat ((push_bit 5 5381 + 5381 + u) mod of_nat AUTH_UNIX_HASH_SIZE)"

definition au_at :: "authcache \<Rightarrow> addr \<Rightarrow> audata option" where
  "au_at st a = deref (ac_heap st) a"

definition au_put :: "addr \<Rightarrow> audata \<Rightarrow> authcache \<Rightarrow> authcache" where
  "au_put a au st = st\<lparr>ac_heap := hstore a au (ac_heap st)\<rparr>"

definition auth_acquire :: "addr \<Rightarrow> authcache \<Rightarrow> authcache option" where
  "auth_acquire a st = do { au \<leftarrow> au_at st a; Some (au_put a (au\<lparr>au_refs := refcount_acquire (au_refs au)\<rparr>) st) }"

definition authunix_destroy :: "addr \<Rightarrow> authcache \<Rightarrow> authcache option" where
  "authunix_destroy a st =
     do { au \<leftarrow> au_at st a;
          (last, c) \<leftarrow> refcount_release (au_refs au);
          if \<not> last then Some (au_put a (au\<lparr>au_refs := c\<rparr>) st)
          else Some (st\<lparr>ac_heap := hfree a (ac_heap st)\<rparr>) }"

text \<open>The walk along a hash chain.\<close>

fun auth_find :: "audata option list \<Rightarrow> xucred \<Rightarrow> addr list \<Rightarrow> addr option option" where
  "auth_find h xcr [] = Some None"
| "auth_find h xcr (a # as) = do { au \<leftarrow> deref h a; if au_xcred au = xcr then Some (Some a) else auth_find h xcr as }"

text \<open>
  The lookup: an authenticator that is found gets a reference and, if the lock can be upgraded (\<open>upg\<close>), moves to the
  end of the list of all.
\<close>

definition auth_lookup :: "bool \<Rightarrow> xucred \<Rightarrow> authcache \<Rightarrow> (addr option \<times> authcache) option" where
  "auth_lookup upg xcr st =
     do { r \<leftarrow> auth_find (ac_heap st) xcr (auth_unix_cache st ! auth_hash (xcr_uid xcr));
          case r of
            None \<Rightarrow> Some (None, st)
          | Some a \<Rightarrow>
              do { st \<leftarrow> auth_acquire a st;
                   Some (Some a, if upg then st\<lparr>auth_unix_all := remove1 a (auth_unix_all st) @ [a]\<rparr> else st) } }"

text \<open>
  The insertion of a new authenticator; \<open>None\<close> in the result: another thread has been faster, the new one is destroyed
  and the caller looks again.
\<close>

definition auth_insert :: "audata \<Rightarrow> authcache \<Rightarrow> (addr option \<times> authcache) option" where
  "auth_insert au st =
     do { let h = auth_hash (xcr_uid (au_xcred au));
          r \<leftarrow> auth_find (ac_heap st) (au_xcred au) (auth_unix_cache st ! h);
          case r of
            Some _ \<Rightarrow> Some (None, st)
          | None \<Rightarrow>
              do { let a = length (ac_heap st);
                   Some (Some a,
                     st\<lparr>ac_heap := halloc (au\<lparr>au_refs := refcount_acquire (au_refs au)\<rparr>) (ac_heap st),
                        auth_unix_count := auth_unix_count st + 1,
                        auth_unix_cache := (auth_unix_cache st)[h := auth_unix_cache st ! h @ [a]],
                        auth_unix_all := auth_unix_all st @ [a]\<rparr>) } }"

text \<open>
  One turn of the loop that removes the authenticators unused for the longest time: unlinked under the lock, and
  then the cache's reference to it is given up.
\<close>

definition auth_unlink :: "authcache \<Rightarrow> (addr \<times> authcache) option" where
  "auth_unlink st =
     (case auth_unix_all st of
        [] \<Rightarrow> None
      | tau # rest \<Rightarrow>
          do { au \<leftarrow> au_at st tau;
               let th = auth_hash (xcr_uid (au_xcred au));
               Some (tau, st\<lparr>auth_unix_cache := (auth_unix_cache st)[th := remove1 tau (auth_unix_cache st ! th)],
                             auth_unix_all := rest, auth_unix_count := auth_unix_count st - 1\<rparr>) })"

definition auth_evict :: "authcache \<Rightarrow> authcache option" where
  "auth_evict st = do { (tau, st) \<leftarrow> auth_unlink st; authunix_destroy tau st }"

lemma authunix_destroy_keeps:
  assumes "authunix_destroy a st = Some st'"
  shows "auth_unix_count st' = auth_unix_count st" "auth_unix_all st' = auth_unix_all st" "auth_unix_cache st' = auth_unix_cache st"
  using assms by (auto simp: authunix_destroy_def au_put_def bind_eq_Some_conv split: if_splits)

lemma auth_evict_count: "auth_evict st = Some st' \<Longrightarrow> auth_unix_count st' = auth_unix_count st - 1"
  by (auto simp: auth_evict_def auth_unlink_def Let_def bind_eq_Some_conv split: list.splits dest: authunix_destroy_keeps)

function auth_trim :: "authcache \<Rightarrow> authcache option" where
  "auth_trim st = (if auth_unix_count st > AUTH_UNIX_MAX then do { st \<leftarrow> auth_evict st; auth_trim st } else Some st)"
  by pat_completeness auto
termination
  by (relation "measure (\<lambda>st. nat (auth_unix_count st))") (auto dest: auth_evict_count)

declare auth_trim.simps [simp del]

text \<open>
  \<^verbatim>\<open>authunix_create\<close> when no other thread comes between: \<open>None\<close> from the insertion does not occur then.
\<close>

definition authunix_create ::
  "octets \<Rightarrow> 32 word \<Rightarrow> 32 word \<Rightarrow> octets \<Rightarrow> 32 word \<Rightarrow> bool \<Rightarrow> ucred \<Rightarrow> authcache \<Rightarrow> (addr \<times> authcache) option" where
  "authunix_create hostname time stack mymem addr upg cred st =
     do { st \<leftarrow> auth_trim st;
          let xcr = cru2x cred;
          (r, st) \<leftarrow> auth_lookup upg xcr st;
          case r of
            Some a \<Rightarrow> Some (a, st)
          | None \<Rightarrow>
              do { au \<leftarrow> authunix_new hostname time stack mymem addr xcr;
                   (r, st) \<leftarrow> auth_insert au st;
                   a \<leftarrow> r;
                   Some (a, st) } }"

end
