(* ===== verification/RpcCall.thy ===== *)
theory RpcCall
  imports AuthClient
begin

text \<open>
  A call on its way: the request that \<^verbatim>\<open>src/sys/rpc/clnt_dg.c\<close> builds with an authenticator, and how
  \<^verbatim>\<open>src/sys/rpc/svc_dg.c\<close> and \<^verbatim>\<open>src/sys/rpc/svc.c\<close> take it apart and authenticate it. What the network does in between
  is left open: the server gets some chain of mbufs.
\<close>

section \<open>The client\<close>

text \<open>\<^verbatim>\<open>clnt_dg_create\<close> encodes the part of the header that stays the same.\<close>

definition clnt_header :: "32 word \<Rightarrow> octets \<Rightarrow> (xdrmem, unit) rpc_msg \<Rightarrow> (clnt_stat + octets \<times> 32 word) option" where
  "clnt_header addr mcallc call_msg =
     do { (b, _, xdrs) \<leftarrow> xdr_callhdr (xdrmem_create addr mcallc 24 XDR_ENCODE) call_msg;
          if \<not> b then Some (Inl RPC_CANTENCODEARGS)
          else do { len \<leftarrow> XDR_GETPOS xdrs; Some (Inr (xm_mem (x_priv xdrs), len)) } }"

definition authunix_marshal :: "audata \<Rightarrow> xdrmbuf XDR \<Rightarrow> mbuf list \<Rightarrow> (bool \<times> xdrmbuf XDR) option" where
  "authunix_marshal au xdrs args =
     do { bs \<leftarrow> blk_read (au_marshed au) (unat (au_mpos au));
          (b, xdrs) \<leftarrow> XDR_PUTBYTES xdrs bs;
          if \<not> b then Some (False, xdrs)
          else do { xdrs \<leftarrow> xdrmbuf_append xdrs args; Some (True, xdrs) } }"

text \<open>
  The request of \<^verbatim>\<open>clnt_dg_call\<close>: the header copied into a new mbuf \<open>m\<close>, the transaction's own xid stored at its start, the
  procedure number, and what the authenticator's \<open>marshal\<close> adds: the credentials and the arguments.
\<close>

definition clnt_request ::
  "mbuf_zone \<Rightarrow> octets \<Rightarrow> mbuf \<Rightarrow> octets \<Rightarrow> 32 word \<Rightarrow> 32 word \<Rightarrow> 32 word \<Rightarrow>
   (xdrmbuf XDR \<Rightarrow> mbuf list \<Rightarrow> (bool \<times> xdrmbuf XDR) option) \<Rightarrow> mbuf list \<Rightarrow> (clnt_stat + mbuf list) option" where
  "clnt_request mg junk m mcallc mcalllen xid proc marshal args =
     do { assert_opt (unat mcalllen \<le> length (m_store m));
          h \<leftarrow> blk_read mcallc (unat mcalllen);
          st \<leftarrow> area_write 0 h (m_store m);
          st \<leftarrow> area_write 0 (store32 (ntohl xid)) st;
          xdrs \<leftarrow> xdrmbuf_create mg junk [m\<lparr>m_store := st, m_len := unat mcalllen\<rparr>] XDR_ENCODE;
          (b, xdrs) \<leftarrow> XDR_PUTLONG xdrs proc;
          (b, xdrs) \<leftarrow> (if b then marshal xdrs args else Some (False, xdrs));
          Some (if b then Inr (xb_base (x_priv xdrs)) else Inl RPC_CANTENCODEARGS) }"

section \<open>The server\<close>

text \<open>\<^verbatim>\<open>svc_dg_recv\<close> on the received chain: the message and the arguments; \<open>None\<close> inside is \<^verbatim>\<open>FALSE\<close>.\<close>

definition svc_recv ::
  "mbuf_zone \<Rightarrow> octets \<Rightarrow> mbuf list \<Rightarrow> (xdrmbuf, unit) rpc_msg \<Rightarrow> ((xdrmbuf, unit) rpc_msg \<times> mbuf list) option option" where
  "svc_recv mg junk mreq msg =
     do { xdrs \<leftarrow> xdrmbuf_create mg junk mreq XDR_DECODE;
          (b, msg, xdrs) \<leftarrow> xdr_callmsg xdrs msg;
          if \<not> b then Some None
          else do { (m, _) \<leftarrow> xdrmbuf_getall mg xdrs; Some (Some (msg, m)) } }"

text \<open>
  A request as \<^verbatim>\<open>svc_getreq\<close> allocates it: the areas for the credentials are cleared memory, the message is a local
  variable and otherwise arbitrary, \<open>msg0\<close>. With the message received it is filled in.
\<close>

definition svc_area :: octets where
  "svc_area = replicate (unat MAX_AUTH_BYTES) 0"

definition svc_msg :: "(xdrmbuf, unit) rpc_msg \<Rightarrow> (xdrmbuf, unit) rpc_msg" where
  "svc_msg msg0 = msg0\<lparr>rm_call := (rm_call msg0)\<lparr>
     cb_cred := (cb_cred (rm_call msg0))\<lparr>oa_base := Some svc_area\<rparr>,
     cb_verf := (cb_verf (rm_call msg0))\<lparr>oa_base := Some svc_area\<rparr>\<rparr>\<rparr>"

definition svc_req0 :: "32 word \<Rightarrow> svc_req" where
  "svc_req0 credaddr =
     \<lparr>rq_xid = 0, rq_prog = 0, rq_vers = 0, rq_proc = 0, rq_args = [], rq_addr = None, rq_cred = null_auth, rq_verf = null_auth,
      rq_clntcred = \<lparr>xcr_version = 0, xcr_uid = 0, xcr_ngroups = 0, xcr_groups = replicate NGROUPS 0\<rparr>,
      rq_credaddr = credaddr, rq_mtx = False\<rparr>"

definition svc_newreq :: "32 word \<Rightarrow> octets option \<Rightarrow> (xdrmbuf, unit) rpc_msg \<Rightarrow> mbuf list \<Rightarrow> svc_req" where
  "svc_newreq credaddr addr msg args =
     (svc_req0 credaddr)\<lparr>rq_addr := addr, rq_xid := rm_xid msg, rq_prog := cb_prog (rm_call msg), rq_vers := cb_vers (rm_call msg),
        rq_proc := cb_proc (rm_call msg), rq_args := args\<rparr>"

end
