(* ===== verification/Chains.thy ===== *)
theory Chains
  imports KPrelude
begin

text \<open>
  A table of hash chains beside a list of all its elements, as the kernel's caches keep it. \<open>key\<close> is the number of the
  chain an element belongs on.
\<close>

definition chains_ok :: "nat \<Rightarrow> (addr \<Rightarrow> nat option) \<Rightarrow> addr list \<Rightarrow> addr list list \<Rightarrow> bool" where
  "chains_ok n key all cache \<longleftrightarrow> length cache = n \<and> distinct all \<and>
     (\<forall>h < n. distinct (cache ! h) \<and> set (cache ! h) = {a \<in> set all. key a = Some h})"

lemma find_SomeD: "List.find P xs = Some a \<Longrightarrow> a \<in> set xs \<and> P a"
  by (auto simp: find_Some_iff)

lemma chains_okD:
  assumes "chains_ok n key all cache"
  shows "length cache = n" "distinct all" "h < n \<Longrightarrow> a \<in> set (cache ! h) \<longleftrightarrow> a \<in> set all \<and> key a = Some h"
  using assms by (auto simp: chains_ok_def)

lemma chains_ok_empty: "chains_ok n key [] (replicate n [])"
  by (simp add: chains_ok_def)

text \<open>The order of the list of all does not matter, nor does the key of anything else.\<close>

lemma chains_ok_cong:
  assumes "chains_ok n key all cache" "mset all' = mset all" "\<And>a. a \<in> set all \<Longrightarrow> key' a = key a"
  shows "chains_ok n key' all' cache"
proof -
  have "set all' = set all" "distinct all' = distinct all" using assms(2) by (metis set_mset_mset, metis mset_eq_imp_distinct_iff)
  moreover have "{a \<in> set all. key' a = Some h} = {a \<in> set all. key a = Some h}" for h using assms(3) by auto
  ultimately show ?thesis using assms(1) by (simp add: chains_ok_def)
qed

lemma chains_ok_insert:
  assumes "chains_ok n key all cache" "a \<notin> set all" "key' a = Some h" "h < n" "\<And>b. b \<in> set all \<Longrightarrow> key' b = key b"
    and "mset all' = add_mset a (mset all)" "mset c = add_mset a (mset (cache ! h))"
  shows "chains_ok n key' all' (cache[h := c])"
proof -
  have s: "set all' = insert a (set all)" "set c = insert a (set (cache ! h))"
    using arg_cong [OF assms(6), of set_mset] arg_cong [OF assms(7), of set_mset] by simp_all
  have "a \<notin> set (cache ! h)" "distinct (cache ! h)" "distinct all" using assms(1,2,4) by (auto simp: chains_ok_def)
  then have d: "distinct all'" "distinct c"
    using assms(2,6,7) mset_eq_imp_distinct_iff [of all' "a # all"] mset_eq_imp_distinct_iff [of c "a # cache ! h"] by simp_all
  have "distinct (cache[h := c] ! i) \<and> set (cache[h := c] ! i) = {b \<in> set all'. key' b = Some i}" if "i < n" for i
    using assms(1,3-5) that s d by (cases "i = h") (auto simp: chains_ok_def)
  then show ?thesis using assms(1) d(1) by (simp add: chains_ok_def)
qed

lemma chains_ok_remove:
  assumes "chains_ok n key all cache" "key a = Some h" "h < n"
  shows "chains_ok n key (remove1 a all) (cache[h := remove1 a (cache ! h)])"
proof -
  have d: "distinct all" "length cache = n" using assms(1) by (auto simp: chains_ok_def)
  have "distinct (cache[h := remove1 a (cache ! h)] ! i) \<and>
      set (cache[h := remove1 a (cache ! h)] ! i) = {b \<in> set (remove1 a all). key b = Some i}" if "i < n" for i
  proof -
    have "distinct (cache ! i)" "set (cache ! i) = {b \<in> set all. key b = Some i}" using assms(1) that by (simp_all add: chains_ok_def)
    then show ?thesis using assms(2,3) that d by (cases "i = h") (auto simp: set_remove1_eq)
  qed
  then show ?thesis using d by (simp add: chains_ok_def)
qed

end
