(* ===== verification/Replay.thy ===== *)
theory Replay
  imports RpcMsg Chains
begin

text \<open>
  The replay cache of a server, \<^verbatim>\<open>src/sys/rpc/replay.c\<close>: requests that are being executed and the replies to the last ones, by
  which a retransmitted request is recognised.

  An address is the sequence of its \<^verbatim>\<open>sa_len\<close> octets. \<open>rce_repmsg\<close> is \<open>None\<close> as long as it is the cleared memory of the
  allocation. What \<^verbatim>\<open>m_copym\<close> makes of a chain is the chain. In a result of type \<open>'a option option\<close> the outer \<open>None\<close> is a
  loop that does not end and the inner one a fault.
\<close>

type_synonym kmsg = "(xdrmbuf, unit) rpc_msg"

record replay_cache_entry =
  rce_hash :: nat
  rce_msg :: kmsg
  rce_addr :: octets
  rce_repmsg :: "kmsg option"
  rce_repbody :: "mbuf list option"

record replay_cache =
  rc_heap :: "replay_cache_entry option list"
  rc_cache :: "addr list list"
  rc_all :: "addr list"
  rc_count :: int
  rc_size :: "32 word"
  rc_maxsize :: "32 word"

datatype replay_state = RS_NEW | RS_DONE | RS_INPROGRESS | RS_ERROR

abbreviation (input) REPLAY_HASH_SIZE :: nat where "REPLAY_HASH_SIZE \<equiv> 256"
abbreviation (input) REPLAY_MAX :: int where "REPLAY_MAX \<equiv> 1024"

definition replay_hash :: "32 word \<Rightarrow> nat" where
  "replay_hash xid = unat ((push_bit 5 5381 + 5381 + xid) mod of_nat REPLAY_HASH_SIZE)"

definition replay_newcache :: "32 word \<Rightarrow> replay_cache" where
  "replay_newcache maxsize =
     \<lparr>rc_heap = [], rc_cache = replicate REPLAY_HASH_SIZE [], rc_all = [], rc_count = 0, rc_size = 0, rc_maxsize = maxsize\<rparr>"

section \<open>Entries\<close>

text \<open>The entry is allocated without waiting: \<open>mem\<close> says whether there is memory. The code does not look.\<close>

definition replay_alloc :: "bool \<Rightarrow> replay_cache \<Rightarrow> kmsg \<Rightarrow> octets \<Rightarrow> nat \<Rightarrow> (addr \<times> replay_cache) option" where
  "replay_alloc mem rc msg addr h =
     do { let rc = rc\<lparr>rc_count := rc_count rc + 1\<rparr>;
          let rce = length (rc_heap rc);
          assert_opt mem;
          assert_opt (length addr \<le> 128);
          assert_opt (h < length (rc_cache rc));
          Some (rce, rc\<lparr>
            rc_heap := halloc \<lparr>rce_hash = h, rce_msg = msg, rce_addr = addr, rce_repmsg = None, rce_repbody = None\<rparr> (rc_heap rc),
            rc_cache := (rc_cache rc)[h := rce # rc_cache rc ! h],
            rc_all := rce # rc_all rc\<rparr>) }"

definition replay_free :: "replay_cache \<Rightarrow> addr \<Rightarrow> replay_cache option" where
  "replay_free rc rce =
     do { e \<leftarrow> deref (rc_heap rc) rce;
          assert_opt (rce_hash e < length (rc_cache rc));
          Some (rc\<lparr>rc_count := rc_count rc - 1,
                   rc_cache := (rc_cache rc)[rce_hash e := remove1 rce (rc_cache rc ! rce_hash e)],
                   rc_all := remove1 rce (rc_all rc),
                   rc_size := (case rce_repbody e of Some m \<Rightarrow> rc_size rc - of_nat (mb_length m) | None \<Rightarrow> rc_size rc),
                   rc_heap := hfree rce (rc_heap rc)\<rparr>) }"

text \<open>The first entry of a list that satisfies a test.\<close>

fun rce_search :: "(replay_cache_entry \<Rightarrow> bool) \<Rightarrow> replay_cache_entry option list \<Rightarrow> addr list \<Rightarrow> addr option option" where
  "rce_search P h [] = Some None"
| "rce_search P h (a # as) = do { e \<leftarrow> deref h a; if P e then Some (Some a) else rce_search P h as }"

definition rce_replied :: "replay_cache_entry \<Rightarrow> bool" where
  "rce_replied e = (case rce_repmsg e of Some m \<Rightarrow> rm_xid m \<noteq> 0 | None \<Rightarrow> False)"

section \<open>Making room\<close>

definition replay_full :: "replay_cache \<Rightarrow> bool" where
  "replay_full rc \<longleftrightarrow> rc_count rc \<ge> REPLAY_MAX \<or> rc_size rc > rc_maxsize rc"

definition prune_one :: "replay_cache \<Rightarrow> (bool \<times> replay_cache) option" where
  "prune_one rc =
     do { r \<leftarrow> rce_search rce_replied (rc_heap rc) (rev (rc_all rc));
          case r of
            Some rce \<Rightarrow> do { rc \<leftarrow> replay_free rc rce; Some (True, rc) }
          | None \<Rightarrow> Some (False, rc) }"

text \<open>\<^verbatim>\<open>freed_one\<close> is set before the loop and not in it.\<close>

partial_function (option) prune_loop :: "bool \<Rightarrow> replay_cache \<Rightarrow> replay_cache option option" where
  "prune_loop freed_one rc =
     (case prune_one rc of
        None \<Rightarrow> Some None
      | Some (b, rc) \<Rightarrow>
          (let freed_one = (freed_one \<or> b) in
           if freed_one \<and> replay_full rc then prune_loop freed_one rc else Some (Some rc)))"

definition replay_prune :: "replay_cache \<Rightarrow> replay_cache option option" where
  "replay_prune rc = (if replay_full rc then prune_loop False rc else Some (Some rc))"

definition replay_setsize :: "replay_cache \<Rightarrow> 32 word \<Rightarrow> replay_cache option option" where
  "replay_setsize rc newmaxsize = replay_prune (rc\<lparr>rc_maxsize := newmaxsize\<rparr>)"

function replay_freecache :: "replay_cache \<Rightarrow> replay_cache option" where
  "replay_freecache rc =
     (case rc_all rc of [] \<Rightarrow> Some rc | rce # _ \<Rightarrow> do { rc \<leftarrow> replay_free rc rce; replay_freecache rc })"
  by pat_completeness auto
termination
  by (relation "measure (\<lambda>rc. length (rc_all rc))") (auto simp: replay_free_def Let_def bind_eq_Some_conv)

declare replay_freecache.simps [simp del]

section \<open>Requests and replies\<close>

definition same_call :: "kmsg \<Rightarrow> octets \<Rightarrow> replay_cache_entry \<Rightarrow> bool" where
  "same_call msg addr e \<longleftrightarrow>
     rm_xid (rce_msg e) = rm_xid msg \<and> cb_prog (rm_call (rce_msg e)) = cb_prog (rm_call msg) \<and>
     cb_vers (rm_call (rce_msg e)) = cb_vers (rm_call msg) \<and> cb_proc (rm_call (rce_msg e)) = cb_proc (rm_call msg) \<and>
     rce_addr e = addr"

text \<open>
  The result is the state, the reply message and the chain that \<^verbatim>\<open>*repmsg\<close> and \<^verbatim>\<open>*mp\<close> are set to, and the cache. \<open>mem\<close> says
  whether there is memory for the copy of a chain or for a new entry.
\<close>

definition replay_find ::
  "bool \<Rightarrow> replay_cache \<Rightarrow> kmsg \<Rightarrow> octets \<Rightarrow> (replay_state \<times> kmsg option \<times> mbuf list option \<times> replay_cache) option option" where
  "replay_find mem rc msg addr =
     (let h = replay_hash (rm_xid msg) in
      case rce_search (same_call msg addr) (rc_heap rc) (rc_cache rc ! h) of
        None \<Rightarrow> Some None
      | Some (Some rce) \<Rightarrow>
          Some (do {
            e \<leftarrow> deref (rc_heap rc) rce;
            if rce_replied e then
              do { let rc = rc\<lparr>rc_all := rce # remove1 rce (rc_all rc)\<rparr>;
                   case rce_repbody e of
                     Some m \<Rightarrow>
                       if mem then Some (RS_DONE, rce_repmsg e, Some m, rc) else Some (RS_ERROR, rce_repmsg e, None, rc)
                   | None \<Rightarrow> Some (RS_DONE, rce_repmsg e, None, rc) }
            else Some (RS_INPROGRESS, None, None, rc) })
      | Some None \<Rightarrow>
          (case replay_prune rc of
             None \<Rightarrow> None
           | Some None \<Rightarrow> Some None
           | Some (Some rc) \<Rightarrow>
               Some (do { (rce, rc) \<leftarrow> replay_alloc mem rc msg addr h; Some (RS_NEW, None, None, rc) })))"

definition replay_setreply :: "replay_cache \<Rightarrow> kmsg \<Rightarrow> octets \<Rightarrow> mbuf list option \<Rightarrow> replay_cache option" where
  "replay_setreply rc repmsg addr m =
     do { r \<leftarrow> rce_search (\<lambda>e. rm_xid (rce_msg e) = rm_xid repmsg \<and> rce_addr e = addr) (rc_heap rc)
            (rc_cache rc ! replay_hash (rm_xid repmsg));
          case r of
            None \<Rightarrow> Some rc
          | Some rce \<Rightarrow>
              do { e \<leftarrow> deref (rc_heap rc) rce;
                   Some (rc\<lparr>rc_heap := hstore rce (e\<lparr>rce_repmsg := Some repmsg, rce_repbody := m\<rparr>) (rc_heap rc),
                            rc_size := (case m of Some m \<Rightarrow> rc_size rc + of_nat (mb_length m) | None \<Rightarrow> rc_size rc)\<rparr>) } }"

end
