(* ===== verification/Svc.thy ===== *)
theory Svc
  imports RpcCall Replay
begin

text \<open>
  The server of \<^verbatim>\<open>src/sys/rpc/svc.c\<close> over the datagram transport of \<^verbatim>\<open>src/sys/rpc/svc_dg.c\<close>: the registered services, the
  replies, and the way of a request through the replay cache and the authentication to the routine that executes it.

  A dispatch routine is its address. What \<^verbatim>\<open>sosend\<close> is called with is part of a result: the destination and the chain.
  Requests, transports and chains are values; their reference counts are not modelled.
\<close>

record svc_callout =
  sc_prog :: "32 word"
  sc_vers :: "32 word"
  sc_netid :: "string option"
  sc_dispatch :: nat

record svcpool =
  sp_callouts :: "svc_callout list"
  sp_rcache :: "replay_cache option"

record svcxprt =
  xp_netid :: "string option"
  xp_rtaddr :: octets

type_synonym datagram = "octets option \<times> mbuf list"

text \<open>
  What the server relies on: the host name and uninitialised time of the authentication, the handlers of \<^verbatim>\<open>RPCSEC_GSS\<close>,
  the mbuf allocator, the uninitialised words and messages on the stack, the mbuf that \<^verbatim>\<open>MGETHDR\<close> returns, and whether
  memory can be had without waiting.
\<close>

record svc_env =
  se_hostname :: octets
  se_time :: "32 word"
  se_gss :: "(svc_req \<Rightarrow> call_body \<Rightarrow> (32 word \<times> svc_req) option) option"
  se_wrap :: "svc_req \<Rightarrow> mbuf list option \<Rightarrow> bool \<times> mbuf list option"
  se_unwrap :: "svc_req \<Rightarrow> mbuf list \<Rightarrow> bool \<times> mbuf list"
  se_zone :: mbuf_zone
  se_junk :: octets
  se_msg :: kmsg
  se_rply :: kmsg
  se_mrep :: mbuf
  se_mem :: bool

abbreviation (input) RPCSEC_GSS_NODISPATCH :: "32 word" where "RPCSEC_GSS_NODISPATCH \<equiv> 0x8000000"
abbreviation (input) AUTH_TOOWEAK :: "32 word" where "AUTH_TOOWEAK \<equiv> 5"

text \<open>The operations of \<^verbatim>\<open>rq_auth\<close>: those that do nothing, unless the handler of \<^verbatim>\<open>RPCSEC_GSS\<close> has set others.\<close>

definition SVCAUTH_WRAP :: "svc_env \<Rightarrow> svc_req \<Rightarrow> mbuf list option \<Rightarrow> bool \<times> mbuf list option" where
  "SVCAUTH_WRAP e rqst body = (if oa_flavor (rq_cred rqst) = RPCSEC_GSS then se_wrap e rqst body else (True, body))"

definition SVCAUTH_UNWRAP :: "svc_env \<Rightarrow> svc_req \<Rightarrow> bool \<times> mbuf list" where
  "SVCAUTH_UNWRAP e rqst =
     (if oa_flavor (rq_cred rqst) = RPCSEC_GSS then se_unwrap e rqst (rq_args rqst) else (True, rq_args rqst))"

section \<open>Services\<close>

definition svc_find :: "svcpool \<Rightarrow> 32 word \<Rightarrow> 32 word \<Rightarrow> string option \<Rightarrow> svc_callout option" where
  "svc_find pool prog vers netid =
     find (\<lambda>s. sc_prog s = prog \<and> sc_vers s = vers \<and> (netid = None \<or> sc_netid s = None \<or> netid = sc_netid s)) (sp_callouts pool)"

text \<open>
  \<open>nconf\<close> is \<^verbatim>\<open>NULL\<close> or the network identifier of a configuration; \<open>bound\<close> is what \<^verbatim>\<open>rpcb_set\<close> returns, and \<open>mem\<close> whether there
  is memory for the new entry.
\<close>

definition svc_reg ::
  "bool \<Rightarrow> bool \<Rightarrow> svcxprt \<Rightarrow> 32 word \<Rightarrow> 32 word \<Rightarrow> nat \<Rightarrow> string option option \<Rightarrow> svcpool \<Rightarrow> bool \<times> svcxprt \<times> svcpool" where
  "svc_reg mem bound xprt prog vers dispatch nconf pool =
     (let netid = (case xp_netid xprt of Some n \<Rightarrow> Some n | None \<Rightarrow> (case nconf of Some n \<Rightarrow> n | None \<Rightarrow> None));
          rpcb_it = (nconf = None \<or> bound)
      in case svc_find pool prog vers netid of
           Some s \<Rightarrow> if sc_dispatch s = dispatch then (rpcb_it, xprt, pool) else (False, xprt, pool)
         | None \<Rightarrow>
             if \<not> mem then (False, xprt, pool)
             else (rpcb_it,
                   (if xp_netid xprt = None then xprt\<lparr>xp_netid := netid\<rparr> else xprt),
                   pool\<lparr>sp_callouts := sp_callouts pool @ [\<lparr>sc_prog = prog, sc_vers = vers, sc_netid = netid, sc_dispatch = dispatch\<rparr>]\<rparr>))"

lemma svc_find_in: "svc_find pool prog vers netid = Some s \<Longrightarrow> s \<in> set (sp_callouts pool)"
  by (auto simp: svc_find_def find_Some_iff)

function svc_unreg :: "svcpool \<Rightarrow> 32 word \<Rightarrow> 32 word \<Rightarrow> svcpool" where
  "svc_unreg pool prog vers =
     (case svc_find pool prog vers None of
        None \<Rightarrow> pool
      | Some s \<Rightarrow> svc_unreg (pool\<lparr>sp_callouts := remove1 s (sp_callouts pool)\<rparr>) prog vers)"
  by pat_completeness auto
termination
  by (relation "measure (\<lambda>(pool, _). length (sp_callouts pool))")
    (auto simp: length_remove1 dest!: svc_find_in intro: diff_less length_pos_if_in_set)

declare svc_unreg.simps [simp del]

section \<open>Replies\<close>

definition svc_getrpccaller :: "svcxprt \<Rightarrow> svc_req \<Rightarrow> octets" where
  "svc_getrpccaller xprt rq = (case rq_addr rq of Some a \<Rightarrow> a | None \<Rightarrow> xp_rtaddr xprt)"

text \<open>
  \<^verbatim>\<open>svc_dg_reply\<close>: whether the message could be encoded, and the chain that is sent. \<open>m\<close> is \<open>None\<close> when the pointer is not
  initialised; it is used in the reply to a call that succeeded.
\<close>

definition svc_dg_reply :: "svc_env \<Rightarrow> kmsg \<Rightarrow> mbuf list option \<Rightarrow> (bool \<times> mbuf list option) option" where
  "svc_dg_reply e msg m =
     do { xdrs \<leftarrow> xdrmbuf_create (se_zone e) (se_junk e) [(se_mrep e)\<lparr>m_len := 0\<rparr>] XDR_ENCODE;
          (stat, _, xdrs) \<leftarrow> xdr_replymsg xdrs msg;
          xdrs \<leftarrow> (if rp_stat (rm_reply msg) = MSG_ACCEPTED \<and> ar_stat (rp_acpt (rm_reply msg)) = SUCCESS \<and> stat
                   then do { m \<leftarrow> m; xdrmbuf_append xdrs m } else Some xdrs);
          Some (stat, if stat then Some (xb_base (x_priv xdrs)) else None) }"

definition svc_setreply :: "octets \<Rightarrow> kmsg \<Rightarrow> mbuf list option \<Rightarrow> svcpool \<Rightarrow> svcpool option" where
  "svc_setreply addr rply body pool =
     (case sp_rcache pool of
        None \<Rightarrow> Some pool
      | Some rc \<Rightarrow> do { rc \<leftarrow> replay_setreply rc rply addr body; Some (pool\<lparr>sp_rcache := Some rc\<rparr>) })"

definition svc_sendreply_common ::
  "svc_env \<Rightarrow> svcxprt \<Rightarrow> svc_req \<Rightarrow> kmsg \<Rightarrow> mbuf list option \<Rightarrow> svcpool \<Rightarrow> (bool \<times> datagram option \<times> svc_req \<times> svcpool) option" where
  "svc_sendreply_common e xprt rqst rply body pool =
     do { let rqst = rqst\<lparr>rq_args := []\<rparr>;
          pool \<leftarrow> svc_setreply (svc_getrpccaller xprt rqst) rply body pool;
          let (b, body) = SVCAUTH_WRAP e rqst body;
          if \<not> b then Some (False, None, rqst, pool)
          else do { (ok, mrep) \<leftarrow> svc_dg_reply e rply (Some (case body of Some m \<Rightarrow> m | None \<Rightarrow> []));
                    Some (ok, map_option (\<lambda>m. (rq_addr rqst, m)) mrep, rqst\<lparr>rq_addr := None\<rparr>, pool) } }"

text \<open>The messages, built in a local variable.\<close>

definition acpt_rply :: "svc_env \<Rightarrow> svc_req \<Rightarrow> 32 word \<Rightarrow> kmsg" where
  "acpt_rply e rqst stat =
     (se_rply e)\<lparr>rm_xid := rq_xid rqst, rm_direction := REPLY, rm_reply := (rm_reply (se_rply e))\<lparr>rp_stat := MSG_ACCEPTED,
       rp_acpt := (rp_acpt (rm_reply (se_rply e)))\<lparr>ar_verf := rq_verf rqst, ar_stat := stat\<rparr>\<rparr>\<rparr>"

definition success_rply :: "svc_env \<Rightarrow> svc_req \<Rightarrow> kmsg" where
  "success_rply e rqst =
     (let m = acpt_rply e rqst SUCCESS in
      m\<lparr>rm_reply := (rm_reply m)\<lparr>rp_acpt := (rp_acpt (rm_reply m))\<lparr>ar_where := (), ar_proc := Some xdr_void\<rparr>\<rparr>\<rparr>)"

definition auth_rply :: "svc_env \<Rightarrow> svc_req \<Rightarrow> 32 word \<Rightarrow> kmsg" where
  "auth_rply e rqst why =
     (se_rply e)\<lparr>rm_xid := rq_xid rqst, rm_direction := REPLY, rm_reply := (rm_reply (se_rply e))\<lparr>rp_stat := MSG_DENIED,
       rp_rjct := (rp_rjct (rm_reply (se_rply e)))\<lparr>rj_stat := AUTH_ERROR, rj_why := why\<rparr>\<rparr>\<rparr>"

definition vers_rply :: "svc_env \<Rightarrow> svc_req \<Rightarrow> 32 word \<Rightarrow> 32 word \<Rightarrow> kmsg" where
  "vers_rply e rqst low_vers high_vers =
     (let m = acpt_rply e rqst PROG_MISMATCH in
      m\<lparr>rm_reply := (rm_reply m)\<lparr>rp_acpt := (rp_acpt (rm_reply m))\<lparr>ar_low := low_vers, ar_high := high_vers\<rparr>\<rparr>\<rparr>)"

definition svc_sendreply ::
  "svc_env \<Rightarrow> svcxprt \<Rightarrow> svc_req \<Rightarrow> (xdrmbuf, 'a) xdrproc \<Rightarrow> 'a \<Rightarrow> svcpool \<Rightarrow> (bool \<times> datagram option \<times> svc_req \<times> svcpool) option" where
  "svc_sendreply e xprt rqst xdr_results xdr_location pool =
     do { xdrs \<leftarrow> xdrmbuf_create (se_zone e) (se_junk e) [MGET (se_zone e) 0 True] XDR_ENCODE;
          (ok, _, xdrs) \<leftarrow> xdr_results xdrs xdr_location;
          if ok then svc_sendreply_common e xprt rqst (success_rply e rqst) (Some (xb_base (x_priv xdrs))) pool
          else Some (False, None, rqst, pool) }"

definition svc_sendreply_mbuf ::
  "svc_env \<Rightarrow> svcxprt \<Rightarrow> svc_req \<Rightarrow> mbuf list option \<Rightarrow> svcpool \<Rightarrow> (bool \<times> datagram option \<times> svc_req \<times> svcpool) option" where
  "svc_sendreply_mbuf e xprt rqst m pool = svc_sendreply_common e xprt rqst (success_rply e rqst) m pool"

text \<open>The error replies record the reply, and \<open>svc_sendreply_common\<close> records it again.\<close>

definition svcerr_noproc :: "svc_env \<Rightarrow> svcxprt \<Rightarrow> svc_req \<Rightarrow> svcpool \<Rightarrow> (bool \<times> datagram option \<times> svc_req \<times> svcpool) option" where
  "svcerr_noproc e xprt rqst pool =
     do { let rply = acpt_rply e rqst PROC_UNAVAIL;
          pool \<leftarrow> svc_setreply (svc_getrpccaller xprt rqst) rply None pool;
          svc_sendreply_common e xprt rqst rply None pool }"

definition svcerr_decode :: "svc_env \<Rightarrow> svcxprt \<Rightarrow> svc_req \<Rightarrow> svcpool \<Rightarrow> (bool \<times> datagram option \<times> svc_req \<times> svcpool) option" where
  "svcerr_decode e xprt rqst pool =
     do { let rply = acpt_rply e rqst GARBAGE_ARGS;
          pool \<leftarrow> svc_setreply (xp_rtaddr xprt) rply None pool;
          svc_sendreply_common e xprt rqst rply None pool }"

definition svcerr_systemerr :: "svc_env \<Rightarrow> svcxprt \<Rightarrow> svc_req \<Rightarrow> svcpool \<Rightarrow> (bool \<times> datagram option \<times> svc_req \<times> svcpool) option" where
  "svcerr_systemerr e xprt rqst pool =
     do { let rply = acpt_rply e rqst SYSTEM_ERR;
          pool \<leftarrow> svc_setreply (svc_getrpccaller xprt rqst) rply None pool;
          svc_sendreply_common e xprt rqst rply None pool }"

definition svcerr_auth ::
  "svc_env \<Rightarrow> svcxprt \<Rightarrow> svc_req \<Rightarrow> 32 word \<Rightarrow> svcpool \<Rightarrow> (bool \<times> datagram option \<times> svc_req \<times> svcpool) option" where
  "svcerr_auth e xprt rqst why pool =
     do { let rply = auth_rply e rqst why;
          pool \<leftarrow> svc_setreply (svc_getrpccaller xprt rqst) rply None pool;
          svc_sendreply_common e xprt rqst rply None pool }"

definition svcerr_weakauth :: "svc_env \<Rightarrow> svcxprt \<Rightarrow> svc_req \<Rightarrow> svcpool \<Rightarrow> (bool \<times> datagram option \<times> svc_req \<times> svcpool) option" where
  "svcerr_weakauth e xprt rqst pool = svcerr_auth e xprt rqst AUTH_TOOWEAK pool"

definition svcerr_noprog :: "svc_env \<Rightarrow> svcxprt \<Rightarrow> svc_req \<Rightarrow> svcpool \<Rightarrow> (bool \<times> datagram option \<times> svc_req \<times> svcpool) option" where
  "svcerr_noprog e xprt rqst pool =
     do { let rply = acpt_rply e rqst PROG_UNAVAIL;
          pool \<leftarrow> svc_setreply (svc_getrpccaller xprt rqst) rply None pool;
          svc_sendreply_common e xprt rqst rply None pool }"

definition svcerr_progvers ::
  "svc_env \<Rightarrow> svcxprt \<Rightarrow> svc_req \<Rightarrow> 32 word \<Rightarrow> 32 word \<Rightarrow> svcpool \<Rightarrow> (bool \<times> datagram option \<times> svc_req \<times> svcpool) option" where
  "svcerr_progvers e xprt rqst low_vers high_vers pool =
     do { let rply = vers_rply e rqst low_vers high_vers;
          pool \<leftarrow> svc_setreply (svc_getrpccaller xprt rqst) rply None pool;
          svc_sendreply_common e xprt rqst rply None pool }"

section \<open>Requests\<close>

text \<open>
  The replay cache: whether the request is to be executed, and the reply that is sent again if it is not.
\<close>

definition svc_replay :: "svc_env \<Rightarrow> svcxprt \<Rightarrow> octets option \<Rightarrow> kmsg \<Rightarrow> svcpool \<Rightarrow> (bool \<times> datagram option \<times> svcpool) option option" where
  "svc_replay e xprt addr msg pool =
     (case sp_rcache pool of
        None \<Rightarrow> Some (Some (True, None, pool))
      | Some rc \<Rightarrow>
          (case replay_find (se_mem e) rc msg (case addr of Some a \<Rightarrow> a | None \<Rightarrow> xp_rtaddr xprt) of
             None \<Rightarrow> None
           | Some None \<Rightarrow> Some None
           | Some (Some (rs, repmsg, repbody, rc)) \<Rightarrow>
               Some (do {
                 let pool = pool\<lparr>sp_rcache := Some rc\<rparr>;
                 case rs of
                   RS_NEW \<Rightarrow> Some (True, None, pool)
                 | RS_DONE \<Rightarrow>
                     do { repmsg \<leftarrow> repmsg;
                          (_, mrep) \<leftarrow> svc_dg_reply e repmsg repbody;
                          Some (False, map_option (\<lambda>m. (addr, m)) mrep, pool) }
                 | _ \<Rightarrow> Some (False, None, pool) })))"

text \<open>The authentication: the request to execute, or the reply that refuses it.\<close>

definition svc_authreq :: "svc_env \<Rightarrow> svcxprt \<Rightarrow> svc_req \<Rightarrow> call_body \<Rightarrow> svcpool \<Rightarrow> (svc_req option \<times> datagram option \<times> svcpool) option" where
  "svc_authreq e xprt r call pool =
     do { (why, r) \<leftarrow> authenticate (se_hostname e) (se_time e) (se_gss e) r call;
          if why \<noteq> AUTH_OK then
            (if why \<noteq> RPCSEC_GSS_NODISPATCH
             then do { (_, d, _, pool) \<leftarrow> svcerr_auth e xprt r why pool; Some (None, d, pool) }
             else Some (None, None, pool))
          else do {
            let (b, args) = SVCAUTH_UNWRAP e r;
            let r = r\<lparr>rq_args := args\<rparr>;
            if \<not> b then do { (_, d, _, pool) \<leftarrow> svcerr_decode e xprt r pool; Some (None, d, pool) }
            else Some (Some r, None, pool) } }"

text \<open>
  \<^verbatim>\<open>svc_getreq\<close> on a received chain: the request that is queued, if any, and the reply that is sent at once. A datagram
  transport does not die.
\<close>

definition svc_getreq ::
  "svc_env \<Rightarrow> svcxprt \<Rightarrow> 32 word \<Rightarrow> octets option \<Rightarrow> mbuf list \<Rightarrow> svcpool \<Rightarrow> (svc_req option \<times> datagram option \<times> svcpool) option option" where
  "svc_getreq e xprt credaddr addr mreq pool =
     (case svc_recv (se_zone e) (se_junk e) mreq (svc_msg (se_msg e)) of
        None \<Rightarrow> Some None
      | Some None \<Rightarrow> Some (Some (None, None, pool))
      | Some (Some (msg, args)) \<Rightarrow>
          (case svc_replay e xprt addr msg pool of
             None \<Rightarrow> None
           | Some None \<Rightarrow> Some None
           | Some (Some (True, _, pool)) \<Rightarrow> Some (svc_authreq e xprt (svc_newreq credaddr addr msg args) (rm_call msg) pool)
           | Some (Some (False, d, pool)) \<Rightarrow> Some (Some (None, d, pool))))"

text \<open>The search of the services for the one to execute, with the range of the versions seen.\<close>

fun svc_match :: "32 word \<Rightarrow> 32 word \<Rightarrow> svc_callout list \<Rightarrow> bool \<Rightarrow> 32 word \<Rightarrow> 32 word \<Rightarrow> nat + bool \<times> 32 word \<times> 32 word" where
  "svc_match prog vers [] prog_found low_vers high_vers = Inr (prog_found, low_vers, high_vers)"
| "svc_match prog vers (s # ss) prog_found low_vers high_vers =
     (if sc_prog s = prog then
        (if sc_vers s = vers then Inl (sc_dispatch s)
         else svc_match prog vers ss True (if sc_vers s < low_vers then sc_vers s else low_vers)
                (if sc_vers s > high_vers then sc_vers s else high_vers))
      else svc_match prog vers ss prog_found low_vers high_vers)"

definition svc_executereq :: "svc_env \<Rightarrow> svcxprt \<Rightarrow> svc_req \<Rightarrow> svcpool \<Rightarrow> (nat + bool \<times> datagram option \<times> svc_req \<times> svcpool) option" where
  "svc_executereq e xprt rqst pool =
     (case svc_match (rq_prog rqst) (rq_vers rqst) (sp_callouts pool) False (-1) 0 of
        Inl dispatch \<Rightarrow> Some (Inl dispatch)
      | Inr (prog_found, low_vers, high_vers) \<Rightarrow>
          map_option Inr (if prog_found then svcerr_progvers e xprt rqst low_vers high_vers pool else svcerr_noprog e xprt rqst pool))"

definition svc_getargs :: "svc_env \<Rightarrow> svc_req \<Rightarrow> (xdrmbuf, 'a) xdrproc \<Rightarrow> 'a \<Rightarrow> (bool \<times> 'a \<times> svc_req) option" where
  "svc_getargs e rqst xargs args =
     do { xdrs \<leftarrow> xdrmbuf_create (se_zone e) (se_junk e) (rq_args rqst) XDR_DECODE;
          (stat, args, _) \<leftarrow> xargs xdrs args;
          Some (stat, args, rqst\<lparr>rq_args := []\<rparr>) }"

end
