(* ===== verification/ClntDg.thy ===== *)
theory ClntDg
  imports RpcCall
begin

text \<open>
  The datagram client of \<^verbatim>\<open>src/sys/rpc/clnt_dg.c\<close>: the clients that share a socket, the calls in progress with their
  retransmissions and their congestion window, and the routine that distributes the replies.

  A call gives up \<^verbatim>\<open>cs_lock\<close> where it sends, where it sleeps and where it decodes; what it does in between is one step, and
  the steps of the threads and of the network follow one another in any order. Tick counts are integers: their
  differences are exact as long as a call lasts less than \<open>2\<^sup>3\<^sup>1\<close> ticks. The counters of the window stay small.
\<close>

section \<open>Times\<close>

record timeval =
  tv_sec :: int
  tv_usec :: int

abbreviation (input) LONG_MAX :: int where "LONG_MAX \<equiv> 2 ^ 31 - 1"

definition tvtohz :: "int \<Rightarrow> int \<Rightarrow> timeval \<Rightarrow> int" where
  "tvtohz hz tick tv =
     (let (sec, usec) = (if tv_usec tv < 0 then (tv_sec tv - 1, tv_usec tv + 1000000) else (tv_sec tv, tv_usec tv));
          ticks = (if sec < 0 then 1
                   else if sec \<le> LONG_MAX div 1000000 then (sec * 1000000 + usec + (tick - 1)) mod 2 ^ 32 div tick + 1
                   else if sec \<le> LONG_MAX div hz then (sec * hz + (usec + (tick - 1)) mod 2 ^ 32 div tick + 1) mod 2 ^ 32
                   else LONG_MAX)
      in if ticks > LONG_MAX then LONG_MAX else ticks)"

definition time_not_ok :: "timeval \<Rightarrow> bool" where
  "time_not_ok t \<longleftrightarrow> tv_sec t < -1 \<or> tv_sec t > 100000000 \<or> tv_usec t < -1 \<or> tv_usec t > 1000000"

record rpc_timers =
  rt_srtt :: "16 word"
  rt_deviate :: "16 word"
  rt_rtxcur :: int

text \<open>The estimate of the round trip time. Division rounds towards zero.\<close>

definition c_div :: "int \<Rightarrow> int \<Rightarrow> int" where
  "c_div a b = sgn a * (\<bar>a\<bar> div b)"

definition rtt_update :: "int \<Rightarrow> rpc_timers \<Rightarrow> rpc_timers" where
  "rtt_update rtt rt =
     (let rt = (if rt_srtt rt = 0 then rt\<lparr>rt_srtt := of_int rtt, rt_deviate := of_int (c_div rtt 2)\<rparr>
                else let error = rtt - uint (rt_srtt rt);
                         rt = rt\<lparr>rt_srtt := rt_srtt rt + of_int (c_div error 8)\<rparr>;
                         error = \<bar>error\<bar> - uint (rt_deviate rt)
                     in rt\<lparr>rt_deviate := rt_deviate rt + of_int (c_div error 4)\<rparr>)
      in rt\<lparr>rt_rtxcur := uint (rt_srtt rt) + 4 * uint (rt_deviate rt)\<rparr>)"

section \<open>Clients and requests\<close>

text \<open>\<open>cr_woken\<close> says whether \<^verbatim>\<open>wakeup(cr)\<close> has been called since the thread went to sleep.\<close>

record cu_request =
  cr_client :: addr
  cr_xid :: "32 word"
  cr_mrep :: "mbuf list option"
  cr_error :: nat
  cr_verf :: octets
  cr_woken :: bool

record cu_data =
  cu_threads :: int
  cu_closing :: bool
  cu_closed :: bool
  cu_closeit :: bool
  cu_raddr :: octets
  cu_wait :: timeval
  cu_total :: timeval
  cu_error :: rpc_err
  cu_xid :: "32 word"
  cu_mcallc :: octets
  cu_mcalllen :: "32 word"
  cu_async :: bool
  cu_connect :: bool
  cu_connected :: bool
  cu_waitchan :: string
  cu_waitflag :: bool
  cu_cwnd :: int
  cu_sent :: int
  cu_cwnd_wait :: bool

text \<open>The socket's structure with the requests and the clients it leads to.\<close>

record cu_socket =
  cs_refs :: int
  cs_pending :: "addr list"
  cs_reqs :: "cu_request option list"
  cs_cus :: "cu_data option list"

abbreviation (input) CWNDSCALE :: int where "CWNDSCALE \<equiv> 256"
abbreviation (input) MAXCWND :: int where "MAXCWND \<equiv> 32 * CWNDSCALE"
abbreviation (input) EINTR :: nat where "EINTR \<equiv> 4"
abbreviation (input) EWOULDBLOCK :: nat where "EWOULDBLOCK \<equiv> 35"
abbreviation (input) ESHUTDOWN :: nat where "ESHUTDOWN \<equiv> 58"

definition cr_at :: "cu_socket \<Rightarrow> addr \<Rightarrow> cu_request option" where
  "cr_at cs a = deref (cs_reqs cs) a"

definition cr_put :: "addr \<Rightarrow> cu_request \<Rightarrow> cu_socket \<Rightarrow> cu_socket" where
  "cr_put a cr cs = cs\<lparr>cs_reqs := hstore a cr (cs_reqs cs)\<rparr>"

definition cu_at :: "cu_socket \<Rightarrow> addr \<Rightarrow> cu_data option" where
  "cu_at cs a = deref (cs_cus cs) a"

definition cu_put :: "addr \<Rightarrow> cu_data \<Rightarrow> cu_socket \<Rightarrow> cu_socket" where
  "cu_put a cu cs = cs\<lparr>cs_cus := hstore a cu (cs_cus cs)\<rparr>"

lemma cr_put_simps [simp]:
  "cu_at (cr_put a cr cs) = cu_at cs" "cs_pending (cr_put a cr cs) = cs_pending cs" "cs_refs (cr_put a cr cs) = cs_refs cs"
  "cs_cus (cr_put a cr cs) = cs_cus cs" "length (cs_reqs (cr_put a cr cs)) = length (cs_reqs cs)"
  by (simp_all add: cr_put_def cu_at_def fun_eq_iff)

lemma cu_put_simps [simp]:
  "cr_at (cu_put a cu cs) = cr_at cs" "cs_pending (cu_put a cu cs) = cs_pending cs" "cs_refs (cu_put a cu cs) = cs_refs cs"
  "cs_reqs (cu_put a cu cs) = cs_reqs cs" "length (cs_cus (cu_put a cu cs)) = length (cs_cus cs)"
  by (simp_all add: cu_put_def cr_at_def fun_eq_iff)

lemma cs_at_simps [simp]:
  "cr_at (cs\<lparr>cs_pending := p\<rparr>) = cr_at cs" "cu_at (cs\<lparr>cs_pending := p\<rparr>) = cu_at cs" "cu_at (cs\<lparr>cs_reqs := h\<rparr>) = cu_at cs"
  by (simp_all add: cr_at_def cu_at_def fun_eq_iff)

lemma cr_at_put: "cr_at cs a = Some x \<Longrightarrow> cr_at (cr_put a cr cs) b = (if b = a then Some cr else cr_at cs b)"
  by (auto simp: cr_at_def cr_put_def deref_hstore dest: deref_SomeD)

lemma cu_at_put: "cu_at cs a = Some x \<Longrightarrow> cu_at (cu_put a cu cs) b = (if b = a then Some cu else cu_at cs b)"
  by (auto simp: cu_at_def cu_put_def deref_hstore dest: deref_SomeD)

section \<open>Authenticators\<close>

text \<open>The table of operations an \<^verbatim>\<open>AUTH\<close> has, over the state \<open>'a\<close> of the authenticator.\<close>

record 'a auth_ops =
  ah_flavor :: "'a \<Rightarrow> 32 word"
  ah_marshal :: "'a \<Rightarrow> 32 word \<Rightarrow> xdrmbuf XDR \<Rightarrow> mbuf list \<Rightarrow> (bool \<times> xdrmbuf XDR) option"
  ah_validate :: "'a \<Rightarrow> 32 word \<Rightarrow> opaque_auth option \<Rightarrow> mbuf list \<Rightarrow> (bool \<times> mbuf list \<times> 'a) option"
  ah_refresh :: "'a \<Rightarrow> (bool \<times> 'a) option"

record authnone_private =
  mclient :: octets
  mcnt :: "32 word"

text \<open>\<^verbatim>\<open>auth_none.c\<close>: the encoding of two empty authenticators is made once, in a static structure.\<close>

definition authnone_init :: "32 word \<Rightarrow> authnone_private \<Rightarrow> authnone_private option" where
  "authnone_init addr ap =
     do { let xdrs = xdrmem_create addr (mclient ap) 20 XDR_ENCODE;
          (_, _, xdrs) \<leftarrow> xdr_opaque_auth xdrs null_auth;
          (_, _, xdrs) \<leftarrow> xdr_opaque_auth xdrs null_auth;
          pos \<leftarrow> XDR_GETPOS xdrs;
          Some \<lparr>mclient = xm_mem (x_priv xdrs), mcnt = pos\<rparr> }"

definition authnone_marshal :: "authnone_private \<Rightarrow> xdrmbuf XDR \<Rightarrow> mbuf list \<Rightarrow> (bool \<times> xdrmbuf XDR) option" where
  "authnone_marshal ap xdrs args =
     do { bs \<leftarrow> blk_read (mclient ap) (unat (mcnt ap));
          (b, xdrs) \<leftarrow> XDR_PUTBYTES xdrs bs;
          if \<not> b then Some (False, xdrs)
          else do { xdrs \<leftarrow> xdrmbuf_append xdrs args; Some (True, xdrs) } }"

definition authnone_ops :: "authnone_private auth_ops" where
  "authnone_ops =
     \<lparr>ah_flavor = \<lambda>_. AUTH_NULL,
      ah_marshal = \<lambda>ap _ xdrs args. authnone_marshal ap xdrs args,
      ah_validate = \<lambda>ap _ _ m. Some (True, m, ap),
      ah_refresh = \<lambda>ap. Some (False, ap)\<rparr>"

text \<open>
  \<^verbatim>\<open>auth_unix.c\<close>: \<open>vaddr\<close>, \<open>addr\<close> and \<open>oaddr\<close> are the addresses of the verifier, of the authenticator's buffer and of its
  original credential; the host name and the time of day are those of the moment, and \<open>xcr\<close> and \<open>g\<close> uninitialised.
\<close>

definition authunix_ops :: "32 word \<Rightarrow> 32 word \<Rightarrow> 32 word \<Rightarrow> octets \<Rightarrow> 32 word \<Rightarrow> xucred \<Rightarrow> 32 word \<Rightarrow> audata auth_ops" where
  "authunix_ops vaddr addr oaddr hostname time xcr g =
     \<lparr>ah_flavor = \<lambda>au. oa_flavor (ah_cred au),
      ah_marshal = \<lambda>au _ xdrs args. authunix_marshal au xdrs args,
      ah_validate = \<lambda>au _ verf m. do { (b, au) \<leftarrow> authunix_validate vaddr addr verf au; Some (b, m, au) },
      ah_refresh = \<lambda>au. do { (b, _, au) \<leftarrow> authunix_refresh hostname time oaddr addr au xcr g; Some (b, au) }\<rparr>"

section \<open>Calls\<close>

text \<open>Where a thread is in \<^verbatim>\<open>clnt_dg_call\<close>, and its local variables. \<open>cc_ext\<close> is \<^verbatim>\<open>ext->rc_err\<close>, if there is an \<^verbatim>\<open>ext\<close>.\<close>

datatype clnt_pc =
    At_send | At_window "mbuf list" | At_sosend | At_wait | At_sleep | At_reply | At_done clnt_stat "mbuf list option"

record 'a clnt_call =
  cc_pc :: clnt_pc
  cc_cl :: addr
  cc_cr :: addr
  cc_auth :: 'a
  cc_proc :: "32 word"
  cc_args :: "mbuf list option"
  cc_ext :: "rpc_err option"
  cc_rt :: "rpc_timers option"
  cc_xid :: "32 word"
  cc_retrans :: nat
  cc_nrefreshes :: nat
  cc_timeout :: int
  cc_retransmit_time :: int
  cc_next_sendtime :: int
  cc_starttime :: int
  cc_time_waited :: int

text \<open>
  What a step depends on: the clock's parameters, the mbuf allocator and the mbuf of \<^verbatim>\<open>MGETHDR\<close>, the uninitialised
  words, request and message.
\<close>

record clnt_env =
  ce_hz :: int
  ce_tick :: int
  ce_zone :: mbuf_zone
  ce_junk :: octets
  ce_mreq :: mbuf
  ce_msg :: "(xdrmbuf, unit) rpc_msg"
  ce_stale :: cu_request

definition set_err :: "(rpc_err \<Rightarrow> rpc_err) \<Rightarrow> 'a clnt_call \<Rightarrow> cu_socket \<Rightarrow> ('a clnt_call \<times> cu_socket) option" where
  "set_err f cc cs =
     (case cc_ext cc of
        Some err \<Rightarrow> Some (cc\<lparr>cc_ext := Some (f err)\<rparr>, cs)
      | None \<Rightarrow> do { cu \<leftarrow> cu_at cs (cc_cl cc); Some (cc, cu_put (cc_cl cc) (cu\<lparr>cu_error := f (cu_error cu)\<rparr>) cs) })"

definition get_err :: "'a clnt_call \<Rightarrow> cu_socket \<Rightarrow> rpc_err option" where
  "get_err cc cs = (case cc_ext cc of Some err \<Rightarrow> Some err | None \<Rightarrow> map_option cu_error (cu_at cs (cc_cl cc)))"

text \<open>The way out.\<close>

definition clnt_out :: "'a auth_ops \<Rightarrow> clnt_stat \<Rightarrow> mbuf list option \<Rightarrow> 'a clnt_call \<Rightarrow> cu_socket \<Rightarrow> ('a clnt_call \<times> cu_socket) option" where
  "clnt_out ops stat results cc cs =
     do { cu \<leftarrow> cu_at cs (cc_cl cc);
          let cs = cu_put (cc_cl cc) (cu\<lparr>cu_threads := cu_threads cu - 1\<rparr>) cs;
          auth \<leftarrow> (if stat \<noteq> RPC_SUCCESS
                   then do { (_, _, auth) \<leftarrow> ah_validate ops (cc_auth cc) (cc_xid cc) None []; Some auth } else Some (cc_auth cc));
          Some (cc\<lparr>cc_pc := At_done stat results, cc_auth := auth\<rparr>, cs\<lparr>cs_reqs := hfree (cc_cr cc) (cs_reqs cs)\<rparr>) }"

definition clnt_fail :: "'a auth_ops \<Rightarrow> nat option \<Rightarrow> clnt_stat \<Rightarrow> 'a clnt_call \<Rightarrow> cu_socket \<Rightarrow> ('a clnt_call \<times> cu_socket) option" where
  "clnt_fail ops errno stat cc cs =
     do { (cc, cs) \<leftarrow> set_err (\<lambda>err. (case errno of Some n \<Rightarrow> err\<lparr>re_errno := n\<rparr> | None \<Rightarrow> err)\<lparr>re_status := stat\<rparr>) cc cs;
          clnt_out ops stat None cc cs }"

definition clnt_call_again :: "'a clnt_call \<Rightarrow> cu_socket \<Rightarrow> ('a clnt_call \<times> cu_socket) option" where
  "clnt_call_again cc cs =
     do { cu \<leftarrow> cu_at cs (cc_cl cc);
          let xid = cu_xid cu + 1;
          Some (cc\<lparr>cc_xid := xid, cc_pc := At_send\<rparr>, cu_put (cc_cl cc) (cu\<lparr>cu_xid := xid\<rparr>) cs) }"

text \<open>
  The beginning of \<^verbatim>\<open>clnt_dg_call\<close>. \<open>now\<close> is the value of \<^verbatim>\<open>ticks\<close>, \<open>conn\<close> what \<^verbatim>\<open>soconnect\<close> returns if it is called.
\<close>

definition clnt_start ::
  "clnt_env \<Rightarrow> 'a auth_ops \<Rightarrow> int \<Rightarrow> nat \<Rightarrow> addr \<Rightarrow> 'a \<Rightarrow> rpc_err option \<Rightarrow> rpc_timers option \<Rightarrow> 32 word \<Rightarrow> mbuf list option \<Rightarrow>
   timeval \<Rightarrow> cu_socket \<Rightarrow> (clnt_stat + 'a clnt_call \<times> cu_socket) option" where
  "clnt_start e ops now conn cl auth ext rt proc args utimeout cs =
     do { cu \<leftarrow> cu_at cs cl;
          if cu_closing cu \<or> cu_closed cu then Some (Inl RPC_CANTSEND)
          else do {
            let cr = length (cs_reqs cs);
            let cs = cu_put cl (cu\<lparr>cu_threads := cu_threads cu + 1\<rparr>)
                       (cs\<lparr>cs_reqs := halloc ((ce_stale e)\<lparr>cr_client := cl, cr_mrep := None, cr_error := 0\<rparr>) (cs_reqs cs)\<rparr>);
            let tvp = (if tv_usec (cu_total cu) = -1 then utimeout else cu_total cu);
            let timeout = (if tv_sec tvp \<noteq> 0 \<or> tv_usec tvp \<noteq> 0 then tvtohz (ce_hz e) (ce_tick e) tvp else 0);
            let rt = map_option (\<lambda>rt. if rt_rtxcur rt = 0 then rt\<lparr>rt_rtxcur := tvtohz (ce_hz e) (ce_tick e) (cu_wait cu)\<rparr> else rt) rt;
            let rtx = (case rt of Some rt \<Rightarrow> rt_rtxcur rt | None \<Rightarrow> tvtohz (ce_hz e) (ce_tick e) (cu_wait cu));
            let cc = \<lparr>cc_pc = At_send, cc_cl = cl, cc_cr = cr, cc_auth = auth, cc_proc = proc, cc_args = args, cc_ext = ext, cc_rt = rt,
              cc_xid = 0, cc_retrans = 0, cc_nrefreshes = 2, cc_timeout = timeout, cc_retransmit_time = rtx, cc_next_sendtime = rtx,
              cc_starttime = now, cc_time_waited = 0\<rparr>;
            if cu_connect cu \<and> \<not> cu_connected cu \<and> conn \<noteq> 0
            then do { r \<leftarrow> clnt_fail ops (Some conn) RPC_CANTSEND cc cs; Some (Inr r) }
            else do {
              cu \<leftarrow> cu_at cs cl;
              r \<leftarrow> clnt_call_again cc (cu_put cl (cu\<lparr>cu_connected := cu_connected cu \<or> cu_connect cu\<rparr>) cs);
              Some (Inr r) } } }"

text \<open>
  The request is made without the lock. An asynchronous call without arguments goes to sleep with a lock it does not
  hold: a fault.
\<close>

definition clnt_send :: "clnt_env \<Rightarrow> 'a auth_ops \<Rightarrow> 'a clnt_call \<Rightarrow> cu_socket \<Rightarrow> ('a clnt_call \<times> cu_socket) option" where
  "clnt_send e ops cc cs =
     do { cu \<leftarrow> cu_at cs (cc_cl cc);
          assert_opt (\<not> (cu_async cu \<and> cc_args cc = None));
          r \<leftarrow> clnt_request (ce_zone e) (ce_junk e) (ce_mreq e) (cu_mcallc cu) (cu_mcalllen cu) (cc_xid cc) (cc_proc cc)
                 (ah_marshal ops (cc_auth cc) (cc_xid cc)) (case cc_args cc of Some m \<Rightarrow> m | None \<Rightarrow> []);
          case r of
            Inl stat \<Rightarrow> clnt_fail ops None stat cc cs
          | Inr mreq \<Rightarrow>
              do { cr \<leftarrow> cr_at cs (cc_cr cc);
                   Some (cc\<lparr>cc_pc := At_window mreq\<rparr>, cr_put (cc_cr cc) (cr\<lparr>cr_xid := cc_xid cc\<rparr>) cs) } }"

text \<open>
  A place in the congestion window: \<open>err\<close> is what the sleep returns if there is none. The second result is what is sent.
\<close>

definition clnt_window ::
  "'a auth_ops \<Rightarrow> nat \<Rightarrow> mbuf list \<Rightarrow> 'a clnt_call \<Rightarrow> cu_socket \<Rightarrow> (('a clnt_call \<times> cu_socket) \<times> mbuf list option) option" where
  "clnt_window ops err mreq cc cs =
     do { cu \<leftarrow> cu_at cs (cc_cl cc);
          if cu_sent cu \<ge> cu_cwnd cu then
            do { let cs = cu_put (cc_cl cc) (cu\<lparr>cu_cwnd_wait := True\<rparr>) cs;
                 if err \<noteq> 0 then do { r \<leftarrow> clnt_fail ops (Some err) RPC_CANTSEND cc cs; Some (r, None) } else Some ((cc, cs), None) }
          else Some ((cc\<lparr>cc_pc := At_sosend\<rparr>,
                      (cu_put (cc_cl cc) (cu\<lparr>cu_sent := cu_sent cu + CWNDSCALE\<rparr>) cs)\<lparr>cs_pending := cs_pending cs @ [cc_cr cc]\<rparr>),
                     Some mreq) }"

text \<open>The request leaves the list and the window; a request that is not on the list is a fault.\<close>

definition clnt_unlink :: "'a clnt_call \<Rightarrow> cu_socket \<Rightarrow> cu_socket option" where
  "clnt_unlink cc cs =
     do { assert_opt (cc_cr cc \<in> set (cs_pending cs));
          cu \<leftarrow> cu_at cs (cc_cl cc);
          Some ((cu_put (cc_cl cc) (cu\<lparr>cu_sent := cu_sent cu - CWNDSCALE, cu_cwnd_wait := False\<rparr>) cs)
            \<lparr>cs_pending := remove1 (cc_cr cc) (cs_pending cs)\<rparr>) }"

text \<open>After \<^verbatim>\<open>sosend\<close>, which returns \<open>err\<close>.\<close>

definition clnt_sent :: "'a auth_ops \<Rightarrow> nat \<Rightarrow> 'a clnt_call \<Rightarrow> cu_socket \<Rightarrow> ('a clnt_call \<times> cu_socket) option" where
  "clnt_sent ops err cc cs =
     do { cr \<leftarrow> cr_at cs (cc_cr cc);
          if err \<noteq> 0 then do { cs \<leftarrow> clnt_unlink cc cs; clnt_fail ops (Some err) RPC_CANTSEND cc cs }
          else if cr_error cr \<noteq> 0 then do { cs \<leftarrow> clnt_unlink cc cs; clnt_fail ops (Some (cr_error cr)) RPC_CANTRECV cc cs }
          else if cr_mrep cr \<noteq> None then do { cs \<leftarrow> clnt_unlink cc cs; Some (cc\<lparr>cc_pc := At_reply\<rparr>, cs) }
          else if cc_timeout cc = 0 then do { cs \<leftarrow> clnt_unlink cc cs; clnt_fail ops None RPC_TIMEDOUT cc cs }
          else Some (cc\<lparr>cc_pc := At_wait\<rparr>, cs) }"

section \<open>Waiting for the reply\<close>

definition cwnd_grow :: "int \<Rightarrow> int" where
  "cwnd_grow w = (let w = w + (CWNDSCALE * CWNDSCALE + w div 2) div w in if w > MAXCWND then MAXCWND else w)"

definition cwnd_shrink :: "int \<Rightarrow> int" where
  "cwnd_shrink w = (let w = w div 2 in if w < CWNDSCALE then CWNDSCALE else w)"

text \<open>
  What follows the sleep, with its result \<open>err\<close>. \<^verbatim>\<open>RPC_MAX_BACKOFF\<close> is 30 seconds. The calls of \<^verbatim>\<open>rc_feedback\<close> are left out.
\<close>

definition clnt_woken :: "clnt_env \<Rightarrow> 'a auth_ops \<Rightarrow> int \<Rightarrow> nat \<Rightarrow> 'a clnt_call \<Rightarrow> cu_socket \<Rightarrow> ('a clnt_call \<times> cu_socket) option" where
  "clnt_woken e ops now err cc cs =
     do { cs \<leftarrow> clnt_unlink cc cs;
          cr \<leftarrow> cr_at cs (cc_cr cc);
          cu \<leftarrow> cu_at cs (cc_cl cc);
          if err = 0 then
            (if cr_error cr \<noteq> 0 then clnt_fail ops (Some (cr_error cr)) RPC_CANTRECV cc cs
             else Some (cc\<lparr>cc_pc := At_reply, cc_rt := map_option (rtt_update (now - cc_starttime cc + 1)) (cc_rt cc)\<rparr>,
                        cu_put (cc_cl cc) (cu\<lparr>cu_cwnd := cwnd_grow (cu_cwnd cu)\<rparr>) cs))
          else if err \<noteq> EWOULDBLOCK then clnt_fail ops (Some err) (if err = EINTR then RPC_INTR else RPC_CANTRECV) cc cs
          else do {
            let cc = cc\<lparr>cc_time_waited := now - cc_starttime cc\<rparr>;
            if cc_time_waited cc > cc_timeout cc then clnt_fail ops (Some EWOULDBLOCK) RPC_TIMEDOUT cc cs
            else if cc_time_waited cc \<ge> cc_next_sendtime cc then
              do { let cs = cu_put (cc_cl cc) (cu\<lparr>cu_cwnd := cwnd_shrink (cu_cwnd cu)\<rparr>) cs;
                   if cu_closing cu \<or> cu_closed cu then clnt_fail ops (Some ESHUTDOWN) RPC_CANTRECV cc cs
                   else do {
                     let rtx = (if cc_retransmit_time cc < 30 * ce_hz e then 2 * cc_retransmit_time cc else cc_retransmit_time cc);
                     Some (cc\<lparr>cc_retrans := cc_retrans cc + 1, cc_retransmit_time := rtx,
                              cc_next_sendtime := cc_next_sendtime cc + rtx, cc_pc := At_send\<rparr>, cs) } }
            else Some (cc\<lparr>cc_pc := At_wait\<rparr>, cs\<lparr>cs_pending := cs_pending cs @ [cc_cr cc]\<rparr>) } }"

text \<open>A turn of the loop up to the sleep.\<close>

definition clnt_wait :: "clnt_env \<Rightarrow> 'a auth_ops \<Rightarrow> int \<Rightarrow> 'a clnt_call \<Rightarrow> cu_socket \<Rightarrow> ('a clnt_call \<times> cu_socket) option" where
  "clnt_wait e ops now cc cs =
     do { cu \<leftarrow> cu_at cs (cc_cl cc);
          let tv = (if cc_next_sendtime cc < cc_timeout cc then cc_next_sendtime cc else cc_timeout cc) - cc_time_waited cc;
          if tv > 0 then
            (if cu_closing cu \<or> cu_closed cu then clnt_woken e ops now 0 cc cs
             else do { cr \<leftarrow> cr_at cs (cc_cr cc);
                       Some (cc\<lparr>cc_pc := At_sleep\<rparr>, cr_put (cc_cr cc) (cr\<lparr>cr_woken := False\<rparr>) cs) })
          else clnt_woken e ops now EWOULDBLOCK cc cs }"

section \<open>The reply\<close>

definition clnt_reply0 :: "clnt_env \<Rightarrow> cu_request \<Rightarrow> (xdrmbuf, unit) rpc_msg" where
  "clnt_reply0 e cr =
     (ce_msg e)\<lparr>rm_reply := (rm_reply (ce_msg e))\<lparr>rp_acpt := (rp_acpt (rm_reply (ce_msg e)))\<lparr>
       ar_verf := \<lparr>oa_flavor = AUTH_NULL, oa_base = Some (cr_verf cr), oa_length = 0\<rparr>,
       ar_where := (), ar_proc := Some xdr_void\<rparr>\<rparr>\<rparr>"

text \<open>
  \<^verbatim>\<open>got_reply\<close>: the reply is decoded without the lock. An error in it goes to \<^verbatim>\<open>cu->cu_error\<close>, and what is tested then is
  \<^verbatim>\<open>errp->re_status\<close>.
\<close>

definition clnt_got_reply :: "clnt_env \<Rightarrow> 'a auth_ops \<Rightarrow> 'a clnt_call \<Rightarrow> cu_socket \<Rightarrow> ('a clnt_call \<times> cu_socket) option" where
  "clnt_got_reply e ops cc cs =
     do { cr \<leftarrow> cr_at cs (cc_cr cc);
          m \<leftarrow> cr_mrep cr;
          xdrs \<leftarrow> xdrmbuf_create (ce_zone e) (ce_junk e) m XDR_DECODE;
          (ok, msg, xdrs) \<leftarrow> xdr_replymsg xdrs (clnt_reply0 e cr);
          let cs = cr_put (cc_cr cc) (cr\<lparr>cr_mrep := None\<rparr>) cs;
          if \<not> ok then clnt_fail ops None RPC_CANTDECODERES cc cs
          else do {
            (stat, cc, cs) \<leftarrow>
              (if rp_stat (rm_reply msg) = MSG_ACCEPTED \<and> ar_stat (rp_acpt (rm_reply msg)) = SUCCESS
               then do { (cc, cs) \<leftarrow> set_err (\<lambda>err. err\<lparr>re_status := RPC_SUCCESS\<rparr>) cc cs; Some (RPC_SUCCESS, cc, cs) }
               else do { cu \<leftarrow> cu_at cs (cc_cl cc);
                         let (stat, err) = seterr_reply msg (cu_error cu);
                         Some (stat, cc, cu_put (cc_cl cc) (cu\<lparr>cu_error := err\<rparr>) cs) });
            err \<leftarrow> get_err cc cs;
            if re_status err = RPC_SUCCESS then
              do { (results, _) \<leftarrow> xdrmbuf_getall (ce_zone e) xdrs;
                   (b, results, auth) \<leftarrow> ah_validate ops (cc_auth cc) (cc_xid cc) (Some (ar_verf (rp_acpt (rm_reply msg)))) results;
                   let cc = cc\<lparr>cc_auth := auth\<rparr>;
                   if b then clnt_out ops stat (Some results) cc cs
                   else do {
                     (cc, cs) \<leftarrow> set_err (\<lambda>err. err\<lparr>re_status := RPC_AUTHERROR, re_why := 6\<rparr>) cc cs;
                     if cc_retrans cc \<noteq> 0 \<and> ah_flavor ops (cc_auth cc) = RPCSEC_GSS
                     then Some (cc\<lparr>cc_pc := At_wait\<rparr>, cs\<lparr>cs_pending := cs_pending cs @ [cc_cr cc]\<rparr>)
                     else clnt_out ops RPC_AUTHERROR None cc cs } }
            else if stat = RPC_AUTHERROR \<and> cc_nrefreshes cc > 0 then
              do { (b, auth) \<leftarrow> ah_refresh ops (cc_auth cc);
                   let cc = cc\<lparr>cc_auth := auth\<rparr>;
                   if b then clnt_call_again (cc\<lparr>cc_nrefreshes := cc_nrefreshes cc - 1\<rparr>) cs
                   else clnt_out ops stat None cc cs }
            else clnt_out ops stat None cc cs } }"

section \<open>The network and the owner of the client\<close>

fun cr_match :: "32 word \<Rightarrow> cu_request option list \<Rightarrow> addr list \<Rightarrow> addr option option" where
  "cr_match xid h [] = Some None"
| "cr_match xid h (a # as) = do { cr \<leftarrow> deref h a; if cr_xid cr = xid then Some (Some a) else cr_match xid h as }"

definition reply_xid :: "mbuf list \<Rightarrow> 32 word" where
  "reply_xid m = ntohl (load32 (take 4 (mchain m)))"

text \<open>
  \<^verbatim>\<open>clnt_dg_soupcall\<close> for one message \<open>m\<close>, of which \<^verbatim>\<open>m_pullup\<close> has put the first four octets together; it drops a message that
  has fewer.
\<close>

definition clnt_dg_soupcall :: "mbuf list \<Rightarrow> cu_socket \<Rightarrow> cu_socket option" where
  "clnt_dg_soupcall m cs =
     (if mb_length m < 4 then Some cs
      else do { r \<leftarrow> cr_match (reply_xid m) (cs_reqs cs) (cs_pending cs);
                case r of
                  None \<Rightarrow> Some cs
                | Some a \<Rightarrow>
                    do { cr \<leftarrow> cr_at cs a;
                         Some (cr_put a (cr\<lparr>cr_xid := 0, cr_mrep := Some m, cr_error := 0, cr_woken := True\<rparr>) cs) } })"

text \<open>The requests that a test selects are given up with an error.\<close>

fun cr_abort :: "nat \<Rightarrow> (cu_request \<Rightarrow> bool) \<Rightarrow> addr list \<Rightarrow> cu_socket \<Rightarrow> cu_socket option" where
  "cr_abort err P [] cs = Some cs"
| "cr_abort err P (a # as) cs =
     do { cr \<leftarrow> cr_at cs a;
          cr_abort err P as (if P cr then cr_put a (cr\<lparr>cr_xid := 0, cr_error := err, cr_woken := True\<rparr>) cs else cs) }"

definition clnt_soerror :: "nat \<Rightarrow> cu_socket \<Rightarrow> cu_socket option" where
  "clnt_soerror err cs = cr_abort err (\<lambda>_. True) (cs_pending cs) cs"

text \<open>
  \<^verbatim>\<open>clnt_dg_create\<close>: \<open>xid\<close> is made from the time and the process, \<open>addr\<close> and \<open>mcallc\<close> are the address and the bytes of the new
  buffer. A new client on the socket; \<open>None\<close> inside is \<^verbatim>\<open>NULL\<close>.
\<close>

definition clnt_dg_create ::
  "32 word \<Rightarrow> 32 word \<Rightarrow> octets \<Rightarrow> rpc_err \<Rightarrow> (xdrmem, unit) rpc_msg \<Rightarrow> octets \<Rightarrow> 32 word \<Rightarrow> 32 word \<Rightarrow> cu_socket \<Rightarrow>
   (addr option \<times> cu_socket) option" where
  "clnt_dg_create xid addr mcallc err call_msg svcaddr program version cs =
     do { r \<leftarrow> clnt_header addr mcallc
            (call_msg\<lparr>rm_xid := xid, rm_call := (rm_call call_msg)\<lparr>cb_prog := program, cb_vers := version\<rparr>\<rparr>);
          case r of
            Inl _ \<Rightarrow> Some (None, cs)
          | Inr (mcallc, len) \<Rightarrow>
              Some (Some (length (cs_cus cs)),
                cs\<lparr>cs_refs := cs_refs cs + 1,
                   cs_cus := halloc
                     \<lparr>cu_threads = 0, cu_closing = False, cu_closed = False, cu_closeit = False, cu_raddr = svcaddr,
                      cu_wait = \<lparr>tv_sec = 3, tv_usec = 0\<rparr>, cu_total = \<lparr>tv_sec = -1, tv_usec = -1\<rparr>, cu_error = err, cu_xid = xid,
                      cu_mcallc = mcallc, cu_mcalllen = len, cu_async = False, cu_connect = False, cu_connected = False,
                      cu_waitchan = ''rpcrecv'', cu_waitflag = False, cu_cwnd = MAXCWND div 2, cu_sent = 0, cu_cwnd_wait = False\<rparr>
                     (cs_cus cs)\<rparr>) }"

text \<open>
  \<^verbatim>\<open>clnt_dg_close\<close> up to the wait for the threads, and after it. The first result says whether this is the call that
  closes.
\<close>

definition clnt_close_begin :: "addr \<Rightarrow> cu_socket \<Rightarrow> (bool \<times> cu_socket) option" where
  "clnt_close_begin cl cs =
     do { cu \<leftarrow> cu_at cs cl;
          if cu_closed cu \<or> cu_closing cu then Some (False, cs)
          else do { cs \<leftarrow> cr_abort ESHUTDOWN (\<lambda>cr. cr_client cr = cl) (cs_pending cs) (cu_put cl (cu\<lparr>cu_closing := True\<rparr>) cs);
                    Some (True, cs) } }"

definition clnt_close_end :: "addr \<Rightarrow> cu_socket \<Rightarrow> cu_socket option" where
  "clnt_close_end cl cs =
     do { cu \<leftarrow> cu_at cs cl;
          Some (if cu_threads cu = 0 then cu_put cl (cu\<lparr>cu_closing := False, cu_closed := True\<rparr>) cs else cs) }"

text \<open>What is left of \<^verbatim>\<open>clnt_dg_destroy\<close> once the client is closed; whether the socket's structure goes with it.\<close>

definition clnt_dg_destroy :: "addr \<Rightarrow> cu_socket \<Rightarrow> (bool \<times> cu_socket) option" where
  "clnt_dg_destroy cl cs =
     do { _ \<leftarrow> cu_at cs cl;
          Some (cs_refs cs - 1 = 0, cs\<lparr>cs_refs := cs_refs cs - 1, cs_cus := hfree cl (cs_cus cs)\<rparr>) }"

definition clnt_dg_geterr :: "addr \<Rightarrow> cu_socket \<Rightarrow> rpc_err option" where
  "clnt_dg_geterr cl cs = map_option cu_error (cu_at cs cl)"

section \<open>Control\<close>

text \<open>
  The requests with what \<^verbatim>\<open>info\<close> leads to; \<open>CL_other\<close> is any other number. Only the first two may come with a null \<^verbatim>\<open>info\<close>,
  which \<open>null\<close> says.
\<close>

datatype clnt_ctl =
    CLSET_FD_CLOSE | CLSET_FD_NCLOSE | CLSET_TIMEOUT timeval | CLGET_TIMEOUT | CLSET_RETRY_TIMEOUT timeval | CLGET_RETRY_TIMEOUT | CLGET_SVC_ADDR | CLSET_SVC_ADDR octets
  | CLGET_XID | CLSET_XID "32 word" | CLGET_VERS | CLSET_VERS "32 word" | CLGET_PROG | CLSET_PROG "32 word" | CLSET_ASYNC bool
  | CLSET_CONNECT bool | CLSET_WAITCHAN string | CLGET_WAITCHAN | CLSET_INTERRUPTIBLE bool | CLGET_INTERRUPTIBLE | CL_other

datatype clnt_val = No_val | Time_val timeval | Addr_val octets | Word_val "32 word" | Chan_val string | Bool_val bool

definition mcallc_get :: "nat \<Rightarrow> cu_data \<Rightarrow> 32 word option" where
  "mcallc_get n cu = do { bs \<leftarrow> area_read (n * 4) 4 (cu_mcallc cu); Some (ntohl (load32 bs)) }"

definition mcallc_set :: "nat \<Rightarrow> 32 word \<Rightarrow> cu_data \<Rightarrow> cu_data option" where
  "mcallc_set n v cu = do { m \<leftarrow> area_write (n * 4) (store32 (ntohl v)) (cu_mcallc cu); Some (cu\<lparr>cu_mcallc := m\<rparr>) }"

fun cu_control :: "clnt_ctl \<Rightarrow> cu_data \<Rightarrow> (bool \<times> clnt_val \<times> cu_data) option" where
  "cu_control CLSET_FD_CLOSE cu = Some (True, No_val, cu\<lparr>cu_closeit := True\<rparr>)"
| "cu_control CLSET_FD_NCLOSE cu = Some (True, No_val, cu\<lparr>cu_closeit := False\<rparr>)"
| "cu_control (CLSET_TIMEOUT t) cu = Some (if time_not_ok t then (False, No_val, cu) else (True, No_val, cu\<lparr>cu_total := t\<rparr>))"
| "cu_control CLGET_TIMEOUT cu = Some (True, Time_val (cu_total cu), cu)"
| "cu_control (CLSET_RETRY_TIMEOUT t) cu = Some (if time_not_ok t then (False, No_val, cu) else (True, No_val, cu\<lparr>cu_wait := t\<rparr>))"
| "cu_control CLGET_RETRY_TIMEOUT cu = Some (True, Time_val (cu_wait cu), cu)"
| "cu_control CLGET_SVC_ADDR cu = Some (True, Addr_val (cu_raddr cu), cu)"
| "cu_control (CLSET_SVC_ADDR a) cu = Some (True, No_val, cu\<lparr>cu_raddr := a\<rparr>)"
| "cu_control CLGET_XID cu = Some (True, Word_val (cu_xid cu), cu)"
| "cu_control (CLSET_XID x) cu = Some (True, No_val, cu\<lparr>cu_xid := x - 1\<rparr>)"
| "cu_control CLGET_VERS cu = do { v \<leftarrow> mcallc_get 4 cu; Some (True, Word_val v, cu) }"
| "cu_control (CLSET_VERS v) cu = do { cu \<leftarrow> mcallc_set 4 v cu; Some (True, No_val, cu) }"
| "cu_control CLGET_PROG cu = do { v \<leftarrow> mcallc_get 3 cu; Some (True, Word_val v, cu) }"
| "cu_control (CLSET_PROG v) cu = do { cu \<leftarrow> mcallc_set 3 v cu; Some (True, No_val, cu) }"
| "cu_control (CLSET_ASYNC b) cu = Some (True, No_val, cu\<lparr>cu_async := b\<rparr>)"
| "cu_control (CLSET_CONNECT b) cu = Some (True, No_val, cu\<lparr>cu_connect := b\<rparr>)"
| "cu_control (CLSET_WAITCHAN c) cu = Some (True, No_val, cu\<lparr>cu_waitchan := c\<rparr>)"
| "cu_control CLGET_WAITCHAN cu = Some (True, Chan_val (cu_waitchan cu), cu)"
| "cu_control (CLSET_INTERRUPTIBLE b) cu = Some (True, No_val, cu\<lparr>cu_waitflag := b\<rparr>)"
| "cu_control CLGET_INTERRUPTIBLE cu = Some (True, Bool_val (cu_waitflag cu), cu)"
| "cu_control CL_other cu = Some (False, No_val, cu)"

definition clnt_dg_control :: "bool \<Rightarrow> clnt_ctl \<Rightarrow> addr \<Rightarrow> cu_socket \<Rightarrow> (bool \<times> clnt_val \<times> cu_socket) option" where
  "clnt_dg_control null request cl cs =
     do { cu \<leftarrow> cu_at cs cl;
          if null \<and> request \<notin> {CLSET_FD_CLOSE, CLSET_FD_NCLOSE} then Some (False, No_val, cs)
          else do { (b, v, cu) \<leftarrow> cu_control request cu; Some (b, v, cu_put cl cu cs) } }"

end
