(* ===== verification/RpcCodec.thy ===== *)
theory RpcCodec
  imports RpcMsg
begin

text \<open>
  The routines of \<^theory_text>\<open>RpcMsg\<close> over every stream that keeps the interfaces of \<^theory_text>\<open>XdrStream\<close>: what a
  message is on the wire, that the routines write it, in place or not, and that they read it back.
\<close>

section \<open>Messages on the wire\<close>

text \<open>
  An authenticator that the protocol can carry, the octets that count in it, and its representations: the code
  fills the last unit up with zeros or, in place, leaves in it what the buffer held.
\<close>

definition auth_wf :: "opaque_auth \<Rightarrow> bool" where
  "auth_wf oa \<longleftrightarrow> oa_length oa \<le> MAX_AUTH_BYTES \<and>
     (case oa_base oa of None \<Rightarrow> oa_length oa = 0 | Some b \<Rightarrow> unat (oa_length oa) \<le> length b)"

definition auth_body :: "opaque_auth \<Rightarrow> octets" where
  "auth_body oa = (case oa_base oa of None \<Rightarrow> [] | Some b \<Rightarrow> take (unat (oa_length oa)) b)"

definition auth_wire :: "opaque_auth \<Rightarrow> octets \<Rightarrow> octets" where
  "auth_wire oa pad = xdr_unit (oa_flavor oa) @ xdr_unit (oa_length oa) @ auth_body oa @ pad"

definition auth_pad :: "opaque_auth \<Rightarrow> nat" where
  "auth_pad oa = xdr_pad (unat (oa_length oa))"

definition call_wire :: "('s, 'r) rpc_msg \<Rightarrow> octets \<Rightarrow> octets \<Rightarrow> octets" where
  "call_wire m pc pv =
     xdr_unit (rm_xid m) @ xdr_unit CALL @ xdr_unit RPC_MSG_VERSION @ xdr_unit (cb_prog (rm_call m)) @
     xdr_unit (cb_vers (rm_call m)) @ xdr_unit (cb_proc (rm_call m)) @
     auth_wire (cb_cred (rm_call m)) pc @ auth_wire (cb_verf (rm_call m)) pv"

definition call_wf :: "('s, 'r) rpc_msg \<Rightarrow> bool" where
  "call_wf m \<longleftrightarrow> rm_direction m = CALL \<and> cb_rpcvers (rm_call m) = RPC_MSG_VERSION \<and>
     auth_wf (cb_cred (rm_call m)) \<and> auth_wf (cb_verf (rm_call m))"

lemma length_auth_body: "auth_wf oa \<Longrightarrow> length (auth_body oa) = unat (oa_length oa)"
  by (auto simp: auth_wf_def auth_body_def split: option.splits)

lemma auth_wf_small: "auth_wf oa \<Longrightarrow> unat (oa_length oa) \<le> 400"
  by (simp add: auth_wf_def word_le_nat_alt)

definition call_size :: "('s, 'r) rpc_msg \<Rightarrow> nat" where
  "call_size m = 40 + unat (oa_length (cb_cred (rm_call m))) + auth_pad (cb_cred (rm_call m)) +
     unat (oa_length (cb_verf (rm_call m))) + auth_pad (cb_verf (rm_call m))"

lemma length_call_wire:
  "call_wf m \<Longrightarrow> length pc = auth_pad (cb_cred (rm_call m)) \<Longrightarrow> length pv = auth_pad (cb_verf (rm_call m)) \<Longrightarrow>
   length (call_wire m pc pv) = call_size m"
  by (simp add: call_wire_def auth_wire_def call_wf_def length_auth_body call_size_def)

lemma xdr_pad_le: "xdr_pad n \<le> 3"
  by (auto simp: xdr_pad_def)

lemma call_size_unat:
  assumes "call_wf m"
  shows "unat (8 * 4 + RNDUP (oa_length (cb_cred (rm_call m))) + 2 * 4 + RNDUP (oa_length (cb_verf (rm_call m)))) = call_size m"
proof -
  let ?c = "oa_length (cb_cred (rm_call m))" and ?v = "oa_length (cb_verf (rm_call m))"
  have le: "unat ?c \<le> 400" "unat ?v \<le> 400" using assms auth_wf_small by (auto simp: call_wf_def)
  then have r: "unat (RNDUP ?c) = unat ?c + xdr_pad (unat ?c)" "unat (RNDUP ?v) = unat ?v + xdr_pad (unat ?v)"
    by (auto intro!: RNDUP_eq)
  have "8 * 4 + RNDUP ?c + 2 * 4 + RNDUP ?v = of_nat (40 + unat (RNDUP ?c) + unat (RNDUP ?v))" by simp
  moreover have "40 + unat (RNDUP ?c) + unat (RNDUP ?v) < 2 ^ 32"
    using le xdr_pad_le [of "unat ?c"] xdr_pad_le [of "unat ?v"] unfolding r by simp
  ultimately have "unat (8 * 4 + RNDUP ?c + 2 * 4 + RNDUP ?v) = 40 + unat (RNDUP ?c) + unat (RNDUP ?v)"
    by (simp only: unat_of_nat32)
  then show ?thesis by (simp add: r call_size_def auth_pad_def)
qed

context xdr_writer
begin

lemma encodes_xfield:
  assumes "encodes p (fld a) bs" "upd (\<lambda>_. fld a) a = a"
  shows "encodes (xfield p fld upd) a bs"
  by (rule encodes_step [OF assms(1)]) (simp add: xfield_def assms(2))

lemma encodes_xtest: "P a \<Longrightarrow> encodes (xtest P) a []"
  by (rule encodes_Nil) (simp add: xtest_def)

lemma encodes_xall_Nil: "encodes (xall []) a []"
  by (rule encodes_Nil) simp

lemma encodes_xall_Cons:
  assumes "encodes p a bs" "encodes (xall ps) a cs"
  shows "encodes (xall (p # ps)) a (bs @ cs)"
  by (rule encodes_then [OF assms]) simp

lemma encodes_opaque_auth:
  assumes "auth_wf oa"
  shows "encodes xdr_opaque_auth oa (auth_wire oa (replicate (auth_pad oa) 0))"
proof -
  have "case oa_base oa of None \<Rightarrow> oa_length oa = 0 \<and> auth_body oa = []
      | Some cp \<Rightarrow> unat (oa_length oa) \<le> length cp \<and> auth_body oa = take (unat (oa_length oa)) cp"
    using assms by (auto simp: auth_wf_def auth_body_def split: option.splits)
  moreover have "oa_length oa \<le> MAX_AUTH_BYTES" using assms by (simp add: auth_wf_def)
  ultimately have "encodes (xdr_bytes MAX_AUTH_BYTES) (oa_base oa, oa_length oa) (xdr_unit (oa_length oa) @ xdr_octets (auth_body oa))"
    by (rule encodes_bytes)
  then have b: "encodes xdr_auth_bytes oa (xdr_unit (oa_length oa) @ xdr_octets (auth_body oa))"
    unfolding xdr_auth_bytes_def by (rule encodes_xfield) simp
  have "encodes xdr_opaque_auth oa (xdr_unit (oa_flavor oa) @ (xdr_unit (oa_length oa) @ xdr_octets (auth_body oa)) @ [])"
    unfolding xdr_opaque_auth_def
    by (intro encodes_xall_Cons encodes_xall_Nil encodes_xfield encodes_enum b) simp_all
  then show ?thesis
    by (simp add: auth_wire_def xdr_octets_def auth_pad_def length_auth_body [OF assms])
qed

lemma encodes_callmsg_general:
  assumes "call_wf m"
  shows "encodes callmsg_general m
    (call_wire m (replicate (auth_pad (cb_cred (rm_call m))) 0) (replicate (auth_pad (cb_verf (rm_call m))) 0))"
proof -
  let ?cb = "rm_call m"
  have e: "encodes callmsg_general m
     (xdr_unit (rm_xid m) @ xdr_unit (rm_direction m) @ [] @ xdr_unit (cb_rpcvers ?cb) @ [] @ xdr_unit (cb_prog ?cb) @
      xdr_unit (cb_vers ?cb) @ xdr_unit (cb_proc ?cb) @ auth_wire (cb_cred ?cb) (replicate (auth_pad (cb_cred ?cb)) 0) @
      auth_wire (cb_verf ?cb) (replicate (auth_pad (cb_verf ?cb)) 0) @ [])"
    unfolding callmsg_general_def
    by (intro encodes_xall_Cons encodes_xall_Nil encodes_xfield encodes_enum encodes_uint32_t encodes_xtest encodes_opaque_auth)
      (use assms in \<open>simp_all add: call_wf_def\<close>)
  have "rm_direction m = CALL" "cb_rpcvers ?cb = RPC_MSG_VERSION" using assms by (simp_all add: call_wf_def)
  with e show ?thesis unfolding call_wire_def by simp
qed

text \<open>Filling a reserved region from the front: \<open>pre\<close> has been stored, \<open>n\<close> octets are left.\<close>

definition filled :: "iptr \<Rightarrow> octets \<Rightarrow> nat \<Rightarrow> 's \<Rightarrow> 's \<Rightarrow> bool" where
  "filled q pre n s t \<longleftrightarrow> (\<exists>rest. length rest = n \<and> res q (pre @ rest) s t)"

lemma filled_store:
  assumes "filled q pre (length cs + n) s t"
  shows "\<exists>u. x_store ops (iptr_add q (length pre)) cs t = Some u \<and> filled q (pre @ cs) n s u"
proof -
  obtain rest where r: "length rest = length cs + n" "res q (pre @ rest) s t" using assms by (auto simp: filled_def)
  have "length pre + length cs \<le> length (pre @ rest)" using r(1) by simp
  from res_store [OF r(2) this] obtain u where
    u: "x_store ops (iptr_add q (length pre)) cs t = Some u" "res q ((pre @ cs) @ drop (length cs) rest) s u" by auto
  moreover have "length (drop (length cs) rest) = n" using r(1) by simp
  ultimately show ?thesis unfolding filled_def by blast
qed

lemma filled_skip:
  assumes "filled q pre (k + n) s t"
  obtains pad where "length pad = k" "filled q (pre @ pad) n s t"
proof -
  obtain rest where r: "length rest = k + n" "res q (pre @ rest) s t" using assms by (auto simp: filled_def)
  have "filled q (pre @ take k rest) n s t" using r by (auto simp: filled_def intro: exI [of _ "drop k rest"])
  then show ?thesis using that [of "take k rest"] r(1) by simp
qed

lemma iptr_add_add: "iptr_add (iptr_add q a) b = iptr_add q (a + b)"
  by (simp add: iptr_add_def add.assoc)

lemma filled_PUT:
  assumes "x_ops xdrs = ops" "filled q pre (4 + n) s (x_priv xdrs)"
  obtains u where "IXDR_PUT_INT32 xdrs (iptr_add q (length pre)) v =
      Some (iptr_add q (length (pre @ xdr_unit v)), xdrs\<lparr>x_priv := u\<rparr>)" "filled q (pre @ xdr_unit v) n s u"
proof -
  have "filled q pre (length (xdr_unit v) + n) s (x_priv xdrs)" using assms(2) by simp
  from filled_store [OF this] obtain u where
    u: "x_store ops (iptr_add q (length pre)) (xdr_unit v) (x_priv xdrs) = Some u" "filled q (pre @ xdr_unit v) n s u" by blast
  show ?thesis by (rule that [OF _ u(2)]) (use u(1) assms(1) in \<open>simp add: IXDR_PUT_INT32_def iptr_add_add flip: xdr_unit_def\<close>)
qed

lemma put_auth_inline_wire:
  assumes ops: "x_ops xdrs = ops" and oa: "auth_wf oa"
    and f: "filled q pre (8 + unat (oa_length oa) + auth_pad oa + n) s (x_priv xdrs)"
  obtains pad u where "length pad = auth_pad oa" "filled q (pre @ auth_wire oa pad) n s u"
    "put_auth_inline xdrs (iptr_add q (length pre)) oa = Some (iptr_add q (length (pre @ auth_wire oa pad)), xdrs\<lparr>x_priv := u\<rparr>)"
proof -
  let ?l = "oa_length oa" and ?p1 = "pre @ xdr_unit (oa_flavor oa)"
  let ?p2 = "?p1 @ xdr_unit (oa_length oa)"
  have "filled q pre (4 + (4 + unat ?l + auth_pad oa + n)) s (x_priv xdrs)" using f by (simp add: add.assoc)
  from filled_PUT [OF ops this, of "oa_flavor oa"] obtain u1 where
    u1: "IXDR_PUT_INT32 xdrs (iptr_add q (length pre)) (oa_flavor oa) = Some (iptr_add q (length ?p1), xdrs\<lparr>x_priv := u1\<rparr>)"
    "filled q ?p1 (4 + unat ?l + auth_pad oa + n) s u1" by blast
  have "filled q ?p1 (4 + (unat ?l + auth_pad oa + n)) s (x_priv (xdrs\<lparr>x_priv := u1\<rparr>))" using u1(2) by (simp add: add.assoc)
  from filled_PUT [OF _ this, of ?l] ops obtain u2 where
    u2: "IXDR_PUT_INT32 (xdrs\<lparr>x_priv := u1\<rparr>) (iptr_add q (length ?p1)) ?l = Some (iptr_add q (length ?p2), xdrs\<lparr>x_priv := u2\<rparr>)"
    "filled q ?p2 (unat ?l + auth_pad oa + n) s u2" by auto
  note body = length_auth_body [OF oa]
  show ?thesis
  proof (cases "?l = 0")
    case True
    then have "auth_body oa = []" "auth_pad oa = 0" using body by (simp_all add: auth_pad_def xdr_pad_def)
    then show ?thesis using that [of "[]" u2] u1(1) u2 True by (simp add: put_auth_inline_def auth_wire_def)
  next
    case False
    then obtain b where b: "oa_base oa = Some b" "unat ?l \<le> length b" using oa by (auto simp: auth_wf_def split: option.splits)
    have "filled q ?p2 (length (auth_body oa) + (auth_pad oa + n)) s u2" using u2(2) body by (simp add: add.assoc)
    from filled_store [OF this] obtain u3 where
      u3: "x_store ops (iptr_add q (length ?p2)) (auth_body oa) u2 = Some u3" "filled q (?p2 @ auth_body oa) (auth_pad oa + n) s u3"
      by blast
    obtain pad where pad: "length pad = auth_pad oa" "filled q ((?p2 @ auth_body oa) @ pad) n s u3"
      using filled_skip [OF u3(2)] .
    have rd: "blk_read b (unat ?l) = Some (auth_body oa)" using b by (simp add: blk_read_def auth_body_def)
    have "unat (RNDUP ?l div 4) * 4 = length (auth_body oa @ pad)"
      using RNDUP_div [of ?l] auth_wf_small [OF oa] body pad(1) by (simp add: auth_pad_def)
    then show ?thesis using that [OF pad(1), of u3] pad(2) u1(1) u2(1) u3(1) rd b(1) False ops
      by (simp add: put_auth_inline_def auth_wire_def iptr_add_add add.assoc)
  qed
qed

lemma callmsg_put_inline_wire:
  assumes ops: "x_ops xdrs = ops" and m: "call_wf m"
    and f: "filled q [] (8 * 4 + unat (oa_length (cb_cred (rm_call m))) + auth_pad (cb_cred (rm_call m)) +
      (2 * 4 + unat (oa_length (cb_verf (rm_call m))) + auth_pad (cb_verf (rm_call m)))) s (x_priv xdrs)"
  obtains pc pv u where "length pc = auth_pad (cb_cred (rm_call m))" "length pv = auth_pad (cb_verf (rm_call m))"
    "wr (call_wire m pc pv) s u" "callmsg_put_inline q xdrs m = Some (True, m, xdrs\<lparr>x_priv := u\<rparr>)"
proof -
  let ?cb = "rm_call m"
  let ?n2 = "8 + unat (oa_length (cb_verf ?cb)) + auth_pad (cb_verf ?cb) + 0"
  let ?n1 = "8 + unat (oa_length (cb_cred ?cb)) + auth_pad (cb_cred ?cb) + ?n2"
  have wf: "auth_wf (cb_cred ?cb)" "auth_wf (cb_verf ?cb)" and eqs: "rm_direction m = CALL" "cb_rpcvers ?cb = RPC_MSG_VERSION"
    using m by (simp_all add: call_wf_def)
  have q0: "iptr_add q (length ([] :: octets)) = q" by (simp add: iptr_add_def)
  let ?h = "\<lambda>t. xdrs\<lparr>x_priv := t\<rparr>" and ?put = "\<lambda>pre v. pre @ xdr_unit v"
  have P: "\<exists>u. IXDR_PUT_INT32 (?h t) (iptr_add q (length pre)) v = Some (iptr_add q (length (?put pre v)), ?h u) \<and> filled q (?put pre v) k s u"
    if "filled q pre (4 + k) s t" for pre v k t
    using filled_PUT [of "?h t" q pre k s v] that ops by auto
  let ?p1 = "?put [] (rm_xid m)"
  let ?p2 = "?put ?p1 CALL"
  let ?p3 = "?put ?p2 RPC_MSG_VERSION"
  let ?p4 = "?put ?p3 (cb_prog ?cb)"
  let ?p5 = "?put ?p4 (cb_vers ?cb)"
  let ?p6 = "?put ?p5 (cb_proc ?cb)"
  have "filled q [] (4 + (20 + ?n1)) s (x_priv xdrs)" using f by (simp add: add.assoc)
  from P [OF this, of "rm_xid m"] q0 obtain u1 where
    u1: "IXDR_PUT_INT32 xdrs q (rm_xid m) = Some (iptr_add q (length ?p1), ?h u1)" "filled q ?p1 (4 + (16 + ?n1)) s u1" by auto
  from P [OF u1(2), of CALL] obtain u2 where
    u2: "IXDR_PUT_INT32 (?h u1) (iptr_add q (length ?p1)) CALL = Some (iptr_add q (length ?p2), ?h u2)" "filled q ?p2 (4 + (12 + ?n1)) s u2"
    by auto
  from P [OF u2(2), of RPC_MSG_VERSION] obtain u3 where
    u3: "IXDR_PUT_INT32 (?h u2) (iptr_add q (length ?p2)) RPC_MSG_VERSION = Some (iptr_add q (length ?p3), ?h u3)"
    "filled q ?p3 (4 + (8 + ?n1)) s u3" by auto
  from P [OF u3(2), of "cb_prog ?cb"] obtain u4 where
    u4: "IXDR_PUT_INT32 (?h u3) (iptr_add q (length ?p3)) (cb_prog ?cb) = Some (iptr_add q (length ?p4), ?h u4)"
    "filled q ?p4 (4 + (4 + ?n1)) s u4" by auto
  from P [OF u4(2), of "cb_vers ?cb"] obtain u5 where
    u5: "IXDR_PUT_INT32 (?h u4) (iptr_add q (length ?p4)) (cb_vers ?cb) = Some (iptr_add q (length ?p5), ?h u5)"
    "filled q ?p5 (4 + ?n1) s u5" by auto
  from P [OF u5(2), of "cb_proc ?cb"] obtain u6 where
    u6: "IXDR_PUT_INT32 (?h u5) (iptr_add q (length ?p5)) (cb_proc ?cb) = Some (iptr_add q (length ?p6), ?h u6)"
    "filled q ?p6 ?n1 s (x_priv (?h u6))" by auto
  obtain pc u7 where u7: "length pc = auth_pad (cb_cred ?cb)" "filled q (?p6 @ auth_wire (cb_cred ?cb) pc) ?n2 s (x_priv (?h u7))"
    "put_auth_inline (?h u6) (iptr_add q (length ?p6)) (cb_cred ?cb) =
       Some (iptr_add q (length (?p6 @ auth_wire (cb_cred ?cb) pc)), ?h u6\<lparr>x_priv := u7\<rparr>)"
    using put_auth_inline_wire [OF _ wf(1) u6(2)] ops by auto
  obtain pv u8 where u8: "length pv = auth_pad (cb_verf ?cb)" "filled q ((?p6 @ auth_wire (cb_cred ?cb) pc) @ auth_wire (cb_verf ?cb) pv) 0 s u8"
    "put_auth_inline (?h u7) (iptr_add q (length (?p6 @ auth_wire (cb_cred ?cb) pc))) (cb_verf ?cb) =
       Some (iptr_add q (length ((?p6 @ auth_wire (cb_cred ?cb) pc) @ auth_wire (cb_verf ?cb) pv)), ?h u7\<lparr>x_priv := u8\<rparr>)"
    using put_auth_inline_wire [OF _ wf(2) u7(2)] ops by auto
  have "wr (call_wire m pc pv) s u8" using u8(2) res_wr by (simp add: filled_def call_wire_def)
  moreover have "callmsg_put_inline q xdrs m = Some (True, m, ?h u8)"
    unfolding callmsg_put_inline_def eqs using u1(1) u2(1) u3(1) u4(1) u5(1) u6(1) u7(3) u8(3) by simp
  ultimately show ?thesis using that u7(1) u8(1) by blast
qed

lemma callmsg_encodes:
  assumes x: "x_op xdrs = XDR_ENCODE" "x_ops xdrs = ops" "ok (x_priv xdrs)" and m: "call_wf m"
    and fit: "fits (call_size m) (x_priv xdrs)"
  obtains pc pv u where "length pc = auth_pad (cb_cred (rm_call m))" "length pv = auth_pad (cb_verf (rm_call m))"
    "wr (call_wire m pc pv) (x_priv xdrs) u" "xdr_callmsg xdrs m = Some (True, m, xdrs\<lparr>x_priv := u\<rparr>)"
proof -
  let ?c = "cb_cred (rm_call m)" and ?v = "cb_verf (rm_call m)"
  let ?len = "8 * 4 + RNDUP (oa_length ?c) + 2 * 4 + RNDUP (oa_length ?v)"
  have wf: "auth_wf ?c" "auth_wf ?v" using m by (simp_all add: call_wf_def)
  have start: "xdr_callmsg xdrs m = (do { (buf, xdrs) \<leftarrow> XDR_INLINE xdrs ?len;
      case buf of Some buf \<Rightarrow> callmsg_put_inline buf xdrs m | None \<Rightarrow> callmsg_general xdrs m })"
    using wf x(1) by (simp add: xdr_callmsg_def auth_wf_def Let_def not_less [THEN iffD2])
  have "fits (unat ?len) (x_priv xdrs)" "?len \<noteq> 0" using fit call_size_unat [OF m] by (auto simp: call_size_def)
  from put_inline [OF x(3) this] show ?thesis
  proof (elim disjE exE conjE)
    assume "x_inline ops XDR_ENCODE ?len (x_priv xdrs) = Some (None, x_priv xdrs)"
    then have "XDR_INLINE xdrs ?len = Some (None, xdrs)" using x(1,2) by (simp add: XDR_INLINE_def)
    then have run: "xdr_callmsg xdrs m = callmsg_general xdrs m" by (simp add: start)
    let ?w = "call_wire m (replicate (auth_pad ?c) 0) (replicate (auth_pad ?v) 0)"
    have "fits (length ?w) (x_priv xdrs)" using fit by (simp add: length_call_wire [OF m])
    then obtain u where "callmsg_general xdrs m = Some (True, m, xdrs\<lparr>x_priv := u\<rparr>)" "wr ?w (x_priv xdrs) u"
      by (rule encodesD [OF encodes_callmsg_general [OF m] x])
    then show ?thesis using that [of "replicate (auth_pad ?c) 0" "replicate (auth_pad ?v) 0" u] by (simp add: run)
  next
    fix q bs t assume i: "x_inline ops XDR_ENCODE ?len (x_priv xdrs) = Some (Some q, t)" "length bs = unat ?len" "res q bs (x_priv xdrs) t"
    have "filled q [] (8 * 4 + unat (oa_length ?c) + auth_pad ?c + (2 * 4 + unat (oa_length ?v) + auth_pad ?v)) (x_priv xdrs)
        (x_priv (xdrs\<lparr>x_priv := t\<rparr>))"
      unfolding filled_def using i(2,3) call_size_unat [OF m] by (intro exI [of _ bs]) (simp add: call_size_def)
    from callmsg_put_inline_wire [OF _ m this] x(2) obtain pc pv u where
      "length pc = auth_pad ?c" "length pv = auth_pad ?v" "wr (call_wire m pc pv) (x_priv xdrs) u"
      "callmsg_put_inline q (xdrs\<lparr>x_priv := t\<rparr>) m = Some (True, m, xdrs\<lparr>x_priv := u\<rparr>)" by auto
    then show ?thesis using that i(1) x(1,2) by (simp add: start XDR_INLINE_def)
  qed
qed

end

text \<open>An authenticator as the reader leaves it: the octets are stored where the pointer leads, or in new memory.\<close>

definition got_auth :: "opaque_auth \<Rightarrow> opaque_auth \<Rightarrow> opaque_auth" where
  "got_auth oa0 oa =
     oa0\<lparr>oa_flavor := oa_flavor oa, oa_base := stored (oa_base oa0) (auth_body oa), oa_length := oa_length oa\<rparr>"

definition auth_room :: "opaque_auth \<Rightarrow> opaque_auth \<Rightarrow> bool" where
  "auth_room oa0 oa \<longleftrightarrow> (case oa_base oa0 of None \<Rightarrow> True | Some cp \<Rightarrow> unat (oa_length oa) \<le> length cp)"

text \<open>What \<^verbatim>\<open>xdr_callmsg\<close> makes of a message \<open>m0\<close> when \<open>m\<close> is next in the stream.\<close>

definition got_call :: "('s, 'r) rpc_msg \<Rightarrow> ('s, 'r) rpc_msg \<Rightarrow> ('s, 'r) rpc_msg" where
  "got_call m0 m = m0\<lparr>rm_xid := rm_xid m, rm_direction := CALL, rm_call := (rm_call m0)\<lparr>
     cb_rpcvers := RPC_MSG_VERSION, cb_prog := cb_prog (rm_call m), cb_vers := cb_vers (rm_call m), cb_proc := cb_proc (rm_call m),
     cb_cred := got_auth (cb_cred (rm_call m0)) (cb_cred (rm_call m)),
     cb_verf := got_auth (cb_verf (rm_call m0)) (cb_verf (rm_call m))\<rparr>\<rparr>"

definition call_room :: "('s, 'r) rpc_msg \<Rightarrow> ('s, 'r) rpc_msg \<Rightarrow> bool" where
  "call_room m0 m \<longleftrightarrow> auth_room (cb_cred (rm_call m0)) (cb_cred (rm_call m)) \<and> auth_room (cb_verf (rm_call m0)) (cb_verf (rm_call m))"

context xdr_reader
begin

lemma decodes_xfield:
  assumes "decodes p (fld a) bs v" "upd (\<lambda>_. v) a = b"
  shows "decodes (xfield p fld upd) a bs b"
  by (rule decodes_step [OF assms(1)]) (simp add: xfield_def assms(2))

lemma decodesD2:
  assumes p: "decodes p v bs v'" and q: "decodes q w cs w'"
    and x: "x_op xdrs = XDR_DECODE" "x_ops xdrs = ops" "ok (x_priv xdrs)" "inp (x_priv xdrs) = (bs @ cs) @ r"
  obtains t u where "p xdrs v = Some (True, v', xdrs\<lparr>x_priv := t\<rparr>)"
    "q (xdrs\<lparr>x_priv := t\<rparr>) w = Some (True, w', xdrs\<lparr>x_priv := u\<rparr>)" "ok u" "inp u = r"
proof -
  have "inp (x_priv xdrs) = bs @ cs @ r" using x(4) by simp
  then obtain t where t: "p xdrs v = Some (True, v', xdrs\<lparr>x_priv := t\<rparr>)" "ok t" "inp t = cs @ r"
    by (rule decodesD [OF p x(1-3)])
  have "x_op (xdrs\<lparr>x_priv := t\<rparr>) = XDR_DECODE" "x_ops (xdrs\<lparr>x_priv := t\<rparr>) = ops"
    "ok (x_priv (xdrs\<lparr>x_priv := t\<rparr>))" "inp (x_priv (xdrs\<lparr>x_priv := t\<rparr>)) = cs @ r" using x(1,2) t by simp_all
  then obtain u where "q (xdrs\<lparr>x_priv := t\<rparr>) w = Some (True, w', xdrs\<lparr>x_priv := t\<rparr>\<lparr>x_priv := u\<rparr>)" "ok u" "inp u = r"
    by (rule decodesD [OF q])
  then show ?thesis using that t(1) by simp
qed

lemma decodes_xtest: "P a \<Longrightarrow> decodes (xtest P) a [] a"
  by (rule decodes_Nil) (simp add: xtest_def)

lemma decodes_xall_Nil: "decodes (xall []) a [] a"
  by (rule decodes_Nil) simp

lemma decodes_xall_end: "a = b \<Longrightarrow> decodes (xall []) a [] b"
  using decodes_xall_Nil by simp

lemma decodes_xall_Cons:
  assumes "decodes p a bs b" "decodes (xall ps) b cs c"
  shows "decodes (xall (p # ps)) a (bs @ cs) c"
  by (rule decodes_then [OF assms]) simp

lemma decodes_xall_field:
  assumes "decodes p (fld a) bs v" "decodes (xall ps) (upd (\<lambda>_. v) a) cs c"
  shows "decodes (xall (xfield p fld upd # ps)) a (bs @ cs) c"
  by (rule decodes_xall_Cons [OF decodes_xfield assms(2)]) (use assms(1) in simp_all)

lemma decodes_xall_test:
  assumes "decodes (xall ps) a cs c" "P a"
  shows "decodes (xall (xtest P # ps)) a cs c"
  using decodes_xall_Cons [OF decodes_xtest assms(1), of P] assms(2) by simp

lemma decodes_opaque_auth:
  assumes oa: "auth_wf oa" "length pad = auth_pad oa" and room: "auth_room oa0 oa"
  shows "decodes xdr_opaque_auth oa0 (auth_wire oa pad) (got_auth oa0 oa)"
proof -
  have "length (auth_body oa) = unat (oa_length oa)" using oa(1) by (rule length_auth_body)
  then have b: "decodes (xdr_bytes MAX_AUTH_BYTES) (oa_base oa0, oa_length oa0) (xdr_unit (oa_length oa) @ auth_body oa @ pad)
      (stored (oa_base oa0) (auth_body oa), oa_length oa)"
    by (rule decodes_bytes) (use oa room in \<open>simp_all add: auth_pad_def auth_wf_def auth_room_def\<close>)
  have a: "decodes xdr_auth_bytes (oa0\<lparr>oa_flavor := oa_flavor oa\<rparr>) (xdr_unit (oa_length oa) @ auth_body oa @ pad) (got_auth oa0 oa)"
    unfolding xdr_auth_bytes_def by (rule decodes_xfield, simp, rule b) (simp add: got_auth_def)
  have "decodes xdr_opaque_auth oa0 (xdr_unit (oa_flavor oa) @ (xdr_unit (oa_length oa) @ auth_body oa @ pad) @ []) (got_auth oa0 oa)"
    unfolding xdr_opaque_auth_def
    by (rule decodes_xall_field decodes_enum decodes_xall_Cons [OF a] decodes_xall_Nil)+
  then show ?thesis by (simp add: auth_wire_def)
qed

lemma decodes_callmsg_general:
  assumes "call_wf m" "call_room m0 m" "length pc = auth_pad (cb_cred (rm_call m))" "length pv = auth_pad (cb_verf (rm_call m))"
  shows "decodes callmsg_general m0 (call_wire m pc pv) (got_call m0 m)"
proof -
  let ?cb = "rm_call m"
  have wf: "auth_wf (cb_cred ?cb)" "auth_wf (cb_verf ?cb)" using assms(1) by (simp_all add: call_wf_def)
  have room: "auth_room (cb_cred (rm_call m0)) (cb_cred ?cb)" "auth_room (cb_verf (rm_call m0)) (cb_verf ?cb)"
    using assms(2) by (simp_all add: call_room_def)
  have "decodes callmsg_general m0
     (xdr_unit (rm_xid m) @ xdr_unit CALL @ xdr_unit RPC_MSG_VERSION @ xdr_unit (cb_prog ?cb) @
      xdr_unit (cb_vers ?cb) @ xdr_unit (cb_proc ?cb) @ auth_wire (cb_cred ?cb) pc @ auth_wire (cb_verf ?cb) pv @ []) (got_call m0 m)"
    unfolding callmsg_general_def
    by (rule decodes_xall_field decodes_xall_test decodes_uint32_t decodes_enum decodes_opaque_auth wf assms(3,4) refl
        decodes_xfield decodes_xall_end | (simp add: got_call_def room; fail))+
  then show ?thesis unfolding call_wire_def by simp
qed

text \<open>Reading in place: \<open>q\<close> points to the octets \<open>bs\<close>.\<close>

definition reg :: "iptr \<Rightarrow> octets \<Rightarrow> 's \<Rightarrow> bool" where
  "reg q bs t \<longleftrightarrow> (\<forall>i n. i + n \<le> length bs \<longrightarrow> x_load ops (iptr_add q i) n t = Some (take n (drop i bs)))"

lemma INLINE:
  assumes "x_op xdrs = XDR_DECODE" "x_ops xdrs = ops" "ok (x_priv xdrs)" "inp (x_priv xdrs) = bs @ r" "length bs = unat len" "len \<noteq> 0"
  obtains "XDR_INLINE xdrs len = Some (None, xdrs)"
  | q t where "XDR_INLINE xdrs len = Some (Some q, xdrs\<lparr>x_priv := t\<rparr>)" "ok t" "inp t = r" "reg q bs t"
  using get_inline [OF assms(3-6)] assms(1,2) by (auto simp: XDR_INLINE_def reg_def)

lemma reg_GET:
  assumes "x_ops xdrs = ops" "reg q bs (x_priv xdrs)" "i + 4 \<le> length bs" "take 4 (drop i bs) = xdr_unit l"
  shows "IXDR_GET_INT32 xdrs (iptr_add q i) = Some (l, iptr_add q (i + 4))"
  using assms by (simp add: IXDR_GET_INT32_def reg_def iptr_add_def)

lemma decodes_get_auth_inline:
  assumes oa: "auth_wf oa" and len: "oa_length oa1 = oa_length oa" and pad: "length pad = auth_pad oa" and room: "auth_room oa1 oa"
  shows "decodes get_auth_inline oa1 (auth_body oa @ pad) (oa1\<lparr>oa_base := stored (oa_base oa1) (auth_body oa)\<rparr>)"
proof (cases "oa_length oa = 0")
  case True
  then have "auth_body oa = []" "pad = []" using pad length_auth_body [OF oa] by (simp_all add: auth_pad_def xdr_pad_def)
  moreover have "oa1\<lparr>oa_base := stored (oa_base oa1) []\<rparr> = oa1" by (cases oa1) (simp add: stored_def split: option.splits)
  ultimately show ?thesis using True len by (simp add: decodes_Nil get_auth_inline_def)
next
  case False
  let ?l = "oa_length oa" and ?b = "auth_body oa"
  let ?base = "case oa_base oa1 of None \<Rightarrow> mem_alloc (oa_length oa) | Some b \<Rightarrow> b"
  note lb = length_auth_body [OF oa]
  have b: "unat ?l \<le> length ?base" using room by (auto simp: auth_room_def mem_alloc_def split: option.splits)
  have "?b \<noteq> []" using False lb by (auto simp: unat_eq_0)
  then have st: "stored (oa_base oa1) ?b = Some (?b @ drop (unat ?l) ?base)"
    using lb by (auto simp: stored_def mem_alloc_def split: option.splits)
  have small: "unat ?l \<le> 2 ^ 31" using auth_wf_small [OF oa] by simp
  have rl: "length (?b @ pad) = unat (RNDUP ?l)" using RNDUP_eq [OF small] lb pad by (simp add: auth_pad_def)
  have rn: "RNDUP ?l \<noteq> 0" using rl \<open>?b \<noteq> []\<close> by (auto simp: unat_eq_0)
  show ?thesis
  proof (rule decodesI)
    fix xdrs :: "'s XDR" and r
    assume x: "x_op xdrs = XDR_DECODE" "x_ops xdrs = ops" "ok (x_priv xdrs)" "inp (x_priv xdrs) = (?b @ pad) @ r"
    have start: "get_auth_inline xdrs oa1 = (do { (buf, xdrs) \<leftarrow> XDR_INLINE xdrs (RNDUP ?l);
        case buf of
          None \<Rightarrow> do { (b, base, xdrs) \<leftarrow> xdr_opaque xdrs ?base ?l; Some (b, oa1\<lparr>oa_base := Some base\<rparr>, xdrs) }
        | Some buf \<Rightarrow> do { bs \<leftarrow> x_load (x_ops xdrs) buf (unat ?l) (x_priv xdrs); base \<leftarrow> blk_write ?base bs;
                          Some (True, oa1\<lparr>oa_base := Some base\<rparr>, xdrs) } })"
      using False oa unfolding get_auth_inline_def len auth_wf_def Let_def by (simp add: not_less [THEN iffD2])
    show "\<exists>t. get_auth_inline xdrs oa1 = Some (True, oa1\<lparr>oa_base := stored (oa_base oa1) ?b\<rparr>, xdrs\<lparr>x_priv := t\<rparr>) \<and> ok t \<and> inp t = r"
    proof (rule INLINE [OF x rl rn])
      assume n: "XDR_INLINE xdrs (RNDUP ?l) = Some (None, xdrs)"
      have "length pad = xdr_pad (unat ?l)" using pad by (simp add: auth_pad_def)
      from decodes_opaque [OF lb b this] obtain t where
        "xdr_opaque xdrs ?base ?l = Some (True, ?b @ drop (unat ?l) ?base, xdrs\<lparr>x_priv := t\<rparr>)" "ok t" "inp t = r"
        using x by (rule decodesD)
      then show ?thesis using st by (intro exI [of _ t]) (simp add: start n)
    next
      fix q t assume t: "XDR_INLINE xdrs (RNDUP ?l) = Some (Some q, xdrs\<lparr>x_priv := t\<rparr>)" "ok t" "inp t = r" "reg q (?b @ pad) t"
      have "x_load ops (iptr_add q 0) (unat ?l) t = Some ?b" using t(4) lb by (simp add: reg_def)
      then show ?thesis using t st x(2) b lb by (intro exI [of _ t]) (simp add: start blk_write_def iptr_add_def)
    qed
  qed
qed

lemma decodes_get_verf:
  assumes "auth_wf oa" "length pad = auth_pad oa" "auth_room oa0 oa"
  shows "decodes get_verf oa0 (auth_wire oa pad) (got_auth oa0 oa)"
proof (rule decodesI)
  fix xdrs :: "'s XDR" and r
  assume x: "x_op xdrs = XDR_DECODE" "x_ops xdrs = ops" "ok (x_priv xdrs)" "inp (x_priv xdrs) = auth_wire oa pad @ r"
  let ?h = "xdr_unit (oa_flavor oa) @ xdr_unit (oa_length oa)" and ?oa1 = "oa0\<lparr>oa_flavor := oa_flavor oa, oa_length := oa_length oa\<rparr>"
  have got: "?oa1\<lparr>oa_base := stored (oa_base ?oa1) (auth_body oa)\<rparr> = got_auth oa0 oa" by (simp add: got_auth_def)
  have "auth_room ?oa1 oa" using assms(3) by (simp add: auth_room_def)
  then have body: "decodes get_auth_inline ?oa1 (auth_body oa @ pad) (got_auth oa0 oa)"
    unfolding got [symmetric] by (intro decodes_get_auth_inline assms(1,2)) simp_all
  have "inp (x_priv xdrs) = ?h @ (auth_body oa @ pad) @ r" using x(4) by (simp add: auth_wire_def)
  note i = this
  have len: "length ?h = unat (2 * 4 :: 32 word)" "(2 * 4 :: 32 word) \<noteq> 0" by simp_all
  show "\<exists>t. get_verf xdrs oa0 = Some (True, got_auth oa0 oa, xdrs\<lparr>x_priv := t\<rparr>) \<and> ok t \<and> inp t = r"
  proof (rule INLINE [OF x(1-3) i len])
    assume n: "XDR_INLINE xdrs (2 * 4) = Some (None, xdrs)"
    let ?all = "xall [xfield xdr_enum oa_flavor oa_flavor_update, xfield xdr_u_int oa_length oa_length_update]"
    have h: "decodes ?all oa0
        (xdr_unit (oa_flavor oa) @ xdr_unit (oa_length oa) @ []) ?oa1"
      by (rule decodes_xall_field decodes_enum decodes_u_int decodes_xall_end refl)+
    have "inp (x_priv xdrs) = ((xdr_unit (oa_flavor oa) @ xdr_unit (oa_length oa) @ []) @ auth_body oa @ pad) @ r" using i by simp
    then obtain t u where "?all xdrs oa0 = Some (True, ?oa1, xdrs\<lparr>x_priv := t\<rparr>)"
      "get_auth_inline (xdrs\<lparr>x_priv := t\<rparr>) ?oa1 = Some (True, got_auth oa0 oa, xdrs\<lparr>x_priv := u\<rparr>)" "ok u" "inp u = r"
      by (rule decodesD2 [OF h body x(1-3)])
    then show ?thesis using n by (intro exI [of _ u]) (simp add: get_verf_def del: xall.simps)
  next
    fix q t assume t: "XDR_INLINE xdrs (2 * 4) = Some (Some q, xdrs\<lparr>x_priv := t\<rparr>)" "ok t" "inp t = (auth_body oa @ pad) @ r" "reg q ?h t"
    let ?x = "xdrs\<lparr>x_priv := t\<rparr>"
    have g: "IXDR_GET_INT32 ?x (iptr_add q 0) = Some (oa_flavor oa, iptr_add q (0 + 4))"
      "IXDR_GET_INT32 ?x (iptr_add q (0 + 4)) = Some (oa_length oa, iptr_add q (0 + 4 + 4))"
      by (rule reg_GET [where bs = ?h]; use x(2) t(4) in simp)+
    have "x_op ?x = XDR_DECODE" "x_ops ?x = ops" "ok (x_priv ?x)" "inp (x_priv ?x) = (auth_body oa @ pad) @ r"
      using x(1,2) t(2,3) by simp_all
    then obtain u where "get_auth_inline ?x ?oa1 = Some (True, got_auth oa0 oa, ?x\<lparr>x_priv := u\<rparr>)" "ok u" "inp u = r"
      by (rule decodesD [OF body])
    then show ?thesis using t(1) g by (intro exI [of _ u]) (simp add: get_verf_def iptr_add_def)
  qed
qed

lemma decodes_callmsg:
  assumes "call_wf m" "call_room m0 m" "length pc = auth_pad (cb_cred (rm_call m))" "length pv = auth_pad (cb_verf (rm_call m))"
  shows "decodes xdr_callmsg m0 (call_wire m pc pv) (got_call m0 m)"
proof (rule decodesI)
  fix xdrs :: "'s XDR" and r
  assume x: "x_op xdrs = XDR_DECODE" "x_ops xdrs = ops" "ok (x_priv xdrs)" "inp (x_priv xdrs) = call_wire m pc pv @ r"
  let ?cb = "rm_call m" and ?old = "rm_call m0"
  have wf: "auth_wf (cb_cred ?cb)" "auth_wf (cb_verf ?cb)" using assms(1) by (simp_all add: call_wf_def)
  let ?h = "xdr_unit (rm_xid m) @ xdr_unit CALL @ xdr_unit RPC_MSG_VERSION @ xdr_unit (cb_prog ?cb) @
     xdr_unit (cb_vers ?cb) @ xdr_unit (cb_proc ?cb) @ xdr_unit (oa_flavor (cb_cred ?cb)) @ xdr_unit (oa_length (cb_cred ?cb))"
  let ?rest = "(auth_body (cb_cred ?cb) @ pc) @ auth_wire (cb_verf ?cb) pv"
  have i: "inp (x_priv xdrs) = ?h @ ?rest @ r" using x(4) by (simp add: call_wire_def auth_wire_def)
  have len: "length ?h = unat (8 * 4 :: 32 word)" "(8 * 4 :: 32 word) \<noteq> 0" by simp_all
  show "\<exists>t. xdr_callmsg xdrs m0 = Some (True, got_call m0 m, xdrs\<lparr>x_priv := t\<rparr>) \<and> ok t \<and> inp t = r"
  proof (rule INLINE [OF x(1-3) i len])
    assume "XDR_INLINE xdrs (8 * 4) = Some (None, xdrs)"
    then have "xdr_callmsg xdrs m0 = callmsg_general xdrs m0" using x(1) by (simp add: xdr_callmsg_def)
    then show ?thesis using decodesD [OF decodes_callmsg_general [OF assms] x] by metis
  next
    fix q t assume t: "XDR_INLINE xdrs (8 * 4) = Some (Some q, xdrs\<lparr>x_priv := t\<rparr>)" "ok t" "inp t = ?rest @ r" "reg q ?h t"
    let ?x = "xdrs\<lparr>x_priv := t\<rparr>" and ?oa1 = "(cb_cred ?old)\<lparr>oa_flavor := oa_flavor (cb_cred ?cb), oa_length := oa_length (cb_cred ?cb)\<rparr>"
    have g: "IXDR_GET_INT32 ?x (iptr_add q n) = Some (l, iptr_add q (n + 4))"
      if "n + 4 \<le> length ?h" "take 4 (drop n ?h) = xdr_unit l" for n l
      by (rule reg_GET [where bs = ?h]) (use x(2) t(4) that in simp_all)
    have got: "?oa1\<lparr>oa_base := stored (oa_base ?oa1) (auth_body (cb_cred ?cb))\<rparr> = got_auth (cb_cred ?old) (cb_cred ?cb)"
      by (simp add: got_auth_def)
    have "auth_room ?oa1 (cb_cred ?cb)" using assms(2) by (simp add: call_room_def auth_room_def)
    then have cred: "decodes get_auth_inline ?oa1 (auth_body (cb_cred ?cb) @ pc) (got_auth (cb_cred ?old) (cb_cred ?cb))"
      unfolding got [symmetric] by (intro decodes_get_auth_inline wf(1) assms(3)) simp_all
    have "auth_room (cb_verf ?old) (cb_verf ?cb)" using assms(2) by (simp add: call_room_def)
    note verf = decodes_get_verf [OF wf(2) assms(4) this]
    have xs: "x_op ?x = XDR_DECODE" "x_ops ?x = ops" "ok (x_priv ?x)" "inp (x_priv ?x) = ?rest @ r" using x(1,2) t(2,3) by simp_all
    obtain u v where "get_auth_inline ?x ?oa1 = Some (True, got_auth (cb_cred ?old) (cb_cred ?cb), ?x\<lparr>x_priv := u\<rparr>)"
      "get_verf (?x\<lparr>x_priv := u\<rparr>) (cb_verf ?old) = Some (True, got_auth (cb_verf ?old) (cb_verf ?cb), ?x\<lparr>x_priv := v\<rparr>)" "ok v" "inp v = r"
      using decodesD2 [OF cred verf xs] .
    moreover have "xdr_callmsg xdrs m0 = callmsg_get_inline (iptr_add q 0) ?x m0" using x(1) t(1) by (simp add: xdr_callmsg_def iptr_add_def)
    ultimately show ?thesis
      by (intro exI [of _ v]) (simp add: callmsg_get_inline_def g got_call_def)
  qed
qed

end

section \<open>Replies on the wire\<close>

text \<open>\<open>rs\<close> are the octets of the results of a successful call.\<close>

definition acpt_tail :: "('s, 'r) accepted_reply \<Rightarrow> octets \<Rightarrow> octets" where
  "acpt_tail ar rs =
     (if ar_stat ar = SUCCESS then rs
      else if ar_stat ar = PROG_MISMATCH then xdr_unit (ar_low ar) @ xdr_unit (ar_high ar) else [])"

definition acpt_wire :: "('s, 'r) accepted_reply \<Rightarrow> octets \<Rightarrow> octets \<Rightarrow> octets" where
  "acpt_wire ar pad rs = auth_wire (ar_verf ar) pad @ xdr_unit (ar_stat ar) @ acpt_tail ar rs"

definition rjct_wire :: "rejected_reply \<Rightarrow> octets" where
  "rjct_wire rr = xdr_unit (rj_stat rr) @
     (if rj_stat rr = RPC_MISMATCH then xdr_unit (rj_low rr) @ xdr_unit (rj_high rr) else xdr_unit (rj_why rr))"

definition reply_wire :: "('s, 'r) rpc_msg \<Rightarrow> octets \<Rightarrow> octets \<Rightarrow> octets" where
  "reply_wire m pad rs = xdr_unit (rm_xid m) @ xdr_unit REPLY @ xdr_unit (rp_stat (rm_reply m)) @
     (if rp_stat (rm_reply m) = MSG_ACCEPTED then acpt_wire (rp_acpt (rm_reply m)) pad rs else rjct_wire (rp_rjct (rm_reply m)))"

definition reply_wf :: "('s, 'r) rpc_msg \<Rightarrow> bool" where
  "reply_wf m \<longleftrightarrow> rm_direction m = REPLY \<and>
     (rp_stat (rm_reply m) = MSG_ACCEPTED \<and> auth_wf (ar_verf (rp_acpt (rm_reply m))) \<or>
      rp_stat (rm_reply m) = MSG_DENIED \<and> rj_stat (rp_rjct (rm_reply m)) \<in> {RPC_MISMATCH, AUTH_ERROR})"

text \<open>What the reader makes of it: the parts of \<open>m\<close> that the discriminants select.\<close>

definition got_acpt :: "('s, 'r) accepted_reply \<Rightarrow> ('s, 'r) accepted_reply \<Rightarrow> 'r \<Rightarrow> ('s, 'r) accepted_reply" where
  "got_acpt ar0 ar w = ar0\<lparr>ar_verf := got_auth (ar_verf ar0) (ar_verf ar), ar_stat := ar_stat ar,
     ar_low := if ar_stat ar = PROG_MISMATCH then ar_low ar else ar_low ar0,
     ar_high := if ar_stat ar = PROG_MISMATCH then ar_high ar else ar_high ar0,
     ar_where := if ar_stat ar = SUCCESS then w else ar_where ar0\<rparr>"

definition got_rjct :: "rejected_reply \<Rightarrow> rejected_reply \<Rightarrow> rejected_reply" where
  "got_rjct rr0 rr = rr0\<lparr>rj_stat := rj_stat rr,
     rj_low := if rj_stat rr = RPC_MISMATCH then rj_low rr else rj_low rr0,
     rj_high := if rj_stat rr = RPC_MISMATCH then rj_high rr else rj_high rr0,
     rj_why := if rj_stat rr = RPC_MISMATCH then rj_why rr0 else rj_why rr\<rparr>"

definition got_reply :: "('s, 'r) rpc_msg \<Rightarrow> ('s, 'r) rpc_msg \<Rightarrow> 'r \<Rightarrow> ('s, 'r) rpc_msg" where
  "got_reply m0 m w = m0\<lparr>rm_xid := rm_xid m, rm_direction := REPLY, rm_reply := (rm_reply m0)\<lparr>rp_stat := rp_stat (rm_reply m),
     rp_acpt := if rp_stat (rm_reply m) = MSG_ACCEPTED then got_acpt (rp_acpt (rm_reply m0)) (rp_acpt (rm_reply m)) w else rp_acpt (rm_reply m0),
     rp_rjct := if rp_stat (rm_reply m) = MSG_ACCEPTED then rp_rjct (rm_reply m0) else got_rjct (rp_rjct (rm_reply m0)) (rp_rjct (rm_reply m))\<rparr>\<rparr>"

context xdr_writer
begin

definition results_out :: "('s, 'r) accepted_reply \<Rightarrow> octets \<Rightarrow> bool" where
  "results_out ar rs \<longleftrightarrow> (ar_stat ar = SUCCESS \<longrightarrow> (case ar_proc ar of Some p \<Rightarrow> encodes p (ar_where ar) rs | None \<Rightarrow> rs = []))"

lemma encodes_accepted_reply:
  assumes "auth_wf (ar_verf ar)" "results_out ar rs"
  shows "encodes xdr_accepted_reply ar (acpt_wire ar (replicate (auth_pad (ar_verf ar)) 0) rs)"
proof -
  have "encodes accepted_body ar (acpt_tail ar rs)"
  proof -
    consider "ar_stat ar = SUCCESS" "ar_proc ar = None" | p where "ar_stat ar = SUCCESS" "ar_proc ar = Some p"
      | "ar_stat ar = PROG_MISMATCH" | "ar_stat ar \<noteq> SUCCESS" "ar_stat ar \<noteq> PROG_MISMATCH" by (cases "ar_proc ar") auto
    then show ?thesis
    proof cases
      case 1
      then show ?thesis using assms(2) by (simp add: acpt_tail_def results_out_def encodes_Nil accepted_body_def)
    next
      case (2 p)
      then have e: "encodes (xfield p ar_where ar_where_update) ar rs"
        using assms(2) by (intro encodes_xfield) (simp_all add: results_out_def)
      show ?thesis using 2 encodes_step [OF e, of accepted_body ar] by (simp add: acpt_tail_def accepted_body_def)
    next
      case 3
      have e: "encodes (xall [xfield xdr_uint32_t ar_low ar_low_update, xfield xdr_uint32_t ar_high ar_high_update]) ar
          (xdr_unit (ar_low ar) @ xdr_unit (ar_high ar) @ [])"
        by (intro encodes_xall_Cons encodes_xall_Nil encodes_xfield encodes_uint32_t) simp_all
      show ?thesis using 3 encodes_step [OF e, of accepted_body ar] by (simp add: acpt_tail_def accepted_body_def del: xall.simps)
    next
      case 4
      then show ?thesis by (simp add: acpt_tail_def encodes_Nil accepted_body_def)
    qed
  qed
  note tail = this
  have "encodes xdr_accepted_reply ar (auth_wire (ar_verf ar) (replicate (auth_pad (ar_verf ar)) 0) @ xdr_unit (ar_stat ar) @ acpt_tail ar rs @ [])"
    unfolding xdr_accepted_reply_def
    by (intro encodes_xall_Cons encodes_xall_Nil encodes_xfield encodes_opaque_auth encodes_enum assms(1) tail) simp_all
  then show ?thesis by (simp add: acpt_wire_def)
qed

lemma encodes_rejected_reply:
  assumes "rj_stat rr \<in> {RPC_MISMATCH, AUTH_ERROR}"
  shows "encodes xdr_rejected_reply rr (rjct_wire rr)"
proof -
  let ?tail = "if rj_stat rr = RPC_MISMATCH then xdr_unit (rj_low rr) @ xdr_unit (rj_high rr) else xdr_unit (rj_why rr)"
  have tail: "encodes rejected_body rr ?tail"
  proof (cases "rj_stat rr = RPC_MISMATCH")
    case True
    have e: "encodes (xall [xfield xdr_uint32_t rj_low rj_low_update, xfield xdr_uint32_t rj_high rj_high_update]) rr
        (xdr_unit (rj_low rr) @ xdr_unit (rj_high rr) @ [])"
      by (intro encodes_xall_Cons encodes_xall_Nil encodes_xfield encodes_uint32_t) simp_all
    show ?thesis using True encodes_step [OF e, of rejected_body rr] by (simp add: rejected_body_def del: xall.simps)
  next
    case False
    have e: "encodes (xfield xdr_enum rj_why rj_why_update) rr (xdr_unit (rj_why rr))"
      by (intro encodes_xfield encodes_enum) simp
    show ?thesis using False assms encodes_step [OF e, of rejected_body rr] by (simp add: rejected_body_def)
  qed
  have "encodes xdr_rejected_reply rr (xdr_unit (rj_stat rr) @ ?tail @ [])"
    unfolding xdr_rejected_reply_def by (intro encodes_xall_Cons encodes_xall_Nil encodes_xfield encodes_enum tail) simp
  then show ?thesis by (simp only: rjct_wire_def append_Nil2)
qed

lemma encodes_replymsg:
  assumes m: "reply_wf m" and rs: "rp_stat (rm_reply m) = MSG_ACCEPTED \<Longrightarrow> results_out (rp_acpt (rm_reply m)) rs"
  shows "encodes xdr_replymsg m (reply_wire m (replicate (auth_pad (ar_verf (rp_acpt (rm_reply m)))) 0) rs)"
proof -
  let ?rp = "rm_reply m"
  let ?body = "if rp_stat ?rp = MSG_ACCEPTED then acpt_wire (rp_acpt ?rp) (replicate (auth_pad (ar_verf (rp_acpt ?rp))) 0) rs
    else rjct_wire (rp_rjct ?rp)"
  have dir: "rm_direction m = REPLY" using m by (simp add: reply_wf_def)
  obtain p where p: "(case map_of reply_dscrm (rp_stat ?rp) of Some p \<Rightarrow> Some p | None \<Rightarrow> None) = Some p" "encodes p ?rp ?body"
  proof (cases "rp_stat ?rp = MSG_ACCEPTED")
    case True
    then show ?thesis using m rs that [of "xfield xdr_accepted_reply rp_acpt rp_acpt_update"]
      by (simp add: reply_dscrm_def reply_wf_def encodes_xfield encodes_accepted_reply)
  next
    case False
    then have d: "rp_stat ?rp = MSG_DENIED" and "rj_stat (rp_rjct ?rp) \<in> {RPC_MISMATCH, AUTH_ERROR}" using m by (auto simp: reply_wf_def)
    from encodes_rejected_reply [OF this(2)] show ?thesis using that [of "xfield xdr_rejected_reply rp_rjct rp_rjct_update"]
      by (simp add: reply_dscrm_def d encodes_xfield)
  qed
  have u: "encodes xdr_reply_union ?rp (xdr_unit (rp_stat ?rp) @ ?body)"
    unfolding xdr_reply_union_def by (rule encodes_xfield) (use encodes_union [OF p] in simp_all)
  have e: "encodes (xall [xfield xdr_uint32_t rm_xid rm_xid_update, xfield xdr_enum rm_direction rm_direction_update,
      xtest (\<lambda>m. rm_direction m = REPLY), xfield xdr_reply_union rm_reply rm_reply_update]) m
      (xdr_unit (rm_xid m) @ xdr_unit (rm_direction m) @ [] @ (xdr_unit (rp_stat ?rp) @ ?body) @ [])"
    by (intro encodes_xall_Cons encodes_xall_Nil encodes_xfield encodes_xtest encodes_enum encodes_uint32_t u) (simp_all add: dir)
  show ?thesis using encodes_step [OF e, of xdr_replymsg m] by (simp add: xdr_replymsg_def reply_wire_def dir del: xall.simps)
qed

end

context xdr_reader
begin

definition results_in :: "('s, 'r) accepted_reply \<Rightarrow> 32 word \<Rightarrow> octets \<Rightarrow> 'r \<Rightarrow> bool" where
  "results_in ar0 stat rs w \<longleftrightarrow>
     (stat = SUCCESS \<longrightarrow> (case ar_proc ar0 of Some p \<Rightarrow> decodes p (ar_where ar0) rs w | None \<Rightarrow> rs = [] \<and> w = ar_where ar0))"

lemma decodes_accepted_reply:
  assumes "auth_wf (ar_verf ar)" "length pad = auth_pad (ar_verf ar)" "auth_room (ar_verf ar0) (ar_verf ar)"
    and rs: "results_in ar0 (ar_stat ar) rs w"
  shows "decodes xdr_accepted_reply ar0 (acpt_wire ar pad rs) (got_acpt ar0 ar w)"
proof -
  let ?ar = "ar0\<lparr>ar_verf := got_auth (ar_verf ar0) (ar_verf ar), ar_stat := ar_stat ar\<rparr>"
  have tail: "decodes accepted_body ?ar (acpt_tail ar rs) (got_acpt ar0 ar w)"
  proof -
    consider "ar_stat ar = SUCCESS" "ar_proc ar0 = None" | p where "ar_stat ar = SUCCESS" "ar_proc ar0 = Some p"
      | "ar_stat ar = PROG_MISMATCH" | "ar_stat ar \<noteq> SUCCESS" "ar_stat ar \<noteq> PROG_MISMATCH" by (cases "ar_proc ar0") auto
    then show ?thesis
    proof cases
      case 1
      then show ?thesis using rs
        by (simp add: acpt_tail_def results_in_def got_acpt_def accepted_body_def decodes_Nil)
    next
      case (2 p)
      then have e: "decodes (xfield p ar_where ar_where_update) ?ar rs (?ar\<lparr>ar_where := w\<rparr>)"
        using rs by (intro decodes_xfield) (simp_all add: results_in_def)
      show ?thesis using 2 decodes_step [OF e, of accepted_body ?ar "?ar\<lparr>ar_where := w\<rparr>"]
        by (simp add: acpt_tail_def accepted_body_def got_acpt_def)
    next
      case 3
      have e: "decodes (xall [xfield xdr_uint32_t ar_low ar_low_update, xfield xdr_uint32_t ar_high ar_high_update]) ?ar
          (xdr_unit (ar_low ar) @ xdr_unit (ar_high ar) @ []) (?ar\<lparr>ar_low := ar_low ar, ar_high := ar_high ar\<rparr>)"
        by (rule decodes_xall_field decodes_uint32_t decodes_xall_Nil)+
      show ?thesis using 3 decodes_step [OF e, of accepted_body ?ar "?ar\<lparr>ar_low := ar_low ar, ar_high := ar_high ar\<rparr>"]
        by (simp add: acpt_tail_def accepted_body_def got_acpt_def del: xall.simps)
    next
      case 4
      then show ?thesis by (simp add: acpt_tail_def got_acpt_def accepted_body_def decodes_Nil)
    qed
  qed
  have "decodes xdr_accepted_reply ar0 (auth_wire (ar_verf ar) pad @ xdr_unit (ar_stat ar) @ acpt_tail ar rs @ []) (got_acpt ar0 ar w)"
    unfolding xdr_accepted_reply_def
    by (rule decodes_xall_field decodes_opaque_auth assms(1-3) decodes_enum decodes_xall_Cons [OF tail] decodes_xall_Nil)+
  then show ?thesis by (simp add: acpt_wire_def)
qed

lemma decodes_rejected_reply:
  assumes "rj_stat rr \<in> {RPC_MISMATCH, AUTH_ERROR}"
  shows "decodes xdr_rejected_reply rr0 (rjct_wire rr) (got_rjct rr0 rr)"
proof -
  let ?tail = "if rj_stat rr = RPC_MISMATCH then xdr_unit (rj_low rr) @ xdr_unit (rj_high rr) else xdr_unit (rj_why rr)"
  let ?rr = "rr0\<lparr>rj_stat := rj_stat rr\<rparr>"
  have tail: "decodes rejected_body ?rr ?tail (got_rjct rr0 rr)"
  proof (cases "rj_stat rr = RPC_MISMATCH")
    case True
    have e: "decodes (xall [xfield xdr_uint32_t rj_low rj_low_update, xfield xdr_uint32_t rj_high rj_high_update]) ?rr
        (xdr_unit (rj_low rr) @ xdr_unit (rj_high rr) @ []) (?rr\<lparr>rj_low := rj_low rr, rj_high := rj_high rr\<rparr>)"
      by (rule decodes_xall_field decodes_uint32_t decodes_xall_Nil)+
    show ?thesis using True decodes_step [OF e, of rejected_body ?rr "?rr\<lparr>rj_low := rj_low rr, rj_high := rj_high rr\<rparr>"]
      by (simp add: rejected_body_def got_rjct_def del: xall.simps)
  next
    case False
    have e: "decodes (xfield xdr_enum rj_why rj_why_update) ?rr (xdr_unit (rj_why rr)) (?rr\<lparr>rj_why := rj_why rr\<rparr>)"
      by (rule decodes_xfield, rule decodes_enum, rule refl)
    show ?thesis using False assms decodes_step [OF e, of rejected_body ?rr "?rr\<lparr>rj_why := rj_why rr\<rparr>"]
      by (simp add: rejected_body_def got_rjct_def)
  qed
  have "decodes xdr_rejected_reply rr0 (xdr_unit (rj_stat rr) @ ?tail @ []) (got_rjct rr0 rr)"
    unfolding xdr_rejected_reply_def by (rule decodes_xall_field decodes_enum decodes_xall_Cons [OF tail] decodes_xall_Nil)+
  then show ?thesis by (simp only: rjct_wire_def append_Nil2)
qed

definition reply_in :: "('s, 'r) rpc_msg \<Rightarrow> ('s, 'r) rpc_msg \<Rightarrow> octets \<Rightarrow> 'r \<Rightarrow> bool" where
  "reply_in m0 m rs w \<longleftrightarrow> (rp_stat (rm_reply m) = MSG_ACCEPTED \<longrightarrow>
     auth_room (ar_verf (rp_acpt (rm_reply m0))) (ar_verf (rp_acpt (rm_reply m))) \<and>
     results_in (rp_acpt (rm_reply m0)) (ar_stat (rp_acpt (rm_reply m))) rs w)"

lemma decodes_acpt_field:
  assumes "reply_wf m" "rp_stat (rm_reply m) = MSG_ACCEPTED" "length pad = auth_pad (ar_verf (rp_acpt (rm_reply m)))" "reply_in m0 m rs w"
    and "rp_acpt rp = rp_acpt (rm_reply m0)"
  shows "decodes (xfield xdr_accepted_reply rp_acpt rp_acpt_update) rp (acpt_wire (rp_acpt (rm_reply m)) pad rs)
    (rp\<lparr>rp_acpt := got_acpt (rp_acpt (rm_reply m0)) (rp_acpt (rm_reply m)) w\<rparr>)"
proof (rule decodes_xfield)
  show "decodes xdr_accepted_reply (rp_acpt rp) (acpt_wire (rp_acpt (rm_reply m)) pad rs)
      (got_acpt (rp_acpt (rm_reply m0)) (rp_acpt (rm_reply m)) w)"
    unfolding assms(5) by (rule decodes_accepted_reply) (use assms in \<open>simp_all add: reply_wf_def reply_in_def\<close>)
qed simp

lemma decodes_rjct_field:
  assumes "reply_wf m" "rp_stat (rm_reply m) \<noteq> MSG_ACCEPTED" "rp_rjct rp = rp_rjct (rm_reply m0)"
  shows "decodes (xfield xdr_rejected_reply rp_rjct rp_rjct_update) rp (rjct_wire (rp_rjct (rm_reply m)))
    (rp\<lparr>rp_rjct := got_rjct (rp_rjct (rm_reply m0)) (rp_rjct (rm_reply m))\<rparr>)"
proof (rule decodes_xfield)
  show "decodes xdr_rejected_reply (rp_rjct rp) (rjct_wire (rp_rjct (rm_reply m))) (got_rjct (rp_rjct (rm_reply m0)) (rp_rjct (rm_reply m)))"
    unfolding assms(3) by (rule decodes_rejected_reply) (use assms(1,2) in \<open>auto simp: reply_wf_def\<close>)
qed simp

definition reply_pick :: "32 word \<Rightarrow> ('s, ('s, 'r) reply_body) xdrproc" where
  "reply_pick stat = (if stat = MSG_ACCEPTED then xfield xdr_accepted_reply rp_acpt rp_acpt_update
     else xfield xdr_rejected_reply rp_rjct rp_rjct_update)"

definition got_body :: "('s, 'r) rpc_msg \<Rightarrow> ('s, 'r) rpc_msg \<Rightarrow> 'r \<Rightarrow> ('s, 'r) reply_body \<Rightarrow> ('s, 'r) reply_body" where
  "got_body m0 m w rp = rp\<lparr>
     rp_acpt := if rp_stat (rm_reply m) = MSG_ACCEPTED then got_acpt (rp_acpt (rm_reply m0)) (rp_acpt (rm_reply m)) w else rp_acpt (rm_reply m0),
     rp_rjct := if rp_stat (rm_reply m) = MSG_ACCEPTED then rp_rjct (rm_reply m0) else got_rjct (rp_rjct (rm_reply m0)) (rp_rjct (rm_reply m))\<rparr>"

lemma decodes_reply_pick:
  assumes m: "reply_wf m" and pad: "length pad = auth_pad (ar_verf (rp_acpt (rm_reply m)))" and w: "reply_in m0 m rs w"
    and rp: "rp_acpt rp = rp_acpt (rm_reply m0)" "rp_rjct rp = rp_rjct (rm_reply m0)"
  shows "decodes (reply_pick (rp_stat (rm_reply m))) rp
    (if rp_stat (rm_reply m) = MSG_ACCEPTED then acpt_wire (rp_acpt (rm_reply m)) pad rs else rjct_wire (rp_rjct (rm_reply m)))
    (got_body m0 m w rp)"
proof (cases "rp_stat (rm_reply m) = MSG_ACCEPTED")
  case True
  have "got_body m0 m w rp = rp\<lparr>rp_acpt := got_acpt (rp_acpt (rm_reply m0)) (rp_acpt (rm_reply m)) w\<rparr>"
    using True rp by (cases rp) (simp add: got_body_def)
  then show ?thesis using decodes_acpt_field [OF m True pad w rp(1)] True by (simp add: reply_pick_def)
next
  case False
  have "got_body m0 m w rp = rp\<lparr>rp_rjct := got_rjct (rp_rjct (rm_reply m0)) (rp_rjct (rm_reply m))\<rparr>"
    using False rp by (cases rp) (simp add: got_body_def)
  then show ?thesis using decodes_rjct_field [OF m False rp(2)] False by (simp add: reply_pick_def)
qed

lemma decodes_replymsg_general:
  assumes m: "reply_wf m" and pad: "length pad = auth_pad (ar_verf (rp_acpt (rm_reply m)))" and w: "reply_in m0 m rs w"
  shows "decodes (xall [xfield xdr_uint32_t rm_xid rm_xid_update, xfield xdr_enum rm_direction rm_direction_update,
      xtest (\<lambda>m. rm_direction m = REPLY), xfield xdr_reply_union rm_reply rm_reply_update])
    m0 (reply_wire m pad rs) (got_reply m0 m w)"
proof -
  let ?rp = "rm_reply m" and ?rpz = "rm_reply m0"
  let ?body = "if rp_stat ?rp = MSG_ACCEPTED then acpt_wire (rp_acpt ?rp) pad rs else rjct_wire (rp_rjct ?rp)"
  have d: "(case map_of reply_dscrm (rp_stat ?rp) of Some p \<Rightarrow> Some p | None \<Rightarrow> None) = Some (reply_pick (rp_stat ?rp))"
    using m by (auto simp: reply_dscrm_def reply_pick_def reply_wf_def)
  note un = decodes_union [OF d decodes_reply_pick [OF m pad w refl refl], where ?d0.0 = "rp_stat ?rpz"]
  have u: "decodes xdr_reply_union ?rpz (xdr_unit (rp_stat ?rp) @ ?body) ((got_body m0 m w ?rpz)\<lparr>rp_stat := rp_stat ?rp\<rparr>)"
    unfolding xdr_reply_union_def by (rule decodes_xfield, rule un) simp
  then have u': "decodes xdr_reply_union (rm_reply (m0\<lparr>rm_xid := rm_xid m, rm_direction := REPLY\<rparr>))
      (xdr_unit (rp_stat ?rp) @ ?body) ((got_body m0 m w ?rpz)\<lparr>rp_stat := rp_stat ?rp\<rparr>)" by simp
  have got: "m0\<lparr>rm_xid := rm_xid m, rm_direction := REPLY, rm_reply := (got_body m0 m w ?rpz)\<lparr>rp_stat := rp_stat ?rp\<rparr>\<rparr> = got_reply m0 m w"
    by (cases ?rpz) (simp add: got_reply_def got_body_def)
  have "decodes (xall [xfield xdr_uint32_t rm_xid rm_xid_update, xfield xdr_enum rm_direction rm_direction_update,
      xtest (\<lambda>m. rm_direction m = REPLY), xfield xdr_reply_union rm_reply rm_reply_update]) m0
      (xdr_unit (rm_xid m) @ xdr_unit REPLY @ (xdr_unit (rp_stat ?rp) @ ?body) @ []) (got_reply m0 m w)"
    by (rule decodes_xall_field decodes_xall_test decodes_uint32_t decodes_enum decodes_xall_end u' | (simp add: got; fail))+
  then show ?thesis by (simp add: reply_wire_def)
qed

lemma decodes_replymsg:
  assumes m: "reply_wf m" and pad: "length pad = auth_pad (ar_verf (rp_acpt (rm_reply m)))" and w: "reply_in m0 m rs w"
  shows "decodes xdr_replymsg m0 (reply_wire m pad rs) (got_reply m0 m w)"
proof (rule decodesI)
  fix xdrs :: "'s XDR" and r
  assume x: "x_op xdrs = XDR_DECODE" "x_ops xdrs = ops" "ok (x_priv xdrs)" "inp (x_priv xdrs) = reply_wire m pad rs @ r"
  let ?rp = "rm_reply m" and ?rpz = "rm_reply m0"
  let ?body = "if rp_stat ?rp = MSG_ACCEPTED then acpt_wire (rp_acpt ?rp) pad rs else rjct_wire (rp_rjct ?rp)"
  let ?h = "xdr_unit (rm_xid m) @ xdr_unit REPLY @ xdr_unit (rp_stat ?rp)"
  have i: "inp (x_priv xdrs) = ?h @ ?body @ r" using x(4) by (simp add: reply_wire_def)
  have len: "length ?h = unat (3 * 4 :: 32 word)" "(3 * 4 :: 32 word) \<noteq> 0" by simp_all
  show "\<exists>t. xdr_replymsg xdrs m0 = Some (True, got_reply m0 m w, xdrs\<lparr>x_priv := t\<rparr>) \<and> ok t \<and> inp t = r"
  proof (rule INLINE [OF x(1-3) i len])
    assume "XDR_INLINE xdrs (3 * 4) = Some (None, xdrs)"
    then have "xdr_replymsg xdrs m0 = xall [xfield xdr_uint32_t rm_xid rm_xid_update, xfield xdr_enum rm_direction rm_direction_update,
      xtest (\<lambda>m. rm_direction m = REPLY), xfield xdr_reply_union rm_reply rm_reply_update] xdrs m0"
      using x(1) by (simp add: xdr_replymsg_def del: xall.simps)
    then show ?thesis using decodesD [OF decodes_replymsg_general [OF m pad w] x] by metis
  next
    fix q t assume t: "XDR_INLINE xdrs (3 * 4) = Some (Some q, xdrs\<lparr>x_priv := t\<rparr>)" "ok t" "inp t = ?body @ r" "reg q ?h t"
    let ?x = "xdrs\<lparr>x_priv := t\<rparr>" and ?rp1 = "?rpz\<lparr>rp_stat := rp_stat ?rp\<rparr>"
    have g: "IXDR_GET_INT32 ?x (iptr_add q n) = Some (l, iptr_add q (n + 4))"
      if "n + 4 \<le> length ?h" "take 4 (drop n ?h) = xdr_unit l" for n l
      by (rule reg_GET [where bs = ?h]) (use x(2) t(4) that in simp_all)
    have pick: "decodes (reply_pick (rp_stat ?rp)) ?rp1 ?body (got_body m0 m w ?rp1)"
      by (rule decodes_reply_pick [OF m pad w]) simp_all
    have xs: "x_op ?x = XDR_DECODE" "x_ops ?x = ops" "ok (x_priv ?x)" "inp (x_priv ?x) = ?body @ r" using x(1,2) t(2,3) by simp_all
    obtain u where u: "reply_pick (rp_stat ?rp) ?x ?rp1 = Some (True, got_body m0 m w ?rp1, ?x\<lparr>x_priv := u\<rparr>)" "ok u" "inp u = r"
      using decodesD [OF pick xs] .
    have "rp_stat ?rp = MSG_ACCEPTED \<or> rp_stat ?rp = MSG_DENIED" using m by (auto simp: reply_wf_def)
    then have "xdr_replymsg xdrs m0 = xfield (reply_pick (rp_stat ?rp)) rm_reply rm_reply_update ?x
        (m0\<lparr>rm_xid := rm_xid m, rm_direction := REPLY, rm_reply := ?rp1\<rparr>)"
      using x(1) t(1) g [of 0] g [of 4] g [of 8] by (auto simp: xdr_replymsg_def reply_pick_def iptr_add_def)
    then show ?thesis using u by (intro exI [of _ u]) (simp add: xfield_def got_reply_def got_body_def)
  qed
qed

end

end
