(* ===== verification/AuthCodec.thy ===== *)
theory AuthCodec
  imports RpcCodec RpcCall
begin

text \<open>
  The parameters of Unix-style authentication over every stream that keeps the interfaces of \<^theory_text>\<open>XdrStream\<close>, and read in
  place by the server.
\<close>

section \<open>The parameters on the wire\<close>

definition xucred_wf :: "xucred \<Rightarrow> bool" where
  "xucred_wf x \<longleftrightarrow> length (xcr_groups x) = NGROUPS \<and> 0 < xcr_ngroups x \<and> xcr_ngroups x \<le> NGROUPS"

definition cred_groups :: "xucred \<Rightarrow> gid list" where
  "cred_groups x = take (xcr_ngroups x - 1) (drop 1 (xcr_groups x))"

definition cred_wire :: "xucred \<Rightarrow> octets" where
  "cred_wire x = xdr_unit (xcr_uid x) @ xdr_unit (xcr_groups x ! 0) @ xdr_unit (of_nat (xcr_ngroups x - 1)) @
     concat (map xdr_unit (cred_groups x))"

definition host_len :: "octets \<Rightarrow> nat" where
  "host_len host = min (length (takeWhile (\<lambda>c. c \<noteq> 0) host)) 255"

text \<open>A host name is a C string in an array.\<close>

definition host_wf :: "octets \<Rightarrow> bool" where
  "host_wf host \<longleftrightarrow> 0 \<in> set host \<and> length host < 2 ^ 32"

definition parms_wire :: "octets \<Rightarrow> 32 word \<Rightarrow> xucred \<Rightarrow> octets" where
  "parms_wire host time x =
     xdr_unit time @ xdr_unit (of_nat (host_len host)) @ xdr_octets (take (host_len host) host) @ cred_wire x"

text \<open>What a reader makes of a credential \<open>x0\<close> when \<open>x\<close> is on the wire.\<close>

definition got_xucred :: "xucred \<Rightarrow> xucred \<Rightarrow> xucred" where
  "got_xucred x0 x = x0\<lparr>xcr_uid := xcr_uid x, xcr_ngroups := xcr_ngroups x,
     xcr_groups := take (xcr_ngroups x) (xcr_groups x) @ drop (xcr_ngroups x) (xcr_groups x0)\<rparr>"

lemma length_cred_groups: "xucred_wf x \<Longrightarrow> length (cred_groups x) = xcr_ngroups x - 1"
  by (auto simp: cred_groups_def xucred_wf_def)

lemma cred_groups_all:
  assumes "xucred_wf x"
  shows "xcr_groups x ! 0 # cred_groups x = take (xcr_ngroups x) (xcr_groups x)"
  using assms by (cases "xcr_groups x"; cases "xcr_ngroups x") (simp_all add: cred_groups_def xucred_wf_def)

lemma got_groups:
  assumes "xucred_wf x" "length gs = NGROUPS" "xcr_ngroups x = Suc k"
  shows "take (0 + 1) (gs[0 := xcr_groups x ! 0]) @ cred_groups x @ drop (0 + 1 + k) (gs[0 := xcr_groups x ! 0]) =
    take (Suc k) (xcr_groups x) @ drop (Suc k) gs"
  using cred_groups_all [OF assms(1)] assms(2,3) by (cases gs) simp_all

context xdr_writer
begin

lemma encodes_groups_loop:
  assumes "i + n < NGROUPS" "length gs = NGROUPS"
  shows "encodes (groups_loop i n) (gs, j) (concat (map xdr_unit (take n (drop (i + 1) gs))))"
  using assms
proof (induction n arbitrary: i)
  case 0
  show ?case by (simp add: encodes_Nil)
next
  case (Suc n)
  have tail: "encodes (groups_loop (i + 1) n) (gs, j) (concat (map xdr_unit (take n (drop (i + 1 + 1) gs))))"
    by (rule Suc.IH) (use Suc.prems in simp_all)
  have "drop (i + 1) gs = gs ! (i + 1) # drop (i + 1 + 1) gs"
    using Suc.prems Cons_nth_drop_Suc [of "i + 1" gs] by simp
  then have eq: "concat (map xdr_unit (take (Suc n) (drop (i + 1) gs))) =
      xdr_unit (gs ! (i + 1)) @ concat (map xdr_unit (take n (drop (i + 1 + 1) gs)))" by simp
  show ?case unfolding eq
    by (rule encodes_then [OF encodes_uint32_t tail]) (use Suc.prems in simp)
qed

lemma encodes_authunix_groups:
  assumes "xucred_wf x"
  shows "encodes (authunix_groups g) x (xdr_unit (of_nat (xcr_ngroups x - 1)) @ concat (map xdr_unit (cred_groups x)))"
proof -
  obtain k where k: "xcr_ngroups x = Suc k" "k < NGROUPS" and gs: "length (xcr_groups x) = NGROUPS"
    using assms by (cases "xcr_ngroups x") (auto simp: xucred_wf_def)
  have un: "unat (of_nat k :: 32 word) = k" using k(2) by (intro unat_of_nat32) simp
  then have le: "\<not> NGRPS < (of_nat k :: 32 word)" using k(2) by (simp add: word_less_nat_alt)
  have loop: "encodes (groups_loop 0 k) (xcr_groups x, 0) (concat (map xdr_unit (cred_groups x)))"
    using encodes_groups_loop [of 0 k "xcr_groups x" 0] k gs by (simp add: cred_groups_def)
  have "encodes (authunix_groups g) x (xdr_unit (of_nat k) @ concat (map xdr_unit (cred_groups x)))"
    by (rule encodes_then [OF encodes_uint32_t loop]) (simp add: authunix_groups_def Let_def k(1) un le)
  then show ?thesis using k(1) by simp
qed

lemma encodes_authunix_cred:
  assumes "xucred_wf x"
  shows "encodes (authunix_cred g) x (cred_wire x)"
proof -
  have gs: "0 < length (xcr_groups x)" using assms by (simp add: xucred_wf_def)
  have z: "encodes (\<lambda>xdrs cred. do { assert_opt (0 < length (xcr_groups cred));
         xfield xdr_uint32_t (\<lambda>cred. xcr_groups cred ! 0)
           (\<lambda>f cred. cred\<lparr>xcr_groups := (xcr_groups cred)[0 := f (xcr_groups cred ! 0)]\<rparr>) xdrs cred }) x (xdr_unit (xcr_groups x ! 0))"
    by (rule encodes_step [OF encodes_xfield [OF encodes_uint32_t]]) (use gs in simp_all)
  have "encodes (authunix_cred g) x (xdr_unit (xcr_uid x) @ xdr_unit (xcr_groups x ! 0) @
      (xdr_unit (of_nat (xcr_ngroups x - 1)) @ concat (map xdr_unit (cred_groups x))) @ [])"
    unfolding authunix_cred_def
    by (intro encodes_xall_Cons encodes_xall_Nil encodes_xfield encodes_uint32_t z encodes_authunix_groups assms) simp
  then show ?thesis by (simp add: cred_wire_def)
qed

lemma encodes_authunix_head:
  assumes "host_wf host"
  shows "encodes (authunix_head host) time
    (xdr_unit time @ xdr_unit (of_nat (host_len host)) @ xdr_octets (take (host_len host) host))"
proof -
  let ?l = "length (takeWhile (\<lambda>c. c \<noteq> 0) host)" and ?n = "host_len host"
  have l: "strlen host = Some ?l" "?l \<le> length host" "?l < 2 ^ 32"
    using assms length_takeWhile_le [of "\<lambda>c. c \<noteq> 0" host] by (auto simp: strlen_def host_wf_def)
  have n: "unat (of_nat ?n :: 32 word) = ?n" "?n \<le> length host" using l(2) by (auto simp: host_len_def intro: unat_of_nat32)
  have "(if (of_nat ?l :: 32 word) > 255 then 255 else of_nat ?l) = (of_nat ?n :: 32 word)"
    using unat_of_nat32 [OF l(3)] by (auto simp: word_less_nat_alt host_len_def min_def)
  then have nl: "(do { n \<leftarrow> strlen host; let n = of_nat n; Some (if n > 255 then 255 else n) }) = Some (of_nat ?n :: 32 word)"
    using l(1) by (simp add: Let_def)
  have op: "encodes (\<lambda>xdrs cp. xdr_opaque xdrs cp (of_nat ?n)) host (xdr_octets (take ?n host))"
    using encodes_opaque [of "of_nat ?n" host] n by simp
  let ?rest = "\<lambda>xdrs time. do { (b, namelen, xdrs) \<leftarrow> xdr_uint32_t xdrs (of_nat ?n);
      if \<not> b then Some (False, time, xdrs)
      else if x_op xdrs = XDR_ENCODE then do { (b, _, xdrs) \<leftarrow> xdr_opaque xdrs host namelen; Some (b, time, xdrs) }
      else do { pos \<leftarrow> XDR_GETPOS xdrs; (_, xdrs) \<leftarrow> XDR_SETPOS xdrs (pos + RNDUP namelen); Some (True, time, xdrs) } }"
  have rest: "encodes ?rest time (xdr_unit (of_nat ?n) @ xdr_octets (take ?n host))"
    by (rule encodes_then [OF encodes_uint32_t op]) simp
  show ?thesis
    by (rule encodes_then [OF encodes_uint32_t rest]) (simp add: authunix_head_def nl)
qed

lemma encodes_authunix_parms:
  assumes "host_wf host" "xucred_wf (aup_cred a)" "\<not> aup_mtx a"
  shows "encodes (xdr_authunix_parms host g) a (parms_wire host (aup_time a) (aup_cred a))"
proof -
  have "encodes (xdr_authunix_parms host g) a
      ((xdr_unit (aup_time a) @ xdr_unit (of_nat (host_len host)) @ xdr_octets (take (host_len host) host)) @ cred_wire (aup_cred a))"
    by (rule encodes_then [OF encodes_authunix_head [OF assms(1)] encodes_authunix_cred [where g = g, OF assms(2)]])
      (use assms(3) in \<open>cases a, simp add: xdr_authunix_parms_def\<close>)
  then show ?thesis by (simp add: parms_wire_def)
qed

end

context xdr_seeker
begin

lemma decodes_groups_loop:
  assumes "i + length vs < NGROUPS" "length gs = NGROUPS"
  shows "decodes (groups_loop i (length vs)) (gs, j) (concat (map xdr_unit vs))
    (take (i + 1) gs @ vs @ drop (i + 1 + length vs) gs, j)"
  using assms
proof (induction vs arbitrary: i gs)
  case Nil
  then show ?case by (simp add: decodes_Nil)
next
  case (Cons v vs)
  let ?gs = "gs[i + 1 := v]"
  have "decodes (groups_loop (i + 1) (length vs)) (?gs, j) (concat (map xdr_unit vs))
      (take (i + 1 + 1) ?gs @ vs @ drop (i + 1 + 1 + length vs) ?gs, j)"
    by (rule Cons.IH) (use Cons.prems in simp_all)
  moreover have "take (i + 1 + 1) ?gs @ vs @ drop (i + 1 + 1 + length vs) ?gs = take (i + 1) gs @ (v # vs) @ drop (i + 1 + length (v # vs)) gs"
    using Cons.prems by (simp add: take_Suc_conv_app_nth)
  ultimately have tail: "decodes (groups_loop (i + 1) (length vs)) (?gs, j) (concat (map xdr_unit vs))
      (take (i + 1) gs @ (v # vs) @ drop (i + 1 + length (v # vs)) gs, j)" by simp
  have "decodes (groups_loop i (Suc (length vs))) (gs, j) (xdr_unit v @ concat (map xdr_unit vs))
      (take (i + 1) gs @ (v # vs) @ drop (i + 1 + length (v # vs)) gs, j)"
    by (rule decodes_then [OF decodes_uint32_t [of "gs ! (i + 1)"] tail]) (use Cons.prems in simp)
  then show ?case by simp
qed

lemma decodes_authunix_groups:
  assumes "xucred_wf x" "length (xcr_groups x0) = NGROUPS"
  shows "decodes (authunix_groups g) (x0\<lparr>xcr_uid := xcr_uid x, xcr_groups := (xcr_groups x0)[0 := xcr_groups x ! 0]\<rparr>)
    (xdr_unit (of_nat (xcr_ngroups x - 1)) @ concat (map xdr_unit (cred_groups x))) (got_xucred x0 x)"
proof -
  obtain k where k: "xcr_ngroups x = Suc k" "k < NGROUPS" using assms by (cases "xcr_ngroups x") (auto simp: xucred_wf_def)
  have un: "unat (of_nat k :: 32 word) = k" using k(2) by (intro unat_of_nat32) simp
  have un1: "unat (of_nat k + 1 :: 32 word) = Suc k" using unat_of_nat32 [of "Suc k"] k(2) by (simp add: add.commute)
  have vs: "length (cred_groups x) = k" using length_cred_groups [OF assms(1)] k(1) by simp
  let ?gs = "(xcr_groups x0)[0 := xcr_groups x ! 0]"
  note loop = decodes_groups_loop [of 0 "cred_groups x" ?gs 0, unfolded vs]
  have pre: "0 + k < NGROUPS" "length ?gs = NGROUPS" using k(2) assms(2) by simp_all
  have loop': "decodes (groups_loop 0 k) (?gs, 0) (concat (map xdr_unit (cred_groups x)))
      (take (Suc k) (xcr_groups x) @ drop (Suc k) (xcr_groups x0), 0)"
    using loop [OF pre] unfolding got_groups [OF assms k(1)] .
  have "decodes (authunix_groups g) (x0\<lparr>xcr_uid := xcr_uid x, xcr_groups := ?gs\<rparr>)
      (xdr_unit (of_nat k) @ concat (map xdr_unit (cred_groups x))) (got_xucred x0 x)"
    by (rule decodes_then [OF decodes_uint32_t [of g] loop'])
      (use un1 k in \<open>simp add: authunix_groups_def Let_def un word_less_nat_alt got_xucred_def\<close>)
  then show ?thesis using k(1) by simp
qed

lemma decodes_authunix_cred:
  assumes "xucred_wf x" "length (xcr_groups x0) = NGROUPS"
  shows "decodes (authunix_cred g) x0 (cred_wire x) (got_xucred x0 x)"
proof -
  let ?x = "x0\<lparr>xcr_uid := xcr_uid x\<rparr>"
  have z: "decodes (\<lambda>xdrs cred. do { assert_opt (0 < length (xcr_groups cred));
         xfield xdr_uint32_t (\<lambda>cred. xcr_groups cred ! 0)
           (\<lambda>f cred. cred\<lparr>xcr_groups := (xcr_groups cred)[0 := f (xcr_groups cred ! 0)]\<rparr>) xdrs cred }) ?x (xdr_unit (xcr_groups x ! 0))
         (x0\<lparr>xcr_uid := xcr_uid x, xcr_groups := (xcr_groups x0)[0 := xcr_groups x ! 0]\<rparr>)"
    by (rule decodes_step [OF decodes_xfield [where fld = "\<lambda>cred. xcr_groups cred ! 0" and a = ?x and
          upd = "\<lambda>f cred. cred\<lparr>xcr_groups := (xcr_groups cred)[0 := f (xcr_groups cred ! 0)]\<rparr>", OF decodes_uint32_t refl]])
      (use assms(2) in simp)
  have tail: "decodes (xall [authunix_groups g]) (x0\<lparr>xcr_uid := xcr_uid x, xcr_groups := (xcr_groups x0)[0 := xcr_groups x ! 0]\<rparr>)
      ((xdr_unit (of_nat (xcr_ngroups x - 1)) @ concat (map xdr_unit (cred_groups x))) @ []) (got_xucred x0 x)"
    by (rule decodes_xall_Cons [OF decodes_authunix_groups [OF assms] decodes_xall_Nil])
  have "decodes (authunix_cred g) x0 (xdr_unit (xcr_uid x) @ xdr_unit (xcr_groups x ! 0) @
      ((xdr_unit (of_nat (xcr_ngroups x - 1)) @ concat (map xdr_unit (cred_groups x))) @ [])) (got_xucred x0 x)"
    unfolding authunix_cred_def
    by (rule decodes_xall_field, rule decodes_uint32_t, rule decodes_xall_Cons [OF _ tail], use z in simp)
  then show ?thesis by (simp add: cred_wire_def)
qed

lemma seek_skip:
  assumes "x_ops xdrs = ops" "ok (x_priv xdrs)" "inp (x_priv xdrs) = bs @ r" "r \<noteq> []" "unat n = length bs"
  obtains pos t where "XDR_GETPOS xdrs = Some pos" "XDR_SETPOS xdrs (pos + n) = Some (True, xdrs\<lparr>x_priv := t\<rparr>)" "ok t" "inp t = r"
proof -
  have l: "length bs < 2 ^ 32" using unsigned_less [of n, where ?'a = nat] assms(5) by simp
  obtain pos t where t: "x_getpostn ops (x_priv xdrs) = Some pos"
    "x_setpostn ops (pos + of_nat (length bs)) (x_priv xdrs) = Some (True, t)" "ok t" "inp t = r"
    using seek [OF assms(2-4) l] by blast
  have "n = of_nat (length bs)" using assms(5) by (simp flip: assms(5))
  then show ?thesis using that t assms(1) by (simp add: XDR_GETPOS_def XDR_SETPOS_def)
qed

lemma decodes_authunix_parms:
  assumes "xucred_wf x" "length (xcr_groups x0) = NGROUPS" and host: "host_wf host"
  shows "decodes (xdr_authunix_parms host' g) \<lparr>aup_mtx = False, aup_time = t0, aup_cred = x0\<rparr> (parms_wire host time x)
    \<lparr>aup_mtx = False, aup_time = time, aup_cred = got_xucred x0 x\<rparr>"
proof (rule decodesI)
  fix xdrs :: "'a XDR" and r
  let ?n = "of_nat (host_len host) :: 32 word"
  have n: "unat ?n = host_len host" "host_len host \<le> length host" 
    using host length_takeWhile_le [of "\<lambda>c. c \<noteq> 0" host] by (auto simp: host_len_def intro: unat_of_nat32)
  assume x: "x_op xdrs = XDR_DECODE" "x_ops xdrs = ops" "ok (x_priv xdrs)" and i: "inp (x_priv xdrs) = parms_wire host time x @ r"
  obtain t u where u: "xdr_uint32_t xdrs t0 = Some (True, time, xdrs\<lparr>x_priv := t\<rparr>)"
    "xdr_uint32_t (xdrs\<lparr>x_priv := t\<rparr>) 0 = Some (True, ?n, xdrs\<lparr>x_priv := u\<rparr>)" "ok u"
    "inp u = xdr_octets (take (host_len host) host) @ cred_wire x @ r"
    by (rule decodesD2 [OF decodes_uint32_t [of t0 time] decodes_uint32_t [of 0 ?n] x]) (simp add: i parms_wire_def)
  have "unat (RNDUP ?n) = length (xdr_octets (take (host_len host) host))"
    using n by (subst RNDUP_eq) (simp_all add: xdr_octets_def host_len_def)
  moreover have "x_ops (xdrs\<lparr>x_priv := u\<rparr>) = ops" "ok (x_priv (xdrs\<lparr>x_priv := u\<rparr>))"
    "inp (x_priv (xdrs\<lparr>x_priv := u\<rparr>)) = xdr_octets (take (host_len host) host) @ cred_wire x @ r" "cred_wire x @ r \<noteq> []"
    using x u by (simp_all add: cred_wire_def)
  ultimately obtain pos v where v: "XDR_GETPOS (xdrs\<lparr>x_priv := u\<rparr>) = Some pos"
    "XDR_SETPOS (xdrs\<lparr>x_priv := u\<rparr>) (pos + RNDUP ?n) = Some (True, xdrs\<lparr>x_priv := u\<rparr>\<lparr>x_priv := v\<rparr>)" "ok v" "inp v = cred_wire x @ r"
    using seek_skip by metis
  obtain w where w: "authunix_cred g (xdrs\<lparr>x_priv := v\<rparr>) x0 = Some (True, got_xucred x0 x, xdrs\<lparr>x_priv := v\<rparr>\<lparr>x_priv := w\<rparr>)" "ok w" "inp w = r"
    by (rule decodesD [OF decodes_authunix_cred [OF assms(1,2)], of "xdrs\<lparr>x_priv := v\<rparr>"]) (use x v in simp_all)
  show "\<exists>t. xdr_authunix_parms host' g xdrs \<lparr>aup_mtx = False, aup_time = t0, aup_cred = x0\<rparr> =
      Some (True, \<lparr>aup_mtx = False, aup_time = time, aup_cred = got_xucred x0 x\<rparr>, xdrs\<lparr>x_priv := t\<rparr>) \<and> ok t \<and> inp t = r"
    using x u v w by (intro exI [of _ w]) (simp add: xdr_authunix_parms_def authunix_head_def)
qed

end

context xdr_reader
begin

lemma iptr_add_plus: "iptr_add (iptr_add q a) b = iptr_add q (a + b)"
  by (simp add: iptr_add_def)

lemma reg_at:
  assumes "x_ops xdrs = ops" "reg q (pre @ xdr_unit l @ suf) (x_priv xdrs)" "n = length pre"
  shows "IXDR_GET_INT32 xdrs (iptr_add q n) = Some (l, iptr_add q (n + 4))"
  by (rule reg_GET [OF assms(1,2)]) (simp_all add: assms(3))

lemma groups_inline_wire:
  assumes "x_ops xdrs = ops" "reg q (pre @ concat (map xdr_unit vs) @ suf) (x_priv xdrs)" "i + length vs < NGROUPS" "length gs = NGROUPS"
  shows "groups_inline i (length vs) xdrs (iptr_add q (length pre)) gs =
    Some (take (i + 1) gs @ vs @ drop (i + 1 + length vs) gs, iptr_add q (length pre + 4 * length vs))"
  using assms
proof (induction vs arbitrary: i gs pre)
  case Nil
  then show ?case by simp
next
  case (Cons v vs)
  have "groups_inline (i + 1) (length vs) xdrs (iptr_add q (length (pre @ xdr_unit v))) (gs[i + 1 := v]) =
    Some (take (i + 1 + 1) (gs[i + 1 := v]) @ vs @ drop (i + 1 + 1 + length vs) (gs[i + 1 := v]),
      iptr_add q (length (pre @ xdr_unit v) + 4 * length vs))"
    by (rule Cons.IH) (use Cons.prems in simp_all)
  moreover have "IXDR_GET_INT32 xdrs (iptr_add q (length pre)) = Some (v, iptr_add q (length pre + 4))"
    by (rule reg_at [where pre = pre and suf = "concat (map xdr_unit vs) @ suf"]) (use Cons.prems in simp_all)
  ultimately show ?case using Cons.prems by (simp add: take_Suc_conv_app_nth add.assoc)
qed

lemma svcauth_unix_inline_wire:
  assumes ops: "x_ops xdrs = ops" and r: "reg q (parms_wire host time x) (x_priv xdrs)"
    and x: "xucred_wf x" "length (xcr_groups x0) = NGROUPS" and host: "host_wf host"
    and len: "unat auth_len = length (parms_wire host time x)"
  shows "svcauth_unix_inline xdrs (iptr_add q 0) auth_len x0 = Some (AUTH_OK, got_xucred x0 x)"
proof -
  let ?n = "of_nat (host_len host) :: 32 word" and ?h = "xdr_octets (take (host_len host) host)"
  let ?head = "xdr_unit time @ xdr_unit ?n @ ?h" and ?k = "of_nat (xcr_ngroups x - 1) :: 32 word"
  have n: "unat ?n = host_len host" "host_len host \<le> 255" "host_len host \<le> length host"
    using host length_takeWhile_le [of "\<lambda>c. c \<noteq> 0" host] by (auto simp: host_len_def intro: unat_of_nat32)
  have lh: "length ?h = host_len host + xdr_pad (host_len host)" using n by (simp add: xdr_octets_def)
  have skip: "unat (RNDUP ?n div 4) * 4 = length ?h" "unat (RNDUP ?n) = length ?h"
    using RNDUP_div [of ?n] RNDUP_eq [of ?n] n lh by simp_all
  obtain k where k: "xcr_ngroups x = Suc k" "k < NGROUPS" using x by (cases "xcr_ngroups x") (auto simp: xucred_wf_def)
  have uk: "unat ?k = k" "unat (?k + 1) = Suc k" using k unat_of_nat32 [of "Suc k"] unat_of_nat32 [of k] by (simp_all add: add.commute)
  have vs: "length (cred_groups x) = k" using length_cred_groups [OF x(1)] k(1) by simp
  have w: "parms_wire host time x = xdr_unit time @ xdr_unit ?n @ ?h @ xdr_unit (xcr_uid x) @ xdr_unit (xcr_groups x ! 0) @
      xdr_unit ?k @ concat (map xdr_unit (cred_groups x))" by (simp add: parms_wire_def cred_wire_def)
  have get: "IXDR_GET_INT32 xdrs (iptr_add q m) = Some (l, iptr_add q (m + 4))"
    if "parms_wire host time x = pre @ xdr_unit l @ suf" "m = length pre" for pre l suf m
    using reg_at [OF ops _ that(2)] r that(1) by simp
  note gets = get [of "[]" time _ 0] get [of "xdr_unit time" ?n _ 4] get [of ?head "xcr_uid x" _ "8 + length ?h"]
    get [of "?head @ xdr_unit (xcr_uid x)" "xcr_groups x ! 0" _ "12 + length ?h"]
    get [of "?head @ xdr_unit (xcr_uid x) @ xdr_unit (xcr_groups x ! 0)" ?k _ "16 + length ?h"]
  let ?gs = "(xcr_groups x0)[0 := xcr_groups x ! 0]"
  have "reg q ((?head @ xdr_unit (xcr_uid x) @ xdr_unit (xcr_groups x ! 0) @ xdr_unit ?k) @ concat (map xdr_unit (cred_groups x)) @ []) (x_priv xdrs)"
    using r w by simp
  note loop = groups_inline_wire [OF ops this, of 0 ?gs, unfolded vs got_groups [OF x k(1)]]
  have groups: "groups_inline 0 k xdrs (iptr_add q (20 + length ?h)) ?gs =
      Some (take (Suc k) (xcr_groups x) @ drop (Suc k) (xcr_groups x0), iptr_add q (20 + length ?h + 4 * k))"
    using loop k(2) x(2) by (simp add: add.commute [of _ 12])
  have "RNDUP ?n = of_nat (length ?h)" by (simp flip: skip(2))
  moreover have "?k = of_nat k" using k(1) by simp
  ultimately have "(5 + ?k) * 4 + RNDUP ?n = of_nat ((5 + k) * 4 + length ?h)" by (simp add: algebra_simps)
  also have "(5 + k) * 4 + length ?h = unat auth_len" by (simp add: len w vs length_concat comp_def sum_list_triv)
  finally have "(5 + ?k) * 4 + RNDUP ?n = auth_len" by simp
  moreover have "xcr_groups x0 \<noteq> []" using x(2) by auto
  ultimately show ?thesis
    using gets n uk k x(2) groups by (simp add: svcauth_unix_inline_def w skip iptr_add_plus word_less_nat_alt got_xucred_def)
qed

end

end
