(* ===== verification/RpcAuth.thy ===== *)
theory RpcAuth
  imports AuthCodec
begin

text \<open>
  Calls with Unix-style authentication from end to end: the authenticator the client makes is what the wire format says,
  the request is the message of the protocol followed by the arguments, and the server takes from it the credential the client had.
\<close>

section \<open>Streams in memory\<close>

definition buf_ok :: "32 word \<Rightarrow> octets \<Rightarrow> bool" where
  "buf_ok addr m \<longleftrightarrow> addr \<noteq> 0 \<and> unat addr + length m < 2 ^ 32"

lemma mem_created:
  assumes "buf_ok addr m" "unat len \<le> length m"
  shows "xm_ok (x_priv (xdrmem_create addr m len xop))" "xm_inp (x_priv (xdrmem_create addr m len xop)) = take (unat len) m"
    "xm_fits n (x_priv (xdrmem_create addr m len xop)) \<longleftrightarrow> n \<le> unat len"
  using assms by (simp_all add: xdrmem_create_def buf_ok_def xm_ok_def xm_pos_def xm_inp_def xm_fits_def)

lemma mem_encodes:
  assumes "mw.encodes p v bs" "mwu.encodes p v bs" "buf_ok addr m" "unat len \<le> length m" "length bs \<le> unat len"
  obtains t where "p (xdrmem_create addr m len XDR_ENCODE) v = Some (True, v, (xdrmem_create addr m len XDR_ENCODE)\<lparr>x_priv := t\<rparr>)"
    "xm_wr bs (x_priv (xdrmem_create addr m len XDR_ENCODE)) t"
proof -
  let ?x = "xdrmem_create addr m len XDR_ENCODE"
  have x: "x_op ?x = XDR_ENCODE" by (simp add: xdrmem_create_def)
  note c = mem_created [OF assms(3,4), where xop = XDR_ENCODE]
  have f: "xm_fits (length bs) (x_priv ?x)" using c(3) assms(5) by simp
  consider "x_ops ?x = xdrmem_ops_aligned" | "x_ops ?x = xdrmem_ops_unaligned" by (cases "addr AND 3 \<noteq> 0") (simp_all add: xdrmem_create_def)
  then show ?thesis
    using mw.encodesD [OF assms(1) x _ c(1) f] mwu.encodesD [OF assms(2) x _ c(1) f] that by cases blast+
qed

lemma mem_written:
  assumes "buf_ok addr m" "unat len \<le> length m" "xm_wr bs (x_priv (xdrmem_create addr m len xop)) t"
  shows "xm_mem t = bs @ drop (length bs) m" "xdrmem_getpos t = Some (of_nat (length bs))"
  using assms by (simp_all add: xm_wr_def xdrmem_create_def xm_skip_def xm_put_def xm_pos_def xdrmem_getpos_def)

lemma mem_getpos: "XDR_GETPOS ((xdrmem_create addr m len xop)\<lparr>x_priv := t\<rparr>) = xdrmem_getpos t"
  by (simp add: XDR_GETPOS_def xdrmem_create_def xdrmem_ops_aligned_def xdrmem_ops_unaligned_def)

lemma mem_decodes:
  assumes "mr.decodes p v bs w" "mru.decodes p v bs w" "buf_ok addr m" "unat len \<le> length m" "take (unat len) m = bs @ r"
  obtains t where "p (xdrmem_create addr m len XDR_DECODE) v = Some (True, w, (xdrmem_create addr m len XDR_DECODE)\<lparr>x_priv := t\<rparr>)"
    "xm_ok t" "xm_inp t = r"
proof -
  let ?x = "xdrmem_create addr m len XDR_DECODE"
  have x: "x_op ?x = XDR_DECODE" by (simp add: xdrmem_create_def)
  note c = mem_created [OF assms(3,4), where xop = XDR_DECODE]
  have i: "xm_inp (x_priv ?x) = bs @ r" using c(2) assms(5) by simp
  consider "x_ops ?x = xdrmem_ops_aligned" | "x_ops ?x = xdrmem_ops_unaligned" by (cases "addr AND 3 \<noteq> 0") (simp_all add: xdrmem_create_def)
  then show ?thesis
    using mr.decodesD [OF assms(1) x _ c(1) i] mru.decodesD [OF assms(2) x _ c(1) i] that by cases blast+
qed

section \<open>The client's authenticator\<close>

lemma length_parms_wire:
  assumes "xucred_wf x" "host_wf host"
  shows "length (parms_wire host time x) = 16 + host_len host + xdr_pad (host_len host) + 4 * xcr_ngroups x"
    "length (parms_wire host time x) \<le> 338"
proof -
  have h: "host_len host \<le> 255" "host_len host \<le> length host"
    using length_takeWhile_le [of "\<lambda>c. c \<noteq> 0" host] by (auto simp: host_len_def)
  obtain k where k: "xcr_ngroups x = Suc k" "k < NGROUPS" using assms by (cases "xcr_ngroups x") (auto simp: xucred_wf_def)
  show l: "length (parms_wire host time x) = 16 + host_len host + xdr_pad (host_len host) + 4 * xcr_ngroups x"
    using h length_cred_groups [OF assms(1)] k
    by (simp add: parms_wire_def cred_wire_def xdr_octets_def length_concat comp_def sum_list_triv)
  show "length (parms_wire host time x) \<le> 338" using l h k xdr_pad_le [of "host_len host"] by simp
qed

definition unix_auth :: "octets \<Rightarrow> 32 word \<Rightarrow> xucred \<Rightarrow> opaque_auth" where
  "unix_auth host time x = \<lparr>oa_flavor = AUTH_SYS, oa_base = Some (parms_wire host time x),
     oa_length = of_nat (length (parms_wire host time x))\<rparr>"

lemma unix_auth_wf:
  assumes "xucred_wf x" "host_wf host"
  shows "auth_wf (unix_auth host time x)" "auth_body (unix_auth host time x) = parms_wire host time x" "auth_pad (unix_auth host time x) = 0"
    "unat (oa_length (unix_auth host time x)) = length (parms_wire host time x)"
proof -
  let ?n = "length (parms_wire host time x)"
  have u: "unat (of_nat ?n :: 32 word) = ?n" using length_parms_wire [OF assms] by (intro unat_of_nat32) simp
  then show "unat (oa_length (unix_auth host time x)) = ?n" by (simp add: unix_auth_def)
  show "auth_wf (unix_auth host time x)" "auth_body (unix_auth host time x) = parms_wire host time x"
    using length_parms_wire(2) [OF assms, of time] u by (simp_all add: unix_auth_def auth_wf_def auth_body_def word_le_nat_alt)
  have "(host_len host + xdr_pad (host_len host)) mod 4 = 0" by (simp add: xdr_pad_def) presburger
  then have "?n mod 4 = 0" using length_parms_wire(1) [OF assms, of time] by presburger
  then show "auth_pad (unix_auth host time x) = 0" using u by (simp add: auth_pad_def unix_auth_def xdr_pad_def)
qed

definition unix_marshed :: "octets \<Rightarrow> 32 word \<Rightarrow> xucred \<Rightarrow> octets" where
  "unix_marshed host time x = auth_wire (unix_auth host time x) [] @ auth_wire null_auth []"

lemma null_auth_wf: "auth_wf null_auth" "auth_pad null_auth = 0"
  by (simp_all add: auth_wf_def null_auth_def auth_pad_def xdr_pad_def)

lemma length_unix_marshed:
  assumes "xucred_wf x" "host_wf host"
  shows "length (unix_marshed host time x) = 16 + length (parms_wire host time x)"
  by (simp add: unix_marshed_def auth_wire_def unix_auth_wf [OF assms]) (simp add: auth_body_def null_auth_def)

lemma marshal_new_auth_wire:
  assumes x: "xucred_wf x" "host_wf host" and b: "buf_ok addr (au_marshed au)" "length (au_marshed au) = 400"
    and au: "ah_cred au = unix_auth host time x" "ah_verf au = null_auth"
  shows "marshal_new_auth addr au = Some (au\<lparr>
    au_marshed := unix_marshed host time x @ drop (length (unix_marshed host time x)) (au_marshed au),
    au_mpos := of_nat (length (unix_marshed host time x))\<rparr>)"
proof -
  let ?p = "\<lambda>xdrs u. do { (b, _, xdrs) \<leftarrow> xdr_opaque_auth xdrs (ah_cred au);
    (b, xdrs) \<leftarrow> (if b then do { (b, _, xdrs) \<leftarrow> xdr_opaque_auth xdrs (ah_verf au); Some (b, xdrs) } else Some (False, xdrs));
    Some (b, u, xdrs) }"
  note wf = unix_auth_wf [OF x]
  have mw: "mw.encodes ?p () (unix_marshed host time x)" unfolding unix_marshed_def
    by (rule mw.encodes_then [OF mw.encodes_opaque_auth [OF wf(1), unfolded wf(3) replicate_0] mw.encodes_opaque_auth [OF null_auth_wf(1), unfolded null_auth_wf(2) replicate_0]])
      (simp add: au)
  have mwu: "mwu.encodes ?p () (unix_marshed host time x)" unfolding unix_marshed_def
    by (rule mwu.encodes_then [OF mwu.encodes_opaque_auth [OF wf(1), unfolded wf(3) replicate_0] mwu.encodes_opaque_auth [OF null_auth_wf(1), unfolded null_auth_wf(2) replicate_0]])
      (simp add: au)
  have len: "unat (MAX_AUTH_BYTES :: 32 word) \<le> length (au_marshed au)" "length (unix_marshed host time x) \<le> unat (MAX_AUTH_BYTES :: 32 word)"
    using b(2) length_unix_marshed [OF x] length_parms_wire(2) [OF x, of time] by simp_all
  obtain t where t: "?p (xdrmem_create addr (au_marshed au) MAX_AUTH_BYTES XDR_ENCODE) () = Some (True, (), (xdrmem_create addr (au_marshed au) MAX_AUTH_BYTES XDR_ENCODE)\<lparr>x_priv := t\<rparr>)"
    "xm_wr (unix_marshed host time x) (x_priv (xdrmem_create addr (au_marshed au) MAX_AUTH_BYTES XDR_ENCODE)) t"
    by (rule mem_encodes [OF mw mwu b(1) len])
  let ?x = "xdrmem_create addr (au_marshed au) MAX_AUTH_BYTES XDR_ENCODE"
  have "marshal_new_auth addr au = do { (b, _, xdrs) \<leftarrow> ?p ?x ();
      let au = au\<lparr>au_marshed := xm_mem (x_priv xdrs)\<rparr>;
      if b then do { pos \<leftarrow> XDR_GETPOS xdrs; Some (au\<lparr>au_mpos := pos\<rparr>) } else Some au }"
    by (simp add: marshal_new_auth_def Let_def split_def cong: if_cong)
  then show ?thesis unfolding t(1)
    using mem_written [OF b(1) len(1) t(2)] by (simp add: mem_getpos)
qed

definition unix_client :: "octets \<Rightarrow> 32 word \<Rightarrow> xucred \<Rightarrow> audata \<Rightarrow> bool" where
  "unix_client host time x au \<longleftrightarrow> au_xcred au = x \<and> ah_cred au = unix_auth host time x \<and>
     length (au_marshed au) = 400 \<and> blk_read (au_marshed au) (unat (au_mpos au)) = Some (unix_marshed host time x)"

lemma authunix_new_wire:
  assumes x: "xucred_wf x" "host_wf host" and b: "buf_ok stack mymem" "length mymem = 400" "buf_ok addr (replicate 400 0)"
  obtains au where "authunix_new host time stack mymem addr x = Some au" "unix_client host time x au" "au_refs au = 1" "ah_orig au"
proof -
  let ?a = "\<lparr>aup_mtx = False, aup_time = time, aup_cred = x\<rparr>" and ?w = "parms_wire host time x" and ?v = "unix_marshed host time x"
  have e: "mw.encodes (xdr_authunix_parms host 0) ?a ?w" "mwu.encodes (xdr_authunix_parms host 0) ?a ?w"
    using mw.encodes_authunix_parms [OF x(2), of ?a] mwu.encodes_authunix_parms [OF x(2), of ?a] x(1) by simp_all
  have len: "unat (MAX_AUTH_BYTES :: 32 word) \<le> length mymem" "length ?w \<le> unat (MAX_AUTH_BYTES :: 32 word)"
    using b(2) length_parms_wire(2) [OF x, of time] by simp_all
  obtain t where t: "xdr_authunix_parms host 0 (xdrmem_create stack mymem MAX_AUTH_BYTES XDR_ENCODE) ?a =
      Some (True, ?a, (xdrmem_create stack mymem MAX_AUTH_BYTES XDR_ENCODE)\<lparr>x_priv := t\<rparr>)"
    "xm_wr ?w (x_priv (xdrmem_create stack mymem MAX_AUTH_BYTES XDR_ENCODE)) t"
    by (rule mem_encodes [OF e b(1) len])
  let ?oa = "unix_auth host time x"
  let ?au = "\<lparr>au_refs = 1, au_xcred = x, au_origcred = ?oa, au_shcred = null_auth, au_shfaults = 0,
             au_marshed = replicate (unat (MAX_AUTH_BYTES :: 32 word)) 0, au_mpos = 0, ah_cred = ?oa, ah_verf = null_auth, ah_orig = True\<rparr>"
  have "authunix_new host time stack mymem addr x = marshal_new_auth addr ?au"
    using t(1) mem_written [OF b(1) len(1) t(2)] unix_auth_wf(4) [OF x, of time]
    by (simp add: authunix_new_def Let_def mem_getpos blk_read_def unix_auth_def)
  moreover have "marshal_new_auth addr ?au = Some (?au\<lparr>au_marshed := ?v @ drop (length ?v) (au_marshed ?au), au_mpos := of_nat (length ?v)\<rparr>)"
    by (rule marshal_new_auth_wire [OF x]) (use b(3) in simp_all)
  moreover have v: "length ?v \<le> 400"
    using length_unix_marshed [OF x, of time] length_parms_wire(2) [OF x, of time] by simp
  moreover have "unat (of_nat (length ?v) :: 32 word) = length ?v" using v by (intro unat_of_nat32) simp
  ultimately show ?thesis using that by (simp add: unix_client_def blk_read_def)
qed

section \<open>The client's request\<close>

context xdr_writer
begin

lemma encodes_callhdr:
  assumes "rm_direction m = CALL" "cb_rpcvers (rm_call m) = RPC_MSG_VERSION"
  shows "encodes xdr_callhdr m (xdr_unit (rm_xid m) @ xdr_unit CALL @ xdr_unit RPC_MSG_VERSION @ xdr_unit (cb_prog (rm_call m)) @ xdr_unit (cb_vers (rm_call m)))"
proof -
  have "encodes (xall [xfield xdr_uint32_t rm_xid rm_xid_update,
              xfield xdr_enum rm_direction rm_direction_update,
              cb_field xdr_uint32_t cb_rpcvers cb_rpcvers_update,
              cb_field xdr_uint32_t cb_prog cb_prog_update,
              cb_field xdr_uint32_t cb_vers cb_vers_update]) m
      (xdr_unit (rm_xid m) @ xdr_unit (rm_direction m) @ xdr_unit (cb_rpcvers (rm_call m)) @ xdr_unit (cb_prog (rm_call m)) @ xdr_unit (cb_vers (rm_call m)) @ [])"
    by (intro encodes_xall_Cons encodes_xall_Nil encodes_xfield encodes_enum encodes_uint32_t) simp_all
  moreover have "m\<lparr>rm_direction := CALL, rm_call := (rm_call m)\<lparr>cb_rpcvers := RPC_MSG_VERSION\<rparr>\<rparr> = m"
    by (simp flip: assms)
  ultimately show ?thesis unfolding assms append_Nil2 by (elim encodes_step) (simp add: xdr_callhdr_def)
qed

end

definition call_header :: "32 word \<Rightarrow> 32 word \<Rightarrow> 32 word \<Rightarrow> octets" where
  "call_header xid prog vers = xdr_unit xid @ xdr_unit CALL @ xdr_unit RPC_MSG_VERSION @ xdr_unit prog @ xdr_unit vers"

lemma clnt_header_wire:
  assumes "buf_ok addr mcallc" "length mcallc = 24"
  shows "clnt_header addr mcallc msg = Some (Inr (call_header (rm_xid msg) (cb_prog (rm_call msg)) (cb_vers (rm_call msg)) @ drop 20 mcallc, 20))"
proof -
  let ?m = "msg\<lparr>rm_direction := CALL, rm_call := (rm_call msg)\<lparr>cb_rpcvers := RPC_MSG_VERSION\<rparr>\<rparr>"
  let ?h = "call_header (rm_xid msg) (cb_prog (rm_call msg)) (cb_vers (rm_call msg))"
  have e: "mw.encodes xdr_callhdr ?m ?h" "mwu.encodes xdr_callhdr ?m ?h"
    using mw.encodes_callhdr [of ?m] mwu.encodes_callhdr [of ?m] by (simp_all add: call_header_def)
  have l: "length ?h = 20" "unat (24 :: 32 word) \<le> length mcallc" "length ?h \<le> unat (24 :: 32 word)" using assms(2) by (simp_all add: call_header_def)
  obtain t where t: "xdr_callhdr (xdrmem_create addr mcallc 24 XDR_ENCODE) ?m = Some (True, ?m, (xdrmem_create addr mcallc 24 XDR_ENCODE)\<lparr>x_priv := t\<rparr>)"
    "xm_wr ?h (x_priv (xdrmem_create addr mcallc 24 XDR_ENCODE)) t"
    by (rule mem_encodes [OF e assms(1) l(2,3)])
  have "xdr_callhdr x msg = xdr_callhdr x ?m" for x by (simp add: xdr_callhdr_def)
  then show ?thesis using t(1) mem_written [OF assms(1) l(2) t(2)] l(1) by (simp add: clnt_header_def mem_getpos)
qed

lemma mbuf_append:
  assumes "x_op xdrs = XDR_ENCODE" "xw_ok (x_priv xdrs)" "\<forall>m\<in>set args. m_wf m"
  obtains xdrs' where "xdrmbuf_append xdrs args = Some xdrs'" "xb_base (x_priv xdrs') \<noteq> []"
    "\<forall>m\<in>set (xb_base (x_priv xdrs')). m_wf m" "mchain (xb_base (x_priv xdrs')) = mchain (xb_base (x_priv xdrs)) @ mchain args"
proof (cases "mb_length args = 0")
  case True
  then have "mchain args = []" using length_mchain [OF assms(3)] by simp
  then show ?thesis using that [of xdrs] True assms by (auto simp: xdrmbuf_append_def xw_ok_def)
next
  case False
  obtain ms m where "x_priv xdrs = \<lparr>xb_base = ms @ [m], xb_private = Some (length ms), xb_handy = m_len m\<rparr>" "m_wf m" "\<forall>m\<in>set ms. m_wf m"
    using assms(2) by (rule xw_okE)
  then show ?thesis
    using that [of "xdrs\<lparr>x_priv := \<lparr>xb_base = (ms @ [m]) @ args, xb_private = Some (length ((ms @ [m]) @ args) - 1), xb_handy = m_len (last args)\<rparr>\<rparr>"]
      False assms(1,3) by (auto simp: xdrmbuf_append_def Let_def)
qed

lemma authunix_marshal_wire:
  assumes "unix_client host time x au" "x_op xdrs = XDR_ENCODE" "x_ops xdrs = xdrmbuf_ops mg junk" "xw_ok (x_priv xdrs)" "\<forall>m\<in>set args. m_wf m"
  obtains xdrs' where "authunix_marshal au xdrs args = Some (True, xdrs')" "xb_base (x_priv xdrs') \<noteq> []" "\<forall>m\<in>set (xb_base (x_priv xdrs')). m_wf m"
    "mchain (xb_base (x_priv xdrs')) = mchain (xb_base (x_priv xdrs)) @ unix_marshed host time x @ mchain args"
proof -
  obtain t where t: "XDR_PUTBYTES xdrs (unix_marshed host time x) = Some (True, xdrs\<lparr>x_priv := t\<rparr>)" "xw_wr (unix_marshed host time x) (x_priv xdrs) t"
    by (rule bw.PUTBYTES [OF assms(3,4) TrueI])
  have "x_op (xdrs\<lparr>x_priv := t\<rparr>) = XDR_ENCODE" "xw_ok (x_priv (xdrs\<lparr>x_priv := t\<rparr>))" using assms(2) t(2) by (simp_all add: xw_wr_def)
  then obtain xdrs' where "xdrmbuf_append (xdrs\<lparr>x_priv := t\<rparr>) args = Some xdrs'" "xb_base (x_priv xdrs') \<noteq> []"
    "\<forall>m\<in>set (xb_base (x_priv xdrs')). m_wf m" "mchain (xb_base (x_priv xdrs')) = mchain (xb_base (x_priv (xdrs\<lparr>x_priv := t\<rparr>))) @ mchain args"
    using assms(5) by (rule mbuf_append)
  then show ?thesis using that [of xdrs'] t assms(1) by (simp add: authunix_marshal_def unix_client_def xw_wr_def)
qed

lemma clnt_request_wire:
  assumes "20 \<le> length (m_store m)" "unix_client host time x au" "\<forall>m\<in>set args. m_wf m"
  obtains ms where "clnt_request mg junk m (call_header xid0 prog vers @ r) 20 xid proc (authunix_marshal au) args = Some (Inr ms)" "ms \<noteq> []" "\<forall>m\<in>set ms. m_wf m"
    "mchain ms = call_header xid prog vers @ xdr_unit proc @ unix_marshed host time x @ mchain args"
proof -
  let ?h = "call_header xid prog vers" and ?r = "drop 20 (m_store m)"
  let ?m = "m\<lparr>m_store := ?h @ ?r, m_len := 20\<rparr>"
  have l: "length (call_header y prog vers) = 20" for y by (simp add: call_header_def)
  have w: "area_write 0 (call_header xid0 prog vers) (m_store m) = Some (call_header xid0 prog vers @ ?r)"
    using assms(1) l [of xid0] by (auto simp: area_write_def)
  have w': "area_write 0 (store32 (ntohl xid)) (call_header xid0 prog vers @ ?r) = Some (?h @ ?r)"
    by (simp add: area_write_def call_header_def xdr_unit_def flip: length_0_conv)
  have wf: "m_wf ?m" "mdata ?m = ?h" using l [of xid] by (simp_all add: m_wf_def mdata_def)
  let ?x = "\<lparr>x_op = XDR_ENCODE, x_ops = xdrmbuf_ops mg junk, x_priv = \<lparr>xb_base = [?m], xb_private = Some 0, xb_handy = 20\<rparr>\<rparr>"
  have c: "xdrmbuf_create mg junk [?m] XDR_ENCODE = Some ?x" by (simp add: xdrmbuf_create_def)
  have ok: "xw_ok (x_priv ?x)" using wf(1) by (simp add: xw_ok_def)
  obtain t where t: "XDR_PUTLONG ?x proc = Some (True, ?x\<lparr>x_priv := t\<rparr>)" "xw_wr (xdr_unit proc) (x_priv ?x) t"
    by (rule bw.PUTLONG [OF _ _ ok TrueI, where l = proc]) simp_all
  have "x_op (?x\<lparr>x_priv := t\<rparr>) = XDR_ENCODE" "x_ops (?x\<lparr>x_priv := t\<rparr>) = xdrmbuf_ops mg junk" "xw_ok (x_priv (?x\<lparr>x_priv := t\<rparr>))"
    using t(2) by (simp_all add: xw_wr_def)
  then obtain x' where x': "authunix_marshal au (?x\<lparr>x_priv := t\<rparr>) args = Some (True, x')" "xb_base (x_priv x') \<noteq> []" "\<forall>m\<in>set (xb_base (x_priv x')). m_wf m"
    "mchain (xb_base (x_priv x')) = mchain (xb_base (x_priv (?x\<lparr>x_priv := t\<rparr>))) @ unix_marshed host time x @ mchain args"
    by (rule authunix_marshal_wire [OF assms(2) _ _ _ assms(3)])
  show ?thesis
    by (rule that [of "xb_base (x_priv x')"])
      (use x' t wf assms(1) w w' c in \<open>simp_all add: clnt_request_def blk_read_def l xw_wr_def\<close>)
qed

section \<open>The server\<close>

lemma m_adj_chain:
  assumes "\<forall>m\<in>set ms. m_wf m"
  shows "mchain (m_adj n ms) = drop n (mchain ms) \<and> (\<forall>m\<in>set (m_adj n ms). m_wf m)"
  using assms
proof (induction ms arbitrary: n)
  case (Cons m ms)
  then have "m_wf m" and IH: "mchain (m_adj k ms) = drop k (mchain ms)" "\<forall>m\<in>set (m_adj k ms). m_wf m" for k by auto
  then show ?case using Cons.prems by (auto simp: mdata_def m_wf_def drop_take)
qed simp

text \<open>What is left of a message.\<close>

lemma mbuf_getall:
  assumes "x_op xdrs = XDR_DECODE" "xr_ok junk (x_priv xdrs)" "xr_inp (x_priv xdrs) = as"
  obtains args xdrs' where "xdrmbuf_getall mg xdrs = Some (args, xdrs')" "mchain args = as" "\<forall>m\<in>set args. m_wf m"
proof (cases "xb_private (x_priv xdrs)")
  case None
  then show ?thesis using that [of "[MGET mg (length (xb_base (x_priv xdrs))) False]" xdrs] assms by (simp add: xdrmbuf_getall_def Let_def xr_inp_def mrest_def)
next
  case (Some i)
  let ?t = "x_priv xdrs"
  have i: "i < length (xb_base ?t)" "xb_handy ?t \<le> m_len (xb_base ?t ! i)" "\<forall>m\<in>set (xb_base ?t). m_wf m"
    using assms(2) Some by (simp_all add: xr_ok_def at_in_def)
  then have "drop i (xb_base ?t) = xb_base ?t ! i # drop (Suc i) (xb_base ?t)" "m_wf (xb_base ?t ! i)" by (simp_all add: Cons_nth_drop_Suc)
  then have "drop (xb_handy ?t) (mchain (drop i (xb_base ?t))) = as" using assms(3) Some i(2) by (simp add: xr_inp_def mrest_def)
  moreover have "\<forall>m\<in>set (drop i (xb_base ?t)). m_wf m" using i(3) set_drop_subset by fast
  ultimately show ?thesis
    using that [of "m_adj (xb_handy ?t) (drop i (xb_base ?t))"] m_adj_chain [of "drop i (xb_base ?t)" "xb_handy ?t"] assms(1) Some i(1)
    by (simp add: xdrmbuf_getall_def Let_def)
qed

text \<open>A stream on a message that has arrived.\<close>

definition mreq_ok :: "mbuf list \<Rightarrow> bool" where
  "mreq_ok ms \<longleftrightarrow> ms \<noteq> [] \<and> (\<forall>m\<in>set ms. m_wf m) \<and> mb_length ms < 2 ^ 32"

lemma mbuf_opened:
  assumes "mreq_ok m" "length junk = 4"
  obtains xdrs where "xdrmbuf_create mg junk m XDR_DECODE = Some xdrs" "x_op xdrs = XDR_DECODE" "x_ops xdrs = xdrmbuf_ops mg junk"
    "xr_ok junk (x_priv xdrs)" "xr_inp (x_priv xdrs) = mchain m"
  using that [of "\<lparr>x_op = XDR_DECODE, x_ops = xdrmbuf_ops mg junk, x_priv = \<lparr>xb_base = m, xb_private = Some 0, xb_handy = 0\<rparr>\<rparr>"] assms
  by (cases m) (simp_all add: mreq_ok_def xdrmbuf_create_def xr_ok_def at_in_def xr_inp_def mrest_def)

lemma svc_recv_wire:
  assumes "mreq_ok mreq" "length junk = 4"
    and "call_wf msg" "call_room msg0 msg" "length pc = auth_pad (cb_cred (rm_call msg))" "length pv = auth_pad (cb_verf (rm_call msg))"
    and "mchain mreq = call_wire msg pc pv @ as"
  obtains args where "svc_recv mg junk mreq msg0 = Some (Some (got_call msg0 msg, args))" "mchain args = as" "\<forall>m\<in>set args. m_wf m"
proof -
  obtain xdrs where x: "xdrmbuf_create mg junk mreq XDR_DECODE = Some xdrs" "x_op xdrs = XDR_DECODE" "x_ops xdrs = xdrmbuf_ops mg junk"
    "xr_ok junk (x_priv xdrs)" "xr_inp (x_priv xdrs) = mchain mreq" by (rule mbuf_opened [OF assms(1,2)])
  obtain t where t: "xdr_callmsg xdrs msg0 = Some (True, got_call msg0 msg, xdrs\<lparr>x_priv := t\<rparr>)" "xr_ok junk t" "xr_inp t = as"
    by (rule br.decodesD [OF br.decodes_callmsg [OF assms(3-6)] x(2-4) x(5) [unfolded assms(7)]])
  obtain args xdrs' where "xdrmbuf_getall mg (xdrs\<lparr>x_priv := t\<rparr>) = Some (args, xdrs')" "mchain args = as" "\<forall>m\<in>set args. m_wf m"
    by (rule mbuf_getall [of "xdrs\<lparr>x_priv := t\<rparr>" junk as mg]) (use x(2) t in simp_all)
  then show ?thesis using that [of args] x(1) t(1) by (simp add: svc_recv_def)
qed

context xdr_seeker
begin

text \<open>The server reads the parameters in place or out of the stream, with the same result.\<close>

lemma unix_parms_read:
  assumes x: "x_op xdrs = XDR_DECODE" "x_ops xdrs = ops" "ok (x_priv xdrs)" "inp (x_priv xdrs) = parms_wire host time cr @ r"
    and cr: "xucred_wf cr" "length (xcr_groups x0) = NGROUPS" "host_wf host" and len: "unat len = length (parms_wire host time cr)"
  obtains t where "XDR_INLINE xdrs len = Some (None, xdrs)"
      "xdr_authunix_parms host' g xdrs \<lparr>aup_mtx = False, aup_time = t0, aup_cred = x0\<rparr> =
        Some (True, \<lparr>aup_mtx = False, aup_time = time, aup_cred = got_xucred x0 cr\<rparr>, xdrs\<lparr>x_priv := t\<rparr>)"
  | q t where "XDR_INLINE xdrs len = Some (Some q, xdrs\<lparr>x_priv := t\<rparr>)"
      "svcauth_unix_inline (xdrs\<lparr>x_priv := t\<rparr>) q len x0 = Some (AUTH_OK, got_xucred x0 cr)"
proof -
  have l: "length (parms_wire host time cr) = unat len" "len \<noteq> 0" using len by (auto simp: parms_wire_def)
  obtain t where t: "xdr_authunix_parms host' g xdrs \<lparr>aup_mtx = False, aup_time = t0, aup_cred = x0\<rparr> =
      Some (True, \<lparr>aup_mtx = False, aup_time = time, aup_cred = got_xucred x0 cr\<rparr>, xdrs\<lparr>x_priv := t\<rparr>)"
    using decodesD [OF decodes_authunix_parms [OF cr] x] by metis
  show ?thesis
  proof (rule INLINE [OF x l])
    assume "XDR_INLINE xdrs len = Some (None, xdrs)"
    then show ?thesis using that(1) t by blast
  next
    fix q u assume q: "XDR_INLINE xdrs len = Some (Some q, xdrs\<lparr>x_priv := u\<rparr>)" "reg q (parms_wire host time cr) u"
    have "iptr_add q 0 = q" by (simp add: iptr_add_def)
    then show ?thesis
      using that(2) [OF q(1)] svcauth_unix_inline_wire [of "xdrs\<lparr>x_priv := u\<rparr>" q host time cr x0 len] q(2) x(2) cr len by simp
  qed
qed

end

lemma mem_unix_parms:
  assumes m: "buf_ok addr m" "unat len \<le> length m" "take (unat len) m = parms_wire host time cr"
    and cr: "xucred_wf cr" "length (xcr_groups x0) = NGROUPS" "host_wf host"
  obtains t where "XDR_INLINE (xdrmem_create addr m len XDR_DECODE) len = Some (None, xdrmem_create addr m len XDR_DECODE)"
      "xdr_authunix_parms host' g (xdrmem_create addr m len XDR_DECODE) \<lparr>aup_mtx = False, aup_time = t0, aup_cred = x0\<rparr> =
        Some (True, \<lparr>aup_mtx = False, aup_time = time, aup_cred = got_xucred x0 cr\<rparr>, (xdrmem_create addr m len XDR_DECODE)\<lparr>x_priv := t\<rparr>)"
  | q t where "XDR_INLINE (xdrmem_create addr m len XDR_DECODE) len = Some (Some q, (xdrmem_create addr m len XDR_DECODE)\<lparr>x_priv := t\<rparr>)"
      "svcauth_unix_inline ((xdrmem_create addr m len XDR_DECODE)\<lparr>x_priv := t\<rparr>) q len x0 = Some (AUTH_OK, got_xucred x0 cr)"
proof -
  let ?x = "xdrmem_create addr m len XDR_DECODE"
  have x: "x_op ?x = XDR_DECODE" by (simp add: xdrmem_create_def)
  note c = mem_created [OF m(1,2), where xop = XDR_DECODE]
  have i: "xm_inp (x_priv ?x) = parms_wire host time cr @ []" using c(2) m(3) by simp
  have l: "unat len = length (parms_wire host time cr)" using m(2) by (simp flip: m(3))
  consider "x_ops ?x = xdrmem_ops_aligned" | "x_ops ?x = xdrmem_ops_unaligned" by (cases "addr AND 3 \<noteq> 0") (simp_all add: xdrmem_create_def)
  then show ?thesis
  proof cases
    case 1
    show ?thesis by (rule mr.unix_parms_read [OF x 1 c(1) i cr l]) (rule that, assumption+)+
  next
    case 2
    show ?thesis by (rule mru.unix_parms_read [OF x 2 c(1) i cr l]) (rule that, assumption+)+
  qed
qed

lemma svcauth_unix_wire:
  assumes cred: "oa_base (cb_cred call) = Some m" "unat (oa_length (cb_cred call)) \<le> length m"
      "take (unat (oa_length (cb_cred call))) m = parms_wire host time cr"
    and rq: "buf_ok (rq_credaddr rqst) m" "\<not> rq_mtx rqst" "length (xcr_groups (rq_clntcred rqst)) = NGROUPS"
    and cr: "xucred_wf cr" "host_wf host"
  shows "svcauth_unix host' g rqst call =
    Some (AUTH_OK, rqst\<lparr>rq_clntcred := got_xucred (rq_clntcred rqst) cr, rq_verf := null_auth\<rparr>)"
  by (rule mem_unix_parms [OF rq(1) cred(2,3) cr(1) rq(3) cr(2), of host' g g])
    (use cred(1) rq(2) in \<open>cases rqst, simp add: svcauth_unix_def Let_def\<close>)+

definition unix_call :: "32 word \<Rightarrow> 32 word \<Rightarrow> 32 word \<Rightarrow> 32 word \<Rightarrow> octets \<Rightarrow> 32 word \<Rightarrow> xucred \<Rightarrow> octets" where
  "unix_call xid prog vers proc host time x = call_header xid prog vers @ xdr_unit proc @ unix_marshed host time x"

definition unix_msg :: "(xdrmbuf, unit) rpc_msg \<Rightarrow> 32 word \<Rightarrow> 32 word \<Rightarrow> 32 word \<Rightarrow> 32 word \<Rightarrow> octets \<Rightarrow> 32 word \<Rightarrow> xucred \<Rightarrow> (xdrmbuf, unit) rpc_msg" where
  "unix_msg msg0 xid prog vers proc host time x =
     msg0\<lparr>rm_xid := xid, rm_direction := CALL, rm_call := \<lparr>cb_rpcvers = RPC_MSG_VERSION, cb_prog = prog, cb_vers = vers, cb_proc = proc,
       cb_cred = unix_auth host time x, cb_verf = null_auth\<rparr>\<rparr>"

lemma svc_recv_unix:
  assumes mreq: "mreq_ok mreq" "length junk = 4" "mchain mreq = unix_call xid prog vers proc host time x @ as"
    and x: "xucred_wf x" "host_wf host"
  obtains args where "svc_recv mg junk mreq (svc_msg msg0) =
      Some (Some (got_call (svc_msg msg0) (unix_msg msg0 xid prog vers proc host time x), args))"
    "mchain args = as" "\<forall>m\<in>set args. m_wf m"
proof -
  let ?smsg = "svc_msg msg0" and ?msg = "unix_msg msg0 xid prog vers proc host time x"
  note wf = unix_auth_wf [OF x, of time] and len = length_parms_wire(2) [OF x, of time]
  have msg: "call_wf ?msg" "call_room ?smsg ?msg" "length [] = auth_pad (cb_cred (rm_call ?msg))" "length [] = auth_pad (cb_verf (rm_call ?msg))"
    using wf len by (simp_all add: unix_msg_def call_wf_def null_auth_wf call_room_def auth_room_def svc_msg_def svc_area_def) (simp add: null_auth_def)
  have wire: "mchain mreq = call_wire ?msg [] [] @ as"
    using mreq(3) by (simp add: unix_msg_def unix_call_def call_wire_def call_header_def unix_marshed_def)
  show ?thesis
    by (rule svc_recv_wire [OF mreq(1,2) msg wire]) (rule that)
qed

lemma authenticate_unix:
  assumes x: "xucred_wf x" "host_wf host" and addr: "buf_ok credaddr svc_area"
    and msg: "msg = got_call (svc_msg msg0) (unix_msg msg0 xid prog vers proc host time x)"
  obtains cred where "authenticate host' g gss (svc_newreq credaddr raddr msg args) (rm_call msg) =
      Some (AUTH_OK, (svc_newreq credaddr raddr msg args)\<lparr>rq_cred := cred, rq_clntcred := got_xucred (rq_clntcred (svc_req0 credaddr)) x\<rparr>)"
    "oa_flavor cred = AUTH_SYS"
proof -
  let ?smsg = "svc_msg msg0" and ?msg = "unix_msg msg0 xid prog vers proc host time x"
  note wf = unix_auth_wf [OF x, of time] and len = length_parms_wire(2) [OF x, of time]
  let ?cred = "got_auth (cb_cred (rm_call ?smsg)) (unix_auth host time x)"
  let ?rq = "(svc_newreq credaddr raddr msg args)\<lparr>rq_cred := ?cred\<rparr>"
  have cred: "oa_flavor ?cred = AUTH_SYS" "oa_base ?cred = Some (parms_wire host time x @ drop (length (parms_wire host time x)) svc_area)"
    "unat (oa_length ?cred) = length (parms_wire host time x)"
    using wf by (simp_all add: got_auth_def svc_msg_def stored_def) (simp add: unix_auth_def)
  have call: "cb_cred (rm_call msg) = ?cred" using msg by (simp add: got_call_def unix_msg_def)
  have "svcauth_unix host' g ?rq (rm_call msg) =
      Some (AUTH_OK, ?rq\<lparr>rq_clntcred := got_xucred (rq_clntcred ?rq) x, rq_verf := null_auth\<rparr>)"
    by (rule svcauth_unix_wire [where m = "parms_wire host time x @ drop (length (parms_wire host time x)) svc_area" and host = host and time = time])
      (use call cred x addr len in \<open>simp_all add: svc_newreq_def svc_req0_def buf_ok_def svc_area_def\<close>)
  then show ?thesis
    using that [OF _ cred(1)] cred(1) call by (simp add: authenticate_def Let_def svc_newreq_def svc_req0_def)
qed

end
