(* ===== verification/AuthCache.thy ===== *)
theory AuthCache
  imports RpcAuth Chains
begin

text \<open>
  The cache of authenticators of \<^verbatim>\<open>src/sys/rpc/auth_unix.c\<close> as its users see it: a store of counted objects, whose
  references are held by the users and by the cache itself.
\<close>

section \<open>Authenticators as counted objects\<close>

definition au_live :: "authcache \<Rightarrow> bool" where
  "au_live st \<longleftrightarrow> (\<forall>a au. au_at st a = Some au \<longrightarrow> au_refs au \<noteq> 0)"

definition au_count :: "authcache \<Rightarrow> addr \<Rightarrow> nat option" where
  "au_count st a = map_option (\<lambda>au. unat (au_refs au)) (au_at st a)"

definition au_attr :: "authcache \<Rightarrow> addr \<Rightarrow> audata option" where
  "au_attr st a = map_option (au_refs_update (\<lambda>_. 0)) (au_at st a)"

lemma au_at_put: "au_at st a \<noteq> None \<Longrightarrow> au_at (au_put a au st) b = (if b = a then Some au else au_at st b)"
  by (auto simp: au_at_def au_put_def deref_hstore dest: deref_SomeD)

lemma au_at_free: "au_at (st\<lparr>ac_heap := hfree a (ac_heap st)\<rparr>) b = (if b = a then None else au_at st b)"
  by (simp add: au_at_def deref_hfree)

lemma au_set_refs:
  assumes "au_at st a = Some au"
  shows "au_count (au_put a (au\<lparr>au_refs := c\<rparr>) st) = (au_count st)(a \<mapsto> unat c)" "au_attr (au_put a (au\<lparr>au_refs := c\<rparr>) st) = au_attr st"
  using assms by (auto simp: fun_eq_iff au_count_def au_attr_def au_at_put)

lemma auth_acquire_counts:
  assumes "au_live st" "au_count st a = Some n" "0 < n" "n + 1 < 2 ^ 32"
  shows "\<exists>st'. auth_acquire a st = Some st' \<and> au_live st' \<and> au_count st' = (au_count st)(a \<mapsto> n + 1) \<and> au_attr st' = au_attr st"
proof -
  obtain au where au: "au_at st a = Some au" "unat (au_refs au) = n" using assms(2) by (auto simp: au_count_def)
  let ?st = "au_put a (au\<lparr>au_refs := refcount_acquire (au_refs au)\<rparr>) st"
  have n: "unat (refcount_acquire (au_refs au)) = n + 1" using unat_refcount_acquire assms(4) au(2) by simp
  then have "refcount_acquire (au_refs au) \<noteq> 0" by auto
  then have "au_live ?st" using assms(1) au(1) by (simp add: au_live_def au_at_put)
  then show ?thesis using au(1) au_set_refs [OF au(1)] n by (intro exI [of _ ?st]) (simp add: auth_acquire_def)
qed

lemma authunix_destroy_counts:
  assumes "au_live st" "au_count st a = Some (Suc n)"
  shows "\<exists>st'. authunix_destroy a st = Some st' \<and> au_live st' \<and> (\<forall>b. b \<noteq> a \<longrightarrow> au_count st' b = au_count st b) \<and>
    ref_value (au_count st' a) = n \<and> (\<forall>b. au_count st' b \<noteq> None \<longrightarrow> au_attr st' b = au_attr st b)"
proof -
  obtain au where au: "au_at st a = Some au" "unat (au_refs au) = Suc n" using assms(2) by (auto simp: au_count_def)
  obtain c where c: "refcount_release (au_refs au) = Some (n = 0, c)" "unat c = n" using refcount_release_Suc [OF au(2)] by blast
  show ?thesis
  proof (cases "n = 0")
    case True
    let ?st = "st\<lparr>ac_heap := hfree a (ac_heap st)\<rparr>"
    have "authunix_destroy a st = Some ?st" using au(1) c True by (simp add: authunix_destroy_def)
    moreover have "au_live ?st" using assms(1) by (simp add: au_live_def au_at_free)
    ultimately show ?thesis using True by (intro exI [of _ ?st]) (auto simp: au_count_def au_attr_def au_at_free)
  next
    case False
    let ?st = "au_put a (au\<lparr>au_refs := c\<rparr>) st"
    have "authunix_destroy a st = Some ?st" using au(1) c False by (simp add: authunix_destroy_def)
    moreover have "au_live ?st" using assms(1) au(1) c(2) False by (auto simp: au_live_def au_at_put)
    ultimately show ?thesis using au_set_refs [OF au(1), of c] c(2) by (intro exI [of _ ?st]) simp
  qed
qed

interpretation au: refcounted au_live au_count au_attr auth_acquire authunix_destroy "2 ^ 32"
  by unfold_locales (rule auth_acquire_counts authunix_destroy_counts, assumption+)+

section \<open>The cache\<close>

text \<open>An authenticator that \<^verbatim>\<open>authunix_create\<close> has made.\<close>

definition unix_made :: "audata \<Rightarrow> bool" where
  "unix_made au \<longleftrightarrow> ah_orig au \<and> (\<exists>host time. host_wf host \<and> xucred_wf (au_xcred au) \<and> unix_client host time (au_xcred au) au)"

definition au_xcreds :: "authcache \<Rightarrow> addr \<Rightarrow> xucred option" where
  "au_xcreds st a = map_option au_xcred (au_at st a)"

text \<open>
  The lists belong together: each cached authenticator is on the chain its user id hashes to and on no other, the counter is
  the length of the list of all, and no two cached authenticators have the same credential.
\<close>

definition au_key :: "authcache \<Rightarrow> addr \<Rightarrow> nat option" where
  "au_key st a = map_option (\<lambda>x. auth_hash (xcr_uid x)) (au_xcreds st a)"

definition lists_ok :: "authcache \<Rightarrow> bool" where
  "lists_ok st \<longleftrightarrow> auth_unix_count st = int (length (auth_unix_all st)) \<and> inj_on (au_xcreds st) (set (auth_unix_all st)) \<and>
     chains_ok AUTH_UNIX_HASH_SIZE (au_key st) (auth_unix_all st) (auth_unix_cache st)"

text \<open>\<open>H\<close> are the references of the users; the cache has one to each authenticator on its list.\<close>

definition cache_inv :: "addr multiset \<Rightarrow> authcache \<Rightarrow> bool" where
  "cache_inv H st \<longleftrightarrow> au_live st \<and> backed au_count st (H + mset (auth_unix_all st)) \<and> lists_ok st \<and>
     (\<forall>a au. au_at st a = Some au \<longrightarrow> unix_made au)"

lemma auth_hash_less: "auth_hash u < AUTH_UNIX_HASH_SIZE"
proof -
  have "(push_bit 5 5381 + 5381 + u) mod 16 < (16 :: 32 word)" by (simp add: word_mod_less_divisor)
  then show ?thesis by (simp add: auth_hash_def word_less_nat_alt)
qed

lemma au_xcreds_attr: "au_xcreds st a = map_option au_xcred (au_attr st a)"
  by (cases "au_at st a") (simp_all add: au_xcreds_def au_attr_def)

lemma unix_made_refs [simp]: "unix_made (au\<lparr>au_refs := c\<rparr>) = unix_made au"
  by (simp add: unix_made_def unix_client_def)

lemma made_attr: "(\<forall>au. au_at st a = Some au \<longrightarrow> unix_made au) \<longleftrightarrow> (\<forall>au. au_attr st a = Some au \<longrightarrow> unix_made au)"
  by (cases "au_at st a") (simp_all add: au_attr_def)

lemma lists_ok_cong:
  assumes "lists_ok st" "auth_unix_cache st' = auth_unix_cache st" "auth_unix_count st' = auth_unix_count st"
    "mset (auth_unix_all st') = mset (auth_unix_all st)" "\<And>a. a \<in> set (auth_unix_all st) \<Longrightarrow> au_xcreds st' a = au_xcreds st a"
  shows "lists_ok st'"
proof -
  have all: "set (auth_unix_all st') = set (auth_unix_all st)" "length (auth_unix_all st') = length (auth_unix_all st)"
    using assms(4) by (metis set_mset_mset, metis size_mset)
  have "inj_on (au_xcreds st') (set (auth_unix_all st)) = inj_on (au_xcreds st) (set (auth_unix_all st))"
    using assms(5) by (intro inj_on_cong) simp
  moreover have "chains_ok AUTH_UNIX_HASH_SIZE (au_key st') (auth_unix_all st') (auth_unix_cache st)"
    by (rule chains_ok_cong [of _ "au_key st", OF _ assms(4)]) (use assms(1,5) in \<open>simp_all add: lists_ok_def au_key_def\<close>)
  ultimately show ?thesis using assms(1-3) by (simp add: lists_ok_def all)
qed

lemma cached_live:
  assumes "cache_inv H st" "a \<in> set (auth_unix_all st)"
  shows "au_at st a \<noteq> None" "au_xcreds st a \<noteq> None"
proof -
  have "a \<in># H + mset (auth_unix_all st)" using assms(2) by simp
  then have "au_count st a \<noteq> None" using backed_refs [of au_count st] assms(1) by (force simp: cache_inv_def)
  then show "au_at st a \<noteq> None" "au_xcreds st a \<noteq> None" by (simp_all add: au_count_def au_xcreds_def)
qed

lemma auth_find_chain:
  assumes "\<forall>a\<in>set as. au_at st a \<noteq> None"
  shows "auth_find (ac_heap st) xcr as = Some (List.find (\<lambda>a. au_xcreds st a = Some xcr) as)"
  using assms by (induction as) (auto simp: au_xcreds_def au_at_def)

text \<open>The search along one chain finds the authenticator with the credential, if one is cached.\<close>

lemma auth_find_cached:
  assumes "cache_inv H st"
  obtains "auth_find (ac_heap st) xcr (auth_unix_cache st ! auth_hash (xcr_uid xcr)) = Some None"
      "\<forall>a\<in>set (auth_unix_all st). au_xcreds st a \<noteq> Some xcr"
  | a where "auth_find (ac_heap st) xcr (auth_unix_cache st ! auth_hash (xcr_uid xcr)) = Some (Some a)"
      "a \<in> set (auth_unix_all st)" "au_xcreds st a = Some xcr"
proof -
  let ?c = "auth_unix_cache st ! auth_hash (xcr_uid xcr)"
  have c: "a \<in> set ?c \<longleftrightarrow> a \<in> set (auth_unix_all st) \<and> au_key st a = Some (auth_hash (xcr_uid xcr))" for a
    using assms auth_hash_less chains_okD(3) by (auto simp: cache_inv_def lists_ok_def)
  have find: "auth_find (ac_heap st) xcr ?c = Some (List.find (\<lambda>a. au_xcreds st a = Some xcr) ?c)"
    by (rule auth_find_chain) (use c cached_live [OF assms] in auto)
  show ?thesis
  proof (cases "List.find (\<lambda>a. au_xcreds st a = Some xcr) ?c")
    case None
    have "\<forall>a\<in>set (auth_unix_all st). au_xcreds st a \<noteq> Some xcr" using None c by (auto simp: find_None_iff au_key_def)
    then show ?thesis using that(1) find None by simp
  next
    case (Some a)
    then have "a \<in> set ?c" "au_xcreds st a = Some xcr" by (auto simp: find_Some_iff)
    then show ?thesis using that(2) find Some c by simp
  qed
qed

lemma cache_inv_acquire:
  assumes "cache_inv H st" "a \<in> set (auth_unix_all st)" "size H + 2 < 2 ^ 32"
  obtains st' where "auth_acquire a st = Some st'" "cache_inv (add_mset a H) st'" "auth_unix_all st' = auth_unix_all st"
    "au_attr st' = au_attr st"
proof -
  have i: "au_live st" "backed au_count st (H + mset (auth_unix_all st))" "lists_ok st" "\<forall>a au. au_at st a = Some au \<longrightarrow> unix_made au"
    using assms(1) by (simp_all add: cache_inv_def)
  have "count (mset (auth_unix_all st)) a \<le> 1" using i(3) chains_okD(2) by (force simp: lists_ok_def distinct_count_atmost_1)
  then have "count (H + mset (auth_unix_all st)) a + 1 < 2 ^ 32" using assms(3) count_le_size [of H a] by simp
  then obtain st' where st: "auth_acquire a st = Some st'" "au_live st'" "backed au_count st' (add_mset a (H + mset (auth_unix_all st)))" "au_attr st' = au_attr st"
    using au.hold_backed [OF i(1,2)] assms(2) by auto
  have f: "auth_unix_all st' = auth_unix_all st" "auth_unix_cache st' = auth_unix_cache st" "auth_unix_count st' = auth_unix_count st"
    using st(1) by (auto simp: auth_acquire_def au_put_def bind_eq_Some_conv)
  have "lists_ok st'" by (rule lists_ok_cong [OF i(3)]) (use f st(4) in \<open>simp_all add: au_xcreds_attr\<close>)
  moreover have "\<forall>a au. au_at st' a = Some au \<longrightarrow> unix_made au" using i(4) st(4) by (simp add: made_attr)
  ultimately show ?thesis using that [OF st(1) _ f(1) st(4)] st(2,3) f(1) by (simp add: cache_inv_def)
qed

section \<open>The operations keep the invariant\<close>

lemma cache_inv_moved:
  assumes "cache_inv H st" "a \<in> set (auth_unix_all st)"
  shows "cache_inv H (st\<lparr>auth_unix_all := remove1 a (auth_unix_all st) @ [a]\<rparr>)"
proof -
  let ?st = "st\<lparr>auth_unix_all := remove1 a (auth_unix_all st) @ [a]\<rparr>"
  have m: "mset (auth_unix_all ?st) = mset (auth_unix_all st)" using assms(2) by simp
  have at: "au_at ?st = au_at st" by (simp add: fun_eq_iff au_at_def)
  have "lists_ok ?st" by (rule lists_ok_cong [of st]) (use assms(1) m at in \<open>simp_all add: cache_inv_def au_xcreds_def\<close>)
  then show ?thesis using assms(1) m by (simp add: cache_inv_def au_live_def backed_def au_count_def at)
qed

lemma auth_lookup_inv:
  assumes "cache_inv H st" "size H + 2 < 2 ^ 32"
  obtains "auth_lookup upg xcr st = Some (None, st)" "\<forall>a\<in>set (auth_unix_all st). au_xcreds st a \<noteq> Some xcr"
  | a st' where "auth_lookup upg xcr st = Some (Some a, st')" "cache_inv (add_mset a H) st'" "au_xcreds st' a = Some xcr"
    "length (auth_unix_all st') = length (auth_unix_all st)"
proof (rule auth_find_cached [OF assms(1), of xcr])
  assume "auth_find (ac_heap st) xcr (auth_unix_cache st ! auth_hash (xcr_uid xcr)) = Some None"
    "\<forall>a\<in>set (auth_unix_all st). au_xcreds st a \<noteq> Some xcr"
  then show ?thesis using that(1) by (simp add: auth_lookup_def)
next
  fix a assume a: "auth_find (ac_heap st) xcr (auth_unix_cache st ! auth_hash (xcr_uid xcr)) = Some (Some a)"
    "a \<in> set (auth_unix_all st)" "au_xcreds st a = Some xcr"
  obtain s where s: "auth_acquire a st = Some s" "cache_inv (add_mset a H) s" "auth_unix_all s = auth_unix_all st" "au_attr s = au_attr st"
    by (rule cache_inv_acquire [OF assms(1) a(2) assms(2)])
  let ?s = "if upg then s\<lparr>auth_unix_all := remove1 a (auth_unix_all s) @ [a]\<rparr> else s"
  have "cache_inv (add_mset a H) ?s" using cache_inv_moved [OF s(2)] a(2) s(2,3) by simp
  moreover have "au_xcreds s a = Some xcr" using a(3) s(4) by (simp add: au_xcreds_attr)
  then have "au_xcreds ?s a = Some xcr" by (simp add: au_xcreds_def au_at_def)
  moreover have "length (auth_unix_all ?s) = length (auth_unix_all st)"
    using s(3) a(2) length_pos_if_in_set [OF a(2)] by (simp add: length_remove1)
  ultimately show ?thesis using that(2) [of a ?s] a(1) s(1) by (simp add: auth_lookup_def)
qed

lemma lists_ok_insert:
  assumes "lists_ok st" "au_xcreds st' a = Some xcr" "\<forall>b\<in>set (auth_unix_all st). au_xcreds st b \<noteq> Some xcr"
    and "a \<notin> set (auth_unix_all st)" "\<And>b. b \<in> set (auth_unix_all st) \<Longrightarrow> au_xcreds st' b = au_xcreds st b"
    and "auth_unix_all st' = auth_unix_all st @ [a]" "auth_unix_count st' = auth_unix_count st + 1"
    and "auth_unix_cache st' = (auth_unix_cache st)[auth_hash (xcr_uid xcr) := auth_unix_cache st ! auth_hash (xcr_uid xcr) @ [a]]"
  shows "lists_ok st'"
proof -
  have "inj_on (au_xcreds st') (set (auth_unix_all st))"
    using assms(1,5) by (subst inj_on_cong [of _ _ "au_xcreds st"]) (auto simp: lists_ok_def)
  moreover have "au_xcreds st' a \<notin> au_xcreds st' ` set (auth_unix_all st)" using assms(2,3,5) by force
  ultimately have "inj_on (au_xcreds st') (set (auth_unix_all st'))" by (auto simp: assms(6))
  moreover have "chains_ok AUTH_UNIX_HASH_SIZE (au_key st') (auth_unix_all st') (auth_unix_cache st')" unfolding assms(8)
    by (rule chains_ok_insert [of _ "au_key st", OF _ assms(4) _ auth_hash_less])
      (use assms(1,2,5,6) in \<open>simp_all add: lists_ok_def au_key_def\<close>)
  ultimately show ?thesis using assms(1,6,7) by (simp add: lists_ok_def)
qed

lemma auth_insert_inv:
  assumes inv: "cache_inv H st" and au: "unix_made au" "au_refs au = 1"
  obtains "auth_insert au st = Some (None, st)" "\<exists>a\<in>set (auth_unix_all st). au_xcreds st a = Some (au_xcred au)"
  | a st' where "auth_insert au st = Some (Some a, st')" "cache_inv (add_mset a H) st'" "au_xcreds st' a = Some (au_xcred au)"
    "length (auth_unix_all st') = Suc (length (auth_unix_all st))"
proof (rule auth_find_cached [OF inv, of "au_xcred au"])
  fix a assume "auth_find (ac_heap st) (au_xcred au) (auth_unix_cache st ! auth_hash (xcr_uid (au_xcred au))) = Some (Some a)"
    "a \<in> set (auth_unix_all st)" "au_xcreds st a = Some (au_xcred au)"
  then show ?thesis using that(1) by (auto simp: auth_insert_def Let_def)
next
  assume n: "auth_find (ac_heap st) (au_xcred au) (auth_unix_cache st ! auth_hash (xcr_uid (au_xcred au))) = Some None"
    "\<forall>a\<in>set (auth_unix_all st). au_xcreds st a \<noteq> Some (au_xcred au)"
  let ?h = "auth_hash (xcr_uid (au_xcred au))" and ?a = "length (ac_heap st)" and ?au = "au\<lparr>au_refs := 2\<rparr>"
  let ?st = "st\<lparr>ac_heap := halloc ?au (ac_heap st), auth_unix_count := auth_unix_count st + 1,
      auth_unix_cache := (auth_unix_cache st)[?h := auth_unix_cache st ! ?h @ [?a]], auth_unix_all := auth_unix_all st @ [?a]\<rparr>"
  have at: "au_at ?st b = (if b = ?a then Some ?au else au_at st b)" for b by (simp add: au_at_def deref_halloc)
  have fresh: "au_at st ?a = None" by (simp add: au_at_def)
  then have new: "?a \<notin> set (auth_unix_all st)" using cached_live(1) [OF inv, of ?a] by auto
  have refs: "refcount_acquire (au_refs au) = 2" by (simp add: au(2) refcount_acquire_def)
  have "backed au_count ?st (add_mset ?a H + mset (auth_unix_all ?st))"
    using inv fresh by (auto simp: cache_inv_def backed_def au_count_def at split: if_splits)
  moreover have "lists_ok ?st"
    by (rule lists_ok_insert [OF _ _ n(2) new]) (use inv new in \<open>auto simp: cache_inv_def au_xcreds_def at\<close>)
  ultimately have "cache_inv (add_mset ?a H) ?st"
    using inv au(1) by (auto simp: cache_inv_def au_live_def at)
  then show ?thesis using that(2) [of ?a ?st] n(1) by (simp add: auth_insert_def Let_def au_xcreds_def at refs)
qed

lemma auth_unlink_inv:
  assumes inv: "cache_inv H st" and all: "auth_unix_all st = tau # rest"
  obtains st' where "auth_unlink st = Some (tau, st')" "cache_inv (add_mset tau H) st'" "auth_unix_all st' = rest"
proof -
  obtain au where au: "au_at st tau = Some au" using cached_live(1) [OF inv, of tau] all by auto
  let ?h = "auth_hash (xcr_uid (au_xcred au))"
  let ?st = "st\<lparr>auth_unix_cache := (auth_unix_cache st)[?h := remove1 tau (auth_unix_cache st ! ?h)], auth_unix_all := rest,
      auth_unix_count := auth_unix_count st - 1\<rparr>"
  have at: "au_at ?st = au_at st" by (simp add: fun_eq_iff au_at_def)
  have l: "lists_ok st" using inv by (simp add: cache_inv_def)
  have xc: "au_xcreds ?st = au_xcreds st" by (simp add: fun_eq_iff au_xcreds_def at)
  have key: "au_key ?st = au_key st" by (simp add: fun_eq_iff au_key_def xc)
  have "chains_ok AUTH_UNIX_HASH_SIZE (au_key st) (remove1 tau (auth_unix_all st)) (auth_unix_cache ?st)"
    using chains_ok_remove [of _ "au_key st" "auth_unix_all st" "auth_unix_cache st" tau ?h] l au auth_hash_less
    by (simp add: lists_ok_def au_key_def au_xcreds_def)
  then have "lists_ok ?st" unfolding lists_ok_def xc key using l all by (simp add: lists_ok_def)
  then have "cache_inv (add_mset tau H) ?st"
    using inv all by (simp add: cache_inv_def au_live_def backed_def au_count_def at)
  then show ?thesis using that [of ?st] all au by (simp add: auth_unlink_def Let_def)
qed

lemma authunix_destroy_inv:
  assumes "cache_inv (add_mset a H) st"
  obtains st' where "authunix_destroy a st = Some st'" "cache_inv H st'" "auth_unix_all st' = auth_unix_all st"
proof -
  have i: "au_live st" "backed au_count st (add_mset a (H + mset (auth_unix_all st)))" "lists_ok st" "\<forall>a au. au_at st a = Some au \<longrightarrow> unix_made au"
    using assms by (simp_all add: cache_inv_def)
  obtain st' where st: "authunix_destroy a st = Some st'" "au_live st'" "backed au_count st' (H + mset (auth_unix_all st))"
    "\<forall>b. au_count st' b \<noteq> None \<longrightarrow> au_attr st' b = au_attr st b"
    using au.rele_backed [OF i(1,2)] by blast
  note keep = authunix_destroy_keeps [OF st(1)]
  have x: "au_xcreds st' b = au_xcreds st b" if "b \<in> set (auth_unix_all st)" for b
    using backed_refs [OF st(3), of b] that st(4) by (simp add: au_xcreds_attr)
  have "lists_ok st'" by (rule lists_ok_cong [OF i(3) keep(3,1)]) (use keep(2) x in simp_all)
  moreover have "\<forall>b au. au_at st' b = Some au \<longrightarrow> unix_made au"
  proof (intro allI impI)
    fix b au assume b: "au_at st' b = Some au"
    then have "au_attr st' b = au_attr st b" using st(4) by (auto simp: au_count_def)
    then show "unix_made au" using b i(4) made_attr [of st' b] made_attr [of st b] by simp
  qed
  ultimately show ?thesis using that [OF st(1) _ keep(2)] st(2,3) keep(2) by (simp add: cache_inv_def)
qed

lemma auth_trim_inv:
  assumes "cache_inv H st"
  shows "\<exists>st'. auth_trim st = Some st' \<and> cache_inv H st' \<and> length (auth_unix_all st') = min (length (auth_unix_all st)) 256"
  using assms
proof (induction st rule: auth_trim.induct)
  case (1 st)
  have c: "auth_unix_count st = int (length (auth_unix_all st))" using 1(2) by (simp add: cache_inv_def lists_ok_def)
  show ?case
  proof (cases "auth_unix_count st > AUTH_UNIX_MAX")
    case True
    then obtain tau rest where all: "auth_unix_all st = tau # rest" using c by (cases "auth_unix_all st") auto
    obtain s where s: "auth_unlink st = Some (tau, s)" "cache_inv (add_mset tau H) s" "auth_unix_all s = rest" by (rule auth_unlink_inv [OF 1(2) all])
    obtain t where t: "authunix_destroy tau s = Some t" "cache_inv H t" "auth_unix_all t = auth_unix_all s" by (rule authunix_destroy_inv [OF s(2)])
    have e: "auth_evict st = Some t" using s(1) t(1) by (simp add: auth_evict_def)
    have "256 \<le> length rest" using True c all by simp
    then show ?thesis using 1(1) [OF True _ t(2)] e t(3) s(3) all True by (auto simp: auth_trim.simps [of st] min_def split: if_splits)
  next
    case False
    then show ?thesis using 1(2) c by (simp add: auth_trim.simps [of st])
  qed
qed

lemma unix_made_new:
  assumes "unix_client host time x au" "ah_orig au" "xucred_wf x" "host_wf host"
  shows "unix_made au" "au_xcred au = x"
  using assms by (auto simp: unix_made_def unix_client_def)

lemma authunix_create_inv:
  assumes inv: "cache_inv H st" "size H + 2 < 2 ^ 32" and x: "xucred_wf (cru2x cr)" "host_wf host"
    and b: "buf_ok stack mymem" "length mymem = 400" "buf_ok addr (replicate 400 0)"
  obtains a st' au where "authunix_create host time stack mymem addr upg cr st = Some (a, st')" "cache_inv (add_mset a H) st'"
    "au_at st' a = Some au" "au_xcred au = cru2x cr" "unix_made au" "auth_unix_count st' \<le> AUTH_UNIX_MAX + 1"
proof -
  note goal = that
  obtain s where s: "auth_trim st = Some s" "cache_inv H s" "length (auth_unix_all s) \<le> 256" using auth_trim_inv [OF inv(1)] by auto
  have fin: thesis if r: "authunix_create host time stack mymem addr upg cr st = Some (a, st')" "cache_inv (add_mset a H) st'"
    "au_xcreds st' a = Some (cru2x cr)" "length (auth_unix_all st') \<le> 257" for a st'
  proof -
    obtain au where "au_at st' a = Some au" "au_xcred au = cru2x cr" using r(3) by (auto simp: au_xcreds_def)
    moreover have "unix_made au" "auth_unix_count st' \<le> AUTH_UNIX_MAX + 1" using r(2,4) calculation(1) by (auto simp: cache_inv_def lists_ok_def)
    ultimately show thesis using goal [OF r(1,2)] by simp
  qed
  show thesis
  proof (rule auth_lookup_inv [OF s(2) inv(2), of upg "cru2x cr"])
    fix a st' assume "auth_lookup upg (cru2x cr) s = Some (Some a, st')" "cache_inv (add_mset a H) st'" "au_xcreds st' a = Some (cru2x cr)"
      "length (auth_unix_all st') = length (auth_unix_all s)"
    then show thesis using fin [of a st'] s(1,3) by (simp add: authunix_create_def)
  next
    assume n: "auth_lookup upg (cru2x cr) s = Some (None, s)" "\<forall>a\<in>set (auth_unix_all s). au_xcreds s a \<noteq> Some (cru2x cr)"
    obtain au where au: "authunix_new host time stack mymem addr (cru2x cr) = Some au" "unix_client host time (cru2x cr) au" "au_refs au = 1" "ah_orig au"
      by (rule authunix_new_wire [OF x b])
    note made = unix_made_new [OF au(2,4) x]
    show thesis
      by (rule auth_insert_inv [OF s(2) made(1) au(3)])
        (use n(2) made(2) fin s(1,3) n(1) au(1) in \<open>auto simp: authunix_create_def\<close>)
  qed
qed

section \<open>Threads that use the cache\<close>

text \<open>
  The parts of \<^verbatim>\<open>authunix_create\<close> that run under one hold of the lock, \<^verbatim>\<open>AUTH_DESTROY\<close>, and the two operations by which a call changes
  an authenticator it holds, \<^verbatim>\<open>AUTH_VALIDATE\<close> and \<^verbatim>\<open>AUTH_REFRESH\<close>, from any number of threads, in any
  order. \<open>S\<close> are the flavors of the verifiers that servers send. The first component is the multiset of the references the threads have, among them the one that a thread has
  taken over from the cache and is about to give up.
\<close>

definition auth_boot :: authcache where
  "auth_boot = authunix_init \<lparr>ac_heap = [], auth_unix_cache = [], auth_unix_all = [], auth_unix_count = 0\<rparr>"

inductive auth_step :: "32 word set \<Rightarrow> addr multiset \<times> authcache \<Rightarrow> addr multiset \<times> authcache \<Rightarrow> bool" for S where
  unlink: "auth_unlink st = Some (a, st') \<Longrightarrow> auth_step S (H, st) (add_mset a H, st')"
| found: "auth_lookup upg xcr st = Some (Some a, st') \<Longrightarrow> size H + 2 < 2 ^ 32 \<Longrightarrow> auth_step S (H, st) (add_mset a H, st')"
| made: "authunix_new host time stack mymem addr (cru2x cr) = Some au \<Longrightarrow> xucred_wf (cru2x cr) \<Longrightarrow> host_wf host \<Longrightarrow>
    buf_ok stack mymem \<Longrightarrow> length mymem = 400 \<Longrightarrow> buf_ok addr (replicate 400 0) \<Longrightarrow>
    auth_insert au st = Some (Some a, st') \<Longrightarrow> auth_step S (H, st) (add_mset a H, st')"
| destroy: "authunix_destroy a st = Some st' \<Longrightarrow> auth_step S (add_mset a H, st) (H, st')"
| validate: "a \<in># H \<Longrightarrow> au_at st a = Some au \<Longrightarrow> pred_option (\<lambda>v. oa_flavor v \<in> S) verf \<Longrightarrow>
    authunix_validate vaddr addr verf au = Some (b, au') \<Longrightarrow> auth_step S (H, st) (H, au_put a au' st)"
| refresh: "a \<in># H \<Longrightarrow> au_at st a = Some au \<Longrightarrow> authunix_refresh hostname time oaddr addr au xcr g = Some (b, mtx, au') \<Longrightarrow>
    auth_step S (H, st) (H, au_put a au' st)"

inductive_cases auth_stepE: "auth_step S c c'"

lemma cache_inv_boot: "cache_inv {#} auth_boot"
  by (simp add: cache_inv_def auth_boot_def authunix_init_def au_live_def au_at_def deref_def backed_def au_count_def lists_ok_def chains_ok_empty)

text \<open>As long as no server hands out a shorthand credential, an authenticator goes on to carry the original one.\<close>

lemma validate_keeps:
  assumes "authunix_validate vaddr addr verf au = Some (b, au')" "pred_option (\<lambda>v. oa_flavor v \<in> S) verf" "AUTH_SHORT \<notin> S"
  shows "au' = au"
  using assms by (auto simp: authunix_validate_def split: option.splits if_splits)

lemma refresh_keeps: "authunix_refresh hostname time oaddr addr au xcr g = Some (b, mtx, au') \<Longrightarrow> ah_orig au \<Longrightarrow> au' = au"
  by (simp add: authunix_refresh_def)

lemma au_put_same: "au_at st a = Some au \<Longrightarrow> au_put a au st = st"
  by (simp add: au_put_def au_at_def hstore_same)

lemma auth_step_inv:
  assumes "auth_step S c c'" "cache_inv (fst c) (snd c)" "AUTH_SHORT \<notin> S"
  shows "cache_inv (fst c') (snd c')"
  using assms(1,2)
proof (cases rule: auth_step.cases)
  case (unlink st a st' H)
  then obtain rest where all: "auth_unix_all st = a # rest" by (auto simp: auth_unlink_def Let_def bind_eq_Some_conv split: list.splits)
  obtain s where "auth_unlink st = Some (a, s)" "cache_inv (add_mset a H) s"
    by (rule auth_unlink_inv [OF _ all, of H]) (use assms(2) unlink in simp_all)
  then show ?thesis using unlink by simp
next
  case (found upg xcr st a st' H)
  then have "cache_inv H st" using assms(2) by simp
  then show ?thesis by (rule auth_lookup_inv [OF _ found(4), of st upg xcr]) (use found in simp_all)
next
  case (made host time stack mymem addr cr au st a st' H)
  have inv: "cache_inv H st" using assms(2) made by simp
  obtain au' where au: "authunix_new host time stack mymem addr (cru2x cr) = Some au'" "unix_client host time (cru2x cr) au'" "au_refs au' = 1" "ah_orig au'"
    by (rule authunix_new_wire [OF made(4-8)])
  then have u: "unix_made au" "au_refs au = 1" using made(3) unix_made_new [OF au(2,4) made(4,5)] by simp_all
  show ?thesis by (rule auth_insert_inv [OF inv u]) (use made in simp_all)
next
  case (destroy a st st' H)
  then have "cache_inv (add_mset a H) st" using assms(2) by simp
  then show ?thesis by (rule authunix_destroy_inv) (use destroy in simp)
next
  case (validate a H st au verf vaddr addr b au')
  then show ?thesis using validate_keeps [OF validate(6,5) assms(3)] au_put_same [OF validate(4)] assms(2) by simp
next
  case (refresh a H st au hostname time oaddr addr xcr g b mtx au')
  have "unix_made au" using assms(2) refresh(1,4) by (auto simp: cache_inv_def)
  then show ?thesis using refresh refresh_keeps [OF refresh(5)] au_put_same [OF refresh(4)] assms(2) by (simp add: unix_made_def)
qed

lemma auth_steps_inv:
  assumes "(auth_step S)\<^sup>*\<^sup>* c c'" "cache_inv (fst c) (snd c)" "AUTH_SHORT \<notin> S"
  shows "cache_inv (fst c') (snd c')"
  using assms by (induction rule: rtranclp_induct) (auto intro: auth_step_inv)

lemma held_live:
  assumes "cache_inv H st" "a \<in># H"
  obtains au where "au_at st a = Some au" "unix_made au"
proof -
  have "au_count st a \<noteq> None" using backed_refs [of au_count st _ a] assms by (force simp: cache_inv_def)
  then obtain au where "au_at st a = Some au" by (auto simp: au_count_def)
  then show ?thesis using that assms(1) by (auto simp: cache_inv_def)
qed

end
