(* ===== verification/ReplayProps.thy ===== *)
theory ReplayProps
  imports Replay
begin

text \<open>
  What the replay cache promises the server: its entries are a map from calls to their replies, of which it forgets only
  calls that have been answered.
\<close>

section \<open>The cache as a map\<close>

type_synonym call_key = "32 word \<times> 32 word \<times> 32 word \<times> 32 word \<times> octets"

definition call_key :: "kmsg \<Rightarrow> octets \<Rightarrow> call_key" where
  "call_key msg addr = (rm_xid msg, cb_prog (rm_call msg), cb_vers (rm_call msg), cb_proc (rm_call msg), addr)"

definition rce_key :: "replay_cache_entry \<Rightarrow> call_key" where
  "rce_key e = call_key (rce_msg e) (rce_addr e)"

text \<open>The state of a call: \<open>None\<close> as long as it is being executed, then its reply.\<close>

definition rce_state :: "replay_cache_entry \<Rightarrow> (kmsg \<times> mbuf list option) option" where
  "rce_state e = (if rce_replied e then Some (the (rce_repmsg e), rce_repbody e) else None)"

definition rc_at :: "replay_cache \<Rightarrow> addr \<Rightarrow> replay_cache_entry option" where
  "rc_at rc a = deref (rc_heap rc) a"

definition rc_map :: "replay_cache \<Rightarrow> call_key \<rightharpoonup> (kmsg \<times> mbuf list option) option" where
  "rc_map rc = map_of (map (\<lambda>a. (rce_key (the (rc_at rc a)), rce_state (the (rc_at rc a)))) (rc_all rc))"

definition body_len :: "replay_cache_entry option \<Rightarrow> nat" where
  "body_len e = (case e of Some e \<Rightarrow> (case rce_repbody e of Some m \<Rightarrow> mb_length m | None \<Rightarrow> 0) | None \<Rightarrow> 0)"

definition entries_ok :: "(addr \<rightharpoonup> replay_cache_entry) \<Rightarrow> addr list \<Rightarrow> addr list list \<Rightarrow> int \<Rightarrow> bool" where
  "entries_ok es all cache n \<longleftrightarrow> chains_ok REPLAY_HASH_SIZE (\<lambda>a. map_option rce_hash (es a)) all cache \<and>
     n = int (length all) \<and> dom es = set all \<and> (\<forall>a e. es a = Some e \<longrightarrow> rce_hash e = replay_hash (rm_xid (rce_msg e))) \<and>
     inj_on (\<lambda>a. rce_key (the (es a))) (set all)"

text \<open>\<open>rc_size\<close> is the length of the replies, and every entry with a reply body can be pruned.\<close>

definition sized_ok :: "(addr \<rightharpoonup> replay_cache_entry) \<Rightarrow> addr list \<Rightarrow> 32 word \<Rightarrow> bool" where
  "sized_ok es all sz \<longleftrightarrow> sz = of_nat (sum_list (map (\<lambda>a. body_len (es a)) all)) \<and>
     (\<forall>a e. es a = Some e \<longrightarrow> \<not> rce_replied e \<longrightarrow> rce_repbody e = None)"

definition rc_lists :: "replay_cache \<Rightarrow> bool" where
  "rc_lists rc \<longleftrightarrow> entries_ok (rc_at rc) (rc_all rc) (rc_cache rc) (rc_count rc)"

definition rc_sized :: "replay_cache \<Rightarrow> bool" where
  "rc_sized rc \<longleftrightarrow> sized_ok (rc_at rc) (rc_all rc) (rc_size rc)"

definition rc_inv :: "replay_cache \<Rightarrow> bool" where
  "rc_inv rc \<longleftrightarrow> rc_lists rc \<and> rc_sized rc"

definition rc_waiting :: "replay_cache \<Rightarrow> addr list" where
  "rc_waiting rc = filter (\<lambda>a. \<not> rce_replied (the (rc_at rc a))) (rc_all rc)"

lemma replay_hash_less: "replay_hash xid < REPLAY_HASH_SIZE"
proof -
  have "(push_bit 5 5381 + 5381 + xid) mod 256 < (256 :: 32 word)" by (simp add: word_mod_less_divisor)
  then show ?thesis by (simp add: replay_hash_def word_less_nat_alt)
qed

lemma same_call_key: "same_call msg addr e \<longleftrightarrow> rce_key e = call_key msg addr"
  by (auto simp: same_call_def rce_key_def call_key_def)

lemma entries_okD:
  assumes "entries_ok es all cache n"
  shows "es a \<noteq> None \<longleftrightarrow> a \<in> set all" "distinct all" "es a = Some e \<Longrightarrow> rce_hash e = replay_hash (rm_xid (rce_msg e))"
    "es a = Some e \<Longrightarrow> es b = Some f \<Longrightarrow> rce_key e = rce_key f \<Longrightarrow> a = b"
proof -
  have i: "inj_on (\<lambda>a. rce_key (the (es a))) (set all)" and d: "dom es = set all" using assms by (simp_all add: entries_ok_def)
  show "es a \<noteq> None \<longleftrightarrow> a \<in> set all" unfolding d [symmetric] by auto
  show "distinct all" "es a = Some e \<Longrightarrow> rce_hash e = replay_hash (rm_xid (rce_msg e))"
    using assms by (auto simp: entries_ok_def chains_ok_def)
  show "a = b" if "es a = Some e" "es b = Some f" "rce_key e = rce_key f"
    by (rule inj_onD [OF i]) (use that d in auto)
qed

lemmas rc_listsD = entries_okD [of "rc_at rc" "rc_all rc" "rc_cache rc" "rc_count rc" for rc, folded rc_lists_def]

lemma rc_map_iff:
  assumes "rc_lists rc"
  shows "rc_map rc k = Some s \<longleftrightarrow> (\<exists>a e. rc_at rc a = Some e \<and> rce_key e = k \<and> rce_state e = s)"
proof -
  let ?f = "\<lambda>a. (rce_key (the (rc_at rc a)), rce_state (the (rc_at rc a)))"
  have "inj_on (rce_key \<circ> the \<circ> rc_at rc) (set (rc_all rc))"
    using rc_listsD(1,4) [OF assms] by (intro inj_onI) (metis comp_def option.collapse)
  then have "distinct (map fst (map ?f (rc_all rc)))"
    using rc_listsD(2) [OF assms] by (simp add: distinct_map comp_def)
  then have "rc_map rc k = Some s \<longleftrightarrow> (k, s) \<in> set (map ?f (rc_all rc))" by (simp add: rc_map_def)
  also have "\<dots> \<longleftrightarrow> (\<exists>a e. rc_at rc a = Some e \<and> rce_key e = k \<and> rce_state e = s)"
    using rc_listsD(1) [OF assms] by force
  finally show ?thesis .
qed

lemma rc_map_cong:
  assumes "rc_lists rc" "rc_lists rc'" "rc_at rc' = rc_at rc"
  shows "rc_map rc' = rc_map rc"
proof
  fix k
  show "rc_map rc' k = rc_map rc k"
    using rc_map_iff [OF assms(1), of k] rc_map_iff [OF assms(2), of k] assms(3) by (metis option.exhaust)
qed

lemma rce_search_find:
  assumes "\<forall>a\<in>set as. rc_at rc a \<noteq> None"
  shows "rce_search P (rc_heap rc) as = Some (List.find (\<lambda>a. P (the (rc_at rc a))) as)"
  using assms by (induction as) (auto simp: rc_at_def)

text \<open>A search along the chain of an xid finds the entry of the list that satisfies the test.\<close>

lemma rce_search_chain:
  assumes rc: "rc_lists rc" and P: "\<And>e. P e \<Longrightarrow> rm_xid (rce_msg e) = xid"
  obtains "rce_search P (rc_heap rc) (rc_cache rc ! replay_hash xid) = Some None" "\<forall>a e. rc_at rc a = Some e \<longrightarrow> \<not> P e"
  | a e where "rce_search P (rc_heap rc) (rc_cache rc ! replay_hash xid) = Some (Some a)" "rc_at rc a = Some e" "P e"
proof -
  let ?c = "rc_cache rc ! replay_hash xid"
  have c: "a \<in> set ?c \<longleftrightarrow> a \<in> set (rc_all rc) \<and> map_option rce_hash (rc_at rc a) = Some (replay_hash xid)" for a
    using rc chains_okD(3) [OF _ replay_hash_less] by (auto simp: rc_lists_def entries_ok_def)
  have find: "rce_search P (rc_heap rc) ?c = Some (List.find (\<lambda>a. P (the (rc_at rc a))) ?c)"
    by (rule rce_search_find) (use c rc_listsD(1) [OF rc] in auto)
  show ?thesis
  proof (cases "List.find (\<lambda>a. P (the (rc_at rc a))) ?c")
    case None
    have "\<not> P e" if "rc_at rc a = Some e" for a e
    proof
      assume "P e"
      then have "a \<in> set ?c" using that rc_listsD(1,3) [OF rc] P by (force simp: c)
      then show False using None that \<open>P e\<close> by (auto simp: find_None_iff)
    qed
    then show ?thesis using that(1) find None by simp
  next
    case (Some a)
    then have "a \<in> set ?c" "P (the (rc_at rc a))" by (auto simp: find_Some_iff)
    then show ?thesis using that(2) find Some c by force
  qed
qed

section \<open>Making room\<close>

text \<open>\<open>pruned rc rc'\<close>: some entries with a reply are gone, and nothing else has changed.\<close>

definition pruned :: "replay_cache \<Rightarrow> replay_cache \<Rightarrow> bool" where
  "pruned rc rc' \<longleftrightarrow> rc_maxsize rc' = rc_maxsize rc \<and>
     (\<forall>a. rc_at rc' a = rc_at rc a \<or> rc_at rc' a = None \<and> (\<exists>e. rc_at rc a = Some e \<and> rce_replied e))"

lemma pruned_refl: "pruned rc rc"
  by (simp add: pruned_def)

lemma pruned_trans: "pruned rc rc' \<Longrightarrow> pruned rc' rc'' \<Longrightarrow> pruned rc rc''"
  unfolding pruned_def by metis

lemma entries_ok_remove:
  assumes "entries_ok es all cache n" "es a = Some e"
  shows "entries_ok (es(a := None)) (remove1 a all) (cache[rce_hash e := remove1 a (cache ! rce_hash e)]) (n - 1)"
proof -
  note D = entries_okD [OF assms(1)]
  have a: "a \<in> set all" "set (remove1 a all) = set all - {a}" using D(1) [of a] D(2) assms(2) by simp_all
  have "chains_ok REPLAY_HASH_SIZE (\<lambda>b. map_option rce_hash (es b)) (remove1 a all) (cache[rce_hash e := remove1 a (cache ! rce_hash e)])"
    using assms D(3) [OF assms(2)] replay_hash_less by (intro chains_ok_remove) (simp_all add: entries_ok_def)
  then have "chains_ok REPLAY_HASH_SIZE (\<lambda>b. map_option rce_hash ((es(a := None)) b)) (remove1 a all) (cache[rce_hash e := remove1 a (cache ! rce_hash e)])"
    by (rule chains_ok_cong [OF _ refl]) (use a in auto)
  moreover have "inj_on (\<lambda>b. rce_key (the ((es(a := None)) b))) (set all - {a})"
    using assms(1) by (auto simp: entries_ok_def inj_on_def)
  moreover have "int (length (remove1 a all)) = int (length all) - 1"
    using a(1) length_remove1 [of a all] length_pos_if_in_set [OF a(1)] by (simp add: of_nat_diff Suc_leI del: length_greater_0_conv)
  then have "n - 1 = int (length (remove1 a all))" using assms(1) by (simp add: entries_ok_def)
  ultimately show ?thesis using assms(1) a(2) by (auto simp: entries_ok_def)
qed

lemma sized_ok_remove:
  assumes "sized_ok es all sz" "es a = Some e" "a \<in> set all" "distinct all"
  shows "sized_ok (es(a := None)) (remove1 a all) (sz - of_nat (body_len (Some e)))"
proof -
  have "sum_list (map (\<lambda>b. body_len (es b)) all) = body_len (Some e) + sum_list (map (\<lambda>b. body_len (es b)) (remove1 a all))"
    using assms(2,3) sum_list_map_remove1 [of a all "\<lambda>b. body_len (es b)"] by simp
  moreover have m: "map (\<lambda>b. body_len ((es(a := None)) b)) (remove1 a all) = map (\<lambda>b. body_len (es b)) (remove1 a all)"
    using assms(4) by (intro map_cong) auto
  ultimately show ?thesis using assms(1) unfolding sized_ok_def m by simp
qed

lemma replay_free_ok:
  assumes inv: "rc_inv rc" and e: "rc_at rc a = Some e"
  obtains rc' where "replay_free rc a = Some rc'" "rc_inv rc'" "rc_all rc' = remove1 a (rc_all rc)" "rc_maxsize rc' = rc_maxsize rc"
    "rc_at rc' = (rc_at rc)(a := None)"
proof -
  have l: "rc_lists rc" and s: "rc_sized rc" using inv by (simp_all add: rc_inv_def)
  have h: "rce_hash e < length (rc_cache rc)"
    using rc_listsD(3) [OF l e] replay_hash_less l by (auto simp: rc_lists_def entries_ok_def chains_ok_def)
  let ?sz = "case rce_repbody e of Some m \<Rightarrow> rc_size rc - of_nat (mb_length m) | None \<Rightarrow> rc_size rc"
  let ?rc = "rc\<lparr>rc_count := rc_count rc - 1, rc_cache := (rc_cache rc)[rce_hash e := remove1 a (rc_cache rc ! rce_hash e)],
      rc_all := remove1 a (rc_all rc), rc_size := ?sz, rc_heap := hfree a (rc_heap rc)\<rparr>"
  have at: "rc_at ?rc = (rc_at rc)(a := None)" by (simp add: fun_eq_iff rc_at_def deref_hfree)
  have "?sz = rc_size rc - of_nat (body_len (Some e))" by (simp add: body_len_def split: option.split)
  then have "rc_sized ?rc"
    using sized_ok_remove [OF s [unfolded rc_sized_def] e] rc_listsD(1,2) [OF l] e unfolding rc_sized_def at by force
  moreover have "rc_lists ?rc" using entries_ok_remove [OF l [unfolded rc_lists_def] e] unfolding rc_lists_def at by simp
  ultimately have "rc_inv ?rc" by (simp add: rc_inv_def)
  moreover have "replay_free rc a = Some ?rc" using e h by (simp add: replay_free_def rc_at_def)
  ultimately show ?thesis using that [OF _ _ _ _ at] by simp
qed

lemma prune_one_ok:
  assumes inv: "rc_inv rc"
  obtains "prune_one rc = Some (False, rc)" "\<forall>a e. rc_at rc a = Some e \<longrightarrow> \<not> rce_replied e"
  | rc' where "prune_one rc = Some (True, rc')" "rc_inv rc'" "pruned rc rc'" "length (rc_all rc') < length (rc_all rc)"
    "rc_waiting rc' = rc_waiting rc"
proof -
  have l: "rc_lists rc" using inv by (simp add: rc_inv_def)
  have find: "rce_search rce_replied (rc_heap rc) (rev (rc_all rc)) = Some (List.find (\<lambda>a. rce_replied (the (rc_at rc a))) (rev (rc_all rc)))"
    by (rule rce_search_find) (use rc_listsD(1) [OF l] in auto)
  show ?thesis
  proof (cases "List.find (\<lambda>a. rce_replied (the (rc_at rc a))) (rev (rc_all rc))")
    case None
    have "\<not> rce_replied e" if "rc_at rc a = Some e" for a e
      using None rc_listsD(1) [OF l, of a] that by (force simp: find_None_iff)
    then show ?thesis using that(1) find None by (simp add: prune_one_def)
  next
    case (Some a)
    then have a: "a \<in> set (rc_all rc)" "rce_replied (the (rc_at rc a))" by (auto dest: find_SomeD)
    then obtain e where e: "rc_at rc a = Some e" "rce_replied e" using rc_listsD(1) [OF l, of a] by force
    obtain rc' where rc': "replay_free rc a = Some rc'" "rc_inv rc'" "rc_all rc' = remove1 a (rc_all rc)" "rc_maxsize rc' = rc_maxsize rc"
      "rc_at rc' = (rc_at rc)(a := None)" by (rule replay_free_ok [OF inv e(1)])
    have "rc_waiting rc' = filter (\<lambda>b. \<not> rce_replied (the (rc_at rc b))) (remove1 a (rc_all rc))"
      unfolding rc_waiting_def rc'(3) by (rule filter_cong) (use rc'(5) rc_listsD(2) [OF l] in auto)
    then have "rc_waiting rc' = rc_waiting rc" using a(2) by (simp add: rc_waiting_def filter_remove1 remove1_idem)
    moreover have "pruned rc rc'" using rc'(4,5) e by (simp add: pruned_def)
    moreover have "length (rc_all rc') < length (rc_all rc)" using rc'(3) a(1) length_pos_if_in_set [OF a(1)] by (simp add: length_remove1)
    ultimately show ?thesis using that(2) [of rc'] find Some rc'(1,2) by (simp add: prune_one_def)
  qed
qed

text \<open>A cache without replies is not over its size.\<close>

lemma no_replies_size:
  assumes "rc_inv rc" "\<forall>a e. rc_at rc a = Some e \<longrightarrow> \<not> rce_replied e"
  shows "rc_size rc = 0" "rc_waiting rc = rc_all rc"
proof -
  have l: "rc_lists rc" and s: "sized_ok (rc_at rc) (rc_all rc) (rc_size rc)" using assms(1) by (simp_all add: rc_inv_def rc_sized_def)
  have m: "map (\<lambda>a. body_len (rc_at rc a)) (rc_all rc) = map (\<lambda>a. 0) (rc_all rc)"
    using s assms(2) by (intro map_cong) (auto simp: sized_ok_def body_len_def split: option.splits)
  show "rc_size rc = 0" using s unfolding sized_ok_def m by simp
  show "rc_waiting rc = rc_all rc" using assms(2) rc_listsD(1) [OF l] by (force simp: rc_waiting_def filter_id_conv)
qed

text \<open>The loop ends if fewer than \<^verbatim>\<open>REPLAY_MAX\<close> calls are being executed; it does not if it has freed an entry and more are.\<close>

lemma prune_loop_ends:
  assumes "rc_inv rc" "replay_full rc" "length (rc_waiting rc) < 1024"
  shows "\<exists>rc'. prune_loop f rc = Some (Some rc') \<and> rc_inv rc' \<and> pruned rc rc' \<and> \<not> replay_full rc'"
  using assms
proof (induction "length (rc_all rc)" arbitrary: rc f rule: less_induct)
  case less
  show ?case
  proof (rule prune_one_ok [OF less(2)])
    assume "\<forall>a e. rc_at rc a = Some e \<longrightarrow> \<not> rce_replied e"
    then have "rc_size rc = 0" "length (rc_all rc) < 1024" using no_replies_size [OF less(2)] less(4) by simp_all
    then have False using less(2,3) by (simp add: replay_full_def rc_inv_def rc_lists_def entries_ok_def)
    then show ?thesis ..
  next
    fix rc' assume r: "prune_one rc = Some (True, rc')" "rc_inv rc'" "pruned rc rc'" "length (rc_all rc') < length (rc_all rc)" "rc_waiting rc' = rc_waiting rc"
    show ?thesis
    proof (cases "replay_full rc'")
      case True
      then obtain rc'' where "prune_loop True rc' = Some (Some rc'')" "rc_inv rc''" "pruned rc' rc''" "\<not> replay_full rc''"
        using less(1) [OF r(4,2)] less(4) r(5) by fastforce
      then show ?thesis using r(1) True pruned_trans [OF r(3)] by (simp add: prune_loop.simps [of f])
    next
      case False
      then show ?thesis using r by (simp add: prune_loop.simps [of f])
    qed
  qed
qed

lemma prune_loop_diverges:
  assumes "prune_loop f rc = Some r"
  shows "f \<longrightarrow> rc_inv rc \<longrightarrow> length (rc_waiting rc) < 1024"
proof (rule prune_loop.raw_induct [where P = "\<lambda>f rc _. f \<longrightarrow> rc_inv rc \<longrightarrow> length (rc_waiting rc) < 1024", OF _ assms])
  fix loop f rc and r :: "replay_cache option"
  assume IH: "\<And>f rc r. loop f rc = Some r \<Longrightarrow> f \<longrightarrow> rc_inv rc \<longrightarrow> length (rc_waiting rc) < 1024"
    and run: "(case prune_one rc of None \<Rightarrow> Some None
      | Some (b, rc) \<Rightarrow> (let freed_one = (f \<or> b) in if freed_one \<and> replay_full rc then loop freed_one rc else Some (Some rc))) = Some r"
  show "f \<longrightarrow> rc_inv rc \<longrightarrow> length (rc_waiting rc) < 1024"
  proof (intro impI, rule ccontr)
    assume f: "f" and inv: "rc_inv rc" and "\<not> length (rc_waiting rc) < 1024"
    then have w: "1024 \<le> length (rc_waiting rc)" by simp
    have full: "replay_full x" if "rc_inv x" "rc_waiting x = rc_waiting rc" for x
    proof -
      have "length (rc_waiting x) \<le> length (rc_all x)" by (simp add: rc_waiting_def)
      then show ?thesis using that w by (simp add: replay_full_def rc_inv_def rc_lists_def entries_ok_def)
    qed
    show False
    proof (rule prune_one_ok [OF inv])
      assume "prune_one rc = Some (False, rc)"
      then have "loop True rc = Some r" using run f full [OF inv refl] by simp
      then show False using IH inv w by fastforce
    next
      fix rc' assume r: "prune_one rc = Some (True, rc')" "rc_inv rc'" "rc_waiting rc' = rc_waiting rc"
      then have "loop True rc' = Some r" using run full [OF r(2,3)] by simp
      then show False using IH r(2,3) w by fastforce
    qed
  qed
qed

lemma replay_prune_ends:
  assumes "rc_inv rc" "length (rc_waiting rc) < 1024"
  shows "\<exists>rc'. replay_prune rc = Some (Some rc') \<and> rc_inv rc' \<and> pruned rc rc' \<and> \<not> replay_full rc'"
  using prune_loop_ends [OF assms(1) _ assms(2)] assms(1) pruned_refl by (cases "replay_full rc") (auto simp: replay_prune_def)

lemma replay_prune_stuck:
  assumes "rc_inv rc" "1024 \<le> length (rc_waiting rc)"
  shows "replay_prune rc = (if \<exists>a e. rc_at rc a = Some e \<and> rce_replied e then None else Some (Some rc))"
proof -
  have "length (rc_waiting rc) \<le> length (rc_all rc)" by (simp add: rc_waiting_def)
  then have full: "replay_full rc" using assms by (simp add: replay_full_def rc_inv_def rc_lists_def entries_ok_def)
  show ?thesis
  proof (rule prune_one_ok [OF assms(1)])
    assume "prune_one rc = Some (False, rc)" "\<forall>a e. rc_at rc a = Some e \<longrightarrow> \<not> rce_replied e"
    then show ?thesis using full by (auto simp: replay_prune_def prune_loop.simps [of False])
  next
    fix rc' assume r: "prune_one rc = Some (True, rc')" "rc_inv rc'" "pruned rc rc'" "length (rc_all rc') < length (rc_all rc)" "rc_waiting rc' = rc_waiting rc"
    have "\<exists>a e. rc_at rc a = Some e \<and> rce_replied e"
    proof (rule ccontr)
      assume "\<not> ?thesis"
      then have "rc_at rc' = rc_at rc" using r(3) by (auto simp: pruned_def fun_eq_iff)
      then have "set (rc_all rc') = set (rc_all rc)" using r(2) assms(1) by (simp add: rc_inv_def rc_lists_def entries_ok_def)
      moreover have "distinct (rc_all rc')" "distinct (rc_all rc)" using r(2) assms(1) rc_listsD(2) by (auto simp: rc_inv_def)
      ultimately show False using r(4) by (metis distinct_card less_irrefl)
    qed
    moreover have "length (rc_waiting rc') \<le> length (rc_all rc')" by (simp add: rc_waiting_def)
    then have "replay_full rc'" using assms(2) r(2,5) by (simp add: replay_full_def rc_inv_def rc_lists_def entries_ok_def)
    moreover have "prune_loop True rc' = None"
      using prune_loop_diverges [of True rc'] r(2,5) assms(2) by (cases "prune_loop True rc'") auto
    ultimately show ?thesis using full r(1) by (auto simp: replay_prune_def prune_loop.simps [of False])
  qed
qed

lemma replay_prune_pruned:
  assumes "rc_inv rc" "replay_prune rc = Some r"
  obtains rc' where "r = Some rc'" "rc_inv rc'" "pruned rc rc'"
proof (cases "length (rc_waiting rc) < 1024")
  case True
  then show ?thesis using replay_prune_ends [OF assms(1)] assms(2) that by auto
next
  case False
  then show ?thesis using replay_prune_stuck [OF assms(1)] assms that pruned_refl by (simp split: if_splits)
qed

lemma pruned_map:
  assumes "rc_inv rc" "rc_inv rc'" "pruned rc rc'"
  shows "rc_map rc' \<subseteq>\<^sub>m rc_map rc" "rc_map rc k = Some None \<Longrightarrow> rc_map rc' k = Some None"
proof -
  have l: "rc_lists rc" "rc_lists rc'" using assms by (simp_all add: rc_inv_def)
  have p: "rc_at rc' a = rc_at rc a \<or> rc_at rc' a = None \<and> (\<exists>e. rc_at rc a = Some e \<and> rce_replied e)" for a
    using assms(3) by (simp add: pruned_def)
  show "rc_map rc' \<subseteq>\<^sub>m rc_map rc" unfolding map_le_def
  proof
    fix k assume "k \<in> dom (rc_map rc')"
    then obtain s where s: "rc_map rc' k = Some s" by auto
    then obtain a e where "rc_at rc' a = Some e" "rce_key e = k" "rce_state e = s" using rc_map_iff [OF l(2)] by blast
    moreover from this have "rc_at rc a = Some e" using p [of a] by simp
    ultimately have "rc_map rc k = Some s" using rc_map_iff [OF l(1)] by blast
    then show "rc_map rc' k = rc_map rc k" using s by simp
  qed
  assume "rc_map rc k = Some None"
  then obtain a e where e: "rc_at rc a = Some e" "rce_key e = k" "rce_state e = None" using rc_map_iff [OF l(1)] by blast
  then have "rc_at rc' a = Some e" using p [of a] by (auto simp: rce_state_def)
  then show "rc_map rc' k = Some None" using e rc_map_iff [OF l(2)] by blast
qed

section \<open>New entries and replies\<close>

lemma entries_ok_insert:
  assumes "entries_ok es all cache n" "es a = None" "h = rce_hash e" "h = replay_hash (rm_xid (rce_msg e))"
    "\<And>b f. es b = Some f \<Longrightarrow> rce_key f \<noteq> rce_key e"
  shows "entries_ok (es(a \<mapsto> e)) (a # all) (cache[h := a # cache ! h]) (n + 1)"
proof -
  note D = entries_okD [OF assms(1)]
  have a: "a \<notin> set all" using D(1) [of a] assms(2) by simp
  have h: "h < REPLAY_HASH_SIZE" using assms(4) replay_hash_less by simp
  have "chains_ok REPLAY_HASH_SIZE (\<lambda>b. map_option rce_hash ((es(a \<mapsto> e)) b)) (a # all) (cache[h := a # cache ! h])"
    by (rule chains_ok_insert [of _ "\<lambda>b. map_option rce_hash (es b)" all])
      (use assms a h in \<open>auto simp: entries_ok_def\<close>)
  moreover have "inj_on (\<lambda>b. rce_key (the ((es(a \<mapsto> e)) b))) (set (a # all))"
  proof -
    have "inj_on (\<lambda>b. rce_key (the ((es(a \<mapsto> e)) b))) (set all)" using assms(1) a by (auto simp: entries_ok_def inj_on_def)
    moreover have "rce_key e \<noteq> rce_key (the (es b))" if "b \<in> set all" for b using assms(5) D(1) [of b] that by force
    then have "rce_key e \<notin> (\<lambda>b. rce_key (the (es b))) ` set all" by blast
    moreover have "(\<lambda>b. rce_key (the ((es(a \<mapsto> e)) b))) ` set all = (\<lambda>b. rce_key (the (es b))) ` set all"
      using a by (intro image_cong) auto
    ultimately show ?thesis using a by simp
  qed
  ultimately show ?thesis using assms(1,3,4) by (auto simp: entries_ok_def)
qed

lemma entries_ok_update:
  assumes "entries_ok es all cache n" "es a = Some e" "rce_hash e' = rce_hash e" "rce_msg e' = rce_msg e" "rce_addr e' = rce_addr e"
  shows "entries_ok (es(a \<mapsto> e')) all cache n"
proof -
  have "rce_key (the ((es(a \<mapsto> e')) b)) = rce_key (the (es b))" for b using assms(2,4,5) by (simp add: rce_key_def)
  moreover have "map_option rce_hash ((es(a \<mapsto> e')) b) = map_option rce_hash (es b)" for b using assms(2,3) by simp
  moreover have "dom (es(a \<mapsto> e')) = dom es" using assms(2) by auto
  ultimately show ?thesis using assms(1,4) assms(3) [symmetric] assms(2) by (auto simp: entries_ok_def)
qed

lemma sized_ok_update:
  assumes "sized_ok es all sz" "es a = Some e" "rce_repbody e = None" "rce_replied e'" "distinct all" "a \<in> set all"
  shows "sized_ok (es(a \<mapsto> e')) all (sz + of_nat (body_len (Some e')))"
proof -
  have sum: "sum_list (map (\<lambda>b. body_len (f b)) all) = body_len (f a) + sum_list (map (\<lambda>b. body_len (f b)) (remove1 a all))" for f
    using assms(6) sum_list_map_remove1 [of a all "\<lambda>b. body_len (f b)"] by simp
  have m: "map (\<lambda>b. body_len ((es(a \<mapsto> e')) b)) (remove1 a all) = map (\<lambda>b. body_len (es b)) (remove1 a all)"
    using assms(5) by (intro map_cong) auto
  have "body_len (es a) = 0" using assms(2,3) by (simp add: body_len_def)
  then show ?thesis using assms(1,4) unfolding sized_ok_def sum [of es] sum [of "es(a \<mapsto> e')"] m by simp
qed

lemma rc_map_upd:
  assumes l: "rc_lists rc" "rc_lists rc'" and at: "rc_at rc' = (rc_at rc)(a \<mapsto> e')" and old: "\<And>e. rc_at rc a = Some e \<Longrightarrow> rce_key e = rce_key e'"
  shows "rc_map rc' = (rc_map rc)(rce_key e' \<mapsto> rce_state e')"
proof
  fix k
  have new: "rc_at rc' a = Some e'" by (simp add: at)
  show "rc_map rc' k = ((rc_map rc)(rce_key e' \<mapsto> rce_state e')) k"
  proof (cases "k = rce_key e'")
    case True
    then show ?thesis using new rc_map_iff [OF l(2)] by auto
  next
    case False
    have "rc_map rc' k = Some s \<longleftrightarrow> rc_map rc k = Some s" for s
      unfolding rc_map_iff [OF l(1)] rc_map_iff [OF l(2)] using at False old by (metis fun_upd_apply option.inject)
    then show ?thesis using False by (metis fun_upd_apply option.exhaust)
  qed
qed

section \<open>The operations on the map\<close>

lemma rc_map_entry:
  assumes "rc_lists rc" "rc_at rc a = Some e"
  shows "rc_map rc (rce_key e) = Some (rce_state e)"
  using rc_map_iff [OF assms(1)] assms(2) by blast

lemma replay_find_known:
  assumes inv: "rc_inv rc" and k: "rc_map rc (call_key msg addr) = Some s"
  shows "\<exists>rc'. replay_find mem rc msg addr = Some (Some (case s of
        None \<Rightarrow> (RS_INPROGRESS, None, None, rc')
      | Some (m, b) \<Rightarrow> if b = None \<or> mem then (RS_DONE, Some m, b, rc') else (RS_ERROR, Some m, None, rc'))) \<and>
    rc_inv rc' \<and> rc_map rc' = rc_map rc"
proof -
  have l: "rc_lists rc" using inv by (simp add: rc_inv_def)
  show ?thesis
  proof (rule rce_search_chain [OF l, of "same_call msg addr" "rm_xid msg"])
    show "rm_xid (rce_msg e) = rm_xid msg" if "same_call msg addr e" for e using that by (simp add: same_call_def)
  next
    assume "\<forall>a e. rc_at rc a = Some e \<longrightarrow> \<not> same_call msg addr e"
    then have False using k rc_map_iff [OF l] by (auto simp: same_call_key)
    then show ?thesis ..
  next
    fix a e assume a: "rce_search (same_call msg addr) (rc_heap rc) (rc_cache rc ! replay_hash (rm_xid msg)) = Some (Some a)"
      "rc_at rc a = Some e" "same_call msg addr e"
    have s: "rce_state e = s" using rc_map_entry [OF l a(2)] a(3) k by (simp add: same_call_key)
    let ?rc = "rc\<lparr>rc_all := a # remove1 a (rc_all rc)\<rparr>"
    have at: "rc_at ?rc = rc_at rc" by (simp add: fun_eq_iff rc_at_def)
    have "a \<in> set (rc_all rc)" using rc_listsD(1) [OF l, of a] a(2) by simp
    then have m: "mset (rc_all ?rc) = mset (rc_all rc)" by simp
    then have set: "set (rc_all ?rc) = set (rc_all rc)" "length (rc_all ?rc) = length (rc_all rc)" by (metis set_mset_mset, metis size_mset)
    have sum: "sum_list (map f (rc_all ?rc)) = sum_list (map f (rc_all rc))" for f :: "addr \<Rightarrow> nat"
      using m by (metis mset_map sum_mset_sum_list)
    have "rc_sized ?rc" using inv unfolding rc_inv_def rc_sized_def sized_ok_def at sum by simp
    moreover have "rc_lists ?rc"
      using l chains_ok_cong [OF _ m, of REPLAY_HASH_SIZE "\<lambda>a. map_option rce_hash (rc_at rc a)" "rc_cache rc"] set
      unfolding rc_lists_def entries_ok_def at by simp
    ultimately have "rc_inv ?rc" "rc_map ?rc = rc_map rc" using rc_map_cong [OF l _ at] by (simp_all add: rc_inv_def)
    then show ?thesis
      using a(1,2) s inv by (auto simp: replay_find_def Let_def rce_state_def rc_at_def rce_replied_def split: option.splits if_splits)
  qed
qed

lemma replay_alloc_ok:
  assumes inv: "rc_inv rc" and k: "rc_map rc (call_key msg addr) = None" and addr: "length addr \<le> 128"
  obtains a rc' where "replay_alloc True rc msg addr (replay_hash (rm_xid msg)) = Some (a, rc')" "rc_inv rc'"
    "rc_map rc' = (rc_map rc)(call_key msg addr \<mapsto> None)"
proof -
  have l: "rc_lists rc" and s: "rc_sized rc" using inv by (simp_all add: rc_inv_def)
  let ?h = "replay_hash (rm_xid msg)" and ?a = "length (rc_heap rc)"
  let ?e = "\<lparr>rce_hash = ?h, rce_msg = msg, rce_addr = addr, rce_repmsg = None, rce_repbody = None\<rparr>"
  let ?rc = "rc\<lparr>rc_count := rc_count rc + 1, rc_heap := halloc ?e (rc_heap rc), rc_cache := (rc_cache rc)[?h := ?a # rc_cache rc ! ?h], rc_all := ?a # rc_all rc\<rparr>"
  have at: "rc_at ?rc = (rc_at rc)(?a \<mapsto> ?e)" by (simp add: fun_eq_iff rc_at_def deref_halloc)
  have fresh: "rc_at rc ?a = None" by (simp add: rc_at_def)
  have key: "rce_key ?e = call_key msg addr" "rce_state ?e = None" by (simp_all add: rce_key_def rce_state_def rce_replied_def)
  have new: "rce_key f \<noteq> rce_key ?e" if "rc_at rc b = Some f" for b f using rc_map_entry [OF l that] k key by auto
  have l': "rc_lists ?rc" using entries_ok_insert [OF l [unfolded rc_lists_def] fresh, of ?h ?e] new unfolding rc_lists_def at by simp
  have "map (\<lambda>b. body_len (((rc_at rc)(?a \<mapsto> ?e)) b)) (rc_all ?rc) = 0 # map (\<lambda>b. body_len (rc_at rc b)) (rc_all rc)"
    by (simp add: fresh body_len_def)
  then have sum: "sum_list (map (\<lambda>b. body_len (((rc_at rc)(?a \<mapsto> ?e)) b)) (rc_all ?rc)) = sum_list (map (\<lambda>b. body_len (rc_at rc b)) (rc_all rc))"
    by (simp only: sum_list.Cons add_0)
  have "rc_sized ?rc" using s unfolding rc_sized_def sized_ok_def at sum by (auto split: if_splits)
  moreover have "?h < length (rc_cache rc)" using l replay_hash_less by (auto simp: rc_lists_def entries_ok_def chains_ok_def)
  ultimately show ?thesis
    using that [of ?a ?rc] l' addr rc_map_upd [OF l l' at] fresh key by (simp add: replay_alloc_def rc_inv_def Let_def)
qed

lemma replay_find_new:
  assumes inv: "rc_inv rc" and k: "rc_map rc (call_key msg addr) = None"
  shows "replay_find mem rc msg addr = (case replay_prune rc of None \<Rightarrow> None | Some None \<Rightarrow> Some None
    | Some (Some rc) \<Rightarrow> Some (do { (rce, rc) \<leftarrow> replay_alloc mem rc msg addr (replay_hash (rm_xid msg)); Some (RS_NEW, None, None, rc) }))"
proof -
  have l: "rc_lists rc" using inv by (simp add: rc_inv_def)
  show ?thesis
  proof (rule rce_search_chain [OF l, of "same_call msg addr" "rm_xid msg"])
    show "rm_xid (rce_msg e) = rm_xid msg" if "same_call msg addr e" for e using that by (simp add: same_call_def)
  next
    assume "rce_search (same_call msg addr) (rc_heap rc) (rc_cache rc ! replay_hash (rm_xid msg)) = Some None"
    then show ?thesis by (simp add: replay_find_def Let_def)
  next
    fix a e assume "rc_at rc a = Some e" "same_call msg addr e"
    then have False using rc_map_entry [OF l, of a e] k by (simp add: same_call_key)
    then show ?thesis ..
  qed
qed

lemma replay_find_RS_NEW:
  assumes inv: "rc_inv rc" and run: "replay_find mem rc msg addr = Some (Some (RS_NEW, r, b, rc'))"
  shows "rc_inv rc'" "rc_map rc (call_key msg addr) = None"
    "\<exists>M. M \<subseteq>\<^sub>m rc_map rc \<and> (\<forall>k. rc_map rc k = Some None \<longrightarrow> M k = Some None) \<and> rc_map rc' = M(call_key msg addr \<mapsto> None)"
proof -
  show k: "rc_map rc (call_key msg addr) = None"
  proof (rule ccontr)
    assume "rc_map rc (call_key msg addr) \<noteq> None"
    then obtain s where "rc_map rc (call_key msg addr) = Some s" by auto
    from replay_find_known [OF inv this, of mem] show False using run by (auto split: option.splits if_splits)
  qed
  obtain r where r: "replay_prune rc = Some r" using run by (cases "replay_prune rc") (simp_all add: replay_find_new [OF inv k])
  obtain rc1 where rc1: "r = Some rc1" "rc_inv rc1" "pruned rc rc1" by (rule replay_prune_pruned [OF inv r])
  note M = pruned_map [OF inv rc1(2,3)]
  have k1: "rc_map rc1 (call_key msg addr) = None"
  proof (rule ccontr)
    assume n: "rc_map rc1 (call_key msg addr) \<noteq> None"
    then have "rc_map rc1 (call_key msg addr) = rc_map rc (call_key msg addr)" by (intro bspec [OF M(1) [unfolded map_le_def]]) blast
    then show False using n k by simp
  qed
  have mem: "mem" and len: "length addr \<le> 128" using run r rc1(1)
    by (auto simp: replay_find_new [OF inv k] replay_alloc_def Let_def bind_eq_Some_conv assert_opt_def split: if_splits)
  obtain a rc2 where "replay_alloc True rc1 msg addr (replay_hash (rm_xid msg)) = Some (a, rc2)" "rc_inv rc2"
    "rc_map rc2 = (rc_map rc1)(call_key msg addr \<mapsto> None)" by (rule replay_alloc_ok [OF rc1(2) k1 len])
  moreover from this(1) have "rc2 = rc'" using run r rc1(1) mem by (simp add: replay_find_new [OF inv k])
  ultimately show "rc_inv rc'" "\<exists>M. M \<subseteq>\<^sub>m rc_map rc \<and> (\<forall>k. rc_map rc k = Some None \<longrightarrow> M k = Some None) \<and> rc_map rc' = M(call_key msg addr \<mapsto> None)"
    using M by blast+
qed

text \<open>The reply goes to the entry with its xid and address, whatever was called.\<close>

lemma replay_setreply_ok:
  assumes inv: "rc_inv rc" and k: "rc_map rc (xid, p, v, c, addr) = Some z" and z: "\<forall>r. z = Some r \<longrightarrow> snd r = None"
    and xid: "rm_xid rep = xid" "xid \<noteq> 0"
    and one: "\<And>p' v' c'. rc_map rc (xid, p', v', c', addr) \<noteq> None \<Longrightarrow> (p', v', c') = (p, v, c)"
  obtains rc' where "replay_setreply rc rep addr m = Some rc'" "rc_inv rc'" "rc_map rc' = (rc_map rc)((xid, p, v, c, addr) \<mapsto> Some (rep, m))"
proof -
  have l: "rc_lists rc" and s: "rc_sized rc" using inv by (simp_all add: rc_inv_def)
  let ?P = "\<lambda>e. rm_xid (rce_msg e) = rm_xid rep \<and> rce_addr e = addr"
  obtain b f where f: "rc_at rc b = Some f" "rce_key f = (xid, p, v, c, addr)" using k rc_map_iff [OF l] by blast
  then have "?P f" using xid(1) by (simp add: rce_key_def call_key_def)
  then obtain a e where a: "rce_search ?P (rc_heap rc) (rc_cache rc ! replay_hash (rm_xid rep)) = Some (Some a)" "rc_at rc a = Some e" "?P e"
    using rce_search_chain [OF l, of ?P "rm_xid rep"] f(1) by blast
  have ke: "rce_key e = (xid, p, v, c, addr)"
    using rc_map_entry [OF l a(2)] a(3) xid(1) one by (auto simp: rce_key_def call_key_def)
  then have st: "rce_state e = z" using rc_map_entry [OF l a(2)] k by simp
  then have body: "rce_repbody e = None"
    using s a(2) z by (cases "rce_replied e") (auto simp: rc_sized_def sized_ok_def rce_state_def)
  let ?e = "e\<lparr>rce_repmsg := Some rep, rce_repbody := m\<rparr>"
  let ?sz = "case m of Some m \<Rightarrow> rc_size rc + of_nat (mb_length m) | None \<Rightarrow> rc_size rc"
  let ?rc = "rc\<lparr>rc_heap := hstore a ?e (rc_heap rc), rc_size := ?sz\<rparr>"
  have at: "rc_at ?rc = (rc_at rc)(a \<mapsto> ?e)" using a(2) by (auto simp: fun_eq_iff rc_at_def deref_hstore dest: deref_SomeD)
  have l': "rc_lists ?rc" using entries_ok_update [OF l [unfolded rc_lists_def] a(2), of ?e] unfolding rc_lists_def at by simp
  have ke': "rce_key ?e = (xid, p, v, c, addr)" "rce_state ?e = Some (rep, m)" "rce_replied ?e"
    using ke xid by (simp_all add: rce_key_def rce_state_def rce_replied_def)
  have "a \<in> set (rc_all rc)" using rc_listsD(1) [OF l, of a] a(2) by simp
  moreover have "?sz = rc_size rc + of_nat (body_len (Some ?e))" by (simp add: body_len_def split: option.split)
  ultimately have "rc_sized ?rc"
    using sized_ok_update [OF s [unfolded rc_sized_def] a(2) body ke'(3) rc_listsD(2) [OF l]] unfolding rc_sized_def at by simp
  then show ?thesis
    using that [of ?rc] l' a(1,2) rc_map_upd [OF l l' at] a(2) ke ke' by (simp add: replay_setreply_def rc_inv_def rc_at_def)
qed

lemma replay_setreply_none:
  assumes inv: "rc_inv rc" and none: "\<And>p v c. rc_map rc (rm_xid rep, p, v, c, addr) = None"
  shows "replay_setreply rc rep addr m = Some rc"
proof -
  have l: "rc_lists rc" using inv by (simp add: rc_inv_def)
  let ?P = "\<lambda>e. rm_xid (rce_msg e) = rm_xid rep \<and> rce_addr e = addr"
  show ?thesis
  proof (rule rce_search_chain [OF l, of ?P "rm_xid rep"])
    assume "rce_search ?P (rc_heap rc) (rc_cache rc ! replay_hash (rm_xid rep)) = Some None"
    then show ?thesis by (simp add: replay_setreply_def)
  next
    fix a e assume "rc_at rc a = Some e" "?P e"
    then show ?thesis using rc_map_entry [OF l, of a e] none by (simp add: rce_key_def call_key_def)
  qed simp
qed

text \<open>Whatever reply is recorded, no list is corrupted.\<close>

lemma replay_setreply_lists:
  assumes l: "rc_lists rc"
  obtains rc' where "replay_setreply rc rep addr m = Some rc'" "rc_lists rc'"
proof (rule rce_search_chain [OF l, of "\<lambda>e. rm_xid (rce_msg e) = rm_xid rep \<and> rce_addr e = addr" "rm_xid rep"])
  assume "rce_search (\<lambda>e. rm_xid (rce_msg e) = rm_xid rep \<and> rce_addr e = addr) (rc_heap rc) (rc_cache rc ! replay_hash (rm_xid rep)) = Some None"
  then show ?thesis using that [of rc] l by (simp add: replay_setreply_def)
next
  fix a e assume a: "rce_search (\<lambda>e. rm_xid (rce_msg e) = rm_xid rep \<and> rce_addr e = addr) (rc_heap rc) (rc_cache rc ! replay_hash (rm_xid rep)) = Some (Some a)"
    "rc_at rc a = Some e"
  let ?e = "e\<lparr>rce_repmsg := Some rep, rce_repbody := m\<rparr>"
  let ?rc = "rc\<lparr>rc_heap := hstore a ?e (rc_heap rc), rc_size := case m of Some m \<Rightarrow> rc_size rc + of_nat (mb_length m) | None \<Rightarrow> rc_size rc\<rparr>"
  have at: "rc_at ?rc = (rc_at rc)(a \<mapsto> ?e)" using a(2) by (auto simp: fun_eq_iff rc_at_def deref_hstore dest: deref_SomeD)
  have "rc_lists ?rc" using entries_ok_update [OF l [unfolded rc_lists_def] a(2), of ?e] unfolding rc_lists_def at by simp
  then show ?thesis using that [of ?rc] a by (simp add: replay_setreply_def rc_at_def)
qed simp

lemma replay_find_None:
  assumes "rc_inv rc"
  shows "replay_find mem rc msg addr = None \<longleftrightarrow> rc_map rc (call_key msg addr) = None \<and> replay_prune rc = None"
proof (cases "rc_map rc (call_key msg addr)")
  case None
  then show ?thesis by (simp add: replay_find_new [OF assms None] split: option.split)
next
  case (Some s)
  then show ?thesis using replay_find_known [OF assms Some, of mem] by auto
qed

lemma card_waiting:
  assumes "rc_lists rc"
  shows "card {k. rc_map rc k = Some None} = length (rc_waiting rc)" "finite {k. rc_map rc k = Some None}"
proof -
  let ?f = "\<lambda>a. rce_key (the (rc_at rc a))"
  have e: "{k. rc_map rc k = Some None} = ?f ` set (rc_waiting rc)"
  proof (rule set_eqI)
    fix k
    have "k \<in> ?f ` set (rc_waiting rc) \<longleftrightarrow> (\<exists>a e. rc_at rc a = Some e \<and> rce_key e = k \<and> rce_state e = None)"
      using rc_listsD(1) [OF assms] by (force simp: rc_waiting_def rce_state_def image_iff)
    then show "k \<in> {k. rc_map rc k = Some None} \<longleftrightarrow> k \<in> ?f ` set (rc_waiting rc)" by (simp add: rc_map_iff [OF assms])
  qed
  have "inj_on ?f (set (rc_waiting rc))"
    using assms by (auto simp: rc_lists_def entries_ok_def rc_waiting_def intro: inj_on_subset)
  moreover have "distinct (rc_waiting rc)" using rc_listsD(2) [OF assms] by (simp add: rc_waiting_def)
  ultimately show "card {k. rc_map rc k = Some None} = length (rc_waiting rc)" "finite {k. rc_map rc k = Some None}"
    unfolding e by (simp_all add: card_image distinct_card)
qed

lemma replied_map:
  assumes "rc_lists rc"
  shows "(\<exists>a e. rc_at rc a = Some e \<and> rce_replied e) \<longleftrightarrow> (\<exists>k r. rc_map rc k = Some (Some r))"
proof -
  have "rce_replied e \<longleftrightarrow> (\<exists>r. rce_state e = Some r)" for e by (auto simp: rce_state_def)
  then show ?thesis unfolding rc_map_iff [OF assms] by metis
qed

text \<open>When the search for room does not end.\<close>

lemma replay_prune_None:
  assumes "rc_inv rc"
  shows "replay_prune rc = None \<longleftrightarrow> 1024 \<le> card {k. rc_map rc k = Some None} \<and> (\<exists>k r. rc_map rc k = Some (Some r))"
proof -
  have l: "rc_lists rc" using assms by (simp add: rc_inv_def)
  show ?thesis
  proof (cases "length (rc_waiting rc) < 1024")
    case True
    then show ?thesis using replay_prune_ends [OF assms True] by (auto simp: card_waiting [OF l])
  next
    case False
    then show ?thesis using replay_prune_stuck [OF assms] by (simp add: card_waiting [OF l] replied_map [OF l])
  qed
qed

section \<open>A server with a replay cache\<close>

text \<open>
  \<open>E\<close> are the calls that the server has been told to execute and has not answered, \<open>R\<close> the last reply it has recorded for
  each call. The clients make calls from \<open>K\<close>. The functions that send an error record their reply themselves and then call
  \<^verbatim>\<open>svc_sendreply_common\<close>, which records it again: step \<open>twice\<close>, which comes before the call is executed anew. \<^verbatim>\<open>svcerr_decode\<close>
  records its own under the address of the transport, where no client is on a transport for datagrams: step \<open>stray\<close>.
\<close>

definition xid_addr :: "call_key \<Rightarrow> 32 word \<times> octets" where
  "xid_addr k = (case k of (xid, p, v, c, addr) \<Rightarrow> (xid, addr))"

inductive replay_step ::
  "call_key set \<Rightarrow> call_key set \<times> (call_key \<rightharpoonup> kmsg \<times> mbuf list option) \<times> replay_cache \<Rightarrow>
   call_key set \<times> (call_key \<rightharpoonup> kmsg \<times> mbuf list option) \<times> replay_cache \<Rightarrow> bool" for K where
  fresh: "replay_find mem rc msg addr = Some (Some (RS_NEW, r, b, rc')) \<Longrightarrow> call_key msg addr \<in> K \<Longrightarrow>
    replay_step K (E, R, rc) (insert (call_key msg addr) E, R, rc')"
| again: "replay_find mem rc msg addr = Some (Some (s, r, b, rc')) \<Longrightarrow> s \<noteq> RS_NEW \<Longrightarrow> replay_step K (E, R, rc) (E, R, rc')"
| reply: "(xid, p, v, c, addr) \<in> E \<Longrightarrow> rm_xid rep = xid \<Longrightarrow> replay_setreply rc rep addr m = Some rc' \<Longrightarrow>
    replay_step K (E, R, rc) (E - {(xid, p, v, c, addr)}, R((xid, p, v, c, addr) \<mapsto> (rep, m)), rc')"
| twice: "(xid, p, v, c, addr) \<in> K \<Longrightarrow> (xid, p, v, c, addr) \<notin> E \<Longrightarrow> R (xid, p, v, c, addr) = Some (rep, None) \<Longrightarrow> rm_xid rep = xid \<Longrightarrow>
    replay_setreply rc rep addr None = Some rc' \<Longrightarrow> replay_step K (E, R, rc) (E, R, rc')"
| stray: "(rm_xid rep, addr) \<notin> xid_addr ` K \<Longrightarrow> replay_setreply rc rep addr m = Some rc' \<Longrightarrow> replay_step K (E, R, rc) (E, R, rc')"
| resize: "replay_setsize rc n = Some (Some rc') \<Longrightarrow> replay_step K (E, R, rc) (E, R, rc')"

text \<open>No client uses an xid for two different calls, nor the xid 0.\<close>

definition good_calls :: "call_key set \<Rightarrow> bool" where
  "good_calls K \<longleftrightarrow> inj_on xid_addr K \<and> (\<forall>k\<in>K. fst k \<noteq> 0)"

definition tracks :: "'k set \<Rightarrow> 'k set \<Rightarrow> ('k \<rightharpoonup> 'r) \<Rightarrow> ('k \<rightharpoonup> 'r option) \<Rightarrow> bool" where
  "tracks K E R M \<longleftrightarrow> dom M \<subseteq> K \<and> E = {k. M k = Some None} \<and> (\<forall>k r. M k = Some (Some r) \<longrightarrow> R k = Some r)"

lemma tracks_kept:
  assumes "tracks K E R M" "M' \<subseteq>\<^sub>m M" "\<And>k. M k = Some None \<Longrightarrow> M' k = Some None"
  shows "tracks K E R M'"
proof -
  have le: "M' k = Some x \<Longrightarrow> M k = Some x" for k x using assms(2) by (metis domI map_le_def)
  then have "dom M' \<subseteq> dom M" by blast
  moreover have "{k. M' k = Some None} = {k. M k = Some None}" using le assms(3) by blast
  ultimately show ?thesis using assms(1) le unfolding tracks_def by blast
qed

lemma tracksD: "tracks K E R M \<Longrightarrow> M k = Some (Some r) \<Longrightarrow> R k = Some r"
  by (simp add: tracks_def)

lemma tracks_None: "tracks K E R M \<Longrightarrow> k \<notin> E \<Longrightarrow> R k = None \<Longrightarrow> M k = None"
  by (cases "M k"; cases "the (M k)") (simp_all add: tracks_def)

lemma tracks_new: "tracks K E R M \<Longrightarrow> k \<in> K \<Longrightarrow> tracks K (insert k E) R (M(k \<mapsto> None))"
  by (auto simp: tracks_def)

lemma tracks_reply: "tracks K E R M \<Longrightarrow> k \<in> E \<Longrightarrow> tracks K (E - {k}) (R(k \<mapsto> r)) (M(k \<mapsto> Some r))"
  by (auto simp: tracks_def)

definition replay_good ::
  "call_key set \<Rightarrow> call_key set \<times> (call_key \<rightharpoonup> kmsg \<times> mbuf list option) \<times> replay_cache \<Rightarrow> bool" where
  "replay_good K s = (case s of (E, R, rc) \<Rightarrow> rc_inv rc \<and> tracks K E R (rc_map rc))"

abbreviation (input) replay_start where
  "replay_start n \<equiv> ({}, \<lambda>_. None, replay_newcache n)"

lemma replay_newcache_inv: "rc_inv (replay_newcache n)" "rc_map (replay_newcache n) = (\<lambda>_. None)"
  by (auto simp: rc_inv_def rc_lists_def entries_ok_def rc_sized_def sized_ok_def replay_newcache_def rc_at_def deref_def
      chains_ok_empty rc_map_def)

lemma replay_good_start: "replay_good K (replay_start n)"
  by (simp add: replay_good_def tracks_def replay_newcache_inv)

lemma replay_find_again:
  assumes inv: "rc_inv rc" and run: "replay_find mem rc msg addr = Some (Some (s, r, b, rc'))" "s \<noteq> RS_NEW"
  shows "rc_inv rc'" "rc_map rc' = rc_map rc"
proof -
  have "rc_map rc (call_key msg addr) \<noteq> None"
  proof
    assume k: "rc_map rc (call_key msg addr) = None"
    then show False using run by (auto simp: replay_find_new [OF inv k] bind_eq_Some_conv split: option.splits)
  qed
  then obtain x where "rc_map rc (call_key msg addr) = Some x" by auto
  from replay_find_known [OF inv this, of mem] show "rc_inv rc'" "rc_map rc' = rc_map rc"
    using run(1) by (auto split: option.splits if_splits)
qed

lemma good_calls_xid:
  assumes "good_calls K" "tracks K E R M" "(xid, p, v, c, addr) \<in> K"
  shows "M (xid, p', v', c', addr) \<noteq> None \<Longrightarrow> (p', v', c') = (p, v, c)" "xid \<noteq> 0"
proof -
  assume "M (xid, p', v', c', addr) \<noteq> None"
  then have "(xid, p', v', c', addr) \<in> K" using assms(2) unfolding tracks_def by blast
  then have "(xid, p', v', c', addr) = (xid, p, v, c, addr)"
    using assms(1,3) by (intro inj_onD [of xid_addr K]) (simp_all add: good_calls_def xid_addr_def)
  then show "(p', v', c') = (p, v, c)" by simp
next
  show "xid \<noteq> 0" using bspec [of K "\<lambda>k. fst k \<noteq> 0", OF _ assms(3)] assms(1) by (simp add: good_calls_def)
qed

lemma replay_setreply_good:
  assumes K: "good_calls K" "rc_inv rc" "tracks K E R (rc_map rc)" "(xid, p, v, c, addr) \<in> K"
    and k: "rc_map rc (xid, p, v, c, addr) = Some z" "\<forall>r. z = Some r \<longrightarrow> snd r = None" and x: "rm_xid rep = xid"
  obtains rc' where "replay_setreply rc rep addr m = Some rc'" "rc_inv rc'" "rc_map rc' = (rc_map rc)((xid, p, v, c, addr) \<mapsto> Some (rep, m))"
  by (rule replay_setreply_ok [OF K(2) k x good_calls_xid(2) [OF K(1,3,4)] good_calls_xid(1) [OF K(1,3,4)], of m]) (assumption, rule that)

lemma tracks_executing: "tracks K E R M \<Longrightarrow> k \<in> E \<Longrightarrow> k \<in> K \<and> M k = Some None"
  unfolding tracks_def by blast

lemma replay_setreply_reply:
  assumes K: "good_calls K" "rc_inv rc" "tracks K E R (rc_map rc)" and k: "(xid, p, v, c, addr) \<in> E" and x: "rm_xid rep = xid"
  obtains rc' where "replay_setreply rc rep addr m = Some rc'" "rc_inv rc'" "rc_map rc' = (rc_map rc)((xid, p, v, c, addr) \<mapsto> Some (rep, m))"
proof -
  have e: "(xid, p, v, c, addr) \<in> K" "rc_map rc (xid, p, v, c, addr) = Some None" using tracks_executing [OF K(3) k] by blast+
  have "\<forall>r. None = Some r \<longrightarrow> snd r = None" by simp
  then show ?thesis by (rule replay_setreply_good [OF K e(1,2) _ x, of m]) (rule that)
qed

text \<open>An error reply that is recorded a second time changes nothing.\<close>

lemma replay_setreply_twice:
  assumes K: "good_calls K" "rc_inv rc" "tracks K E R (rc_map rc)" "(xid, p, v, c, addr) \<in> K" and x: "rm_xid rep = xid"
    and R: "(xid, p, v, c, addr) \<notin> E" "R (xid, p, v, c, addr) = Some (rep, None)"
  obtains rc' where "replay_setreply rc rep addr None = Some rc'" "rc_inv rc'" "rc_map rc' = rc_map rc"
proof (cases "rc_map rc (xid, p, v, c, addr)")
  case None
  have "rc_map rc (xid, p', v', c', addr) = None" for p' v' c'
    using good_calls_xid(1) [OF K(1,3,4), of p' v' c'] None by (metis prod.inject)
  then have "replay_setreply rc rep addr None = Some rc" by (intro replay_setreply_none [OF K(2)]) (simp only: x)
  then show ?thesis using that K(2) by blast
next
  case (Some z)
  have "z \<noteq> None"
  proof
    assume "z = None"
    then have "(xid, p, v, c, addr) \<in> E" using K(3) Some unfolding tracks_def by blast
    then show False using R(1) by blast
  qed
  then obtain r where z: "z = Some r" by blast
  then have "rc_map rc (xid, p, v, c, addr) = Some (Some r)" using Some by (simp only:)
  from tracksD [OF K(3) this] have r: "r = (rep, None)" using R(2) by (simp only: option.inject)
  then have snd: "\<forall>r. z = Some r \<longrightarrow> snd r = None" using z by simp
  obtain rc' where rc': "replay_setreply rc rep addr None = Some rc'" "rc_inv rc'"
      "rc_map rc' = (rc_map rc)((xid, p, v, c, addr) \<mapsto> Some (rep, None))"
    by (rule replay_setreply_good [OF K Some snd x])
  have "rc_map rc' = rc_map rc" unfolding rc'(3) using Some z r by (intro fun_upd_idem) (simp only:)
  then show ?thesis using that rc'(1,2) by blast
qed

lemma replay_setreply_stray:
  assumes "rc_inv rc" "tracks K E R (rc_map rc)" "(rm_xid rep, addr) \<notin> xid_addr ` K"
  shows "replay_setreply rc rep addr m = Some rc"
proof (rule replay_setreply_none [OF assms(1)])
  fix p v c
  show "rc_map rc (rm_xid rep, p, v, c, addr) = None"
  proof (rule ccontr)
    assume "rc_map rc (rm_xid rep, p, v, c, addr) \<noteq> None"
    then have "(rm_xid rep, p, v, c, addr) \<in> K" using assms(2) unfolding tracks_def by blast
    from imageI [OF this, of xid_addr] show False using assms(3) by (simp add: xid_addr_def)
  qed
qed

lemma replay_setreply_call:
  assumes "good_calls K" "rc_inv rc" "tracks K E R (rc_map rc)" "call_key msg addr \<in> E" "rm_xid rep = rm_xid msg"
  obtains rc' where "replay_setreply rc rep addr m = Some rc'" "rc_inv rc'" "rc_map rc' = (rc_map rc)(call_key msg addr \<mapsto> Some (rep, m))"
    "replay_step K (E, R, rc) (E - {call_key msg addr}, R(call_key msg addr \<mapsto> (rep, m)), rc')"
proof -
  obtain xid p v c where k: "call_key msg addr = (xid, p, v, c, addr)" "rm_xid msg = xid" by (simp add: call_key_def)
  note e = assms(4) [unfolded k] and x = assms(5) [unfolded k]
  obtain rc' where rc': "replay_setreply rc rep addr m = Some rc'" "rc_inv rc'" "rc_map rc' = (rc_map rc)((xid, p, v, c, addr) \<mapsto> Some (rep, m))"
    by (rule replay_setreply_reply [OF assms(1-3) e x])
  show ?thesis by (rule that [OF rc' [folded k(1)]]) (unfold k(1), rule replay_step.reply [OF e x rc'(1)])
qed

lemma replay_step_good:
  assumes "replay_step K s s'" "good_calls K" "replay_good K s"
  shows "replay_good K s'"
  using assms(1)
proof cases
  case (fresh mem rc msg addr r b rc' E R)
  have g: "rc_inv rc" "tracks K E R (rc_map rc)" using assms(3) fresh(1) by (simp_all add: replay_good_def)
  note new = replay_find_RS_NEW [OF g(1) fresh(3)]
  obtain M where M: "M \<subseteq>\<^sub>m rc_map rc" "\<forall>k. rc_map rc k = Some None \<longrightarrow> M k = Some None" "rc_map rc' = M(call_key msg addr \<mapsto> None)"
    using new(3) by blast
  have "tracks K E R M" by (rule tracks_kept [OF g(2) M(1)]) (use M(2) in blast)
  then show ?thesis using tracks_new fresh(2,4) new(1) M(3) by (simp add: replay_good_def)
next
  case (again mem rc msg addr t r b rc' E R)
  have g: "rc_inv rc" "tracks K E R (rc_map rc)" using assms(3) again(1) by (simp_all add: replay_good_def)
  show ?thesis using replay_find_again [OF g(1) again(3,4)] g(2) again(2) by (simp add: replay_good_def)
next
  case (reply xid p v c addr E rep rc m rc' R)
  have g: "rc_inv rc" "tracks K E R (rc_map rc)" using assms(3) reply(1) by (simp_all add: replay_good_def)
  obtain s where "replay_setreply rc rep addr m = Some s" "rc_inv s" "rc_map s = (rc_map rc)((xid, p, v, c, addr) \<mapsto> Some (rep, m))"
    by (rule replay_setreply_reply [OF assms(2) g reply(3,4)])
  then show ?thesis using tracks_reply [OF g(2) reply(3)] reply(2,5) by (simp add: replay_good_def)
next
  case (twice xid p v c addr E R rep rc rc')
  have g: "rc_inv rc" "tracks K E R (rc_map rc)" using assms(3) twice(1) by (simp_all add: replay_good_def)
  obtain s where "replay_setreply rc rep addr None = Some s" "rc_inv s" "rc_map s = rc_map rc"
    by (rule replay_setreply_twice [OF assms(2) g twice(3,6,4,5)])
  then show ?thesis using g twice(2,7) by (simp add: replay_good_def)
next
  case (stray rep addr rc m rc' E R)
  have g: "rc_inv rc" "tracks K E R (rc_map rc)" using assms(3) stray(1) by (simp_all add: replay_good_def)
  show ?thesis using replay_setreply_stray [OF g stray(3)] stray(2,4) g by (simp add: replay_good_def)
next
  case (resize rc n rc' E R)
  have g: "rc_inv rc" "tracks K E R (rc_map rc)" using assms(3) resize(1) by (simp_all add: replay_good_def)
  let ?rc = "rc\<lparr>rc_maxsize := n\<rparr>"
  have at: "rc_at ?rc = rc_at rc" by (simp add: fun_eq_iff rc_at_def)
  have inv: "rc_inv ?rc" "rc_map ?rc = rc_map rc" using g(1) by (simp_all add: rc_inv_def rc_lists_def rc_sized_def at rc_map_def)
  obtain s where s: "Some rc' = Some s" "rc_inv s" "pruned ?rc s" by (rule replay_prune_pruned [OF inv(1)]) (use resize(3) in \<open>simp add: replay_setsize_def\<close>)
  note M = pruned_map [OF inv(1) s(2,3), unfolded inv(2)]
  have "tracks K E R (rc_map s)" by (rule tracks_kept [OF g(2) M(1)]) (rule M(2))
  then show ?thesis using resize(2) s by (simp add: replay_good_def)
qed

lemma replay_steps_good:
  assumes "(replay_step K)\<^sup>*\<^sup>* s s'" "good_calls K" "replay_good K s"
  shows "replay_good K s'"
  using assms by (induction rule: rtranclp_induct) (auto intro: replay_step_good)

lemma replay_reach_good:
  assumes "(replay_step K)\<^sup>*\<^sup>* (replay_start n) (E, R, rc)" "good_calls K"
  shows "rc_inv rc" "tracks K E R (rc_map rc)"
  using replay_steps_good [OF assms replay_good_start] by (simp_all add: replay_good_def)

lemma replay_find_ends:
  assumes inv: "rc_inv rc" and addr: "length addr \<le> 128"
    and room: "card {k. rc_map rc k = Some None} < 1024 \<or> (\<forall>k r. rc_map rc k \<noteq> Some (Some r))"
  obtains (new) rc' where "rc_map rc (call_key msg addr) = None" "replay_find True rc msg addr = Some (Some (RS_NEW, None, None, rc'))"
    | (busy) rc' where "rc_map rc (call_key msg addr) = Some None" "replay_find True rc msg addr = Some (Some (RS_INPROGRESS, None, None, rc'))"
    | (answered) m b rc' where "rc_map rc (call_key msg addr) = Some (Some (m, b))" "replay_find True rc msg addr = Some (Some (RS_DONE, Some m, b, rc'))"
proof (cases "rc_map rc (call_key msg addr)")
  case None
  have "replay_prune rc \<noteq> None" unfolding replay_prune_None [OF inv] using room by (meson not_less)
  then obtain r where r: "replay_prune rc = Some r" by (meson not_None_eq)
  obtain rc1 where rc1: "r = Some rc1" "rc_inv rc1" "pruned rc rc1" by (rule replay_prune_pruned [OF inv r])
  have "rc_map rc1 (call_key msg addr) = None"
    using pruned_map(1) [OF inv rc1(2,3)] None unfolding map_le_def by (metis domIff)
  then obtain a rc2 where "replay_alloc True rc1 msg addr (replay_hash (rm_xid msg)) = Some (a, rc2)"
    by (rule replay_alloc_ok [OF rc1(2) _ addr])
  then show ?thesis using new [of rc2] None r rc1(1) by (simp add: replay_find_new [OF inv None])
next
  case (Some s)
  show ?thesis
  proof (cases s)
    case None
    then show ?thesis using replay_find_known [OF inv Some, of True] busy Some by auto
  next
    case (Some r)
    obtain m b where r: "r = (m, b)" by (cases r)
    then have k: "rc_map rc (call_key msg addr) = Some (Some (m, b))" using \<open>rc_map rc (call_key msg addr) = Some s\<close> Some by simp
    then show ?thesis using replay_find_known [OF inv k, of True] answered by auto
  qed
qed

section \<open>Properties\<close>

text \<open>A call of the null procedure of NFS, for the examples.\<close>

definition null_call :: "32 word \<Rightarrow> ('s, unit) rpc_msg" where
  "null_call xid =
     (let none = \<lparr>oa_flavor = 0, oa_base = None, oa_length = 0\<rparr> in
      \<lparr>rm_xid = xid, rm_direction = CALL,
       rm_call = \<lparr>cb_rpcvers = RPC_MSG_VERSION, cb_prog = 100003, cb_vers = 3, cb_proc = 0, cb_cred = none, cb_verf = none\<rparr>,
       rm_reply = \<lparr>rp_stat = 0, rp_acpt = \<lparr>ar_verf = none, ar_stat = 0, ar_low = 0, ar_high = 0, ar_where = (), ar_proc = None\<rparr>,
         rp_rjct = \<lparr>rj_stat = 0, rj_low = 0, rj_high = 0, rj_why = 0\<rparr>\<rparr>\<rparr>)"

lemma null_call_good: "good_calls {call_key (null_call 1) []}"
  by (simp add: good_calls_def call_key_def null_call_def Let_def)

lemma null_call_started:
  obtains rc r b rc' where
    "(replay_step {call_key (null_call 1) []})\<^sup>*\<^sup>* (replay_start 1000) ({call_key (null_call 1) []}, \<lambda>_. None, rc)"
    "replay_find True rc (null_call 1) [] = Some (Some (RS_INPROGRESS, r, b, rc'))"
proof -
  let ?k = "call_key (null_call 1) []"
  obtain rc where rc: "replay_find True (replay_newcache 1000) (null_call 1) [] = Some (Some (RS_NEW, None, None, rc))"
    by (rule replay_find_ends [OF replay_newcache_inv(1), of "[]" 1000 "null_call 1"]) (simp_all add: replay_newcache_inv)
  have st: "(replay_step {?k})\<^sup>*\<^sup>* (replay_start 1000) ({?k}, \<lambda>_. None, rc)"
    by (rule r_into_rtranclp) (rule replay_step.fresh [OF rc, of "{?k}" "{}"], simp)
  note g = replay_reach_good [OF st null_call_good]
  have "rc_map rc ?k = Some None" using g(2) by (auto simp: tracks_def)
  from replay_find_known [OF g(1) this, of True] show ?thesis using that [OF st] by auto
qed





section \<open>A cache in which the search for room does not end\<close>

abbreviation (input) numbered :: "kmsg \<Rightarrow> nat \<Rightarrow> kmsg" where
  "numbered msg i \<equiv> msg\<lparr>rm_xid := of_nat (i + 1)\<rparr>"

abbreviation (input) numbered_calls :: "kmsg \<Rightarrow> octets \<Rightarrow> nat \<Rightarrow> call_key set" where
  "numbered_calls msg addr n \<equiv> (\<lambda>i. call_key (numbered msg i) addr) ` {..<n}"

lemma numbered_xid:
  assumes "i < 1026" "j < 1026"
  shows "of_nat (i + 1) = (of_nat (j + 1) :: 32 word) \<longleftrightarrow> i = j" "of_nat (i + 1) \<noteq> (0 :: 32 word)"
  using assms by (auto simp del: of_nat_add of_nat_Suc simp: word_unat_eq_iff unat_of_nat)

lemma numbered_good: "good_calls (numbered_calls msg addr 1026)"
  using numbered_xid by (auto simp del: of_nat_add of_nat_Suc simp: good_calls_def xid_addr_def call_key_def inj_on_def)

lemma numbered_inj: "n \<le> 1026 \<Longrightarrow> inj_on (\<lambda>i. call_key (numbered msg i) addr) {..<n}"
  using numbered_xid by (auto simp del: of_nat_add of_nat_Suc simp: call_key_def inj_on_def)

lemma replay_filled:
  assumes "length addr \<le> 128" "n \<le> 1026"
  shows "\<exists>rc. (replay_step (numbered_calls msg addr 1026))\<^sup>*\<^sup>* (replay_start z) (numbered_calls msg addr n, \<lambda>_. None, rc)"
  using assms(2)
proof (induction n)
  case (Suc n)
  let ?K = "numbered_calls msg addr 1026" and ?k = "call_key (numbered msg n) addr"
  obtain rc where rc: "(replay_step ?K)\<^sup>*\<^sup>* (replay_start z) (numbered_calls msg addr n, \<lambda>_. None, rc)" using Suc by auto
  note g = replay_reach_good [OF rc numbered_good]
  have none: "rc_map rc k \<noteq> Some (Some r)" for k r using tracksD [OF g(2), of k r] by auto
  have "?k \<notin> numbered_calls msg addr n"
    using inj_onD [OF numbered_inj [OF Suc.prems], of n msg addr] by force
  then have new: "rc_map rc ?k \<noteq> Some None" using g(2) by (simp add: tracks_def)
  obtain rc' where "replay_find True rc (numbered msg n) addr = Some (Some (RS_NEW, None, None, rc'))"
    by (rule replay_find_ends [OF g(1) assms(1), of "numbered msg n"]) (use none new in blast)+
  then have "replay_step ?K (numbered_calls msg addr n, \<lambda>_. None, rc) (insert ?k (numbered_calls msg addr n), \<lambda>_. None, rc')"
    by (rule replay_step.fresh) (use Suc.prems in auto)
  moreover have "insert ?k (numbered_calls msg addr n) = numbered_calls msg addr (Suc n)" by (simp only: lessThan_Suc image_insert)
  ultimately show ?case using rtranclp.rtrancl_into_rtrancl [OF rc] by metis
qed auto

text \<open>The answer to the first of 1025 calls.\<close>

lemma replay_overfull:
  assumes "length addr \<le> 128"
  obtains E R rc where "(replay_step (numbered_calls msg addr 1026))\<^sup>*\<^sup>* (replay_start n) (E, R, rc)" "card E = 1024"
    "call_key (numbered msg 1025) addr \<notin> E" "R (call_key (numbered msg 1025) addr) = None"
    "rc_map rc (call_key (numbered msg 0) addr) = Some (Some (numbered msg 0, None))"
proof -
  let ?K = "numbered_calls msg addr 1026" and ?E = "numbered_calls msg addr 1025" and ?k = "call_key (numbered msg 0) addr"
  obtain rc where rc: "(replay_step ?K)\<^sup>*\<^sup>* (replay_start n) (?E, \<lambda>_. None, rc)" using replay_filled [OF assms, of 1025 msg n] by auto
  note g = replay_reach_good [OF rc numbered_good]
  have k: "?k \<in> ?E" by (rule imageI) simp
  obtain rc' where rc': "replay_setreply rc (numbered msg 0) addr None = Some rc'" "rc_inv rc'" "rc_map rc' = (rc_map rc)(?k \<mapsto> Some (numbered msg 0, None))"
    and step: "replay_step ?K (?E, \<lambda>_. None, rc) (?E - {?k}, (\<lambda>_. None)(?k \<mapsto> (numbered msg 0, None)), rc')"
    by (rule replay_setreply_call [OF numbered_good g k refl])
  have "card ?E = 1025" by (simp only: card_image [OF numbered_inj] card_lessThan)
  then have card: "card (?E - {?k}) = 1024" using k by (simp only: card_Diff_singleton)
  have l: "call_key (numbered msg 1025) addr \<notin> ?E"
    using inj_onD [OF numbered_inj [of 1026], of 1025 msg addr] by force
  then have "call_key (numbered msg 1025) addr \<noteq> ?k" using k by metis
  then have r: "((\<lambda>_. None)(?k \<mapsto> (numbered msg 0, None :: mbuf list option))) (call_key (numbered msg 1025) addr) = None"
    by (simp only: fun_upd_other not_False_eq_True if_False simp_thms)
  have "call_key (numbered msg 1025) addr \<notin> ?E - {?k}" using l by blast
  moreover have "rc_map rc' ?k = Some (Some (numbered msg 0, None))" unfolding rc'(3) by (rule fun_upd_same)
  ultimately show ?thesis using that [OF rtranclp.rtrancl_into_rtrancl [OF rc step] card] r by blast
qed



end
