(* ===== verification/SvcProps.thy ===== *)
theory SvcProps
  imports Svc ClntDg AuthCache ReplayProps Examples
begin

text \<open>
  The server and the client together: requests reach the service with the identity of the caller, every kind of answer
  reaches the client as what it means, and a retransmitted request is answered with the octets of the first answer.
\<close>

section \<open>Replies on the wire\<close>

definition acpt_success :: "('s, 'r) rpc_msg \<Rightarrow> bool" where
  "acpt_success msg \<longleftrightarrow> rp_stat (rm_reply msg) = MSG_ACCEPTED \<and> ar_stat (rp_acpt (rm_reply msg)) = SUCCESS"

text \<open>The results of a successful call are not encoded with the message but appended to it.\<close>

definition void_results :: "kmsg \<Rightarrow> bool" where
  "void_results msg \<longleftrightarrow> (acpt_success msg \<longrightarrow> ar_proc (rp_acpt (rm_reply msg)) = Some xdr_void)"

abbreviation (input) zero_pad :: "('s, 'r) rpc_msg \<Rightarrow> octets" where
  "zero_pad msg \<equiv> replicate (auth_pad (ar_verf (rp_acpt (rm_reply msg)))) 0"

lemma reply_wire_append: "acpt_success msg \<Longrightarrow> reply_wire msg pad [] @ rs = reply_wire msg pad rs"
  by (simp add: acpt_success_def reply_wire_def acpt_wire_def acpt_tail_def)

lemma svc_dg_reply_wire:
  assumes msg: "reply_wf msg" "void_results msg" and body: "\<forall>m\<in>set body. m_wf m"
  obtains ms where "svc_dg_reply e msg (Some body) = Some (True, Some ms)" "ms \<noteq> []" "\<forall>m\<in>set ms. m_wf m"
    "mchain ms = reply_wire msg (zero_pad msg) (if acpt_success msg then mchain body else [])"
proof -
  let ?x = "\<lparr>x_op = XDR_ENCODE, x_ops = xdrmbuf_ops (se_zone e) (se_junk e),
    x_priv = \<lparr>xb_base = [(se_mrep e)\<lparr>m_len := 0\<rparr>], xb_private = Some 0, xb_handy = 0\<rparr>\<rparr>"
  have c: "xdrmbuf_create (se_zone e) (se_junk e) [(se_mrep e)\<lparr>m_len := 0\<rparr>] XDR_ENCODE = Some ?x" by (simp add: xdrmbuf_create_def)
  have ok: "xw_ok (x_priv ?x)" "mchain (xb_base (x_priv ?x)) = []" by (simp_all add: xw_ok_def m_wf_def mdata_def)
  have r: "bw.results_out (se_zone e) (se_junk e) (rp_acpt (rm_reply msg)) []" if "rp_stat (rm_reply msg) = MSG_ACCEPTED"
    using msg(2) that by (auto simp: bw.results_out_def void_results_def acpt_success_def xdr_void_def bw.encodes_Nil)
  let ?w = "reply_wire msg (zero_pad msg) []"
  have enc: "bw.encodes (se_zone e) (se_junk e) xdr_replymsg msg ?w" by (rule bw.encodes_replymsg [OF msg(1) r])
  obtain t where t: "xdr_replymsg ?x msg = Some (True, msg, ?x\<lparr>x_priv := t\<rparr>)" "xw_wr ?w (x_priv ?x) t"
    by (rule bw.encodesD [OF enc _ _ ok(1) TrueI]) simp_all
  have wr: "xw_ok t" "mchain (xb_base t) = ?w" using t(2) ok(2) by (simp_all add: xw_wr_def)
  show ?thesis
  proof (cases "acpt_success msg")
    case True
    obtain x' where "xdrmbuf_append (?x\<lparr>x_priv := t\<rparr>) body = Some x'" "xb_base (x_priv x') \<noteq> []"
      "\<forall>m\<in>set (xb_base (x_priv x')). m_wf m" "mchain (xb_base (x_priv x')) = ?w @ mchain body"
      by (rule mbuf_append [of "?x\<lparr>x_priv := t\<rparr>" body]) (use wr body in simp_all)
    then show ?thesis using that [of "xb_base (x_priv x')"] True t(1) c reply_wire_append [OF True, of "zero_pad msg" "mchain body"]
      by (simp add: svc_dg_reply_def acpt_success_def)
  next
    case False
    have "xb_base t \<noteq> []" "\<forall>m\<in>set (xb_base t). m_wf m" using wr(1) by (auto simp: xw_ok_def)
    then show ?thesis using that [of "xb_base t"] False t(1) c wr(2) by (auto simp: svc_dg_reply_def acpt_success_def)
  qed
qed

section \<open>Replies at the client\<close>

lemma clnt_decodes:
  assumes m: "mreq_ok m" "length (ce_junk e) = 4" and verf: "length (cr_verf cr) = 400"
    and msg: "reply_wf msg" "length pad = auth_pad (ar_verf (rp_acpt (rm_reply msg)))"
    and wire: "mchain m = reply_wire msg pad (if acpt_success msg then rs else [])"
  obtains xdrs t where "xdrmbuf_create (ce_zone e) (ce_junk e) m XDR_DECODE = Some xdrs"
    "xdr_replymsg xdrs (clnt_reply0 e cr) = Some (True, got_reply (clnt_reply0 e cr) msg (), xdrs\<lparr>x_priv := t\<rparr>)"
    "x_op xdrs = XDR_DECODE" "xr_ok (ce_junk e) t" "xr_inp t = (if acpt_success msg then rs else [])"
proof -
  obtain xdrs where x: "xdrmbuf_create (ce_zone e) (ce_junk e) m XDR_DECODE = Some xdrs" "x_op xdrs = XDR_DECODE"
    "x_ops xdrs = xdrmbuf_ops (ce_zone e) (ce_junk e)" "xr_ok (ce_junk e) (x_priv xdrs)" "xr_inp (x_priv xdrs) = mchain m"
    by (rule mbuf_opened [OF m])
  have "br.reply_in (ce_zone e) (ce_junk e) (clnt_reply0 e cr) msg [] ()"
    using msg(1) verf unfolding br.reply_in_def br.results_in_def
    by (auto simp: clnt_reply0_def auth_room_def reply_wf_def auth_wf_def word_le_nat_alt xdr_void_def br.decodes_Nil)
  note dec = br.decodes_replymsg [OF msg this]
  have inp: "xr_inp (x_priv xdrs) = reply_wire msg pad [] @ (if acpt_success msg then rs else [])"
    using x(5) wire reply_wire_append [of msg pad rs] by simp
  obtain t where "xdr_replymsg xdrs (clnt_reply0 e cr) = Some (True, got_reply (clnt_reply0 e cr) msg (), xdrs\<lparr>x_priv := t\<rparr>)"
    "xr_ok (ce_junk e) t" "xr_inp t = (if acpt_success msg then rs else [])"
    by (rule br.decodesD [OF dec x(2-4) inp])
  then show ?thesis using that x(1,2) by blast
qed

lemma seterr_error: "\<not> acpt_success msg \<Longrightarrow> fst (seterr_reply msg err) \<noteq> RPC_SUCCESS \<and> re_status (snd (seterr_reply msg err)) = fst (seterr_reply msg err)"
  by (auto simp: seterr_reply_def acpt_success_def Let_def accepted_def rejected_def split: clnt_stat.splits prod.splits)

lemma got_reply_success: "acpt_success (got_reply m0 msg w) \<longleftrightarrow> acpt_success msg"
  by (simp add: acpt_success_def got_reply_def got_acpt_def)

lemma clnt_out_done:
  assumes "cu_at cs (cc_cl cc) = Some cu"
  obtains cc' cs' where "clnt_out (authunix_ops vaddr addr oaddr host time xcr g) stat res cc cs = Some (cc', cs')"
    "cc_pc cc' = At_done stat res" "cu_at cs' (cc_cl cc) = Some (cu\<lparr>cu_threads := cu_threads cu - 1\<rparr>)"
proof -
  let ?ops = "authunix_ops vaddr addr oaddr host time xcr g" and ?cs = "cu_put (cc_cl cc) (cu\<lparr>cu_threads := cu_threads cu - 1\<rparr>) cs"
  have v: "ah_validate ?ops (cc_auth cc) (cc_xid cc) None [] = Some (True, [], cc_auth cc)" by (simp add: authunix_ops_def authunix_validate_def)
  have "clnt_out ?ops stat res cc cs =
      Some (cc\<lparr>cc_pc := At_done stat res, cc_auth := cc_auth cc\<rparr>, ?cs\<lparr>cs_reqs := hfree (cc_cr cc) (cs_reqs ?cs)\<rparr>)"
    using assms v by (simp add: clnt_out_def Let_def)
  then show ?thesis using that by (simp add: cu_at_put [OF assms])
qed

lemma clnt_got_reply_done:
  assumes ops: "ops = authunix_ops vaddr addr oaddr host time xcr g"
    and at: "cu_at cs (cc_cl cc) = Some cu" "cr_at cs (cc_cr cc) = Some cr" "cr_mrep cr = Some m"
    and m: "mreq_ok m" "length (ce_junk e) = 4" and verf: "length (cr_verf cr) = 400"
    and msg: "reply_wf msg" "length pad = auth_pad (ar_verf (rp_acpt (rm_reply msg)))"
    and wire: "mchain m = reply_wire msg pad (if acpt_success msg then rs else [])"
    and cc: "cc_ext cc = None" "ah_orig (cc_auth cc)" "acpt_success msg \<Longrightarrow> oa_flavor (ar_verf (rp_acpt (rm_reply msg))) = AUTH_NULL"
  obtains cc' cs' res where "clnt_got_reply e ops cc cs = Some (cc', cs')" "cc_pc cc' = At_done RPC_SUCCESS (Some res)" "mchain res = rs" "acpt_success msg"
  | cc' cs' where "clnt_got_reply e ops cc cs = Some (cc', cs')" "\<not> acpt_success msg"
      "cc_pc cc' = At_done (fst (seterr_reply (got_reply (clnt_reply0 e cr) msg ()) (cu_error cu))) None"
      "clnt_dg_geterr (cc_cl cc) cs' = Some (snd (seterr_reply (got_reply (clnt_reply0 e cr) msg ()) (cu_error cu)))"
proof -
  let ?msg = "got_reply (clnt_reply0 e cr) msg ()" and ?cs = "cr_put (cc_cr cc) (cr\<lparr>cr_mrep := None\<rparr>) cs"
  obtain xdrs t where x: "xdrmbuf_create (ce_zone e) (ce_junk e) m XDR_DECODE = Some xdrs"
    "xdr_replymsg xdrs (clnt_reply0 e cr) = Some (True, ?msg, xdrs\<lparr>x_priv := t\<rparr>)"
    "x_op xdrs = XDR_DECODE" "xr_ok (ce_junk e) t" "xr_inp t = (if acpt_success msg then rs else [])"
    by (rule clnt_decodes [OF m verf msg wire])
  show ?thesis
  proof (cases "acpt_success msg")
    case True
    obtain res x' where res: "xdrmbuf_getall (ce_zone e) (xdrs\<lparr>x_priv := t\<rparr>) = Some (res, x')" "mchain res = rs"
      by (rule mbuf_getall [of "xdrs\<lparr>x_priv := t\<rparr>" "ce_junk e" rs "ce_zone e"]) (use x(3-5) True in simp_all)
    let ?cu = "cu\<lparr>cu_error := (cu_error cu)\<lparr>re_status := RPC_SUCCESS\<rparr>\<rparr>"
    have at': "cu_at (cu_put (cc_cl cc) ?cu ?cs) (cc_cl cc) = Some ?cu" using at(1) by (simp add: cu_at_put [where x = cu])
    obtain cc' cs' where out: "clnt_out ops RPC_SUCCESS (Some res) cc (cu_put (cc_cl cc) ?cu ?cs) = Some (cc', cs')" "cc_pc cc' = At_done RPC_SUCCESS (Some res)"
      unfolding ops by (rule clnt_out_done [OF at']) 
    have ok: "rp_stat (rm_reply ?msg) = MSG_ACCEPTED" "ar_stat (rp_acpt (rm_reply ?msg)) = SUCCESS" "oa_flavor (ar_verf (rp_acpt (rm_reply ?msg))) = AUTH_NULL"
      using True cc(3) by (simp_all add: acpt_success_def got_reply_def got_acpt_def got_auth_def)
    have val: "ah_validate ops au y (Some (ar_verf (rp_acpt (rm_reply ?msg)))) r = Some (True, r, au)" for au y r
      using ok(3) by (simp add: ops authunix_ops_def authunix_validate_def)
    have "clnt_got_reply e ops cc cs = Some (cc', cs')"
      using at x(1,2) ok res(1) cc(1) out(1) at' val by (simp add: clnt_got_reply_def set_err_def get_err_def Let_def)
    then show ?thesis using that(1) out(2) res(2) True by blast
  next
    case False
    then have f: "\<not> acpt_success ?msg" by (simp add: got_reply_success)
    obtain stat err where st: "seterr_reply ?msg (cu_error cu) = (stat, err)" by fastforce
    then have ns: "stat \<noteq> RPC_SUCCESS" "re_status err \<noteq> RPC_SUCCESS" using seterr_error [OF f, of "cu_error cu"] by auto
    let ?cu = "cu\<lparr>cu_error := err\<rparr>"
    have at': "cu_at (cu_put (cc_cl cc) ?cu ?cs) (cc_cl cc) = Some ?cu" using at(1) by (simp add: cu_at_put [where x = cu])
    obtain cc' cs' where out: "clnt_out ops stat None cc (cu_put (cc_cl cc) ?cu ?cs) = Some (cc', cs')" "cc_pc cc' = At_done stat None"
      "cu_at cs' (cc_cl cc) = Some (?cu\<lparr>cu_threads := cu_threads ?cu - 1\<rparr>)"
      unfolding ops by (rule clnt_out_done [OF at'])
    have ref: "ah_refresh ops (cc_auth cc) = Some (False, cc_auth cc)" using cc(2) by (simp add: ops authunix_ops_def authunix_refresh_def)
    have "clnt_got_reply e ops cc cs = Some (cc', cs')"
      using at x(1,2) f [unfolded acpt_success_def, THEN Eq_FalseI] cc(1) out(1) at' st ns ref
      by (cases "stat = RPC_AUTHERROR") (simp_all add: clnt_got_reply_def get_err_def Let_def)
    then show ?thesis using that(2) [of cc' cs'] out(2,3) st False by (simp add: clnt_dg_geterr_def)
  qed
qed

section \<open>Answers\<close>

text \<open>What a server can answer to a request, and how it does.\<close>

datatype 'a svc_answer =
    Results "(xdrmbuf, 'a) xdrproc" 'a | Results_mbuf "mbuf list" | No_proc | Bad_args | System_error | Auth_error "32 word"
  | Weak_auth | No_prog | Prog_vers "32 word" "32 word"

fun svc_send :: "svc_env \<Rightarrow> svcxprt \<Rightarrow> svc_req \<Rightarrow> 'a svc_answer \<Rightarrow> svcpool \<Rightarrow> (bool \<times> datagram option \<times> svc_req \<times> svcpool) option" where
  "svc_send e xprt rq (Results p v) pool = svc_sendreply e xprt rq p v pool"
| "svc_send e xprt rq (Results_mbuf m) pool = svc_sendreply_mbuf e xprt rq (Some m) pool"
| "svc_send e xprt rq No_proc pool = svcerr_noproc e xprt rq pool"
| "svc_send e xprt rq Bad_args pool = svcerr_decode e xprt rq pool"
| "svc_send e xprt rq System_error pool = svcerr_systemerr e xprt rq pool"
| "svc_send e xprt rq (Auth_error why) pool = svcerr_auth e xprt rq why pool"
| "svc_send e xprt rq Weak_auth pool = svcerr_weakauth e xprt rq pool"
| "svc_send e xprt rq No_prog pool = svcerr_noprog e xprt rq pool"
| "svc_send e xprt rq (Prog_vers l h) pool = svcerr_progvers e xprt rq l h pool"

text \<open>What they mean to a client.\<close>

fun answer_stat :: "'a svc_answer \<Rightarrow> clnt_stat" where
  "answer_stat (Results p v) = RPC_SUCCESS"
| "answer_stat (Results_mbuf m) = RPC_SUCCESS"
| "answer_stat No_proc = RPC_PROCUNAVAIL"
| "answer_stat Bad_args = RPC_CANTDECODEARGS"
| "answer_stat System_error = RPC_SYSTEMERROR"
| "answer_stat (Auth_error why) = RPC_AUTHERROR"
| "answer_stat Weak_auth = RPC_AUTHERROR"
| "answer_stat No_prog = RPC_PROGUNAVAIL"
| "answer_stat (Prog_vers l h) = RPC_PROGVERSMISMATCH"

fun answer_err :: "'a svc_answer \<Rightarrow> rpc_err \<Rightarrow> bool" where
  "answer_err (Auth_error why) err \<longleftrightarrow> re_why err = why"
| "answer_err Weak_auth err \<longleftrightarrow> re_why err = AUTH_TOOWEAK"
| "answer_err (Prog_vers l h) err \<longleftrightarrow> re_low err = l \<and> re_high err = h"
| "answer_err _ err \<longleftrightarrow> True"

text \<open>The octets of the results; other answers have none.\<close>

definition answer_results :: "svc_env \<Rightarrow> 'a svc_answer \<Rightarrow> octets \<Rightarrow> bool" where
  "answer_results e ans rs \<longleftrightarrow>
     (case ans of
        Results p v \<Rightarrow> bw.encodes (se_zone e) (se_junk e) p v rs
      | Results_mbuf m \<Rightarrow> (\<forall>m\<in>set m. m_wf m) \<and> rs = mchain m
      | _ \<Rightarrow> True)"

text \<open>The messages that are sent.\<close>

fun answer_msg :: "svc_env \<Rightarrow> svc_req \<Rightarrow> 'a svc_answer \<Rightarrow> kmsg" where
  "answer_msg e rq (Results p v) = success_rply e rq"
| "answer_msg e rq (Results_mbuf m) = success_rply e rq"
| "answer_msg e rq No_proc = acpt_rply e rq PROC_UNAVAIL"
| "answer_msg e rq Bad_args = acpt_rply e rq GARBAGE_ARGS"
| "answer_msg e rq System_error = acpt_rply e rq SYSTEM_ERR"
| "answer_msg e rq (Auth_error why) = auth_rply e rq why"
| "answer_msg e rq Weak_auth = auth_rply e rq AUTH_TOOWEAK"
| "answer_msg e rq No_prog = acpt_rply e rq PROG_UNAVAIL"
| "answer_msg e rq (Prog_vers l h) = vers_rply e rq l h"

lemmas rply_defs = acpt_rply_def success_rply_def auth_rply_def vers_rply_def Let_def

lemma answer_msg_wf:
  assumes "rq_verf rq = null_auth"
  shows "reply_wf (answer_msg e rq ans)" "void_results (answer_msg e rq ans)" "acpt_success (answer_msg e rq ans) \<longleftrightarrow> answer_stat ans = RPC_SUCCESS"
    "rm_xid (answer_msg e rq ans) = rq_xid rq"
  by (cases ans; simp add: rply_defs reply_wf_def assms null_auth_wf void_results_def acpt_success_def)+

lemma answer_msg_status:
  assumes "rq_verf rq = null_auth" "answer_stat ans \<noteq> RPC_SUCCESS"
  shows "fst (seterr_reply (got_reply m0 (answer_msg e rq ans) ()) err) = answer_stat ans"
    "answer_err ans (snd (seterr_reply (got_reply m0 (answer_msg e rq ans) ()) err))"
proof -
  note defs = rply_defs seterr_reply_def got_reply_def got_acpt_def got_rjct_def accepted_def rejected_def
  show "fst (seterr_reply (got_reply m0 (answer_msg e rq ans) ()) err) = answer_stat ans" using assms by (cases ans) (simp_all add: defs)
  show "answer_err ans (snd (seterr_reply (got_reply m0 (answer_msg e rq ans) ()) err))" using assms by (cases ans) (simp_all add: defs)
qed

definition pool_ok :: "svcpool \<Rightarrow> bool" where
  "pool_ok pool \<longleftrightarrow> (\<forall>rc. sp_rcache pool = Some rc \<longrightarrow> rc_lists rc)"

lemma svc_setreply_ok:
  assumes "pool_ok pool"
  obtains pool' where "svc_setreply addr rply body pool = Some pool'" "pool_ok pool'" "sp_callouts pool' = sp_callouts pool"
proof (cases "sp_rcache pool")
  case None
  then show ?thesis using that [of pool] assms by (simp add: svc_setreply_def)
next
  case (Some rc)
  then have "rc_lists rc" using assms by (simp add: pool_ok_def)
  then obtain rc' where "replay_setreply rc rply addr body = Some rc'" "rc_lists rc'" by (rule replay_setreply_lists)
  then show ?thesis using that [of "pool\<lparr>sp_rcache := Some rc'\<rparr>"] Some by (simp add: svc_setreply_def pool_ok_def)
qed

lemma svc_sendreply_common_wire:
  assumes msg: "reply_wf rply" "void_results rply" and body: "\<forall>ms. body = Some ms \<longrightarrow> (\<forall>m\<in>set ms. m_wf m)"
    and rq: "oa_flavor (rq_cred rq) \<noteq> RPCSEC_GSS" and pool: "pool_ok pool"
  obtains ms rq' pool' where "svc_sendreply_common e xprt rq rply body pool = Some (True, Some (rq_addr rq, ms), rq', pool')"
    "ms \<noteq> []" "\<forall>m\<in>set ms. m_wf m" "pool_ok pool'" "sp_callouts pool' = sp_callouts pool"
    "mchain ms = reply_wire rply (zero_pad rply) (if acpt_success rply then mchain (case body of Some m \<Rightarrow> m | None \<Rightarrow> []) else [])"
proof -
  let ?b = "case body of Some m \<Rightarrow> m | None \<Rightarrow> []"
  obtain p where p: "svc_setreply (svc_getrpccaller xprt (rq\<lparr>rq_args := []\<rparr>)) rply body pool = Some p" "pool_ok p" "sp_callouts p = sp_callouts pool"
    by (rule svc_setreply_ok [OF pool])
  have "\<forall>m\<in>set ?b. m_wf m" using body by (cases body) simp_all
  then obtain ms where "svc_dg_reply e rply (Some ?b) = Some (True, Some ms)" "ms \<noteq> []" "\<forall>m\<in>set ms. m_wf m"
    "mchain ms = reply_wire rply (zero_pad rply) (if acpt_success rply then mchain ?b else [])"
    by (rule svc_dg_reply_wire [OF msg])
  then show ?thesis using that p rq by (simp add: svc_sendreply_common_def SVCAUTH_WRAP_def)
qed

lemmas svcerr_defs = svcerr_noproc_def svcerr_decode_def svcerr_systemerr_def svcerr_auth_def svcerr_weakauth_def svcerr_noprog_def svcerr_progvers_def

text \<open>An error reply is recorded, and then sent as every other.\<close>

lemma svc_send_error:
  assumes "answer_stat ans \<noteq> RPC_SUCCESS"
  shows "svc_send e xprt rq ans pool =
    do { pool \<leftarrow> svc_setreply (case ans of Bad_args \<Rightarrow> xp_rtaddr xprt | _ \<Rightarrow> svc_getrpccaller xprt rq) (answer_msg e rq ans) None pool;
         svc_sendreply_common e xprt rq (answer_msg e rq ans) None pool }"
  using assms by (cases ans) (simp_all add: svcerr_defs Let_def)

lemma svc_send_results:
  assumes "answer_stat ans = RPC_SUCCESS" "answer_results e ans rs"
  obtains ms where "svc_send e xprt rq ans pool = svc_sendreply_common e xprt rq (answer_msg e rq ans) (Some ms) pool"
    "\<forall>m\<in>set ms. m_wf m" "mchain ms = rs"
proof (cases ans)
  case (Results p v)
  let ?x = "\<lparr>x_op = XDR_ENCODE, x_ops = xdrmbuf_ops (se_zone e) (se_junk e),
    x_priv = \<lparr>xb_base = [MGET (se_zone e) 0 True], xb_private = Some 0, xb_handy = 0\<rparr>\<rparr>"
  have c: "xdrmbuf_create (se_zone e) (se_junk e) [MGET (se_zone e) 0 True] XDR_ENCODE = Some ?x" by (simp add: xdrmbuf_create_def MGET_def)
  have ok: "xw_ok (x_priv ?x)" "mchain (xb_base (x_priv ?x)) = []" by (simp_all add: xw_ok_def m_wf_def mdata_def MGET_def)
  have "bw.encodes (se_zone e) (se_junk e) p v rs" using assms(2) Results by (simp add: answer_results_def)
  then obtain t where t: "p ?x v = Some (True, v, ?x\<lparr>x_priv := t\<rparr>)" "xw_wr rs (x_priv ?x) t"
    by (rule bw.encodesD [OF _ _ _ ok(1) TrueI]) simp_all
  then show ?thesis using that [of "xb_base t"] Results c ok(2) by (auto simp: svc_sendreply_def xw_wr_def xw_ok_def)
next
  case (Results_mbuf m)
  then show ?thesis using that [of m] assms(2) by (simp add: svc_sendreply_mbuf_def answer_results_def)
qed (use assms in simp_all)

lemma svc_send_wire:
  assumes rq: "rq_verf rq = null_auth" "oa_flavor (rq_cred rq) \<noteq> RPCSEC_GSS" and pool: "pool_ok pool" and rs: "answer_results e ans rs"
  obtains ms rq' pool' where "svc_send e xprt rq ans pool = Some (True, Some (rq_addr rq, ms), rq', pool')" "ms \<noteq> []" "\<forall>m\<in>set ms. m_wf m"
    "pool_ok pool'" "sp_callouts pool' = sp_callouts pool"
    "mchain ms = reply_wire (answer_msg e rq ans) (zero_pad (answer_msg e rq ans)) (if answer_stat ans = RPC_SUCCESS then rs else [])"
proof (cases "answer_stat ans = RPC_SUCCESS")
  case True
  obtain b where b: "svc_send e xprt rq ans pool = svc_sendreply_common e xprt rq (answer_msg e rq ans) (Some b) pool"
    "\<forall>m\<in>set b. m_wf m" "mchain b = rs" by (rule svc_send_results [OF True rs])
  have "\<forall>ms. Some b = Some ms \<longrightarrow> (\<forall>m\<in>set ms. m_wf m)" using b(2) by simp
  then obtain ms rq' pool' where "svc_sendreply_common e xprt rq (answer_msg e rq ans) (Some b) pool = Some (True, Some (rq_addr rq, ms), rq', pool')"
    "ms \<noteq> []" "\<forall>m\<in>set ms. m_wf m" "pool_ok pool'" "sp_callouts pool' = sp_callouts pool"
    "mchain ms = reply_wire (answer_msg e rq ans) (zero_pad (answer_msg e rq ans))
       (if acpt_success (answer_msg e rq ans) then mchain (case Some b of Some m \<Rightarrow> m | None \<Rightarrow> []) else [])"
    by (rule svc_sendreply_common_wire [OF answer_msg_wf(1,2) [OF rq(1)] _ rq(2) pool])
  then show ?thesis using that [of ms rq' pool'] True b answer_msg_wf(3) [OF rq(1), of e ans] by simp
next
  case False
  obtain p where p: "svc_setreply (case ans of Bad_args \<Rightarrow> xp_rtaddr xprt | _ \<Rightarrow> svc_getrpccaller xprt rq) (answer_msg e rq ans) None pool = Some p"
    "pool_ok p" "sp_callouts p = sp_callouts pool" by (rule svc_setreply_ok [OF pool])
  have "\<forall>ms. (None :: mbuf list option) = Some ms \<longrightarrow> (\<forall>m\<in>set ms. m_wf m)" by simp
  then obtain ms rq' pool' where "svc_sendreply_common e xprt rq (answer_msg e rq ans) (None) p = Some (True, Some (rq_addr rq, ms), rq', pool')"
    "ms \<noteq> []" "\<forall>m\<in>set ms. m_wf m" "pool_ok pool'" "sp_callouts pool' = sp_callouts p"
    "mchain ms = reply_wire (answer_msg e rq ans) (zero_pad (answer_msg e rq ans))
       (if acpt_success (answer_msg e rq ans) then mchain (case None of Some m \<Rightarrow> m | None \<Rightarrow> []) else [])"
    by (rule svc_sendreply_common_wire [OF answer_msg_wf(1,2) [OF rq(1)] _ rq(2) p(2)])
  then show ?thesis using that [of ms rq' pool'] False p svc_send_error [OF False] answer_msg_wf(3) [OF rq(1), of e ans] by simp
qed

text \<open>A call that has received a message, and has room for the verifier in it.\<close>

definition clnt_has :: "'a clnt_call \<Rightarrow> cu_socket \<Rightarrow> mbuf list \<Rightarrow> bool" where
  "clnt_has cc cs m \<longleftrightarrow> (\<exists>cu cr. cu_at cs (cc_cl cc) = Some cu \<and> cr_at cs (cc_cr cc) = Some cr \<and> cr_mrep cr = Some m \<and> length (cr_verf cr) = 400)"

lemma answer_msg_verf: "rq_verf rq = null_auth \<Longrightarrow> acpt_success (answer_msg e rq ans) \<Longrightarrow> oa_flavor (ar_verf (rp_acpt (rm_reply (answer_msg e rq ans)))) = AUTH_NULL"
  by (cases ans) (simp_all add: rply_defs acpt_success_def null_auth_def)

lemma length_answer_wire:
  assumes "rq_verf rq = null_auth"
  shows "length (reply_wire (answer_msg e rq ans) (zero_pad (answer_msg e rq ans)) (if answer_stat ans = RPC_SUCCESS then rs else [])) \<le> 32 + length rs"
  by (cases ans) (simp_all add: rply_defs assms reply_wire_def acpt_wire_def acpt_tail_def rjct_wire_def auth_wire_def null_auth_wf auth_body_def null_auth_def auth_pad_def xdr_pad_def)

lemma reply_wire_xid: "mchain m = reply_wire msg pad rs \<Longrightarrow> reply_xid m = rm_xid msg"
  by (simp add: reply_xid_def reply_wire_def)

lemma clnt_answered:
  assumes m: "mreq_ok m" "length (ce_junk ce) = 4" "clnt_has cc cs m" and cc: "cc_ext cc = None" "ah_orig (cc_auth cc)" and rq: "rq_verf rq = null_auth"
    and wire: "mchain m = reply_wire (answer_msg e rq ans) (zero_pad (answer_msg e rq ans)) (if answer_stat ans = RPC_SUCCESS then rs else [])"
  obtains cc' cs' res where "clnt_got_reply ce (authunix_ops vaddr addr oaddr host time xcr g) cc cs = Some (cc', cs')"
    "cc_pc cc' = At_done (answer_stat ans) res" "answer_stat ans = RPC_SUCCESS \<longrightarrow> (\<exists>r. res = Some r \<and> mchain r = rs)"
    "answer_stat ans \<noteq> RPC_SUCCESS \<longrightarrow> res = None \<and> (\<exists>err. clnt_dg_geterr (cc_cl cc) cs' = Some err \<and> answer_err ans err)"
proof -
  obtain cu cr where at: "cu_at cs (cc_cl cc) = Some cu" "cr_at cs (cc_cr cc) = Some cr" "cr_mrep cr = Some m" "length (cr_verf cr) = 400"
    using m(3) by (auto simp: clnt_has_def)
  note wf = answer_msg_wf [OF rq, of e ans] and st = answer_msg_status [OF rq, of ans "clnt_reply0 ce cr" e "cu_error cu"]
  show ?thesis
  proof (rule clnt_got_reply_done [OF refl at(1-3) m(1,2) at(4) wf(1) length_replicate wire [folded wf(3)] cc answer_msg_verf [OF rq],
      of vaddr addr oaddr host time xcr g])
    fix cc' cs' r assume "clnt_got_reply ce (authunix_ops vaddr addr oaddr host time xcr g) cc cs = Some (cc', cs')"
      "cc_pc cc' = At_done RPC_SUCCESS (Some r)" "mchain r = rs" "acpt_success (answer_msg e rq ans)"
    then show ?thesis using that [of cc' cs' "Some r"] wf(3) by simp
  next
    fix cc' cs' assume "clnt_got_reply ce (authunix_ops vaddr addr oaddr host time xcr g) cc cs = Some (cc', cs')" "\<not> acpt_success (answer_msg e rq ans)"
      "cc_pc cc' = At_done (fst (seterr_reply (got_reply (clnt_reply0 ce cr) (answer_msg e rq ans) ()) (cu_error cu))) None"
      "clnt_dg_geterr (cc_cl cc) cs' = Some (snd (seterr_reply (got_reply (clnt_reply0 ce cr) (answer_msg e rq ans) ()) (cu_error cu)))"
    then show ?thesis using that [of cc' cs' None] wf(3) st by simp
  qed
qed

text \<open>A server and a client for the examples.\<close>

definition ex_mbuf :: mbuf where
  "ex_mbuf = \<lparr>m_addr = 4096, m_store = replicate 208 0, m_len = 0, m_ext = False\<rparr>"

definition ex_svc :: svc_env where
  "ex_svc =
     \<lparr>se_hostname = [0], se_time = 0, se_gss = None, se_wrap = \<lambda>_ b. (True, b), se_unwrap = \<lambda>_ m. (True, m), se_zone = \<lambda>_. (4096, \<lambda>_. 0),
      se_junk = [0, 0, 0, 0], se_msg = null_call 0, se_rply = null_call 0, se_mrep = ex_mbuf, se_mem = True\<rparr>"

definition ex_xprt :: svcxprt where
  "ex_xprt = \<lparr>xp_netid = None, xp_rtaddr = []\<rparr>"

definition ex_err :: rpc_err where
  "ex_err = \<lparr>re_status = RPC_SUCCESS, re_errno = 0, re_why = 0, re_low = 0, re_high = 0, re_s1 = 0, re_s2 = 0\<rparr>"

definition ex_cr :: "mbuf list option \<Rightarrow> cu_request" where
  "ex_cr m = \<lparr>cr_client = 0, cr_xid = 7, cr_mrep = m, cr_error = 0, cr_verf = replicate 400 0, cr_woken = True\<rparr>"

definition ex_cu :: cu_data where
  "ex_cu =
     \<lparr>cu_threads = 1, cu_closing = False, cu_closed = False, cu_closeit = False, cu_raddr = [], cu_wait = \<lparr>tv_sec = 3, tv_usec = 0\<rparr>,
      cu_total = \<lparr>tv_sec = -1, tv_usec = -1\<rparr>, cu_error = ex_err, cu_xid = 7, cu_mcallc = replicate 24 0, cu_mcalllen = 20, cu_async = False,
      cu_connect = False, cu_connected = False, cu_waitchan = ''rpcrecv'', cu_waitflag = False, cu_cwnd = 4096, cu_sent = 256, cu_cwnd_wait = False\<rparr>"

definition ex_sock :: "mbuf list \<Rightarrow> cu_socket" where
  "ex_sock m = \<lparr>cs_refs = 1, cs_pending = [], cs_reqs = [Some (ex_cr (Some m))], cs_cus = [Some ex_cu]\<rparr>"

definition ex_clnt :: clnt_env where
  "ex_clnt =
     \<lparr>ce_hz = 100, ce_tick = 10000, ce_zone = \<lambda>_. (4096, \<lambda>_. 0), ce_junk = [0, 0, 0, 0], ce_mreq = ex_mbuf, ce_msg = null_call 0, ce_stale = ex_cr None\<rparr>"

definition ex_xcred :: xucred where
  "ex_xcred = \<lparr>xcr_version = 0, xcr_uid = 0, xcr_ngroups = 1, xcr_groups = replicate NGROUPS 0\<rparr>"

definition ex_call :: "audata clnt_call" where
  "ex_call =
     \<lparr>cc_pc = At_reply, cc_cl = 0, cc_cr = 0, cc_auth = \<lparr>au_refs = 1, au_xcred = ex_xcred, au_origcred = null_auth, au_shcred = null_auth,
        au_shfaults = 0, au_marshed = [], au_mpos = 0, ah_cred = null_auth, ah_verf = null_auth, ah_orig = True\<rparr>,
      cc_proc = 0, cc_args = None, cc_ext = None, cc_rt = None, cc_xid = 7, cc_retrans = 0, cc_nrefreshes = 2, cc_timeout = 100,
      cc_retransmit_time = 10, cc_next_sendtime = 10, cc_starttime = 0, cc_time_waited = 0\<rparr>"

lemma ex_has: "clnt_has ex_call (ex_sock m) m"
  by (simp add: clnt_has_def ex_call_def ex_sock_def cu_at_def cr_at_def deref_def ex_cr_def)

text \<open>C36: Whatever the server answers to a request that does not use \<^verbatim>\<open>RPCSEC_GSS\<close> and has the null verifier, results or any of its
  errors, the answer is sent to where the request came from with the xid of the request. However the network cuts its octets into
  mbufs, a call that waits for it, made with an original Unix-style credential and without call metadata (\<^verbatim>\<open>ext\<close> is \<^verbatim>\<open>NULL\<close>),
  returns with the status the answer stands for: with the octets of the results if it is a success, and otherwise with the
  reason of a refused authentication or the range of the versions in the client's error.
\<close>

theorem rpc_answered:
  assumes "rq_verf rq = null_auth" "oa_flavor (rq_cred rq) \<noteq> RPCSEC_GSS" "pool_ok pool" "answer_results e ans rs" "length rs < 2 ^ 31"
    and "length (ce_junk ce) = 4" "cc_ext cc = None" "ah_orig (cc_auth cc)"
  shows "\<exists>ms rq' pool'. svc_send e xprt rq ans pool = Some (True, Some (rq_addr rq, ms), rq', pool') \<and> mreq_ok ms \<and> reply_xid ms = rq_xid rq \<and>
    (\<forall>m cs. mreq_ok m \<and> mchain m = mchain ms \<and> clnt_has cc cs m \<longrightarrow>
      (\<exists>cc' cs' res. clnt_got_reply ce (authunix_ops vaddr addr oaddr host time xcr g) cc cs = Some (cc', cs') \<and>
        cc_pc cc' = At_done (answer_stat ans) res \<and> (answer_stat ans = RPC_SUCCESS \<longrightarrow> (\<exists>r. res = Some r \<and> mchain r = rs)) \<and>
        (answer_stat ans \<noteq> RPC_SUCCESS \<longrightarrow> res = None \<and> (\<exists>err. clnt_dg_geterr (cc_cl cc) cs' = Some err \<and> answer_err ans err))))"
proof -
  obtain ms rq' pool' where send: "svc_send e xprt rq ans pool = Some (True, Some (rq_addr rq, ms), rq', pool')" "ms \<noteq> []" "\<forall>m\<in>set ms. m_wf m"
    and wire: "mchain ms = reply_wire (answer_msg e rq ans) (zero_pad (answer_msg e rq ans)) (if answer_stat ans = RPC_SUCCESS then rs else [])"
    by (rule svc_send_wire [OF assms(1-4)])
  moreover have "mreq_ok ms"
    using send(2,3) length_answer_wire [OF assms(1), of e ans rs] assms(5) unfolding wire [symmetric] by (simp add: mreq_ok_def length_mchain)
  moreover have "reply_xid ms = rq_xid rq" using reply_wire_xid [OF wire] answer_msg_wf(4) [OF assms(1)] by simp
  moreover have "\<exists>cc' cs' res. clnt_got_reply ce (authunix_ops vaddr addr oaddr host time xcr g) cc cs = Some (cc', cs') \<and>
        cc_pc cc' = At_done (answer_stat ans) res \<and> (answer_stat ans = RPC_SUCCESS \<longrightarrow> (\<exists>r. res = Some r \<and> mchain r = rs)) \<and>
        (answer_stat ans \<noteq> RPC_SUCCESS \<longrightarrow> res = None \<and> (\<exists>err. clnt_dg_geterr (cc_cl cc) cs' = Some err \<and> answer_err ans err))"
    if "mreq_ok m" "mchain m = mchain ms" "clnt_has cc cs m" for m cs
    by (rule clnt_answered [OF that(1) assms(6) that(3) assms(7,8,1) that(2) [unfolded wire]]) blast
  ultimately show ?thesis by blast
qed

theorem rpc_answered_witness:
  "\<exists>ms rq' pool' cc' cs'. svc_send ex_svc ex_xprt ((svc_req0 4096)\<lparr>rq_xid := 7, rq_addr := Some [1]\<rparr>) (Auth_error 5 :: unit svc_answer) \<lparr>sp_callouts = [], sp_rcache = None\<rparr>
       = Some (True, Some (Some [1], ms), rq', pool') \<and> reply_xid ms = 7 \<and>
     clnt_got_reply ex_clnt (authunix_ops 0 0 0 [] 0 ex_xcred 0) ex_call (ex_sock ms) = Some (cc', cs') \<and> cc_pc cc' = At_done RPC_AUTHERROR None \<and>
     (\<exists>err. clnt_dg_geterr 0 cs' = Some err \<and> re_why err = 5)"
proof -
  let ?rq = "(svc_req0 4096)\<lparr>rq_xid := 7, rq_addr := Some [1]\<rparr>" and ?pool = "\<lparr>sp_callouts = [], sp_rcache = None\<rparr>"
  have h: "rq_verf ?rq = null_auth" "oa_flavor (rq_cred ?rq) \<noteq> RPCSEC_GSS" "pool_ok ?pool" "answer_results ex_svc (Auth_error 5 :: unit svc_answer) []"
    "length ([] :: octets) < 2 ^ 31" "length (ce_junk ex_clnt) = 4" "cc_ext ex_call = None" "ah_orig (cc_auth ex_call)"
    by (simp_all add: svc_req0_def null_auth_def pool_ok_def answer_results_def ex_clnt_def ex_call_def)
  obtain ms rq' pool' where ms: "svc_send ex_svc ex_xprt ?rq (Auth_error 5 :: unit svc_answer) ?pool = Some (True, Some (rq_addr ?rq, ms), rq', pool')"
    "mreq_ok ms" "reply_xid ms = rq_xid ?rq"
    "\<forall>m cs. mreq_ok m \<and> mchain m = mchain ms \<and> clnt_has ex_call cs m \<longrightarrow>
      (\<exists>cc' cs' res. clnt_got_reply ex_clnt (authunix_ops 0 0 0 [] 0 ex_xcred 0) ex_call cs = Some (cc', cs') \<and>
        cc_pc cc' = At_done (answer_stat (Auth_error 5 :: unit svc_answer)) res \<and>
        (answer_stat (Auth_error 5 :: unit svc_answer) = RPC_SUCCESS \<longrightarrow> (\<exists>r. res = Some r \<and> mchain r = [])) \<and>
        (answer_stat (Auth_error 5 :: unit svc_answer) \<noteq> RPC_SUCCESS \<longrightarrow> res = None \<and>
          (\<exists>err. clnt_dg_geterr (cc_cl ex_call) cs' = Some err \<and> answer_err (Auth_error 5 :: unit svc_answer) err)))"
    using rpc_answered [OF h, of ex_xprt 0 0 0 "[]" 0 ex_xcred 0] by blast
  have "cc_cl ex_call = 0" by (simp add: ex_call_def)
  then show ?thesis using ms(1,3) ms(4) [rule_format, of ms "ex_sock ms"] ms(2) ex_has by simp
qed

section \<open>Requests\<close>

lemma svc_getreq_unix:
  assumes m: "mreq_ok mreq" "length (se_junk e) = 4" "mchain mreq = unix_call xid prog vers proc host time x @ as"
    and x: "xucred_wf x" "host_wf host" and addr: "buf_ok credaddr svc_area"
    and msg: "msg = got_call (svc_msg (se_msg e)) (unix_msg (se_msg e) xid prog vers proc host time x)"
    and new: "svc_replay e xprt raddr msg pool = Some (Some (True, None, pool'))"
  obtains args cred where "svc_getreq e xprt credaddr raddr mreq pool = Some (Some (Some ((svc_req0 credaddr)\<lparr>rq_addr := raddr, rq_xid := xid,
      rq_prog := prog, rq_vers := vers, rq_proc := proc, rq_args := args, rq_cred := cred,
      rq_clntcred := got_xucred (rq_clntcred (svc_req0 credaddr)) x\<rparr>), None, pool'))"
    "mchain args = as" "\<forall>m\<in>set args. m_wf m" "oa_flavor cred = AUTH_SYS"
proof -
  obtain args where args: "svc_recv (se_zone e) (se_junk e) mreq (svc_msg (se_msg e)) = Some (Some (msg, args))" "mchain args = as" "\<forall>m\<in>set args. m_wf m"
    using svc_recv_unix [OF m x, of "se_zone e" "se_msg e"] unfolding msg .
  obtain cred where cred: "authenticate (se_hostname e) (se_time e) (se_gss e) (svc_newreq credaddr raddr msg args) (rm_call msg) =
      Some (AUTH_OK, (svc_newreq credaddr raddr msg args)\<lparr>rq_cred := cred, rq_clntcred := got_xucred (rq_clntcred (svc_req0 credaddr)) x\<rparr>)"
    "oa_flavor cred = AUTH_SYS" by (rule authenticate_unix [OF x addr msg])
  let ?rq = "(svc_newreq credaddr raddr msg args)\<lparr>rq_cred := cred, rq_clntcred := got_xucred (rq_clntcred (svc_req0 credaddr)) x\<rparr>"
  have "svc_getreq e xprt credaddr raddr mreq pool = Some (Some (Some ?rq, None, pool'))"
    using args(1) new cred by (simp add: svc_getreq_def svc_authreq_def SVCAUTH_UNWRAP_def svc_newreq_def)
  moreover have "?rq = (svc_req0 credaddr)\<lparr>rq_addr := raddr, rq_xid := xid, rq_prog := prog, rq_vers := vers, rq_proc := proc,
      rq_args := args, rq_cred := cred, rq_clntcred := got_xucred (rq_clntcred (svc_req0 credaddr)) x\<rparr>"
    by (simp add: svc_newreq_def msg got_call_def unix_msg_def)
  ultimately show ?thesis using that args(2,3) cred(2) by metis
qed

text \<open>The credential the server makes of a request is that of the caller.\<close>

lemma svc_getcred_unix:
  assumes rq: "oa_flavor (rq_cred rq) = AUTH_SYS" "rq_clntcred rq = got_xucred x0 x" and x: "xucred_wf x" "length (xcr_groups x0) = NGROUPS"
  obtains c k' cr where "svc_getcred gssc rq k = Some (Some c, k')" "cred_at k' c = Some cr"
    "cr_uid cr = xcr_uid x" "cr_ruid cr = xcr_uid x" "cr_svuid cr = xcr_uid x" "cr_ngroups cr = xcr_ngroups x"
    "take (cr_ngroups cr) (cr_groups cr) = take (xcr_ngroups x) (xcr_groups x)" "cr_rgid cr = xcr_groups x ! 0" "cr_svgid cr = xcr_groups x ! 0"
proof -
  let ?xcr = "rq_clntcred rq" and ?z = "ucred_zero\<lparr>cr_ref := 1\<rparr>" and ?c = "length (k_ucreds k)"
  let ?k = "k\<lparr>k_ucreds := halloc ?z (k_ucreds k)\<rparr>" and ?n = "xcr_ngroups x"
  have n: "xcr_ngroups ?xcr = ?n" "xcr_uid ?xcr = xcr_uid x" "?n \<le> length (xcr_groups ?xcr)" "0 < ?n" "?n \<le> NGROUPS"
    "take ?n (xcr_groups ?xcr) = take ?n (xcr_groups x)"
    using rq(2) x by (simp_all add: got_xucred_def xucred_wf_def)
  have z: "cred_at ?k ?c = Some ?z" by (simp add: cred_at_def deref_halloc)
  let ?gs = "take ?n (xcr_groups x) @ drop ?n (cr_groups ?z)"
  have gs: "?gs ! 0 = xcr_groups x ! 0" "take ?n ?gs = take ?n (xcr_groups x)"
    using n(4,5) x(1) by (simp_all add: xucred_wf_def nth_append)
  let ?cr = "?z\<lparr>cr_uid := xcr_uid x, cr_ruid := xcr_uid x, cr_svuid := xcr_uid x, cr_ngroups := ?n, cr_groups := ?gs,
    cr_rgid := ?gs ! 0, cr_svgid := ?gs ! 0\<rparr>"
  have "svc_getcred gssc rq k = Some (Some ?c, cred_put ?c ?cr ?k)"
    using rq(1) n z by (simp add: svc_getcred_def crget_def Let_def ucred_zero_def)
  moreover have "cred_at (cred_put ?c ?cr ?k) ?c = Some ?cr" by (simp add: cred_at_def cred_put_def deref_hstore halloc_def)
  ultimately show ?thesis using that [of ?c "cred_put ?c ?cr ?k" ?cr] gs by simp
qed

lemma length_unix_call:
  assumes "xucred_wf x" "host_wf host"
  shows "length (unix_call xid prog vers proc host time x) \<le> 400"
  using length_unix_marshed [OF assms, of time] length_parms_wire(2) [OF assms, of time] by (simp add: unix_call_def call_header_def)

lemma unix_request:
  assumes au: "unix_client host time x au" and h: "buf_ok haddr mcallc" "length mcallc = 24" and m: "20 \<le> length (m_store m)" "\<forall>m\<in>set args. m_wf m"
  obtains hdr mreq where "clnt_header haddr mcallc cm = Some (Inr (hdr, 20))"
    "clnt_request mg junk m hdr 20 xid proc (authunix_marshal au) args = Some (Inr mreq)"
    "mchain mreq = unix_call xid (cb_prog (rm_call cm)) (cb_vers (rm_call cm)) proc host time x @ mchain args" "mreq \<noteq> []" "\<forall>m\<in>set mreq. m_wf m"
proof -
  let ?h = "call_header (rm_xid cm) (cb_prog (rm_call cm)) (cb_vers (rm_call cm))"
  have "clnt_header haddr mcallc cm = Some (Inr (?h @ drop 20 mcallc, 20))" by (rule clnt_header_wire [OF h])
  moreover obtain ms where "clnt_request mg junk m (?h @ drop 20 mcallc) 20 xid proc (authunix_marshal au) args = Some (Inr ms)"
    "ms \<noteq> []" "\<forall>m\<in>set ms. m_wf m"
    "mchain ms = call_header xid (cb_prog (rm_call cm)) (cb_vers (rm_call cm)) @ xdr_unit proc @ unix_marshed host time x @ mchain args"
    by (rule clnt_request_wire [OF m(1) au m(2)])
  ultimately show ?thesis using that by (simp add: unix_call_def)
qed

text \<open>The request of a call with the authenticator \<open>au\<close>, built with the header of a new client.\<close>

definition unix_sends :: "audata \<Rightarrow> 32 word \<Rightarrow> octets \<Rightarrow> (xdrmem, unit) rpc_msg \<Rightarrow> mbuf \<Rightarrow> 32 word \<Rightarrow> 32 word \<Rightarrow> mbuf list \<Rightarrow> mbuf_zone \<Rightarrow> octets \<Rightarrow> mbuf list \<Rightarrow> bool" where
  "unix_sends au haddr mcallc cm m xid proc args mg junk mreq \<longleftrightarrow>
     (\<exists>hdr len. clnt_header haddr mcallc cm = Some (Inr (hdr, len)) \<and>
        clnt_request mg junk m hdr len xid proc (authunix_marshal au) args = Some (Inr mreq))"

text \<open>The service knows the caller: the credential of a request is the one of the process.\<close>

definition same_caller :: "ucred \<Rightarrow> svc_req \<Rightarrow> kern \<Rightarrow> (svc_req \<Rightarrow> kern \<Rightarrow> (addr option \<times> kern) option) option \<Rightarrow> bool" where
  "same_caller cr rq k gssc \<longleftrightarrow>
     (\<exists>c k' cr'. svc_getcred gssc rq k = Some (Some c, k') \<and> cred_at k' c = Some cr' \<and> cr_uid cr' = cr_uid cr \<and> cr_ruid cr' = cr_uid cr \<and>
        cr_svuid cr' = cr_uid cr \<and> cr_ngroups cr' = cr_ngroups cr \<and> take (cr_ngroups cr) (cr_groups cr') = take (cr_ngroups cr) (cr_groups cr) \<and>
        cr_rgid cr' = cr_groups cr ! 0 \<and> cr_svgid cr' = cr_groups cr ! 0)"

text \<open>C35: A call with Unix-style authentication reaches the service as the process made it, as long as no server hands out a shorthand
  credential. Whatever threads have done with the authenticators and their cache, a process with
  a valid credential gets one and can send a request with it; and however the network cuts the octets of the request into
  mbufs, a server that keeps no replay cache queues a request with the same xid, program, version and procedure, the octets of the arguments, and
  from which it makes a credential with the user and the groups of the process.
\<close>

theorem rpc_identity:
  assumes "(auth_step S)\<^sup>*\<^sup>* ({#}, auth_boot) (H, st)" "AUTH_SHORT \<notin> S" "size H + 2 < 2 ^ 32"
    and "xucred_wf (cru2x cr)" "host_wf host" "buf_ok stack mymem" "length mymem = 400" "buf_ok addr (replicate 400 0)"
    and "buf_ok haddr mcallc" "length mcallc = 24" "20 \<le> length (m_store m)" "\<forall>m\<in>set args. m_wf m"
    and "length (se_junk e) = 4" "buf_ok credaddr svc_area" "sp_rcache pool = None" "mb_length args < 2 ^ 31"
  shows "\<exists>a st' au mreq. authunix_create host time stack mymem addr upg cr st = Some (a, st') \<and> au_at st' a = Some au \<and>
    unix_sends au haddr mcallc cm m xid proc args mg junk mreq \<and> mreq_ok mreq \<and>
    (\<forall>ms. mreq_ok ms \<and> mchain ms = mchain mreq \<longrightarrow>
      (\<exists>rq. svc_getreq e xprt credaddr raddr ms pool = Some (Some (Some rq, None, pool)) \<and> rq_xid rq = xid \<and> rq_prog rq = cb_prog (rm_call cm) \<and>
        rq_vers rq = cb_vers (rm_call cm) \<and> rq_proc rq = proc \<and> rq_addr rq = raddr \<and> mchain (rq_args rq) = mchain args \<and> same_caller cr rq k gssc))"
proof -
  have inv: "cache_inv H st" using auth_steps_inv [OF assms(1) _ assms(2)] cache_inv_boot by simp
  obtain a st' au where au: "authunix_create host time stack mymem addr upg cr st = Some (a, st')" "au_at st' a = Some au" "au_xcred au = cru2x cr" "unix_made au"
    by (rule authunix_create_inv [OF inv assms(3-8)])
  obtain h t where u: "host_wf h" "unix_client h t (cru2x cr) au" using au(3,4) by (auto simp: unix_made_def)
  obtain hdr mreq where r: "clnt_header haddr mcallc cm = Some (Inr (hdr, 20))"
    "clnt_request mg junk m hdr 20 xid proc (authunix_marshal au) args = Some (Inr mreq)"
    "mchain mreq = unix_call xid (cb_prog (rm_call cm)) (cb_vers (rm_call cm)) proc h t (cru2x cr) @ mchain args"
    "mreq \<noteq> []" "\<forall>m\<in>set mreq. m_wf m"
    by (rule unix_request [OF u(2) assms(9-12)])
  have "mreq_ok mreq" using r(4,5) length_mchain [OF r(5)] length_mchain [OF assms(12)] assms(16) length_unix_call [OF assms(4) u(1), of xid "cb_prog (rm_call cm)" "cb_vers (rm_call cm)" proc t]
    by (simp add: mreq_ok_def r(3))
  moreover
  have "\<exists>rq. svc_getreq e xprt credaddr raddr ms pool = Some (Some (Some rq, None, pool)) \<and> rq_xid rq = xid \<and> rq_prog rq = cb_prog (rm_call cm) \<and>
        rq_vers rq = cb_vers (rm_call cm) \<and> rq_proc rq = proc \<and> rq_addr rq = raddr \<and> mchain (rq_args rq) = mchain args \<and> same_caller cr rq k gssc"
    if got: "mreq_ok ms" "mchain ms = mchain mreq" for ms
  proof -
    let ?msg = "got_call (svc_msg (se_msg e)) (unix_msg (se_msg e) xid (cb_prog (rm_call cm)) (cb_vers (rm_call cm)) proc h t (cru2x cr))"
    have new: "svc_replay e xprt raddr ?msg pool = Some (Some (True, None, pool))" using assms(15) by (simp add: svc_replay_def)
    obtain as cred where g: "svc_getreq e xprt credaddr raddr ms pool = Some (Some (Some ((svc_req0 credaddr)\<lparr>rq_addr := raddr, rq_xid := xid,
        rq_prog := cb_prog (rm_call cm), rq_vers := cb_vers (rm_call cm), rq_proc := proc, rq_args := as, rq_cred := cred,
        rq_clntcred := got_xucred (rq_clntcred (svc_req0 credaddr)) (cru2x cr)\<rparr>), None, pool))" "mchain as = mchain args" "oa_flavor cred = AUTH_SYS"
      by (rule svc_getreq_unix [OF got(1) assms(13) got(2) [unfolded r(3)] assms(4) u(1) assms(14) refl new])
    let ?rq = "(svc_req0 credaddr)\<lparr>rq_addr := raddr, rq_xid := xid,
        rq_prog := cb_prog (rm_call cm), rq_vers := cb_vers (rm_call cm), rq_proc := proc, rq_args := as, rq_cred := cred,
        rq_clntcred := got_xucred (rq_clntcred (svc_req0 credaddr)) (cru2x cr)\<rparr>"
    have "same_caller cr ?rq k gssc"
      by (rule svc_getcred_unix [of ?rq "rq_clntcred (svc_req0 credaddr)" "cru2x cr" gssc k])
        (use g(3) assms(4) in \<open>auto simp: svc_req0_def same_caller_def cru2x_def\<close>)
    then show ?thesis using g(1,2) by (intro exI [of _ ?rq]) simp
  qed
  ultimately show ?thesis using au(1,2) r(1,2) unfolding unix_sends_def by blast
qed

theorem rpc_identity_witness:
  "\<exists>a st' au mreq rq. authunix_create [104, 0] 0 4096 (replicate 400 0) 8192 True (ucred_zero\<lparr>cr_uid := 1001, cr_ngroups := 1\<rparr>) auth_boot = Some (a, st') \<and>
    au_at st' a = Some au \<and> unix_sends au 4096 (replicate 24 0) (null_call 1) ex_mbuf 7 0 [] (se_zone ex_svc) (se_junk ex_svc) mreq \<and>
    svc_getreq ex_svc ex_xprt 4096 (Some [1]) mreq \<lparr>sp_callouts = [], sp_rcache = None\<rparr> = Some (Some (Some rq, None, \<lparr>sp_callouts = [], sp_rcache = None\<rparr>)) \<and>
    rq_xid rq = 7 \<and> rq_prog rq = 100003 \<and> same_caller (ucred_zero\<lparr>cr_uid := 1001, cr_ngroups := 1\<rparr>) rq ex_kern None"
proof -
  let ?cr = "ucred_zero\<lparr>cr_uid := 1001, cr_ngroups := 1\<rparr>" and ?pool = "\<lparr>sp_callouts = [], sp_rcache = None\<rparr>"
  have h: "(auth_step {0})\<^sup>*\<^sup>* ({#}, auth_boot) ({#}, auth_boot)" "AUTH_SHORT \<notin> {0}" "size {#} + 2 < (2 :: nat) ^ 32"
    "xucred_wf (cru2x ?cr)" "host_wf [104, 0]" "buf_ok 4096 (replicate 400 0)" "length (replicate 400 (0 :: 8 word)) = 400" "buf_ok 8192 (replicate 400 0)"
    "buf_ok 4096 (replicate 24 0)" "length (replicate 24 (0 :: 8 word)) = 24" "20 \<le> length (m_store ex_mbuf)" "\<forall>m\<in>set []. m_wf m"
    "length (se_junk ex_svc) = 4" "buf_ok 4096 svc_area" "sp_rcache ?pool = None" "mb_length [] < 2 ^ 31"
    by (simp_all add: xucred_wf_def cru2x_def ucred_zero_def host_wf_def buf_ok_def ex_mbuf_def ex_svc_def svc_area_def mb_length_def)
  have c: "cb_prog (rm_call (null_call 1)) = 100003" by (simp add: null_call_def Let_def)
  show ?thesis
    using rpc_identity [OF h, where xid = 7 and raddr = "Some [1]" and k = ex_kern and gssc = None and cm = "null_call 1" and proc = 0
        and mg = "se_zone ex_svc" and junk = "se_junk ex_svc" and time = 0 and upg = True and xprt = ex_xprt]
    unfolding c by blast
qed

end
