(* ===== verification/Spec2Isabelle.thy ===== *)
theory Spec2Isabelle
  imports CredProps ProcProps VaccessProps BpfDescProps UnrProps SvcProps
begin

text \<open>
  A verification library for the FreeBSD 8 kernel in \<^verbatim>\<open>src/sys\<close>, for the machine and the options of
  \<^verbatim>\<open>src/sys/i386/conf/BEASTIE2\<close>: 32-bit \<^verbatim>\<open>long\<close> and pointers, \<^verbatim>\<open>INVARIANTS\<close> compiled in, no mandatory
  access control, no auditing arguments, no packet filter compiler.

  \<^bold>\<open>Conventions\<close> (\<^verbatim>\<open>KPrelude\<close>). Machine integers are words of their width; where an integer is a length or
  a counter that an invariant bounds, it is a natural number. Stateful operations return an \<open>option\<close>: \<open>None\<close> is a fault,
  that is a failed \<^verbatim>\<open>KASSERT\<close>, a null or freed pointer or an access outside an object. Error numbers are values.
  Heap objects live in a list of slots that are never reused. What the code does not contain (copying from user space,
  stale memory, the clock) is an argument. \<open>runs m Q\<close> says that \<open>m\<close> does not fault and its result satisfies \<open>Q\<close>.
  \<^verbatim>\<open>Simulation\<close> holds sequences of calls and the interface \<open>op_refines\<close> of components that implement an abstract one.

  \<^bold>\<open>Credentials.\<close> \<^verbatim>\<open>Refcount\<close> (\<^verbatim>\<open>sys/refcount.h\<close>) with the interface \<open>refcounted\<close>, which
  \<^verbatim>\<open>Uidinfo\<close> (\<^verbatim>\<open>kern_resource.c\<close>) and \<^verbatim>\<open>Jail\<close> (\<^verbatim>\<open>kern_jail.c\<close>, also the address and
  visibility checks and the privileges of prisons) provide; \<^verbatim>\<open>CredTypes\<close> and \<^verbatim>\<open>Priv\<close> (\<^verbatim>\<open>kern_priv.c\<close>);
  \<^verbatim>\<open>Ucred\<close> and \<^verbatim>\<open>SetIds\<close> (\<^verbatim>\<open>kern_prot.c\<close>): credential objects and the system calls
  that change them. \<^verbatim>\<open>CredInv\<close> states the global invariant: each reference count is the number of pointers to
  the object, and each user's process count the number of its processes. \<^verbatim>\<open>SetIdsSpec\<close> says on user and group ids
  alone what each call does, \<^verbatim>\<open>SetIdsProof\<close>, \<^verbatim>\<open>CredBuild\<close>, \<^verbatim>\<open>CredOps\<close> prove
  that the heap version implements it, \<^verbatim>\<open>CredSystem\<close> runs sequences of calls, and \<^verbatim>\<open>CredProps\<close>
  concludes: no leaks and no dangling pointers, no privilege escalation, \<^verbatim>\<open>setuid\<close> drops privilege for good. The steps are
  the credential calls and the entries of threads into the kernel; \<^verbatim>\<open>execve\<close> is not among them.

  \<^bold>\<open>Access decisions.\<close> \<^verbatim>\<open>ProcAccess\<close> (\<^verbatim>\<open>kern_prot.c\<close>): who may see, signal, schedule,
  debug or wait for whom; \<^verbatim>\<open>ProcProps\<close> orders these rights and shows that jails confine and that processes
  which changed identity are protected. \<^verbatim>\<open>Vaccess\<close> (\<^verbatim>\<open>vfs_subr.c\<close>, \<^verbatim>\<open>subr_acl_posix1e.c\<close>,
  \<^verbatim>\<open>sysv_ipc.c\<close>): access to files by mode and by list; \<^verbatim>\<open>VaccessProps\<close> shows that the two agree, except on
  requests for appending without writing.

  \<^bold>\<open>Packet filter.\<close> \<^verbatim>\<open>Bpf\<close> (\<^verbatim>\<open>net/bpf_filter.c\<close>): the interpreter, a
  \<^theory_text>\<open>partial_function\<close> since an arbitrary program may loop, and the validator; \<^verbatim>\<open>BpfProps\<close> shows that
  validated programs of at least one instruction return without a fault. \<^verbatim>\<open>BpfDesc\<close> (\<^verbatim>\<open>net/bpf.c\<close>, \<^verbatim>\<open>net/bpf_buffer.c\<close>):
  descriptors with their three buffer slots and any number of readers that sleep and copy, perhaps in vain, while packets arrive;
  \<^verbatim>\<open>BpfDescProps\<close> shows that nothing faults and that every captured packet is copied out once, in order and complete, under
  conditions (\<open>start_ok\<close>, \<open>events_ok\<close>): no reader begins to copy and nobody flushes while another reader copies, and the buffer
  size leaves room for a header wherever a record fits. It also shows what happens otherwise: in either case a buffer is lost
  and a later packet is written through a null pointer, and a header is written past the end of its buffer.

  \<^bold>\<open>Unit numbers.\<close> \<^verbatim>\<open>Bitstring\<close> (\<^verbatim>\<open>sys/bitstring.h\<close>) meets the interface \<open>bitstring\<close>;
  \<^verbatim>\<open>Unr\<close> (\<^verbatim>\<open>kern/subr_unit.c\<close>) allocates from runs and bitmaps; \<^verbatim>\<open>UnrProps\<close> shows that
  it refines a set of numbers with lowest-first allocation.

  \<^bold>\<open>Remote procedure calls.\<close> \<^verbatim>\<open>Xdr\<close> (\<^verbatim>\<open>xdr/xdr.c\<close>, \<^verbatim>\<open>xdr_array.c\<close>, \<^verbatim>\<open>xdr_reference.c\<close>) is generic in the stream;
  \<^verbatim>\<open>XdrStream\<close> states what a stream promises as the interfaces \<open>xdr_writer\<close>, \<open>xdr_reader\<close> and \<open>xdr_seeker\<close>, which the
  memory streams of \<^verbatim>\<open>XdrMem\<close> (\<^verbatim>\<open>xdr_mem.c\<close>, \<^verbatim>\<open>xdr_sizeof.c\<close>) and the mbuf streams of \<^verbatim>\<open>XdrMbuf\<close> (\<^verbatim>\<open>xdr_mbuf.c\<close>)
  provide. \<^verbatim>\<open>RpcMsg\<close> (\<^verbatim>\<open>rpc_prot.c\<close>, \<^verbatim>\<open>rpc_callmsg.c\<close>): calls and replies; \<^verbatim>\<open>RpcCodec\<close>: their octets, written and
  read back. \<^verbatim>\<open>AuthUnix\<close> (\<^verbatim>\<open>authunix_prot.c\<close>, \<^verbatim>\<open>svc_auth_unix.c\<close>, \<^verbatim>\<open>svc_auth.c\<close>), \<^verbatim>\<open>AuthClient\<close> (\<^verbatim>\<open>auth_unix.c\<close>) and
  \<^verbatim>\<open>RpcCall\<close>: Unix-style authentication on both sides and the request; \<^verbatim>\<open>AuthCodec\<close> and \<^verbatim>\<open>RpcAuth\<close>: that the server takes from the
  octets the credential the client had; \<^verbatim>\<open>AuthCache\<close>: the reference counts of the shared authenticators, whatever threads do,
  and that they keep the original credential as long as no server hands out a shorthand one.
  \<^verbatim>\<open>Chains\<close> holds what the hash tables of the two caches share. \<^verbatim>\<open>Replay\<close> (\<^verbatim>\<open>replay.c\<close>): the cache of replies, whose pruning
  loop may not end, which is the outer \<open>None\<close> of its results; \<^verbatim>\<open>ReplayProps\<close> shows that a call in progress is not
  executed again, that lookups end while fewer than 1024 calls are in progress, and exactly when one does not end, for clients that
  use no xid for two different calls, nor the xid 0 (\<open>good_calls\<close>). \<^verbatim>\<open>Svc\<close>
  (\<^verbatim>\<open>svc.c\<close>, \<^verbatim>\<open>svc_dg.c\<close>): registration, replies and the way of a request to its service. \<^verbatim>\<open>ClntDg\<close> (\<^verbatim>\<open>clnt_dg.c\<close>,
  \<^verbatim>\<open>auth_none.c\<close>): a call in the steps between which it gives up the lock, the upcall, creation, control and close.
  \<^verbatim>\<open>SvcProps\<close> shows that a call reaches a server without a replay cache with its arguments and the identity of its process, and
  that each kind of answer reaches the waiting call. There is no theorem about interleavings of the client's steps.

  \<^verbatim>\<open>Examples\<close> is a small system on which properties are exercised.

  \<^bold>\<open>Bounds.\<close> No theorem is about bounded runs: sequences of calls, packets, programs and lists are arbitrary.
  \<open>bpf_exec\<close> has a bound on instructions and serves only to evaluate examples.

  \<^bold>\<open>Not modelled.\<close> Device drivers, buses, boot and machine-dependent code depend on hardware that is not in
  the repository; file systems, the network protocols, virtual memory, the scheduler, compatibility layers and the
  contributed subsystems are large parts of their own that the modelled code does not call. Of the modelled files,
  the sockets, the threads of a server pool, connection-oriented transports, \<^verbatim>\<open>RPCSEC_GSS\<close> and the port mapper are parameters or left
  out; what copies from or to user space without deciding anything, debugging output and \<^verbatim>\<open>sysctl\<close> glue is left out. The
  properties do not speak about memory ordering or about preemption inside a critical section: code that holds
  a lock is one step.
\<close>

end
